(* ===== verification/Prelude.thy ===== *)
theory Prelude
  imports Main "HOL-Library.Word" "HOL-Library.Signed_Division"
begin

text \<open>
  Shared ground of the development: the names of the machine integer types, the result type in
  which every assertion failure, panic and undefined access of the C code is a value, its
  sequencing operator with the rules the component proofs rely on, and generic facts on words
  and on arrays modelled as lists.
\<close>

unbundle bit_operations_syntax

section \<open>Machine integers\<close>

type_synonym u8 = "8 word"
type_synonym u16 = "16 word"
type_synonym u32 = "32 word"
type_synonym u64 = "64 word"

section \<open>Results: errors as values\<close>

text \<open>
  \<open>Panic\<close> is a call of \<^verbatim>\<open>panic\<close> or a failed \<^verbatim>\<open>assert\<close>/\<^verbatim>\<open>Assert\<close> (the process stops with a message);
  \<open>HostFault\<close> is what C leaves undefined and the host may punish: an access outside an array, a
  division trap, a null pointer.
\<close>

datatype error = Panic string | HostFault string

type_synonym 'a res = "error + 'a"

definition bindE :: "'e + 'a \<Rightarrow> ('a \<Rightarrow> 'e + 'b) \<Rightarrow> 'e + 'b" where
  "bindE m f = (case m of Inl e \<Rightarrow> Inl e | Inr x \<Rightarrow> f x)"

definition assertE :: "bool \<Rightarrow> string \<Rightarrow> unit res" where
  "assertE b msg = (if b then Inr () else Inl (Panic msg))"

definition isOk :: "'e + 'a \<Rightarrow> bool" where
  "isOk m = (case m of Inl _ \<Rightarrow> False | Inr _ \<Rightarrow> True)"

lemma bindE_simps [simp]:
  "bindE (Inl e) f = Inl e"
  "bindE (Inr x) f = f x"
  by (simp_all add: bindE_def)

lemma assertE_simps [simp]:
  "assertE True msg = Inr ()"
  "assertE False msg = Inl (Panic msg)"
  by (simp_all add: assertE_def)

lemma isOk_simps [simp]: "isOk (Inr x)" "\<not> isOk (Inl e)"
  by (simp_all add: isOk_def)

lemma bindE_Inr_conv: "bindE m f = Inr y \<longleftrightarrow> (\<exists>x. m = Inr x \<and> f x = Inr y)"
  by (cases m) auto

lemma bindE_InrE [elim!]:
  assumes "bindE m f = Inr y"
  obtains x where "m = Inr x" and "f x = Inr y"
  using assms by (cases m) auto

lemma assertE_InrD [dest!]: "assertE b msg = Inr u \<Longrightarrow> b"
  by (cases b) auto

lemma assertE_Inr_conv: "assertE b msg = Inr u \<longleftrightarrow> b"
  by (cases b) auto

lemma bindE_assoc: "bindE (bindE m f) g = bindE m (\<lambda>x. bindE (f x) g)"
  by (cases m) auto

lemma isOk_conv: "isOk m \<longleftrightarrow> (\<exists>x. m = Inr x)"
  by (cases m) auto

text \<open>
  Partial-correctness triples over results: if the computation returns, the result satisfies the
  predicate. Every preservation lemma of the emulator is one of these, and sequencing composes them.
\<close>

definition okP :: "('a \<Rightarrow> bool) \<Rightarrow> 'e + 'a \<Rightarrow> bool" where
  "okP P m = (case m of Inl _ \<Rightarrow> True | Inr x \<Rightarrow> P x)"

lemma okP_simps [simp]: "okP P (Inl e)" "okP P (Inr x) = P x"
  by (simp_all add: okP_def)

lemma okP_bindE: "okP (\<lambda>x. okP P (f x)) m \<Longrightarrow> okP P (bindE m f)"
  by (cases m) auto

lemma okP_bindE_conv: "okP P (bindE m f) = okP (\<lambda>x. okP P (f x)) m"
  by (cases m) auto

lemma okP_assertE: "(b \<Longrightarrow> P ()) \<Longrightarrow> okP P (assertE b msg)"
  by (cases b) auto

lemma okP_mono: "okP P m \<Longrightarrow> (\<And>x. P x \<Longrightarrow> Q x) \<Longrightarrow> okP Q m"
  by (cases m) auto

lemma okP_InrD: "okP P m \<Longrightarrow> m = Inr x \<Longrightarrow> P x"
  by simp

lemma okP_conv: "okP P m \<longleftrightarrow> (\<forall>x. m = Inr x \<longrightarrow> P x)"
  by (cases m) auto

section \<open>Arrays as lists\<close>

text \<open>A C array access with its bounds made explicit.\<close>

definition arr_get :: "'a list \<Rightarrow> nat \<Rightarrow> 'a res" where
  "arr_get xs i = (if i < length xs then Inr (xs ! i) else Inl (HostFault ''array index''))"

definition arr_set :: "'a list \<Rightarrow> nat \<Rightarrow> 'a \<Rightarrow> 'a list res" where
  "arr_set xs i v = (if i < length xs then Inr (xs[i := v]) else Inl (HostFault ''array index''))"

lemma arr_get_ok [simp]: "i < length xs \<Longrightarrow> arr_get xs i = Inr (xs ! i)"
  by (simp add: arr_get_def)

lemma arr_set_ok [simp]: "i < length xs \<Longrightarrow> arr_set xs i v = Inr (xs[i := v])"
  by (simp add: arr_set_def)

lemma nth_list_update_if: "xs[i := v] ! j = (if i = j \<and> j < length xs then v else xs ! j)"
  by (cases "i < length xs") (auto simp: list_update_beyond)

section \<open>Words\<close>

lemma unat_mask_lt: "unat (x AND mask n :: 'a::len word) < 2 ^ n"
proof -
  have "x AND mask n = take_bit n x"
    by (simp add: take_bit_eq_mask)
  then show ?thesis by (simp add: unsigned_take_bit_eq)
qed

lemma word_msb_less_zero: "x <s 0 \<longleftrightarrow> sint x < 0"
  by (simp add: word_sless_alt)

lemma bit_word_mask [simp]: "bit (mask n :: 'a::len word) i \<longleftrightarrow> i < n \<and> i < LENGTH('a)"
  by (auto simp: bit_mask_iff)

end
