(* ===== verification/Nemu_Macros.thy ===== *)
theory Nemu_Macros
  imports Prelude
begin

text \<open>
  The bit macros of \<^verbatim>\<open>nemu/include/macro.h\<close> and the instruction pattern compiler of
  \<^verbatim>\<open>nemu/include/cpu/decode.h\<close>. The main result, \<open>inst_match_iff\<close>, shows that the key, mask and shift
  test an \<^verbatim>\<open>INSTPAT\<close> performs is the bit by bit reading of its pattern string.
\<close>

section \<open>Bit fields\<close>

text \<open>
  \<^verbatim>\<open>BITS(x, hi, lo)\<close> shifts and masks with an unsigned 64-bit mask, so its value is 64 bits wide;
  on a signed 64-bit operand the shift is arithmetic.
\<close>

definition BITMASK :: "nat \<Rightarrow> u64" where
  "BITMASK n = push_bit n 1 - 1"

definition BITS :: "u32 \<Rightarrow> nat \<Rightarrow> nat \<Rightarrow> u64" where
  "BITS x hi lo = ucast (drop_bit lo x) AND BITMASK (hi - lo + 1)"

definition BITS_i64 :: "u64 \<Rightarrow> nat \<Rightarrow> nat \<Rightarrow> u64" where
  "BITS_i64 x hi lo = signed_drop_bit lo x AND BITMASK (hi - lo + 1)"

text \<open>\<^verbatim>\<open>SEXT(x, len)\<close> stores into a signed bit field of \<open>len\<close> bits and reads it back at 64 bits.\<close>

definition SEXT :: "u64 \<Rightarrow> nat \<Rightarrow> u64" where
  "SEXT x len = signed_take_bit (len - 1) x"

lemma BITMASK_mask: "BITMASK n = mask n"
  by (simp add: BITMASK_def mask_eq_decr_exp push_bit_eq_mult)

lemma bit_BITS: "bit (BITS x hi lo) i \<longleftrightarrow> i < hi - lo + 1 \<and> bit x (lo + i)"
proof
  assume "bit (BITS x hi lo) i"
  then show "i < hi - lo + 1 \<and> bit x (lo + i)"
    by (auto simp: BITS_def BITMASK_mask bit_and_iff bit_ucast_iff bit_drop_bit_eq)
next
  assume *: "i < hi - lo + 1 \<and> bit x (lo + i)"
  then have "lo + i < 32" using bit_imp_le_length [of x "lo + i"] by simp
  with * show "bit (BITS x hi lo) i"
    by (auto simp: BITS_def BITMASK_mask bit_and_iff bit_ucast_iff bit_drop_bit_eq)
qed

lemma BITS_take_bit: "BITS x hi lo = take_bit (hi - lo + 1) (ucast (drop_bit lo x))"
  by (simp add: BITS_def BITMASK_mask take_bit_eq_mask)

lemma unat_BITS: "unat (BITS x hi lo) = (unat x div 2 ^ lo) mod 2 ^ (hi - lo + 1)"
proof -
  have "unat (drop_bit lo x) < 2 ^ 64"
    by (rule less_trans [OF unsigned_less]) simp
  then have "unat (ucast (drop_bit lo x) :: u64) = unat (drop_bit lo x)"
    by (simp only: unsigned_ucast_eq take_bit_nat_eq_self) (simp add: take_bit_nat_eq_self)
  also have "\<dots> = unat x div 2 ^ lo"
    by (metis drop_bit_eq_div unat_drop_bit_eq)
  finally show ?thesis
    by (metis BITS_take_bit unsigned_take_bit_eq take_bit_eq_mod)
qed

lemma unat_BITS_bound: "unat (BITS x hi lo) < 2 ^ (hi - lo + 1)"
  by (simp add: unat_BITS)

lemma unat_BITS5: "unat (BITS x (lo + 4) lo) < 32"
  using unat_BITS_bound [of x "lo + 4" lo] by simp

lemma bit_SEXT:
  "0 < len \<Longrightarrow> len \<le> 64 \<Longrightarrow> bit (SEXT x len) i \<longleftrightarrow> i < 64 \<and> bit x (min i (len - 1))"
  by (auto simp: SEXT_def bit_signed_take_bit_iff min.commute)

section \<open>Compiling a pattern string\<close>

text \<open>
  \<^verbatim>\<open>pattern_decode\<close> walks the string with 64 unrolled steps: a blank is skipped, any character other
  than \<open>0\<close>, \<open>1\<close> and \<open>?\<close> panics, and a string of 64 characters or more falls through to the
  panic after the last step.
\<close>

definition shl1_or :: "u64 \<Rightarrow> bool \<Rightarrow> u64" where
  "shl1_or w b = push_bit 1 w OR (if b then 1 else 0)"

fun pattern_step :: "char \<Rightarrow> u64 \<times> u64 \<times> nat \<Rightarrow> (u64 \<times> u64 \<times> nat) res" where
  "pattern_step c (key, msk, sh) =
     (if c = CHR '' '' then Inr (key, msk, sh)
      else bindE (assertE (c = CHR ''0'' \<or> c = CHR ''1'' \<or> c = CHR ''?'')
                    ''invalid character in pattern string'')
        (\<lambda>_. Inr (shl1_or key (c = CHR ''1''), shl1_or msk (c \<noteq> CHR ''?''),
                   (if c = CHR ''?'' then sh + 1 else 0))))"

fun pattern_fold :: "string \<Rightarrow> u64 \<times> u64 \<times> nat \<Rightarrow> (u64 \<times> u64 \<times> nat) res" where
  "pattern_fold [] st = Inr st"
| "pattern_fold (c # cs) st = bindE (pattern_step c st) (pattern_fold cs)"

definition pattern_decode :: "string \<Rightarrow> (u64 \<times> u64 \<times> nat) res" where
  "pattern_decode str =
     bindE (pattern_fold (take 64 str) (0, 0, 0)) (\<lambda>(key, msk, sh).
       if length str < 64 then Inr (drop_bit sh key, drop_bit sh msk, sh)
       else Inl (Panic ''pattern too long''))"

text \<open>The test of \<^verbatim>\<open>INSTPAT\<close>: the fetched word, shifted and masked, equals the key.\<close>

definition inst_match :: "string \<Rightarrow> u32 \<Rightarrow> bool res" where
  "inst_match pat i =
     bindE (pattern_decode pat) (\<lambda>(key, msk, sh). Inr (drop_bit sh (ucast i) AND msk = key))"

section \<open>What a pattern means\<close>

text \<open>
  The reading of a pattern: its characters without blanks, the last one standing for bit 0; a
  \<open>?\<close> accepts both values, any other character fixes the bit.
\<close>

definition pattern_bits :: "string \<Rightarrow> string" where
  "pattern_bits str = rev (filter (\<lambda>c. c \<noteq> CHR '' '') str)"

definition pattern_valid :: "string \<Rightarrow> bool" where
  "pattern_valid str = (length str < 64 \<and>
     list_all (\<lambda>c. c \<in> {CHR '' '', CHR ''0'', CHR ''1'', CHR ''?''}) str)"

definition pattern_reads :: "string \<Rightarrow> u32 \<Rightarrow> bool" where
  "pattern_reads str i = (\<forall>k < length (pattern_bits str).
     pattern_bits str ! k = CHR ''?'' \<or> (bit i k \<longleftrightarrow> pattern_bits str ! k = CHR ''1''))"

text \<open>The state of the walk after the non-blank characters \<open>ds\<close> (latest first).\<close>

definition pattern_rep :: "string \<Rightarrow> u64 \<times> u64 \<times> nat \<Rightarrow> bool" where
  "pattern_rep ds st = (case st of (key, msk, sh) \<Rightarrow>
     (\<forall>k < 64. bit key k \<longleftrightarrow> k < length ds \<and> ds ! k = CHR ''1'') \<and>
     (\<forall>k < 64. bit msk k \<longleftrightarrow> k < length ds \<and> ds ! k \<noteq> CHR ''?'') \<and>
     (\<forall>k < sh. k < length ds \<and> ds ! k = CHR ''?''))"

lemma pattern_rep_Nil: "pattern_rep [] (0, 0, 0)"
  by (simp add: pattern_rep_def)

lemma bit_shl1_or: "bit (shl1_or w b) k \<longleftrightarrow> k < 64 \<and> (if k = 0 then b else bit w (k - 1))"
proof -
  have "bit (shl1_or w b) k \<longleftrightarrow> bit (push_bit 1 w) k \<or> (b \<and> k = 0)"
    by (auto simp: shl1_or_def bit_or_iff bit_1_iff simp del: push_bit_of_1 push_bit_Suc One_nat_def)
  then show ?thesis by (auto simp: bit_push_bit_iff simp del: One_nat_def)
qed

lemma pattern_step_rep:
  assumes rep: "pattern_rep ds st" and c: "c \<in> {CHR '' '', CHR ''0'', CHR ''1'', CHR ''?''}"
  shows "\<exists>st'. pattern_step c st = Inr st' \<and>
     pattern_rep (if c = CHR '' '' then ds else c # ds) st'"
proof (cases "c = CHR '' ''")
  case True
  with rep show ?thesis by (cases st) auto
next
  case False
  obtain key msk sh where st: "st = (key, msk, sh)" by (cases st)
  let ?key = "shl1_or key (c = CHR ''1'')"
  let ?msk = "shl1_or msk (c \<noteq> CHR ''?'')"
  let ?sh = "if c = CHR ''?'' then sh + 1 else 0"
  have eq: "pattern_step c st = Inr (?key, ?msk, ?sh)"
    using False c by (auto simp: st)
  have "pattern_rep (c # ds) (?key, ?msk, ?sh)"
    using rep unfolding pattern_rep_def st
    by (auto simp: bit_shl1_or nth_Cons less_Suc_eq_0_disj split: nat.splits)
  with eq False show ?thesis by simp
qed

lemma pattern_fold_rep:
  "pattern_rep ds st \<Longrightarrow> list_all (\<lambda>c. c \<in> {CHR '' '', CHR ''0'', CHR ''1'', CHR ''?''}) cs \<Longrightarrow>
   \<exists>st'. pattern_fold cs st = Inr st' \<and> pattern_rep (pattern_bits cs @ ds) st'"
proof (induction cs arbitrary: ds st)
  case Nil
  then show ?case by (simp add: pattern_bits_def)
next
  case (Cons c cs)
  from Cons.prems have c: "c \<in> {CHR '' '', CHR ''0'', CHR ''1'', CHR ''?''}" by simp
  from pattern_step_rep [OF Cons.prems(1) c] obtain st' where
    step: "pattern_step c st = Inr st'" and
    rep: "pattern_rep (if c = CHR '' '' then ds else c # ds) st'" by blast
  from Cons.IH [OF rep] Cons.prems(2) obtain st'' where
    "pattern_fold cs st' = Inr st''"
    "pattern_rep (pattern_bits cs @ (if c = CHR '' '' then ds else c # ds)) st''" by auto
  with step show ?case by (auto simp: pattern_bits_def split: if_splits)
qed

lemma pattern_rep_match:
  assumes "pattern_rep ds (key, msk, sh)" and "length ds < 64"
  shows "(drop_bit sh (ucast (i :: u32)) AND drop_bit sh msk = drop_bit sh key) \<longleftrightarrow>
     (\<forall>k < length ds. ds ! k = CHR ''?'' \<or> (bit i k \<longleftrightarrow> ds ! k = CHR ''1''))" (is "?L \<longleftrightarrow> ?R")
proof
  assume L: ?L
  show ?R
  proof (intro allI impI)
    fix k assume k: "k < length ds"
    show "ds ! k = CHR ''?'' \<or> (bit i k \<longleftrightarrow> ds ! k = CHR ''1'')"
    proof (cases "k < sh")
      case True
      with assms(1) k show ?thesis by (auto simp: pattern_rep_def)
    next
      case False
      have "bit (drop_bit sh (ucast i) AND drop_bit sh msk) (k - sh) = bit (drop_bit sh key) (k - sh)"
        by (simp add: L)
      then have "bit (ucast i :: u64) k \<and> bit msk k \<longleftrightarrow> bit key k"
        using False by (simp add: bit_and_iff bit_drop_bit_eq)
      with assms k show ?thesis by (auto simp: pattern_rep_def bit_ucast_iff)
    qed
  qed
next
  assume R: ?R
  show ?L
  proof (rule bit_word_eqI)
    fix n assume n: "n < LENGTH(64)"
    show "bit (drop_bit sh (ucast i) AND drop_bit sh msk) n = bit (drop_bit sh key) n"
    proof (cases "sh + n < 64")
      case True
      with assms(1) R show ?thesis
        by (auto simp: bit_and_iff bit_drop_bit_eq pattern_rep_def bit_ucast_iff)
    next
      case False
      then show ?thesis
        by (auto simp: bit_and_iff bit_drop_bit_eq dest!: bit_imp_le_length)
    qed
  qed
qed

lemma length_pattern_bits: "length (pattern_bits str) \<le> length str"
  by (simp add: pattern_bits_def)

lemma inst_match_iff_sound:
  assumes "pattern_valid str"
  shows "inst_match str i = Inr (pattern_reads str i)"
proof -
  from assms have len: "length str < 64"
    and ok: "list_all (\<lambda>c. c \<in> {CHR '' '', CHR ''0'', CHR ''1'', CHR ''?''}) str"
    by (auto simp: pattern_valid_def)
  from pattern_fold_rep [OF pattern_rep_Nil ok] obtain key msk sh where
    f: "pattern_fold str (0, 0, 0) = Inr (key, msk, sh)" and
    r: "pattern_rep (pattern_bits str) (key, msk, sh)" by auto
  have "length (pattern_bits str) < 64"
    using length_pattern_bits [of str] len by simp
  from pattern_rep_match [OF r this] f len show ?thesis
    by (simp add: inst_match_def pattern_decode_def pattern_reads_def)
qed

text \<open>C12: the compiled key/mask/shift test of an \<^verbatim>\<open>INSTPAT\<close> accepts exactly the words its pattern
  string describes bit by bit, and never panics on a well-formed pattern.\<close>

theorem inst_match_iff:
  assumes "pattern_valid str"
  shows "inst_match str i = Inr (pattern_reads str i)"
  using assms by (rule inst_match_iff_sound)

theorem inst_match_iff_witness:
  "inst_match ''0000000 ????? ????? 000 ????? 01100 11'' 0x00628233 =
     Inr (pattern_reads ''0000000 ????? ????? 000 ????? 01100 11'' 0x00628233)"
  by (rule inst_match_iff) (simp add: pattern_valid_def)

lemma pattern_decode_too_long:
  "64 \<le> length str \<Longrightarrow> \<exists>e. pattern_decode str = Inl e"
  by (cases "pattern_fold (take 64 str) (0, 0, 0)") (auto simp: pattern_decode_def)

end
