(* ===== verification/Nemu_State.thy ===== *)
theory Nemu_State
  imports Nemu_Macros
begin

text \<open>
  The state of the emulator: the architectural state of the RV32 core
  (\<^verbatim>\<open>nemu/src/isa/riscv32/include/isa-def.h\<close>), the run state (\<^verbatim>\<open>include/utils.h\<close>), guest memory, the I/O
  space with its table of memory-mapped regions (\<^verbatim>\<open>include/device/map.h\<close>), the static variables of
  the devices, and the host environment the emulator reads from (clock, standard input, SDL events).
  The Kconfig values are a record of their own, passed to every function that depends on them.
\<close>

section \<open>Configuration\<close>

record config =
  CONFIG_MBASE :: u32
  CONFIG_MSIZE :: u32
  CONFIG_PC_RESET_OFFSET :: u32
  CONFIG_DEVICE :: bool
  CONFIG_DIFFTEST :: bool
  CONFIG_WATCHPOINT :: bool
  CONFIG_SERIAL_MMIO :: u32
  CONFIG_RTC_MMIO :: u32
  CONFIG_HWDEV_TIMER_MMIO :: u32
  CONFIG_HWDEV_UART_MMIO :: u32
  CONFIG_I8042_DATA_MMIO :: u32
  CONFIG_VGA_CTL_MMIO :: u32
  CONFIG_FB_ADDR :: u32
  CONFIG_AUDIO_CTL_MMIO :: u32
  CONFIG_SB_ADDR :: u32
  CONFIG_SB_SIZE :: u32

text \<open>The defaults of the Kconfig files for riscv, with devices on.\<close>

definition default_config :: config where
  "default_config = \<lparr>
     CONFIG_MBASE = 0x80000000, CONFIG_MSIZE = 0x00010000, CONFIG_PC_RESET_OFFSET = 0,
     CONFIG_DEVICE = True, CONFIG_DIFFTEST = False, CONFIG_WATCHPOINT = False,
     CONFIG_SERIAL_MMIO = 0xa00003f8, CONFIG_RTC_MMIO = 0xa0000048,
     CONFIG_HWDEV_TIMER_MMIO = 0x80010000, CONFIG_HWDEV_UART_MMIO = 0x80020000,
     CONFIG_I8042_DATA_MMIO = 0xa0000060, CONFIG_VGA_CTL_MMIO = 0xa0000100,
     CONFIG_FB_ADDR = 0xa1000000, CONFIG_AUDIO_CTL_MMIO = 0xa0000200,
     CONFIG_SB_ADDR = 0xa1200000, CONFIG_SB_SIZE = 0x10000 \<rparr>"

section \<open>Core state\<close>

record cpu_state =
  gpr :: "u32 list"
  pc :: u32
  true_pc :: u32
  csr_pr :: "u32 list"
  cycle :: u64

datatype nemu_status = NEMU_RUNNING | NEMU_STOP | NEMU_END | NEMU_ABORT | NEMU_QUIT

record nemu_run =
  state :: nemu_status
  halt_pc :: u32
  halt_ret :: u32

section \<open>Device state\<close>

datatype io_callback = CbNull | CbSerial | CbRtc | CbHwTimer | CbHwUart | CbKeyboard | CbAudio

record iomap =
  map_name :: string
  low :: u32
  high :: u32
  space :: nat
  callback :: io_callback

record hw_timer =
  t_cr :: u32
  t_sr :: u32
  t_psc :: u32
  t_load :: u32
  t_count :: u32
  t_clk_cnt :: u32

record hw_uart =
  u_cr :: u32
  u_sr :: u32
  u_baud :: u32
  u_rxd :: u32
  u_txd :: u32
  u_has_data :: bool

datatype sdl_event = SDL_QUIT | SDL_KEYDOWN u8 | SDL_KEYUP u8 | SDL_OTHER

section \<open>Debugger state\<close>

text \<open>
  The token buffer of the expression evaluator and the watchpoint pool. \<open>TK_ZERO\<close> is the type of a
  buffer entry that was never written. A token's text is the whole
  character array, a watchpoint refers to the next one by its index in the pool.
\<close>

datatype tok_type = TK_ZERO | TK_NOTYPE | TK_EQ | TK_REGS_NAME | TK_SUB | TK_MUL | TK_LPAREN | TK_RPAREN | TK_DIV
  | TK_NUMBER | TK_HEX | TK_ADD | TK_DEREF | TK_MINUS | TK_EQORLGT | TK_EQORLST | TK_LGAND | TK_LGOR
  | TK_LGXOR | TK_NEQ

record token =
  tk_type :: tok_type
  tk_str :: string

record wp =
  wp_used :: bool
  wp_NO :: nat
  wp_next :: "nat option"
  wp_exprs :: string
  wp_num :: u32

section \<open>The machine\<close>

text \<open>
  \<open>host_clock n\<close> is what the \<open>n\<close>-th reading of the host clock returns, \<open>host_stdin\<close> what the next
  non-blocking reads return (\<open>None\<close>: nothing there), \<open>host_sdl n\<close> the events queued when the queue is
  drained for the \<open>n\<close>-th time; \<open>host_out\<close> collects the characters written to the host terminal.
\<close>

record nemu =
  cpu :: cpu_state
  nemu_state :: nemu_run
  g_nr_guest_inst :: u64
  pmem :: "nat \<Rightarrow> u8"
  io_space :: "nat \<Rightarrow> u8"
  p_space :: nat
  maps :: "iomap list"
  hwdev_timer_p :: "hw_timer option"
  timer_base :: nat
  hwdev_uart_p :: "hw_uart option"
  uart_base :: nat
  serial_base :: nat
  rtc_port_base :: nat
  i8042_data_port_base :: nat
  vgactl_port_base :: nat
  audio_base :: nat
  keymap :: "u8 \<Rightarrow> u32"
  key_queue :: "u32 list"
  key_f :: nat
  key_r :: nat
  timer_intr_pending :: bool
  device_last :: u64
  boot_time :: u64
  is_skip_ref :: bool
  skip_dut_nr_inst :: int
  host_clock :: "nat \<Rightarrow> u64"
  clock_reads :: nat
  host_stdin :: "u8 option list"
  host_sdl :: "nat \<Rightarrow> sdl_event list"
  sdl_polls :: nat
  host_out :: "u8 list"
  tokens :: "token list"
  nr_token :: nat
  wp_pool :: "wp list"
  wp_head :: "nat option"
  wp_free :: "nat option"

section \<open>Register access\<close>

text \<open>
  \<^verbatim>\<open>gpr(idx)\<close> and \<^verbatim>\<open>csr_pr(idx)\<close> with the run-time checks of \<^verbatim>\<open>CONFIG_RT_CHECK\<close> (on by default): 32
  general registers, and the ten names of the CSR index enumeration.
\<close>

definition check_reg_idx :: "nat \<Rightarrow> nat res" where
  "check_reg_idx i = bindE (assertE (i < 32) ''idx >= 0 && idx < 32'') (\<lambda>_. Inr i)"

definition check_csr_reg_idx :: "nat \<Rightarrow> nat res" where
  "check_csr_reg_idx i = bindE (assertE (i < 10) ''idx >= 0 && idx < num'') (\<lambda>_. Inr i)"

definition get_gpr :: "nat \<Rightarrow> nemu \<Rightarrow> u32 res" where
  "get_gpr i s = bindE (check_reg_idx i) (\<lambda>k. Inr (gpr (cpu s) ! k))"

definition set_gpr :: "nat \<Rightarrow> u32 \<Rightarrow> nemu \<Rightarrow> nemu res" where
  "set_gpr i v s = bindE (check_reg_idx i) (\<lambda>k.
     Inr (s\<lparr>cpu := (cpu s)\<lparr>gpr := (gpr (cpu s))[k := v]\<rparr>\<rparr>))"

definition get_csr_pr :: "nat \<Rightarrow> nemu \<Rightarrow> u32" where
  "get_csr_pr i s = csr_pr (cpu s) ! i"

definition set_csr_pr :: "nat \<Rightarrow> u32 \<Rightarrow> nemu \<Rightarrow> nemu" where
  "set_csr_pr i v s = s\<lparr>cpu := (cpu s)\<lparr>csr_pr := (csr_pr (cpu s))[i := v]\<rparr>\<rparr>"

text \<open>The CSR index enumeration of \<^verbatim>\<open>local-include/reg.h\<close>.\<close>

abbreviation (input) "MTVEC_IDX \<equiv> 0 :: nat"
abbreviation (input) "MEPC_IDX \<equiv> 1 :: nat"
abbreviation (input) "MSTATUS_IDX \<equiv> 2 :: nat"
abbreviation (input) "MCAUSE_IDX \<equiv> 3 :: nat"
abbreviation (input) "MSCRATCH_IDX \<equiv> 4 :: nat"
abbreviation (input) "MIE_IDX \<equiv> 5 :: nat"
abbreviation (input) "MIP_IDX \<equiv> 6 :: nat"
abbreviation (input) "MTVAL_IDX \<equiv> 7 :: nat"

section \<open>Well-formed machines\<close>

text \<open>The sizes the C arrays have, and the key queue's indices inside it.\<close>

definition wf_cpu :: "cpu_state \<Rightarrow> bool" where
  "wf_cpu c \<longleftrightarrow> length (gpr c) = 32 \<and> length (csr_pr c) = 12"

definition wf_nemu :: "nemu \<Rightarrow> bool" where
  "wf_nemu s \<longleftrightarrow> wf_cpu (cpu s) \<and> length (key_queue s) = 1024 \<and> key_f s < 1024 \<and> key_r s < 1024"

lemma get_gpr_ok [simp]: "i < 32 \<Longrightarrow> get_gpr i s = Inr (gpr (cpu s) ! i)"
  by (simp add: get_gpr_def check_reg_idx_def)

lemma set_gpr_ok [simp]:
  "i < 32 \<Longrightarrow> set_gpr i v s = Inr (s\<lparr>cpu := (cpu s)\<lparr>gpr := (gpr (cpu s))[i := v]\<rparr>\<rparr>)"
  by (simp add: set_gpr_def check_reg_idx_def)

lemma get_csr_pr_set [simp]:
  "i < length (csr_pr (cpu s)) \<Longrightarrow> get_csr_pr j (set_csr_pr i v s) = (if i = j then v else get_csr_pr j s)"
  by (simp add: get_csr_pr_def set_csr_pr_def)

lemma set_csr_pr_frame [simp]:
  "gpr (cpu (set_csr_pr i v s)) = gpr (cpu s)"
  "pc (cpu (set_csr_pr i v s)) = pc (cpu s)"
  "true_pc (cpu (set_csr_pr i v s)) = true_pc (cpu s)"
  "cycle (cpu (set_csr_pr i v s)) = cycle (cpu s)"
  "length (csr_pr (cpu (set_csr_pr i v s))) = length (csr_pr (cpu s))"
  "nemu_state (set_csr_pr i v s) = nemu_state s"
  "pmem (set_csr_pr i v s) = pmem s"
  "timer_intr_pending (set_csr_pr i v s) = timer_intr_pending s"
  "maps (set_csr_pr i v s) = maps s"
  "hwdev_timer_p (set_csr_pr i v s) = hwdev_timer_p s"
  "hwdev_uart_p (set_csr_pr i v s) = hwdev_uart_p s"
  "tokens (set_csr_pr i v s) = tokens s"
  "nr_token (set_csr_pr i v s) = nr_token s"
  "wp_pool (set_csr_pr i v s) = wp_pool s"
  "wp_head (set_csr_pr i v s) = wp_head s"
  "wp_free (set_csr_pr i v s) = wp_free s"
  "wf_nemu (set_csr_pr i v s) = wf_nemu s"
  by (simp_all add: set_csr_pr_def wf_nemu_def wf_cpu_def)

section \<open>The host clock\<close>

text \<open>
  \<^verbatim>\<open>get_time\<close> of \<^verbatim>\<open>src/utils/timer.c\<close>: microseconds since the first call. The host clock itself is
  outside the program, so each reading is the next value of \<open>host_clock\<close>.
\<close>

definition get_time_internal :: "nemu \<Rightarrow> u64 \<times> nemu" where
  "get_time_internal s = (host_clock s (clock_reads s), s\<lparr>clock_reads := clock_reads s + 1\<rparr>)"

definition get_time :: "nemu \<Rightarrow> u64 \<times> nemu" where
  "get_time s =
     (let s1 = (if boot_time s = 0
                then (case get_time_internal s of (t, s') \<Rightarrow> s'\<lparr>boot_time := t\<rparr>) else s)
      in case get_time_internal s1 of (now, s2) \<Rightarrow> (now - boot_time s2, s2))"

lemma get_time_frame [simp]:
  "cpu (snd (get_time s)) = cpu s"
  "nemu_state (snd (get_time s)) = nemu_state s"
  "pmem (snd (get_time s)) = pmem s"
  "maps (snd (get_time s)) = maps s"
  "tokens (snd (get_time s)) = tokens s"
  "nr_token (snd (get_time s)) = nr_token s"
  "wp_pool (snd (get_time s)) = wp_pool s"
  "wp_head (snd (get_time s)) = wp_head s"
  "wp_free (snd (get_time s)) = wp_free s"
  "io_space (snd (get_time s)) = io_space s"
  "hwdev_timer_p (snd (get_time s)) = hwdev_timer_p s"
  "hwdev_uart_p (snd (get_time s)) = hwdev_uart_p s"
  "timer_intr_pending (snd (get_time s)) = timer_intr_pending s"
  "wf_nemu (snd (get_time s)) = wf_nemu s"
  by (simp_all add: get_time_def get_time_internal_def Let_def wf_nemu_def)

section \<open>Run state\<close>

text \<open>\<^verbatim>\<open>difftest_skip_ref\<close> is empty unless differential testing is compiled in.\<close>

definition difftest_skip_ref :: "config \<Rightarrow> nemu \<Rightarrow> nemu" where
  "difftest_skip_ref cf s =
     (if CONFIG_DIFFTEST cf then s\<lparr>is_skip_ref := True, skip_dut_nr_inst := 0\<rparr> else s)"

definition set_nemu_state :: "config \<Rightarrow> nemu_status \<Rightarrow> u32 \<Rightarrow> u32 \<Rightarrow> nemu \<Rightarrow> nemu" where
  "set_nemu_state cf st thispc ret s =
     (difftest_skip_ref cf s)\<lparr>nemu_state := \<lparr>state = st, halt_pc = thispc, halt_ret = ret\<rparr>\<rparr>"

definition is_exit_status_bad :: "nemu_run \<Rightarrow> bool" where
  "is_exit_status_bad r =
     (\<not> ((state r = NEMU_END \<and> halt_ret r = 0) \<or> state r = NEMU_QUIT))"

lemma difftest_skip_ref_frame [simp]:
  "cpu (difftest_skip_ref cf s) = cpu s"
  "nemu_state (difftest_skip_ref cf s) = nemu_state s"
  "pmem (difftest_skip_ref cf s) = pmem s"
  "maps (difftest_skip_ref cf s) = maps s"
  "tokens (difftest_skip_ref cf s) = tokens s"
  "nr_token (difftest_skip_ref cf s) = nr_token s"
  "wp_pool (difftest_skip_ref cf s) = wp_pool s"
  "wp_head (difftest_skip_ref cf s) = wp_head s"
  "wp_free (difftest_skip_ref cf s) = wp_free s"
  "io_space (difftest_skip_ref cf s) = io_space s"
  "hwdev_timer_p (difftest_skip_ref cf s) = hwdev_timer_p s"
  "hwdev_uart_p (difftest_skip_ref cf s) = hwdev_uart_p s"
  "timer_intr_pending (difftest_skip_ref cf s) = timer_intr_pending s"
  "timer_base (difftest_skip_ref cf s) = timer_base s"
  "uart_base (difftest_skip_ref cf s) = uart_base s"
  "wf_nemu (difftest_skip_ref cf s) = wf_nemu s"
  by (simp_all add: difftest_skip_ref_def wf_nemu_def)

end
