(* ===== verification/Nemu_Device.thy ===== *)
theory Nemu_Device
  imports Nemu_State
begin

text \<open>
  Host accesses to byte arrays (\<^verbatim>\<open>include/memory/host.h\<close>), the interrupt line (\<^verbatim>\<open>src/device/intr.c\<close>) and
  the devices behind the memory-mapped regions: the hardware timer, the UART, the serial port, the
  real-time clock, the keyboard, the frame buffer control and the audio registers. Each device has
  the state the C file keeps in static variables, its I/O handler and its periodic update.
\<close>

section \<open>Host accesses\<close>

text \<open>A little-endian host: \<open>n\<close> bytes read at index \<open>a\<close>, and the low \<open>n\<close> bytes of a word written.\<close>

fun le_read :: "(nat \<Rightarrow> u8) \<Rightarrow> nat \<Rightarrow> nat \<Rightarrow> u32" where
  "le_read m a 0 = 0"
| "le_read m a (Suc n) = ucast (m a) OR push_bit 8 (le_read m (Suc a) n)"

fun le_write :: "(nat \<Rightarrow> u8) \<Rightarrow> nat \<Rightarrow> nat \<Rightarrow> u32 \<Rightarrow> (nat \<Rightarrow> u8)" where
  "le_write m a 0 d = m"
| "le_write m a (Suc n) d = le_write (m(a := ucast d)) (Suc a) n (drop_bit 8 d)"

text \<open>
  An access of 1, 2 or 4 bytes at index \<open>a\<close> of an array of \<open>bound\<close> bytes; other lengths fail the
  assertion, and an access that leaves the array is undefined.
\<close>

definition host_read :: "(nat \<Rightarrow> u8) \<Rightarrow> nat \<Rightarrow> nat \<Rightarrow> nat \<Rightarrow> u32 res" where
  "host_read m bound a len =
     (if len = 1 \<or> len = 2 \<or> len = 4 then
        (if a + len \<le> bound then Inr (le_read m a len) else Inl (HostFault ''read outside array''))
      else Inl (Panic ''assert(0)''))"

definition host_write :: "(nat \<Rightarrow> u8) \<Rightarrow> nat \<Rightarrow> nat \<Rightarrow> nat \<Rightarrow> u32 \<Rightarrow> (nat \<Rightarrow> u8) res" where
  "host_write m bound a len d =
     (if len = 1 \<or> len = 2 \<or> len = 4 then
        (if a + len \<le> bound then Inr (le_write m a len d) else Inl (HostFault ''write outside array''))
      else Inl (Panic ''assert(0)''))"

lemma le_write_outside: "b < a \<or> a + n \<le> b \<Longrightarrow> le_write m a n d b = m b"
  by (induction m a n d rule: le_write.induct) auto

lemma le_read_upd_below: "b < a \<Longrightarrow> le_read (m(b := v)) a n = le_read m a n"
  by (induction m a n rule: le_read.induct) auto

lemma le_read_cong: "(\<And>k. k < n \<Longrightarrow> m (a + k) = m' (a + k)) \<Longrightarrow> le_read m a n = le_read m' a n"
proof (induction m a n rule: le_read.induct)
  case (2 m a n)
  from "2.prems" [of 0] have "m a = m' a" by simp
  moreover have "le_read m (Suc a) n = le_read m' (Suc a) n"
  proof (rule "2.IH")
    fix k assume "k < n"
    with "2.prems" [of "Suc k"] show "m (Suc a + k) = m' (Suc a + k)" by simp
  qed
  ultimately show ?case by simp
qed simp

lemma le_read_write_disjoint:
  assumes "a + n \<le> b \<or> b + k \<le> a"
  shows "le_read (le_write m b k d) a n = le_read m a n"
  by (rule le_read_cong, rule le_write_outside) (use assms in auto)

lemma ucast_or_push_bit_drop: "ucast (ucast d :: u8) OR push_bit 8 (take_bit n (drop_bit 8 d))
    = take_bit (8 + n) (d :: u32)"
  by (rule bit_word_eqI)
    (auto simp: bit_or_iff bit_push_bit_iff bit_take_bit_iff bit_drop_bit_eq bit_ucast_iff)

text \<open>What a write stores, the next read of the same place and length returns.\<close>

lemma le_read_write: "le_read (le_write m a n d) a n = take_bit (8 * n) d"
proof (induction n arbitrary: m a d)
  case (Suc n)
  have "le_write m a (Suc n) d a = ucast d"
    by (simp add: le_write_outside)
  then have "le_read (le_write m a (Suc n) d) a (Suc n) =
      ucast (ucast d :: u8) OR push_bit 8 (take_bit (8 * n) (drop_bit 8 d))"
    by (simp add: Suc.IH del: fun_upd_apply)
  then show ?case by (simp only: ucast_or_push_bit_drop) simp
qed simp

lemma host_read_after_write:
  "host_write m bound a len d = Inr m' \<Longrightarrow> host_read m' bound a len = Inr (take_bit (8 * len) d)"
  by (auto simp: host_write_def host_read_def le_read_write
      simp del: le_write.simps le_read.simps One_nat_def split: if_splits)

section \<open>Registers of a device in the I/O space\<close>

definition IO_SPACE_MAX :: nat where
  "IO_SPACE_MAX = 32 * 1024 * 1024"

definition io_get32 :: "nat \<Rightarrow> nat \<Rightarrow> nemu \<Rightarrow> u32" where
  "io_get32 base idx s = le_read (io_space s) (base + 4 * idx) 4"

definition io_set32 :: "nat \<Rightarrow> nat \<Rightarrow> u32 \<Rightarrow> nemu \<Rightarrow> nemu" where
  "io_set32 base idx v s = s\<lparr>io_space := le_write (io_space s) (base + 4 * idx) 4 v\<rparr>"

lemma io_get32_set32_same [simp]: "io_get32 b i (io_set32 b i v s) = v"
  using le_read_write [of "io_space s" "b + 4 * i" 4 v]
  by (simp add: io_get32_def io_set32_def take_bit_word_eq_self)

lemma io_get32_set32_other [simp]:
  assumes "i \<noteq> j"
  shows "io_get32 b i (io_set32 b j v s) = io_get32 b i s"
proof -
  from assms have "i < j \<or> j < i" by (rule neq_iff [THEN iffD1])
  then have "b + 4 * i + 4 \<le> b + 4 * j \<or> b + 4 * j + 4 \<le> b + 4 * i" by presburger
  from le_read_write_disjoint [OF this, of "io_space s" v] show ?thesis
    by (simp add: io_get32_def io_set32_def)
qed

lemma io_set32_frame [simp]:
  "cpu (io_set32 b i v s) = cpu s"
  "pmem (io_set32 b i v s) = pmem s"
  "maps (io_set32 b i v s) = maps s"
  "nemu_state (io_set32 b i v s) = nemu_state s"
  "hwdev_timer_p (io_set32 b i v s) = hwdev_timer_p s"
  "hwdev_uart_p (io_set32 b i v s) = hwdev_uart_p s"
  "timer_base (io_set32 b i v s) = timer_base s"
  "uart_base (io_set32 b i v s) = uart_base s"
  "timer_intr_pending (io_set32 b i v s) = timer_intr_pending s"
  "host_out (io_set32 b i v s) = host_out s"
  "wf_nemu (io_set32 b i v s) = wf_nemu s"
  by (simp_all add: io_set32_def wf_nemu_def)

section \<open>The interrupt line\<close>

definition INTR_EMPTY :: u32 where
  "INTR_EMPTY = -1"

definition dev_raise_intr :: "nemu \<Rightarrow> nemu" where
  "dev_raise_intr s =
     (set_csr_pr MIP_IDX (get_csr_pr MIP_IDX s OR 8) s)\<lparr>timer_intr_pending := True\<rparr>"

definition dev_query_intr :: "nemu \<Rightarrow> u32 \<times> nemu" where
  "dev_query_intr s =
     (if timer_intr_pending s
      then (3, set_csr_pr MIP_IDX (get_csr_pr MIP_IDX s AND NOT 8) (s\<lparr>timer_intr_pending := False\<rparr>))
      else (INTR_EMPTY, s))"

section \<open>Hardware timer\<close>

text \<open>
  One tick of the enabled timer: the prescale counter advances; past \<open>psc\<close> it restarts and the
  counter steps down, or reloads, sets the interrupt flag and raises the interrupt at zero.
\<close>

definition hwdev_timer_update :: "nemu \<Rightarrow> nemu" where
  "hwdev_timer_update s = (case hwdev_timer_p s of
     None \<Rightarrow> s
   | Some t \<Rightarrow>
       if t_cr t AND 1 = 0 then s
       else let t1 = t\<lparr>t_clk_cnt := t_clk_cnt t + 1\<rparr>
            in if t_clk_cnt t1 > t_psc t1
               then let t2 = t1\<lparr>t_clk_cnt := 0\<rparr>
                    in if t_count t2 = 0
                       then dev_raise_intr
                              (s\<lparr>hwdev_timer_p := Some (t2\<lparr>t_count := t_load t2, t_sr := t_sr t2 OR 1\<rparr>)\<rparr>)
                       else s\<lparr>hwdev_timer_p := Some (t2\<lparr>t_count := t_count t2 - 1\<rparr>)\<rparr>
               else s\<lparr>hwdev_timer_p := Some t1\<rparr>)"

definition hwdev_timer_io_handler :: "u32 \<Rightarrow> nat \<Rightarrow> bool \<Rightarrow> nemu \<Rightarrow> nemu res" where
  "hwdev_timer_io_handler offset len is_write s =
     bindE (assertE (len = 4) ''len == 4'') (\<lambda>_.
     case hwdev_timer_p s of
       None \<Rightarrow> Inl (HostFault ''hwdev_timer is NULL'')
     | Some t \<Rightarrow>
        (let v = io_get32 (timer_base s) (unat (offset div 4)) s in
         if offset = 0x00 then
           (if is_write
            then let t1 = t\<lparr>t_cr := v\<rparr> in
                 Inr (s\<lparr>hwdev_timer_p :=
                   Some (if t_cr t1 AND 1 = 0 then t1\<lparr>t_clk_cnt := 0, t_count := 0\<rparr> else t1)\<rparr>)
            else Inr s)
         else if offset = 0x04 then
           (if is_write
            then (if v AND 1 \<noteq> 0
                  then Inr (io_set32 (timer_base s) 1 0 (s\<lparr>hwdev_timer_p := Some (t\<lparr>t_sr := 0\<rparr>)\<rparr>))
                  else Inr s)
            else Inr (io_set32 (timer_base s) 1 (t_sr t) s))
         else if offset = 0x08 then
           (if is_write then Inr (s\<lparr>hwdev_timer_p := Some (t\<lparr>t_psc := v\<rparr>)\<rparr>) else Inr s)
         else if offset = 0x0c then
           (if is_write then Inr (s\<lparr>hwdev_timer_p := Some (t\<lparr>t_load := v\<rparr>)\<rparr>) else Inr s)
         else if offset = 0x10 then
           (if is_write then Inr (s\<lparr>hwdev_timer_p := Some (t\<lparr>t_count := v, t_clk_cnt := 0\<rparr>)\<rparr>)
            else Inr (io_set32 (timer_base s) 4 (t_count t) s))
         else Inl (Panic ''unsupported offset'')))"

section \<open>UART\<close>

definition SR_TX_FLAG :: u32 where "SR_TX_FLAG = 1"
definition SR_RX_FLAG :: u32 where "SR_RX_FLAG = 2"

definition uart_putc :: "u8 \<Rightarrow> nemu \<Rightarrow> nemu" where
  "uart_putc ch s = s\<lparr>host_out := host_out s @ [ch]\<rparr>"

text \<open>A non-blocking read of one byte of the standard input.\<close>

definition try_read_keyboard :: "nemu \<Rightarrow> u8 option \<times> nemu" where
  "try_read_keyboard s = (case host_stdin s of
     [] \<Rightarrow> (None, s)
   | c # cs \<Rightarrow> (c, s\<lparr>host_stdin := cs\<rparr>))"

definition hwdev_uart_update :: "nemu \<Rightarrow> nemu" where
  "hwdev_uart_update s = (case hwdev_uart_p s of
     None \<Rightarrow> s
   | Some u \<Rightarrow>
       if u_cr u AND 2 = 0 then s
       else if u_has_data u then s
       else (case try_read_keyboard s of
               (None, s1) \<Rightarrow> s1
             | (Some ch, s1) \<Rightarrow> s1\<lparr>hwdev_uart_p :=
                 Some (u\<lparr>u_rxd := ucast ch, u_has_data := True, u_sr := u_sr u OR SR_RX_FLAG\<rparr>)\<rparr>))"

definition hwdev_uart_io_handler :: "u32 \<Rightarrow> nat \<Rightarrow> bool \<Rightarrow> nemu \<Rightarrow> nemu res" where
  "hwdev_uart_io_handler offset len is_write s =
     bindE (assertE (len = 4) ''len == 4'') (\<lambda>_.
     case hwdev_uart_p s of
       None \<Rightarrow> Inl (HostFault ''hwdev_uart is NULL'')
     | Some u \<Rightarrow>
        (let v = io_get32 (uart_base s) (unat (offset div 4)) s in
         if offset = 0x00 then
           (if is_write then Inr (s\<lparr>hwdev_uart_p := Some (u\<lparr>u_cr := v\<rparr>)\<rparr>) else Inr s)
         else if offset = 0x04 then
           (if is_write
            then Inr (s\<lparr>hwdev_uart_p :=
                   Some (u\<lparr>u_sr := u_sr u AND NOT (v AND (SR_TX_FLAG OR SR_RX_FLAG))\<rparr>)\<rparr>)
            else Inr (io_set32 (uart_base s) 1 (u_sr u) s))
         else if offset = 0x08 then
           Inr (io_set32 (uart_base s) 2 (u_baud u) s)
         else if offset = 0x0c then
           (if is_write then Inr s
            else if u_has_data u
            then Inr (io_set32 (uart_base s) 3 (u_rxd u)
                   (s\<lparr>hwdev_uart_p := Some (u\<lparr>u_sr := u_sr u AND NOT SR_RX_FLAG, u_has_data := False\<rparr>)\<rparr>))
            else Inr (io_set32 (uart_base s) 3 0 s))
         else if offset = 0x10 then
           (if is_write
            then let u1 = u\<lparr>u_txd := v AND 0xFF\<rparr> in
                 (if u_cr u1 AND 1 \<noteq> 0
                  then Inr ((uart_putc (ucast (u_txd u1)) s)
                              \<lparr>hwdev_uart_p := Some (u1\<lparr>u_sr := u_sr u1 OR SR_TX_FLAG\<rparr>)\<rparr>)
                  else Inr (s\<lparr>hwdev_uart_p := Some u1\<rparr>))
            else Inr s)
         else Inl (Panic ''unsupported uart offset'')))"

section \<open>Serial port, clock, keyboard, screen and audio\<close>

definition serial_putc :: "u8 \<Rightarrow> nemu \<Rightarrow> nemu" where
  "serial_putc ch s = s\<lparr>host_out := host_out s @ [ch]\<rparr>"

definition serial_io_handler :: "u32 \<Rightarrow> nat \<Rightarrow> bool \<Rightarrow> nemu \<Rightarrow> nemu res" where
  "serial_io_handler offset len is_write s =
     bindE (assertE (len = 1) ''len == 1'') (\<lambda>_.
     if offset = 0 then
       (if is_write then Inr (serial_putc (io_space s (serial_base s)) s)
        else Inl (Panic ''do not support read''))
     else Inl (Panic ''do not support offset''))"

definition rtc_io_handler :: "u32 \<Rightarrow> nat \<Rightarrow> bool \<Rightarrow> nemu \<Rightarrow> nemu res" where
  "rtc_io_handler offset len is_write s =
     bindE (assertE (offset = 0 \<or> offset = 4) ''offset == 0 || offset == 4'') (\<lambda>_.
     if \<not> is_write \<and> offset = 4 then
       (case get_time s of (us, s1) \<Rightarrow>
          Inr (io_set32 (rtc_port_base s1) 1 (ucast (drop_bit 32 us))
                (io_set32 (rtc_port_base s1) 0 (ucast us) s1)))
     else Inr s)"

definition KEY_QUEUE_LEN :: nat where "KEY_QUEUE_LEN = 1024"
definition NEMU_KEY_NONE :: u32 where "NEMU_KEY_NONE = 0"
definition KEYDOWN_MASK :: u32 where "KEYDOWN_MASK = 0x8000"

definition key_enqueue :: "u32 \<Rightarrow> nemu \<Rightarrow> nemu res" where
  "key_enqueue am_scancode s =
     (let s1 = s\<lparr>key_queue := (key_queue s)[key_r s := am_scancode],
                 key_r := (key_r s + 1) mod KEY_QUEUE_LEN\<rparr>
      in bindE (assertE (key_r s1 \<noteq> key_f s1) ''key queue overflow!'') (\<lambda>_. Inr s1))"

definition key_dequeue :: "nemu \<Rightarrow> u32 \<times> nemu" where
  "key_dequeue s =
     (if key_f s \<noteq> key_r s
      then (key_queue s ! key_f s, s\<lparr>key_f := (key_f s + 1) mod KEY_QUEUE_LEN\<rparr>)
      else (NEMU_KEY_NONE, s))"

definition send_key :: "u8 \<Rightarrow> bool \<Rightarrow> nemu \<Rightarrow> nemu res" where
  "send_key scancode is_keydown s =
     (if state (nemu_state s) = NEMU_RUNNING \<and> keymap s scancode \<noteq> NEMU_KEY_NONE
      then key_enqueue (keymap s scancode OR (if is_keydown then KEYDOWN_MASK else 0)) s
      else Inr s)"

definition i8042_data_io_handler :: "u32 \<Rightarrow> nat \<Rightarrow> bool \<Rightarrow> nemu \<Rightarrow> nemu res" where
  "i8042_data_io_handler offset len is_write s =
     bindE (assertE (\<not> is_write) ''!is_write'') (\<lambda>_.
     bindE (assertE (offset = 0) ''offset == 0'') (\<lambda>_.
     case key_dequeue s of (key, s1) \<Rightarrow> Inr (io_set32 (i8042_data_port_base s1) 0 key s1)))"

text \<open>The screen is drawn by SDL; what the emulator's own state sees is the cleared sync register.\<close>

definition vga_update_screen :: "nemu \<Rightarrow> nemu" where
  "vga_update_screen s =
     (if io_get32 (vgactl_port_base s) 1 s \<noteq> 0 then io_set32 (vgactl_port_base s) 1 0 s else s)"

definition audio_io_handler :: "u32 \<Rightarrow> nat \<Rightarrow> bool \<Rightarrow> nemu \<Rightarrow> nemu res" where
  "audio_io_handler offset len is_write s = Inr s"

section \<open>Dispatch and periodic update\<close>

definition invoke_callback :: "io_callback \<Rightarrow> u32 \<Rightarrow> nat \<Rightarrow> bool \<Rightarrow> nemu \<Rightarrow> nemu res" where
  "invoke_callback c offset len is_write s = (case c of
     CbNull \<Rightarrow> Inr s
   | CbSerial \<Rightarrow> serial_io_handler offset len is_write s
   | CbRtc \<Rightarrow> rtc_io_handler offset len is_write s
   | CbHwTimer \<Rightarrow> hwdev_timer_io_handler offset len is_write s
   | CbHwUart \<Rightarrow> hwdev_uart_io_handler offset len is_write s
   | CbKeyboard \<Rightarrow> i8042_data_io_handler offset len is_write s
   | CbAudio \<Rightarrow> audio_io_handler offset len is_write s)"

definition TIMER_HZ :: u64 where "TIMER_HZ = 60"

fun sdl_handle :: "sdl_event list \<Rightarrow> nemu \<Rightarrow> nemu res" where
  "sdl_handle [] s = Inr s"
| "sdl_handle (e # es) s = bindE (case e of
       SDL_QUIT \<Rightarrow> Inr (s\<lparr>nemu_state := (nemu_state s)\<lparr>state := NEMU_QUIT\<rparr>\<rparr>)
     | SDL_KEYDOWN k \<Rightarrow> send_key k True s
     | SDL_KEYUP k \<Rightarrow> send_key k False s
     | SDL_OTHER \<Rightarrow> Inr s) (sdl_handle es)"

text \<open>
  \<^verbatim>\<open>device_update\<close> returns early unless a sixtieth of a second passed since the last time it ran.
\<close>

definition device_update :: "nemu \<Rightarrow> nemu res" where
  "device_update s = (case get_time s of (now, s1) \<Rightarrow>
     if now - device_last s1 < 1000000 div TIMER_HZ then Inr s1
     else let s2 = vga_update_screen (hwdev_uart_update (hwdev_timer_update (s1\<lparr>device_last := now\<rparr>)));
              evs = host_sdl s2 (sdl_polls s2)
          in sdl_handle evs (s2\<lparr>sdl_polls := sdl_polls s2 + 1\<rparr>))"

section \<open>What devices leave alone\<close>

text \<open>
  Devices run inside loads, stores and \<^verbatim>\<open>device_update\<close>. Of the core they may only touch the pending
  interrupt register; they keep the arrays' sizes and the key queue's indices in range.
\<close>

definition same_core :: "nemu \<Rightarrow> nemu \<Rightarrow> bool" where
  "same_core s s' \<longleftrightarrow>
     gpr (cpu s') = gpr (cpu s) \<and> pc (cpu s') = pc (cpu s) \<and> true_pc (cpu s') = true_pc (cpu s) \<and>
     cycle (cpu s') = cycle (cpu s) \<and> length (csr_pr (cpu s')) = length (csr_pr (cpu s)) \<and>
     (\<forall>i. i \<noteq> MIP_IDX \<longrightarrow> get_csr_pr i s' = get_csr_pr i s) \<and>
     tokens s' = tokens s \<and> nr_token s' = nr_token s \<and> wp_pool s' = wp_pool s \<and>
     wp_head s' = wp_head s \<and> wp_free s' = wp_free s \<and> maps s' = maps s \<and> pmem s' = pmem s \<and> (wf_nemu s \<longrightarrow> wf_nemu s')"

lemma same_core_refl [simp]: "same_core s s"
  by (simp add: same_core_def)

lemma same_core_trans: "same_core s s1 \<Longrightarrow> same_core s1 s2 \<Longrightarrow> same_core s s2"
  by (auto simp: same_core_def)

lemma same_core_upd [simp]:
  "same_core s (t\<lparr>io_space := v1\<rparr>) = same_core s t"
  "same_core s (t\<lparr>hwdev_timer_p := v2\<rparr>) = same_core s t"
  "same_core s (t\<lparr>hwdev_uart_p := v3\<rparr>) = same_core s t"
  "same_core s (t\<lparr>host_out := v4\<rparr>) = same_core s t"
  "same_core s (t\<lparr>host_stdin := v5\<rparr>) = same_core s t"
  "same_core s (t\<lparr>clock_reads := v6\<rparr>) = same_core s t"
  "same_core s (t\<lparr>boot_time := v7\<rparr>) = same_core s t"
  "same_core s (t\<lparr>nemu_state := v8\<rparr>) = same_core s t"
  "same_core s (t\<lparr>device_last := v9\<rparr>) = same_core s t"
  "same_core s (t\<lparr>sdl_polls := v10\<rparr>) = same_core s t"
  "same_core s (t\<lparr>timer_intr_pending := v11\<rparr>) = same_core s t"
  "same_core s (t\<lparr>is_skip_ref := v12\<rparr>) = same_core s t"
  "same_core s (t\<lparr>skip_dut_nr_inst := v13\<rparr>) = same_core s t"
  "same_core s (t\<lparr>g_nr_guest_inst := v14\<rparr>) = same_core s t"
  by (simp_all add: same_core_def get_csr_pr_def wf_nemu_def)

lemma same_core_upd_left [simp]:
  "same_core (s\<lparr>io_space := v1\<rparr>) t = same_core s t"
  "same_core (s\<lparr>device_last := v9\<rparr>) t = same_core s t"
  by (simp_all add: same_core_def get_csr_pr_def wf_nemu_def)

lemma same_core_io_set32 [simp]: "same_core s (io_set32 b i v t) = same_core s t"
  by (simp add: io_set32_def)

lemma same_core_mip: "same_core s (set_csr_pr MIP_IDX v s)"
  by (auto simp: same_core_def get_csr_pr_def set_csr_pr_def wf_nemu_def wf_cpu_def)

lemma same_core_skip_ref [simp]: "same_core s (difftest_skip_ref cf t) = same_core s t"
  by (simp add: difftest_skip_ref_def)

lemma same_core_raise: "same_core s (dev_raise_intr s)"
  by (simp add: dev_raise_intr_def same_core_mip)

lemma same_core_query: "same_core s (snd (dev_query_intr s))"
  using same_core_mip [of "s\<lparr>timer_intr_pending := False\<rparr>" "get_csr_pr MIP_IDX s AND NOT 8"]
  by (auto simp: dev_query_intr_def same_core_def get_csr_pr_def wf_nemu_def)

lemma same_core_timer_update: "same_core s (hwdev_timer_update s)"
proof (cases "hwdev_timer_p s")
  case (Some t)
  have "same_core s (dev_raise_intr (s\<lparr>hwdev_timer_p := v\<rparr>))" for v
    using same_core_raise [of "s\<lparr>hwdev_timer_p := v\<rparr>"]
    by (auto simp: same_core_def get_csr_pr_def wf_nemu_def)
  with Some show ?thesis by (simp add: hwdev_timer_update_def Let_def)
qed (simp add: hwdev_timer_update_def)

lemma same_core_uart_update: "same_core s (hwdev_uart_update s)"
  by (auto simp: hwdev_uart_update_def try_read_keyboard_def split: option.splits list.splits prod.splits)

lemma same_core_vga: "same_core s (vga_update_screen s)"
  by (simp add: vga_update_screen_def)

lemma same_core_get_time [simp]: "same_core s (snd (get_time s))"
  by (simp add: get_time_def get_time_internal_def Let_def)

lemma same_core_send_key: "okP (same_core s) (send_key k d s)"
  by (auto simp: send_key_def key_enqueue_def Let_def same_core_def wf_nemu_def get_csr_pr_def
      KEY_QUEUE_LEN_def okP_conv)

lemma same_core_sdl_handle: "okP (same_core s) (sdl_handle es s)"
proof (induction es s rule: sdl_handle.induct)
  case (2 e es s)
  have step: "okP (same_core s) (case e of
       SDL_QUIT \<Rightarrow> Inr (s\<lparr>nemu_state := (nemu_state s)\<lparr>state := NEMU_QUIT\<rparr>\<rparr>)
     | SDL_KEYDOWN k \<Rightarrow> send_key k True s
     | SDL_KEYUP k \<Rightarrow> send_key k False s
     | SDL_OTHER \<Rightarrow> Inr s)"
    by (auto split: sdl_event.split simp: same_core_send_key)
  show ?case
    unfolding sdl_handle.simps
  proof (rule okP_bindE, rule okP_mono [OF step])
    fix x assume x: "same_core s x"
    show "okP (same_core s) (sdl_handle es x)"
      by (rule okP_mono [OF "2.IH" same_core_trans [OF x]])
  qed
qed simp

lemma same_core_device_update: "okP (same_core s) (device_update s)"
proof -
  obtain now s1 where t: "get_time s = (now, s1)" by (cases "get_time s")
  then have s1: "same_core s s1" using same_core_get_time [of s] by simp
  let ?s2 = "vga_update_screen (hwdev_uart_update (hwdev_timer_update (s1\<lparr>device_last := now\<rparr>)))"
  have "same_core (s1\<lparr>device_last := now\<rparr>) ?s2"
    by (rule same_core_trans [OF same_core_timer_update
          same_core_trans [OF same_core_uart_update same_core_vga]])
  then have "same_core s (?s2\<lparr>sdl_polls := n\<rparr>)" for n
    using s1 by (auto intro: same_core_trans)
  then have "okP (same_core s) (sdl_handle es (?s2\<lparr>sdl_polls := n\<rparr>))" for es n
    by (rule okP_mono [OF same_core_sdl_handle same_core_trans])
  with s1 show ?thesis by (simp add: device_update_def t Let_def)
qed

text \<open>
  The contract of an I/O handler towards the bus. Every handler of the emulator meets it, and the
  dispatcher inherits it.
\<close>

locale io_handler =
  fixes handler :: "u32 \<Rightarrow> nat \<Rightarrow> bool \<Rightarrow> nemu \<Rightarrow> nemu res"
  assumes keeps_core: "okP (same_core s) (handler offset len is_write s)"
    and keeps_run: "okP (\<lambda>s'. nemu_state s' = nemu_state s) (handler offset len is_write s)"
begin

lemma core_after: "handler offset len is_write s = Inr s' \<Longrightarrow> same_core s s'"
  using keeps_core by (rule okP_InrD)

lemma run_after: "handler offset len is_write s = Inr s' \<Longrightarrow> nemu_state s' = nemu_state s"
  using keeps_run by (rule okP_InrD)

lemma gpr_after: "handler offset len is_write s = Inr s' \<Longrightarrow> gpr (cpu s') = gpr (cpu s)"
  by (drule core_after) (simp add: same_core_def)

end

interpretation timer_io: io_handler hwdev_timer_io_handler
  by unfold_locales
    (auto simp: hwdev_timer_io_handler_def Let_def okP_conv assertE_def bindE_def
      split: option.splits if_splits)

interpretation uart_io: io_handler hwdev_uart_io_handler
  by unfold_locales
    (auto simp: hwdev_uart_io_handler_def Let_def okP_conv assertE_def bindE_def uart_putc_def
      split: option.splits if_splits)

interpretation serial_io: io_handler serial_io_handler
  by unfold_locales
    (auto simp: serial_io_handler_def serial_putc_def okP_conv assertE_def bindE_def split: if_splits)

interpretation rtc_io: io_handler rtc_io_handler
  by unfold_locales
    (auto simp: rtc_io_handler_def get_time_def get_time_internal_def Let_def okP_conv assertE_def
      bindE_def split: if_splits)

interpretation keyboard_io: io_handler i8042_data_io_handler
  by unfold_locales
    (auto simp: i8042_data_io_handler_def key_dequeue_def okP_conv assertE_def bindE_def
      same_core_def wf_nemu_def get_csr_pr_def KEY_QUEUE_LEN_def io_set32_def split: if_splits)

interpretation audio_io: io_handler audio_io_handler
  by unfold_locales (simp_all add: audio_io_handler_def)

interpretation io: io_handler "invoke_callback c" for c
  by unfold_locales
    (cases c; simp add: invoke_callback_def timer_io.keeps_core timer_io.keeps_run
      uart_io.keeps_core uart_io.keeps_run serial_io.keeps_core serial_io.keeps_run
      rtc_io.keeps_core rtc_io.keeps_run keyboard_io.keeps_core keyboard_io.keeps_run
      audio_io.keeps_core audio_io.keeps_run)+

end
