(* ===== verification/Nemu_Memory.thy ===== *)
theory Nemu_Memory
  imports Nemu_Device
begin

text \<open>
  The bus of the emulator: the I/O space allocator and the checked region access of
  \<^verbatim>\<open>src/device/io/map.c\<close>, the table of memory-mapped regions (\<^verbatim>\<open>src/device/io/mmio.c\<close>), guest memory
  (\<^verbatim>\<open>src/memory/paddr.c\<close>, \<^verbatim>\<open>src/memory/vaddr.c\<close>) and the initialisation of memory, core and devices.
\<close>

section \<open>Regions\<close>

definition map_inside :: "iomap \<Rightarrow> u32 \<Rightarrow> bool" where
  "map_inside m addr \<longleftrightarrow> addr \<ge> low m \<and> addr \<le> high m"

fun find_mapid_by_addr :: "config \<Rightarrow> iomap list \<Rightarrow> nat \<Rightarrow> u32 \<Rightarrow> nemu \<Rightarrow> nat option \<times> nemu" where
  "find_mapid_by_addr cf [] i addr s = (None, s)"
| "find_mapid_by_addr cf (m # ms) i addr s =
     (if map_inside m addr then (Some i, difftest_skip_ref cf s)
      else find_mapid_by_addr cf ms (i + 1) addr s)"

definition PAGE_SIZE :: nat where "PAGE_SIZE = 4096"

text \<open>\<^verbatim>\<open>new_space\<close> hands out page-aligned pieces of the I/O space, first to last.\<close>

definition new_space :: "nat \<Rightarrow> nemu \<Rightarrow> (nat \<times> nemu) res" where
  "new_space sz s =
     (let p = p_space s;
          sz' = (sz + (PAGE_SIZE - 1)) div PAGE_SIZE * PAGE_SIZE;
          s1 = s\<lparr>p_space := p_space s + sz'\<rparr>
      in bindE (assertE (p_space s1 < IO_SPACE_MAX) ''p_space - io_space < IO_SPACE_MAX'')
           (\<lambda>_. Inr (p, s1)))"

definition check_bound :: "iomap option \<Rightarrow> u32 \<Rightarrow> iomap res" where
  "check_bound mp addr = (case mp of
     None \<Rightarrow> Inl (Panic ''address is out of bound'')
   | Some m \<Rightarrow> bindE (assertE (addr \<le> high m \<and> addr \<ge> low m) ''address is out of bound of map'')
       (\<lambda>_. Inr m))"

definition map_read :: "u32 \<Rightarrow> nat \<Rightarrow> iomap option \<Rightarrow> nemu \<Rightarrow> (u32 \<times> nemu) res" where
  "map_read addr len mp s =
     bindE (assertE (1 \<le> len \<and> len \<le> 8) ''len >= 1 && len <= 8'') (\<lambda>_.
     bindE (check_bound mp addr) (\<lambda>m.
     let offset = addr - low m in
     bindE (invoke_callback (callback m) offset len False s) (\<lambda>s1.
     bindE (host_read (io_space s1) IO_SPACE_MAX (space m + unat offset) len) (\<lambda>ret.
     Inr (ret, s1)))))"

definition map_write :: "u32 \<Rightarrow> nat \<Rightarrow> u32 \<Rightarrow> iomap option \<Rightarrow> nemu \<Rightarrow> nemu res" where
  "map_write addr len data mp s =
     bindE (assertE (1 \<le> len \<and> len \<le> 8) ''len >= 1 && len <= 8'') (\<lambda>_.
     bindE (check_bound mp addr) (\<lambda>m.
     let offset = addr - low m in
     bindE (host_write (io_space s) IO_SPACE_MAX (space m + unat offset) len data) (\<lambda>io.
     invoke_callback (callback m) offset len True (s\<lparr>io_space := io\<rparr>))))"

section \<open>Memory-mapped I/O\<close>

definition NR_MAP :: nat where "NR_MAP = 16"

definition in_pmem :: "config \<Rightarrow> u32 \<Rightarrow> bool" where
  "in_pmem cf addr \<longleftrightarrow> addr - CONFIG_MBASE cf < CONFIG_MSIZE cf"

definition fetch_mmio_map :: "config \<Rightarrow> u32 \<Rightarrow> nemu \<Rightarrow> iomap option \<times> nemu" where
  "fetch_mmio_map cf addr s = (case find_mapid_by_addr cf (maps s) 0 addr s of
     (None, s1) \<Rightarrow> (None, s1)
   | (Some mapid, s1) \<Rightarrow> (Some (maps s1 ! mapid), s1))"

definition add_mmio_map ::
  "config \<Rightarrow> string \<Rightarrow> u32 \<Rightarrow> nat \<Rightarrow> u32 \<Rightarrow> io_callback \<Rightarrow> nemu \<Rightarrow> nemu res" where
  "add_mmio_map cf name addr sp len cb s =
     bindE (assertE (length (maps s) < NR_MAP) ''nr_map < NR_MAP'') (\<lambda>_.
     let left = addr; right = addr + len - 1 in
     if in_pmem cf left \<or> in_pmem cf right then Inl (Panic ''MMIO region is overlapped with pmem'')
     else if \<exists>m \<in> set (maps s). left \<le> high m \<and> right \<ge> low m
     then Inl (Panic ''MMIO region is overlapped'')
     else Inr (s\<lparr>maps := maps s @
       [\<lparr>map_name = name, low = addr, high = addr + len - 1, space = sp, callback = cb\<rparr>]\<rparr>))"

definition mmio_read :: "config \<Rightarrow> u32 \<Rightarrow> nat \<Rightarrow> nemu \<Rightarrow> (u32 \<times> nemu) res" where
  "mmio_read cf addr len s = (case fetch_mmio_map cf addr s of (mp, s1) \<Rightarrow> map_read addr len mp s1)"

definition mmio_write :: "config \<Rightarrow> u32 \<Rightarrow> nat \<Rightarrow> u32 \<Rightarrow> nemu \<Rightarrow> nemu res" where
  "mmio_write cf addr len data s =
     (case fetch_mmio_map cf addr s of (mp, s1) \<Rightarrow> map_write addr len data mp s1)"

section \<open>Guest memory\<close>

text \<open>
  \<^verbatim>\<open>guest_to_host\<close> turns a guest address into an index of the \<^verbatim>\<open>pmem\<close> array of \<open>CONFIG_MSIZE\<close> bytes. Only
  the first byte of an access is compared with the bounds of guest memory.
\<close>

definition guest_to_host :: "config \<Rightarrow> u32 \<Rightarrow> nat" where
  "guest_to_host cf paddr = unat (paddr - CONFIG_MBASE cf)"

definition host_to_guest :: "config \<Rightarrow> nat \<Rightarrow> u32" where
  "host_to_guest cf haddr = of_nat haddr + CONFIG_MBASE cf"

definition pmem_read :: "config \<Rightarrow> u32 \<Rightarrow> nat \<Rightarrow> nemu \<Rightarrow> u32 res" where
  "pmem_read cf addr len s =
     host_read (pmem s) (unat (CONFIG_MSIZE cf)) (guest_to_host cf addr) len"

definition pmem_write :: "config \<Rightarrow> u32 \<Rightarrow> nat \<Rightarrow> u32 \<Rightarrow> nemu \<Rightarrow> nemu res" where
  "pmem_write cf addr len data s =
     bindE (host_write (pmem s) (unat (CONFIG_MSIZE cf)) (guest_to_host cf addr) len data)
       (\<lambda>m. Inr (s\<lparr>pmem := m\<rparr>))"

definition out_of_bound :: "u32 \<Rightarrow> 'a res" where
  "out_of_bound addr = Inl (Panic ''address is out of bound of pmem'')"

definition paddr_read :: "config \<Rightarrow> u32 \<Rightarrow> nat \<Rightarrow> nemu \<Rightarrow> (u32 \<times> nemu) res" where
  "paddr_read cf addr len s =
     (if in_pmem cf addr then bindE (pmem_read cf addr len s) (\<lambda>v. Inr (v, s))
      else if CONFIG_DEVICE cf then mmio_read cf addr len s
      else out_of_bound addr)"

definition paddr_write :: "config \<Rightarrow> u32 \<Rightarrow> nat \<Rightarrow> u32 \<Rightarrow> nemu \<Rightarrow> nemu res" where
  "paddr_write cf addr len data s =
     (if in_pmem cf addr then pmem_write cf addr len data s
      else if CONFIG_DEVICE cf then mmio_write cf addr len data s
      else out_of_bound addr)"

definition vaddr_ifetch :: "config \<Rightarrow> u32 \<Rightarrow> nat \<Rightarrow> nemu \<Rightarrow> (u32 \<times> nemu) res" where
  "vaddr_ifetch cf addr len s = paddr_read cf addr len s"

definition vaddr_read :: "config \<Rightarrow> u32 \<Rightarrow> nat \<Rightarrow> nemu \<Rightarrow> (u32 \<times> nemu) res" where
  "vaddr_read cf addr len s = paddr_read cf addr len s"

definition vaddr_write :: "config \<Rightarrow> u32 \<Rightarrow> nat \<Rightarrow> u32 \<Rightarrow> nemu \<Rightarrow> nemu res" where
  "vaddr_write cf addr len data s = paddr_write cf addr len data s"

text \<open>\<^verbatim>\<open>inst_fetch\<close> returns the word at the program counter and the advanced counter.\<close>

definition inst_fetch :: "config \<Rightarrow> u32 \<Rightarrow> nat \<Rightarrow> nemu \<Rightarrow> (u32 \<times> u32 \<times> nemu) res" where
  "inst_fetch cf p len s =
     bindE (vaddr_ifetch cf p len s) (\<lambda>(inst, s1). Inr (inst, p + of_nat len, s1))"

section \<open>Initialisation\<close>

definition RESET_VECTOR :: "config \<Rightarrow> u32" where
  "RESET_VECTOR cf = CONFIG_MBASE cf + CONFIG_PC_RESET_OFFSET cf"

text \<open>Guest memory starts filled with one random byte (\<^verbatim>\<open>CONFIG_MEM_RANDOM\<close>).\<close>

definition init_mem :: "u8 \<Rightarrow> nemu \<Rightarrow> nemu" where
  "init_mem rand_byte s = s\<lparr>pmem := (\<lambda>_. rand_byte)\<rparr>"

definition img :: "u32 list" where
  "img = [0x00000297, 0x00028823, 0x0102c503, 0x00100073, 0xdeadbeef]"

definition restart :: "config \<Rightarrow> nemu \<Rightarrow> nemu" where
  "restart cf s =
     (let s1 = s\<lparr>cpu := (cpu s)\<lparr>pc := RESET_VECTOR cf\<rparr>\<rparr>;
          s2 = set_csr_pr 2 0x00001800 s1;
          s3 = set_csr_pr 5 0x00000080 s2;
          s4 = set_csr_pr 6 0x00000000 s3
      in s4\<lparr>cpu := (cpu s4)\<lparr>cycle := 0, gpr := (gpr (cpu s4))[0 := 0]\<rparr>\<rparr>)"

fun copy_words :: "u32 list \<Rightarrow> nat \<Rightarrow> (nat \<Rightarrow> u8) \<Rightarrow> (nat \<Rightarrow> u8)" where
  "copy_words [] a m = m"
| "copy_words (w # ws) a m = copy_words ws (a + 4) (le_write m a 4 w)"

definition init_isa :: "config \<Rightarrow> nemu \<Rightarrow> nemu" where
  "init_isa cf s =
     restart cf (s\<lparr>pmem := copy_words img (guest_to_host cf (RESET_VECTOR cf)) (pmem s)\<rparr>)"

definition init_map :: "nemu \<Rightarrow> nemu" where
  "init_map s = s\<lparr>p_space := 0\<rparr>"

definition init_serial :: "config \<Rightarrow> nemu \<Rightarrow> nemu res" where
  "init_serial cf s = bindE (new_space 8 s) (\<lambda>(b, s1).
     add_mmio_map cf ''serial'' (CONFIG_SERIAL_MMIO cf) b 8 CbSerial (s1\<lparr>serial_base := b\<rparr>))"

definition init_timer :: "config \<Rightarrow> nemu \<Rightarrow> nemu res" where
  "init_timer cf s = bindE (new_space 8 s) (\<lambda>(b, s1).
     add_mmio_map cf ''rtc'' (CONFIG_RTC_MMIO cf) b 8 CbRtc (s1\<lparr>rtc_port_base := b\<rparr>))"

definition init_hwdev_timer :: "config \<Rightarrow> nemu \<Rightarrow> nemu res" where
  "init_hwdev_timer cf s =
     (let t = \<lparr>t_cr = 0, t_sr = 0, t_psc = 0, t_load = 0, t_count = 0, t_clk_cnt = 0\<rparr> in
      bindE (new_space 20 (s\<lparr>hwdev_timer_p := Some t\<rparr>)) (\<lambda>(b, s1).
      add_mmio_map cf ''hwdev_timer'' (CONFIG_HWDEV_TIMER_MMIO cf) b 20 CbHwTimer
        (s1\<lparr>timer_base := b\<rparr>)))"

definition init_hwdev_uart :: "config \<Rightarrow> nemu \<Rightarrow> nemu res" where
  "init_hwdev_uart cf s =
     (let u = \<lparr>u_cr = 3, u_sr = 0, u_baud = 115200, u_rxd = 0, u_txd = 0, u_has_data = False\<rparr> in
      bindE (new_space 20 (s\<lparr>hwdev_uart_p := Some u\<rparr>)) (\<lambda>(b, s1).
      add_mmio_map cf ''hwdev_uart'' (CONFIG_HWDEV_UART_MMIO cf) b 20 CbHwUart
        (s1\<lparr>uart_base := b\<rparr>)))"

text \<open>The default screen: 400 by 300 pixels of four bytes.\<close>

definition init_vga :: "config \<Rightarrow> nemu \<Rightarrow> nemu res" where
  "init_vga cf s = bindE (new_space 8 s) (\<lambda>(b, s1).
     let s2 = io_set32 b 1 0 (io_set32 b 0 (push_bit 16 400 OR 300) (s1\<lparr>vgactl_port_base := b\<rparr>)) in
     bindE (add_mmio_map cf ''vgactl'' (CONFIG_VGA_CTL_MMIO cf) b 8 CbNull s2) (\<lambda>s3.
     bindE (new_space (400 * 300 * 4) s3) (\<lambda>(v, s4).
     bindE (add_mmio_map cf ''vmem'' (CONFIG_FB_ADDR cf) v (400 * 300 * 4) CbNull s4) (\<lambda>s5.
     Inr (s5\<lparr>io_space := (\<lambda>a. if v \<le> a \<and> a < v + 400 * 300 * 4 then 0 else io_space s5 a)\<rparr>)))))"

definition init_i8042 :: "config \<Rightarrow> nemu \<Rightarrow> nemu res" where
  "init_i8042 cf s = bindE (new_space 4 s) (\<lambda>(b, s1).
     add_mmio_map cf ''keyboard'' (CONFIG_I8042_DATA_MMIO cf) b 4 CbKeyboard
       (io_set32 b 0 NEMU_KEY_NONE (s1\<lparr>i8042_data_port_base := b\<rparr>)))"

definition init_audio :: "config \<Rightarrow> nemu \<Rightarrow> nemu res" where
  "init_audio cf s = bindE (new_space 24 s) (\<lambda>(b, s1).
     bindE (add_mmio_map cf ''audio'' (CONFIG_AUDIO_CTL_MMIO cf) b 24 CbAudio (s1\<lparr>audio_base := b\<rparr>))
       (\<lambda>s2. bindE (new_space (unat (CONFIG_SB_SIZE cf)) s2) (\<lambda>(v, s3).
     add_mmio_map cf ''audio-sbuf'' (CONFIG_SB_ADDR cf) v (CONFIG_SB_SIZE cf) CbNull s3)))"

text \<open>The default device set, in the order of \<^verbatim>\<open>init_device\<close>; \<^verbatim>\<open>init_disk\<close> is empty, the SD card is off.\<close>

definition init_device :: "config \<Rightarrow> nemu \<Rightarrow> nemu res" where
  "init_device cf s =
     bindE (init_serial cf (init_map s)) (\<lambda>s1.
     bindE (init_timer cf s1) (\<lambda>s2.
     bindE (init_hwdev_timer cf s2) (\<lambda>s3.
     bindE (init_hwdev_uart cf s3) (\<lambda>s4.
     bindE (init_vga cf s4) (\<lambda>s5.
     bindE (init_i8042 cf s5) (\<lambda>s6.
     init_audio cf s6))))))"

end
