(* ===== verification/Fifo.thy ===== *)
theory Fifo
  imports Prelude
begin

text \<open>
  Bounded first-in first-out buffers: the contract as a locale, with the facts any client may use
  (order is preserved, nothing is lost or invented over a whole run), and the view of a circular
  array as a list that the ring buffers of the code share.
\<close>

section \<open>The contract\<close>

datatype 'a fifo_op = Put 'a | Get

fun puts :: "'a fifo_op list \<Rightarrow> 'a list" where
  "puts [] = []"
| "puts (Put x # ops) = x # puts ops"
| "puts (Get # ops) = puts ops"

locale fifo =
  fixes inv :: "'s \<Rightarrow> bool"
    and view :: "'s \<Rightarrow> 'a list"
    and cap :: "'s \<Rightarrow> nat"
    and put :: "'a \<Rightarrow> 's \<Rightarrow> 's option"
    and get :: "'s \<Rightarrow> ('a \<times> 's) option"
  assumes put_room: "inv s \<Longrightarrow> length (view s) < cap s \<Longrightarrow>
      \<exists>s'. put x s = Some s' \<and> inv s' \<and> view s' = view s @ [x] \<and> cap s' = cap s"
    and put_full: "inv s \<Longrightarrow> length (view s) = cap s \<Longrightarrow> put x s = None"
    and get_some: "inv s \<Longrightarrow> view s = x # xs \<Longrightarrow>
      \<exists>s'. get s = Some (x, s') \<and> inv s' \<and> view s' = xs \<and> cap s' = cap s"
    and get_empty: "inv s \<Longrightarrow> view s = [] \<Longrightarrow> get s = None"
    and bounded: "inv s \<Longrightarrow> length (view s) \<le> cap s"
begin

lemma put_SomeD:
  assumes "inv s" and "put x s = Some s'"
  shows "inv s'" and "view s' = view s @ [x]" and "cap s' = cap s"
proof -
  have "length (view s) < cap s"
    using bounded [OF assms(1)] put_full [OF assms(1)] assms(2) by (fastforce simp: le_less)
  from put_room [OF assms(1) this, of x] assms(2)
  show "inv s'" "view s' = view s @ [x]" "cap s' = cap s" by auto
qed

lemma get_SomeD:
  assumes "inv s" and "get s = Some (x, s')"
  shows "inv s'" and "view s = x # view s'" and "cap s' = cap s"
proof -
  obtain y ys where v: "view s = y # ys"
    using get_empty [OF assms(1)] assms(2) by (cases "view s") auto
  from get_some [OF assms(1) v] assms(2) v
  show "inv s'" "view s = x # view s'" "cap s' = cap s" by auto
qed

text \<open>A run of puts and gets, each of which succeeds; \<open>outs\<close> collects what the gets returned.\<close>

fun run :: "'a fifo_op list \<Rightarrow> 's \<Rightarrow> ('a list \<times> 's) option" where
  "run [] s = Some ([], s)"
| "run (Put x # ops) s = (case put x s of None \<Rightarrow> None | Some s' \<Rightarrow> run ops s')"
| "run (Get # ops) s = (case get s of None \<Rightarrow> None
     | Some (x, s') \<Rightarrow> map_option (\<lambda>(outs, t). (x # outs, t)) (run ops s'))"

lemma run_conserves:
  "inv s \<Longrightarrow> run ops s = Some (outs, t) \<Longrightarrow> inv t \<and> view s @ puts ops = outs @ view t"
proof (induction ops arbitrary: s outs)
  case (Cons op ops)
  show ?case
  proof (cases op)
    case (Put x)
    with Cons.prems obtain s' where "put x s = Some s'" and r: "run ops s' = Some (outs, t)"
      by (auto split: option.splits)
    with put_SomeD [OF Cons.prems(1) this(1)] Cons.IH [OF _ r] Put show ?thesis by auto
  next
    case Get
    with Cons.prems obtain x s' outs' where g: "get s = Some (x, s')"
      and r: "run ops s' = Some (outs', t)" and o: "outs = x # outs'"
      by (auto split: option.splits)
    from get_SomeD [OF Cons.prems(1) g] Cons.IH [OF _ r] o Get show ?thesis by auto
  qed
qed simp

text \<open>Values put into an empty buffer come out first in, first out.\<close>

lemma run_order:
  "inv s \<Longrightarrow> view s = [] \<Longrightarrow> run ops s = Some (outs, t) \<Longrightarrow> outs = take (length outs) (puts ops)"
  using run_conserves [of s ops outs t] by (metis append_Nil append_eq_conv_conj)

end

section \<open>Circular arrays\<close>

text \<open>The \<open>k\<close> entries of a circular array from index \<open>start\<close> on.\<close>

definition ring_view :: "'a list \<Rightarrow> nat \<Rightarrow> nat \<Rightarrow> 'a list" where
  "ring_view q start k = map (\<lambda>i. q ! ((start + i) mod length q)) [0..<k]"

lemma length_ring_view [simp]: "length (ring_view q start k) = k"
  by (simp add: ring_view_def)

lemma ring_view_0 [simp]: "ring_view q start 0 = []"
  by (simp add: ring_view_def)

lemma ring_view_Suc: "ring_view q start (Suc k) = q ! (start mod length q) # ring_view q (Suc start) k"
  by (simp add: ring_view_def upt_conv_Cons map_Suc_upt [symmetric] del: upt_Suc)

lemma ring_view_mod: "ring_view q (start mod length q) k = ring_view q start k"
  by (simp add: ring_view_def mod_add_left_eq)

lemma ring_view_snoc: "ring_view q start (Suc k) = ring_view q start k @ [q ! ((start + k) mod length q)]"
  by (simp add: ring_view_def)

lemma ring_slot_distinct:
  assumes "i < k" and "k < (n::nat)" shows "(start + i) mod n \<noteq> (start + k) mod n"
proof
  assume "(start + i) mod n = (start + k) mod n"
  then have "n dvd (start + k) - (start + i)"
    using assms(1) by (metis add_le_cancel_left less_imp_le mod_eq_dvd_iff_nat)
  with assms show False by (auto dest: dvd_imp_le)
qed

text \<open>Writing the slot after the last entry appends, as long as one slot is free.\<close>

lemma ring_view_put:
  assumes "k < length q"
  shows "ring_view (q[(start + k) mod length q := x]) start (Suc k) = ring_view q start k @ [x]"
proof -
  have "ring_view (q[(start + k) mod length q := x]) start k = ring_view q start k"
    unfolding ring_view_def
  proof (rule map_cong)
    fix i assume "i \<in> set [0..<k]"
    then have "(start + k) mod length q \<noteq> (start + i) mod length q"
      using ring_slot_distinct [of i k "length q" start] assms by simp
    then show "q[(start + k) mod length q := x] ! ((start + i) mod length (q[(start + k) mod length q := x]))
        = q ! ((start + i) mod length q)" by simp
  qed simp
  moreover have "(start + k) mod length q < length q" using assms by (intro mod_less_divisor) linarith
  ultimately show ?thesis by (simp add: ring_view_snoc)
qed

text \<open>The distance from one index of a circular array to another, and a step of an index.\<close>

lemma ring_distance:
  assumes "f < n" and "r < (n::nat)"
  shows "(r + n - f) mod n = (if f \<le> r then r - f else r + n - f)"
proof (cases "f \<le> r")
  case True
  then obtain d where "r = f + d" by (auto simp: le_iff_add)
  with assms show ?thesis by simp
next
  case False
  with assms show ?thesis by simp
qed

lemma ring_next: "r < (n::nat) \<Longrightarrow> (r + 1) mod n = (if r + 1 = n then 0 else r + 1)"
  by auto

end
