(* ===== verification/Nemu_Device_Props.thy ===== *)
theory Nemu_Device_Props
  imports Nemu_Device Fifo
begin

text \<open>
  Correctness of the devices: the key queue is a bounded first-in first-out buffer, the hardware
  timer raises its interrupt after exactly \<open>(load + 1) * (psc + 1)\<close> ticks, and the UART hands every
  received byte over once.
\<close>

section \<open>The key queue\<close>

definition key_inv :: "nemu \<Rightarrow> bool" where
  "key_inv s \<longleftrightarrow> length (key_queue s) = KEY_QUEUE_LEN \<and> key_f s < KEY_QUEUE_LEN \<and> key_r s < KEY_QUEUE_LEN"

definition key_count :: "nemu \<Rightarrow> nat" where
  "key_count s = (key_r s + KEY_QUEUE_LEN - key_f s) mod KEY_QUEUE_LEN"

definition key_view :: "nemu \<Rightarrow> u32 list" where
  "key_view s = ring_view (key_queue s) (key_f s) (key_count s)"

definition key_put :: "u32 \<Rightarrow> nemu \<Rightarrow> nemu option" where
  "key_put k s = (case key_enqueue k s of Inl _ \<Rightarrow> None | Inr s' \<Rightarrow> Some s')"

definition key_get :: "nemu \<Rightarrow> (u32 \<times> nemu) option" where
  "key_get s = (if key_f s = key_r s then None else Some (key_dequeue s))"

lemma key_count_slot: "key_inv s \<Longrightarrow> (key_f s + key_count s) mod KEY_QUEUE_LEN = key_r s"
  by (auto simp: key_inv_def key_count_def KEY_QUEUE_LEN_def mod_add_right_eq)

lemma key_count_eq:
  "key_inv s \<Longrightarrow> key_count s = (if key_f s \<le> key_r s then key_r s - key_f s
     else key_r s + KEY_QUEUE_LEN - key_f s)"
  by (simp add: key_inv_def key_count_def ring_distance)

lemma key_count_0: "key_inv s \<Longrightarrow> key_count s = 0 \<longleftrightarrow> key_f s = key_r s"
  by (auto simp: key_count_eq) (auto simp: key_inv_def)

lemma key_count_bound: "key_count s \<le> 1023"
proof -
  have "key_count s < KEY_QUEUE_LEN"
    unfolding key_count_def by (rule mod_less_divisor) (simp add: KEY_QUEUE_LEN_def)
  then show ?thesis by (simp add: KEY_QUEUE_LEN_def)
qed

lemma key_next: "key_inv s \<Longrightarrow> (key_r s + 1) mod KEY_QUEUE_LEN =
    (if key_r s + 1 = KEY_QUEUE_LEN then 0 else key_r s + 1)"
  by (rule ring_next) (simp add: key_inv_def)

lemma key_count_put:
  assumes "key_inv s" and "key_count s < 1023"
  shows "((key_r s + 1) mod KEY_QUEUE_LEN + KEY_QUEUE_LEN - key_f s) mod KEY_QUEUE_LEN = Suc (key_count s)"
    and "(key_r s + 1) mod KEY_QUEUE_LEN \<noteq> key_f s"
proof -
  have b: "key_f s < KEY_QUEUE_LEN" "key_r s < KEY_QUEUE_LEN"
    using assms(1) by (simp_all add: key_inv_def)
  have "(key_r s + 1) mod KEY_QUEUE_LEN < KEY_QUEUE_LEN"
    by (rule mod_less_divisor) (simp add: KEY_QUEUE_LEN_def)
  note d = ring_distance [OF b(1) this]
  show "((key_r s + 1) mod KEY_QUEUE_LEN + KEY_QUEUE_LEN - key_f s) mod KEY_QUEUE_LEN = Suc (key_count s)"
    apply (subst d)
    apply (subst key_next [OF assms(1)])+
    using assms(2) b by (auto simp: key_count_eq [OF assms(1)] KEY_QUEUE_LEN_def split: if_splits)
  show "(key_r s + 1) mod KEY_QUEUE_LEN \<noteq> key_f s"
    unfolding key_next [OF assms(1)] using assms(2) b
    by (auto simp: key_count_eq [OF assms(1)] KEY_QUEUE_LEN_def split: if_splits)
qed

lemma key_count_full:
  assumes "key_inv s" and "key_count s = 1023"
  shows "(key_r s + 1) mod KEY_QUEUE_LEN = key_f s"
  unfolding key_next [OF assms(1)] using assms
  by (auto simp: key_count_eq [OF assms(1)] key_inv_def KEY_QUEUE_LEN_def split: if_splits)

lemma key_count_get:
  assumes "key_inv s" and "key_count s = Suc k"
  shows "(key_r s + KEY_QUEUE_LEN - (key_f s + 1) mod KEY_QUEUE_LEN) mod KEY_QUEUE_LEN = k"
proof -
  have b: "key_f s < KEY_QUEUE_LEN" "key_r s < KEY_QUEUE_LEN"
    using assms(1) by (simp_all add: key_inv_def)
  have "(key_f s + 1) mod KEY_QUEUE_LEN < KEY_QUEUE_LEN"
    by (rule mod_less_divisor) (simp add: KEY_QUEUE_LEN_def)
  note d = ring_distance [OF this b(2)]
  show ?thesis
    apply (subst d)
    apply (subst ring_next [OF b(1)])+
    using assms(2) b by (auto simp: key_count_eq [OF assms(1)] KEY_QUEUE_LEN_def split: if_splits)
qed

interpretation keys: fifo key_inv key_view "\<lambda>_. 1023" key_put key_get
proof
  fix s :: nemu and x
  assume inv: "key_inv s" and room: "length (key_view s) < 1023"
  then have c: "key_count s < 1023" by (simp add: key_view_def)
  let ?s' = "s\<lparr>key_queue := (key_queue s)[key_r s := x], key_r := (key_r s + 1) mod KEY_QUEUE_LEN\<rparr>"
  have put: "key_put x s = Some ?s'"
    using key_count_put [OF inv c] by (simp add: key_put_def key_enqueue_def Let_def)
  moreover have "key_inv ?s'"
    using inv by (simp add: key_inv_def KEY_QUEUE_LEN_def)
  moreover have "key_view ?s' = key_view s @ [x]"
  proof -
    have "key_count ?s' = Suc (key_count s)"
      using key_count_put [OF inv c] by (simp add: key_count_def)
    moreover have "key_r s = (key_f s + key_count s) mod length (key_queue s)"
      using key_count_slot [OF inv] inv by (simp add: key_inv_def)
    ultimately show ?thesis
      using ring_view_put [of "key_count s" "key_queue s" "key_f s" x] c inv
      by (simp add: key_view_def key_inv_def KEY_QUEUE_LEN_def)
  qed
  ultimately show "\<exists>s'. key_put x s = Some s' \<and> key_inv s' \<and> key_view s' = key_view s @ [x] \<and> (1023::nat) = 1023"
    by blast
next
  fix s :: nemu and x
  assume "key_inv s" and "length (key_view s) = 1023"
  then show "key_put x s = None"
    using key_count_full [of s] by (simp add: key_put_def key_enqueue_def Let_def key_view_def)
next
  fix s :: nemu and x xs
  assume inv: "key_inv s" and v: "key_view s = x # xs"
  then obtain k where k: "key_count s = Suc k"
    by (cases "key_count s") (auto simp: key_view_def)
  let ?s' = "s\<lparr>key_f := (key_f s + 1) mod KEY_QUEUE_LEN\<rparr>"
  have len: "length (key_queue s) = KEY_QUEUE_LEN" and f: "key_f s < KEY_QUEUE_LEN"
    using inv by (simp_all add: key_inv_def)
  from v k len f have x: "x = key_queue s ! key_f s" and xs: "xs = ring_view (key_queue s) (Suc (key_f s)) k"
    by (simp_all add: key_view_def ring_view_Suc)
  have "key_get s = Some (x, ?s')"
    using k key_count_0 [OF inv] by (auto simp: key_get_def key_dequeue_def x)
  moreover have "key_inv ?s'" using inv by (simp add: key_inv_def KEY_QUEUE_LEN_def)
  moreover have "key_view ?s' = xs"
    using key_count_get [OF inv k] ring_view_mod [of "key_queue s" "Suc (key_f s)" k] len
    by (simp add: key_view_def key_count_def xs)
  ultimately show "\<exists>s'. key_get s = Some (x, s') \<and> key_inv s' \<and> key_view s' = xs \<and> (1023::nat) = 1023"
    by blast
next
  fix s :: nemu
  assume "key_inv s" and "key_view s = []"
  then show "key_get s = None"
    using key_count_0 [of s] length_ring_view [of "key_queue s" "key_f s" "key_count s"]
    by (simp add: key_get_def key_view_def del: length_ring_view)
next
  fix s :: nemu
  show "length (key_view s) \<le> 1023"
    by (simp add: key_view_def key_count_bound)
qed

section \<open>The hardware timer\<close>

text \<open>
  \<open>timer_phase\<close> counts the ticks an enabled timer still needs before the one that raises its
  interrupt; the prescaler only ever ticks over when \<open>psc\<close> is below the largest word.
\<close>

definition timer_running :: "hw_timer \<Rightarrow> bool" where
  "timer_running t \<longleftrightarrow> t_cr t AND 1 \<noteq> 0 \<and> t_clk_cnt t \<le> t_psc t \<and> t_psc t \<noteq> -1"

definition timer_phase :: "hw_timer \<Rightarrow> nat" where
  "timer_phase t = unat (t_count t) * (unat (t_psc t) + 1) + (unat (t_psc t) - unat (t_clk_cnt t))"

lemma unat_Suc_max: "(x::u32) \<noteq> -1 \<Longrightarrow> unat (x + 1) = unat x + 1"
  using unatSuc [of x] by (simp add: add.commute [of 1] eq_neg_iff_add_eq_0)

lemma timer_not_max: "timer_running t \<Longrightarrow> t_clk_cnt t \<noteq> -1"
  by (auto simp: timer_running_def) (metis word_order.extremum_unique)

lemma timer_step_wait:
  assumes s: "hwdev_timer_p s = Some t" and run: "timer_running t" and ph: "timer_phase t = Suc n"
  shows "\<exists>t'. hwdev_timer_update s = s\<lparr>hwdev_timer_p := Some t'\<rparr> \<and> timer_running t' \<and>
     timer_phase t' = n \<and> t_load t' = t_load t \<and> t_psc t' = t_psc t \<and> t_sr t' = t_sr t"
proof -
  from run have en: "t_cr t AND 1 \<noteq> 0" and le: "t_clk_cnt t \<le> t_psc t" and nmax: "t_psc t \<noteq> -1"
    by (simp_all add: timer_running_def)
  have clk: "unat (t_clk_cnt t + 1) = unat (t_clk_cnt t) + 1"
    using timer_not_max [OF run] by (rule unat_Suc_max)
  show ?thesis
  proof (cases "t_clk_cnt t + 1 > t_psc t")
    case True
    with clk le have eq: "unat (t_clk_cnt t) = unat (t_psc t)"
      by (simp add: word_less_nat_alt word_le_nat_alt)
    with ph have "t_count t \<noteq> 0" by (auto simp: timer_phase_def)
    then have cnt: "unat (t_count t) = Suc (unat (t_count t - 1))"
      by (simp add: unat_minus_one unat_gt_0)
    let ?t' = "t\<lparr>t_clk_cnt := 0, t_count := t_count t - 1\<rparr>"
    have "hwdev_timer_update s = s\<lparr>hwdev_timer_p := Some ?t'\<rparr>"
      using s en True \<open>t_count t \<noteq> 0\<close> by (simp add: hwdev_timer_update_def Let_def)
    moreover have "timer_running ?t'" using en nmax by (simp add: timer_running_def)
    moreover have "timer_phase ?t' = n" using ph eq cnt by (simp add: timer_phase_def)
    ultimately show ?thesis by auto
  next
    case False
    let ?t' = "t\<lparr>t_clk_cnt := t_clk_cnt t + 1\<rparr>"
    have "hwdev_timer_update s = s\<lparr>hwdev_timer_p := Some ?t'\<rparr>"
      using s en False by (simp add: hwdev_timer_update_def Let_def)
    moreover have "timer_running ?t'" using en nmax False by (simp add: timer_running_def)
    moreover have "timer_phase ?t' = n"
      using ph clk False by (simp add: timer_phase_def word_less_nat_alt)
    ultimately show ?thesis by auto
  qed
qed

lemma timer_step_fire:
  assumes s: "hwdev_timer_p s = Some t" and run: "timer_running t" and ph: "timer_phase t = 0"
  shows "hwdev_timer_update s = dev_raise_intr (s\<lparr>hwdev_timer_p :=
     Some (t\<lparr>t_clk_cnt := 0, t_count := t_load t, t_sr := t_sr t OR 1\<rparr>)\<rparr>)"
proof -
  from run have en: "t_cr t AND 1 \<noteq> 0" and le: "t_clk_cnt t \<le> t_psc t"
    by (simp_all add: timer_running_def)
  have clk: "unat (t_clk_cnt t + 1) = unat (t_clk_cnt t) + 1"
    using timer_not_max [OF run] by (rule unat_Suc_max)
  from ph have "unat (t_count t) = 0" and "unat (t_psc t) \<le> unat (t_clk_cnt t)"
    by (simp_all add: timer_phase_def)
  then have "t_count t = 0" and "t_clk_cnt t + 1 > t_psc t"
    using clk by (simp_all add: word_less_nat_alt unat_eq_0)
  with s en show ?thesis by (simp add: hwdev_timer_update_def Let_def)
qed

lemma timer_steps_wait:
  assumes "hwdev_timer_p s = Some t" and "timer_running t" and "n \<le> timer_phase t"
  shows "\<exists>t'. (hwdev_timer_update ^^ n) s = s\<lparr>hwdev_timer_p := Some t'\<rparr> \<and> timer_running t' \<and>
     timer_phase t' = timer_phase t - n \<and> t_load t' = t_load t \<and> t_psc t' = t_psc t \<and> t_sr t' = t_sr t"
  using assms
proof (induction n)
  case 0
  then show ?case by (intro exI [of _ t]) simp
next
  case (Suc n)
  then obtain t' where t': "(hwdev_timer_update ^^ n) s = s\<lparr>hwdev_timer_p := Some t'\<rparr>" "timer_running t'"
    "timer_phase t' = timer_phase t - n" "t_load t' = t_load t" "t_psc t' = t_psc t" "t_sr t' = t_sr t"
    by auto
  from Suc.prems(3) t'(3) have "timer_phase t' = Suc (timer_phase t - Suc n)" by simp
  from timer_step_wait [OF _ t'(2) this, of "s\<lparr>hwdev_timer_p := Some t'\<rparr>"] t' show ?case by auto
qed

lemma pending_upd [simp]: "timer_intr_pending (s\<lparr>hwdev_timer_p := v\<rparr>) = timer_intr_pending s"
  by simp

lemma timer_fires:
  assumes "hwdev_timer_p s = Some t" and "timer_running t"
  shows "(\<forall>n \<le> timer_phase t. timer_intr_pending ((hwdev_timer_update ^^ n) s) = timer_intr_pending s) \<and>
    (\<exists>t'. hwdev_timer_p ((hwdev_timer_update ^^ (timer_phase t + 1)) s) = Some t' \<and>
       timer_intr_pending ((hwdev_timer_update ^^ (timer_phase t + 1)) s) \<and> bit (t_sr t') 0 \<and>
       timer_running t' \<and> timer_phase t' + 1 = (unat (t_load t) + 1) * (unat (t_psc t) + 1))"
proof (intro conjI allI impI)
  fix n assume "n \<le> timer_phase t"
  from timer_steps_wait [OF assms this]
  show "timer_intr_pending ((hwdev_timer_update ^^ n) s) = timer_intr_pending s" by auto
next
  obtain t1 where s1: "(hwdev_timer_update ^^ timer_phase t) s = s\<lparr>hwdev_timer_p := Some t1\<rparr>"
    and t1: "timer_running t1" "timer_phase t1 = 0" "t_load t1 = t_load t" "t_psc t1 = t_psc t"
    using timer_steps_wait [OF assms order_refl] by auto
  let ?t' = "t1\<lparr>t_clk_cnt := 0, t_count := t_load t1, t_sr := t_sr t1 OR 1\<rparr>"
  have fire: "(hwdev_timer_update ^^ (timer_phase t + 1)) s = dev_raise_intr (s\<lparr>hwdev_timer_p := Some ?t'\<rparr>)"
    using timer_step_fire [OF _ t1(1,2), of "s\<lparr>hwdev_timer_p := Some t1\<rparr>"] s1 by simp
  have "timer_running ?t'" using t1(1) by (simp add: timer_running_def)
  moreover have "timer_phase ?t' + 1 = (unat (t_load t) + 1) * (unat (t_psc t) + 1)"
    using t1 by (simp add: timer_phase_def)
  moreover have "bit (t_sr ?t') 0" by (simp add: bit_or_iff)
  ultimately show "\<exists>t'. hwdev_timer_p ((hwdev_timer_update ^^ (timer_phase t + 1)) s) = Some t' \<and>
       timer_intr_pending ((hwdev_timer_update ^^ (timer_phase t + 1)) s) \<and> bit (t_sr t') 0 \<and>
       timer_running t' \<and> timer_phase t' + 1 = (unat (t_load t) + 1) * (unat (t_psc t) + 1)"
    unfolding fire by (intro exI [of _ ?t']) (simp add: dev_raise_intr_def)
qed

text \<open>C14: a running timer leaves the interrupt line alone for the ticks its phase counts, raises it
  and its status flag on the next tick, and then needs \<open>(load + 1) * (psc + 1)\<close> ticks for the next
  interrupt.\<close>

theorem timer_interrupt_period:
  assumes "hwdev_timer_p s = Some t" and "timer_running t"
  shows "(\<forall>n \<le> timer_phase t. timer_intr_pending ((hwdev_timer_update ^^ n) s) = timer_intr_pending s) \<and>
    (\<exists>t'. hwdev_timer_p ((hwdev_timer_update ^^ (timer_phase t + 1)) s) = Some t' \<and>
       timer_intr_pending ((hwdev_timer_update ^^ (timer_phase t + 1)) s) \<and> bit (t_sr t') 0 \<and>
       timer_running t' \<and> timer_phase t' + 1 = (unat (t_load t) + 1) * (unat (t_psc t) + 1))"
  using timer_fires [OF assms] .

text \<open>A fresh machine for witnesses: everything zero, devices absent.\<close>

definition blank_nemu :: nemu where
  "blank_nemu = \<lparr>
     cpu = \<lparr>gpr = replicate 32 0, pc = 0, true_pc = 0, csr_pr = replicate 12 0, cycle = 0\<rparr>,
     nemu_state = \<lparr>state = NEMU_STOP, halt_pc = 0, halt_ret = 0\<rparr>, g_nr_guest_inst = 0,
     pmem = (\<lambda>_. 0), io_space = (\<lambda>_. 0), p_space = 0, maps = [],
     hwdev_timer_p = None, timer_base = 0, hwdev_uart_p = None, uart_base = 0, serial_base = 0,
     rtc_port_base = 0, i8042_data_port_base = 0, vgactl_port_base = 0, audio_base = 0,
     keymap = (\<lambda>_. 0), key_queue = replicate 1024 0, key_f = 0, key_r = 0,
     timer_intr_pending = False, device_last = 0, boot_time = 0, is_skip_ref = False,
     skip_dut_nr_inst = 0, host_clock = (\<lambda>_. 0), clock_reads = 0, host_stdin = [],
     host_sdl = (\<lambda>_. []), sdl_polls = 0, host_out = [],
     tokens = replicate 64 \<lparr>tk_type = TK_ZERO, tk_str = replicate 64 (CHR 0x00)\<rparr>, nr_token = 0,
     wp_pool = replicate 32 \<lparr>wp_used = False, wp_NO = 0, wp_next = None, wp_exprs = [], wp_num = 0\<rparr>,
     wp_head = None, wp_free = None \<rparr>"

lemma wf_blank_nemu [simp]: "wf_nemu blank_nemu"
  by (simp add: blank_nemu_def wf_nemu_def wf_cpu_def)

theorem timer_interrupt_period_witness:
  "timer_intr_pending ((hwdev_timer_update ^^ 6) (blank_nemu\<lparr>hwdev_timer_p :=
     Some \<lparr>t_cr = 1, t_sr = 0, t_psc = 1, t_load = 2, t_count = 2, t_clk_cnt = 0\<rparr>\<rparr>))"
proof -
  let ?t = "\<lparr>t_cr = 1, t_sr = 0, t_psc = 1, t_load = 2, t_count = 2, t_clk_cnt = 0\<rparr>"
  have "timer_running ?t" and "timer_phase ?t + 1 = 6"
    by (simp_all add: timer_running_def timer_phase_def)
  with timer_interrupt_period [of "blank_nemu\<lparr>hwdev_timer_p := Some ?t\<rparr>" ?t]
  show ?thesis by (metis nemu.select_convs(8) nemu.surjective nemu.update_convs(8))
qed

section \<open>The UART\<close>

text \<open>C15: an enabled receiver with an empty buffer takes one byte from the terminal, keeps it across
  any number of further updates without consuming more input, and the next read of the data register
  returns exactly that byte and empties the buffer.\<close>

theorem uart_receives_each_byte_once:
  assumes "hwdev_uart_p s = Some u" and "u_cr u AND 2 \<noteq> 0" and "\<not> u_has_data u"
    and "host_stdin s = Some ch # rest"
  shows "\<exists>s1 s2 u2. (hwdev_uart_update ^^ Suc n) s = s1 \<and> host_stdin s1 = rest \<and>
     hwdev_uart_io_handler 0x0c 4 False s1 = Inr s2 \<and>
     io_get32 (uart_base s) 3 s2 = ucast ch \<and> host_stdin s2 = rest \<and>
     hwdev_uart_p s2 = Some u2 \<and> \<not> u_has_data u2 \<and> \<not> bit (u_sr u2) 1"
proof -
  let ?u = "u\<lparr>u_rxd := ucast ch, u_has_data := True, u_sr := u_sr u OR SR_RX_FLAG\<rparr>"
  let ?s = "s\<lparr>host_stdin := rest, hwdev_uart_p := Some ?u\<rparr>"
  have first: "hwdev_uart_update s = ?s"
    using assms by (simp add: hwdev_uart_update_def try_read_keyboard_def)
  have stay: "hwdev_uart_update ?s = ?s"
    using assms(2) by (simp add: hwdev_uart_update_def)
  have all: "(hwdev_uart_update ^^ Suc n) s = ?s"
  proof (induction n)
    case (Suc n)
    then show ?case using stay by (simp del: funpow.simps add: funpow.simps(2) [of "Suc n"])
  qed (simp add: first)
  have "io_get32 (uart_base s) 3 (io_set32 (uart_base s) 3 (ucast ch) t) = ucast ch" for t
    by simp
  then show ?thesis
    unfolding all
    by (simp add: hwdev_uart_io_handler_def SR_RX_FLAG_def bit_and_iff bit_not_iff bit_or_iff
        io_set32_def io_get32_def)
qed

theorem uart_receives_each_byte_once_witness:
  "\<exists>s1 s2 u2. (hwdev_uart_update ^^ Suc 4) (blank_nemu\<lparr>hwdev_uart_p := Some \<lparr>u_cr = 3, u_sr = 0,
       u_baud = 115200, u_rxd = 0, u_txd = 0, u_has_data = False\<rparr>, host_stdin := [Some 65, Some 66]\<rparr>) = s1 \<and>
     host_stdin s1 = [Some 66] \<and> hwdev_uart_io_handler 0x0c 4 False s1 = Inr s2 \<and>
     io_get32 0 3 s2 = 65 \<and> host_stdin s2 = [Some 66] \<and>
     hwdev_uart_p s2 = Some u2 \<and> \<not> u_has_data u2 \<and> \<not> bit (u_sr u2) 1"
  using uart_receives_each_byte_once [of "blank_nemu\<lparr>hwdev_uart_p := Some \<lparr>u_cr = 3, u_sr = 0,
       u_baud = 115200, u_rxd = 0, u_txd = 0, u_has_data = False\<rparr>, host_stdin := [Some 65, Some 66]\<rparr>"
       "\<lparr>u_cr = 3, u_sr = 0, u_baud = 115200, u_rxd = 0, u_txd = 0, u_has_data = False\<rparr>" 65 "[Some 66]" 4]
  by (simp add: blank_nemu_def)

text \<open>C16: the keyboard queue never reorders, drops or invents a key: over any run of successful
  enqueues and dequeues, what was queued followed by what was sent is what was read followed by what
  is still queued.\<close>

theorem key_queue_conserves:
  assumes "key_inv s" and "fifo.run key_put key_get ops s = Some (outs, t)"
  shows "key_inv t \<and> key_view s @ puts ops = outs @ key_view t"
  using assms by (rule keys.run_conserves)

theorem key_queue_conserves_witness:
  "\<exists>t. fifo.run key_put key_get [Put 7, Put 9, Get] blank_nemu = Some ([7], t) \<and> key_view t = [9]"
proof -
  have inv: "key_inv blank_nemu" by (simp add: key_inv_def blank_nemu_def KEY_QUEUE_LEN_def)
  have v: "key_view blank_nemu = []" by (simp add: key_view_def key_count_def blank_nemu_def KEY_QUEUE_LEN_def)
  obtain t where r: "fifo.run key_put key_get [Put 7, Put 9, Get] blank_nemu = Some ([7], t)"
    by (simp add: keys.run.simps key_put_def key_get_def key_enqueue_def key_dequeue_def Let_def
        blank_nemu_def KEY_QUEUE_LEN_def del: replicate.simps)
  from key_queue_conserves [OF inv r] v r show ?thesis by simp
qed

end
