(* ===== verification/Nemu_Memory_Props.thy ===== *)
theory Nemu_Memory_Props
  imports Nemu_Memory Nemu_Device_Props
begin

text \<open>
  Correctness of the bus: registered regions never overlap, so the linear search finds the one
  region that holds an address; guest memory returns what was written; nothing on the bus touches
  the core beyond the pending interrupt register.
\<close>

section \<open>The region table\<close>

definition disjoint_regions :: "iomap \<Rightarrow> iomap \<Rightarrow> bool" where
  "disjoint_regions a b \<longleftrightarrow> high a < low b \<or> high b < low a"

definition maps_ok :: "config \<Rightarrow> iomap list \<Rightarrow> bool" where
  "maps_ok cf ms \<longleftrightarrow> length ms \<le> NR_MAP \<and>
     (\<forall>i < length ms. \<forall>j < length ms. i \<noteq> j \<longrightarrow> disjoint_regions (ms ! i) (ms ! j)) \<and>
     (\<forall>m \<in> set ms. \<not> in_pmem cf (low m) \<and> \<not> in_pmem cf (high m))"

lemma disjoint_regions_sym: "disjoint_regions a b = disjoint_regions b a"
  by (auto simp: disjoint_regions_def)

lemma disjoint_regions_inside:
  "disjoint_regions a b \<Longrightarrow> map_inside a x \<Longrightarrow> map_inside b x \<Longrightarrow> False"
  by (auto simp: disjoint_regions_def map_inside_def)

lemma add_mmio_map_maps:
  "add_mmio_map cf name addr sp len cb s = Inr s' \<Longrightarrow>
   s' = s\<lparr>maps := maps s @ [\<lparr>map_name = name, low = addr, high = addr + len - 1, space = sp, callback = cb\<rparr>]\<rparr>"
  by (auto simp: add_mmio_map_def Let_def split: if_splits)

lemma add_mmio_map_guards:
  assumes "add_mmio_map cf name addr sp len cb s = Inr s'"
  shows "length (maps s) < NR_MAP" and "\<not> in_pmem cf addr" and "\<not> in_pmem cf (addr + len - 1)"
    and "\<And>m. m \<in> set (maps s) \<Longrightarrow> high m < addr \<or> addr + len - 1 < low m"
  using assms by (auto simp: add_mmio_map_def Let_def not_le split: if_splits)

text \<open>Registering a region succeeds only if it keeps the table within its sixteen entries, pairwise
  disjoint and with no end inside guest memory.\<close>

theorem add_mmio_map_keeps_maps_ok:
  assumes ok: "maps_ok cf (maps s)" and add: "add_mmio_map cf name addr sp len cb s = Inr s'"
  shows "maps_ok cf (maps s')"
proof -
  let ?m = "\<lparr>map_name = name, low = addr, high = addr + len - 1, space = sp, callback = cb\<rparr>"
  have eq: "maps s' = maps s @ [?m]"
    using add_mmio_map_maps [OF add] by simp
  have new: "disjoint_regions m ?m" if "m \<in> set (maps s)" for m
    using add_mmio_map_guards(4) [OF add that] by (auto simp: disjoint_regions_def)
  have "disjoint_regions ((maps s @ [?m]) ! i) ((maps s @ [?m]) ! j)"
    if "i < Suc (length (maps s))" "j < Suc (length (maps s))" "i \<noteq> j" for i j
    using that ok new by (auto simp: nth_append maps_ok_def less_Suc_eq disjoint_regions_sym)
  then show ?thesis
    using ok add_mmio_map_guards [OF add] unfolding eq by (auto simp: maps_ok_def)
qed

theorem add_mmio_map_keeps_maps_ok_witness:
  "\<exists>s'. add_mmio_map default_config ''serial'' 0xa00003f8 0 8 CbSerial blank_nemu = Inr s' \<and>
     maps_ok default_config (maps s')"
proof -
  have "add_mmio_map default_config ''serial'' 0xa00003f8 0 8 CbSerial blank_nemu =
      Inr (blank_nemu\<lparr>maps := [\<lparr>map_name = ''serial'', low = 0xa00003f8, high = 0xa00003ff, space = 0,
        callback = CbSerial\<rparr>]\<rparr>)" (is "_ = Inr ?s")
    by (simp add: add_mmio_map_def in_pmem_def default_config_def blank_nemu_def NR_MAP_def)
  moreover have "maps_ok default_config (maps blank_nemu)"
    by (simp add: maps_ok_def blank_nemu_def)
  ultimately show ?thesis using add_mmio_map_keeps_maps_ok by blast
qed

lemma find_mapid_frame [simp]:
  "snd (find_mapid_by_addr cf ms i addr s) = s \<or>
   snd (find_mapid_by_addr cf ms i addr s) = difftest_skip_ref cf s"
  by (induction cf ms i addr s rule: find_mapid_by_addr.induct) auto

lemma find_mapid_none:
  "(\<forall>m \<in> set ms. \<not> map_inside m addr) \<Longrightarrow> find_mapid_by_addr cf ms i addr s = (None, s)"
  by (induction ms arbitrary: i) auto

lemma find_mapid_some:
  "k < length ms \<Longrightarrow> map_inside (ms ! k) addr \<Longrightarrow> \<forall>j < k. \<not> map_inside (ms ! j) addr \<Longrightarrow>
   find_mapid_by_addr cf ms i addr s = (Some (i + k), difftest_skip_ref cf s)"
proof (induction ms arbitrary: i k)
  case (Cons m ms)
  show ?case
  proof (cases k)
    case 0
    with Cons.prems show ?thesis by simp
  next
    case (Suc k')
    with Cons.prems have "\<not> map_inside m addr" and "\<forall>j<k'. \<not> map_inside (ms ! j) addr"
      by auto
    with Cons.prems Suc Cons.IH [of k' "i + 1"] show ?thesis by simp
  qed
qed simp

lemma fetch_mmio_map_found:
  assumes "maps_ok cf (maps s)" and "m \<in> set (maps s)" and inside: "map_inside m addr"
  shows "fetch_mmio_map cf addr s = (Some m, difftest_skip_ref cf s)"
proof -
  from assms obtain k where k: "k < length (maps s)" "maps s ! k = m"
    by (auto simp: in_set_conv_nth)
  have "\<forall>j < k. \<not> map_inside (maps s ! j) addr"
  proof (intro allI impI notI)
    fix j assume "j < k" and "map_inside (maps s ! j) addr"
    with assms k inside disjoint_regions_inside [of "maps s ! j" m addr] show False
      by (auto simp: maps_ok_def)
  qed
  with find_mapid_some [of k "maps s" addr cf 0 s] k inside show ?thesis
    by (simp add: fetch_mmio_map_def)
qed

text \<open>With a well-formed table the bus finds the region that holds an address, whatever its
  position, and an address in no region has none.\<close>

theorem fetch_mmio_map_correct:
  assumes "maps_ok cf (maps s)"
  shows "(\<forall>m \<in> set (maps s). map_inside m addr \<longrightarrow>
       fetch_mmio_map cf addr s = (Some m, difftest_skip_ref cf s)) \<and>
     ((\<forall>m \<in> set (maps s). \<not> map_inside m addr) \<longrightarrow> fetch_mmio_map cf addr s = (None, s))"
  using fetch_mmio_map_found [OF assms] by (auto simp: fetch_mmio_map_def find_mapid_none)

theorem fetch_mmio_map_correct_witness:
  "fetch_mmio_map default_config 5 (blank_nemu\<lparr>maps := [\<lparr>map_name = ''a'', low = 1, high = 8, space = 0,
     callback = CbNull\<rparr>]\<rparr>) = (Some \<lparr>map_name = ''a'', low = 1, high = 8, space = 0, callback = CbNull\<rparr>,
     blank_nemu\<lparr>maps := [\<lparr>map_name = ''a'', low = 1, high = 8, space = 0, callback = CbNull\<rparr>]\<rparr>)"
proof -
  let ?m = "\<lparr>map_name = ''a'', low = 1, high = 8, space = 0, callback = CbNull\<rparr>"
  let ?s = "blank_nemu\<lparr>maps := [?m]\<rparr>"
  have "maps_ok default_config (maps ?s)"
    by (simp add: maps_ok_def NR_MAP_def in_pmem_def default_config_def)
  from fetch_mmio_map_correct [OF this, of 5] show ?thesis
    by (simp add: map_inside_def difftest_skip_ref_def default_config_def)
qed

section \<open>Guest memory\<close>

text \<open>C13: a store to guest memory that returns changes exactly the bytes it addresses: a load of the same
  place and size returns the low bytes of the stored word, any other guest load is unaffected, and
  the rest of the machine is untouched.\<close>

theorem paddr_store_load:
  assumes "in_pmem cf a" and "paddr_write cf a len d s = Inr s'"
  shows "paddr_read cf a len s' = Inr (take_bit (8 * len) d, s') \<and>
     (\<forall>b n. in_pmem cf b \<longrightarrow>
        guest_to_host cf a + len \<le> guest_to_host cf b \<or> guest_to_host cf b + n \<le> guest_to_host cf a \<longrightarrow>
        pmem_read cf b n s' = pmem_read cf b n s) \<and>
     s' = s\<lparr>pmem := pmem s'\<rparr>"
proof -
  from assms obtain m where w: "host_write (pmem s) (unat (CONFIG_MSIZE cf)) (guest_to_host cf a) len d = Inr m"
    and s': "s' = s\<lparr>pmem := m\<rparr>"
    by (auto simp: paddr_write_def pmem_write_def)
  from w have m: "m = le_write (pmem s) (guest_to_host cf a) len d"
    by (auto simp: host_write_def split: if_splits)
  have "pmem_read cf b n s' = pmem_read cf b n s"
    if "guest_to_host cf a + len \<le> guest_to_host cf b \<or> guest_to_host cf b + n \<le> guest_to_host cf a" for b n
    using le_read_write_disjoint [of "guest_to_host cf b" n "guest_to_host cf a" len "pmem s" d] that
    by (auto simp: pmem_read_def host_read_def s' m simp del: le_read.simps le_write.simps One_nat_def)
  with host_read_after_write [OF w] assms(1) s' show ?thesis
    by (simp add: paddr_read_def pmem_read_def)
qed

theorem paddr_store_load_witness:
  "\<exists>s'. paddr_write default_config 0x80000010 4 0xdeadbeef blank_nemu = Inr s' \<and>
     paddr_read default_config 0x80000010 4 s' = Inr (0xdeadbeef, s')"
proof -
  have p: "in_pmem default_config 0x80000010" by (simp add: in_pmem_def default_config_def)
  moreover obtain s' where w: "paddr_write default_config 0x80000010 4 0xdeadbeef blank_nemu = Inr s'"
    by (simp add: paddr_write_def pmem_write_def host_write_def in_pmem_def default_config_def guest_to_host_def)
  ultimately show ?thesis using paddr_store_load [OF p w] by simp
qed

text \<open>
  The bound of guest memory is checked for the first byte only: a word access at the last byte
  leaves the array.
\<close>

lemma paddr_read_last_byte_overruns:
  "in_pmem default_config 0x8000ffff \<and>
   paddr_read default_config 0x8000ffff 4 s = Inl (HostFault ''read outside array'')"
  by (simp add: paddr_read_def pmem_read_def host_read_def in_pmem_def default_config_def guest_to_host_def)

text \<open>
  The overlap check of \<^verbatim>\<open>add_mmio_map\<close> looks at the two ends of the new region, so a region that
  swallows guest memory whole is accepted (and then never reached, as guest memory answers first).
\<close>

lemma add_mmio_map_swallows_pmem:
  "isOk (add_mmio_map default_config ''big'' 0x7fff0000 0 0x30000 CbNull blank_nemu)"
  by (simp add: add_mmio_map_def in_pmem_def default_config_def blank_nemu_def NR_MAP_def)

section \<open>The bus leaves the core alone\<close>

text \<open>Like \<open>same_core\<close>, for operations that may store to guest memory.\<close>

definition same_regs :: "nemu \<Rightarrow> nemu \<Rightarrow> bool" where
  "same_regs s s' \<longleftrightarrow> gpr (cpu s') = gpr (cpu s) \<and> pc (cpu s') = pc (cpu s) \<and>
     true_pc (cpu s') = true_pc (cpu s) \<and> cycle (cpu s') = cycle (cpu s) \<and>
     length (csr_pr (cpu s')) = length (csr_pr (cpu s)) \<and>
     (\<forall>i. i \<noteq> MIP_IDX \<longrightarrow> get_csr_pr i s' = get_csr_pr i s) \<and>
     tokens s' = tokens s \<and> nr_token s' = nr_token s \<and> wp_pool s' = wp_pool s \<and>
     wp_head s' = wp_head s \<and> wp_free s' = wp_free s \<and> nemu_state s' = nemu_state s \<and> maps s' = maps s \<and> (wf_nemu s \<longrightarrow> wf_nemu s')"

lemma same_regs_refl [simp]: "same_regs s s"
  by (simp add: same_regs_def)

lemma same_regs_core: "same_core s s' \<Longrightarrow> nemu_state s' = nemu_state s \<Longrightarrow> same_regs s s'"
  by (simp add: same_core_def same_regs_def)

lemma same_regs_trans: "same_regs s s1 \<Longrightarrow> same_regs s1 s2 \<Longrightarrow> same_regs s s2"
  by (auto simp: same_regs_def)

lemma same_regs_fetch: "same_regs s (snd (fetch_mmio_map cf addr s))"
proof -
  obtain r s1 where f: "find_mapid_by_addr cf (maps s) 0 addr s = (r, s1)" by fastforce
  then have "s1 = s \<or> s1 = difftest_skip_ref cf s"
    using find_mapid_frame [of cf "maps s" 0 addr s] by simp
  then have "same_regs s s1" by (auto intro: same_regs_core)
  with f show ?thesis by (cases r) (simp_all add: fetch_mmio_map_def)
qed

lemma same_regs_map_read: "map_read addr len mp s = Inr (v, s') \<Longrightarrow> same_regs s s'"
  unfolding map_read_def
  by (auto simp: Let_def intro!: same_regs_core io.core_after io.run_after)

lemma same_regs_map_write: 
  assumes "map_write addr len d mp s = Inr s'" shows "same_regs s s'"
proof -
  from assms obtain m :: iomap and io where
    "invoke_callback (callback m) (addr - low m) len True (s\<lparr>io_space := io\<rparr>) = Inr s'"
    unfolding map_write_def by (auto simp: Let_def)
  from io.core_after [OF this] io.run_after [OF this] show ?thesis
    by (auto intro: same_regs_core)
qed

lemma same_regs_paddr_read: "paddr_read cf addr len s = Inr (v, s') \<Longrightarrow> same_regs s s'"
  using same_regs_fetch [of s cf addr]
  by (auto simp: paddr_read_def mmio_read_def out_of_bound_def split: if_splits prod.splits
      intro: same_regs_trans dest!: same_regs_map_read)

lemma same_regs_paddr_write: "paddr_write cf addr len d s = Inr s' \<Longrightarrow> same_regs s s'"
  using same_regs_fetch [of s cf addr]
  by (auto simp: paddr_write_def mmio_write_def pmem_write_def out_of_bound_def
      same_regs_def get_csr_pr_def wf_nemu_def split: if_splits prod.splits
      dest!: same_regs_map_write)

lemma same_regs_inst_fetch: "inst_fetch cf p len s = Inr (i, p', s') \<Longrightarrow> same_regs s s'"
  by (auto simp: inst_fetch_def vaddr_ifetch_def dest: same_regs_paddr_read)

lemma inst_fetch_pc: "inst_fetch cf p len s = Inr (i, p', s') \<Longrightarrow> p' = p + of_nat len"
  by (auto simp: inst_fetch_def)

section \<open>Initialisation\<close>

text \<open>With the default configuration every device of the default set is registered, in order, at its
  documented address, without overlap, and the hardware timer starts disabled.\<close>

theorem init_device_default:
  assumes "maps s = []"
  shows "\<exists>s'. init_device default_config s = Inr s' \<and>
     map (\<lambda>m. (map_name m, low m, high m)) (maps s') =
       [(''serial'', 0xa00003f8, 0xa00003ff), (''rtc'', 0xa0000048, 0xa000004f),
        (''hwdev_timer'', 0x80010000, 0x80010013), (''hwdev_uart'', 0x80020000, 0x80020013),
        (''vgactl'', 0xa0000100, 0xa0000107), (''vmem'', 0xa1000000, 0xa10752ff),
        (''keyboard'', 0xa0000060, 0xa0000063), (''audio'', 0xa0000200, 0xa0000217),
        (''audio-sbuf'', 0xa1200000, 0xa120ffff)] \<and>
     hwdev_timer_p s' = Some \<lparr>t_cr = 0, t_sr = 0, t_psc = 0, t_load = 0, t_count = 0, t_clk_cnt = 0\<rparr>"
  using assms
  by (simp add: init_device_def init_map_def init_serial_def init_timer_def init_hwdev_timer_def
      init_hwdev_uart_def init_vga_def init_i8042_def init_audio_def new_space_def add_mmio_map_def
      Let_def default_config_def PAGE_SIZE_def IO_SPACE_MAX_def NR_MAP_def in_pmem_def io_set32_def)

theorem init_device_default_witness:
  "\<exists>s'. init_device default_config blank_nemu = Inr s' \<and> length (maps s') = 9"
proof -
  have "maps blank_nemu = []" by (simp add: blank_nemu_def)
  from init_device_default [OF this] obtain s' where "init_device default_config blank_nemu = Inr s'"
    and l: "length (map (\<lambda>m. (map_name m, low m, high m)) (maps s')) = 9" by auto
  moreover from l have "length (maps s') = 9" by (simp only: length_map)
  ultimately show ?thesis by blast
qed

text \<open>
  With the memory size of \<^verbatim>\<open>configs/riscv32-am_defconfig\<close> (32 MiB) the hardware timer's address falls
  inside guest memory and initialisation panics.
\<close>

lemma init_device_am_defconfig_panics:
  "maps s = [] \<Longrightarrow> init_device (default_config\<lparr>CONFIG_MSIZE := 0x2000000\<rparr>) s =
     Inl (Panic ''MMIO region is overlapped with pmem'')"
  by (simp add: init_device_def init_map_def init_serial_def init_timer_def init_hwdev_timer_def
      new_space_def add_mmio_map_def
      Let_def default_config_def PAGE_SIZE_def IO_SPACE_MAX_def NR_MAP_def in_pmem_def)

text \<open>
  The comment on \<^verbatim>\<open>restart\<close> announces the interrupt enable bit (bit 3) and its saved copy (bit 7) as
  set; the value written has neither.
\<close>

lemma restart_interrupts_off:
  "wf_nemu s \<Longrightarrow> \<not> bit (get_csr_pr MSTATUS_IDX (restart cf s)) 3 \<and>
     \<not> bit (get_csr_pr MSTATUS_IDX (restart cf s)) 7"
  by (simp add: restart_def Let_def get_csr_pr_def set_csr_pr_def wf_nemu_def wf_cpu_def)

end
