(* ===== verification/Nemu_Inst.thy ===== *)
theory Nemu_Inst
  imports Nemu_Memory_Props
begin

text \<open>
  The RV32IM interpreter of \<^verbatim>\<open>nemu/src/isa/riscv32/inst.c\<close>: CSR access, operand decoding and the table
  of instruction patterns, kept as a list in the order of the source, each entry with its operand
  type and its execute body.
\<close>

section \<open>Control and status registers\<close>

definition CSR_read :: "u32 \<Rightarrow> nemu \<Rightarrow> u32" where
  "CSR_read csr_code s =
     (if csr_code = 0x305 then get_csr_pr MTVEC_IDX s
      else if csr_code = 0x341 then get_csr_pr MEPC_IDX s
      else if csr_code = 0x300 then get_csr_pr MSTATUS_IDX s
      else if csr_code = 0x342 then get_csr_pr MCAUSE_IDX s
      else if csr_code = 0x340 then get_csr_pr MSCRATCH_IDX s
      else if csr_code = 0x304 then get_csr_pr MIE_IDX s
      else if csr_code = 0x344 then get_csr_pr MIP_IDX s
      else if csr_code = 0x343 then get_csr_pr MTVAL_IDX s
      else if csr_code = 0xC00 then ucast (cycle (cpu s) AND 0xFFFFFFFF)
      else if csr_code = 0xC80 then ucast (drop_bit 32 (cycle (cpu s)) AND 0xFFFFFFFF)
      else -1)"

definition CSR_write :: "u32 \<Rightarrow> u32 \<Rightarrow> nemu \<Rightarrow> nemu" where
  "CSR_write csr_code data s =
     (if csr_code = 0x305 then set_csr_pr MTVEC_IDX data s
      else if csr_code = 0x341 then set_csr_pr MEPC_IDX data s
      else if csr_code = 0x300 then set_csr_pr MSTATUS_IDX data s
      else if csr_code = 0x342 then set_csr_pr MCAUSE_IDX data s
      else if csr_code = 0x340 then set_csr_pr MSCRATCH_IDX data s
      else if csr_code = 0x304 then set_csr_pr MIE_IDX data s
      else if csr_code = 0x344 then set_csr_pr MIP_IDX data s
      else if csr_code = 0x343 then set_csr_pr MTVAL_IDX data s
      else s)"

section \<open>Operands\<close>

datatype itype = TYPE_I | TYPE_U | TYPE_S | TYPE_N | TYPE_J | TYPE_R | TYPE_B | TYPE_IS | TYPE_M | TYPE_CSR

record decode =
  d_pc :: u32
  d_snpc :: u32
  d_dnpc :: u32
  d_inst :: u32

text \<open>
  What \<^verbatim>\<open>decode_operand\<close> hands to an execute body: its output parameters, and the static variables
  \<^verbatim>\<open>shamt_num\<close>, \<^verbatim>\<open>csr_value\<close> and \<^verbatim>\<open>csr\<close>, which the bodies of the shift and CSR types read.
\<close>

record operands =
  rd :: nat
  src1 :: u32
  src2 :: u32
  imm :: u32
  shamt_num :: nat
  csr_value :: u32
  csr :: u32

definition immI :: "u32 \<Rightarrow> u32" where
  "immI i = ucast (SEXT (BITS i 31 20) 12)"

definition immU :: "u32 \<Rightarrow> u32" where
  "immU i = ucast (push_bit 12 (SEXT (BITS i 31 12) 20))"

definition immS :: "u32 \<Rightarrow> u32" where
  "immS i = ucast (push_bit 5 (SEXT (BITS i 31 25) 7) OR BITS i 11 7)"

definition immJ :: "u32 \<Rightarrow> u32" where
  "immJ i = ucast (push_bit 20 (SEXT (BITS i 31 31) 1) OR push_bit 12 (BITS i 19 12) OR
     push_bit 11 (BITS i 20 20) OR push_bit 1 (BITS i 30 21))"

definition immB :: "u32 \<Rightarrow> u32" where
  "immB i = ucast (push_bit 12 (SEXT (BITS i 31 31) 1) OR push_bit 11 (BITS i 7 7) OR
     push_bit 5 (BITS i 30 25) OR push_bit 1 (BITS i 11 8))"

definition decode_operand :: "decode \<Rightarrow> itype \<Rightarrow> nemu \<Rightarrow> operands res" where
  "decode_operand d ty s =
     (let i = d_inst d;
          rs1 = unat (BITS i 19 15);
          rs2 = unat (BITS i 24 20);
          op = \<lparr>rd = unat (BITS i 11 7), src1 = 0, src2 = 0, imm = 0, shamt_num = 0,
                csr_value = 0, csr = 0\<rparr>
      in case ty of
        TYPE_I \<Rightarrow> bindE (get_gpr rs1 s) (\<lambda>v1. Inr (op\<lparr>src1 := v1, imm := immI i\<rparr>))
      | TYPE_U \<Rightarrow> Inr (op\<lparr>imm := immU i\<rparr>)
      | TYPE_S \<Rightarrow> bindE (get_gpr rs1 s) (\<lambda>v1. bindE (get_gpr rs2 s) (\<lambda>v2.
          Inr (op\<lparr>src1 := v1, src2 := v2, imm := immS i\<rparr>)))
      | TYPE_N \<Rightarrow> Inr op
      | TYPE_J \<Rightarrow> Inr (op\<lparr>imm := immJ i\<rparr>)
      | TYPE_R \<Rightarrow> bindE (get_gpr rs1 s) (\<lambda>v1. bindE (get_gpr rs2 s) (\<lambda>v2.
          Inr (op\<lparr>src1 := v1, src2 := v2\<rparr>)))
      | TYPE_B \<Rightarrow> bindE (get_gpr rs1 s) (\<lambda>v1. bindE (get_gpr rs2 s) (\<lambda>v2.
          Inr (op\<lparr>src1 := v1, src2 := v2, imm := immB i\<rparr>)))
      | TYPE_IS \<Rightarrow> bindE (get_gpr rs1 s) (\<lambda>v1.
          Inr (op\<lparr>shamt_num := unat (BITS i 24 20), src1 := v1\<rparr>))
      | TYPE_CSR \<Rightarrow> bindE (get_gpr rs1 s) (\<lambda>v1.
          Inr (op\<lparr>src1 := v1, csr_value := CSR_read (ucast (BITS i 31 20)) s,
                  csr := ucast (BITS i 31 20), imm := of_nat rs1\<rparr>))
      | TYPE_M \<Rightarrow> Inl (Panic ''unsupported type''))"

section \<open>Execute bodies\<close>

type_synonym exec_body = "config \<Rightarrow> operands \<Rightarrow> decode \<Rightarrow> nemu \<Rightarrow> (decode \<times> nemu) res"

text \<open>\<^verbatim>\<open>Reg(rd) = v\<close>, a jump, a load into a register, a store, and a CSR update.\<close>

definition wr_reg :: "(operands \<Rightarrow> decode \<Rightarrow> u32) \<Rightarrow> exec_body" where
  "wr_reg f cf op d s = bindE (set_gpr (rd op) (f op d) s) (\<lambda>s1. Inr (d, s1))"

definition branch :: "(u32 \<Rightarrow> u32 \<Rightarrow> bool) \<Rightarrow> exec_body" where
  "branch c cf op d s =
     Inr (d\<lparr>d_dnpc := (if c (src1 op) (src2 op) then d_pc d + imm op else d_pc d + 4)\<rparr>, s)"

definition load :: "nat \<Rightarrow> (u32 \<Rightarrow> u32) \<Rightarrow> exec_body" where
  "load len ext cf op d s =
     bindE (vaddr_read cf (src1 op + imm op) len s) (\<lambda>(v, s1).
     bindE (set_gpr (rd op) (ext v) s1) (\<lambda>s2. Inr (d, s2)))"

definition store :: "nat \<Rightarrow> exec_body" where
  "store len cf op d s =
     bindE (vaddr_write cf (src1 op + imm op) len (src2 op) s) (\<lambda>s1. Inr (d, s1))"

definition csr_then_reg :: "(operands \<Rightarrow> u32) \<Rightarrow> exec_body" where
  "csr_then_reg f cf op d s =
     bindE (set_gpr (rd op) (csr_value op) (CSR_write (csr op) (f op) s)) (\<lambda>s1. Inr (d, s1))"

definition reg_then_csr :: "(operands \<Rightarrow> u32) \<Rightarrow> exec_body" where
  "reg_then_csr f cf op d s =
     bindE (set_gpr (rd op) (csr_value op) s) (\<lambda>s1. Inr (d, CSR_write (csr op) (f op) s1))"

definition jal :: exec_body where
  "jal cf op d s = bindE (set_gpr (rd op) (d_pc d + 4) s) (\<lambda>s1.
     Inr (d\<lparr>d_dnpc := d_pc d + imm op\<rparr>, s1))"

definition jalr :: exec_body where
  "jalr cf op d s = bindE (set_gpr (rd op) (d_pc d + 4) s) (\<lambda>s1.
     Inr (d\<lparr>d_dnpc := src1 op + imm op\<rparr>, s1))"

definition ebreak :: exec_body where
  "ebreak cf op d s = bindE (get_gpr 10 s) (\<lambda>a0. Inr (d, set_nemu_state cf NEMU_END (d_pc d) a0 s))"

definition ecall :: exec_body where
  "ecall cf op d s =
     (let s1 = CSR_write 0x341 (d_pc d) s;
          s2 = CSR_write 0x342 11 s1;
          s3 = CSR_write 0x300 0x1800 s2
      in Inr (d\<lparr>d_dnpc := CSR_read 0x305 s3\<rparr>, s3))"

definition mret :: exec_body where
  "mret cf op d s = Inr (d\<lparr>d_dnpc := CSR_read 0x341 s\<rparr>, CSR_write 0x300 0x1888 s)"

text \<open>\<^verbatim>\<open>invalid_inst\<close> fetches two words to print them, then aborts.\<close>

definition invalid_inst :: exec_body where
  "invalid_inst cf op d s =
     bindE (inst_fetch cf (d_pc d) 4 s) (\<lambda>(t0, p1, s1).
     bindE (inst_fetch cf p1 4 s1) (\<lambda>(t1, p2, s2).
     Inr (d, set_nemu_state cf NEMU_ABORT (d_pc d) (-1) s2)))"

text \<open>
  The multiplication and division bodies. \<^verbatim>\<open>mul_num\<close> is a signed 64-bit variable; the 32-bit product of
  \<^verbatim>\<open>mul\<close> is taken to wrap. The literal \<^verbatim>\<open>-2147483648\<close> has a 64-bit type on the host, so comparing an
  unsigned 32-bit value with it is always false.
\<close>

definition mul_body :: "u32 \<Rightarrow> u32 \<Rightarrow> u32" where
  "mul_body a b = (let mul_num = scast (a * b) :: u64 in ucast (BITS_i64 mul_num 31 0))"

definition mulh_body :: "u32 \<Rightarrow> u32 \<Rightarrow> u32" where
  "mulh_body a b = (let mul_num = scast a * scast b :: u64 in ucast (BITS_i64 mul_num 63 32))"

definition mulhsu_body :: "u32 \<Rightarrow> u32 \<Rightarrow> u32" where
  "mulhsu_body a b = (let mul_num = scast a * ucast b :: u64 in ucast (BITS_i64 mul_num 63 32))"

definition mulhu_body :: "u32 \<Rightarrow> u32 \<Rightarrow> u32" where
  "mulhu_body a b = (let mul_num = ucast a * ucast b :: u64 in ucast (BITS_i64 mul_num 63 32))"

definition div_body :: "u32 \<Rightarrow> u32 \<Rightarrow> u32" where
  "div_body a b =
     (if b = 0 then -1
      else if sint a = -2147483648 \<and> sint b = -1 then word_of_int (-2147483648)
      else word_of_int (sint a sdiv sint b))"

definition divu_body :: "u32 \<Rightarrow> u32 \<Rightarrow> u32" where
  "divu_body a b = (if b = 0 then a else a div b)"

definition rem_body :: "u32 \<Rightarrow> u32 \<Rightarrow> u32" where
  "rem_body a b =
     (if b = 0 then a
      else if sint a = -2147483648 \<and> sint b = -1 then 0
      else word_of_int (sint a smod sint b))"

definition remu_body :: "u32 \<Rightarrow> u32 \<Rightarrow> u32" where
  "remu_body a b =
     (if b = 0 then a
      else if uint a = -2147483648 \<and> b = -1 then 0
      else a mod b)"

abbreviation (input) "of_b c \<equiv> (if c then 1 else 0 :: u32)"

section \<open>The instruction table\<close>

definition instpats :: "(string \<times> itype \<times> exec_body) list" where
  "instpats = [
    (''??????? ????? ????? ??? ????? 01101 11'', TYPE_U, wr_reg (\<lambda>op d. imm op)),
    (''??????? ????? ????? ??? ????? 00101 11'', TYPE_U, wr_reg (\<lambda>op d. d_pc d + imm op)),
    (''??????? ????? ????? 000 ????? 11000 11'', TYPE_B, branch (\<lambda>a b. a = b)),
    (''??????? ????? ????? 001 ????? 11000 11'', TYPE_B, branch (\<lambda>a b. a \<noteq> b)),
    (''??????? ????? ????? 100 ????? 11000 11'', TYPE_B, branch (\<lambda>a b. sint a < sint b)),
    (''??????? ????? ????? 101 ????? 11000 11'', TYPE_B, branch (\<lambda>a b. sint a \<ge> sint b)),
    (''??????? ????? ????? 110 ????? 11000 11'', TYPE_B, branch (\<lambda>a b. a < b)),
    (''??????? ????? ????? 111 ????? 11000 11'', TYPE_B, branch (\<lambda>a b. a \<ge> b)),
    (''??????? ????? ????? 000 ????? 01000 11'', TYPE_S, store 1),
    (''??????? ????? ????? 010 ????? 01000 11'', TYPE_S, store 4),
    (''??????? ????? ????? 001 ????? 01000 11'', TYPE_S, store 2),
    (''??????? ????? ????? ??? ????? 11011 11'', TYPE_J, jal),
    (''??????? ????? ????? 000 ????? 11001 11'', TYPE_I, jalr),
    (''0000000 00001 00000 000 00000 11100 11'', TYPE_N, ebreak),
    (''0000000 00000 00000 000 00000 11100 11'', TYPE_N, ecall),
    (''??????? ????? ????? 001 ????? 11100 11'', TYPE_CSR, csr_then_reg (\<lambda>op. src1 op)),
    (''??????? ????? ????? 010 ????? 11100 11'', TYPE_CSR, reg_then_csr (\<lambda>op. csr_value op OR src1 op)),
    (''??????? ????? ????? 011 ????? 11100 11'', TYPE_CSR, reg_then_csr (\<lambda>op. csr_value op AND NOT (src1 op))),
    (''??????? ????? ????? 101 ????? 11100 11'', TYPE_CSR, csr_then_reg (\<lambda>op. imm op)),
    (''??????? ????? ????? 110 ????? 11100 11'', TYPE_CSR, reg_then_csr (\<lambda>op. csr_value op OR imm op)),
    (''??????? ????? ????? 111 ????? 11100 11'', TYPE_CSR, reg_then_csr (\<lambda>op. csr_value op AND NOT (imm op))),
    (''0011000 00010 00000 000 00000 11100 11'', TYPE_N, mret),
    (''??????? ????? ????? 000 ????? 00100 11'', TYPE_I, wr_reg (\<lambda>op d. src1 op + imm op)),
    (''??????? ????? ????? 010 ????? 00100 11'', TYPE_I, wr_reg (\<lambda>op d. of_b (sint (src1 op) < sint (imm op)))),
    (''??????? ????? ????? 011 ????? 00100 11'', TYPE_I, wr_reg (\<lambda>op d. of_b (src1 op < imm op))),
    (''??????? ????? ????? 100 ????? 00100 11'', TYPE_I, wr_reg (\<lambda>op d. src1 op XOR imm op)),
    (''??????? ????? ????? 110 ????? 00100 11'', TYPE_I, wr_reg (\<lambda>op d. src1 op OR imm op)),
    (''??????? ????? ????? 111 ????? 00100 11'', TYPE_I, wr_reg (\<lambda>op d. src1 op AND imm op)),
    (''0000000 ????? ????? 001 ????? 00100 11'', TYPE_IS, wr_reg (\<lambda>op d. push_bit (shamt_num op) (src1 op))),
    (''0000000 ????? ????? 101 ????? 00100 11'', TYPE_IS, wr_reg (\<lambda>op d. drop_bit (shamt_num op) (src1 op))),
    (''0100000 ????? ????? 101 ????? 00100 11'', TYPE_IS, wr_reg (\<lambda>op d. signed_drop_bit (shamt_num op) (src1 op))),
    (''??????? ????? ????? 000 ????? 00000 11'', TYPE_I, load 1 (\<lambda>v. ucast (SEXT (ucast v) 8))),
    (''??????? ????? ????? 001 ????? 00000 11'', TYPE_I, load 2 (\<lambda>v. ucast (SEXT (ucast v) 16))),
    (''??????? ????? ????? 010 ????? 00000 11'', TYPE_I, load 4 (\<lambda>v. v)),
    (''??????? ????? ????? 100 ????? 00000 11'', TYPE_I, load 1 (\<lambda>v. ucast (BITS v 7 0))),
    (''??????? ????? ????? 101 ????? 00000 11'', TYPE_I, load 2 (\<lambda>v. ucast (BITS v 15 0))),
    (''0000000 ????? ????? 000 ????? 01100 11'', TYPE_R, wr_reg (\<lambda>op d. src1 op + src2 op)),
    (''0100000 ????? ????? 000 ????? 01100 11'', TYPE_R, wr_reg (\<lambda>op d. src1 op - src2 op)),
    (''0000000 ????? ????? 001 ????? 01100 11'', TYPE_R, wr_reg (\<lambda>op d. push_bit (unat (BITS (src2 op) 4 0)) (src1 op))),
    (''0000000 ????? ????? 010 ????? 01100 11'', TYPE_R, wr_reg (\<lambda>op d. of_b (sint (src1 op) < sint (src2 op)))),
    (''0000000 ????? ????? 011 ????? 01100 11'', TYPE_R, wr_reg (\<lambda>op d. of_b (src1 op < src2 op))),
    (''0000000 ????? ????? 100 ????? 01100 11'', TYPE_R, wr_reg (\<lambda>op d. src1 op XOR src2 op)),
    (''0000000 ????? ????? 101 ????? 01100 11'', TYPE_R, wr_reg (\<lambda>op d. drop_bit (unat (BITS (src2 op) 4 0)) (src1 op))),
    (''0100000 ????? ????? 101 ????? 01100 11'', TYPE_R, wr_reg (\<lambda>op d. signed_drop_bit (unat (BITS (src2 op) 4 0)) (src1 op))),
    (''0000000 ????? ????? 110 ????? 01100 11'', TYPE_R, wr_reg (\<lambda>op d. src1 op OR src2 op)),
    (''0000000 ????? ????? 111 ????? 01100 11'', TYPE_R, wr_reg (\<lambda>op d. src1 op AND src2 op)),
    (''0000001 ????? ????? 000 ????? 01100 11'', TYPE_R, wr_reg (\<lambda>op d. mul_body (src1 op) (src2 op))),
    (''0000001 ????? ????? 001 ????? 01100 11'', TYPE_R, wr_reg (\<lambda>op d. mulh_body (src1 op) (src2 op))),
    (''0000001 ????? ????? 010 ????? 01100 11'', TYPE_R, wr_reg (\<lambda>op d. mulhsu_body (src1 op) (src2 op))),
    (''0000001 ????? ????? 011 ????? 01100 11'', TYPE_R, wr_reg (\<lambda>op d. mulhu_body (src1 op) (src2 op))),
    (''0000001 ????? ????? 100 ????? 01100 11'', TYPE_R, wr_reg (\<lambda>op d. div_body (src1 op) (src2 op))),
    (''0000001 ????? ????? 101 ????? 01100 11'', TYPE_R, wr_reg (\<lambda>op d. divu_body (src1 op) (src2 op))),
    (''0000001 ????? ????? 110 ????? 01100 11'', TYPE_R, wr_reg (\<lambda>op d. rem_body (src1 op) (src2 op))),
    (''0000001 ????? ????? 111 ????? 01100 11'', TYPE_R, wr_reg (\<lambda>op d. remu_body (src1 op) (src2 op))),
    (''??????? ????? ????? ??? ????? ????? ??'', TYPE_N, invalid_inst)]"

section \<open>Decoding and executing one instruction\<close>

fun first_match :: "(string \<times> itype \<times> exec_body) list \<Rightarrow> u32 \<Rightarrow> (itype \<times> exec_body) option res" where
  "first_match [] i = Inr None"
| "first_match ((pat, ty, body) # ps) i =
     bindE (inst_match pat i) (\<lambda>m. if m then Inr (Some (ty, body)) else first_match ps i)"

definition decode_exec :: "config \<Rightarrow> decode \<Rightarrow> nemu \<Rightarrow> (decode \<times> nemu) res" where
  "decode_exec cf d0 s =
     (let d = d0\<lparr>d_dnpc := d_snpc d0\<rparr> in
      bindE (bindE (first_match instpats (d_inst d)) (\<lambda>r. case r of
          None \<Rightarrow> Inr (d, s)
        | Some (ty, body) \<Rightarrow> bindE (decode_operand d ty s) (\<lambda>op. body cf op d s)))
      (\<lambda>(d1, s1). bindE (set_gpr 0 0 s1) (\<lambda>s2. Inr (d1, s2))))"

definition isa_exec_once :: "config \<Rightarrow> decode \<Rightarrow> nemu \<Rightarrow> (decode \<times> nemu) res" where
  "isa_exec_once cf d s =
     bindE (inst_fetch cf (d_snpc d) 4 s) (\<lambda>(i, p, s1).
     decode_exec cf (d\<lparr>d_inst := i, d_snpc := p\<rparr>) s1)"

end
