(* ===== verification/Nemu_Inst_Props.thy ===== *)
theory Nemu_Inst_Props
  imports Nemu_Inst
begin

text \<open>
  Correctness of the interpreter's table and of single steps: every pattern is well formed, no word
  matches two patterns (so the order of the table does not matter), register zero stays zero and the
  machine stays well formed whatever is executed.
\<close>

section \<open>The table is a partition\<close>

definition instpat_strings :: "string list" where
  "instpat_strings = map fst instpats"

text \<open>Two patterns clash when some bit is fixed to different values in both.\<close>

fun clash :: "string \<Rightarrow> string \<Rightarrow> bool" where
  "clash (a # as) (b # bs) = ((a \<noteq> CHR ''?'' \<and> b \<noteq> CHR ''?'' \<and> a \<noteq> b) \<or> clash as bs)"
| "clash _ _ = False"

fun all_clash :: "string list \<Rightarrow> bool" where
  "all_clash [] = True"
| "all_clash (p # ps) = (list_all (clash p) ps \<and> all_clash ps)"

lemma clash_nth:
  "clash as bs \<Longrightarrow> \<exists>k < min (length as) (length bs).
     as ! k \<noteq> CHR ''?'' \<and> bs ! k \<noteq> CHR ''?'' \<and> as ! k \<noteq> bs ! k"
proof (induction as bs rule: clash.induct)
  case (1 a as b bs)
  show ?case
  proof (cases "a \<noteq> CHR ''?'' \<and> b \<noteq> CHR ''?'' \<and> a \<noteq> b")
    case True
    then show ?thesis by (intro exI [of _ 0]) simp
  next
    case False
    with "1" obtain k where "k < min (length as) (length bs)"
      "as ! k \<noteq> CHR ''?''" "bs ! k \<noteq> CHR ''?''" "as ! k \<noteq> bs ! k" by auto
    then show ?thesis by (intro exI [of _ "Suc k"]) simp
  qed
qed simp_all

lemma clash_reads:
  assumes "clash (pattern_bits p) (pattern_bits q)" and "pattern_valid p" and "pattern_valid q"
    and "pattern_reads p i"
  shows "\<not> pattern_reads q i"
proof
  assume q: "pattern_reads q i"
  from clash_nth [OF assms(1)] obtain k where k: "k < length (pattern_bits p)" "k < length (pattern_bits q)"
    "pattern_bits p ! k \<noteq> CHR ''?''" "pattern_bits q ! k \<noteq> CHR ''?''"
    "pattern_bits p ! k \<noteq> pattern_bits q ! k" by auto
  have chars: "c \<in> {CHR ''0'', CHR ''1'', CHR ''?''}" if "pattern_valid r" "c \<in> set (pattern_bits r)" for r c
    using that by (auto simp: pattern_valid_def pattern_bits_def list_all_iff)
  have "pattern_bits p ! k \<in> {CHR ''0'', CHR ''1''}" "pattern_bits q ! k \<in> {CHR ''0'', CHR ''1''}"
    using chars [OF assms(2) nth_mem [OF k(1)]] chars [OF assms(3) nth_mem [OF k(2)]] k by auto
  with k assms(4) q show False by (auto simp: pattern_reads_def)
qed

lemma instpats_valid: "list_all pattern_valid instpat_strings"
  unfolding instpat_strings_def instpats_def by code_simp

lemma instpats_clash: "all_clash (map pattern_bits (butlast instpat_strings))"
  unfolding instpat_strings_def instpats_def by code_simp

lemma all_clash_nth: "all_clash ps \<Longrightarrow> i < j \<Longrightarrow> j < length ps \<Longrightarrow> clash (ps ! i) (ps ! j)"
proof (induction ps arbitrary: i j)
  case (Cons p ps)
  then show ?case by (cases i; cases j) (auto simp: list_all_length)
qed simp

lemma instpats_apart:
  assumes ij: "i < j" "j < length instpats - 1" and r: "pattern_reads (fst (instpats ! i)) w"
  shows "\<not> pattern_reads (fst (instpats ! j)) w"
proof -
  let ?p = "fst (instpats ! i)" and ?q = "fst (instpats ! j)"
  have len: "length instpat_strings = length instpats"
    by (simp add: instpat_strings_def)
  have mem: "?p = instpat_strings ! i" "?q = instpat_strings ! j"
    using ij by (simp_all add: instpat_strings_def)
  have v: "pattern_valid ?p" "pattern_valid ?q"
    unfolding mem using instpats_valid ij len by (auto simp only: list_all_length)
  have "clash (map pattern_bits (butlast instpat_strings) ! i) (map pattern_bits (butlast instpat_strings) ! j)"
    by (rule all_clash_nth [OF instpats_clash ij(1)]) (use ij len in simp)
  then have "clash (pattern_bits ?p) (pattern_bits ?q)"
    unfolding mem using ij len by (simp add: nth_butlast)
  from clash_reads [OF this v r] show ?thesis .
qed

lemma instpats_valid_nth: "i < length instpats \<Longrightarrow> pattern_valid (fst (instpats ! i))"
  using instpats_valid by (simp add: instpat_strings_def list_all_length)



lemma first_match_total:
  "list_all pattern_valid (map fst ps) \<Longrightarrow>
   first_match ps i = Inr (map_option snd (find (\<lambda>e. pattern_reads (fst e) i) ps))"
  by (induction ps i rule: first_match.induct) (auto simp: inst_match_iff_sound)

lemma first_match_instpats:
  "first_match instpats i = Inr (map_option snd (find (\<lambda>e. pattern_reads (fst e) i) instpats))"
  using instpats_valid by (intro first_match_total) (simp add: instpat_strings_def)

text \<open>The entry that reads a word is the one that is executed.\<close>

lemma first_match_at:
  assumes k: "k < length instpats - 1" and r: "pattern_reads (fst (instpats ! k)) i"
    and e: "snd (instpats ! k) = (ty, b)"
  shows "first_match instpats i = Inr (Some (ty, b))"
proof -
  have "find (\<lambda>e. pattern_reads (fst e) i) instpats = Some (instpats ! k)"
    unfolding find_Some_iff
  proof (intro exI [of _ k] conjI allI impI)
    fix j assume "j < k"
    with k r instpats_apart [of j k i] show "\<not> pattern_reads (fst (instpats ! j)) i" by auto
  qed (use k r in simp_all)
  with e show ?thesis by (simp add: first_match_instpats)
qed

section \<open>What one step may change\<close>

text \<open>
  An execute body may change registers, CSRs, memory, devices and the run state; the program
  counter, the cycle counter and the region table belong to the caller.
\<close>

definition step_frame :: "nemu \<Rightarrow> nemu \<Rightarrow> bool" where
  "step_frame s s' \<longleftrightarrow> pc (cpu s') = pc (cpu s) \<and> true_pc (cpu s') = true_pc (cpu s) \<and>
     cycle (cpu s') = cycle (cpu s) \<and>
     tokens s' = tokens s \<and> nr_token s' = nr_token s \<and> wp_pool s' = wp_pool s \<and>
     wp_head s' = wp_head s \<and> wp_free s' = wp_free s \<and> maps s' = maps s \<and> (wf_nemu s \<longrightarrow> wf_nemu s') \<and>
     (state (nemu_state s') = state (nemu_state s) \<or> state (nemu_state s') \<in> {NEMU_END, NEMU_ABORT})"

lemma step_frame_refl [simp]: "step_frame s s"
  by (simp add: step_frame_def)

lemma step_frame_trans: "step_frame s s1 \<Longrightarrow> step_frame s1 s2 \<Longrightarrow> step_frame s s2"
  by (auto simp: step_frame_def)

lemma step_frame_regs: "same_regs s s' \<Longrightarrow> step_frame s s'"
  by (auto simp: same_regs_def step_frame_def)

lemma step_frame_set_gpr: "set_gpr i v s = Inr s' \<Longrightarrow> step_frame s s'"
  by (auto simp: set_gpr_def check_reg_idx_def step_frame_def wf_nemu_def wf_cpu_def)

lemma step_frame_set_csr [simp]: "step_frame s (set_csr_pr i v t) = step_frame s t"
  by (simp add: step_frame_def)

lemma step_frame_CSR_write [simp]: "step_frame s (CSR_write c v t) = step_frame s t"
  by (simp add: CSR_write_def)

lemma step_frame_set_state:
  "step_frame s t \<Longrightarrow> st \<in> {NEMU_END, NEMU_ABORT} \<Longrightarrow> step_frame s (set_nemu_state cf st p r t)"
  by (auto simp: set_nemu_state_def step_frame_def wf_nemu_def difftest_skip_ref_def)

lemma step_frame_set_gpr_CSR: "set_gpr i v (CSR_write c w s) = Inr s' \<Longrightarrow> step_frame s s'"
  using step_frame_set_gpr [of i v "CSR_write c w s" s']
  by (rule step_frame_trans [rotated]) simp_all

definition body_ok :: "exec_body \<Rightarrow> bool" where
  "body_ok b \<longleftrightarrow> (\<forall>cf op d s. okP (\<lambda>(d', s'). step_frame s s') (b cf op d s))"

lemma body_ok_basic:
  "body_ok (wr_reg f)" "body_ok (branch c)" "body_ok (csr_then_reg g)" "body_ok (reg_then_csr g)"
  "body_ok jal" "body_ok jalr" "body_ok ebreak" "body_ok ecall" "body_ok mret"
  unfolding body_ok_def wr_reg_def branch_def csr_then_reg_def reg_then_csr_def jal_def jalr_def
    ebreak_def ecall_def mret_def Let_def
  by (auto simp: okP_conv intro: step_frame_set_gpr step_frame_set_gpr_CSR step_frame_set_state)

lemma step_frame_fetch2:
  "inst_fetch cf p 4 s = Inr (i, q, s1) \<Longrightarrow> inst_fetch cf q 4 s1 = Inr (j, r, s2) \<Longrightarrow> step_frame s s2"
  by (blast intro: step_frame_trans step_frame_regs same_regs_inst_fetch)

lemma body_ok_memory: "body_ok (load n e)" "body_ok (store n)" "body_ok invalid_inst"
  unfolding body_ok_def load_def store_def invalid_inst_def vaddr_read_def vaddr_write_def
  by (auto simp: okP_conv intro: step_frame_trans step_frame_set_gpr step_frame_regs
      same_regs_paddr_read same_regs_paddr_write step_frame_fetch2 step_frame_set_state)

lemma instpats_ok: "list_all (\<lambda>(_, _, b). body_ok b) instpats"
  by (simp add: instpats_def body_ok_basic body_ok_memory)

lemma first_match_mem:
  "first_match ps i = Inr (Some (ty, b)) \<Longrightarrow> \<exists>pat. (pat, ty, b) \<in> set ps"
proof (induction ps i rule: first_match.induct)
  case (2 pat ty' b' ps i)
  then obtain m where "inst_match pat i = Inr m" and
    "(if m then Inr (Some (ty', b')) else first_match ps i) = Inr (Some (ty, b))" by auto
  with "2.IH" [of m] show ?case by (cases m) auto
qed simp

lemma first_match_body_ok: "first_match instpats i = Inr (Some (ty, b)) \<Longrightarrow> body_ok b"
  using instpats_ok first_match_mem [of instpats i ty b] by (auto simp: list_all_iff)

lemma decode_exec_frame: "decode_exec cf d s = Inr (d', s') \<Longrightarrow> step_frame s s' \<and> (wf_nemu s \<longrightarrow> gpr (cpu s') ! 0 = 0)"
proof -
  assume ex: "decode_exec cf d s = Inr (d', s')"
  let ?d = "d\<lparr>d_dnpc := d_snpc d\<rparr>"
  from ex obtain r s1 where m: "first_match instpats (d_inst d) = Inr r"
    and b: "(case r of None \<Rightarrow> Inr (?d, s)
        | Some (ty, body) \<Rightarrow> bindE (decode_operand ?d ty s) (\<lambda>op. body cf op ?d s)) = Inr (d', s1)"
    and z: "set_gpr 0 0 s1 = Inr s'"
    unfolding decode_exec_def Let_def by (elim bindE_InrE) (auto split: prod.splits)
  have fr: "step_frame s s1"
  proof (cases r)
    case None
    with b show ?thesis by simp
  next
    case (Some e)
    then obtain ty body where r: "r = Some (ty, body)" by (cases e) auto
    with b obtain op where "body cf op ?d s = Inr (d', s1)" by auto
    with first_match_body_ok [of "d_inst d" ty body] m r show ?thesis
      unfolding body_ok_def by (auto simp: okP_conv)
  qed
  from fr step_frame_set_gpr [OF z] have "step_frame s s'" by (rule step_frame_trans)
  moreover have "gpr (cpu s') ! 0 = 0" if "wf_nemu s"
    using z fr that by (auto simp: set_gpr_def check_reg_idx_def step_frame_def wf_nemu_def wf_cpu_def)
  ultimately show ?thesis by simp
qed

text \<open>C8: whatever word is fetched, one instruction keeps the machine well formed and register zero
  at zero, and leaves the program counter and the cycle counter to its caller.\<close>

theorem isa_exec_once_invariant:
  assumes "wf_nemu s" and "isa_exec_once cf d s = Inr (d', s')"
  shows "wf_nemu s' \<and> gpr (cpu s') ! 0 = 0 \<and> pc (cpu s') = pc (cpu s) \<and> cycle (cpu s') = cycle (cpu s)"
proof -
  from assms(2) obtain i p s1 where f: "inst_fetch cf (d_snpc d) 4 s = Inr (i, p, s1)"
    and e: "decode_exec cf (d\<lparr>d_inst := i, d_snpc := p\<rparr>) s1 = Inr (d', s')"
    unfolding isa_exec_once_def by auto
  from step_frame_regs [OF same_regs_inst_fetch [OF f]] decode_exec_frame [OF e] assms(1)
  show ?thesis by (auto simp: step_frame_def)
qed

text \<open>The first word of the built-in image, \<^verbatim>\<open>auipc t0, 0\<close>, at the start of guest memory.\<close>

definition example_nemu :: nemu where
  "example_nemu = blank_nemu\<lparr>pmem := le_write (\<lambda>_. 0) 0 4 0x297\<rparr>"

lemma wf_example_nemu [simp]: "wf_nemu example_nemu"
  using wf_blank_nemu by (simp add: example_nemu_def wf_nemu_def)

lemma example_match:
  "inst_match ''??????? ????? ????? ??? ????? 01101 11'' 0x297 = Inr False"
  "inst_match ''??????? ????? ????? ??? ????? 00101 11'' 0x297 = Inr True"
  "unat (BITS 0x297 11 7) = 5"
  by code_simp+

lemma example_fetch:
  "inst_fetch default_config 0x80000000 4 example_nemu =
     Inr (0x297, 0x80000004, example_nemu)"
  by (simp add: inst_fetch_def vaddr_ifetch_def paddr_read_def in_pmem_def default_config_def
      pmem_read_def host_read_def guest_to_host_def example_nemu_def le_read_write)

lemma isa_exec_once_example:
  "isOk (isa_exec_once default_config \<lparr>d_pc = 0x80000000, d_snpc = 0x80000000, d_dnpc = 0, d_inst = 0\<rparr>
     example_nemu)"
  by (simp add: isa_exec_once_def example_fetch decode_exec_def instpats_def example_match
      decode_operand_def wr_reg_def Let_def)

theorem isa_exec_once_invariant_witness:
  "\<exists>d' s'. isa_exec_once default_config \<lparr>d_pc = 0x80000000, d_snpc = 0x80000000, d_dnpc = 0, d_inst = 0\<rparr>
     example_nemu = Inr (d', s') \<and> gpr (cpu s') ! 0 = 0 \<and> wf_nemu s'"
proof -
  obtain d' s' where "isa_exec_once default_config
      \<lparr>d_pc = 0x80000000, d_snpc = 0x80000000, d_dnpc = 0, d_inst = 0\<rparr>
      example_nemu = Inr (d', s')"
    using isa_exec_once_example by (auto simp: isOk_conv)
  with isa_exec_once_invariant [OF _ this] show ?thesis by auto
qed

end
