(* ===== verification/Rv32.thy ===== *)
theory Rv32
  imports Prelude
begin

text \<open>
  The RV32IM instruction set as the RISC-V manual defines it: the instructions with their operand
  fields, their encoding into 32-bit words, and the arithmetic each performs. It is the abstract
  specification the interpreter is compared with; nothing here is taken from the emulator.
\<close>

section \<open>Instructions\<close>

type_synonym reg = "5 word"

datatype alu_op = ADD | SUB | SLL | SLT | SLTU | XOR_OP | SRL | SRA | OR_OP | AND_OP
datatype alui_op = ADDI | SLTI | SLTIU | XORI | ORI | ANDI
datatype shift_op = SLLI | SRLI | SRAI
datatype mul_op = MUL | MULH | MULHSU | MULHU | DIV | DIVU | REM | REMU
datatype branch_op = BEQ | BNE | BLT | BGE | BLTU | BGEU
datatype load_op = LB | LH | LW | LBU | LHU
datatype store_op = SB | SH | SW
datatype csr_op = CSRRW | CSRRS | CSRRC

datatype rv_instr =
    LUI reg "20 word"
  | AUIPC reg "20 word"
  | JAL reg "20 word"
  | JALR reg reg "12 word"
  | BRANCH branch_op reg reg "12 word"
  | LOAD load_op reg reg "12 word"
  | STORE store_op reg reg "12 word"
  | OP_IMM alui_op reg reg "12 word"
  | SHIFT shift_op reg reg "5 word"
  | OP alu_op reg reg reg
  | MULDIV mul_op reg reg reg
  | CSR csr_op reg reg "12 word"
  | CSRI csr_op reg "5 word" "12 word"

section \<open>Encoding\<close>

text \<open>The six fields every 32-bit format is cut into.\<close>

definition enc :: "7 word \<Rightarrow> 5 word \<Rightarrow> 5 word \<Rightarrow> 3 word \<Rightarrow> 5 word \<Rightarrow> 7 word \<Rightarrow> u32" where
  "enc f7 f2 f1 f3 fd opc =
     ucast opc OR push_bit 7 (ucast fd) OR push_bit 12 (ucast f3) OR push_bit 15 (ucast f1)
       OR push_bit 20 (ucast f2) OR push_bit 25 (ucast f7)"

fun alu_funct :: "alu_op \<Rightarrow> 7 word \<times> 3 word" where
  "alu_funct ADD = (0, 0)" | "alu_funct SUB = (0x20, 0)" | "alu_funct SLL = (0, 1)"
| "alu_funct SLT = (0, 2)" | "alu_funct SLTU = (0, 3)" | "alu_funct XOR_OP = (0, 4)"
| "alu_funct SRL = (0, 5)" | "alu_funct SRA = (0x20, 5)" | "alu_funct OR_OP = (0, 6)"
| "alu_funct AND_OP = (0, 7)"

fun alui_funct :: "alui_op \<Rightarrow> 3 word" where
  "alui_funct ADDI = 0" | "alui_funct SLTI = 2" | "alui_funct SLTIU = 3"
| "alui_funct XORI = 4" | "alui_funct ORI = 6" | "alui_funct ANDI = 7"

fun shift_funct :: "shift_op \<Rightarrow> 7 word \<times> 3 word" where
  "shift_funct SLLI = (0, 1)" | "shift_funct SRLI = (0, 5)" | "shift_funct SRAI = (0x20, 5)"

fun mul_funct :: "mul_op \<Rightarrow> 3 word" where
  "mul_funct MUL = 0" | "mul_funct MULH = 1" | "mul_funct MULHSU = 2" | "mul_funct MULHU = 3"
| "mul_funct DIV = 4" | "mul_funct DIVU = 5" | "mul_funct REM = 6" | "mul_funct REMU = 7"

fun branch_funct :: "branch_op \<Rightarrow> 3 word" where
  "branch_funct BEQ = 0" | "branch_funct BNE = 1" | "branch_funct BLT = 4"
| "branch_funct BGE = 5" | "branch_funct BLTU = 6" | "branch_funct BGEU = 7"

fun load_funct :: "load_op \<Rightarrow> 3 word" where
  "load_funct LB = 0" | "load_funct LH = 1" | "load_funct LW = 2"
| "load_funct LBU = 4" | "load_funct LHU = 5"

fun store_funct :: "store_op \<Rightarrow> 3 word" where
  "store_funct SB = 0" | "store_funct SH = 1" | "store_funct SW = 2"

fun csr_funct :: "csr_op \<Rightarrow> 3 word" where
  "csr_funct CSRRW = 1" | "csr_funct CSRRS = 2" | "csr_funct CSRRC = 3"

text \<open>
  The immediates of branches and jumps count half words; their bits are scattered over the fields
  as the B and J formats prescribe.
\<close>

definition enc_I :: "12 word \<Rightarrow> reg \<Rightarrow> 3 word \<Rightarrow> reg \<Rightarrow> 7 word \<Rightarrow> u32" where
  "enc_I i f1 f3 fd opc = enc (ucast (drop_bit 5 i)) (ucast i) f1 f3 fd opc"

definition enc_S :: "12 word \<Rightarrow> reg \<Rightarrow> reg \<Rightarrow> 3 word \<Rightarrow> 7 word \<Rightarrow> u32" where
  "enc_S i f2 f1 f3 opc = enc (ucast (drop_bit 5 i)) f2 f1 f3 (ucast i) opc"

definition enc_B :: "12 word \<Rightarrow> reg \<Rightarrow> reg \<Rightarrow> 3 word \<Rightarrow> 7 word \<Rightarrow> u32" where
  "enc_B i f2 f1 f3 opc =
     enc (ucast (take_bit 6 (drop_bit 4 i)) OR push_bit 6 (ucast (drop_bit 11 i))) f2 f1 f3
       (push_bit 1 (ucast (take_bit 4 i)) OR ucast (take_bit 1 (drop_bit 10 i))) opc"

definition enc_U :: "20 word \<Rightarrow> reg \<Rightarrow> 7 word \<Rightarrow> u32" where
  "enc_U i fd opc =
     enc (ucast (drop_bit 13 i)) (ucast (drop_bit 8 i)) (ucast (drop_bit 3 i)) (ucast i) fd opc"

definition enc_J :: "20 word \<Rightarrow> reg \<Rightarrow> 7 word \<Rightarrow> u32" where
  "enc_J i fd opc =
     enc (ucast (take_bit 6 (drop_bit 4 i)) OR push_bit 6 (ucast (drop_bit 19 i)))
       (push_bit 1 (ucast (take_bit 4 i)) OR ucast (take_bit 1 (drop_bit 10 i)))
       (ucast (drop_bit 14 i)) (ucast (drop_bit 11 i)) fd opc"

fun encode :: "rv_instr \<Rightarrow> u32" where
  "encode (LUI d i) = enc_U i d 0x37"
| "encode (AUIPC d i) = enc_U i d 0x17"
| "encode (JAL d i) = enc_J i d 0x6f"
| "encode (JALR d r1 i) = enc_I i r1 0 d 0x67"
| "encode (BRANCH b r1 r2 i) = enc_B i r2 r1 (branch_funct b) 0x63"
| "encode (LOAD l d r1 i) = enc_I i r1 (load_funct l) d 0x03"
| "encode (STORE st r2 r1 i) = enc_S i r2 r1 (store_funct st) 0x23"
| "encode (OP_IMM a d r1 i) = enc_I i r1 (alui_funct a) d 0x13"
| "encode (SHIFT a d r1 n) = enc (fst (shift_funct a)) n r1 (snd (shift_funct a)) d 0x13"
| "encode (OP a d r1 r2) = enc (fst (alu_funct a)) r2 r1 (snd (alu_funct a)) d 0x33"
| "encode (MULDIV m d r1 r2) = enc 1 r2 r1 (mul_funct m) d 0x33"
| "encode (CSR c d r1 n) = enc_I n r1 (csr_funct c) d 0x73"
| "encode (CSRI c d z n) = enc_I n z (csr_funct c + 4) d 0x73"

section \<open>Arithmetic\<close>

fun alu_sem :: "alu_op \<Rightarrow> u32 \<Rightarrow> u32 \<Rightarrow> u32" where
  "alu_sem ADD a b = a + b"
| "alu_sem SUB a b = a - b"
| "alu_sem SLL a b = push_bit (unat (take_bit 5 b)) a"
| "alu_sem SLT a b = (if a <s b then 1 else 0)"
| "alu_sem SLTU a b = (if a < b then 1 else 0)"
| "alu_sem XOR_OP a b = a XOR b"
| "alu_sem SRL a b = drop_bit (unat (take_bit 5 b)) a"
| "alu_sem SRA a b = signed_drop_bit (unat (take_bit 5 b)) a"
| "alu_sem OR_OP a b = a OR b"
| "alu_sem AND_OP a b = a AND b"

fun alui_sem :: "alui_op \<Rightarrow> u32 \<Rightarrow> u32 \<Rightarrow> u32" where
  "alui_sem ADDI = alu_sem ADD" | "alui_sem SLTI = alu_sem SLT" | "alui_sem SLTIU = alu_sem SLTU"
| "alui_sem XORI = alu_sem XOR_OP" | "alui_sem ORI = alu_sem OR_OP" | "alui_sem ANDI = alu_sem AND_OP"

fun shift_sem :: "shift_op \<Rightarrow> u32 \<Rightarrow> nat \<Rightarrow> u32" where
  "shift_sem SLLI a n = push_bit n a"
| "shift_sem SRLI a n = drop_bit n a"
| "shift_sem SRAI a n = signed_drop_bit n a"

text \<open>
  The M extension on integers: the high products are the upper half of the exact 64-bit product,
  quotients round towards zero, and division by zero and overflow have the results of the manual
  (\<open>2 ^ 31\<close>, the overflowing quotient, is the word of \<open>- 2 ^ 31\<close>).
\<close>

fun mul_sem :: "mul_op \<Rightarrow> u32 \<Rightarrow> u32 \<Rightarrow> u32" where
  "mul_sem MUL a b = word_of_int (sint a * sint b)"
| "mul_sem MULH a b = word_of_int (sint a * sint b div 2 ^ 32)"
| "mul_sem MULHSU a b = word_of_int (sint a * uint b div 2 ^ 32)"
| "mul_sem MULHU a b = word_of_int (uint a * uint b div 2 ^ 32)"
| "mul_sem DIV a b = (if b = 0 then -1 else word_of_int (sint a sdiv sint b))"
| "mul_sem DIVU a b = (if b = 0 then -1 else word_of_int (uint a div uint b))"
| "mul_sem REM a b = (if b = 0 then a else word_of_int (sint a smod sint b))"
| "mul_sem REMU a b = (if b = 0 then a else word_of_int (uint a mod uint b))"

fun branch_sem :: "branch_op \<Rightarrow> u32 \<Rightarrow> u32 \<Rightarrow> bool" where
  "branch_sem BEQ a b = (a = b)"
| "branch_sem BNE a b = (a \<noteq> b)"
| "branch_sem BLT a b = (a <s b)"
| "branch_sem BGE a b = (b \<le>s a)"
| "branch_sem BLTU a b = (a < b)"
| "branch_sem BGEU a b = (b \<le> a)"

fun load_len :: "load_op \<Rightarrow> nat" where
  "load_len LB = 1" | "load_len LBU = 1" | "load_len LH = 2" | "load_len LHU = 2" | "load_len LW = 4"

fun load_ext :: "load_op \<Rightarrow> u32 \<Rightarrow> u32" where
  "load_ext LB v = signed_take_bit 7 v"
| "load_ext LH v = signed_take_bit 15 v"
| "load_ext LW v = v"
| "load_ext LBU v = take_bit 8 v"
| "load_ext LHU v = take_bit 16 v"

fun store_len :: "store_op \<Rightarrow> nat" where
  "store_len SB = 1" | "store_len SH = 2" | "store_len SW = 4"

fun csr_sem :: "csr_op \<Rightarrow> u32 \<Rightarrow> u32 \<Rightarrow> u32" where
  "csr_sem CSRRW old v = v"
| "csr_sem CSRRS old v = old OR v"
| "csr_sem CSRRC old v = old AND NOT v"

text \<open>Sign-extended immediates; a branch or jump offset is twice its field.\<close>

definition sext12 :: "12 word \<Rightarrow> u32" where
  "sext12 i = scast i"

definition offset12 :: "12 word \<Rightarrow> u32" where
  "offset12 i = push_bit 1 (scast i)"

definition offset20 :: "20 word \<Rightarrow> u32" where
  "offset20 i = push_bit 1 (scast i)"

definition upper20 :: "20 word \<Rightarrow> u32" where
  "upper20 i = push_bit 12 (ucast i)"

end
