(* ===== verification/Nemu_Inst_Refine.thy ===== *)
theory Nemu_Inst_Refine
  imports Nemu_Inst_Props Rv32
begin

text \<open>
  The interpreter refines the instruction set of theory \<^verbatim>\<open>Rv32\<close>: fetched words that encode an
  instruction are matched by their own entry of the table, their operands are decoded to the
  operand fields, and the execute body has the effect the manual gives.
\<close>

section \<open>Fields of an encoded word\<close>

lemma bit_enc: "bit (enc f7 f2 f1 f3 fd opc) n \<longleftrightarrow>
    (if n < 7 then bit opc n else if n < 12 then bit fd (n - 7) else if n < 15 then bit f3 (n - 12)
     else if n < 20 then bit f1 (n - 15) else if n < 25 then bit f2 (n - 20)
     else if n < 32 then bit f7 (n - 25) else False)"
  using bit_imp_le_length [of opc n] bit_imp_le_length [of fd "n - 7"]
    bit_imp_le_length [of f3 "n - 12"] bit_imp_le_length [of f1 "n - 15"]
    bit_imp_le_length [of f2 "n - 20"] bit_imp_le_length [of f7 "n - 25"]
  by (auto simp: enc_def bit_or_iff bit_push_bit_iff bit_ucast_iff)

lemma BITS_enc:
  "BITS (enc f7 f2 f1 f3 fd opc) 11 7 = ucast fd"
  "BITS (enc f7 f2 f1 f3 fd opc) 19 15 = ucast f1"
  "BITS (enc f7 f2 f1 f3 fd opc) 24 20 = ucast f2"
  by (rule bit_word_eqI; auto simp: bit_BITS bit_enc bit_ucast_iff dest!: bit_imp_le_length)+

lemma unat_field: "unat (ucast (w :: 5 word) :: u64) = unat w"
  by (simp add: unsigned_ucast_eq take_bit_nat_eq_self order_less_trans [OF unsigned_less])

lemma reg_bound [simp]: "unat (w :: 5 word) < 32"
  using unsigned_less [of w] by simp

lemma bit_scast_word: "bit (scast (w :: 'a::len word) :: 'b::len word) n \<longleftrightarrow>
    n < LENGTH('b) \<and> bit w (min n (LENGTH('a) - 1))"
  using le_antisym [of "LENGTH('a) - 1" n]
  by (auto simp: bit_signed_iff min_def not_le intro: le_antisym dest: Suc_pred)

lemma word32_eqI:
  assumes "\<forall>n < 32. bit (v :: u32) n = bit w n"
  shows "v = w"
  by (rule bit_word_eqI) (use assms in simp)

lemma all_less_32: "(\<forall>n < 32. P n) \<longleftrightarrow>
    P 0 \<and> P 1 \<and> P 2 \<and> P 3 \<and> P 4 \<and> P 5 \<and> P 6 \<and> P 7 \<and> P 8 \<and> P 9 \<and> P 10 \<and> P 11 \<and> P 12 \<and> P 13 \<and>
    P 14 \<and> P 15 \<and> P 16 \<and> P 17 \<and> P 18 \<and> P 19 \<and> P 20 \<and> P 21 \<and> P 22 \<and> P 23 \<and> P 24 \<and> P 25 \<and>
    P 26 \<and> P 27 \<and> P 28 \<and> P 29 \<and> P 30 \<and> P (31 :: nat)"
  by (simp add: numeral_eq_Suc All_less_Suc) blast

section \<open>Immediates\<close>

lemmas field_bits = bit_ucast_iff bit_SEXT bit_BITS bit_enc bit_scast_word bit_drop_bit_eq
  bit_push_bit_iff bit_or_iff bit_take_bit_iff

lemma immI_enc: "immI (enc_I i f1 f3 fd opc) = sext12 i"
  by (rule word32_eqI, unfold all_less_32) (simp add: immI_def sext12_def enc_I_def field_bits)

lemma immS_enc: "immS (enc_S i f2 f1 f3 opc) = sext12 i"
  by (rule word32_eqI, unfold all_less_32) (simp add: immS_def sext12_def enc_S_def field_bits)

lemma immB_enc: "immB (enc_B i f2 f1 f3 opc) = offset12 i"
  by (rule word32_eqI, unfold all_less_32) (simp add: immB_def offset12_def enc_B_def field_bits
    del: One_nat_def push_bit_Suc take_bit_Suc take_bit_Suc_0)

lemma immU_enc: "immU (enc_U i fd opc) = upper20 i"
  by (rule word32_eqI, unfold all_less_32) (simp add: immU_def upper20_def enc_U_def field_bits)

lemma immJ_enc: "immJ (enc_J i fd opc) = offset20 i"
  by (rule word32_eqI, unfold all_less_32) (simp add: immJ_def offset20_def enc_J_def field_bits
    del: One_nat_def push_bit_Suc take_bit_Suc take_bit_Suc_0)

section \<open>Finding the entry of an encoded word\<close>

fun reads_from :: "string \<Rightarrow> u32 \<Rightarrow> nat \<Rightarrow> bool" where
  "reads_from [] i k = True"
| "reads_from (c # cs) i k = ((c = CHR ''?'' \<or> bit i k = (c = CHR ''1'')) \<and> reads_from cs i (k + 1))"

lemma reads_from_nth:
  "reads_from cs i k \<longleftrightarrow> (\<forall>j < length cs. cs ! j = CHR ''?'' \<or> (bit i (k + j) \<longleftrightarrow> cs ! j = CHR ''1''))"
  by (induction cs i k rule: reads_from.induct) (auto simp: less_Suc_eq_0_disj)

lemma pattern_reads_from: "pattern_reads str i = reads_from (pattern_bits str) i 0"
  by (simp add: pattern_reads_def reads_from_nth)

lemma length_instpats: "length instpats = 55"
  by (simp add: instpats_def)

text \<open>Where each instruction stands in the table.\<close>

fun alu_pos :: "alu_op \<Rightarrow> nat" where
  "alu_pos ADD = 36"
| "alu_pos SUB = 37"
| "alu_pos SLL = 38"
| "alu_pos SLT = 39"
| "alu_pos SLTU = 40"
| "alu_pos XOR_OP = 41"
| "alu_pos SRL = 42"
| "alu_pos SRA = 43"
| "alu_pos OR_OP = 44"
| "alu_pos AND_OP = 45"

fun alui_pos :: "alui_op \<Rightarrow> nat" where
  "alui_pos ADDI = 22"
| "alui_pos SLTI = 23"
| "alui_pos SLTIU = 24"
| "alui_pos XORI = 25"
| "alui_pos ORI = 26"
| "alui_pos ANDI = 27"

fun shift_pos :: "shift_op \<Rightarrow> nat" where
  "shift_pos SLLI = 28"
| "shift_pos SRLI = 29"
| "shift_pos SRAI = 30"

fun mul_pos :: "mul_op \<Rightarrow> nat" where
  "mul_pos MUL = 46"
| "mul_pos MULH = 47"
| "mul_pos MULHSU = 48"
| "mul_pos MULHU = 49"
| "mul_pos DIV = 50"
| "mul_pos DIVU = 51"
| "mul_pos REM = 52"
| "mul_pos REMU = 53"

fun branch_pos :: "branch_op \<Rightarrow> nat" where
  "branch_pos BEQ = 2"
| "branch_pos BNE = 3"
| "branch_pos BLT = 4"
| "branch_pos BGE = 5"
| "branch_pos BLTU = 6"
| "branch_pos BGEU = 7"

fun load_pos :: "load_op \<Rightarrow> nat" where
  "load_pos LB = 31"
| "load_pos LH = 32"
| "load_pos LW = 33"
| "load_pos LBU = 34"
| "load_pos LHU = 35"

fun store_pos :: "store_op \<Rightarrow> nat" where
  "store_pos SB = 8"
| "store_pos SW = 9"
| "store_pos SH = 10"

fun csr_pos :: "csr_op \<Rightarrow> nat" where
  "csr_pos CSRRW = 15"
| "csr_pos CSRRS = 16"
| "csr_pos CSRRC = 17"

text \<open>The bodies the table has for the M extension and for the CSR instructions.\<close>

fun mul_code :: "mul_op \<Rightarrow> u32 \<Rightarrow> u32 \<Rightarrow> u32" where
  "mul_code MUL = mul_body" | "mul_code MULH = mulh_body" | "mul_code MULHSU = mulhsu_body"
| "mul_code MULHU = mulhu_body" | "mul_code DIV = div_body" | "mul_code DIVU = divu_body"
| "mul_code REM = rem_body" | "mul_code REMU = remu_body"

fun csr_code :: "csr_op \<Rightarrow> (operands \<Rightarrow> u32) \<Rightarrow> exec_body" where
  "csr_code CSRRW f = csr_then_reg f"
| "csr_code CSRRS f = reg_then_csr (\<lambda>op. csr_value op OR f op)"
| "csr_code CSRRC f = reg_then_csr (\<lambda>op. csr_value op AND NOT (f op))"

lemma unat_BITS_low5: "unat (BITS v 4 0) = unat (take_bit 5 v)"
  by (simp add: unat_BITS unsigned_take_bit_eq) (simp add: take_bit_eq_mod)

lemma load_ext_simps:
  "ucast (SEXT (ucast v) 8) = load_ext LB v" "ucast (SEXT (ucast v) 16) = load_ext LH v"
  "ucast (BITS v 7 0) = load_ext LBU v" "ucast (BITS v 15 0) = load_ext LHU v"
  by (rule word32_eqI; simp add: field_bits bit_signed_take_bit_iff min_def; fail)+

lemma branch_sem_funs:
  "branch_sem BEQ = (=)" "branch_sem BNE = (\<noteq>)" "branch_sem BLT = (\<lambda>a b. sint a < sint b)"
  "branch_sem BGE = (\<lambda>a b. sint a \<ge> sint b)" "branch_sem BLTU = (<)" "branch_sem BGEU = (\<lambda>a b. a \<ge> b)"
  by (intro ext; simp add: word_sless_alt word_sle_eq)+

lemma load_ext_LW: "load_ext LW = (\<lambda>v. v)"
  by (intro ext) simp

lemmas entry_simps = length_instpats instpats_def pattern_reads_from pattern_bits_def bit_enc
  unat_BITS_low5 word_sless_alt word_sle_eq

lemma entry_lui: "first_match instpats (enc f7 f2 f1 f3 fd 0x37) =
    Inr (Some (TYPE_U, wr_reg (\<lambda>op d. imm op)))"
  by (rule first_match_at [where k = 0]) (simp_all add: entry_simps)

lemma entry_auipc: "first_match instpats (enc f7 f2 f1 f3 fd 0x17) =
    Inr (Some (TYPE_U, wr_reg (\<lambda>op d. d_pc d + imm op)))"
  by (rule first_match_at [where k = 1]) (simp_all add: entry_simps)

lemma entry_jal: "first_match instpats (enc f7 f2 f1 f3 fd 0x6f) =
    Inr (Some (TYPE_J, jal))"
  by (rule first_match_at [where k = 11]) (simp_all add: entry_simps)

lemma entry_jalr: "first_match instpats (enc f7 f2 f1 0 fd 0x67) =
    Inr (Some (TYPE_I, jalr))"
  by (rule first_match_at [where k = 12]) (simp_all add: entry_simps)

lemma entry_branch: "first_match instpats (enc f7 f2 f1 (branch_funct b) fd 0x63) =
    Inr (Some (TYPE_B, branch (branch_sem b)))"
  by (cases b; rule first_match_at [where k = "branch_pos b"]) (simp_all add: entry_simps branch_sem_funs)

lemma entry_load: "first_match instpats (enc f7 f2 f1 (load_funct l) fd 0x03) =
    Inr (Some (TYPE_I, load (load_len l) (load_ext l)))"
  by (cases l; rule first_match_at [where k = "load_pos l"]) (simp_all add: entry_simps load_ext_simps load_ext_LW del: load_ext.simps)

lemma entry_store: "first_match instpats (enc f7 f2 f1 (store_funct st) fd 0x23) =
    Inr (Some (TYPE_S, store (store_len st)))"
  by (cases st; rule first_match_at [where k = "store_pos st"]) (simp_all add: entry_simps)

lemma entry_alui: "first_match instpats (enc f7 f2 f1 (alui_funct a) fd 0x13) =
    Inr (Some (TYPE_I, wr_reg (\<lambda>op d. alui_sem a (src1 op) (imm op))))"
  by (cases a; rule first_match_at [where k = "alui_pos a"]) (simp_all add: entry_simps)

lemma entry_shift: "first_match instpats (enc (fst (shift_funct a)) f2 f1 (snd (shift_funct a)) fd 0x13) =
    Inr (Some (TYPE_IS, wr_reg (\<lambda>op d. shift_sem a (src1 op) (shamt_num op))))"
  by (cases a; rule first_match_at [where k = "shift_pos a"]) (simp_all add: entry_simps)

lemma entry_alu: "first_match instpats (enc (fst (alu_funct a)) f2 f1 (snd (alu_funct a)) fd 0x33) =
    Inr (Some (TYPE_R, wr_reg (\<lambda>op d. alu_sem a (src1 op) (src2 op))))"
  by (cases a; rule first_match_at [where k = "alu_pos a"]) (simp_all add: entry_simps)

lemma entry_mul: "first_match instpats (enc 1 f2 f1 (mul_funct m) fd 0x33) =
    Inr (Some (TYPE_R, wr_reg (\<lambda>op d. mul_code m (src1 op) (src2 op))))"
  by (cases m; rule first_match_at [where k = "mul_pos m"]) (simp_all add: entry_simps)

lemma entry_csr: "first_match instpats (enc f7 f2 f1 (csr_funct c) fd 0x73) =
    Inr (Some (TYPE_CSR, csr_code c src1))"
  by (cases c; rule first_match_at [where k = "csr_pos c"]) (simp_all add: entry_simps)

lemma entry_csri: "first_match instpats (enc f7 f2 f1 (csr_funct c + 4) fd 0x73) =
    Inr (Some (TYPE_CSR, csr_code c imm))"
  by (cases c; rule first_match_at [where k = "csr_pos c + 3"]) (simp_all add: entry_simps)

end
