(* ===== verification/Nemu_Inst_Correct.thy ===== *)
theory Nemu_Inst_Correct
  imports Nemu_Inst_Refine
begin

text \<open>
  The interpreter against the instruction set manual: \<open>rv_exec\<close> is the effect of one RV32IM
  instruction on the machine, and decoding and executing its encoding has exactly that effect,
  except where the code departs from the manual: \<^verbatim>\<open>jalr\<close> keeps bit 0 of its target and \<^verbatim>\<open>divu\<close> by
  zero returns the dividend.
\<close>

section \<open>Arithmetic of the M extension\<close>

lemma ucast_BITS_i64_low: "ucast (BITS_i64 (scast (w :: u32)) 31 0) = w"
  by (rule bit_word_eqI)
    (auto simp: BITS_i64_def BITMASK_mask bit_ucast_iff bit_and_iff bit_signed_drop_bit_iff
      bit_scast_word min_def)

lemma div_2_32_drop_bit: "(k :: int) div 2 ^ 32 = drop_bit 32 k"
  by (simp add: drop_bit_eq_div)

lemma ucast_BITS_i64_high: "ucast (BITS_i64 (word_of_int k) 63 32) = (word_of_int (k div 2 ^ 32) :: u32)"
  by (rule bit_word_eqI)
    (auto simp: BITS_i64_def BITMASK_mask bit_ucast_iff bit_and_iff bit_signed_drop_bit_iff
      bit_word_of_int_iff div_2_32_drop_bit bit_drop_bit_eq simp del: power_numeral)

lemma scast_mult_scast: "(scast (a :: u32) * scast b :: u64) = word_of_int (sint a * sint b)"
  by simp

lemma scast_mult_ucast: "(scast (a :: u32) * ucast b :: u64) = word_of_int (sint a * uint b)"
  by simp

lemma ucast_mult_ucast: "(ucast (a :: u32) * ucast b :: u64) = word_of_int (uint a * uint b)"
  by simp

lemma word_of_int_sint_mult: "word_of_int (sint a * sint b) = (a :: u32) * b"
  by (simp only: of_int_mult of_int_sint scast_id)

lemma mul_body_eq: "mul_body a b = a * b"
  unfolding mul_body_def Let_def by (rule ucast_BITS_i64_low)

lemma mul_code_sem:
  assumes "m = DIVU \<Longrightarrow> b \<noteq> 0"
  shows "mul_code m a b = mul_sem m a b"
proof (cases m)
  case MUL
  then show ?thesis by (simp only: mul_code.simps mul_sem.simps mul_body_eq word_of_int_sint_mult)
next
  case MULH
  then show ?thesis by (simp only: mul_code.simps mul_sem.simps mulh_body_def Let_def
        scast_mult_scast ucast_BITS_i64_high)
next
  case MULHSU
  then show ?thesis by (simp only: mul_code.simps mul_sem.simps mulhsu_body_def Let_def
        scast_mult_ucast ucast_BITS_i64_high)
next
  case MULHU
  then show ?thesis by (simp only: mul_code.simps mul_sem.simps mulhu_body_def Let_def
        ucast_mult_ucast ucast_BITS_i64_high)
next
  case DIV
  then show ?thesis by (simp add: div_body_def)
next
  case DIVU
  with assms show ?thesis by (simp add: divu_body_def word_div_def)
next
  case REM
  then show ?thesis by (simp add: rem_body_def signed_modulo_int_def)
next
  case REMU
  have "uint a \<noteq> - 2147483648" using uint_ge_0 [of a] by linarith
  with REMU show ?thesis by (auto simp: remu_body_def word_mod_def)
qed

section \<open>The effect of an instruction\<close>

definition xreg :: "reg \<Rightarrow> nemu \<Rightarrow> u32" where
  "xreg r s = (if r = 0 then 0 else gpr (cpu s) ! unat r)"

definition wreg :: "reg \<Rightarrow> u32 \<Rightarrow> nemu \<Rightarrow> nemu" where
  "wreg r v s = (if r = 0 then s else s\<lparr>cpu := (cpu s)\<lparr>gpr := (gpr (cpu s))[unat r := v]\<rparr>\<rparr>)"

text \<open>The next program counter and the machine after the instruction at \<open>p\<close>.\<close>

fun rv_exec :: "config \<Rightarrow> rv_instr \<Rightarrow> u32 \<Rightarrow> nemu \<Rightarrow> (u32 \<times> nemu) res" where
  "rv_exec cf (LUI d i) p s = Inr (p + 4, wreg d (upper20 i) s)"
| "rv_exec cf (AUIPC d i) p s = Inr (p + 4, wreg d (p + upper20 i) s)"
| "rv_exec cf (JAL d i) p s = Inr (p + offset20 i, wreg d (p + 4) s)"
| "rv_exec cf (JALR d r1 i) p s = Inr ((xreg r1 s + sext12 i) AND NOT 1, wreg d (p + 4) s)"
| "rv_exec cf (BRANCH b r1 r2 i) p s =
     Inr (if branch_sem b (xreg r1 s) (xreg r2 s) then p + offset12 i else p + 4, s)"
| "rv_exec cf (LOAD l d r1 i) p s =
     bindE (vaddr_read cf (xreg r1 s + sext12 i) (load_len l) s)
       (\<lambda>(v, s1). Inr (p + 4, wreg d (load_ext l v) s1))"
| "rv_exec cf (STORE st r2 r1 i) p s =
     bindE (vaddr_write cf (xreg r1 s + sext12 i) (store_len st) (xreg r2 s) s) (\<lambda>s1. Inr (p + 4, s1))"
| "rv_exec cf (OP_IMM a d r1 i) p s = Inr (p + 4, wreg d (alui_sem a (xreg r1 s) (sext12 i)) s)"
| "rv_exec cf (SHIFT a d r1 n) p s = Inr (p + 4, wreg d (shift_sem a (xreg r1 s) (unat n)) s)"
| "rv_exec cf (OP a d r1 r2) p s = Inr (p + 4, wreg d (alu_sem a (xreg r1 s) (xreg r2 s)) s)"
| "rv_exec cf (MULDIV m d r1 r2) p s = Inr (p + 4, wreg d (mul_sem m (xreg r1 s) (xreg r2 s)) s)"
| "rv_exec cf (CSR c d r1 n) p s =
     (let old = CSR_read (ucast n) s
      in Inr (p + 4, wreg d old (CSR_write (ucast n) (csr_sem c old (xreg r1 s)) s)))"
| "rv_exec cf (CSRI c d z n) p s =
     (let old = CSR_read (ucast n) s
      in Inr (p + 4, wreg d old (CSR_write (ucast n) (csr_sem c old (ucast z)) s)))"

text \<open>Where the code and the manual agree.\<close>

fun conforms :: "rv_instr \<Rightarrow> nemu \<Rightarrow> bool" where
  "conforms (JALR d r1 i) s = even (xreg r1 s + sext12 i)"
| "conforms (MULDIV m d r1 r2) s = (m = DIVU \<longrightarrow> xreg r2 s \<noteq> 0)"
| "conforms _ s = True"

section \<open>Operands and the closing write of register zero\<close>

definition zero_ok :: "nemu \<Rightarrow> bool" where
  "zero_ok s \<longleftrightarrow> wf_nemu s \<and> gpr (cpu s) ! 0 = 0"

lemma zero_okD:
  "zero_ok s \<Longrightarrow> length (gpr (cpu s)) = 32" "zero_ok s \<Longrightarrow> gpr (cpu s) ! 0 = 0"
  by (auto simp: zero_ok_def wf_nemu_def wf_cpu_def)

lemma get_gpr_field [simp]: "zero_ok s \<Longrightarrow> get_gpr (unat (r :: reg)) s = Inr (xreg r s)"
  by (cases "r = 0") (simp_all add: xreg_def zero_okD)

lemma unat_reg_0: "unat (r :: reg) = 0 \<longleftrightarrow> r = 0"
  by (simp add: unat_eq_zero)

lemma write_then_zero:
  assumes "zero_ok s"
  shows "bindE (set_gpr (unat (r :: reg)) v s) (set_gpr 0 0) = Inr (wreg r v s)"
proof (cases "r = 0")
  case True
  have "(gpr (cpu s))[0 := 0] = gpr (cpu s)"
    using zero_okD [OF assms] by (metis list_update_id)
  with True show ?thesis by (simp add: wreg_def)
next
  case False
  have "(gpr (cpu s))[unat r := v, 0 := 0] = (gpr (cpu s))[unat r := v]"
    using zero_okD [OF assms] False unat_reg_0 [of r] by (metis list_update_id nth_list_update_neq)
  with False show ?thesis by (simp add: wreg_def)
qed

lemma write_then_zero':
  assumes "zero_ok s"
  shows "bindE (set_gpr (unat (r :: reg)) v s) (\<lambda>s1. bindE (set_gpr 0 0 s1) (\<lambda>s2. Inr (d, s2))) =
    Inr (d, wreg r v s)"
  by (simp only: bindE_assoc [symmetric] write_then_zero [OF assms] bindE_simps)

lemma keep_zero [simp]: "zero_ok s \<Longrightarrow> set_gpr 0 0 s = Inr s"
  using write_then_zero [of s 0 0] zero_okD [of s] by (simp add: wreg_def)

lemma zero_ok_CSR_write [simp]: "zero_ok (CSR_write c v s) = zero_ok s"
  by (simp add: zero_ok_def CSR_write_def)

lemma zero_ok_same_regs: "zero_ok s \<Longrightarrow> same_regs s s' \<Longrightarrow> zero_ok s'"
  by (auto simp: zero_ok_def same_regs_def)

lemma zero_ok_wreg [simp]: "zero_ok s \<Longrightarrow> zero_ok (wreg r v s)"
  using unat_reg_0 [of r] by (auto simp: zero_ok_def wreg_def wf_nemu_def wf_cpu_def)

lemma CSR_write_wreg: "CSR_write c v (wreg r w s) = wreg r w (CSR_write c v s)"
  by (simp add: CSR_write_def wreg_def set_csr_pr_def)

section \<open>Decoding and executing an encoded instruction\<close>

text \<open>Every instruction ends by clearing register zero.\<close>

definition finish :: "(decode \<times> nemu) res \<Rightarrow> (decode \<times> nemu) res" where
  "finish m = bindE m (\<lambda>(d2, s1). bindE (set_gpr 0 0 s1) (\<lambda>s2. Inr (d2, s2)))"

text \<open>What remains of \<open>decode_exec\<close> once the entry of the table is known.\<close>

lemma decode_exec_entry:
  assumes "first_match instpats (d_inst d) = Inr (Some e)"
  shows "decode_exec cf d s = (let d1 = d\<lparr>d_dnpc := d_snpc d\<rparr> in
    bindE (decode_operand d1 (fst e) s) (\<lambda>op. finish (snd e cf op d1 s)))"
  using assms by (simp add: decode_exec_def finish_def Let_def bindE_assoc split: prod.splits)

lemma finish_wr_reg:
  assumes "zero_ok s" and "rd op = unat (r :: reg)"
  shows "finish (wr_reg f cf op d s) =
    Inr (d, wreg r (f op d) s)"
  using assms by (simp add: finish_def wr_reg_def bindE_assoc write_then_zero' del: set_gpr_ok)

lemma finish_load:
  assumes "zero_ok s" and "rd op = unat (r :: reg)"
  shows "finish (load n e cf op d s) =
    bindE (vaddr_read cf (src1 op + imm op) n s) (\<lambda>(v, s1). Inr (d, wreg r (e v) s1))"
proof (cases "vaddr_read cf (src1 op + imm op) n s")
  case (Inr vs)
  then have "zero_ok (snd vs)"
    using assms(1) by (cases vs) (auto simp: vaddr_read_def intro: zero_ok_same_regs same_regs_paddr_read)
  with Inr assms(2) show ?thesis
    by (cases vs) (simp add: finish_def load_def bindE_assoc write_then_zero' del: set_gpr_ok)
qed (simp add: finish_def load_def)

lemma finish_store:
  assumes "zero_ok s"
  shows "finish (store n cf op d s) =
    bindE (vaddr_write cf (src1 op + imm op) n (src2 op) s) (\<lambda>s1. Inr (d, s1))"
proof (cases "vaddr_write cf (src1 op + imm op) n (src2 op) s")
  case (Inr s1)
  then have "zero_ok s1"
    using assms(1) by (auto simp: vaddr_write_def intro: zero_ok_same_regs same_regs_paddr_write)
  with Inr show ?thesis by (simp add: finish_def store_def del: set_gpr_ok)
qed (simp add: finish_def store_def)

declare set_gpr_ok [simp del] get_gpr_ok [simp del]

lemma set_gpr_CSR_write:
  "set_gpr i v (CSR_write c w s) = bindE (set_gpr i v s) (\<lambda>s1. Inr (CSR_write c w s1))"
  by (cases "i < 32") (simp_all add: set_gpr_def check_reg_idx_def CSR_write_def set_csr_pr_def)

lemma finish_reg_then_csr:
  assumes "zero_ok s" and "rd op = unat (r :: reg)"
  shows "finish (reg_then_csr f cf op d s) =
    Inr (d, wreg r (csr_value op) (CSR_write (csr op) (f op) s))"
proof -
  have "bindE (bindE (set_gpr (unat r) (csr_value op) s) (set_gpr 0 0))
      (\<lambda>s1. Inr (d, CSR_write (csr op) (f op) s1)) =
      Inr (d, wreg r (csr_value op) (CSR_write (csr op) (f op) s))"
    by (simp only: write_then_zero [OF assms(1)] bindE_simps CSR_write_wreg)
  then show ?thesis
    by (simp add: finish_def reg_then_csr_def bindE_assoc set_gpr_CSR_write assms(2) del: set_gpr_ok)
qed

lemma finish_csr:
  assumes "zero_ok s" and "rd op = unat (r :: reg)"
  shows "finish (csr_code c f cf op d s) =
    Inr (d, wreg r (csr_value op) (CSR_write (csr op) (csr_sem c (csr_value op) (f op)) s))"
proof (cases c)
  case CSRRW
  have "zero_ok (CSR_write (csr op) (f op) s)" using assms(1) by simp
  with assms(2) CSRRW show ?thesis
    by (simp add: finish_def csr_then_reg_def bindE_assoc write_then_zero' del: set_gpr_ok)
next
  case CSRRS
  then show ?thesis by (simp add: finish_reg_then_csr [OF assms] del: set_gpr_ok)
next
  case CSRRC
  then show ?thesis by (simp add: finish_reg_then_csr [OF assms] del: set_gpr_ok)
qed

lemmas entries = entry_lui entry_auipc entry_jal entry_jalr entry_branch entry_load entry_store
  entry_alui entry_shift entry_alu entry_mul entry_csr entry_csri

lemma finish_jump:
  assumes "zero_ok s" and "rd op = unat (r :: reg)"
  shows "finish (jal cf op d s) = Inr (d\<lparr>d_dnpc := d_pc d + imm op\<rparr>, wreg r (d_pc d + 4) s)"
    and "finish (jalr cf op d s) = Inr (d\<lparr>d_dnpc := src1 op + imm op\<rparr>, wreg r (d_pc d + 4) s)"
  using assms by (simp_all add: finish_def jal_def jalr_def bindE_assoc write_then_zero' del: set_gpr_ok)

lemma finish_branch:
  "zero_ok s \<Longrightarrow> finish (branch c cf op d s) =
     Inr (d\<lparr>d_dnpc := (if c (src1 op) (src2 op) then d_pc d + imm op else d_pc d + 4)\<rparr>, s)"
  by (simp add: finish_def branch_def del: set_gpr_ok)

lemma BITS_formats:
  "BITS (enc_I i f1 f3 fd opc) 11 7 = ucast fd" "BITS (enc_I i f1 f3 fd opc) 19 15 = ucast f1"
  "BITS (enc_S i f2 f1 f3 opc) 19 15 = ucast f1" "BITS (enc_S i f2 f1 f3 opc) 24 20 = ucast f2"
  "BITS (enc_B i f2 f1 f3 opc) 19 15 = ucast f1" "BITS (enc_B i f2 f1 f3 opc) 24 20 = ucast f2"
  "BITS (enc_U j fd opc) 11 7 = ucast fd" "BITS (enc_J j fd opc) 11 7 = ucast fd"
  by (simp_all add: enc_I_def enc_S_def enc_B_def enc_U_def enc_J_def BITS_enc)

lemma BITS_csr: "ucast (BITS (enc_I i f1 f3 fd opc) 31 20) = (ucast i :: u32)"
  by (rule word32_eqI, unfold all_less_32) (auto simp: enc_I_def field_bits dest!: bit_imp_le_length)

lemmas operand_simps = Let_def decode_operand_def BITS_formats BITS_enc BITS_csr unat_field
  immI_enc immS_enc immB_enc immU_enc immJ_enc

lemmas finishes = finish_wr_reg finish_load finish_store finish_csr finish_jump finish_branch

lemma even_and_not_1: "even (w :: u32) \<Longrightarrow> w AND NOT 1 = w"
  by (rule bit_word_eqI) (auto simp: bit_and_iff bit_not_iff bit_1_iff bit_0 intro: ccontr)

lemma even_sum_and_not_1: "even (a :: u32) = even b \<Longrightarrow> a + b AND - 2 = a + b"
  using even_and_not_1 [of "a + b"] by simp

lemma ucast_ucast_5: "(ucast (ucast (z :: 5 word) :: u64) :: u32) = ucast z"
  by (rule bit_word_eqI) (auto simp: bit_ucast_iff dest!: bit_imp_le_length)

lemma first_match_encode: "first_match instpats (encode ins) = Inr (Some (case ins of
    LUI _ _ \<Rightarrow> (TYPE_U, wr_reg (\<lambda>op d. imm op))
  | AUIPC _ _ \<Rightarrow> (TYPE_U, wr_reg (\<lambda>op d. d_pc d + imm op))
  | JAL _ _ \<Rightarrow> (TYPE_J, jal)
  | JALR _ _ _ \<Rightarrow> (TYPE_I, jalr)
  | BRANCH b _ _ _ \<Rightarrow> (TYPE_B, branch (branch_sem b))
  | LOAD l _ _ _ \<Rightarrow> (TYPE_I, load (load_len l) (load_ext l))
  | STORE st _ _ _ \<Rightarrow> (TYPE_S, store (store_len st))
  | OP_IMM a _ _ _ \<Rightarrow> (TYPE_I, wr_reg (\<lambda>op d. alui_sem a (src1 op) (imm op)))
  | SHIFT a _ _ _ \<Rightarrow> (TYPE_IS, wr_reg (\<lambda>op d. shift_sem a (src1 op) (shamt_num op)))
  | OP a _ _ _ \<Rightarrow> (TYPE_R, wr_reg (\<lambda>op d. alu_sem a (src1 op) (src2 op)))
  | MULDIV m _ _ _ \<Rightarrow> (TYPE_R, wr_reg (\<lambda>op d. mul_code m (src1 op) (src2 op)))
  | CSR c _ _ _ \<Rightarrow> (TYPE_CSR, csr_code c src1)
  | CSRI c _ _ _ \<Rightarrow> (TYPE_CSR, csr_code c imm)))"
  by (cases ins) (simp_all add: enc_I_def enc_S_def enc_B_def enc_U_def enc_J_def entries)

lemma exec_encoded:
  assumes z: "zero_ok s" and i: "d_inst d = encode ins" and p: "d_snpc d = d_pc d + 4"
    and c: "conforms ins s"
  shows "decode_exec cf d s =
    bindE (rv_exec cf ins (d_pc d) s) (\<lambda>(p', s'). Inr (d\<lparr>d_dnpc := p'\<rparr>, s'))"
proof -
  note de = decode_exec_entry [OF first_match_encode [of ins, folded i], of cf s]
  show ?thesis
    using i z p c
    by (cases ins; simp add: de operand_simps finishes even_sum_and_not_1 mul_code_sem bindE_assoc
        case_prod_unfold ucast_ucast_5)
qed


lemma encode_example: "encode (AUIPC 5 0) = 0x297"
  by code_simp


text \<open>C11: the immediates the decoder extracts from an encoded word are the operands that were
  encoded, sign-extended and scaled as each format prescribes.\<close>

theorem immediates_roundtrip:
  "immI (enc_I i r1 f fd opc) = scast i \<and>
   immS (enc_S i r2 r1 f opc) = scast i \<and>
   immB (enc_B i r2 r1 f opc) = push_bit 1 (scast i) \<and>
   immU (enc_U j fd opc) = push_bit 12 (ucast j) \<and>
   immJ (enc_J j fd opc) = push_bit 1 (scast j)"
  using immI_enc immS_enc immB_enc immU_enc immJ_enc
  by (simp only: sext12_def offset12_def offset20_def upper20_def simp_thms)

text \<open>The multiplication and division bodies compute the results of the M extension on
  integers, division by zero and overflow included, except for \<^verbatim>\<open>divu\<close> by zero.\<close>

theorem m_extension_bodies:
  "mul_body a b = word_of_int (sint a * sint b) \<and>
   mulh_body a b = word_of_int (sint a * sint b div 2 ^ 32) \<and>
   mulhsu_body a b = word_of_int (sint a * uint b div 2 ^ 32) \<and>
   mulhu_body a b = word_of_int (uint a * uint b div 2 ^ 32) \<and>
   (div_body a b = (if b = 0 then -1 else word_of_int (sint a sdiv sint b))) \<and>
   (divu_body a b = (if b = 0 then a else word_of_int (uint a div uint b))) \<and>
   (rem_body a b = (if b = 0 then a else word_of_int (sint a smod sint b))) \<and>
   (remu_body a b = (if b = 0 then a else word_of_int (uint a mod uint b)))"
  using mul_code_sem [of MUL b a] mul_code_sem [of MULH b a] mul_code_sem [of MULHSU b a]
    mul_code_sem [of MULHU b a] mul_code_sem [of DIV b a] mul_code_sem [of DIVU b a]
    mul_code_sem [of REM b a] mul_code_sem [of REMU b a]
  by (simp only: mul_code.simps mul_sem.simps simp_thms) (simp add: divu_body_def word_div_def)

text \<open>The departures from the manual.\<close>

lemma divu_by_zero: "divu_body 7 0 = 7" "mul_sem DIVU 7 0 = 0xFFFFFFFF"
  by (simp_all add: divu_body_def)

lemma jalr_keeps_bit_zero:
  "zero_ok s \<Longrightarrow> finish (jalr cf \<lparr>rd = 0, src1 = 0x80000000, src2 = 0, imm = 1, shamt_num = 0,
     csr_value = 0, csr = 0\<rparr> d s) = Inr (d\<lparr>d_dnpc := 0x80000001\<rparr>, s)"
  by (simp add: finish_jump(2) [where r = 0] wreg_def)

end
