(* ===== verification/Nemu_Expr.thy ===== *)
theory Nemu_Expr
  imports Nemu_Memory_Props
begin

text \<open>
  The debugger's expression evaluator, \<^verbatim>\<open>nemu/src/monitor/sdb/expr.c\<close>, with the register lookup of
  \<^verbatim>\<open>isa/riscv32/reg.c\<close>: lexing into the fixed token buffer, the search for the main operator, and
  recursive evaluation. The text of a token is overwritten, not cleared, by the next expression.
\<close>

section \<open>Lexer rules\<close>

text \<open>
  The regular expressions of the rule table, and the lengths of the prefixes each matches; \<^verbatim>\<open>regexec\<close>
  reports the longest. A match must start at the current position.
\<close>

datatype rx = Chr "char \<Rightarrow> bool" | Seq rx rx | Alt rx rx | Plus "char \<Rightarrow> bool"

fun rx_lens :: "rx \<Rightarrow> string \<Rightarrow> nat list" where
  "rx_lens (Chr P) [] = []"
| "rx_lens (Chr P) (c # cs) = (if P c then [1] else [])"
| "rx_lens (Seq r q) cs =
     concat (map (\<lambda>n. map (\<lambda>k. n + k) (rx_lens q (drop n cs))) (rx_lens r cs))"
| "rx_lens (Alt r q) cs = rx_lens r cs @ rx_lens q cs"
| "rx_lens (Plus P) cs = [1..<Suc (length (takeWhile P cs))]"

definition rx_match :: "rx \<Rightarrow> string \<Rightarrow> nat option" where
  "rx_match r cs = (case rx_lens r cs of [] \<Rightarrow> None | n # ns \<Rightarrow> Some (fold max ns n))"

fun rx_lit :: "string \<Rightarrow> rx" where
  "rx_lit [c] = Chr (\<lambda>d. d = c)"
| "rx_lit (c # cs) = Seq (Chr (\<lambda>d. d = c)) (rx_lit cs)"
| "rx_lit [] = Chr (\<lambda>_. False)"

definition rx_range :: "char \<Rightarrow> char \<Rightarrow> char \<Rightarrow> bool" where
  "rx_range a b c = (of_char a \<le> (of_char c :: nat) \<and> of_char c \<le> (of_char b :: nat))"

definition is_digit_char :: "char \<Rightarrow> bool" where
  "is_digit_char = rx_range (CHR ''0'') (CHR ''9'')"

definition is_hex_char :: "char \<Rightarrow> bool" where
  "is_hex_char c = (rx_range (CHR ''0'') (CHR ''9'') c \<or> rx_range (CHR ''a'') (CHR ''f'') c \<or>
     rx_range (CHR ''A'') (CHR ''F'') c)"

definition rules :: "(rx \<times> tok_type) list" where
  "rules = [
    (rx_lit ''!='', TK_NEQ), (rx_lit ''||'', TK_LGOR), (rx_lit ''&&'', TK_LGAND),
    (rx_lit ''^'', TK_LGXOR), (rx_lit ''>='', TK_EQORLGT), (rx_lit ''<='', TK_EQORLST),
    (Plus (\<lambda>c. c = CHR '' ''), TK_NOTYPE), (rx_lit ''+'', TK_ADD), (rx_lit ''=='', TK_EQ),
    (rx_lit ''-'', TK_SUB), (rx_lit ''*'', TK_MUL), (rx_lit ''/'', TK_DIV),
    (rx_lit ''('', TK_LPAREN), (rx_lit '')'', TK_RPAREN),
    (Seq (Chr (\<lambda>c. c = CHR ''0'')) (Seq (Chr (\<lambda>c. c = CHR ''x'' \<or> c = CHR ''X'')) (Plus is_hex_char)), TK_HEX),
    (Plus is_digit_char, TK_NUMBER),
    (foldr Alt [rx_lit ''$0'', rx_lit ''ra'', rx_lit ''sp'', rx_lit ''gp'', rx_lit ''tp'', rx_lit ''pc'',
       Seq (rx_lit ''t'') (Chr is_digit_char), Seq (rx_lit ''s'') (Chr is_digit_char),
       Seq (rx_lit ''s1'') (Chr (rx_range (CHR ''0'') (CHR ''1'')))]
       (Seq (rx_lit ''a'') (Chr (rx_range (CHR ''0'') (CHR ''7'')))), TK_REGS_NAME)]"

fun first_rule :: "(rx \<times> tok_type) list \<Rightarrow> string \<Rightarrow> (nat \<times> tok_type) option" where
  "first_rule [] cs = None"
| "first_rule ((r, ty) # rs) cs = (case rx_match r cs of Some n \<Rightarrow> Some (n, ty) | None \<Rightarrow> first_rule rs cs)"

lemma rx_lens_bounds: "n \<in> set (rx_lens r cs) \<Longrightarrow> 0 < n \<and> n \<le> length cs"
proof (induction r cs arbitrary: n rule: rx_lens.induct)
  case (3 r q cs)
  then obtain a b where ab: "a \<in> set (rx_lens r cs)" "b \<in> set (rx_lens q (drop a cs))" "n = a + b" by auto
  from "3.IH"(1) [OF ab(1)] "3.IH"(2) [OF ab(1) ab(2)] ab(3) show ?case by auto
next
  case (5 P cs)
  then show ?case using length_takeWhile_le [of P cs] by auto
qed (auto split: if_splits)

lemma fold_max_mem: "fold max ns n \<in> set (n # (ns :: nat list))"
  by (induction ns arbitrary: n) (auto simp: max_def)

lemma rx_match_bounds: "rx_match r cs = Some n \<Longrightarrow> 0 < n \<and> n \<le> length cs"
proof -
  assume "rx_match r cs = Some n"
  then obtain k ns where "rx_lens r cs = k # ns" "n = fold max ns k"
    by (auto simp: rx_match_def split: list.splits)
  with fold_max_mem [of ns k] rx_lens_bounds [of n r cs] show ?thesis by simp
qed

lemma first_rule_bounds: "first_rule rs cs = Some (n, ty) \<Longrightarrow> 0 < n \<and> n \<le> length cs"
  by (induction rs cs rule: first_rule.induct) (auto simp: rx_match_bounds split: option.splits)

section \<open>Filling the token buffer\<close>

definition tokens_len :: nat where
  "tokens_len = 64"

text \<open>\<^verbatim>\<open>memcpy\<close> of the matched characters over the old text of the entry.\<close>

definition match_success :: "string \<Rightarrow> tok_type \<Rightarrow> nemu \<Rightarrow> nemu" where
  "match_success sub ty s =
     (let k = nr_token s; old = tokens s ! k in
      s\<lparr>tokens := (tokens s)[k := \<lparr>tk_type = ty, tk_str = sub @ drop (length sub) (tk_str old)\<rparr>],
        nr_token := k + 1\<rparr>)"

function make_token_loop :: "string \<Rightarrow> nemu \<Rightarrow> (bool \<times> nemu) res" where
  "make_token_loop cs s =
     (if cs = [] then Inr (True, s)
      else (case first_rule rules cs of
          None \<Rightarrow> Inr (False, s)
        | Some (n, ty) \<Rightarrow>
            bindE (assertE (n < tokens_len) ''substr_len < tokens_len'') (\<lambda>_.
            bindE (assertE (nr_token s < tokens_len) ''nr_token < ARRLEN(tokens)'') (\<lambda>_.
              make_token_loop (drop n cs)
                (if ty = TK_NOTYPE then s else match_success (take n cs) ty s)))))"
  by pat_completeness auto
termination
  by (relation "measure (\<lambda>(cs, s). length cs)") (auto dest: first_rule_bounds)

declare make_token_loop.simps [simp del]

definition make_token :: "string \<Rightarrow> nemu \<Rightarrow> (bool \<times> nemu) res" where
  "make_token e s = make_token_loop e (s\<lparr>nr_token := 0\<rparr>)"

section \<open>Finding the main operator\<close>

definition is_binocular_operator :: "tok_type \<Rightarrow> bool" where
  "is_binocular_operator ty = (ty \<in> {TK_ADD, TK_DIV, TK_MUL, TK_SUB, TK_EQ, TK_EQORLGT, TK_EQORLST,
     TK_LGAND, TK_LGOR, TK_LGXOR, TK_NEQ})"

definition ttype :: "token list \<Rightarrow> int \<Rightarrow> tok_type" where
  "ttype ts i = tk_type (ts ! nat i)"

function check_parens_loop :: "token list \<Rightarrow> int \<Rightarrow> int \<Rightarrow> int \<Rightarrow> int \<Rightarrow> bool" where
  "check_parens_loop ts p q i paren =
     (if i < q then
        if ttype ts p \<noteq> TK_LPAREN \<or> ttype ts q \<noteq> TK_RPAREN then False
        else if paren < 0 then False
        else check_parens_loop ts p q (i + 1)
          (paren + (if ttype ts i = TK_LPAREN then 1 else 0) - (if ttype ts i = TK_RPAREN then 1 else 0))
      else paren = 0)"
  by pat_completeness auto
termination
  by (relation "measure (\<lambda>(ts, p, q, i, paren). nat (q - i))") auto

declare check_parens_loop.simps [simp del]

definition check_parentheses :: "token list \<Rightarrow> int \<Rightarrow> int \<Rightarrow> bool" where
  "check_parentheses ts p q = (if p + 1 = q then False else check_parens_loop ts p q (p + 1) 0)"

definition operator_priority :: "tok_type \<Rightarrow> int" where
  "operator_priority ty =
     (if ty = TK_ADD \<or> ty = TK_SUB then 3
      else if ty = TK_MUL \<or> ty = TK_DIV then 2
      else if ty = TK_LGAND \<or> ty = TK_LGOR \<or> ty = TK_LGXOR then 1 else 0)"

function main_op_loop :: "token list \<Rightarrow> int \<Rightarrow> int \<Rightarrow> int \<Rightarrow> int \<Rightarrow> int \<Rightarrow> int" where
  "main_op_loop ts q i main_op max_priority paren =
     (if i \<le> q then
        let ty = ttype ts i;
            current = operator_priority ty;
            better = paren = 0 \<and> is_binocular_operator ty \<and>
              (current > max_priority \<or> (current = max_priority \<and> ty \<noteq> TK_MUL \<and> ty \<noteq> TK_DIV))
        in main_op_loop ts q (i + 1) (if better then i else main_op) (if better then current else max_priority)
             (if ty = TK_LPAREN then paren + 1 else if ty = TK_RPAREN then paren - 1 else paren)
      else main_op)"
  by pat_completeness auto
termination
  by (relation "measure (\<lambda>(ts, q, i, m, mx, par). nat (q + 1 - i))") auto

declare main_op_loop.simps [simp del]

definition find_main_operator :: "token list \<Rightarrow> int \<Rightarrow> int \<Rightarrow> int" where
  "find_main_operator ts p q = main_op_loop ts q p 0 0 0"

lemma main_op_loop_step:
  assumes "i \<le> q"
  obtains m' mx' par' where
    "main_op_loop ts q i m mx par = main_op_loop ts q (i + 1) m' mx' par'" "m' = m \<or> m' = i"
proof -
  from assms have "\<exists>m' mx' par'. main_op_loop ts q i m mx par = main_op_loop ts q (i + 1) m' mx' par' \<and>
      (m' = m \<or> m' = i)"
    by (subst main_op_loop.simps) (simp only: if_True Let_def, intro exI conjI, rule refl, simp)
  then show ?thesis using that by blast
qed

lemma main_op_loop_range:
  "main_op_loop ts q i m mx par = m \<or> (i \<le> main_op_loop ts q i m mx par \<and> main_op_loop ts q i m mx par \<le> q)"
proof (induction "nat (q + 1 - i)" arbitrary: i m mx par)
  case 0
  then show ?case by (simp add: main_op_loop.simps)
next
  case (Suc k)
  then have "i \<le> q" by simp
  then obtain m' mx' par' where eq: "main_op_loop ts q i m mx par = main_op_loop ts q (i + 1) m' mx' par'"
    and m: "m' = m \<or> m' = i" by (rule main_op_loop_step)
  from Suc(2) \<open>i \<le> q\<close> have "k = nat (q + 1 - (i + 1))" by linarith
  from Suc(1) [OF this, of m' mx' par'] m \<open>i \<le> q\<close> show ?case unfolding eq by auto
qed

lemma find_main_operator_range:
  "find_main_operator ts p q = 0 \<or> (p \<le> find_main_operator ts p q \<and> find_main_operator ts p q \<le> q)"
  unfolding find_main_operator_def by (rule main_op_loop_range)

section \<open>Single tokens\<close>

text \<open>The C string in a character array, and the numbers \<^verbatim>\<open>strtol\<close> and \<^verbatim>\<open>atoi\<close> read from one.\<close>

definition c_string :: "string \<Rightarrow> string" where
  "c_string str = takeWhile (\<lambda>c. c \<noteq> CHR 0x00) str"

definition digit_value :: "char \<Rightarrow> nat" where
  "digit_value c = (if is_digit_char c then of_char c - 48
     else if rx_range (CHR ''a'') (CHR ''f'') c then of_char c - 87 else of_char c - 55)"

definition number_value :: "nat \<Rightarrow> string \<Rightarrow> nat" where
  "number_value base ds = foldl (\<lambda>n c. n * base + digit_value c) 0 ds"

text \<open>
  A number token starts with a digit, a hexadecimal one with \<open>0x\<close>, so white space and signs do not
  arise; a value above \<^verbatim>\<open>LONG_MAX\<close> saturates, and \<^verbatim>\<open>atoi\<close> truncates the \<^verbatim>\<open>long\<close> to an \<^verbatim>\<open>int\<close>.
\<close>

definition atoi_str :: "string \<Rightarrow> u32" where
  "atoi_str str = of_nat (min (number_value 10 (takeWhile is_digit_char (c_string str))) (2 ^ 63 - 1))"

definition strtol_hex :: "string \<Rightarrow> u32" where
  "strtol_hex str = of_nat (min (number_value 16 (takeWhile is_hex_char (drop 2 (c_string str)))) (2 ^ 63 - 1))"

definition regs :: "string list" where
  "regs = [''$0'', ''ra'', ''sp'', ''gp'', ''tp'', ''t0'', ''t1'', ''t2'', ''s0'', ''s1'', ''a0'', ''a1'',
     ''a2'', ''a3'', ''a4'', ''a5'', ''a6'', ''a7'', ''s2'', ''s3'', ''s4'', ''s5'', ''s6'', ''s7'',
     ''s8'', ''s9'', ''s10'', ''s11'', ''t3'', ''t4'', ''t5'', ''t6'', ''pc'']"

fun reg_search :: "string \<Rightarrow> nat \<Rightarrow> string list \<Rightarrow> nat option" where
  "reg_search str i [] = None"
| "reg_search str i (r # rs) = (if str = r then Some i else reg_search str (i + 1) rs)"

text \<open>The value and whether the name is one of the 32 registers.\<close>

definition isa_reg_str2val :: "string \<Rightarrow> nemu \<Rightarrow> (u32 \<times> bool) res" where
  "isa_reg_str2val str s = (case reg_search str 0 (take 32 regs) of
     None \<Rightarrow> Inr (0, False)
   | Some i \<Rightarrow> bindE (get_gpr i s) (\<lambda>v. Inr (v, True)))"

definition eval_token :: "token \<Rightarrow> nemu \<Rightarrow> u32 res" where
  "eval_token tk s =
     (if tk_type tk = TK_NUMBER then Inr (atoi_str (tk_str tk))
      else if tk_type tk = TK_REGS_NAME then
        (if c_string (tk_str tk) = ''pc'' then Inr (pc (cpu s))
         else bindE (isa_reg_str2val (c_string (tk_str tk)) s) (\<lambda>(v, ok).
           if ok then Inr v else Inl (Panic ''assert(0)'')))
      else if tk_type tk = TK_HEX then Inr (strtol_hex (tk_str tk))
      else Inr (-1))"

section \<open>Evaluation\<close>

text \<open>The value of \<^verbatim>\<open>val1 op val2\<close> on 32-bit \<^verbatim>\<open>int\<close>; overflow is taken to wrap, a division trap is an error.\<close>

definition binop_value :: "tok_type \<Rightarrow> u32 \<Rightarrow> u32 \<Rightarrow> u32 res" where
  "binop_value ty a b = (case ty of
     TK_ADD \<Rightarrow> Inr (a + b)
   | TK_SUB \<Rightarrow> Inr (a - b)
   | TK_MUL \<Rightarrow> Inr (a * b)
   | TK_DIV \<Rightarrow> (if b = 0 \<or> (sint a = -2147483648 \<and> sint b = -1) then Inl (HostFault ''division trap'')
               else Inr (word_of_int (sint a sdiv sint b)))
   | TK_EQ \<Rightarrow> Inr (if a = b then 1 else 0)
   | TK_EQORLGT \<Rightarrow> Inr (if sint a \<ge> sint b then 1 else 0)
   | TK_EQORLST \<Rightarrow> Inr (if sint a \<le> sint b then 1 else 0)
   | TK_LGAND \<Rightarrow> Inr (if a \<noteq> 0 \<and> b \<noteq> 0 then 1 else 0)
   | TK_LGOR \<Rightarrow> Inr (if a \<noteq> 0 \<or> b \<noteq> 0 then 1 else 0)
   | TK_LGXOR \<Rightarrow> Inr (a XOR b)
   | TK_NEQ \<Rightarrow> Inr (if a \<noteq> b then 1 else 0)
   | _ \<Rightarrow> Inl (Panic ''assert(0)''))"

function eval :: "config \<Rightarrow> token list \<Rightarrow> int \<Rightarrow> int \<Rightarrow> nemu \<Rightarrow> (u32 \<times> nemu) res" where
  "eval cf ts p q s =
     (if p > q then Inl (Panic ''assert(0)'')
      else if p = q then bindE (eval_token (ts ! nat p) s) (\<lambda>v. Inr (v, s))
      else if check_parentheses ts p q then eval cf ts (p + 1) (q - 1) s
      else
        let op0 = find_main_operator ts p q;
            op = (if op0 = 0 then p else op0);
            op_type = ttype ts op
        in if op_type = TK_DEREF \<or> op_type = TK_MINUS then
             bindE (eval cf ts (op + 1) q s) (\<lambda>(v, s1).
               if op_type = TK_DEREF then paddr_read cf v 4 s1 else Inr (- v, s1))
           else
             bindE (eval cf ts p (op - 1) s) (\<lambda>(v1, s1).
             bindE (eval cf ts (op + 1) q s1) (\<lambda>(v2, s2).
             bindE (binop_value op_type v1 v2) (\<lambda>v. Inr (v, s2)))))"
  by pat_completeness auto
termination
proof (relation "measure (\<lambda>(cf, ts, p, q, s). nat (q - p + 1))", goal_cases)
  case (2 cf ts p q s)
  then show ?case by simp
next
  case (3 cf ts p q s op0 op ty)
  with find_main_operator_range [of ts p q] show ?case by (auto split: if_splits)
next
  case (4 cf ts p q s op0 op ty)
  with find_main_operator_range [of ts p q] show ?case by (auto split: if_splits)
next
  case (5 cf ts p q s op0 op ty)
  with find_main_operator_range [of ts p q] show ?case by (auto split: if_splits)
qed simp

declare eval.simps [simp del]

text \<open>
  A star or a minus at the start, or after a binary operator, becomes a dereference or a sign; the
  last token is never looked at.
\<close>

definition mark_unary :: "nat \<Rightarrow> token list \<Rightarrow> token list" where
  "mark_unary i ts =
     (let prev = (i = 0 \<or> is_binocular_operator (tk_type (ts ! (i - 1))));
          ts1 = (if tk_type (ts ! i) = TK_MUL \<and> prev then ts[i := (ts ! i)\<lparr>tk_type := TK_DEREF\<rparr>] else ts)
      in (if tk_type (ts1 ! i) = TK_SUB \<and> prev then ts1[i := (ts1 ! i)\<lparr>tk_type := TK_MINUS\<rparr>] else ts1))"

definition expr :: "config \<Rightarrow> string \<Rightarrow> nemu \<Rightarrow> (u32 \<times> bool \<times> nemu) res" where
  "expr cf e s =
     bindE (make_token e s) (\<lambda>(ok, s1).
       if \<not> ok then Inr (0, False, s1)
       else
         let ts = fold mark_unary [0..<nr_token s1 - 1] (tokens s1); s2 = s1\<lparr>tokens := ts\<rparr>
         in bindE (eval cf ts 0 (int (nr_token s1) - 1) s2) (\<lambda>(v, s3). Inr (v, True, s3)))"

end
