(* ===== verification/Nemu_Expr_Props.thy ===== *)
theory Nemu_Expr_Props
  imports Nemu_Expr
begin

text \<open>
  Correctness of the evaluator on fully parenthesised expressions: the value of their token sequence
  is the value of the expression tree, effects and errors included, whatever the precedences.
\<close>

section \<open>Expression trees and their tokens\<close>

datatype ex = Atom token | Neg ex | Deref ex | Bin tok_type ex ex

definition paren :: "tok_type \<Rightarrow> token" where
  "paren ty = \<lparr>tk_type = ty, tk_str = []\<rparr>"

text \<open>Binary operations carry their parentheses; operands of unary operators are atoms or binary.\<close>

fun render :: "ex \<Rightarrow> token list" where
  "render (Atom t) = [t]"
| "render (Neg e) = paren TK_MINUS # render e"
| "render (Deref e) = paren TK_DEREF # render e"
| "render (Bin ty a b) = paren TK_LPAREN # render a @ paren ty # render b @ [paren TK_RPAREN]"

definition operand_type :: "tok_type \<Rightarrow> bool" where
  "operand_type ty = (\<not> is_binocular_operator ty \<and>
     ty \<notin> {TK_LPAREN, TK_RPAREN, TK_MINUS, TK_DEREF})"

fun wf_ex :: "ex \<Rightarrow> bool" where
  "wf_ex (Atom t) = operand_type (tk_type t)"
| "wf_ex (Neg e) = wf_ex e"
| "wf_ex (Deref e) = wf_ex e"
| "wf_ex (Bin ty a b) = (is_binocular_operator ty \<and> wf_ex a \<and> wf_ex b)"

fun denote :: "config \<Rightarrow> ex \<Rightarrow> nemu \<Rightarrow> (u32 \<times> nemu) res" where
  "denote cf (Atom t) s = bindE (eval_token t s) (\<lambda>v. Inr (v, s))"
| "denote cf (Neg e) s = bindE (denote cf e s) (\<lambda>(v, s1). Inr (- v, s1))"
| "denote cf (Deref e) s = bindE (denote cf e s) (\<lambda>(v, s1). paddr_read cf v 4 s1)"
| "denote cf (Bin ty a b) s =
     bindE (denote cf a s) (\<lambda>(v1, s1). bindE (denote cf b s1) (\<lambda>(v2, s2).
     bindE (binop_value ty v1 v2) (\<lambda>v. Inr (v, s2))))"

section \<open>Segments of the token buffer\<close>

fun seg :: "token list \<Rightarrow> int \<Rightarrow> token list \<Rightarrow> bool" where
  "seg ts p [] = (0 \<le> p)"
| "seg ts p (x # xs) = (0 \<le> p \<and> ttype ts p = tk_type x \<and>
     (operand_type (tk_type x) \<longrightarrow> ts ! nat p = x) \<and> seg ts (p + 1) xs)"

lemma seg_append: "seg ts p (xs @ ys) \<longleftrightarrow> seg ts p xs \<and> seg ts (p + int (length xs)) ys"
proof (induction xs arbitrary: p)
  case Nil
  then show ?case by (cases ys) auto
qed (auto simp: add.assoc add.commute [of 1])

lemma seg_self: "seg (ys @ xs) (int (length ys)) xs"
proof (induction xs arbitrary: ys)
  case (Cons x xs)
  from Cons.IH [of "ys @ [x]"] show ?case by (simp add: ttype_def nth_append add.commute)
qed simp

lemma render_nonempty [simp]: "render e \<noteq> []"
  by (cases e) auto

lemma length_render_pos: "0 < length (render e)"
  by (simp add: length_greater_0_conv)

section \<open>Scanning a rendered expression\<close>

definition depth_step :: "int \<Rightarrow> tok_type \<Rightarrow> int" where
  "depth_step par ty = (if ty = TK_LPAREN then par + 1 else if ty = TK_RPAREN then par - 1 else par)"

lemma check_parens_loop_Cons:
  assumes "i < q" "ttype ts p = TK_LPAREN" "ttype ts q = TK_RPAREN" "0 \<le> par"
  shows "check_parens_loop ts p q i par = check_parens_loop ts p q (i + 1) (depth_step par (ttype ts i))"
  using assms by (subst check_parens_loop.simps) (auto simp: depth_step_def)

text \<open>A whole expression is passed without the depth changing or going below where it started.\<close>

lemma check_parens_loop_render:
  assumes "wf_ex e" "seg ts i (render e)" "i + int (length (render e)) \<le> q"
    "ttype ts p = TK_LPAREN" "ttype ts q = TK_RPAREN" "0 \<le> par"
  shows "check_parens_loop ts p q i par = check_parens_loop ts p q (i + int (length (render e))) par"
  using assms
proof (induction e arbitrary: i par)
  case (Atom t)
  then show ?case
    using check_parens_loop_Cons [of i q ts p par]
    by (auto simp: operand_type_def depth_step_def)
next
  case (Neg e)
  then show ?case
    using check_parens_loop_Cons [of i q ts p par] Neg.IH [of "i + 1" par] length_render_pos [of e]
    by (auto simp: paren_def depth_step_def algebra_simps)
next
  case (Deref e)
  then show ?case
    using check_parens_loop_Cons [of i q ts p par] Deref.IH [of "i + 1" par] length_render_pos [of e]
    by (auto simp: paren_def depth_step_def algebra_simps)
next
  case (Bin ty a b)
  let ?la = "int (length (render a))" and ?lb = "int (length (render b))"
  note c = check_parens_loop_Cons [where ts = ts and p = p and q = q]
  from Bin.prems have sa: "seg ts (i + 1) (render a)" and sb: "seg ts (i + 2 + ?la) (render b)"
    and t: "ttype ts i = TK_LPAREN" "ttype ts (i + 1 + ?la) = ty"
      "ttype ts (i + 2 + ?la + ?lb) = TK_RPAREN" "is_binocular_operator ty"
    and q: "i + 3 + ?la + ?lb \<le> q"
    by (auto simp: seg_append paren_def algebra_simps)
  have "check_parens_loop ts p q i par = check_parens_loop ts p q (i + 1) (par + 1)"
    using c [of i par] Bin.prems t q by (simp add: depth_step_def)
  also have "\<dots> = check_parens_loop ts p q (i + 1 + ?la) (par + 1)"
    using Bin.IH(1) [of "i + 1" "par + 1"] Bin.prems sa q by simp
  also have "\<dots> = check_parens_loop ts p q (i + 2 + ?la) (par + 1)"
    using c [of "i + 1 + ?la" "par + 1"] Bin.prems t q
    by (auto simp: depth_step_def is_binocular_operator_def algebra_simps)
  also have "\<dots> = check_parens_loop ts p q (i + 2 + ?la + ?lb) (par + 1)"
    using Bin.IH(2) [of "i + 2 + ?la" "par + 1"] Bin.prems sb q by simp
  also have "\<dots> = check_parens_loop ts p q (i + 3 + ?la + ?lb) par"
    using c [of "i + 2 + ?la + ?lb" "par + 1"] Bin.prems t q
    by (simp add: depth_step_def algebra_simps)
  finally show ?case by (simp add: algebra_simps)
qed

lemma main_op_loop_skip:
  assumes "i \<le> q" "par \<noteq> 0 \<or> \<not> is_binocular_operator (ttype ts i)"
  shows "main_op_loop ts q i m mx par = main_op_loop ts q (i + 1) m mx (depth_step par (ttype ts i))"
  using assms by (subst main_op_loop.simps) (auto simp: depth_step_def Let_def)

lemma not_binocular [simp]:
  "\<not> is_binocular_operator TK_LPAREN" "\<not> is_binocular_operator TK_RPAREN"
  "\<not> is_binocular_operator TK_MINUS" "\<not> is_binocular_operator TK_DEREF"
  by (simp_all add: is_binocular_operator_def)

lemma main_op_loop_render:
  assumes "wf_ex e" "seg ts i (render e)" "i + int (length (render e)) \<le> q + 1" "0 \<le> par"
  shows "main_op_loop ts q i m mx par = main_op_loop ts q (i + int (length (render e))) m mx par"
  using assms
proof (induction e arbitrary: i par)
  case (Atom t)
  then show ?case
    using main_op_loop_skip [of i q par ts m mx] by (auto simp: operand_type_def depth_step_def)
next
  case (Neg e)
  then show ?case
    using main_op_loop_skip [of i q par ts m mx] Neg.IH [of "i + 1" par] length_render_pos [of e]
    by (auto simp: paren_def depth_step_def algebra_simps)
next
  case (Deref e)
  then show ?case
    using main_op_loop_skip [of i q par ts m mx] Deref.IH [of "i + 1" par] length_render_pos [of e]
    by (auto simp: paren_def depth_step_def algebra_simps)
next
  case (Bin ty a b)
  let ?la = "int (length (render a))" and ?lb = "int (length (render b))"
  note c = main_op_loop_skip [where ts = ts and q = q and m = m and mx = mx]
  from Bin.prems have sa: "seg ts (i + 1) (render a)" and sb: "seg ts (i + 2 + ?la) (render b)"
    and t: "ttype ts i = TK_LPAREN" "ttype ts (i + 1 + ?la) = ty"
      "ttype ts (i + 2 + ?la + ?lb) = TK_RPAREN" "is_binocular_operator ty"
    and q: "i + 3 + ?la + ?lb \<le> q + 1"
    by (auto simp: seg_append paren_def algebra_simps)
  have "main_op_loop ts q i m mx par = main_op_loop ts q (i + 1) m mx (par + 1)"
    using c [of i par] Bin.prems t q by (simp add: depth_step_def)
  also have "\<dots> = main_op_loop ts q (i + 1 + ?la) m mx (par + 1)"
    using Bin.IH(1) [of "i + 1" "par + 1"] Bin.prems sa q by simp
  also have "\<dots> = main_op_loop ts q (i + 2 + ?la) m mx (par + 1)"
    using c [of "i + 1 + ?la" "par + 1"] Bin.prems t q
    by (auto simp: depth_step_def is_binocular_operator_def algebra_simps)
  also have "\<dots> = main_op_loop ts q (i + 2 + ?la + ?lb) m mx (par + 1)"
    using Bin.IH(2) [of "i + 2 + ?la" "par + 1"] Bin.prems sb q by simp
  also have "\<dots> = main_op_loop ts q (i + 3 + ?la + ?lb) m mx par"
    using c [of "i + 2 + ?la + ?lb" "par + 1"] Bin.prems t q
    by (simp add: depth_step_def algebra_simps)
  finally show ?case by (simp add: algebra_simps)
qed

text \<open>In \<open>a op b\<close> the only operator outside parentheses is \<open>op\<close>; no pair of parentheses encloses it.\<close>

lemma find_main_operator_binary:
  assumes "wf_ex a" "wf_ex b" "is_binocular_operator ty"
    and s: "seg ts p (render a @ paren ty # render b)" and p: "0 \<le> p"
  shows "find_main_operator ts p (p + int (length (render a)) + int (length (render b))) =
    p + int (length (render a))"
proof -
  let ?la = "int (length (render a))" and ?lb = "int (length (render b))"
  let ?q = "p + ?la + ?lb"
  from s have sa: "seg ts p (render a)" and sb: "seg ts (p + ?la + 1) (render b)"
    and t: "ttype ts (p + ?la) = ty" by (auto simp: seg_append paren_def)
  have "main_op_loop ts ?q p 0 0 0 = main_op_loop ts ?q (p + ?la) 0 0 0"
    using main_op_loop_render [OF assms(1) sa, of ?q 0 0 0] by simp
  also have "\<dots> = main_op_loop ts ?q (p + ?la + 1) (p + ?la) (operator_priority ty) 0"
    using assms(3) t length_render_pos [of b]
    by (subst main_op_loop.simps) (auto simp: Let_def operator_priority_def is_binocular_operator_def)
  also have "\<dots> = main_op_loop ts ?q (p + ?la + 1 + ?lb) (p + ?la) (operator_priority ty) 0"
    using main_op_loop_render [OF assms(2) sb, of ?q 0] by simp
  also have "\<dots> = p + ?la"
    by (subst main_op_loop.simps) simp
  finally show ?thesis by (simp add: find_main_operator_def)
qed

lemma check_parentheses_binary:
  assumes "wf_ex a" "wf_ex b" "is_binocular_operator ty"
    and s: "seg ts p (render a @ paren ty # render b)" and p: "0 \<le> p"
  shows "\<not> check_parentheses ts p (p + int (length (render a)) + int (length (render b)))"
proof (cases "ttype ts p = TK_LPAREN \<and> ttype ts (p + int (length (render a)) + int (length (render b))) = TK_RPAREN")
  case False
  have "1 < int (length (render a)) + int (length (render b))"
    using length_render_pos [of a] length_render_pos [of b] by linarith
  with False show ?thesis
    by (auto simp: check_parentheses_def check_parens_loop.simps)
next
  case True
  let ?la = "int (length (render a))" and ?q = "p + int (length (render a)) + int (length (render b))"
  have "\<exists>ty' l r. a = Bin ty' l r"
    using True s assms(1) by (cases a) (auto simp: operand_type_def paren_def)
  then obtain ty' l r where a: "a = Bin ty' l r" by blast
  let ?ll = "int (length (render l))" and ?lr = "int (length (render r))"
  note c = check_parens_loop_Cons [where ts = ts and p = p and q = ?q, OF _ conjunct1 [OF True] conjunct2 [OF True]]
  from s a have sl: "seg ts (p + 1) (render l)" and sr: "seg ts (p + 2 + ?ll) (render r)"
    and t: "ttype ts (p + 1 + ?ll) = ty'" "ttype ts (p + 2 + ?ll + ?lr) = TK_RPAREN"
    by (auto simp: seg_append paren_def algebra_simps)
  from a assms(1) have w: "wf_ex l" "wf_ex r" "is_binocular_operator ty'" by auto
  have la: "?la = ?ll + ?lr + 3" using a by simp
  note pos = length_render_pos [of b] length_render_pos [of l] length_render_pos [of r]
  have "check_parens_loop ts p ?q (p + 1) 0 = check_parens_loop ts p ?q (p + 1 + ?ll) 0"
    using check_parens_loop_render [OF w(1) sl, of ?q p 0] True la by simp
  also have "\<dots> = check_parens_loop ts p ?q (p + 2 + ?ll) 0"
    using c [of "p + 1 + ?ll" 0] t w(3) la pos
    by (auto simp: depth_step_def is_binocular_operator_def algebra_simps)
  also have "\<dots> = check_parens_loop ts p ?q (p + 2 + ?ll + ?lr) 0"
    using check_parens_loop_render [OF w(2) sr, of ?q p 0] True la by simp
  also have "\<dots> = check_parens_loop ts p ?q (p + 3 + ?ll + ?lr) (- 1)"
    using c [of "p + 2 + ?ll + ?lr" 0] t la pos by (simp add: depth_step_def algebra_simps)
  also have "\<dots> = False"
    using True la pos by (subst check_parens_loop.simps) auto
  finally show ?thesis using la pos by (simp add: check_parentheses_def)
qed

lemma check_parentheses_paren:
  assumes "wf_ex (Bin ty a b)" and s: "seg ts p (render (Bin ty a b))"
  shows "check_parentheses ts p (p + int (length (render (Bin ty a b))) - 1)"
proof -
  let ?la = "int (length (render a))" and ?lb = "int (length (render b))" and ?q = "p + int (length (render (Bin ty a b))) - 1"
  from s have sa: "seg ts (p + 1) (render a)" and sb: "seg ts (p + 2 + ?la) (render b)"
    and t: "ttype ts p = TK_LPAREN" "ttype ts (p + 1 + ?la) = ty" "ttype ts ?q = TK_RPAREN"
    by (auto simp: seg_append paren_def algebra_simps)
  note c = check_parens_loop_Cons [where ts = ts and p = p and q = ?q, OF _ t(1) t(3)]
  have "check_parens_loop ts p ?q (p + 1) 0 = check_parens_loop ts p ?q (p + 1 + ?la) 0"
    using check_parens_loop_render [OF _ sa, of ?q p 0] assms(1) t by simp
  also have "\<dots> = check_parens_loop ts p ?q (p + 2 + ?la) 0"
    using c [of "p + 1 + ?la" 0] t(2) assms(1)
    by (auto simp: depth_step_def is_binocular_operator_def algebra_simps)
  also have "\<dots> = check_parens_loop ts p ?q (p + 2 + ?la + ?lb) 0"
    using check_parens_loop_render [OF _ sb, of ?q p 0] assms(1) t by simp
  also have "\<dots> = True"
    by (subst check_parens_loop.simps) simp
  finally show ?thesis using length_render_pos [of a] by (simp add: check_parentheses_def)
qed

lemma not_check_parentheses:
  assumes "ttype ts p \<noteq> TK_LPAREN" and "p < q"
  shows "\<not> check_parentheses ts p q"
  using assms by (auto simp: check_parentheses_def check_parens_loop.simps)

section \<open>Evaluating a rendered expression\<close>

lemma eval_unary:
  assumes "wf_ex e" and "ttype ts p = ty" and "ty = TK_MINUS \<or> ty = TK_DEREF"
    and s: "seg ts (p + 1) (render e)" and p: "0 \<le> p"
  shows "eval cf ts p (p + int (length (render e))) s =
    bindE (eval cf ts (p + 1) (p + int (length (render e))) s) (\<lambda>(v, s1).
      if ty = TK_DEREF then paddr_read cf v 4 s1 else Inr (- v, s1))"
proof -
  let ?q = "p + int (length (render e))"
  have lt: "p < ?q" using length_render_pos [of e] by simp
  have np: "\<not> check_parentheses ts p ?q"
    by (rule not_check_parentheses [OF _ lt]) (use assms in auto)
  have "main_op_loop ts ?q p 0 0 0 = main_op_loop ts ?q (p + 1) 0 0 0"
    using main_op_loop_skip [of p ?q 0 ts 0 0] assms lt by (auto simp: depth_step_def)
  also have "\<dots> = main_op_loop ts ?q (?q + 1) 0 0 0"
    using main_op_loop_render [OF assms(1) s, of ?q 0 0 0] by (simp add: algebra_simps)
  also have "\<dots> = 0" by (subst main_op_loop.simps) simp
  finally have "find_main_operator ts p ?q = 0" by (simp add: find_main_operator_def)
  with np lt assms show ?thesis by (subst eval.simps) (auto simp: Let_def)
qed

lemma eval_operator:
  assumes "p < q" "\<not> check_parentheses ts p q" "find_main_operator ts p q = op" "op \<noteq> 0"
    "is_binocular_operator (ttype ts op)"
  shows "eval cf ts p q s = bindE (eval cf ts p (op - 1) s) (\<lambda>(v1, s1).
    bindE (eval cf ts (op + 1) q s1) (\<lambda>(v2, s2). bindE (binop_value (ttype ts op) v1 v2) (\<lambda>v. Inr (v, s2))))"
proof -
  have "ttype ts op \<noteq> TK_DEREF" "ttype ts op \<noteq> TK_MINUS"
    using assms(5) by (auto simp: is_binocular_operator_def)
  with assms(1-4) show ?thesis by (subst eval.simps) (simp add: Let_def)
qed

lemma eval_binary:
  assumes "wf_ex a" "wf_ex b" "is_binocular_operator ty"
    and s: "seg ts p (render a @ paren ty # render b)" and p: "0 \<le> p"
  shows "eval cf ts p (p + int (length (render a)) + int (length (render b))) s =
    bindE (eval cf ts p (p + int (length (render a)) - 1) s) (\<lambda>(v1, s1).
    bindE (eval cf ts (p + int (length (render a)) + 1) (p + int (length (render a)) + int (length (render b))) s1)
      (\<lambda>(v2, s2). bindE (binop_value ty v1 v2) (\<lambda>v. Inr (v, s2))))"
proof -
  have "ttype ts (p + int (length (render a))) = ty"
    using s by (auto simp: seg_append paren_def)
  moreover have "p < p + int (length (render a)) + int (length (render b))" "p + int (length (render a)) \<noteq> 0"
    using length_render_pos [of a] length_render_pos [of b] p by linarith+
  ultimately show ?thesis
    using eval_operator [OF _ check_parentheses_binary [OF assms] find_main_operator_binary [OF assms], of cf s]
      assms(3) by (simp only: simp_thms)
qed

lemma eval_render:
  "wf_ex e \<Longrightarrow> seg ts p (render e) \<Longrightarrow> 0 \<le> p \<Longrightarrow>
   eval cf ts p (p + int (length (render e)) - 1) s = denote cf e s"
proof (induction e arbitrary: p s)
  case (Atom t)
  then show ?case by (simp add: eval.simps)
next
  case (Neg e)
  then show ?case
    using eval_unary [of e ts p TK_MINUS cf s] Neg.IH [of "p + 1" s] by (simp add: paren_def)
next
  case (Deref e)
  then show ?case
    using eval_unary [of e ts p TK_DEREF cf s] Deref.IH [of "p + 1" s] by (simp add: paren_def)
next
  case (Bin ty a b)
  let ?la = "int (length (render a))" and ?lb = "int (length (render b))"
  from Bin.prems have s1: "seg ts (p + 1) (render a @ paren ty # render b)"
    and sa: "seg ts (p + 1) (render a)" and sb: "seg ts (p + 2 + ?la) (render b)"
    and w: "wf_ex a" "wf_ex b" "is_binocular_operator ty"
    by (auto simp: seg_append paren_def algebra_simps)
  have "eval cf ts p (p + int (length (render (Bin ty a b))) - 1) s =
      eval cf ts (p + 1) (p + 1 + ?la + ?lb) s"
    using check_parentheses_paren [OF Bin.prems(1,2)] by (subst eval.simps) (simp add: algebra_simps)
  also have "\<dots> = denote cf (Bin ty a b) s"
    using eval_binary [OF w s1, of cf s] Bin.IH(1) [OF w(1) sa] Bin.IH(2) [OF w(2) sb] Bin.prems(3)
    by (simp add: algebra_simps)
  finally show ?case .
qed

text \<open>C20: on the tokens of a fully parenthesised expression, with signs and dereferences, evaluation
  returns the value of the expression and its effects on the machine, and fails exactly when an
  operand, a division or a memory access of the expression fails.\<close>

theorem eval_parenthesised:
  assumes "wf_ex e"
  shows "eval cf (render e @ ts) 0 (int (length (render e)) - 1) s = denote cf e s"
proof -
  have "seg (render e @ ts) 0 (render e)"
    using seg_self [of "[]" "render e @ ts"] by (simp add: seg_append)
  from eval_render [OF assms this, of cf s] show ?thesis by simp
qed

definition number_token :: "string \<Rightarrow> token" where
  "number_token ds = \<lparr>tk_type = TK_NUMBER, tk_str = ds @ replicate (64 - length ds) (CHR 0x00)\<rparr>"

theorem eval_parenthesised_witness:
  "eval default_config (render (Bin TK_MUL (Bin TK_ADD (Atom (number_token ''1'')) (Atom (number_token ''2'')))
     (Neg (Atom (number_token ''3'')))) @ []) 0 9 blank_nemu = Inr (- 9, blank_nemu)"
  using eval_parenthesised [of "Bin TK_MUL (Bin TK_ADD (Atom (number_token ''1'')) (Atom (number_token ''2'')))
     (Neg (Atom (number_token ''3'')))" default_config "[]" blank_nemu]
  by (simp add: number_token_def operand_type_def is_binocular_operator_def eval_token_def atoi_str_def
      c_string_def is_digit_char_def rx_range_def number_value_def digit_value_def binop_value_def)

text \<open>
  What the evaluator does without parentheses: comparisons bind tighter than arithmetic, divisions
  group to the right, and a sign after an opening parenthesis is not recognised.
\<close>

lemma comparison_binds_tighter:
  fixes ts :: "token list"
  assumes ts: "ts = [number_token ''1'', paren TK_ADD, number_token ''2'', paren TK_EQ, number_token ''3'']"
  shows "eval default_config ts 0 4 s = Inr (1, s)"
proof -
  have ty: "ttype ts 0 = TK_NUMBER" "ttype ts 1 = TK_ADD" "ttype ts 2 = TK_NUMBER" "ttype ts 3 = TK_EQ"
    "ttype ts 4 = TK_NUMBER"
    by (simp_all add: ts ttype_def number_token_def paren_def)
  have f: "find_main_operator ts 0 4 = 1" "find_main_operator ts 2 4 = 3"
    by (simp_all add: find_main_operator_def main_op_loop.simps ty is_binocular_operator_def operator_priority_def)
  have e: "eval default_config ts p p s = Inr (atoi_str (tk_str (ts ! nat p)), s)"
    if "p = 0 \<or> p = 2 \<or> p = 4" for p s
    using that by (auto simp: eval.simps eval_token_def ts number_token_def)
  have v: "atoi_str (tk_str (ts ! 0)) = 1" "atoi_str (tk_str (ts ! 2)) = 2" "atoi_str (tk_str (ts ! 4)) = 3"
    by (simp_all add: ts number_token_def atoi_str_def c_string_def is_digit_char_def rx_range_def
        number_value_def digit_value_def)
  have "eval default_config ts 2 4 s = Inr (0, s)" for s
    using eval_operator [of 2 4 ts 3 default_config s] not_check_parentheses [of ts 2 4] e [of 2] e [of 4] f v ty
    by (simp add: is_binocular_operator_def binop_value_def)
  then show ?thesis
    using eval_operator [of 0 4 ts 1 default_config s] not_check_parentheses [of ts 0 4] e [of 0] f v ty
    by (simp add: is_binocular_operator_def binop_value_def)
qed

text \<open>The second expression of a session sees the rest of the first one's text.\<close>

lemma token_text_is_stale:
  "c_string (tk_str (tokens (match_success ''7'' TK_NUMBER
     ((match_success ''12345'' TK_NUMBER blank_nemu)\<lparr>nr_token := 0\<rparr>)) ! 0)) = ''72345''"
  by (simp add: match_success_def Let_def blank_nemu_def c_string_def)

end
