(* ===== verification/Nemu_Watchpoint.thy ===== *)
theory Nemu_Watchpoint
  imports Nemu_Expr_Props
begin

text \<open>
  The watchpoint pool of \<^verbatim>\<open>nemu/src/monitor/sdb/watchpoint.c\<close>: an array of \<^verbatim>\<open>NR_WP\<close> nodes threaded by
  two singly linked lists, the watchpoints in use and the free ones. The main results: the two lists
  always partition the array, and the operations are those of a stack of watchpoints.
\<close>

section \<open>Operations\<close>

definition NR_WP :: nat where
  "NR_WP = 32"

definition wp_upd :: "nat \<Rightarrow> (wp \<Rightarrow> wp) \<Rightarrow> nemu \<Rightarrow> nemu" where
  "wp_upd i f s = s\<lparr>wp_pool := (wp_pool s)[i := f (wp_pool s ! i)]\<rparr>"

definition init_wp_pool :: "nemu \<Rightarrow> nemu" where
  "init_wp_pool s = s\<lparr>wp_pool := map (\<lambda>i. (wp_pool s ! i)\<lparr>wp_NO := i,
       wp_next := (if i = NR_WP - 1 then None else Some (i + 1)), wp_used := False\<rparr>) [0..<NR_WP],
     wp_head := None, wp_free := Some 0\<rparr>"

text \<open>
  \<^verbatim>\<open>new_wp\<close> compares the pointer \<^verbatim>\<open>expr_success\<close> with \<^verbatim>\<open>false\<close>, which it never is, so an illegal
  expression is accepted. The node is taken off the free list and not yet linked.
\<close>

definition new_wp :: "config \<Rightarrow> string \<Rightarrow> nemu \<Rightarrow> (nat option \<times> bool \<times> nemu) res" where
  "new_wp cf args s =
     bindE (expr cf args s) (\<lambda>(v0, ok0, s1).
       case wp_free s1 of
         None \<Rightarrow> Inr (None, ok0, s1)
       | Some p \<Rightarrow>
           bindE (expr cf args s1) (\<lambda>(v, ok, s2).
             let s3 = wp_upd p (\<lambda>w. w\<lparr>wp_num := v\<rparr>) s2;
                 s4 = s3\<lparr>wp_free := wp_next (wp_pool s3 ! p)\<rparr>
             in Inr (Some p, ok, wp_upd p (\<lambda>w. w\<lparr>wp_exprs := args, wp_used := True\<rparr>) s4)))"

definition add_wp :: "config \<Rightarrow> string \<Rightarrow> nemu \<Rightarrow> (int \<times> nemu) res" where
  "add_wp cf args s =
     bindE (new_wp cf args s) (\<lambda>(p, ok, s1).
       case p of
         None \<Rightarrow> Inr (0, s1)
       | Some i \<Rightarrow> Inr (1, wp_upd i (\<lambda>w. w\<lparr>wp_next := wp_head s1\<rparr>) (s1\<lparr>wp_head := Some i\<rparr>)))"

text \<open>
  \<^verbatim>\<open>free_wp\<close> walks from the head to the predecessor of the node; following a null pointer is a fault,
  and the fuel bounds the walk over a list that may be cyclic.
\<close>

fun find_prev :: "nat \<Rightarrow> wp list \<Rightarrow> nat \<Rightarrow> nat option \<Rightarrow> nat option \<Rightarrow> nat option res" where
  "find_prev 0 pool w pre p = Inl (HostFault ''endless walk'')"
| "find_prev (Suc n) pool w pre p =
     (if p = Some w then Inr pre
      else (case p of
          None \<Rightarrow> Inl (HostFault ''null pointer'')
        | Some i \<Rightarrow> find_prev n pool w p (wp_next (pool ! i))))"

definition free_wp :: "nat \<Rightarrow> nemu \<Rightarrow> nemu res" where
  "free_wp w s =
     bindE (if Some w = wp_head s
            then Inr (s\<lparr>wp_head := wp_next (wp_pool s ! w)\<rparr>)
            else bindE (find_prev (Suc NR_WP) (wp_pool s) w None (wp_head s)) (\<lambda>pre.
              case pre of
                None \<Rightarrow> Inl (HostFault ''null pointer'')
              | Some i \<Rightarrow> Inr (wp_upd i (\<lambda>x. x\<lparr>wp_next := wp_next (wp_pool s ! w)\<rparr>) s)))
       (\<lambda>s1. Inr ((wp_upd w (\<lambda>x. x\<lparr>wp_used := False, wp_next := wp_free s1\<rparr>) s1)\<lparr>wp_free := Some w\<rparr>))"

text \<open>The index is not checked against the size of the pool.\<close>

definition delete_wp :: "int \<Rightarrow> nemu \<Rightarrow> nemu res" where
  "delete_wp no s =
     (if no < 0 \<or> int (length (wp_pool s)) \<le> no then Inl (HostFault ''wp_pool index'')
      else if \<not> wp_used (wp_pool s ! nat no) then Inr s
      else free_wp (nat no) s)"

text \<open>1: nothing changed. At the first change the new value is stored and the walk ends with 0.\<close>

fun check_wp_loop :: "nat \<Rightarrow> config \<Rightarrow> nat option \<Rightarrow> nemu \<Rightarrow> (int \<times> nemu) res" where
  "check_wp_loop n cf None s = Inr (1, s)"
| "check_wp_loop 0 cf (Some i) s = Inl (HostFault ''endless walk'')"
| "check_wp_loop (Suc n) cf (Some i) s =
     bindE (expr cf (wp_exprs (wp_pool s ! i)) s) (\<lambda>(v, ok, s1).
       if wp_num (wp_pool s1 ! i) \<noteq> v
       then Inr (0, wp_upd i (\<lambda>w. w\<lparr>wp_num := v\<rparr>) s1)
       else check_wp_loop n cf (wp_next (wp_pool s1 ! i)) s1)"

definition check_watch_points :: "config \<Rightarrow> nemu \<Rightarrow> (int \<times> nemu) res" where
  "check_watch_points cf s = check_wp_loop (Suc NR_WP) cf (wp_head s) s"

text \<open>What \<^verbatim>\<open>display_wp\<close> prints: number, expression and value of every node from the head on.\<close>

fun display_wp_loop :: "nat \<Rightarrow> wp list \<Rightarrow> nat option \<Rightarrow> (nat \<times> string \<times> u32) list" where
  "display_wp_loop n pool None = []"
| "display_wp_loop 0 pool (Some i) = []"
| "display_wp_loop (Suc n) pool (Some i) =
     (wp_NO (pool ! i), wp_exprs (pool ! i), wp_num (pool ! i)) # display_wp_loop n pool (wp_next (pool ! i))"

definition display_wp :: "nemu \<Rightarrow> (nat \<times> string \<times> u32) list" where
  "display_wp s = display_wp_loop NR_WP (wp_pool s) (wp_head s)"

section \<open>Expressions leave the pool alone\<close>

definition same_wps :: "nemu \<Rightarrow> nemu \<Rightarrow> bool" where
  "same_wps s s' \<longleftrightarrow> wp_pool s' = wp_pool s \<and> wp_head s' = wp_head s \<and> wp_free s' = wp_free s"

lemma same_wps_refl [simp]: "same_wps s s"
  by (simp add: same_wps_def)

lemma same_wps_trans: "same_wps s t \<Longrightarrow> same_wps t u \<Longrightarrow> same_wps s u"
  by (simp add: same_wps_def)

lemma same_regs_eval: "eval cf ts p q s = Inr (v, s') \<Longrightarrow> same_regs s s'"
proof (induction cf ts p q s arbitrary: v s' rule: eval.induct)
  case (1 cf ts p q s)
  show ?case
  proof (cases "p < q \<and> \<not> check_parentheses ts p q")
    case False
    with "1" show ?thesis by (auto simp: eval.simps [of cf ts p q] split: if_splits)
  next
    case True
    let ?op = "if find_main_operator ts p q = 0 then p else find_main_operator ts p q"
    note IH = "1.IH"(2-) [OF _ _ _ refl refl refl]
    show ?thesis
    proof (cases "ttype ts ?op = TK_DEREF \<or> ttype ts ?op = TK_MINUS")
      case ty: True
      with True "1.prems" obtain u s1 where e: "eval cf ts (?op + 1) q s = Inr (u, s1)"
        and r: "(if ttype ts ?op = TK_DEREF then paddr_read cf u 4 s1 else Inr (- u, s1)) = Inr (v, s')"
        by (auto simp: eval.simps [of cf ts p q] Let_def split: if_splits)
      have "same_regs s s1" using IH(1) [OF _ _ _ ty e] True by simp
      moreover have "same_regs s1 s'"
        using r same_regs_paddr_read [of cf u 4 s1 v s'] by (auto split: if_splits)
      ultimately show ?thesis by (rule same_regs_trans)
    next
      case ty: False
      with True "1.prems" obtain a s1 b where e: "eval cf ts p (?op - 1) s = Inr (a, s1)"
        and f: "eval cf ts (?op + 1) q s1 = Inr (b, s')"
        by (auto simp: eval.simps [of cf ts p q] Let_def split: if_splits)
      have "same_regs s s1" using IH(2) [OF _ _ _ ty e] True by simp
      moreover have "same_regs s1 s'" using IH(3) [OF _ _ _ ty f] True by simp
      ultimately show ?thesis by (rule same_regs_trans)
    qed
  qed
qed

lemma same_wps_regs: "same_regs s s' \<Longrightarrow> same_wps s s'"
  by (simp add: same_regs_def same_wps_def)

text \<open>Lexing touches nothing but the token buffer.\<close>

lemma make_token_loop_buffer:
  "make_token_loop cs s = Inr (ok, s') \<Longrightarrow> \<exists>ts n. s' = s\<lparr>tokens := ts, nr_token := n\<rparr>"
proof (induction cs s arbitrary: ok s' rule: make_token_loop.induct)
  case (1 cs s)
  show ?case
  proof (cases "cs = [] \<or> first_rule rules cs = None")
    case True
    with "1.prems" have "s' = s"
      by (auto simp: make_token_loop.simps [of cs s] split: if_splits option.splits)
    then have "s' = s\<lparr>tokens := tokens s, nr_token := nr_token s\<rparr>" by simp
    then show ?thesis by blast
  next
    case False
    then obtain n ty where f: "first_rule rules cs = Some (n, ty)" by auto
    let ?s = "if ty = TK_NOTYPE then s else match_success (take n cs) ty s"
    from False f "1.prems" have r: "make_token_loop (drop n cs) ?s = Inr (ok, s')"
      by (auto simp: make_token_loop.simps [of cs])
    have "cs \<noteq> []" using False by simp
    from "1.IH" [OF this f refl r] obtain ts m where "s' = ?s\<lparr>tokens := ts, nr_token := m\<rparr>" by blast
    then show ?thesis by (auto simp: match_success_def Let_def)
  qed
qed

lemma expr_frame:
  assumes "expr cf e s = Inr (v, ok, s')"
  shows "\<exists>ts n. same_regs (s\<lparr>tokens := ts, nr_token := n\<rparr>) s'"
proof -
  from assms obtain b s1 where m: "make_token_loop e (s\<lparr>nr_token := 0\<rparr>) = Inr (b, s1)"
    and r: "(if \<not> b then Inr (0, False, s1)
       else let ts = fold mark_unary [0..<nr_token s1 - 1] (tokens s1); s2 = s1\<lparr>tokens := ts\<rparr>
         in bindE (eval cf ts 0 (int (nr_token s1) - 1) s2) (\<lambda>(v, s3). Inr (v, True, s3))) = Inr (v, ok, s')"
    unfolding expr_def make_token_def by (auto split: prod.splits)
  from make_token_loop_buffer [OF m] obtain ts n where s1: "s1 = s\<lparr>tokens := ts, nr_token := n\<rparr>" by auto
  from r have "s' = s1 \<or> (\<exists>ts' w. eval cf ts' 0 (int (nr_token s1) - 1) (s1\<lparr>tokens := ts'\<rparr>) = Inr (w, s'))"
    by (auto simp: Let_def split: if_splits)
  then show ?thesis
  proof (elim disjE exE)
    assume "s' = s1"
    then have "same_regs (s\<lparr>tokens := ts, nr_token := n\<rparr>) s'" by (simp add: s1)
    then show ?thesis by blast
  next
    fix ts' w assume "eval cf ts' 0 (int (nr_token s1) - 1) (s1\<lparr>tokens := ts'\<rparr>) = Inr (w, s')"
    moreover have "s1\<lparr>tokens := ts'\<rparr> = s\<lparr>tokens := ts', nr_token := n\<rparr>" by (simp add: s1)
    ultimately have "same_regs (s\<lparr>tokens := ts', nr_token := n\<rparr>) s'" using same_regs_eval by metis
    then show ?thesis by blast
  qed
qed

lemma same_wps_expr: "expr cf e s = Inr (v, ok, s') \<Longrightarrow> same_wps s s'"
  by (drule expr_frame) (auto simp: same_regs_def same_wps_def)

section \<open>The two lists\<close>

fun chain :: "wp list \<Rightarrow> nat option \<Rightarrow> nat list \<Rightarrow> bool" where
  "chain pool p [] = (p = None)"
| "chain pool p (i # is) = (p = Some i \<and> i < length pool \<and> chain pool (wp_next (pool ! i)) is)"

lemma chain_cong:
  assumes "chain pool p xs" and "length pool' = length pool"
    and "\<And>i. i \<in> set xs \<Longrightarrow> wp_next (pool' ! i) = wp_next (pool ! i)"
  shows "chain pool' p xs"
  using assms by (induction xs arbitrary: p) auto

lemma chain_update:
  "chain pool p xs \<Longrightarrow> i \<notin> set xs \<or> wp_next w = wp_next (pool ! i) \<Longrightarrow> chain (pool[i := w]) p xs"
  by (erule chain_cong, simp, cases "i < length pool") (auto simp: nth_list_update list_update_beyond)

lemma chain_lt: "chain pool p xs \<Longrightarrow> i \<in> set xs \<Longrightarrow> i < length pool"
  by (induction xs arbitrary: p) auto

lemma find_prev_chain:
  "chain pool p (xs @ w # ys) \<Longrightarrow> w \<notin> set xs \<Longrightarrow> length xs < n \<Longrightarrow>
   find_prev n pool w pre p = Inr (if xs = [] then pre else Some (last xs))"
proof (induction xs arbitrary: n pre p)
  case Nil
  then show ?case by (cases n) auto
next
  case (Cons x xs)
  then show ?case by (cases n) auto
qed

text \<open>Redirecting the predecessor takes a node out of a list.\<close>

lemma chain_unlink:
  "chain pool p (xs @ w # ys) \<Longrightarrow> distinct (xs @ w # ys) \<Longrightarrow> xs \<noteq> [] \<Longrightarrow>
   chain (pool[last xs := (pool ! last xs)\<lparr>wp_next := wp_next (pool ! w)\<rparr>]) p (xs @ ys)"
proof (induction xs arbitrary: p)
  case (Cons x xs)
  show ?case
  proof (cases "xs = []")
    case True
    with Cons.prems show ?thesis by (auto intro: chain_update)
  next
    case False
    then have "last xs \<in> set xs" by simp
    with False Cons.prems have "x \<noteq> last xs" by auto
    with False Cons.prems Cons.IH [of "wp_next (pool ! x)"] show ?thesis by auto
  qed
qed simp

definition wp_lists :: "nemu \<Rightarrow> nat list \<Rightarrow> nat list \<Rightarrow> bool" where
  "wp_lists s hs fs \<longleftrightarrow> chain (wp_pool s) (wp_head s) hs \<and> chain (wp_pool s) (wp_free s) fs \<and>
     distinct (hs @ fs) \<and> set (hs @ fs) = {..<NR_WP} \<and> length (wp_pool s) = NR_WP \<and>
     (\<forall>i < NR_WP. wp_used (wp_pool s ! i) = (i \<in> set hs) \<and> wp_NO (wp_pool s ! i) = i)"

definition wp_wf :: "nemu \<Rightarrow> bool" where
  "wp_wf s \<longleftrightarrow> (\<exists>hs fs. wp_lists s hs fs)"

lemma wp_lists_same: "wp_lists s hs fs \<Longrightarrow> same_wps s s' \<Longrightarrow> wp_lists s' hs fs"
  by (simp add: wp_lists_def same_wps_def)

lemma length_wp_lists: "wp_lists s hs fs \<Longrightarrow> length hs \<le> NR_WP"
  using distinct_card [of hs] card_mono [of "{..<NR_WP}" "set hs"] by (auto simp: wp_lists_def)

text \<open>What a node shows, and what the list in use shows.\<close>

definition wp_entry :: "nemu \<Rightarrow> nat \<Rightarrow> nat \<times> string \<times> u32" where
  "wp_entry s i = (wp_NO (wp_pool s ! i), wp_exprs (wp_pool s ! i), wp_num (wp_pool s ! i))"

lemma display_chain:
  "chain (wp_pool s) p hs \<Longrightarrow> length hs \<le> n \<Longrightarrow> display_wp_loop n (wp_pool s) p = map (wp_entry s) hs"
proof (induction hs arbitrary: n p)
  case Nil
  then show ?case by (cases n) auto
next
  case (Cons h hs)
  then show ?case by (cases n) (auto simp: wp_entry_def)
qed

lemma display_wp_lists: "wp_lists s hs fs \<Longrightarrow> display_wp s = map (wp_entry s) hs"
  using length_wp_lists by (auto simp: display_wp_def wp_lists_def intro: display_chain)

section \<open>Every operation keeps the lists\<close>

lemma init_wp_pool_lists: "wp_lists (init_wp_pool s) [] [0..<NR_WP]"
proof -
  let ?p = "wp_pool (init_wp_pool s)"
  have len: "length ?p = NR_WP" by (simp add: init_wp_pool_def)
  have nxt: "i < NR_WP \<Longrightarrow> wp_next (?p ! i) = (if i = NR_WP - 1 then None else Some (i + 1))" for i
    by (simp add: init_wp_pool_def)
  have "chain ?p (if k = NR_WP then None else Some k) [k..<NR_WP]" if "k \<le> NR_WP" for k
    using that
  proof (induction "NR_WP - k" arbitrary: k)
    case (Suc n)
    then have "chain ?p (if Suc k = NR_WP then None else Some (Suc k)) [Suc k..<NR_WP]" by simp
    with Suc.hyps Suc.prems nxt [of k] len show ?case by (auto simp: upt_conv_Cons split: if_splits)
  qed simp
  from this [of 0] show ?thesis
    by (auto simp: wp_lists_def init_wp_pool_def NR_WP_def lessThan_atLeast0)
qed

text \<open>Adding takes the first free node, if there is one.\<close>

lemma add_wp_lists:
  assumes "wp_lists s hs fs" and "add_wp cf args s = Inr (r, s')"
  shows "(fs = [] \<and> r = 0 \<and> wp_lists s' hs fs \<and> display_wp s' = display_wp s) \<or>
    (\<exists>f fs' v. fs = f # fs' \<and> r = 1 \<and> wp_lists s' (f # hs) fs' \<and>
      display_wp s' = (f, args, v) # display_wp s)"
proof -
  from assms(2) obtain v0 ok0 s1 where e0: "expr cf args s = Inr (v0, ok0, s1)"
    by (auto simp: add_wp_def new_wp_def)
  have l1: "wp_lists s1 hs fs" using wp_lists_same [OF assms(1) same_wps_expr [OF e0]] .
  show ?thesis
  proof (cases fs)
    case Nil
    with l1 have "wp_free s1 = None" by (auto simp: wp_lists_def)
    with e0 assms(2) have "s' = s1" "r = 0" by (auto simp: add_wp_def new_wp_def)
    with Nil l1 same_wps_expr [OF e0] show ?thesis by (simp add: display_wp_def same_wps_def)
  next
    case (Cons f fs')
    with l1 have fr: "wp_free s1 = Some f" by (auto simp: wp_lists_def)
    with e0 assms(2) obtain v ok s2 where e1: "expr cf args s1 = Inr (v, ok, s2)"
      by (auto simp: add_wp_def new_wp_def)
    have l2: "wp_lists s2 hs (f # fs')" using wp_lists_same [OF l1 same_wps_expr [OF e1]] Cons by simp
    let ?w = "(wp_pool s2 ! f)\<lparr>wp_num := v, wp_exprs := args, wp_used := True, wp_next := wp_head s2\<rparr>"
    have f: "f < length (wp_pool s2)" using l2 by (auto simp: wp_lists_def)
    have "r = 1" and s': "wp_pool s' = (wp_pool s2)[f := ?w]" "wp_head s' = Some f"
      "wp_free s' = wp_next (wp_pool s2 ! f)"
      using assms(2) e0 e1 fr f by (auto simp: add_wp_def new_wp_def wp_upd_def Let_def)
    have l': "wp_lists s' (f # hs) fs'"
      using l2 f unfolding wp_lists_def s' by (auto simp: nth_list_update intro!: chain_update)
    have "wp_entry s' i = wp_entry s i" if "i \<in> set hs" for i
      using that l2 f same_wps_expr [OF e0] same_wps_expr [OF e1]
      by (auto simp: wp_entry_def s' same_wps_def wp_lists_def nth_list_update)
    moreover have "wp_entry s' f = (f, args, v)"
      using f l2 by (simp add: wp_entry_def s' wp_lists_def)
    ultimately have "display_wp s' = (f, args, v) # display_wp s"
      by (simp add: display_wp_lists [OF l'] display_wp_lists [OF assms(1)])
    with Cons \<open>r = 1\<close> l' show ?thesis by blast
  qed
qed

text \<open>Deleting a watchpoint in use moves its node to the front of the free list.\<close>

lemma delete_wp_lists:
  assumes l: "wp_lists s hs fs" and no: "0 \<le> no" "no < int NR_WP"
  shows "\<exists>s'. delete_wp no s = Inr s' \<and>
    wp_lists s' (remove1 (nat no) hs) (if nat no \<in> set hs then nat no # fs else fs) \<and>
    display_wp s' = filter (\<lambda>(n, _, _). n \<noteq> nat no) (display_wp s)"
proof (cases "nat no \<in> set hs")
  case False
  have w: "\<not> wp_used (wp_pool s ! nat no)" and len: "length (wp_pool s) = NR_WP"
    using l no False by (auto simp: wp_lists_def)
  have "filter (\<lambda>(n, _, _). n \<noteq> nat no) (display_wp s) = display_wp s"
    unfolding display_wp_lists [OF l]
    using l False by (auto simp: filter_id_conv wp_entry_def wp_lists_def)
  with w len no False l show ?thesis by (simp add: delete_wp_def remove1_idem)
next
  case True
  let ?w = "nat no"
  from True obtain xs ys where hs: "hs = xs @ ?w # ys" by (meson split_list)
  have c: "chain (wp_pool s) (wp_head s) (xs @ ?w # ys)" and d: "distinct (xs @ ?w # ys)"
    and len: "length (wp_pool s) = NR_WP" and wx: "?w \<notin> set xs" "?w \<notin> set ys"
    using l by (auto simp: wp_lists_def hs)
  have used: "wp_used (wp_pool s ! ?w)" using l True no by (auto simp: wp_lists_def)
  have rem: "remove1 ?w hs = xs @ ys" using wx by (simp add: hs remove1_append)
  obtain s1 where s1: "free_wp ?w s =
      Inr ((wp_upd ?w (\<lambda>x. x\<lparr>wp_used := False, wp_next := wp_free s1\<rparr>) s1)\<lparr>wp_free := Some ?w\<rparr>)"
    and c1: "chain (wp_pool s1) (wp_head s1) (xs @ ys)" and f1: "wp_free s1 = wp_free s"
    and p1: "length (wp_pool s1) = NR_WP"
      "\<And>i. wp_used (wp_pool s1 ! i) = wp_used (wp_pool s ! i)" "\<And>i. wp_entry s1 i = wp_entry s i"
      "\<And>i. i \<in> set fs \<Longrightarrow> wp_next (wp_pool s1 ! i) = wp_next (wp_pool s ! i)"
  proof (cases "xs = []")
    case True
    with c have "free_wp ?w s = Inr ((wp_upd ?w (\<lambda>x. x\<lparr>wp_used := False,
        wp_next := wp_free (s\<lparr>wp_head := wp_next (wp_pool s ! ?w)\<rparr>)\<rparr>) (s\<lparr>wp_head := wp_next (wp_pool s ! ?w)\<rparr>))\<lparr>wp_free := Some ?w\<rparr>)"
      by (simp add: free_wp_def)
    then show ?thesis by (rule that) (use True c len in \<open>auto simp: wp_entry_def\<close>)
  next
    case False
    let ?s = "wp_upd (last xs) (\<lambda>x. x\<lparr>wp_next := wp_next (wp_pool s ! ?w)\<rparr>) s"
    have lx: "last xs \<in> set xs" using False by simp
    then have lt: "last xs < length (wp_pool s)" and nf: "last xs \<notin> set fs"
      using chain_lt [OF c] l by (auto simp: wp_lists_def hs)
    have "wp_head s \<noteq> Some ?w" using c False wx by (cases xs) auto
    moreover have "find_prev (Suc NR_WP) (wp_pool s) ?w None (wp_head s) = Inr (Some (last xs))"
      using find_prev_chain [OF c wx(1), of "Suc NR_WP" None] length_wp_lists [OF l] False by (simp add: hs)
    ultimately have "free_wp ?w s =
        Inr ((wp_upd ?w (\<lambda>x. x\<lparr>wp_used := False, wp_next := wp_free ?s\<rparr>) ?s)\<lparr>wp_free := Some ?w\<rparr>)"
      by (simp add: free_wp_def)
    then show ?thesis
      by (rule that)
        (use chain_unlink [OF c d False] lt nf len in \<open>auto simp: wp_upd_def wp_entry_def nth_list_update\<close>)
  qed
  let ?s' = "(wp_upd ?w (\<lambda>x. x\<lparr>wp_used := False, wp_next := wp_free s1\<rparr>) s1)\<lparr>wp_free := Some ?w\<rparr>"
  have del: "delete_wp no s = Inr ?s'" using no len used s1 by (simp add: delete_wp_def)
  have wl: "?w < NR_WP" using no by simp
  have cf: "chain (wp_pool s1) (wp_free s) fs"
    by (rule chain_cong [of "wp_pool s"]) (use l p1 len in \<open>auto simp: wp_lists_def\<close>)
  have l': "wp_lists ?s' (xs @ ys) (?w # fs)"
    unfolding wp_lists_def
  proof (intro conjI)
    show "chain (wp_pool ?s') (wp_head ?s') (xs @ ys)"
      using c1 wx by (auto simp: wp_upd_def intro: chain_update)
    show "chain (wp_pool ?s') (wp_free ?s') (?w # fs)"
      using cf wl p1(1) l True f1 by (auto simp: wp_upd_def wp_lists_def intro!: chain_update)
    show "distinct ((xs @ ys) @ ?w # fs)" "set ((xs @ ys) @ ?w # fs) = {..<NR_WP}"
      using l by (auto simp: wp_lists_def hs)
    show "length (wp_pool ?s') = NR_WP" using p1 by (simp add: wp_upd_def)
    show "\<forall>i<NR_WP. wp_used (wp_pool ?s' ! i) = (i \<in> set (xs @ ys)) \<and> wp_NO (wp_pool ?s' ! i) = i"
      using l p1 wl wx by (auto simp: wp_upd_def wp_lists_def hs wp_entry_def nth_list_update)
  qed
  have ent: "wp_entry ?s' i = wp_entry s i" for i
    using p1(1,3) wl by (auto simp: wp_upd_def wp_entry_def nth_list_update split: if_splits)
  have no: "\<And>i. i < NR_WP \<Longrightarrow> fst (wp_entry s i) = i" using l by (simp add: wp_lists_def wp_entry_def)
  have "display_wp ?s' = filter (\<lambda>(n, _, _). n \<noteq> ?w) (display_wp s)"
  proof -
    have "filter (\<lambda>(n, _, _). n \<noteq> ?w) (map (wp_entry s) zs) = map (wp_entry s) zs"
      if "?w \<notin> set zs" "set zs \<subseteq> {..<NR_WP}" for zs
      using that no by (auto simp: filter_id_conv) (metis fst_conv lessThan_iff subsetD)
    moreover have "set xs \<subseteq> {..<NR_WP}" "set ys \<subseteq> {..<NR_WP}" using l by (auto simp: wp_lists_def hs)
    ultimately show ?thesis
      unfolding display_wp_lists [OF l'] display_wp_lists [OF l] using wx no [OF wl]
      by (auto simp: ent hs)
  qed
  with del l' rem True show ?thesis by auto
qed

section \<open>Checking\<close>

lemma display_same_wps: "same_wps s s' \<Longrightarrow> display_wp s' = display_wp s"
  by (simp add: display_wp_def same_wps_def)

lemma wp_lists_set_num:
  assumes "wp_lists s hs fs"
  shows "wp_lists (wp_upd i (\<lambda>w. w\<lparr>wp_num := v\<rparr>) s) hs fs"
  using assms by (auto simp: wp_lists_def wp_upd_def nth_list_update_if intro!: chain_update)

text \<open>The outcome of a check of the entries \<open>es\<close>: nothing changed, one value replaced, or a failed
  expression.\<close>

definition check_outcome :: "config \<Rightarrow> (nat \<times> string \<times> u32) list \<Rightarrow> (int \<times> nemu) res \<Rightarrow> bool" where
  "check_outcome cf es m = (case m of
     Inl e \<Rightarrow> (\<exists>(n, x, v) \<in> set es. \<exists>t. expr cf x t = Inl e)
   | Inr (r, s') \<Rightarrow> (r = 1 \<and> display_wp s' = es) \<or>
       (r = 0 \<and> (\<exists>pre n x v v' post. es = pre @ (n, x, v) # post \<and> v' \<noteq> v \<and>
          display_wp s' = pre @ (n, x, v') # post)))"

lemma check_wp_loop_outcome:
  "wp_lists s (xs @ ys) fs \<Longrightarrow> chain (wp_pool s) p ys \<Longrightarrow> length ys < n \<Longrightarrow>
   check_outcome cf (display_wp s) (check_wp_loop n cf p s) \<and>
   okP (\<lambda>(r, s'). wp_lists s' (xs @ ys) fs) (check_wp_loop n cf p s)"
proof (induction ys arbitrary: n p s xs)
  case Nil
  then show ?case by (cases n) (auto simp: check_outcome_def)
next
  case (Cons y ys)
  then obtain k where n: "n = Suc k" by (cases n) auto
  from Cons.prems have p: "p = Some y" and c: "chain (wp_pool s) (wp_next (wp_pool s ! y)) ys" by auto
  note disp = display_wp_lists [OF Cons.prems(1)]
  show ?case
  proof (cases "expr cf (wp_exprs (wp_pool s ! y)) s")
    case (Inl e)
    have "(wp_NO (wp_pool s ! y), wp_exprs (wp_pool s ! y), wp_num (wp_pool s ! y)) \<in> set (display_wp s)"
      by (simp add: disp wp_entry_def)
    with Inl show ?thesis by (auto simp: n p check_outcome_def)
  next
    case (Inr res)
    then obtain v ok s1 where e: "expr cf (wp_exprs (wp_pool s ! y)) s = Inr (v, ok, s1)" by (cases res) auto
    note sw = same_wps_expr [OF e]
    note l1 = wp_lists_same [OF Cons.prems(1) sw]
    show ?thesis
    proof (cases "wp_num (wp_pool s1 ! y) = v")
      case True
      have "chain (wp_pool s1) (wp_next (wp_pool s1 ! y)) ys" using c sw by (simp add: same_wps_def)
      from Cons.IH [of s1 "xs @ [y]", OF _ this, of k] l1 Cons.prems(3) True e show ?thesis
        by (simp add: n p display_same_wps [OF sw])
    next
      case False
      let ?s' = "wp_upd y (\<lambda>w. w\<lparr>wp_num := v\<rparr>) s1"
      note l' = wp_lists_set_num [OF l1, of y v]
      have y: "y < length (wp_pool s1)" and ny: "y \<notin> set xs" "y \<notin> set ys"
        using l1 by (auto simp: wp_lists_def)
      have "wp_entry ?s' i = wp_entry s i" if "i \<noteq> y" for i
        using that sw by (simp add: wp_entry_def wp_upd_def same_wps_def)
      moreover have "wp_entry ?s' y = (wp_NO (wp_pool s ! y), wp_exprs (wp_pool s ! y), v)"
        using y sw by (simp add: wp_entry_def wp_upd_def same_wps_def)
      moreover have "map (wp_entry ?s') zs = map (wp_entry s) zs" if "y \<notin> set zs" for zs
        by (rule map_cong [OF refl], rule calculation(1)) (use that in blast)
      ultimately have "display_wp ?s' = map (wp_entry s) xs @
          (wp_NO (wp_pool s ! y), wp_exprs (wp_pool s ! y), v) # map (wp_entry s) ys"
        using ny by (simp add: display_wp_lists [OF l'])
      moreover have "display_wp s = map (wp_entry s) xs @
          (wp_NO (wp_pool s ! y), wp_exprs (wp_pool s ! y), wp_num (wp_pool s ! y)) # map (wp_entry s) ys"
        by (simp add: disp wp_entry_def)
      moreover have "v \<noteq> wp_num (wp_pool s ! y)" using False sw by (simp add: same_wps_def)
      ultimately have "check_outcome cf (display_wp s) (Inr (0, ?s'))"
        unfolding check_outcome_def sum.case prod.case by blast
      with e False l' show ?thesis by (simp add: n p)
    qed
  qed
qed

lemma check_watch_points_lists:
  assumes "wp_lists s hs fs"
  shows "check_outcome cf (display_wp s) (check_watch_points cf s)"
    and "okP (\<lambda>(r, s'). wp_lists s' hs fs) (check_watch_points cf s)"
  using check_wp_loop_outcome [of s "[]" hs fs "wp_head s" "Suc NR_WP" cf] length_wp_lists [OF assms] assms
  by (auto simp: check_watch_points_def wp_lists_def)

text \<open>C21: after initialisation the used and the free watchpoints partition the pool into two finite
  lists, and adding, deleting and checking watchpoints keep it so.\<close>

theorem wp_pool_invariant:
  "wp_wf (init_wp_pool s) \<and>
   (wp_wf s \<longrightarrow> okP (\<lambda>(r, s'). wp_wf s') (add_wp cf args s) \<and> okP wp_wf (delete_wp no s) \<and>
      okP (\<lambda>(r, s'). wp_wf s') (check_watch_points cf s))"
proof (intro conjI impI)
  show "wp_wf (init_wp_pool s)"
    using init_wp_pool_lists by (auto simp: wp_wf_def)
next
  assume "wp_wf s"
  then obtain hs fs where l: "wp_lists s hs fs" by (auto simp: wp_wf_def)
  show "okP (\<lambda>(r, s'). wp_wf s') (add_wp cf args s)"
    using add_wp_lists [OF l] by (fastforce simp: okP_conv wp_wf_def)
  have "delete_wp no s = Inl (HostFault ''wp_pool index'') \<or> (0 \<le> no \<and> no < int NR_WP)"
    using l by (auto simp: delete_wp_def wp_lists_def)
  then show "okP wp_wf (delete_wp no s)"
  proof
    assume "0 \<le> no \<and> no < int NR_WP"
    with delete_wp_lists [OF l, of no] obtain s' where
      "delete_wp no s = Inr s'" "wp_lists s' (remove1 (nat no) hs) (if nat no \<in> set hs then nat no # fs else fs)"
      by blast
    then show ?thesis unfolding wp_wf_def okP_conv by (metis Inr_inject)
  qed simp
  show "okP (\<lambda>(r, s'). wp_wf s') (check_watch_points cf s)"
    by (rule okP_mono [OF check_watch_points_lists(2) [OF l]]) (auto simp: wp_wf_def)
qed

theorem wp_pool_invariant_witness:
  "okP wp_wf (delete_wp 3 (init_wp_pool blank_nemu))"
  using wp_pool_invariant [of blank_nemu] wp_pool_invariant [of "init_wp_pool blank_nemu" default_config "[]" 3]
  by blast

text \<open>C22: the listed watchpoints behave as a stack: a successful add puts the new expression with its
  value in front, a full pool refuses without a change, and deleting a number removes that
  watchpoint and no other.\<close>

theorem wp_stack_refinement:
  assumes "wp_wf s"
  shows "(\<forall>r s'. add_wp cf args s = Inr (r, s') \<longrightarrow>
      (if length (display_wp s) = NR_WP then r = 0 \<and> display_wp s' = display_wp s
       else r = 1 \<and> (\<exists>n v. display_wp s' = (n, args, v) # display_wp s))) \<and>
    (\<forall>no. 0 \<le> no \<and> no < int NR_WP \<longrightarrow> (\<exists>s'. delete_wp no s = Inr s' \<and>
      display_wp s' = filter (\<lambda>(n, _, _). n \<noteq> nat no) (display_wp s)))"
proof (intro conjI allI impI)
  from assms obtain hs fs where l: "wp_lists s hs fs" by (auto simp: wp_wf_def)
  have "length (hs @ fs) = NR_WP"
    using l distinct_card [of "hs @ fs"] by (simp add: wp_lists_def)
  then have full: "length (display_wp s) = NR_WP \<longleftrightarrow> fs = []"
    by (auto simp: display_wp_lists [OF l])
  fix r s' assume "add_wp cf args s = Inr (r, s')"
  from add_wp_lists [OF l this] full
  show "if length (display_wp s) = NR_WP then r = 0 \<and> display_wp s' = display_wp s
       else r = 1 \<and> (\<exists>n v. display_wp s' = (n, args, v) # display_wp s)" by auto
next
  from assms obtain hs fs where l: "wp_lists s hs fs" by (auto simp: wp_wf_def)
  fix no assume "0 \<le> no \<and> no < int NR_WP"
  then show "\<exists>s'. delete_wp no s = Inr s' \<and> display_wp s' = filter (\<lambda>(n, _, _). n \<noteq> nat no) (display_wp s)"
    using delete_wp_lists [OF l, of no] by auto
qed

theorem wp_stack_refinement_witness:
  "\<exists>s'. delete_wp 3 (init_wp_pool blank_nemu) = Inr s' \<and> display_wp s' = []"
proof -
  have "wp_wf (init_wp_pool blank_nemu)" using init_wp_pool_lists by (auto simp: wp_wf_def)
  from wp_stack_refinement [OF this, of default_config "[]"] show ?thesis
    by (auto simp: NR_WP_def display_wp_lists [OF init_wp_pool_lists] dest!: spec [of _ 3])
qed



text \<open>An expression the lexer rejects is still accepted as a watchpoint.\<close>

lemma illegal_expression_accepted:
  assumes "expr cf args s = Inr (0, False, s1)" and "expr cf args s1 = Inr (0, False, s2)"
    and "wp_free s1 = Some p"
  shows "\<exists>s'. add_wp cf args s = Inr (1, s')"
  using assms by (simp add: add_wp_def new_wp_def Let_def)

end
