(* ===== verification/Nemu_Cpu.thy ===== *)
theory Nemu_Cpu
  imports Nemu_Inst_Correct Nemu_Watchpoint
begin

text \<open>
  The execution engine: differential testing (\<^verbatim>\<open>src/cpu/difftest/dut.c\<close>, \<^verbatim>\<open>ref.c\<close> and the register
  comparison of \<^verbatim>\<open>isa/riscv32/difftest/dut.c\<close>), interrupts (\<^verbatim>\<open>isa/riscv32/system/intr.c\<close>) and the main
  loop with its run states (\<^verbatim>\<open>src/cpu/cpu-exec.c\<close>). The reference is a shared library loaded at run
  time, so its three entry points are a parameter; \<open>'r\<close> is its state.
\<close>

section \<open>Differential testing\<close>

record 'r ref_so =
  ref_difftest_exec :: "u64 \<Rightarrow> 'r \<Rightarrow> 'r res"
  ref_to_dut :: "'r \<Rightarrow> cpu_state"
  ref_to_ref :: "cpu_state \<Rightarrow> 'r \<Rightarrow> 'r"

text \<open>Registers, program counter and the first four CSRs are compared, in this order.\<close>

definition isa_difftest_checkregs :: "cpu_state \<Rightarrow> nemu \<Rightarrow> bool" where
  "isa_difftest_checkregs r s =
     (list_all (\<lambda>i. gpr r ! i = gpr (cpu s) ! i) [0..<32] \<and> pc r = pc (cpu s) \<and>
      list_all (\<lambda>i. csr_pr r ! i = csr_pr (cpu s) ! i) [0..<4])"

definition checkregs :: "cpu_state \<Rightarrow> u32 \<Rightarrow> nemu \<Rightarrow> nemu" where
  "checkregs r thispc s =
     (if isa_difftest_checkregs r s then s
      else s\<lparr>nemu_state := (nemu_state s)\<lparr>state := NEMU_ABORT, halt_pc := thispc\<rparr>\<rparr>)"

fun ref_exec_n :: "'r ref_so \<Rightarrow> nat \<Rightarrow> 'r \<Rightarrow> 'r res" where
  "ref_exec_n so 0 r = Inr r"
| "ref_exec_n so (Suc n) r = bindE (ref_difftest_exec so 1 r) (ref_exec_n so n)"

definition difftest_skip_dut :: "'r ref_so \<Rightarrow> int \<Rightarrow> int \<Rightarrow> 'r \<times> nemu \<Rightarrow> ('r \<times> nemu) res" where
  "difftest_skip_dut so nr_ref nr_dut = (\<lambda>(r, s).
     bindE (ref_exec_n so (nat nr_ref) r) (\<lambda>r1.
       Inr (r1, s\<lparr>skip_dut_nr_inst := skip_dut_nr_inst s + nr_dut\<rparr>)))"

definition difftest_step :: "'r ref_so \<Rightarrow> u32 \<Rightarrow> u32 \<Rightarrow> 'r \<times> nemu \<Rightarrow> ('r \<times> nemu) res" where
  "difftest_step so thispc npc = (\<lambda>(r, s).
     if skip_dut_nr_inst s > 0 then
       (let ref_r = ref_to_dut so r in
        if pc ref_r = npc then Inr (r, checkregs ref_r npc (s\<lparr>skip_dut_nr_inst := 0\<rparr>))
        else let s1 = s\<lparr>skip_dut_nr_inst := skip_dut_nr_inst s - 1\<rparr> in
          if skip_dut_nr_inst s1 = 0 then Inl (Panic ''can not catch up with ref.pc'') else Inr (r, s1))
     else if is_skip_ref s then Inr (ref_to_ref so (cpu s) r, s\<lparr>is_skip_ref := False\<rparr>)
     else bindE (ref_difftest_exec so 1 r) (\<lambda>r1. Inr (r1, checkregs (ref_to_dut so r1) thispc s)))"

section \<open>Interrupts\<close>

definition isa_raise_intr :: "u32 \<Rightarrow> u32 \<Rightarrow> nemu \<Rightarrow> u32 \<times> nemu" where
  "isa_raise_intr no epc s =
     (let mtvec = get_csr_pr 0 s;
          mstatus = get_csr_pr 2 s;
          cause = push_bit 31 1 OR (no AND 0x7F);
          s1 = set_csr_pr 1 epc s;
          s2 = set_csr_pr 3 cause s1;
          m1 = mstatus AND NOT (push_bit 3 1);
          m2 = m1 OR push_bit 7 1;
          m3 = m2 OR push_bit 11 3
      in (mtvec, set_csr_pr 2 m3 s2))"

definition isa_query_intr :: "nemu \<Rightarrow> u32 \<times> nemu" where
  "isa_query_intr s = dev_query_intr s"

section \<open>One instruction, and the loop\<close>

text \<open>Instruction and function traces only produce output and are left out.\<close>

definition trace_and_difftest ::
  "config \<Rightarrow> 'r ref_so \<Rightarrow> decode \<Rightarrow> u32 \<Rightarrow> 'r \<times> nemu \<Rightarrow> ('r \<times> nemu) res" where
  "trace_and_difftest cf so d dnpc rs =
     bindE (if CONFIG_DIFFTEST cf then difftest_step so (d_pc d) dnpc rs else Inr rs) (\<lambda>(r, s).
       if CONFIG_WATCHPOINT cf then
         bindE (check_watch_points cf s) (\<lambda>(c, s1).
           Inr (r, if c = 0 then s1\<lparr>nemu_state := (nemu_state s1)\<lparr>state := NEMU_STOP\<rparr>\<rparr> else s1))
       else Inr (r, s))"

definition exec_once :: "config \<Rightarrow> decode \<Rightarrow> u32 \<Rightarrow> nemu \<Rightarrow> (decode \<times> nemu) res" where
  "exec_once cf d thispc s =
     bindE (isa_exec_once cf (d\<lparr>d_pc := thispc, d_snpc := thispc\<rparr>) s) (\<lambda>(d1, s1).
       let s2 = s1\<lparr>cpu := (cpu s1)\<lparr>true_pc := pc (cpu s1)\<rparr>\<rparr>
       in Inr (d1, s2\<lparr>cpu := (cpu s2)\<lparr>pc := d_dnpc d1\<rparr>\<rparr>))"

definition maybe_device_update :: "config \<Rightarrow> nemu \<Rightarrow> nemu res" where
  "maybe_device_update cf s = (if CONFIG_DEVICE cf then device_update s else Inr s)"

text \<open>
  One round of \<^verbatim>\<open>execute\<close>: the cycle counter advances; an enabled, pending timer interrupt is taken
  instead of an instruction; otherwise one instruction is executed and traced, and the loop ends if
  the machine is no longer running. The flag says whether the loop goes on.
\<close>

definition intr_enabled :: "nemu \<Rightarrow> bool" where
  "intr_enabled s = (get_csr_pr 2 s AND 0x8 \<noteq> 0 \<and> get_csr_pr 5 s AND 0x80 \<noteq> 0 \<and> get_csr_pr 6 s AND 0x8 \<noteq> 0)"

definition exec_round ::
  "config \<Rightarrow> 'r ref_so \<Rightarrow> decode \<Rightarrow> 'r \<times> nemu \<Rightarrow> (bool \<times> decode \<times> 'r \<times> nemu) res" where
  "exec_round cf so d = (\<lambda>(r, s0).
     let s = s0\<lparr>cpu := (cpu s0)\<lparr>cycle := cycle (cpu s0) + 1\<rparr>\<rparr>;
         old_pc = pc (cpu s);
         (intr_no, s1) = (if intr_enabled s then isa_query_intr s else (INTR_EMPTY, s))
     in if intr_no \<noteq> INTR_EMPTY then
          (let (intr_addr, s2) = isa_raise_intr intr_no old_pc s1;
               s3 = s2\<lparr>cpu := (cpu s2)\<lparr>pc := intr_addr\<rparr>, g_nr_guest_inst := g_nr_guest_inst s2 + 1\<rparr>
           in bindE (maybe_device_update cf s3) (\<lambda>s4. Inr (True, d, r, s4)))
        else
          bindE (exec_once cf d (pc (cpu s1)) s1) (\<lambda>(d1, s2).
          bindE (trace_and_difftest cf so d1 (pc (cpu s2))
              (r, s2\<lparr>g_nr_guest_inst := g_nr_guest_inst s2 + 1\<rparr>)) (\<lambda>(r1, s3).
            if state (nemu_state s3) \<noteq> NEMU_RUNNING then Inr (False, d1, r1, s3)
            else bindE (maybe_device_update cf s3) (\<lambda>s4. Inr (True, d1, r1, s4)))))"

fun execute ::
  "config \<Rightarrow> 'r ref_so \<Rightarrow> nat \<Rightarrow> decode \<Rightarrow> 'r \<times> nemu \<Rightarrow> ('r \<times> nemu) res" where
  "execute cf so 0 d rs = Inr rs"
| "execute cf so (Suc n) d rs =
     bindE (exec_round cf so d rs) (\<lambda>(go, d1, rs1). if go then execute cf so n d1 rs1 else Inr rs1)"

text \<open>
  \<^verbatim>\<open>cpu_exec\<close>: the decode record is an uninitialised local variable, so its contents are an argument.
  The time spent only feeds the statistics that are printed.
\<close>

definition cpu_exec ::
  "config \<Rightarrow> 'r ref_so \<Rightarrow> decode \<Rightarrow> u64 \<Rightarrow> 'r \<times> nemu \<Rightarrow> ('r \<times> nemu) res" where
  "cpu_exec cf so d n = (\<lambda>(r, s).
     if state (nemu_state s) \<in> {NEMU_END, NEMU_ABORT, NEMU_QUIT} then Inr (r, s)
     else
       let s1 = s\<lparr>nemu_state := (nemu_state s)\<lparr>state := NEMU_RUNNING\<rparr>\<rparr>;
           s2 = snd (get_time s1)
       in bindE (execute cf so (unat n) d (r, s2)) (\<lambda>(r1, s3).
            let s4 = snd (get_time s3)
            in Inr (r1, if state (nemu_state s4) = NEMU_RUNNING
                        then s4\<lparr>nemu_state := (nemu_state s4)\<lparr>state := NEMU_STOP\<rparr>\<rparr> else s4)))"

section \<open>This emulator as a reference\<close>

text \<open>
  The entry points \<^verbatim>\<open>ref.c\<close> exports when the emulator is built as a shared library. Registers are
  copied both ways, the program counter only towards the design under test.
\<close>

definition no_ref :: "unit ref_so" where
  "no_ref = \<lparr>ref_difftest_exec = (\<lambda>n r. Inr r),
     ref_to_dut = (\<lambda>r. \<lparr>gpr = [], pc = 0, true_pc = 0, csr_pr = [], cycle = 0\<rparr>), ref_to_ref = (\<lambda>c r. r)\<rparr>"

definition difftest_regcpy_to_ref :: "cpu_state \<Rightarrow> nemu \<Rightarrow> nemu" where
  "difftest_regcpy_to_ref c s = s\<lparr>cpu := (cpu s)\<lparr>gpr := map (\<lambda>i. gpr c ! i) [0..<32]\<rparr>\<rparr>"

definition difftest_regcpy_to_dut :: "nemu \<Rightarrow> cpu_state \<Rightarrow> cpu_state" where
  "difftest_regcpy_to_dut s c = c\<lparr>gpr := map (\<lambda>i. gpr (cpu s) ! i) [0..<32], pc := pc (cpu s)\<rparr>"

definition difftest_exec :: "config \<Rightarrow> decode \<Rightarrow> u64 \<Rightarrow> nemu \<Rightarrow> nemu res" where
  "difftest_exec cf d n s = bindE (cpu_exec cf no_ref d n ((), s)) (\<lambda>(_, s1). Inr s1)"

end
