(* ===== verification/Nemu_Cpu_Correct.thy ===== *)
theory Nemu_Cpu_Correct
  imports Nemu_Cpu_Props
begin

text \<open>
  Properties of the execution engine: the rounds \<^verbatim>\<open>cpu_exec\<close> runs, the timer interrupt and its return.
\<close>

section \<open>Counting rounds\<close>

lemma execute_frame:
  "execute cf so n d (r, s) = Inr (r', s') \<Longrightarrow>
   (zero_ok s \<longrightarrow> zero_ok s') \<and>
   (\<exists>k \<le> n. cycle (cpu s') = cycle (cpu s) + of_nat k \<and>
     (k < n \<longrightarrow> state (nemu_state s') \<noteq> NEMU_RUNNING)) \<and>
   (\<not> CONFIG_WATCHPOINT cf \<longrightarrow> state (nemu_state s') = state (nemu_state s) \<or>
      state (nemu_state s') \<in> {NEMU_END, NEMU_ABORT, NEMU_QUIT})"
proof (induction n arbitrary: d r s)
  case 0
  then show ?case by simp
next
  case (Suc n)
  from Suc.prems obtain go d1 r1 s1 where x: "exec_round cf so d (r, s) = Inr (go, d1, r1, s1)"
    and e: "(if go then execute cf so n d1 (r1, s1) else Inr (r1, s1)) = Inr (r', s')" by auto
  note fr = exec_round_frame [OF x]
  show ?case
  proof (cases go)
    case True
    with e have "execute cf so n d1 (r1, s1) = Inr (r', s')" by simp
    from Suc.IH [OF this] obtain k where ih: "zero_ok s1 \<longrightarrow> zero_ok s'" "k \<le> n"
      "cycle (cpu s') = cycle (cpu s1) + of_nat k" "k < n \<longrightarrow> state (nemu_state s') \<noteq> NEMU_RUNNING"
      "\<not> CONFIG_WATCHPOINT cf \<longrightarrow> state (nemu_state s') = state (nemu_state s1) \<or>
        state (nemu_state s') \<in> {NEMU_END, NEMU_ABORT, NEMU_QUIT}" by blast
    have "cycle (cpu s') = cycle (cpu s) + of_nat (Suc k)" using ih(3) fr by simp
    with ih fr show ?thesis unfolding round_frame_def by (metis Suc_le_mono Suc_less_SucD insertCI insertE)
  next
    case False
    with e have "s' = s1" by simp
    with False fr show ?thesis unfolding round_frame_def by (intro conjI exI [of _ 1]) auto
  qed
qed

lemma zero_ok_get_time [simp]: "zero_ok (snd (get_time s)) = zero_ok s"
  by (simp add: zero_ok_def)

lemma execute_wps:
  "execute cf so n d (r, s) = Inr (r', s') \<Longrightarrow> wp_wf s \<Longrightarrow> wp_wf s'"
proof (induction n arbitrary: d r s)
  case (Suc n)
  from Suc.prems(1) obtain go d1 r1 s1 where x: "exec_round cf so d (r, s) = Inr (go, d1, r1, s1)"
    and e: "(if go then execute cf so n d1 (r1, s1) else Inr (r1, s1)) = Inr (r', s')" by auto
  have "wp_wf s1" using exec_round_frame [OF x] Suc.prems(2) by (simp add: round_frame_def)
  with e Suc.IH show ?case by (auto split: if_splits)
qed simp

lemma wp_wf_get_time [simp]: "wp_wf (snd (get_time s)) = wp_wf s"
  by (rule wp_wf_same) (simp add: same_wps_def)

text \<open>One call on a machine that has not ended.\<close>

lemma cpu_exec_unfold:
  assumes "state (nemu_state s) \<in> {NEMU_STOP, NEMU_RUNNING}" and "cpu_exec cf so d n (r, s) = Inr (r', s')"
  obtains s2 s3 where "execute cf so (unat n) d (r, s2) = Inr (r', s3)"
    "zero_ok s2 = zero_ok s" "wp_wf s2 = wp_wf s" "cycle (cpu s2) = cycle (cpu s)"
    "state (nemu_state s2) = NEMU_RUNNING"
    "zero_ok s' = zero_ok s3" "wp_wf s' = wp_wf s3" "cycle (cpu s') = cycle (cpu s3)"
    "state (nemu_state s') = (if state (nemu_state s3) = NEMU_RUNNING then NEMU_STOP else state (nemu_state s3))"
proof -
  let ?s1 = "s\<lparr>nemu_state := (nemu_state s)\<lparr>state := NEMU_RUNNING\<rparr>\<rparr>"
  from assms obtain s3 where e: "execute cf so (unat n) d (r, snd (get_time ?s1)) = Inr (r', s3)"
    and s': "s' = (let s4 = snd (get_time s3) in if state (nemu_state s4) = NEMU_RUNNING
      then s4\<lparr>nemu_state := (nemu_state s4)\<lparr>state := NEMU_STOP\<rparr>\<rparr> else s4)"
    by (auto simp: cpu_exec_def Let_def)
  show ?thesis
    by (rule that [OF e]) (simp_all add: s' Let_def)
qed

text \<open>An ended machine stays as it is.\<close>

lemma cpu_exec_ended:
  "state (nemu_state s) \<in> {NEMU_END, NEMU_ABORT, NEMU_QUIT} \<Longrightarrow> cpu_exec cf so d n (r, s) = Inr (r, s)"
  by (auto simp: cpu_exec_def)

text \<open>Every call keeps the machine, and none returns it running.\<close>

lemma cpu_exec_keeps:
  assumes "cpu_exec cf so d n (r, s) = Inr (r', s')"
  shows "zero_ok s \<Longrightarrow> zero_ok s'" and "wp_wf s \<Longrightarrow> wp_wf s'" and "state (nemu_state s') \<noteq> NEMU_RUNNING"
proof -
  have "(zero_ok s \<longrightarrow> zero_ok s') \<and> (wp_wf s \<longrightarrow> wp_wf s') \<and> state (nemu_state s') \<noteq> NEMU_RUNNING"
  proof (cases "state (nemu_state s) \<in> {NEMU_END, NEMU_ABORT, NEMU_QUIT}")
    case True
    with assms cpu_exec_ended [OF True, of cf so d n r] show ?thesis by auto
  next
    case False
    then have "state (nemu_state s) \<in> {NEMU_STOP, NEMU_RUNNING}" by (cases "state (nemu_state s)") auto
    then obtain s2 s3 where e: "execute cf so (unat n) d (r, s2) = Inr (r', s3)"
      and "zero_ok s2 = zero_ok s" "wp_wf s2 = wp_wf s" "zero_ok s' = zero_ok s3" "wp_wf s' = wp_wf s3"
        "state (nemu_state s') = (if state (nemu_state s3) = NEMU_RUNNING then NEMU_STOP else state (nemu_state s3))"
      using assms by (rule cpu_exec_unfold)
    with execute_frame [OF e] execute_wps [OF e] show ?thesis by auto
  qed
  then show "zero_ok s \<Longrightarrow> zero_ok s'" "wp_wf s \<Longrightarrow> wp_wf s'" "state (nemu_state s') \<noteq> NEMU_RUNNING" by auto
qed


section \<open>Timer interrupts\<close>

text \<open>The machine an interrupt leaves behind: the handler's entry.\<close>

definition intr_entry :: "nemu \<Rightarrow> nemu \<Rightarrow> bool" where
  "intr_entry s s' \<longleftrightarrow> pc (cpu s') = get_csr_pr MTVEC_IDX s \<and> get_csr_pr MEPC_IDX s' = pc (cpu s) \<and>
     get_csr_pr MCAUSE_IDX s' = 0x80000003 \<and>
     get_csr_pr MSTATUS_IDX s' = (get_csr_pr MSTATUS_IDX s AND NOT 8) OR 0x1880 \<and>
     gpr (cpu s') = gpr (cpu s) \<and> pmem s' = pmem s \<and> get_csr_pr MTVEC_IDX s' = get_csr_pr MTVEC_IDX s"

lemma intr_mstatus: "((w AND NOT 8) OR 128) OR 0x1800 = (w AND NOT 8) OR (0x1880 :: u32)"
  by (simp add: or.assoc)

lemma intr_masked: "((w AND NOT 8) OR (0x1880 :: u32)) AND 8 = 0"
  by (rule word32_eqI, unfold all_less_32) (simp add: bit_and_iff bit_or_iff bit_not_iff)

lemma intr_entry_disabled: "intr_entry s s' \<Longrightarrow> \<not> intr_enabled s'"
  by (simp add: intr_entry_def intr_enabled_def intr_masked [simplified])

lemma exec_round_interrupt:
  assumes wf: "wf_nemu s" and en: "intr_enabled s" and p: "timer_intr_pending s"
  shows "\<exists>s3. exec_round cf so d (r, s) = bindE (maybe_device_update cf s3) (\<lambda>s4. Inr (True, d, r, s4)) \<and>
    intr_entry s s3 \<and> wf_nemu s3 \<and> \<not> timer_intr_pending s3 \<and> cycle (cpu s3) = cycle (cpu s) + 1"
proof -
  have len: "length (csr_pr (cpu s)) = 12" using wf by (simp add: wf_nemu_def wf_cpu_def)
  have en': "intr_enabled (s\<lparr>cpu := (cpu s)\<lparr>cycle := cycle (cpu s) + 1\<rparr>\<rparr>)"
    using en by (simp add: intr_enabled_def get_csr_pr_def)
  define t where "t = s\<lparr>cpu := (cpu s)\<lparr>cycle := cycle (cpu s) + 1\<rparr>\<rparr>"
  define t1 where "t1 = set_csr_pr MIP_IDX (get_csr_pr MIP_IDX t AND NOT 8) (t\<lparr>timer_intr_pending := False\<rparr>)"
  define t2 where "t2 = snd (isa_raise_intr 3 (pc (cpu t)) t1)"
  define t3 where "t3 = t2\<lparr>cpu := (cpu t2)\<lparr>pc := get_csr_pr 0 t1\<rparr>, g_nr_guest_inst := g_nr_guest_inst t2 + 1\<rparr>"
  have q: "isa_query_intr t = (3, t1)"
    using p by (simp add: isa_query_intr_def dev_query_intr_def t1_def t_def)
  have i: "isa_raise_intr 3 (pc (cpu t)) t1 = (get_csr_pr 0 t1, t2)"
    by (simp add: isa_raise_intr_def Let_def t2_def)
  have "exec_round cf so d (r, s) = bindE (maybe_device_update cf t3) (\<lambda>s4. Inr (True, d, r, s4))"
    using en' q i by (simp add: exec_round_def t_def [symmetric] t3_def INTR_EMPTY_def)
  moreover have "intr_entry s t3"
    using len by (simp add: intr_entry_def t3_def t2_def t1_def t_def isa_raise_intr_def Let_def
        get_csr_pr_def set_csr_pr_def or.assoc)
  moreover have "wf_nemu t3 \<and> \<not> timer_intr_pending t3 \<and> cycle (cpu t3) = cycle (cpu s) + 1"
    using wf by (simp add: t3_def t2_def t1_def t_def isa_raise_intr_def Let_def set_csr_pr_def
        wf_nemu_def wf_cpu_def)
  ultimately show ?thesis by blast
qed

lemma intr_entry_same_core: "intr_entry s t \<Longrightarrow> same_core t u \<Longrightarrow> intr_entry s u"
  by (auto simp: intr_entry_def same_core_def)

text \<open>C18: when the timer interrupt is pending and enabled, the next round takes it instead of an
  instruction: it saves the program counter and the cause, masks interrupts, jumps to the vector
  and leaves registers and memory alone; no further interrupt can be taken from there.\<close>

theorem timer_interrupt_entry:
  assumes "wf_nemu s" and "intr_enabled s" and "timer_intr_pending s"
  shows "okP (\<lambda>(go, d', r', s'). go \<and> d' = d \<and> r' = r \<and> intr_entry s s' \<and> \<not> intr_enabled s' \<and>
      cycle (cpu s') = cycle (cpu s) + 1) (exec_round cf so d (r, s))"
proof -
  from exec_round_interrupt [OF assms, of cf so d r] obtain s3 where
    e: "exec_round cf so d (r, s) = bindE (maybe_device_update cf s3) (\<lambda>s4. Inr (True, d, r, s4))"
    and i: "intr_entry s s3" "cycle (cpu s3) = cycle (cpu s) + 1" by blast
  show ?thesis
    unfolding e using i
    by (auto simp: okP_conv maybe_device_update_frame(2)
        intro: intr_entry_same_core dest: maybe_device_update_frame(3))
       (metis intr_entry_disabled intr_entry_same_core maybe_device_update_frame(3))
qed

text \<open>The \<^verbatim>\<open>mret\<close> entry of the table.\<close>

lemma entry_mret: "first_match instpats 0x30200073 = Inr (Some (TYPE_N, mret))"
  by (rule first_match_at [where k = 21])
    (simp_all add: length_instpats instpats_def pattern_reads_from pattern_bits_def)

lemma exec_mret:
  assumes "zero_ok s" and "in_pmem cf p" and "pmem_read cf p 4 s = Inr 0x30200073"
  shows "\<exists>d' s'. exec_once cf d p s = Inr (d', s') \<and> pc (cpu s') = get_csr_pr MEPC_IDX s \<and>
    get_csr_pr MSTATUS_IDX s' = 0x1888 \<and> gpr (cpu s') = gpr (cpu s) \<and> pmem s' = pmem s \<and>
    nemu_state s' = nemu_state s"
proof -
  have len: "length (csr_pr (cpu s)) = 12"
    using assms(1) by (simp add: zero_ok_def wf_nemu_def wf_cpu_def)
  have f: "inst_fetch cf p 4 s = Inr (0x30200073, p + 4, s)"
    using assms(2,3) by (simp add: inst_fetch_def vaddr_ifetch_def paddr_read_def)
  let ?d = "d\<lparr>d_pc := p, d_snpc := p + 4, d_inst := 0x30200073, d_dnpc := p + 4\<rparr>"
  have x: "decode_exec cf (d\<lparr>d_pc := p, d_inst := 0x30200073, d_snpc := p + 4\<rparr>) s =
      Inr (?d\<lparr>d_dnpc := CSR_read 0x341 s\<rparr>, CSR_write 0x300 0x1888 s)"
    using assms(1) by (simp add: decode_exec_entry entry_mret Let_def decode_operand_def finish_def mret_def
      del: set_gpr_ok)
  show ?thesis
    using len f x
    by (simp add: exec_once_def isa_exec_once_def Let_def CSR_read_def CSR_write_def)
       (simp add: get_csr_pr_def set_csr_pr_def)
qed


text \<open>A machine whose handler at \<open>0x80000100\<close> is a single \<^verbatim>\<open>mret\<close>, just interrupted at \<open>0x80000010\<close>.\<close>

definition intr_example :: "u32 \<Rightarrow> u32 list \<Rightarrow> nemu" where
  "intr_example p csrs = blank_nemu\<lparr>cpu := \<lparr>gpr = replicate 32 0, pc = p, true_pc = 0, csr_pr = csrs, cycle = 0\<rparr>,
     nemu_state := \<lparr>state = NEMU_RUNNING, halt_pc = 0, halt_ret = 0\<rparr>,
     pmem := le_write (\<lambda>_. 0) 0x100 4 0x30200073, timer_intr_pending := True\<rparr>"

lemma intr_example_ok: "length csrs = 12 \<Longrightarrow> zero_ok (intr_example p csrs)"
  by (simp add: intr_example_def zero_ok_def wf_nemu_def wf_cpu_def blank_nemu_def)


theorem timer_interrupt_entry_witness:
  "okP (\<lambda>(go, d', r', s'). go \<and> pc (cpu s') = 0x80000100 \<and> get_csr_pr MEPC_IDX s' = 0x80000010)
    (exec_round default_config no_ref \<lparr>d_pc = 0, d_snpc = 0, d_dnpc = 0, d_inst = 0\<rparr>
      ((), intr_example 0x80000010 [0x80000100, 0, 8, 0, 0, 0x80, 8, 0, 0, 0, 0, 0]))"
proof -
  let ?s = "intr_example 0x80000010 [0x80000100, 0, 8, 0, 0, 0x80, 8, 0, 0, 0, 0, 0]"
  have "wf_nemu ?s" using intr_example_ok by (simp add: zero_ok_def)
  moreover have "intr_enabled ?s" "timer_intr_pending ?s" "get_csr_pr MTVEC_IDX ?s = 0x80000100" "pc (cpu ?s) = 0x80000010"
    by (simp_all add: intr_example_def intr_enabled_def get_csr_pr_def)
  ultimately show ?thesis
    using timer_interrupt_entry [of ?s "\<lparr>d_pc = 0, d_snpc = 0, d_dnpc = 0, d_inst = 0\<rparr>" "()" default_config no_ref]
    by (auto elim!: okP_mono simp: intr_entry_def)
qed


end
