(* ===== verification/Nemu_Sdb.thy ===== *)
theory Nemu_Sdb
  imports Nemu_Cpu_Correct
begin

text \<open>
  The simple debugger, \<^verbatim>\<open>nemu/src/monitor/sdb/sdb.c\<close>: splitting a command line, the command table and
  the main loop over the lines typed. What a command prints is its output value; texts of usage
  messages are not kept. A null argument handed to a C string function is a fault.
\<close>

section \<open>Splitting a line\<close>

text \<open>\<^verbatim>\<open>strtok\<close> with a blank as the only delimiter: the token and what follows its delimiter.\<close>

definition next_token :: "string \<Rightarrow> (string \<times> string) option" where
  "next_token str = (let rest = dropWhile (\<lambda>c. c = CHR '' '') str in
     if rest = [] then None
     else Some (takeWhile (\<lambda>c. c \<noteq> CHR '' '') rest, drop 1 (dropWhile (\<lambda>c. c \<noteq> CHR '' '') rest)))"

text \<open>The command and its arguments, \<open>None\<close> standing for the null pointer.\<close>

definition split_line :: "string \<Rightarrow> (string \<times> string option) option" where
  "split_line str = (case next_token str of
     None \<Rightarrow> None
   | Some (cmd, rest) \<Rightarrow> Some (cmd, if rest = [] then None else Some rest))"

text \<open>\<^verbatim>\<open>atoi\<close>: blanks, a sign, digits; a \<^verbatim>\<open>long\<close> that saturates, truncated to an \<^verbatim>\<open>int\<close>.\<close>

definition is_space_char :: "char \<Rightarrow> bool" where
  "is_space_char c = (c \<in> {CHR '' '', CHR 0x09, CHR 0x0A, CHR 0x0B, CHR 0x0C, CHR 0x0D})"

definition atoi :: "string \<Rightarrow> u32" where
  "atoi str = (let t = dropWhile is_space_char str;
       neg = (t \<noteq> [] \<and> hd t = CHR ''-'');
       u = (if t \<noteq> [] \<and> (hd t = CHR ''-'' \<or> hd t = CHR ''+'') then tl t else t);
       n = int (number_value 10 (takeWhile is_digit_char u))
     in word_of_int (if neg then max (- n) (- (2 ^ 63)) else min n (2 ^ 63 - 1)))"

definition need :: "string option \<Rightarrow> string res" where
  "need a = (case a of None \<Rightarrow> Inl (HostFault ''null pointer'') | Some str \<Rightarrow> Inr str)"

section \<open>Commands\<close>

datatype sdb_output =
    OutNone
  | OutValue u32
  | OutMemory "(u32 \<times> u32) list"
  | OutRegs "u32 list" "u32 list" u32
  | OutWatchpoints "(nat \<times> string \<times> u32) list"
  | OutHelp "string list"
  | OutMessage

type_synonym 'r cmd_result = "(int \<times> sdb_output \<times> 'r \<times> nemu) res"

definition cmd_c :: "config \<Rightarrow> 'r ref_so \<Rightarrow> decode \<Rightarrow> 'r \<times> nemu \<Rightarrow> 'r cmd_result" where
  "cmd_c cf so d rs = bindE (cpu_exec cf so d (-1) rs) (\<lambda>(r, s). Inr (0, OutNone, r, s))"

definition cmd_q :: "'r \<times> nemu \<Rightarrow> 'r cmd_result" where
  "cmd_q = (\<lambda>(r, s). Inr (-1, OutNone, r, s\<lparr>nemu_state := (nemu_state s)\<lparr>state := NEMU_QUIT\<rparr>\<rparr>))"

definition cmd_si :: "config \<Rightarrow> 'r ref_so \<Rightarrow> decode \<Rightarrow> string option \<Rightarrow> 'r \<times> nemu \<Rightarrow> 'r cmd_result" where
  "cmd_si cf so d args = (\<lambda>(r, s). case args of
     None \<Rightarrow> bindE (cpu_exec cf so d 1 (r, s)) (\<lambda>(r1, s1). Inr (0, OutNone, r1, s1))
   | Some a \<Rightarrow>
       if atoi a = 0 then Inr (0, OutMessage, r, s)
       else bindE (cpu_exec cf so d (scast (atoi a)) (r, s)) (\<lambda>(r1, s1). Inr (0, OutNone, r1, s1)))"

definition isa_reg_display :: "nemu \<Rightarrow> sdb_output" where
  "isa_reg_display s = OutRegs (map (\<lambda>i. gpr (cpu s) ! i) [0..<32]) (map (\<lambda>i. csr_pr (cpu s) ! i) [0..<5])
     (true_pc (cpu s))"

definition cmd_info :: "string option \<Rightarrow> 'r \<times> nemu \<Rightarrow> 'r cmd_result" where
  "cmd_info args = (\<lambda>(r, s). bindE (need args) (\<lambda>a.
     if a = ''r'' then Inr (0, isa_reg_display s, r, s)
     else if a = ''w'' then Inr (0, OutWatchpoints (display_wp s), r, s)
     else Inr (0, OutMessage, r, s)))"

fun read_words :: "config \<Rightarrow> nat \<Rightarrow> u32 \<Rightarrow> nemu \<Rightarrow> ((u32 \<times> u32) list \<times> nemu) res" where
  "read_words cf 0 a s = Inr ([], s)"
| "read_words cf (Suc n) a s =
     bindE (paddr_read cf a 4 s) (\<lambda>(v, s1).
     bindE (read_words cf n (a + 4) s1) (\<lambda>(vs, s2). Inr ((a, v) # vs, s2)))"

definition cmd_x :: "config \<Rightarrow> string option \<Rightarrow> 'r \<times> nemu \<Rightarrow> 'r cmd_result" where
  "cmd_x cf args = (\<lambda>(r, s). bindE (need args) (\<lambda>a.
     bindE (need (map_option fst (next_token a))) (\<lambda>n.
     bindE (need (map_option fst (Option.bind (next_token a) (\<lambda>(_, rest). next_token rest)))) (\<lambda>e.
     bindE (expr cf e s) (\<lambda>(addr, ok, s1).
     bindE (read_words cf (nat (sint (atoi n))) addr s1) (\<lambda>(vs, s2).
     Inr (0, OutMemory vs, r, s2)))))))"

definition cmd_p :: "config \<Rightarrow> string option \<Rightarrow> 'r \<times> nemu \<Rightarrow> 'r cmd_result" where
  "cmd_p cf args = (\<lambda>(r, s). bindE (need args) (\<lambda>a.
     bindE (expr cf a s) (\<lambda>(v, ok, s1). Inr (0, if ok then OutValue v else OutNone, r, s1))))"

definition cmd_w :: "config \<Rightarrow> string option \<Rightarrow> 'r \<times> nemu \<Rightarrow> 'r cmd_result" where
  "cmd_w cf args = (\<lambda>(r, s). bindE (need args) (\<lambda>a.
     bindE (add_wp cf a s) (\<lambda>(_, s1). Inr (0, OutNone, r, s1))))"

definition cmd_d :: "string option \<Rightarrow> 'r \<times> nemu \<Rightarrow> 'r cmd_result" where
  "cmd_d args = (\<lambda>(r, s). bindE (need args) (\<lambda>a.
     bindE (delete_wp (sint (atoi a)) s) (\<lambda>s1. Inr (0, OutNone, r, s1))))"

definition cmd_names :: "string list" where
  "cmd_names = [''help'', ''c'', ''q'', ''info'', ''x'', ''si'', ''p'', ''w'', ''d'']"

text \<open>\<^verbatim>\<open>cmd_help\<close> takes its argument from the suspended \<^verbatim>\<open>strtok\<close>, that is from the rest of the line.\<close>

definition cmd_help :: "string option \<Rightarrow> 'r \<times> nemu \<Rightarrow> 'r cmd_result" where
  "cmd_help args = (\<lambda>(r, s). Inr (0,
     (case Option.bind args next_token of
        None \<Rightarrow> OutHelp cmd_names
      | Some (a, _) \<Rightarrow> if a \<in> set cmd_names then OutHelp [a] else OutMessage), r, s))"

definition run_command ::
  "config \<Rightarrow> 'r ref_so \<Rightarrow> decode \<Rightarrow> string \<Rightarrow> string option \<Rightarrow> 'r \<times> nemu \<Rightarrow> 'r cmd_result" where
  "run_command cf so d cmd args rs =
     (if cmd = ''help'' then cmd_help args rs
      else if cmd = ''c'' then cmd_c cf so d rs
      else if cmd = ''q'' then cmd_q rs
      else if cmd = ''info'' then cmd_info args rs
      else if cmd = ''x'' then cmd_x cf args rs
      else if cmd = ''si'' then cmd_si cf so d args rs
      else if cmd = ''p'' then cmd_p cf args rs
      else if cmd = ''w'' then cmd_w cf args rs
      else if cmd = ''d'' then cmd_d args rs
      else Inr (0, OutMessage, rs))"

section \<open>The main loop\<close>

text \<open>\<^verbatim>\<open>sdl_clear_event_queue\<close> polls until no event is left and drops them all.\<close>

definition sdl_clear_event_queue :: "nemu \<Rightarrow> nemu" where
  "sdl_clear_event_queue s = s\<lparr>sdl_polls := sdl_polls s + 1\<rparr>"

text \<open>The lines \<^verbatim>\<open>readline\<close> returns; the end of the list is the end of the input.\<close>

fun sdb_mainloop ::
  "config \<Rightarrow> 'r ref_so \<Rightarrow> decode \<Rightarrow> string list \<Rightarrow> 'r \<times> nemu \<Rightarrow> (sdb_output list \<times> 'r \<times> nemu) res" where
  "sdb_mainloop cf so d [] rs = Inr ([], rs)"
| "sdb_mainloop cf so d (line # lines) rs = (case split_line line of
     None \<Rightarrow> sdb_mainloop cf so d lines rs
   | Some (cmd, args) \<Rightarrow>
       bindE (run_command cf so d cmd args
           (if CONFIG_DEVICE cf then (fst rs, sdl_clear_event_queue (snd rs)) else rs)) (\<lambda>(ret, out, rs1).
         if ret < 0 then Inr ([out], rs1)
         else bindE (sdb_mainloop cf so d lines rs1) (\<lambda>(outs, rs2). Inr (out # outs, rs2))))"

definition init_sdb :: "nemu \<Rightarrow> nemu" where
  "init_sdb s = init_wp_pool s"

definition sdb_run ::
  "config \<Rightarrow> 'r ref_so \<Rightarrow> decode \<Rightarrow> bool \<Rightarrow> string list \<Rightarrow> 'r \<times> nemu \<Rightarrow> (sdb_output list \<times> 'r \<times> nemu) res" where
  "sdb_run cf so d is_batch_mode lines rs =
     (if is_batch_mode then bindE (cmd_c cf so d rs) (\<lambda>(ret, out, rs1). Inr ([out], rs1))
      else sdb_mainloop cf so d lines rs)"

section \<open>Sessions\<close>

text \<open>Every state a debugging session can be in between two commands.\<close>

inductive session :: "config \<Rightarrow> 'r ref_so \<Rightarrow> decode \<Rightarrow> 'r \<times> nemu \<Rightarrow> bool" for cf so d where
  start: "zero_ok s \<Longrightarrow> state (nemu_state s) = NEMU_STOP \<Longrightarrow> session cf so d (r, init_sdb s)"
| clear: "session cf so d (r, s) \<Longrightarrow> session cf so d (r, sdl_clear_event_queue s)"
| command: "session cf so d rs \<Longrightarrow> run_command cf so d cmd args rs = Inr (ret, out, rs') \<Longrightarrow>
    session cf so d rs'"

definition session_ok :: "nemu \<Rightarrow> bool" where
  "session_ok s \<longleftrightarrow> zero_ok s \<and> wp_wf s \<and> state (nemu_state s) \<noteq> NEMU_RUNNING"

lemma session_ok_state [simp]: "st \<noteq> NEMU_RUNNING \<Longrightarrow>
    session_ok s \<Longrightarrow> session_ok (s\<lparr>nemu_state := (nemu_state s)\<lparr>state := st\<rparr>\<rparr>)"
  by (simp add: session_ok_def)

lemma session_ok_cpu_exec: "cpu_exec cf so d n (r, s) = Inr (r', s') \<Longrightarrow> session_ok s \<Longrightarrow> session_ok s'"
  using cpu_exec_keeps [of cf so d n r s r' s'] by (auto simp: session_ok_def)

lemma expr_state: "expr cf e s = Inr (v, ok, s') \<Longrightarrow> nemu_state s' = nemu_state s"
  by (drule expr_frame) (auto simp: same_regs_def)

lemma session_ok_expr: "expr cf e s = Inr (v, ok, s') \<Longrightarrow> session_ok s \<Longrightarrow> session_ok s'"
  using expr_round_frame(1) [of cf e s v ok s' True] expr_state [of cf e s v ok s']
  by (auto simp: session_ok_def round_frame_def)

lemma session_ok_same_regs: "same_regs s s' \<Longrightarrow> session_ok s \<Longrightarrow> session_ok s'"
  using wp_wf_same [of s s'] zero_ok_same_regs [of s s']
  by (auto simp: session_ok_def same_regs_def same_wps_def)

lemma session_ok_read_words: "read_words cf n a s = Inr (vs, s') \<Longrightarrow> session_ok s \<Longrightarrow> session_ok s'"
proof (induction n arbitrary: a s vs)
  case (Suc n)
  then obtain v s1 ws where "paddr_read cf a 4 s = Inr (v, s1)" and r: "read_words cf n (a + 4) s1 = Inr (ws, s')"
    by auto
  then have "session_ok s1" using Suc.prems(2) by (blast intro: session_ok_same_regs same_regs_paddr_read)
  from Suc.IH [OF r this] show ?case .
qed simp

lemma wp_upd_frame: "zero_ok (wp_upd i f s) = zero_ok s" "nemu_state (wp_upd i f s) = nemu_state s"
  by (simp_all add: wp_upd_def zero_ok_def wf_nemu_def)

lemma session_ok_add_wp: "add_wp cf a s = Inr (r, s') \<Longrightarrow> session_ok s \<Longrightarrow> session_ok s'"
proof -
  assume a: "add_wp cf a s = Inr (r, s')" and ok: "session_ok s"
  then obtain hs fs where l: "wp_lists s hs fs" by (auto simp: session_ok_def wp_wf_def)
  have "wp_wf s'" using add_wp_lists [OF l a] by (auto simp: wp_wf_def)
  moreover from a obtain v0 ok0 s1 where e: "expr cf a s = Inr (v0, ok0, s1)"
    by (auto simp: add_wp_def new_wp_def)
  have ok1: "session_ok s1" by (rule session_ok_expr [OF e ok])
  have "zero_ok s' \<and> state (nemu_state s') \<noteq> NEMU_RUNNING"
  proof (cases "wp_free s1")
    case None
    with a e ok1 show ?thesis by (auto simp: add_wp_def new_wp_def session_ok_def)
  next
    case (Some f)
    with a e obtain v ok2 s2 where e2: "expr cf a s1 = Inr (v, ok2, s2)"
      and "nemu_state s' = nemu_state s2 \<and> cpu s' = cpu s2 \<and> key_queue s' = key_queue s2 \<and>
        key_f s' = key_f s2 \<and> key_r s' = key_r s2"
      by (auto simp: add_wp_def new_wp_def Let_def wp_upd_def)
    with session_ok_expr [OF e2 ok1] show ?thesis by (auto simp: session_ok_def zero_ok_def wf_nemu_def)
  qed
  ultimately show ?thesis by (simp add: session_ok_def)
qed

lemma session_ok_free_wp: "free_wp w s = Inr s' \<Longrightarrow> zero_ok s' = zero_ok s \<and> nemu_state s' = nemu_state s"
  by (auto simp: free_wp_def wp_upd_def zero_ok_def wf_nemu_def split: if_splits option.splits)

lemma session_ok_delete_wp: "delete_wp no s = Inr s' \<Longrightarrow> session_ok s \<Longrightarrow> session_ok s'"
proof -
  assume d: "delete_wp no s = Inr s'" and ok: "session_ok s"
  then obtain hs fs where l: "wp_lists s hs fs" by (auto simp: session_ok_def wp_wf_def)
  have "0 \<le> no" "no < int NR_WP" using d l by (auto simp: delete_wp_def wp_lists_def split: if_splits)
  from delete_wp_lists [OF l this] d have "wp_wf s'" unfolding wp_wf_def by (metis Inr_inject)
  moreover have "zero_ok s' = zero_ok s \<and> nemu_state s' = nemu_state s"
    using d by (auto simp: delete_wp_def split: if_splits dest: session_ok_free_wp)
  ultimately show ?thesis using ok by (simp add: session_ok_def)
qed

lemma run_command_keeps:
  assumes "run_command cf so d cmd args (r, s) = Inr (ret, out, r', s')" and ok: "session_ok s"
  shows "session_ok s'"
  using assms
  by (auto simp: run_command_def cmd_help_def cmd_c_def cmd_q_def cmd_info_def cmd_x_def cmd_si_def cmd_p_def
      cmd_w_def cmd_d_def split: if_splits option.splits
      intro: session_ok_cpu_exec session_ok_expr session_ok_add_wp session_ok_delete_wp session_ok_read_words)

text \<open>C9: whatever commands are typed, between two commands the machine is well formed with register
  zero at zero, the watchpoint lists partition the pool, and the machine is not running.\<close>

theorem session_invariant:
  assumes "session cf so d (r, s)"
  shows "zero_ok s \<and> wp_wf s \<and> state (nemu_state s) \<noteq> NEMU_RUNNING"
proof -
  have "session_ok (snd rs)" if "session cf so d rs" for rs
    using that
  proof (induction rule: session.induct)
    case (start s r)
    have "wp_wf (init_sdb s)" using init_wp_pool_lists by (auto simp: init_sdb_def wp_wf_def)
    with start show ?case
      by (simp add: session_ok_def) (simp add: init_sdb_def init_wp_pool_def zero_ok_def wf_nemu_def)
  next
    case (clear r s)
    then show ?case using wp_wf_same [of s "sdl_clear_event_queue s"]
      by (auto simp: session_ok_def sdl_clear_event_queue_def zero_ok_def wf_nemu_def same_wps_def)
  next
    case (command rs cmd args ret out rs')
    then show ?case using run_command_keeps by (cases rs; cases rs') auto
  qed
  from this [OF assms] show ?thesis by (simp add: session_ok_def)
qed

theorem session_invariant_witness:
  "\<exists>s. session default_config no_ref \<lparr>d_pc = 0, d_snpc = 0, d_dnpc = 0, d_inst = 0\<rparr> ((), s) \<and>
     state (nemu_state s) = NEMU_QUIT \<and> wp_wf s"
proof -
  let ?d = "\<lparr>d_pc = 0, d_snpc = 0, d_dnpc = 0, d_inst = 0\<rparr>"
  have "zero_ok blank_nemu" "state (nemu_state blank_nemu) = NEMU_STOP"
    by (simp_all add: zero_ok_def blank_nemu_def wf_nemu_def wf_cpu_def)
  from session.start [OF this] have "session default_config no_ref ?d ((), init_sdb blank_nemu)" .
  moreover have "run_command default_config no_ref ?d ''q'' None ((), init_sdb blank_nemu) =
      Inr (-1, OutNone, (), (init_sdb blank_nemu)\<lparr>nemu_state := (nemu_state (init_sdb blank_nemu))\<lparr>state := NEMU_QUIT\<rparr>\<rparr>)"
    by (simp add: run_command_def cmd_q_def)
  ultimately have s: "session default_config no_ref ?d
      ((), (init_sdb blank_nemu)\<lparr>nemu_state := (nemu_state (init_sdb blank_nemu))\<lparr>state := NEMU_QUIT\<rparr>\<rparr>)"
    by (rule session.command)
  from session_invariant [OF s] s show ?thesis by auto
qed

end
