(* ===== verification/Sdk.thy ===== *)
theory Sdk
  imports Nemu_Memory_Props
begin

text \<open>
  The board support drivers of \<^verbatim>\<open>libs/_sdk\<close>, run against the emulated devices: \<^verbatim>\<open>timer/timer.c\<close>,
  \<^verbatim>\<open>uart/uart.c\<close> and \<^verbatim>\<open>systick/systick.c\<close>. A pointer to a register block is the bus address of its
  first register and every volatile access is one bus access of the emulator, so a driver theorem
  speaks of the driver and the device together. What happens between two polls of a busy-wait loop
  (other instructions, device updates) is the argument \<open>env\<close>; such a loop is a
  \<open>partial_function (option)\<close>, whose value \<open>None\<close> means that it never returns.
\<close>

section \<open>Registers behind the bus\<close>

definition CPU_FREQ_HZ :: u32 where "CPU_FREQ_HZ = 25000000"
definition CPU_FREQ_MHZ :: u32 where "CPU_FREQ_MHZ = CPU_FREQ_HZ div 1000000"

definition TIM_BASE :: u32 where "TIM_BASE = 0x80010000"
definition UART_BASE :: u32 where "UART_BASE = 0x80020000"

text \<open>The members of \<^verbatim>\<open>TIM_Type\<close> and \<^verbatim>\<open>UART_Type\<close>, as offsets.\<close>

datatype tim_reg = TIM_cr | TIM_sr | TIM_psc | TIM_load | TIM_count
datatype uart_reg = UART_cr | UART_sr | UART_baud | UART_rxd | UART_txd

fun tim_off :: "tim_reg \<Rightarrow> u32" where
  "tim_off TIM_cr = 0x00"
| "tim_off TIM_sr = 0x04"
| "tim_off TIM_psc = 0x08"
| "tim_off TIM_load = 0x0c"
| "tim_off TIM_count = 0x10"

fun uart_off :: "uart_reg \<Rightarrow> u32" where
  "uart_off UART_cr = 0x00"
| "uart_off UART_sr = 0x04"
| "uart_off UART_baud = 0x08"
| "uart_off UART_rxd = 0x0c"
| "uart_off UART_txd = 0x10"

abbreviation tim_rd :: "config \<Rightarrow> u32 \<Rightarrow> tim_reg \<Rightarrow> nemu \<Rightarrow> (u32 \<times> nemu) res" where
  "tim_rd cf tim r s \<equiv> vaddr_read cf (tim + tim_off r) 4 s"

abbreviation tim_wr :: "config \<Rightarrow> u32 \<Rightarrow> tim_reg \<Rightarrow> u32 \<Rightarrow> nemu \<Rightarrow> nemu res" where
  "tim_wr cf tim r v s \<equiv> vaddr_write cf (tim + tim_off r) 4 v s"

abbreviation uart_rd :: "config \<Rightarrow> u32 \<Rightarrow> uart_reg \<Rightarrow> nemu \<Rightarrow> (u32 \<times> nemu) res" where
  "uart_rd cf uart r s \<equiv> vaddr_read cf (uart + uart_off r) 4 s"

abbreviation uart_wr :: "config \<Rightarrow> u32 \<Rightarrow> uart_reg \<Rightarrow> u32 \<Rightarrow> nemu \<Rightarrow> nemu res" where
  "uart_wr cf uart r v s \<equiv> vaddr_write cf (uart + uart_off r) 4 v s"

section \<open>Timer driver\<close>

definition TIM_CR_EN :: u32 where "TIM_CR_EN = 1"
definition TIM_SR_CLR_TUF :: u32 where "TIM_SR_CLR_TUF = 1"
definition TIM_EN :: u8 where "TIM_EN = 1"
definition TIM_DIS :: u8 where "TIM_DIS = 0"

definition timer_init :: "config \<Rightarrow> u32 \<Rightarrow> u32 \<Rightarrow> u32 \<Rightarrow> nemu \<Rightarrow> nemu res" where
  "timer_init cf tim psc val s =
     bindE (tim_rd cf tim TIM_cr s) (\<lambda>(cr, s1).
     bindE (tim_wr cf tim TIM_cr (cr AND NOT TIM_CR_EN) s1) (\<lambda>s2.
     bindE (tim_rd cf tim TIM_sr s2) (\<lambda>(sr, s3).
     bindE (tim_wr cf tim TIM_sr (sr OR TIM_SR_CLR_TUF) s3) (\<lambda>s4.
     bindE (tim_wr cf tim TIM_psc (if psc = 0 then 0 else psc + 1) s4) (\<lambda>s5.
     tim_wr cf tim TIM_load val s5)))))"

definition timer_control :: "config \<Rightarrow> u32 \<Rightarrow> u8 \<Rightarrow> nemu \<Rightarrow> nemu res" where
  "timer_control cf tim en s =
     bindE (tim_rd cf tim TIM_cr s) (\<lambda>(dummy, s1).
     tim_wr cf tim TIM_cr
       (if en = TIM_EN then dummy OR TIM_CR_EN else dummy AND NOT TIM_CR_EN) s1)"

definition timer_clearflag :: "config \<Rightarrow> u32 \<Rightarrow> u32 \<Rightarrow> nemu \<Rightarrow> nemu res" where
  "timer_clearflag cf tim flag s = tim_wr cf tim TIM_sr flag s"

section \<open>UART driver\<close>

definition UART_SR_FLAG_TXE :: u32 where "UART_SR_FLAG_TXE = 1"
definition UART_SR_FLAG_RXNE :: u32 where "UART_SR_FLAG_RXNE = 2"
definition UART_SR_CLR_TXE :: u32 where "UART_SR_CLR_TXE = 1"
definition UART_SR_CLR_RXNE :: u32 where "UART_SR_CLR_RXNE = 2"

definition uart_send :: "config \<Rightarrow> u32 \<Rightarrow> u8 \<Rightarrow> nemu \<Rightarrow> nemu res" where
  "uart_send cf uart data s =
     bindE (uart_wr cf uart UART_sr UART_SR_CLR_TXE s) (\<lambda>s1.
     uart_wr cf uart UART_txd (ucast data) s1)"

text \<open>The loops \<^verbatim>\<open>while (!(uart->sr & flag));\<close>.\<close>

partial_function (option) wait_flag ::
  "config \<Rightarrow> (nemu \<Rightarrow> nemu) \<Rightarrow> u32 \<Rightarrow> u32 \<Rightarrow> nemu \<Rightarrow> nemu res option" where
  "wait_flag cf env uart flag s = (case uart_rd cf uart UART_sr s of
     Inl e \<Rightarrow> Some (Inl e)
   | Inr (sr, s1) \<Rightarrow> if sr AND flag \<noteq> 0 then Some (Inr s1) else wait_flag cf env uart flag (env s1))"

definition bindO :: "'a res option \<Rightarrow> ('a \<Rightarrow> 'b res option) \<Rightarrow> 'b res option" where
  "bindO m f = (case m of None \<Rightarrow> None | Some (Inl e) \<Rightarrow> Some (Inl e) | Some (Inr x) \<Rightarrow> f x)"

definition uart_send_wait :: "config \<Rightarrow> (nemu \<Rightarrow> nemu) \<Rightarrow> u32 \<Rightarrow> u8 \<Rightarrow> nemu \<Rightarrow> nemu res option" where
  "uart_send_wait cf env uart data s =
     bindO (Some (uart_wr cf uart UART_txd (ucast data) s)) (\<lambda>s1.
     bindO (wait_flag cf env uart UART_SR_FLAG_TXE s1) (\<lambda>s2.
     Some (uart_wr cf uart UART_sr UART_SR_CLR_TXE s2)))"

definition uart_read :: "config \<Rightarrow> u32 \<Rightarrow> nemu \<Rightarrow> (u8 \<times> nemu) res" where
  "uart_read cf uart s =
     bindE (uart_rd cf uart UART_sr s) (\<lambda>(sr, s1).
     if sr AND UART_SR_FLAG_RXNE \<noteq> 0
     then bindE (uart_rd cf uart UART_rxd s1) (\<lambda>(rxd, s2).
          bindE (uart_wr cf uart UART_sr UART_SR_CLR_RXNE s2) (\<lambda>s3.
          Inr (ucast rxd, s3)))
     else Inr (0xFF, s1))"

definition uart_read_wait :: "config \<Rightarrow> (nemu \<Rightarrow> nemu) \<Rightarrow> u32 \<Rightarrow> nemu \<Rightarrow> (u8 \<times> nemu) res option" where
  "uart_read_wait cf env uart s =
     bindO (wait_flag cf env uart UART_SR_FLAG_RXNE s) (\<lambda>s1.
     Some (bindE (uart_rd cf uart UART_rxd s1) (\<lambda>(rxd, s2).
           bindE (uart_wr cf uart UART_sr UART_SR_CLR_RXNE s2) (\<lambda>s3.
           Inr (ucast rxd, s3)))))"

section \<open>Cycle counter\<close>

text \<open>
  The 64-bit cycle counter of the core, as the successive \<^verbatim>\<open>csrr\<close> instructions see it: \<open>clk n\<close> is its
  value at the \<open>n\<close>-th access, and a driver returns the number of the next access with its result.
\<close>

definition read_cycle :: "(nat \<Rightarrow> u64) \<Rightarrow> nat \<Rightarrow> u32 \<times> nat" where
  "read_cycle clk n = (ucast (clk n), Suc n)"

definition read_cycleh :: "(nat \<Rightarrow> u64) \<Rightarrow> nat \<Rightarrow> u32 \<times> nat" where
  "read_cycleh clk n = (ucast (drop_bit 32 (clk n)), Suc n)"

definition get_cycle_value :: "(nat \<Rightarrow> u64) \<Rightarrow> nat \<Rightarrow> u64 \<times> nat" where
  "get_cycle_value clk n =
     (let (lo, n1) = read_cycle clk n; (hi, n2) = read_cycleh clk n1
      in (ucast lo + push_bit 32 (ucast hi), n2))"

definition get_cyclel_value :: "(nat \<Rightarrow> u64) \<Rightarrow> nat \<Rightarrow> u32 \<times> nat" where
  "get_cyclel_value clk n = read_cycle clk n"

partial_function (option) spin_until :: "(nat \<Rightarrow> u64) \<Rightarrow> u64 \<Rightarrow> nat \<Rightarrow> nat option" where
  "spin_until clk stop n =
     (let (c, n1) = get_cycle_value clk n in if c < stop then spin_until clk stop n1 else Some n1)"

definition delay_us :: "(nat \<Rightarrow> u64) \<Rightarrow> u32 \<Rightarrow> nat \<Rightarrow> nat option" where
  "delay_us clk us n =
     (if us = 0 then Some n
      else let (start, n1) = get_cycle_value clk n;
               stop = start + ucast (us * CPU_FREQ_MHZ)
           in spin_until clk stop n1)"

fun delay_ms_loop :: "(nat \<Rightarrow> u64) \<Rightarrow> nat \<Rightarrow> nat \<Rightarrow> nat option" where
  "delay_ms_loop clk 0 n = Some n"
| "delay_ms_loop clk (Suc k) n = (case delay_us clk 1000 n of None \<Rightarrow> None | Some m \<Rightarrow> delay_ms_loop clk k m)"

definition delay_ms :: "(nat \<Rightarrow> u64) \<Rightarrow> u32 \<Rightarrow> nat \<Rightarrow> nat option" where
  "delay_ms clk ms n = (if ms = 0 then Some n else delay_ms_loop clk (unat ms) n)"

text \<open>The entry \<^verbatim>\<open>get_frequency\<close> of the platform table of \<^verbatim>\<open>libs/_abi/_abi.c\<close>.\<close>

definition get_frequency :: u32 where "get_frequency = CPU_FREQ_HZ"

end
