(* ===== verification/Sdk_Props.thy ===== *)
theory Sdk_Props
  imports Sdk
begin

text \<open>
  The drivers of \<^verbatim>\<open>libs/_sdk\<close> together with the emulated devices: what a register access does through
  the bus, what starting the timer makes it do, what sending and receiving a byte does to the
  terminal, and what the delay functions guarantee.
\<close>

section \<open>Register accesses\<close>

text \<open>
  \<open>wired\<close> says that a register block of twenty bytes is registered on the bus with the given
  callback; \<open>init_device\<close> establishes it for the timer and the UART.
\<close>

definition wired :: "config \<Rightarrow> u32 \<Rightarrow> nat \<Rightarrow> io_callback \<Rightarrow> nemu \<Rightarrow> bool" where
  "wired cf b sp cb s \<longleftrightarrow> CONFIG_DEVICE cf \<and> maps_ok cf (maps s) \<and> sp + 20 \<le> IO_SPACE_MAX \<and>
     (\<exists>m \<in> set (maps s). low m = b \<and> high m = b + 19 \<and> space m = sp \<and> callback m = cb) \<and>
     (\<forall>k \<le> 19. b \<le> b + k \<and> b + k \<le> b + 19 \<and> \<not> in_pmem cf (b + k))"

lemma wired_cong: "maps s = maps s' \<Longrightarrow> wired cf b sp cb s = wired cf b sp cb s'"
  by (simp add: wired_def)

lemma wired_read:
  assumes "wired cf b sp cb s" and "k + 4 \<le> 20"
  shows "vaddr_read cf (b + of_nat k) 4 s =
     bindE (invoke_callback cb (of_nat k) 4 False (difftest_skip_ref cf s)) (\<lambda>s1.
       Inr (le_read (io_space s1) (sp + k) 4, s1))"
proof -
  from assms(1) obtain m where m: "m \<in> set (maps s)" "low m = b" "high m = b + 19" "space m = sp"
    "callback m = cb" and w: "CONFIG_DEVICE cf" "maps_ok cf (maps s)" "sp + 20 \<le> IO_SPACE_MAX"
    and k: "\<forall>k \<le> 19. b \<le> b + k \<and> b + k \<le> b + 19 \<and> \<not> in_pmem cf (b + k)"
    by (auto simp: wired_def)
  have kw: "(of_nat k :: u32) \<le> 19" and ku: "unat (of_nat k :: u32) = k"
    using assms(2) by (simp_all add: word_le_nat_alt unat_of_nat)
  with k have "b \<le> b + of_nat k" "b + of_nat k \<le> b + 19" "\<not> in_pmem cf (b + of_nat k)" by auto
  with m have in_m: "map_inside m (b + of_nat k)" by (simp add: map_inside_def)
  show ?thesis
    using \<open>\<not> in_pmem cf (b + of_nat k)\<close> w m in_m assms(2) ku
    by (simp add: vaddr_read_def paddr_read_def mmio_read_def fetch_mmio_map_found [OF w(2) m(1) in_m]
        map_read_def check_bound_def map_inside_def host_read_def Let_def)
qed

lemma wired_write:
  assumes "wired cf b sp cb s" and "k + 4 \<le> 20"
  shows "vaddr_write cf (b + of_nat k) 4 v s =
     invoke_callback cb (of_nat k) 4 True
       ((difftest_skip_ref cf s)\<lparr>io_space := le_write (io_space s) (sp + k) 4 v\<rparr>)"
proof -
  from assms(1) obtain m where m: "m \<in> set (maps s)" "low m = b" "high m = b + 19" "space m = sp"
    "callback m = cb" and w: "CONFIG_DEVICE cf" "maps_ok cf (maps s)" "sp + 20 \<le> IO_SPACE_MAX"
    and k: "\<forall>k \<le> 19. b \<le> b + k \<and> b + k \<le> b + 19 \<and> \<not> in_pmem cf (b + k)"
    by (auto simp: wired_def)
  have kw: "(of_nat k :: u32) \<le> 19" and ku: "unat (of_nat k :: u32) = k"
    using assms(2) by (simp_all add: word_le_nat_alt unat_of_nat)
  with k have "b \<le> b + of_nat k" "b + of_nat k \<le> b + 19" "\<not> in_pmem cf (b + of_nat k)" by auto
  with m have in_m: "map_inside m (b + of_nat k)" by (simp add: map_inside_def)
  show ?thesis
    using \<open>\<not> in_pmem cf (b + of_nat k)\<close> w m in_m assms(2) ku
    by (simp add: vaddr_write_def paddr_write_def mmio_write_def fetch_mmio_map_found [OF w(2) m(1) in_m]
        map_write_def check_bound_def map_inside_def host_write_def Let_def)
qed

section \<open>The timer driver\<close>

definition timer_wired :: "config \<Rightarrow> nemu \<Rightarrow> bool" where
  "timer_wired cf s \<longleftrightarrow> wired cf TIM_BASE (timer_base s) CbHwTimer s"

lemma timer_wired_frame [simp]:
  "timer_wired cf (s\<lparr>hwdev_timer_p := p\<rparr>) = timer_wired cf s"
  "timer_wired cf (s\<lparr>io_space := io\<rparr>) = timer_wired cf s"
  "timer_wired cf (io_set32 b i v s) = timer_wired cf s"
  "timer_wired cf (difftest_skip_ref cf' s) = timer_wired cf s"
  by (simp_all add: timer_wired_def wired_def)

text \<open>The accesses the driver makes, on a machine with a timer.\<close>

lemma tim_rd_cr:
  assumes "timer_wired cf s" and "hwdev_timer_p s = Some t"
  shows "tim_rd cf TIM_BASE TIM_cr s = Inr (io_get32 (timer_base s) 0 s, difftest_skip_ref cf s)"
  using assms wired_read [of cf TIM_BASE "timer_base s" CbHwTimer s 0]
  by (simp add: timer_wired_def invoke_callback_def hwdev_timer_io_handler_def Let_def io_get32_def)

lemma tim_rd_sr:
  assumes "timer_wired cf s" and "hwdev_timer_p s = Some t"
  shows "tim_rd cf TIM_BASE TIM_sr s = Inr (t_sr t, io_set32 (timer_base s) 1 (t_sr t) (difftest_skip_ref cf s))"
  using assms wired_read [of cf TIM_BASE "timer_base s" CbHwTimer s 4]
    io_get32_set32_same [of "timer_base s" 1 "t_sr t" "difftest_skip_ref cf s"]
  by (simp add: timer_wired_def invoke_callback_def hwdev_timer_io_handler_def Let_def io_get32_def
      del: io_get32_set32_same)

lemma tim_wr_cr:
  assumes "timer_wired cf s" and "hwdev_timer_p s = Some t"
  shows "tim_wr cf TIM_BASE TIM_cr v s = Inr ((io_set32 (timer_base s) 0 v (difftest_skip_ref cf s))
     \<lparr>hwdev_timer_p := Some (if v AND 1 = 0 then t\<lparr>t_cr := v, t_clk_cnt := 0, t_count := 0\<rparr>
        else t\<lparr>t_cr := v\<rparr>)\<rparr>)"
  using assms wired_write [of cf TIM_BASE "timer_base s" CbHwTimer s 0 v]
    io_get32_set32_same [of "timer_base s" 0 v "difftest_skip_ref cf s"]
  by (simp add: timer_wired_def invoke_callback_def hwdev_timer_io_handler_def Let_def io_set32_def)

lemma tim_wr_sr:
  assumes "timer_wired cf s" and "hwdev_timer_p s = Some t" and "v AND 1 \<noteq> 0"
  shows "tim_wr cf TIM_BASE TIM_sr v s = Inr (io_set32 (timer_base s) 1 0
     ((io_set32 (timer_base s) 1 v (difftest_skip_ref cf s))\<lparr>hwdev_timer_p := Some (t\<lparr>t_sr := 0\<rparr>)\<rparr>))"
  using assms wired_write [of cf TIM_BASE "timer_base s" CbHwTimer s 4 v]
    io_get32_set32_same [of "timer_base s" 1 v "difftest_skip_ref cf s"]
  by (simp add: timer_wired_def invoke_callback_def hwdev_timer_io_handler_def Let_def io_set32_def)

lemma tim_wr_psc:
  assumes "timer_wired cf s" and "hwdev_timer_p s = Some t"
  shows "tim_wr cf TIM_BASE TIM_psc v s = Inr ((io_set32 (timer_base s) 2 v (difftest_skip_ref cf s))
     \<lparr>hwdev_timer_p := Some (t\<lparr>t_psc := v\<rparr>)\<rparr>)"
  using assms wired_write [of cf TIM_BASE "timer_base s" CbHwTimer s 8 v]
    io_get32_set32_same [of "timer_base s" 2 v "difftest_skip_ref cf s"]
  by (simp add: timer_wired_def invoke_callback_def hwdev_timer_io_handler_def Let_def io_set32_def)

lemma tim_wr_load:
  assumes "timer_wired cf s" and "hwdev_timer_p s = Some t"
  shows "tim_wr cf TIM_BASE TIM_load v s = Inr ((io_set32 (timer_base s) 3 v (difftest_skip_ref cf s))
     \<lparr>hwdev_timer_p := Some (t\<lparr>t_load := v\<rparr>)\<rparr>)"
  using assms wired_write [of cf TIM_BASE "timer_base s" CbHwTimer s 12 v]
    io_get32_set32_same [of "timer_base s" 3 v "difftest_skip_ref cf s"]
  by (simp add: timer_wired_def invoke_callback_def hwdev_timer_io_handler_def Let_def io_set32_def)

lemmas tim_access = tim_rd_cr tim_rd_sr tim_wr_cr tim_wr_sr tim_wr_psc tim_wr_load

text \<open>The control register as the bus shows it; the timer keeps its own copy.\<close>

abbreviation cr_shown :: "nemu \<Rightarrow> u32" where
  "cr_shown s \<equiv> io_get32 (timer_base s) 0 s"

lemma and_not_1: "(x AND - 2) AND 1 = (0::u32)" and or_1: "(x OR 1) AND 1 = (1::u32)"
proof -
  have "(x AND NOT 1) AND 1 = (0::u32)" by (rule bit_word_eqI) (auto simp: bit_simps)
  then show "(x AND - 2) AND 1 = (0::u32)" by simp
  show "(x OR 1) AND 1 = (1::u32)" by (rule bit_word_eqI) (auto simp: bit_simps)
qed

lemma io_get32_frame [simp]:
  "io_get32 b i (s\<lparr>hwdev_timer_p := p\<rparr>) = io_get32 b i s"
  "io_get32 b i (s\<lparr>hwdev_uart_p := q\<rparr>) = io_get32 b i s"
  "io_get32 b i (s\<lparr>host_out := out\<rparr>) = io_get32 b i s"
  "io_get32 b i (difftest_skip_ref cf s) = io_get32 b i s"
  by (simp_all add: io_get32_def)

lemma timer_init_effect:
  assumes "timer_wired cf s" and "hwdev_timer_p s = Some t"
  shows "\<exists>s'. timer_init cf TIM_BASE psc val s = Inr s' \<and> timer_wired cf s' \<and>
     hwdev_timer_p s' = Some \<lparr>t_cr = cr_shown s AND NOT 1, t_sr = 0,
       t_psc = (if psc = 0 then 0 else psc + 1), t_load = val, t_count = 0, t_clk_cnt = 0\<rparr> \<and>
     cr_shown s' = cr_shown s AND NOT 1 \<and> timer_base s' = timer_base s \<and>
     timer_intr_pending s' = timer_intr_pending s"
  using assms
  by (cases t) (simp add: timer_init_def tim_access TIM_CR_EN_def TIM_SR_CLR_TUF_def and_not_1 or_1
      del: tim_off.simps)

lemma timer_control_effect:
  assumes "timer_wired cf s" and "hwdev_timer_p s = Some t"
  shows "timer_control cf TIM_BASE en s =
     Inr ((io_set32 (timer_base s) 0 (if en = TIM_EN then cr_shown s OR 1 else cr_shown s AND - 2)
             (difftest_skip_ref cf (difftest_skip_ref cf s)))\<lparr>hwdev_timer_p := Some
       (if en = TIM_EN then t\<lparr>t_cr := cr_shown s OR 1\<rparr>
        else t\<lparr>t_cr := cr_shown s AND - 2, t_clk_cnt := 0, t_count := 0\<rparr>)\<rparr>)"
  using assms
  by (simp add: timer_control_def tim_access TIM_CR_EN_def and_not_1 or_1 del: tim_off.simps)

text \<open>C24: initialising the timer with a prescaler and a reload value and enabling it makes the device
  raise its first interrupt after one prescaled tick and then one every \<open>(load + 1)\<close> prescaled ticks,
  where the driver has programmed a tick of \<open>psc + 2\<close> clocks (one clock if \<open>psc\<close> is zero).\<close>

theorem timer_start:
  assumes "timer_wired cf s" and "hwdev_timer_p s = Some t" and "psc \<noteq> - 1" and "psc \<noteq> - 2"
  defines "tick \<equiv> (if psc = 0 then 1 else unat psc + 2)"
  shows "\<exists>s1 s2 t'. timer_init cf TIM_BASE psc val s = Inr s1 \<and>
     timer_control cf TIM_BASE TIM_EN s1 = Inr s2 \<and>
     (\<forall>n < tick. timer_intr_pending ((hwdev_timer_update ^^ n) s2) = timer_intr_pending s) \<and>
     timer_intr_pending ((hwdev_timer_update ^^ tick) s2) \<and>
     hwdev_timer_p ((hwdev_timer_update ^^ tick) s2) = Some t' \<and> timer_running t' \<and>
     timer_phase t' + 1 = (unat val + 1) * tick"
proof -
  from timer_init_effect [OF assms(1,2), of psc val] obtain s1 where
    s1: "timer_init cf TIM_BASE psc val s = Inr s1" "timer_wired cf s1"
    "hwdev_timer_p s1 = Some \<lparr>t_cr = cr_shown s AND NOT 1, t_sr = 0,
       t_psc = (if psc = 0 then 0 else psc + 1), t_load = val, t_count = 0, t_clk_cnt = 0\<rparr>"
    "timer_intr_pending s1 = timer_intr_pending s" by blast
  let ?t = "\<lparr>t_cr = cr_shown s1 OR 1, t_sr = 0,
       t_psc = (if psc = 0 then 0 else psc + 1), t_load = val, t_count = 0, t_clk_cnt = 0\<rparr>"
  from timer_control_effect [OF s1(2,3), of TIM_EN] obtain s2 where
    s2: "timer_control cf TIM_BASE TIM_EN s1 = Inr s2" "hwdev_timer_p s2 = Some ?t"
      "timer_intr_pending s2 = timer_intr_pending s1" by simp
  have p1: "psc \<noteq> 0 \<Longrightarrow> unat (psc + 1) = unat psc + 1"
    using assms(3) by (simp add: unat_Suc_max)
  have "psc + 1 \<noteq> - 1" using assms(4) by (simp add: eq_neg_iff_add_eq_0 add.assoc)
  then have run: "timer_running ?t" by (simp add: timer_running_def or_1)
  have ph: "timer_phase ?t + 1 = tick" using p1 by (simp add: timer_phase_def tick_def)
  then have lt: "\<And>n. n < tick \<longleftrightarrow> n \<le> timer_phase ?t" by linarith
  have ld: "(unat val + 1) * (unat (t_psc ?t) + 1) = (unat val + 1) * tick"
    using p1 by (simp add: tick_def)
  from timer_fires [OF s2(2) run, unfolded ph] obtain t' where
    "\<forall>n \<le> timer_phase ?t. timer_intr_pending ((hwdev_timer_update ^^ n) s2) = timer_intr_pending s2"
    "hwdev_timer_p ((hwdev_timer_update ^^ tick) s2) = Some t'"
    "timer_intr_pending ((hwdev_timer_update ^^ tick) s2)" "timer_running t'"
    "timer_phase t' + 1 = (unat val + 1) * tick"
    unfolding hw_timer.select_convs ld [simplified hw_timer.select_convs] by blast
  with s1(1,4) s2(1,3) lt show ?thesis by metis
qed

section \<open>The UART driver\<close>

definition uart_wired :: "config \<Rightarrow> nemu \<Rightarrow> bool" where
  "uart_wired cf s \<longleftrightarrow> wired cf UART_BASE (uart_base s) CbHwUart s"

lemma uart_wired_frame [simp]:
  "uart_wired cf (s\<lparr>hwdev_uart_p := p\<rparr>) = uart_wired cf s"
  "uart_wired cf (s\<lparr>host_out := out\<rparr>) = uart_wired cf s"
  "uart_wired cf (s\<lparr>host_stdin := inp\<rparr>) = uart_wired cf s"
  "uart_wired cf (io_set32 b i v s) = uart_wired cf s"
  "uart_wired cf (difftest_skip_ref cf' s) = uart_wired cf s"
  by (simp_all add: uart_wired_def wired_def)

lemma uart_rd_sr:
  assumes "uart_wired cf s" and "hwdev_uart_p s = Some u"
  shows "uart_rd cf UART_BASE UART_sr s = Inr (u_sr u, io_set32 (uart_base s) 1 (u_sr u) (difftest_skip_ref cf s))"
  using assms wired_read [of cf UART_BASE "uart_base s" CbHwUart s 4]
    io_get32_set32_same [of "uart_base s" 1 "u_sr u" "difftest_skip_ref cf s"]
  by (simp add: uart_wired_def invoke_callback_def hwdev_uart_io_handler_def Let_def io_get32_def
      del: io_get32_set32_same)

lemma uart_wr_sr:
  assumes "uart_wired cf s" and "hwdev_uart_p s = Some u"
  shows "uart_wr cf UART_BASE UART_sr v s = Inr ((io_set32 (uart_base s) 1 v (difftest_skip_ref cf s))
     \<lparr>hwdev_uart_p := Some (u\<lparr>u_sr := u_sr u AND NOT (v AND 3)\<rparr>)\<rparr>)"
  using assms wired_write [of cf UART_BASE "uart_base s" CbHwUart s 4 v]
    io_get32_set32_same [of "uart_base s" 1 v "difftest_skip_ref cf s"]
  by (simp add: uart_wired_def invoke_callback_def hwdev_uart_io_handler_def Let_def io_set32_def
      SR_TX_FLAG_def SR_RX_FLAG_def)

lemma uart_rd_rxd:
  assumes "uart_wired cf s" and "hwdev_uart_p s = Some u" and "u_has_data u"
  shows "uart_rd cf UART_BASE UART_rxd s = Inr (u_rxd u, io_set32 (uart_base s) 3 (u_rxd u)
     ((difftest_skip_ref cf s)\<lparr>hwdev_uart_p := Some (u\<lparr>u_sr := u_sr u AND NOT 2, u_has_data := False\<rparr>)\<rparr>))"
  using assms wired_read [of cf UART_BASE "uart_base s" CbHwUart s 12]
    io_get32_set32_same [of "uart_base s" 3 "u_rxd u"
      "(difftest_skip_ref cf s)\<lparr>hwdev_uart_p := Some (u\<lparr>u_sr := u_sr u AND NOT 2, u_has_data := False\<rparr>)\<rparr>"]
  by (simp add: uart_wired_def invoke_callback_def hwdev_uart_io_handler_def Let_def io_get32_def
      SR_RX_FLAG_def del: io_get32_set32_same)

lemma bit_255: "bit (0xFF :: int) n \<longleftrightarrow> n < 8"
proof -
  have m: "(0xFF :: int) = mask 8" by (simp add: mask_eq_exp_minus_1)
  show ?thesis by (subst m) (auto simp: bit_mask_iff)
qed

lemma uart_wr_txd:
  assumes "uart_wired cf s" and "hwdev_uart_p s = Some u"
  shows "uart_wr cf UART_BASE UART_txd v s = Inr (if u_cr u AND 1 \<noteq> 0
     then (uart_putc (ucast v) (io_set32 (uart_base s) 4 v (difftest_skip_ref cf s)))
            \<lparr>hwdev_uart_p := Some (u\<lparr>u_txd := v AND 0xFF, u_sr := u_sr u OR 1\<rparr>)\<rparr>
     else (io_set32 (uart_base s) 4 v (difftest_skip_ref cf s))
            \<lparr>hwdev_uart_p := Some (u\<lparr>u_txd := v AND 0xFF\<rparr>)\<rparr>)"
proof -
  have "v AND 0xFF = take_bit 8 v"
    by (rule bit_word_eqI) (auto simp: bit_and_iff bit_255 bit_take_bit_iff)
  then have "ucast (v AND 0xFF) = (ucast v :: u8)"
    by (simp add: unsigned_take_bit_eq take_bit_word_eq_self)
  then show ?thesis
    using assms wired_write [of cf UART_BASE "uart_base s" CbHwUart s 16 v]
      io_get32_set32_same [of "uart_base s" 4 v "difftest_skip_ref cf s"]
    by (simp add: uart_wired_def invoke_callback_def hwdev_uart_io_handler_def Let_def io_set32_def
        SR_TX_FLAG_def)
qed

text \<open>
  \<open>uview\<close> is what the UART driver and the memory of the guest can tell apart; \<open>rx_stream\<close> is the
  input that has not been handed to the guest yet: the byte in the receiver, then what the terminal
  will deliver. In the state \<open>rx_ok\<close> the receiver is enabled and its flag tells whether it holds a byte.
\<close>

definition uview :: "nemu \<Rightarrow> hw_uart option \<times> u8 option list \<times> u8 list \<times> iomap list \<times> nat \<times> (nat \<Rightarrow> u8)" where
  "uview s = (hwdev_uart_p s, host_stdin s, host_out s, maps s, uart_base s, pmem s)"

definition rx_ok :: "nemu \<Rightarrow> bool" where
  "rx_ok s \<longleftrightarrow> (\<exists>u. hwdev_uart_p s = Some u \<and> u_cr u AND 2 \<noteq> 0 \<and> (u_has_data u \<longleftrightarrow> u_sr u AND 2 \<noteq> 0))"

definition tx_on :: "nemu \<Rightarrow> bool" where
  "tx_on s \<longleftrightarrow> (\<exists>u. hwdev_uart_p s = Some u \<and> u_cr u AND 1 \<noteq> 0)"

definition rx_stream :: "nemu \<Rightarrow> u8 list" where
  "rx_stream s = (case hwdev_uart_p s of None \<Rightarrow> [] | Some u \<Rightarrow> if u_has_data u then [ucast (u_rxd u)] else [])
     @ List.map_filter id (host_stdin s)"

lemma uview_frame [simp]:
  "uview (io_set32 b i v s) = uview s"
  "uview (difftest_skip_ref cf s) = uview s"
  by (simp_all add: uview_def io_set32_def difftest_skip_ref_def)

lemma host_frame [simp]:
  "host_stdin (io_set32 b i v s) = host_stdin s"
  "host_stdin (difftest_skip_ref cf s) = host_stdin s"
  "host_out (difftest_skip_ref cf s) = host_out s"
  by (simp_all add: io_set32_def difftest_skip_ref_def)

lemma uview_cong:
  assumes "uview s = uview s'"
  shows "uart_wired cf s = uart_wired cf s'" and "rx_ok s = rx_ok s'" and "rx_stream s = rx_stream s'"
    and "hwdev_uart_p s = hwdev_uart_p s'" and "host_stdin s = host_stdin s'" and "pmem s = pmem s'"
    and "host_out s = host_out s'" and "tx_on s = tx_on s'"
  using assms by (auto simp: uview_def uart_wired_def wired_def rx_ok_def rx_stream_def tx_on_def)

text \<open>
  The world between two polls: after \<open>m s\<close> more polls the devices are updated once; \<^verbatim>\<open>device_update\<close>
  paces itself on the host clock.
\<close>

definition paced :: "config \<Rightarrow> (nemu \<Rightarrow> nemu) \<Rightarrow> (nemu \<Rightarrow> nat) \<Rightarrow> bool" where
  "paced cf env m \<longleftrightarrow>
     (\<forall>s. if m s = 0 then uview (env s) = uview (hwdev_uart_update s)
          else uview (env s) = uview s \<and> m (env s) < m s) \<and>
     (\<forall>s b i v. m (io_set32 b i v (difftest_skip_ref cf s)) = m s)"

lemma rx_update:
  assumes "rx_ok s"
  shows "rx_ok (hwdev_uart_update s)" and "rx_stream (hwdev_uart_update s) = rx_stream s"
    and "uart_wired cf (hwdev_uart_update s) = uart_wired cf s" and "pmem (hwdev_uart_update s) = pmem s"
    and "host_out (hwdev_uart_update s) = host_out s" and "tx_on (hwdev_uart_update s) = tx_on s"
proof -
  obtain u where u: "hwdev_uart_p s = Some u" "u_cr u AND 2 \<noteq> 0" "u_has_data u \<longleftrightarrow> u_sr u AND 2 \<noteq> 0"
    using assms by (auto simp: rx_ok_def)
  have or2: "(x OR 2) AND 2 \<noteq> (0::u32)" for x
  proof
    assume "(x OR 2) AND 2 = 0"
    then have "\<not> bit ((x OR 2) AND 2) 1" by simp
    then show False by (simp add: bit_simps)
  qed
  have uc: "ucast (ucast c :: u32) = (c :: u8)" for c
    by (rule bit_word_eqI) (auto simp: bit_simps dest: bit_imp_le_length)
  show "rx_ok (hwdev_uart_update s)" "rx_stream (hwdev_uart_update s) = rx_stream s"
    "uart_wired cf (hwdev_uart_update s) = uart_wired cf s" "pmem (hwdev_uart_update s) = pmem s"
    "host_out (hwdev_uart_update s) = host_out s" "tx_on (hwdev_uart_update s) = tx_on s"
    using u or2 uc
    by (auto simp: hwdev_uart_update_def try_read_keyboard_def rx_ok_def rx_stream_def tx_on_def uart_wired_def
        wired_def SR_RX_FLAG_def List.map_filter_simps split: list.split option.split)
qed

subsection \<open>Sending\<close>

lemma wait_flag_set:
  assumes "uart_wired cf s" and "hwdev_uart_p s = Some u" and "u_sr u AND flag \<noteq> 0"
  shows "wait_flag cf env UART_BASE flag s =
     Some (Inr (io_set32 (uart_base s) 1 (u_sr u) (difftest_skip_ref cf s)))"
  using assms by (subst wait_flag.simps) (simp add: uart_rd_sr del: uart_off.simps)

lemma wait_flag_clear:
  assumes "uart_wired cf s" and "hwdev_uart_p s = Some u" and "u_sr u AND flag = 0"
  shows "wait_flag cf env UART_BASE flag s =
     wait_flag cf env UART_BASE flag (env (io_set32 (uart_base s) 1 (u_sr u) (difftest_skip_ref cf s)))"
  using assms by (subst wait_flag.simps) (simp add: uart_rd_sr del: uart_off.simps)

lemma wait_flag_stuck_Some:
  "wait_flag cf env uart flag s = Some r \<Longrightarrow>
   \<not> (uart = UART_BASE \<and> (\<forall>s. uview (env s) = uview s) \<and> uart_wired cf s \<and>
      hwdev_uart_p s = Some u \<and> u_sr u AND flag = 0)"
proof (induction rule: wait_flag.raw_induct [rotated 1, consumes 1])
  case (1 wait_flag' cf env uart flag s r)
  show ?case
  proof
    assume stuck: "uart = UART_BASE \<and> (\<forall>s. uview (env s) = uview s) \<and> uart_wired cf s \<and>
      hwdev_uart_p s = Some u \<and> u_sr u AND flag = 0"
    let ?s = "io_set32 (uart_base s) 1 (u_sr u) (difftest_skip_ref cf s)"
    from 1(2) stuck have "wait_flag' cf env UART_BASE flag (env ?s) = Some r"
      by (simp add: uart_rd_sr del: uart_off.simps)
    moreover have "uview (env ?s) = uview s" using stuck by simp
    ultimately show False using 1(1) stuck uview_cong(1,4) [where s = "env ?s" and s' = s] by metis
  qed
qed

lemma wait_flag_stuck:
  assumes "\<forall>s. uview (env s) = uview s" and "uart_wired cf s" and "hwdev_uart_p s = Some u"
    and "u_sr u AND flag = 0"
  shows "wait_flag cf env UART_BASE flag s = None"
  using wait_flag_stuck_Some [of cf env UART_BASE flag s _ u] assms
  by (cases "wait_flag cf env UART_BASE flag s") auto

lemma uart_send_wait_on:
  assumes "uart_wired cf s" and "hwdev_uart_p s = Some u" and on: "u_cr u AND 1 \<noteq> 0"
  shows "\<exists>s'. uart_send_wait cf env UART_BASE c s = Some (Inr s') \<and> cpu s' = cpu s \<and>
       uview s' = uview (s\<lparr>host_out := host_out s @ [c],
         hwdev_uart_p := Some (u\<lparr>u_txd := ucast c, u_sr := u_sr u AND NOT 1\<rparr>)\<rparr>)"
proof -
  have uc: "ucast (ucast c :: u32) = c" "(ucast c :: u32) AND 0xFF = ucast c"
    by (rule bit_word_eqI; auto simp: bit_simps bit_255 dest: bit_imp_le_length)+
  have sr: "(x OR 1) AND - 2 = x AND (- 2 :: u32)" for x
  proof -
    have "(x OR 1) AND NOT 1 = x AND (NOT 1 :: u32)" by (rule bit_word_eqI) (auto simp: bit_simps)
    then show ?thesis by simp
  qed
  show ?thesis
    using assms uc
    by (simp add: uart_send_wait_def bindO_def uart_wr_txd uart_putc_def wait_flag_set
        UART_SR_FLAG_TXE_def UART_SR_CLR_TXE_def or_1 uart_wr_sr del: uart_off.simps)
       (simp add: uview_def io_set32_def difftest_skip_ref_def sr)
qed

lemma uart_send_wait_off:
  assumes "uart_wired cf s" and "hwdev_uart_p s = Some u" and "u_cr u AND 1 = 0" and "u_sr u AND 1 = 0"
    and "\<forall>s. uview (env s) = uview s"
  shows "uart_send_wait cf env UART_BASE c s = None"
proof -
  have uc: "(ucast c :: u32) AND 0xFF = ucast c"
    by (rule bit_word_eqI) (auto simp: bit_simps bit_255 dest: bit_imp_le_length)
  show ?thesis
    using assms wait_flag_stuck [OF assms(5), of cf _ "u\<lparr>u_txd := ucast c AND 0xFF\<rparr>" UART_SR_FLAG_TXE]
    by (simp add: uart_send_wait_def bindO_def uart_wr_txd uc UART_SR_FLAG_TXE_def del: uart_off.simps)
qed


subsection \<open>Receiving\<close>

lemma wait_flag_ready:
  assumes "paced cf env m"
  shows "uart_wired cf s \<Longrightarrow> rx_ok s \<Longrightarrow> rx_stream s \<noteq> [] \<Longrightarrow>
    \<exists>s' u. wait_flag cf env UART_BASE UART_SR_FLAG_RXNE s = Some (Inr s') \<and> uart_wired cf s' \<and> rx_ok s' \<and>
      rx_stream s' = rx_stream s \<and> pmem s' = pmem s \<and> host_out s' = host_out s \<and>
      tx_on s' = tx_on s \<and> hwdev_uart_p s' = Some u \<and> u_has_data u"
proof (induction "(length (host_stdin s), m s)" arbitrary: s rule: wf_induct [OF wf_lex_prod [OF wf_less_than wf_less_than]])
  case 1
  from 1(3) obtain u where u: "hwdev_uart_p s = Some u" "u_cr u AND 2 \<noteq> 0" "u_has_data u \<longleftrightarrow> u_sr u AND 2 \<noteq> 0"
    by (auto simp: rx_ok_def)
  let ?s1 = "io_set32 (uart_base s) 1 (u_sr u) (difftest_skip_ref cf s)"
  note same = uview_cong [OF uview_frame(1) [of "uart_base s" 1 "u_sr u" "difftest_skip_ref cf s", simplified uview_frame(2)]]
  show ?case
  proof (cases "u_has_data u")
    case True
    then show ?thesis
      using wait_flag_set [OF 1(2) u(1)] u(1,3) 1(2-4) same by (auto simp: UART_SR_FLAG_RXNE_def)
  next
    case False
    with wait_flag_clear [OF 1(2) u(1)] u(3)
    have w: "wait_flag cf env UART_BASE UART_SR_FLAG_RXNE s = wait_flag cf env UART_BASE UART_SR_FLAG_RXNE (env ?s1)"
      by (simp add: UART_SR_FLAG_RXNE_def)
    have m1: "m ?s1 = m s" using assms by (simp add: paced_def)
    define t where "t = (if m s = 0 then hwdev_uart_update ?s1 else ?s1)"
    have t: "uview (env ?s1) = uview t" using assms m1 by (auto simp: paced_def t_def)
    have ok1: "rx_ok ?s1" using 1(3) same(2) by simp
    have inv: "uart_wired cf t" "rx_ok t" "rx_stream t = rx_stream s" "pmem t = pmem s" "host_out t = host_out s"
      "tx_on t = tx_on s"
      using rx_update [OF ok1] same 1(2,3) by (auto simp: t_def)
    have "host_stdin s \<noteq> []"
      using 1(4) False u(1) by (auto simp: rx_stream_def List.map_filter_simps)
    moreover have "m s \<noteq> 0 \<Longrightarrow> m (env ?s1) < m s" using assms m1 by (metis paced_def)
    ultimately have "((length (host_stdin (env ?s1)), m (env ?s1)), length (host_stdin s), m s)
        \<in> less_than <*lex*> less_than"
      using assms m1 u False same(4,5) uview_cong(5) [OF t]
      by (cases "host_stdin s")
        (auto simp: paced_def t_def hwdev_uart_update_def try_read_keyboard_def split: option.split)
    moreover note uview_cong [OF t]
    ultimately show ?thesis using 1(1) inv 1(4) w by (metis (no_types, lifting))
  qed
qed

lemma take_byte:
  assumes "uart_wired cf s" and "rx_ok s" and "hwdev_uart_p s = Some u" and "u_has_data u"
  shows "\<exists>s'. bindE (uart_rd cf UART_BASE UART_rxd s) (\<lambda>(rxd, s2).
       bindE (uart_wr cf UART_BASE UART_sr UART_SR_CLR_RXNE s2) (\<lambda>s3. Inr (ucast rxd, s3)))
       = Inr (hd (rx_stream s), s') \<and> uart_wired cf s' \<and> rx_ok s' \<and> rx_stream s' = tl (rx_stream s) \<and>
       pmem s' = pmem s \<and> host_out s' = host_out s \<and> tx_on s' = tx_on s"
proof -
  have z: "(x AND - 3) AND - 3 AND 2 = (0::u32)" for x
  proof -
    have "(x AND NOT 2) AND NOT 2 AND 2 = (0::u32)" by (rule bit_word_eqI) (auto simp: bit_simps)
    then show ?thesis by simp
  qed
  show ?thesis
    using assms z
    by (auto simp: uart_rd_rxd uart_wr_sr rx_ok_def rx_stream_def tx_on_def UART_SR_CLR_RXNE_def
        and.assoc simp del: uart_off.simps)
qed

lemma uart_read_wait_next:
  assumes "uart_wired cf s" and "rx_ok s" and "paced cf env m" and "rx_stream s = c # cs"
  shows "\<exists>s'. uart_read_wait cf env UART_BASE s = Some (Inr (c, s')) \<and> uart_wired cf s' \<and> rx_ok s' \<and>
         rx_stream s' = cs \<and> pmem s' = pmem s \<and> host_out s' = host_out s \<and> tx_on s' = tx_on s"
proof -
  from wait_flag_ready [OF assms(3,1,2)] assms(4) obtain s1 u where
    s1: "wait_flag cf env UART_BASE UART_SR_FLAG_RXNE s = Some (Inr s1)" "uart_wired cf s1" "rx_ok s1"
      "rx_stream s1 = c # cs" "pmem s1 = pmem s" "host_out s1 = host_out s" "tx_on s1 = tx_on s"
      "hwdev_uart_p s1 = Some u" "u_has_data u"
    by auto
  from take_byte [OF s1(2,3,8,9)] s1 show ?thesis
    by (auto simp: uart_read_wait_def bindO_def)
qed


section \<open>The cycle counter and the delays\<close>

text \<open>
  \<open>steady T D n B\<close> describes a counter whose true value at the \<open>k\<close>-th access is \<open>T k\<close>: it always
  advances, by at most \<open>D\<close> cycles from one access to the next, and up to the value \<open>B\<close> its low word
  does not overflow between the two halves of a reading that starts at access \<open>n\<close>, \<open>n + 2\<close>, \<open>...\<close>.
\<close>

definition steady :: "(nat \<Rightarrow> nat) \<Rightarrow> nat \<Rightarrow> nat \<Rightarrow> nat \<Rightarrow> bool" where
  "steady T D n B \<longleftrightarrow> (\<forall>k. T k < T (Suc k) \<and> T (Suc k) \<le> T k + D) \<and> B < 2 ^ 64 \<and>
     (\<forall>j. T (n + 2 * j) < B \<longrightarrow> T (n + 2 * j) div 2 ^ 32 = T (n + 2 * j + 1) div 2 ^ 32)"

abbreviation counter :: "(nat \<Rightarrow> nat) \<Rightarrow> nat \<Rightarrow> u64" where
  "counter T \<equiv> (\<lambda>k. word_of_nat (T k))"

lemma unat_ucast_u32: "unat (ucast (x :: u64) :: u32) = unat x mod 2 ^ 32"
  using unsigned_ucast_eq [where 'a = nat and w = x and 'c = 32] by (simp add: take_bit_eq_mod)

lemma unat_ucast_u64: "unat (ucast (y :: u32) :: u64) = unat y"
  using unsigned_ucast_eq [where 'a = nat and w = y and 'c = 64] unsigned_less [of y, where ?'a = nat]
  by (simp add: take_bit_eq_mod)

lemma word_of_unat: "unat (w :: u64) = n \<Longrightarrow> w = word_of_nat n"
  by auto

lemma get_cycle_value_halves:
  assumes "T k < 2 ^ 64" and "T (Suc k) < 2 ^ 64"
  shows "get_cycle_value (counter T) k =
     (word_of_nat (T k mod 2 ^ 32 + 2 ^ 32 * (T (Suc k) div 2 ^ 32)), k + 2)"
proof -
  let ?a = "T k" and ?b = "T (Suc k)"
  have lo: "unat (ucast (ucast (word_of_nat ?a :: u64) :: u32) :: u64) = ?a mod 2 ^ 32"
    using assms by (simp add: unsigned_ucast_eq unsigned_of_nat take_bit_eq_mod)
  have lt: "?b div 2 ^ 32 < 2 ^ 32" using assms(2) by (simp add: less_mult_imp_div_less)
  have d: "unat (drop_bit 32 (word_of_nat ?b :: u64)) = ?b div 2 ^ 32"
    using assms by (simp only: unsigned_drop_bit_eq) (simp add: unsigned_of_nat take_bit_eq_mod drop_bit_eq_div)
  have "unat (ucast (ucast (drop_bit 32 (word_of_nat ?b :: u64)) :: u32) :: u64) = ?b div 2 ^ 32"
    using lt by (simp only: unat_ucast_u32 unat_ucast_u64 d mod_less)
  then have hi: "ucast (ucast (drop_bit 32 (word_of_nat ?b :: u64)) :: u32) = (word_of_nat (?b div 2 ^ 32) :: u64)"
    by (rule word_of_unat)
  have lo': "ucast (ucast (word_of_nat ?a :: u64) :: u32) = (word_of_nat (?a mod 2 ^ 32) :: u64)"
    using lo by (rule word_of_unat)
  show ?thesis
    by (simp add: get_cycle_value_def read_cycle_def read_cycleh_def lo' hi push_bit_eq_mult mult.commute)
qed

lemma get_cycle_value_exact:
  assumes "T k < 2 ^ 64" and "T k div 2 ^ 32 = T (Suc k) div 2 ^ 32"
  shows "get_cycle_value (counter T) k = (word_of_nat (T k), k + 2)"
proof -
  have "T (Suc k) < 2 ^ 64"
  proof -
    have "T k div 2 ^ 32 < 2 ^ 32" using assms(1) by (simp add: less_mult_imp_div_less)
    then have "T (Suc k) div 2 ^ 32 < 2 ^ 32" using assms(2) by simp
    then show ?thesis by (simp add: div_less_iff_less_mult)
  qed
  moreover have "T k mod 2 ^ 32 + 2 ^ 32 * (T (Suc k) div 2 ^ 32) = T k"
    unfolding assms(2) [symmetric] by (simp add: mult.commute)
  ultimately show ?thesis using get_cycle_value_halves [of T k] assms(1) by simp
qed

text \<open>When the low word overflows between the two halves, the reading is a whole high word too large.\<close>

lemma get_cycle_value_rollover:
  "fst (get_cycle_value (counter (\<lambda>k. 0xFFFFFFFF + k)) 0) = 0x1FFFFFFFF"
  using get_cycle_value_halves [of "\<lambda>k. 0xFFFFFFFF + k" 0] by simp

lemma spin_until_returns:
  assumes st: "steady T D n B" and stop: "stop + 2 * D \<le> B"
  shows "T (n + 2 * i) < B \<Longrightarrow> \<exists>j. spin_until (counter T) (word_of_nat stop) (n + 2 * i) = Some (n + 2 * (i + j) + 2) \<and>
     stop \<le> T (n + 2 * (i + j)) \<and> T (n + 2 * (i + j)) \<le> max (T (n + 2 * i)) (stop + 2 * D)"
proof (induction "stop - T (n + 2 * i)" arbitrary: i rule: less_induct)
  case less
  let ?k = "n + 2 * i"
  have step: "\<And>k. T k < T (Suc k)" "\<And>k. T (Suc k) \<le> T k + D"
    using st by (auto simp: steady_def)
  have adv: "T ?k < T (Suc ?k)" "T (Suc ?k) < T (Suc (Suc ?k))" "T (Suc (Suc ?k)) \<le> T ?k + 2 * D"
    using step(1) [of ?k] step(1) [of "Suc ?k"] step(2) [of ?k] step(2) [of "Suc ?k"] by simp_all
  have "T ?k div 2 ^ 32 = T (Suc ?k) div 2 ^ 32" and B: "B < 2 ^ 64"
    using st less.prems by (auto simp: steady_def)
  then have g: "get_cycle_value (counter T) ?k = (word_of_nat (T ?k), ?k + 2)"
    using less.prems by (intro get_cycle_value_exact) auto
  have cmp: "(word_of_nat (T ?k) :: u64) < word_of_nat stop \<longleftrightarrow> T ?k < stop"
    using stop less.prems B by (simp add: word_less_nat_alt unat_of_nat)
  show ?case
  proof (cases "T ?k < stop")
    case False
    then show ?thesis
      by (intro exI [of _ 0]) (subst spin_until.simps, simp add: g cmp)
  next
    case True
    from True adv have "stop - T (n + 2 * (i + 1)) < stop - T ?k" by simp
    moreover from True adv stop have "T (n + 2 * (i + 1)) < B" by simp
    ultimately obtain j where
      "spin_until (counter T) (word_of_nat stop) (n + 2 * (i + 1)) = Some (n + 2 * (i + 1 + j) + 2)"
      "stop \<le> T (n + 2 * (i + 1 + j))" "T (n + 2 * (i + 1 + j)) \<le> max (T (n + 2 * (i + 1))) (stop + 2 * D)"
      using less.hyps [of "i + 1"] by blast
    with True adv show ?thesis
      by (intro exI [of _ "Suc j"]) (subst spin_until.simps, simp add: g cmp)
  qed
qed

lemma delay_us_returns:
  assumes st: "steady T D n B" and us: "us \<noteq> 0" "unat us * 25 < 2 ^ 32"
    and B: "T (n + 2 * i) + unat us * 25 + 2 * D \<le> B" "T (n + 2 * i) < B"
  shows "\<exists>j. delay_us (counter T) us (n + 2 * i) = Some (n + 2 * (i + j)) \<and>
     T (n + 2 * i) + unat us * 25 \<le> T (n + 2 * (i + j)) \<and>
     T (n + 2 * (i + j)) \<le> T (n + 2 * i) + unat us * 25 + 4 * D"
proof -
  let ?k = "n + 2 * i" and ?stop = "T (n + 2 * i) + unat us * 25"
  have "T ?k div 2 ^ 32 = T (Suc ?k) div 2 ^ 32" and B64: "B < 2 ^ 64"
    and step: "\<And>k. T k < T (Suc k)" "\<And>k. T (Suc k) \<le> T k + D"
    using st B(2) by (auto simp: steady_def)
  then have g: "get_cycle_value (counter T) ?k = (word_of_nat (T ?k), n + 2 * (i + 1))"
    using B(2) by (simp add: get_cycle_value_exact)
  have "unat (us * 25) = unat us * 25" using us(2) unat_mult_lem [of us 25] by simp
  then have "ucast (us * 25) = (word_of_nat (unat us * 25) :: u64)"
    using word_of_unat [OF unat_ucast_u64, of "us * 25"] by metis
  then have stop: "word_of_nat (T ?k) + ucast (us * 25) = (word_of_nat ?stop :: u64)"
    by (simp only: of_nat_add)
  have "T (n + 2 * (i + 1)) \<le> T ?k + 2 * D"
    using step(2) [of ?k] step(2) [of "Suc ?k"] by simp
  moreover have "2 \<le> unat us * 25"
    using us(1) unat_gt_0 [of us] by linarith
  ultimately have k1: "T (n + 2 * (i + 1)) < B" and mx: "T (n + 2 * (i + 1)) \<le> ?stop + 2 * D"
    using B by linarith+
  from spin_until_returns [OF st B(1) k1] obtain j where
    j: "spin_until (counter T) (word_of_nat ?stop) (n + 2 * (i + 1)) = Some (n + 2 * (i + 1 + j) + 2)"
      "?stop \<le> T (n + 2 * (i + 1 + j))" "T (n + 2 * (i + 1 + j)) \<le> ?stop + 2 * D"
    using mx by (auto simp: max_def split: if_splits)
  let ?e = "n + 2 * (i + 1 + j)"
  have "T ?e < T (?e + 2)" "T (?e + 2) \<le> T ?e + 2 * D"
    using step(1) [of ?e] step(1) [of "Suc ?e"] step(2) [of ?e] step(2) [of "Suc ?e"] by simp_all
  moreover have "delay_us (counter T) us ?k = spin_until (counter T) (word_of_nat ?stop) (n + 2 * (i + 1))"
    using us(1) g stop by (simp add: delay_us_def CPU_FREQ_MHZ_def CPU_FREQ_HZ_def)
  ultimately show ?thesis using j by (intro exI [of _ "j + 2"]) simp
qed

lemma delay_ms_loop_returns:
  assumes st: "steady T D n B"
  shows "T (n + 2 * i) + k * (25000 + 4 * D) + 2 * D \<le> B \<Longrightarrow> T (n + 2 * i) < B \<Longrightarrow>
    \<exists>j. delay_ms_loop (counter T) k (n + 2 * i) = Some (n + 2 * (i + j)) \<and>
      T (n + 2 * i) + k * 25000 \<le> T (n + 2 * (i + j)) \<and>
      T (n + 2 * (i + j)) \<le> T (n + 2 * i) + k * (25000 + 4 * D)"
proof (induction k arbitrary: i)
  case 0
  then show ?case by (intro exI [of _ 0]) simp
next
  case (Suc k)
  from delay_us_returns [OF st, of 1000 i] Suc.prems obtain j where
    j: "delay_us (counter T) 1000 (n + 2 * i) = Some (n + 2 * (i + j))"
      "T (n + 2 * i) + 25000 \<le> T (n + 2 * (i + j))"
      "T (n + 2 * (i + j)) \<le> T (n + 2 * i) + 25000 + 4 * D"
    by auto
  have "T n < T (Suc n)" "T (Suc n) \<le> T n + D" using st by (auto simp: steady_def)
  then have "0 < D" by linarith
  with j Suc.prems have "T (n + 2 * (i + j)) < B" by simp
  with j Suc.prems Suc.IH [of "i + j"] obtain j' where
    "delay_ms_loop (counter T) k (n + 2 * (i + j)) = Some (n + 2 * (i + j + j'))"
    "T (n + 2 * (i + j)) + k * 25000 \<le> T (n + 2 * (i + j + j'))"
    "T (n + 2 * (i + j + j')) \<le> T (n + 2 * (i + j)) + k * (25000 + 4 * D)"
    by auto
  with j show ?case by (intro exI [of _ "j + j'"]) (simp add: add.assoc)
qed



text \<open>The product of a long delay in microseconds wraps: this one waits four cycles.\<close>

lemma delay_us_wraps:
  "delay_us clk 171798692 n =
     (let (start, n1) = get_cycle_value clk n in spin_until clk (start + 4) n1)"
  by (simp add: delay_us_def CPU_FREQ_MHZ_def CPU_FREQ_HZ_def)

section \<open>The drivers on an initialised machine\<close>

text \<open>Device initialisation of the default configuration puts both register blocks on the bus.\<close>

lemma init_device_wired:
  assumes "maps s = []"
  shows "\<exists>s'. init_device default_config s = Inr s' \<and> timer_wired default_config s' \<and>
     uart_wired default_config s' \<and> hwdev_timer_p s' \<noteq> None \<and> hwdev_uart_p s' = Some \<lparr>u_cr = 3, u_sr = 0, u_baud = 115200, u_rxd = 0, u_txd = 0, u_has_data = False\<rparr> \<and>
     host_stdin s' = host_stdin s \<and> wf_nemu s' = wf_nemu s"
proof -
  have k: "b \<le> b + k \<and> b + k \<le> b + 19" if "k \<le> 19" "unat b + 19 < 2 ^ 32" for b k :: u32
    using that by (simp add: word_le_nat_alt unat_word_ariths)
  have p: "\<not> in_pmem default_config (b + k)" if "k \<le> 19" "b = TIM_BASE \<or> b = UART_BASE" for b k :: u32
    using that
    by (auto simp: in_pmem_def default_config_def TIM_BASE_def UART_BASE_def word_less_nat_alt word_le_nat_alt unat_word_ariths)
  let ?ms = "[\<lparr>map_name = ''serial'', low = 0xa00003f8, high = 0xa00003ff, space = 0, callback = CbSerial\<rparr>,
    \<lparr>map_name = ''rtc'', low = 0xa0000048, high = 0xa000004f, space = 4096, callback = CbRtc\<rparr>,
    \<lparr>map_name = ''hwdev_timer'', low = 0x80010000, high = 0x80010013, space = 8192, callback = CbHwTimer\<rparr>,
    \<lparr>map_name = ''hwdev_uart'', low = 0x80020000, high = 0x80020013, space = 12288, callback = CbHwUart\<rparr>,
    \<lparr>map_name = ''vgactl'', low = 0xa0000100, high = 0xa0000107, space = 16384, callback = CbNull\<rparr>,
    \<lparr>map_name = ''vmem'', low = 0xa1000000, high = 0xa10752ff, space = 20480, callback = CbNull\<rparr>,
    \<lparr>map_name = ''keyboard'', low = 0xa0000060, high = 0xa0000063, space = 503808, callback = CbKeyboard\<rparr>,
    \<lparr>map_name = ''audio'', low = 0xa0000200, high = 0xa0000217, space = 507904, callback = CbAudio\<rparr>,
    \<lparr>map_name = ''audio-sbuf'', low = 0xa1200000, high = 0xa120ffff, space = 512000, callback = CbNull\<rparr>]"
  have "\<exists>s'. init_device default_config s = Inr s' \<and> maps s' = ?ms \<and> timer_base s' = 8192 \<and> uart_base s' = 12288 \<and>
      hwdev_timer_p s' \<noteq> None \<and> hwdev_uart_p s' = Some \<lparr>u_cr = 3, u_sr = 0, u_baud = 115200, u_rxd = 0, u_txd = 0, u_has_data = False\<rparr> \<and>
     host_stdin s' = host_stdin s \<and> wf_nemu s' = wf_nemu s"
    using assms
    by (simp add: init_device_def init_map_def init_serial_def init_timer_def init_hwdev_timer_def
        init_hwdev_uart_def init_vga_def init_i8042_def init_audio_def new_space_def add_mmio_map_def
        Let_def default_config_def PAGE_SIZE_def IO_SPACE_MAX_def NR_MAP_def in_pmem_def io_set32_def wf_nemu_def)
  moreover have "maps_ok default_config ?ms"
    by (simp add: maps_ok_def NR_MAP_def All_less_Suc disjoint_regions_def in_pmem_def default_config_def)
  moreover have "CONFIG_DEVICE default_config" by (simp add: default_config_def)
  moreover note k [where b = "0x80010000"] k [where b = "0x80020000"]
  ultimately show ?thesis using p
    by (auto simp: timer_wired_def uart_wired_def wired_def TIM_BASE_def UART_BASE_def IO_SPACE_MAX_def)
qed

lemma init_device_blank:
  obtains s where "init_device default_config (blank_nemu\<lparr>host_stdin := inp\<rparr>) = Inr s" and "timer_wired default_config s"
    and "uart_wired default_config s" and "hwdev_timer_p s \<noteq> None" and "host_stdin s = inp" and "wf_nemu s"
    and "hwdev_uart_p s = Some \<lparr>u_cr = 3, u_sr = 0, u_baud = 115200, u_rxd = 0, u_txd = 0, u_has_data = False\<rparr>"
  using init_device_wired [of "blank_nemu\<lparr>host_stdin := inp\<rparr>"] wf_blank_nemu
  by (auto simp: blank_nemu_def wf_nemu_def)

theorem timer_start_witness:
  "\<exists>s s1 s2. init_device default_config (blank_nemu\<lparr>host_stdin := []\<rparr>) = Inr s \<and>
     timer_init default_config TIM_BASE 24 1000 s = Inr s1 \<and>
     timer_control default_config TIM_BASE TIM_EN s1 = Inr s2 \<and>
     timer_intr_pending ((hwdev_timer_update ^^ 26) s2)"
proof -
  obtain s t where "init_device default_config (blank_nemu\<lparr>host_stdin := []\<rparr>) = Inr s"
    "timer_wired default_config s" "hwdev_timer_p s = Some t"
    using init_device_blank [of "[]"] by (metis not_Some_eq)
  with timer_start [where cf = default_config and s = s and t = t and psc = 24 and val = 1000] show ?thesis by auto
qed



end
