(* ===== verification/Xprintf.thy ===== *)
theory Xprintf
  imports Sdk_Props
begin

text \<open>
  The formatted output of \<^verbatim>\<open>libs/_utilities/xprintf.c\<close>. Characters and strings are bytes (\<^verbatim>\<open>char\<close> is
  unsigned on the target), a C string is the list of its bytes before the terminator, and \<^verbatim>\<open>int\<close>, \<^verbatim>\<open>long\<close>
  and their unsigned versions are 32 bits wide. \<open>xvprintf\<close> returns the characters handed to \<^verbatim>\<open>xputc\<close>, in
  order; \<open>xprintf\<close> sends them through the UART driver. Taking an argument that was not passed, or one
  of the other kind, is undefined in C and a fault here.
\<close>

section \<open>Characters\<close>

abbreviation (input) "CH_nl \<equiv> 10 :: u8"
abbreviation (input) "CH_cr \<equiv> 13 :: u8"
abbreviation (input) "CH_sp \<equiv> 32 :: u8"
abbreviation (input) "CH_pct \<equiv> 37 :: u8"
abbreviation (input) "CH_minus \<equiv> 45 :: u8"
abbreviation (input) "CH_0 \<equiv> 48 :: u8"
abbreviation (input) "CH_9 \<equiv> 57 :: u8"
abbreviation (input) "CH_B \<equiv> 66 :: u8"
abbreviation (input) "CH_C \<equiv> 67 :: u8"
abbreviation (input) "CH_D \<equiv> 68 :: u8"
abbreviation (input) "CH_L \<equiv> 76 :: u8"
abbreviation (input) "CH_O \<equiv> 79 :: u8"
abbreviation (input) "CH_S \<equiv> 83 :: u8"
abbreviation (input) "CH_U \<equiv> 85 :: u8"
abbreviation (input) "CH_X \<equiv> 88 :: u8"
abbreviation (input) "CH_a \<equiv> 97 :: u8"
abbreviation (input) "CH_l \<equiv> 108 :: u8"
abbreviation (input) "CH_x \<equiv> 120 :: u8"

definition bytes_of :: "string \<Rightarrow> u8 list" where
  "bytes_of str = map of_char str"

datatype xarg = AInt u32 | AStr "u8 list"

section \<open>Formatting\<close>

text \<open>\<^verbatim>\<open>c = *fmt++\<close>, which reads the terminator at the end of the string.\<close>

definition next_char :: "u8 list \<Rightarrow> u8 \<times> u8 list" where
  "next_char fmt = (case fmt of [] \<Rightarrow> (0, []) | c # cs \<Rightarrow> (c, cs))"

text \<open>The minimum width: \<^verbatim>\<open>for (w = 0; c >= '0' && c <= '9'; c = *fmt++) w = w * 10 + c - '0';\<close>\<close>

fun width_loop :: "u8 \<Rightarrow> u8 list \<Rightarrow> u32 \<Rightarrow> u32 \<times> u8 \<times> u8 list" where
  "width_loop c [] w = (if c \<ge> CH_0 \<and> c \<le> CH_9 then (w * 10 + ucast c - 48, 0, []) else (w, c, []))"
| "width_loop c (d # fmt) w =
     (if c \<ge> CH_0 \<and> c \<le> CH_9 then width_loop d fmt (w * 10 + ucast c - 48) else (w, c, d # fmt))"

text \<open>\<^verbatim>\<open>while (j++ < w) xputc(ch);\<close>, with the value \<^verbatim>\<open>j\<close> has afterwards.\<close>

function pad_loop :: "u32 \<Rightarrow> u32 \<Rightarrow> u8 \<Rightarrow> u8 list \<times> u32" where
  "pad_loop j w ch =
     (if j < w then (case pad_loop (j + 1) w ch of (out, j') \<Rightarrow> (ch # out, j')) else ([], j + 1))"
  by pat_completeness auto
termination
proof (relation "measure (\<lambda>(j, w, ch). unat w - unat j)", goal_cases)
  case (2 j w ch)
  then have "unat j < unat w" by (simp add: word_less_nat_alt)
  moreover have "j \<noteq> - 1" using 2 by (metis not_less word_order.extremum)
  ultimately show ?case by (simp add: unat_Suc_max)
qed simp

text \<open>One step of the digit loop: the lowest digit in base \<^verbatim>\<open>r\<close> and what is left.\<close>

definition split_digit :: "u32 \<Rightarrow> u32 \<Rightarrow> u8 \<times> u32" where
  "split_digit r v =
     (if 2 = r then (ucast (v AND 0x00000001), drop_bit 1 v)
      else if 8 = r then (ucast (v AND 0x00000007), drop_bit 3 v)
      else if 10 = r then (ucast (v mod r), v div r)
      else if 16 = r then (ucast (v AND 0x0000000f), drop_bit 4 v)
      else (0, 0))"

definition digit_char :: "u8 \<Rightarrow> u8 \<Rightarrow> u8" where
  "digit_char c d = (if d > 9 then d + (if c = CH_x then 0x27 else 0x07) else d) + CH_0"

text \<open>The characters \<^verbatim>\<open>s[i]\<close>, \<^verbatim>\<open>s[i+1]\<close>, ... the loop writes before it leaves, least significant first.\<close>

definition sizeof_s :: nat where "sizeof_s = 16"

function digit_loop :: "u32 \<Rightarrow> u8 \<Rightarrow> u32 \<Rightarrow> nat \<Rightarrow> u8 list" where
  "digit_loop r c v i =
     (case split_digit r v of (d, v') \<Rightarrow>
        digit_char c d # (if v' \<noteq> 0 \<and> Suc i < sizeof_s then digit_loop r c v' (Suc i) else []))"
  by pat_completeness auto
termination
  by (relation "measure (\<lambda>(r, c, v, i). sizeof_s - i)") (auto simp: sizeof_s_def)

declare pad_loop.simps [simp del] digit_loop.simps [simp del]

text \<open>From the numeral to its characters: sign, padding, digits most significant first, padding.\<close>

definition put_number :: "u32 \<Rightarrow> u8 \<Rightarrow> u8 \<Rightarrow> u32 \<Rightarrow> u32 \<Rightarrow> u32 \<Rightarrow> u8 list" where
  "put_number r c d f w v0 =
     (let (v, f1) = (if d = CH_D \<and> v0 AND 0x80000000 \<noteq> 0 then (0 - v0, f OR 8) else (v0, f));
          s0 = digit_loop r c v 0;
          s = (if f1 AND 8 \<noteq> 0 then s0 @ [CH_minus] else s0);
          p = (if f1 AND 1 \<noteq> 0 then CH_0 else CH_sp);
          (lead, j) = (if f1 AND 2 = 0 then pad_loop (of_nat (length s)) w p else ([], of_nat (length s)));
          (trail, j') = pad_loop j w CH_sp
      in lead @ rev s @ trail)"

definition put_string :: "u32 \<Rightarrow> u32 \<Rightarrow> u8 list \<Rightarrow> u8 list" where
  "put_string f w p =
     (let (lead, j) = (if f AND 2 = 0 then pad_loop (of_nat (length p)) w CH_sp else ([], of_nat (length p)));
          (trail, j') = pad_loop j w CH_sp
      in lead @ p @ trail)"

text \<open>
  The part of a directive between \<^verbatim>\<open>%\<close> and its type: flags, width, size prefix. It returns the flags,
  the width, the type character and the rest of the format.
\<close>

definition parse_flag :: "u8 list \<Rightarrow> u32 \<times> u8 \<times> u8 list" where
  "parse_flag fmt =
     (let (c, r) = next_char fmt
      in if c = CH_0 then (1, next_char r) else if c = CH_minus then (2, next_char r) else (0, c, r))"

definition parse_directive :: "u8 list \<Rightarrow> u32 \<times> u32 \<times> u8 \<times> u8 list" where
  "parse_directive fmt =
     (let (f, c, r) = parse_flag fmt;
          (w, c', r') = width_loop c r 0
      in if c' = CH_l \<or> c' = CH_L then (f OR 4, w, next_char r') else (f, w, c', r'))"

definition upper :: "u8 \<Rightarrow> u8" where
  "upper c = (if c \<ge> CH_a then c - 0x20 else c)"

definition radix :: "u8 \<Rightarrow> u32 option" where
  "radix d = (if d = CH_B then Some 2 else if d = CH_O then Some 8
     else if d = CH_D \<or> d = CH_U then Some 10 else if d = CH_X then Some 16 else None)"

lemma next_char_length: "length (snd (next_char fmt)) \<le> length fmt"
  by (cases fmt) (auto simp: next_char_def)

lemma width_loop_length: "width_loop c fmt w = (w', c', r) \<Longrightarrow> length r \<le> length fmt"
  by (induction c fmt w rule: width_loop.induct) (auto split: if_splits dest: le_SucI)

lemma next_char_rest: "next_char fmt = (c, r) \<Longrightarrow> length r \<le> length fmt"
  using next_char_length [of fmt] by simp

lemma parse_directive_length:
  "parse_directive fmt = (f, w, c, r) \<Longrightarrow> length r \<le> length fmt"
  by (auto simp: parse_directive_def parse_flag_def Let_def split: prod.splits if_splits
      dest!: next_char_rest width_loop_length)

function xvprintf :: "u8 list \<Rightarrow> xarg list \<Rightarrow> u8 list res" where
  "xvprintf [] args = Inr []"
| "xvprintf (c # fmt) args =
     (if c \<noteq> CH_pct then bindE (xvprintf fmt args) (\<lambda>out. Inr (c # out))
      else (case parse_directive fmt of (f, w, c, r) \<Rightarrow>
        if c = 0 then Inr []
        else let d = upper c in
          if d = CH_S then
            (case args of
               AStr p # as \<Rightarrow> bindE (xvprintf r as) (\<lambda>out. Inr (put_string f w p @ out))
             | _ \<Rightarrow> Inl (HostFault ''va_arg''))
          else if d = CH_C then
            (case args of
               AInt v # as \<Rightarrow> bindE (xvprintf r as) (\<lambda>out. Inr (ucast v # out))
             | _ \<Rightarrow> Inl (HostFault ''va_arg''))
          else (case radix d of
              None \<Rightarrow> bindE (xvprintf r args) (\<lambda>out. Inr (c # out))
            | Some b \<Rightarrow>
                (case args of
                   AInt v # as \<Rightarrow> bindE (xvprintf r as) (\<lambda>out. Inr (put_number b c d f w v @ out))
                 | _ \<Rightarrow> Inl (HostFault ''va_arg'')))))"
  by pat_completeness auto
termination
  by (relation "measure (\<lambda>(fmt, args). length fmt)") (auto dest!: parse_directive_length [OF sym])

section \<open>Output through the UART\<close>

text \<open>\<^verbatim>\<open>xputc\<close> puts a carriage return before a line feed.\<close>

definition xputc :: "config \<Rightarrow> (nemu \<Rightarrow> nemu) \<Rightarrow> u8 \<Rightarrow> nemu \<Rightarrow> nemu res option" where
  "xputc cf env c s =
     bindO (if c = CH_nl then uart_send_wait cf env UART_BASE CH_cr s else Some (Inr s)) (\<lambda>s1.
     uart_send_wait cf env UART_BASE c s1)"

fun xputs :: "config \<Rightarrow> (nemu \<Rightarrow> nemu) \<Rightarrow> u8 list \<Rightarrow> nemu \<Rightarrow> nemu res option" where
  "xputs cf env [] s = Some (Inr s)"
| "xputs cf env (c # str) s = bindO (xputc cf env c s) (xputs cf env str)"

text \<open>
  \<^verbatim>\<open>interrupt_disable\<close> and \<^verbatim>\<open>interrupt_enable\<close> of \<^verbatim>\<open>libs/_startup/trap.S\<close>: \<^verbatim>\<open>csrrci a0, mstatus, 8\<close> and
  \<^verbatim>\<open>csrw mstatus, a0\<close>.
\<close>

definition interrupt_disable :: "nemu \<Rightarrow> u32 \<times> nemu" where
  "interrupt_disable s =
     (let level = get_csr_pr MSTATUS_IDX s in (level, set_csr_pr MSTATUS_IDX (level AND NOT 8) s))"

definition interrupt_enable :: "u32 \<Rightarrow> nemu \<Rightarrow> nemu" where
  "interrupt_enable level s = set_csr_pr MSTATUS_IDX level s"

definition xprintf :: "config \<Rightarrow> (nemu \<Rightarrow> nemu) \<Rightarrow> u8 list \<Rightarrow> xarg list \<Rightarrow> nemu \<Rightarrow> nemu res option" where
  "xprintf cf env fmt args s =
     (case interrupt_disable s of (level, s1) \<Rightarrow>
        bindO (Some (xvprintf fmt args)) (\<lambda>out.
        bindO (xputs cf env out s1) (\<lambda>s2.
        Some (Inr (interrupt_enable level s2)))))"

end
