(* ===== verification/Xprintf_Props.thy ===== *)
theory Xprintf_Props
  imports Xprintf
begin

text \<open>
  What \<open>xvprintf\<close> prints: digit loops against the positional notation, padding and width, parsing of
  directives, and what \<open>xprintf\<close> leaves on the terminal.
\<close>

section \<open>Padding\<close>

lemma pad_loop_closed:
  "pad_loop j w ch = (replicate (unat w - unat j) ch, (if j < w then w else j) + 1)"
proof (induction j w ch rule: pad_loop.induct)
  case (1 j w ch)
  show ?case
  proof (cases "j < w")
    case True
    then have lt: "unat j < unat w" by (simp add: word_less_nat_alt)
    from True have "j \<noteq> - 1" by (metis not_less word_order.extremum)
    then have s: "unat (j + 1) = unat j + 1" by (rule unat_Suc_max)
    have "replicate (unat w - unat j) ch = ch # replicate (unat w - unat (j + 1)) ch"
      using lt s by (simp flip: replicate_Suc add: Suc_diff_Suc)
    moreover have "(if j + 1 < w then w else j + 1) = w"
      using lt s by (auto simp: word_less_nat_alt word_unat_eq_iff)
    ultimately show ?thesis using True 1 by (subst pad_loop.simps) simp
  next
    case False
    then show ?thesis by (subst pad_loop.simps) (simp add: word_less_nat_alt)
  qed
qed

text \<open>
  The two loops around a text of \<open>n\<close> characters: with a minimum width below the largest word, the
  padding goes to one side only and fills exactly the missing columns.
\<close>

definition justify :: "u32 \<Rightarrow> u32 \<Rightarrow> u8 \<Rightarrow> u8 list \<Rightarrow> u8 list" where
  "justify f w p s = (if f AND 2 = 0 then replicate (unat w - length s) p @ s
     else s @ replicate (unat w - length s) CH_sp)"

lemma pad_around:
  assumes "w \<noteq> - 1" and "length s < 2 ^ 32 - 1" and len: "n = length s"
  shows "(let (lead, j) = (if f AND 2 = 0 then pad_loop (of_nat n) w p else ([], of_nat n));
      (trail, j') = pad_loop j w CH_sp in lead @ s @ trail) = justify f w p s"
proof -
  have n: "unat (of_nat (length s) :: u32) = length s" using assms(2) by (simp add: unat_of_nat)
  have "(of_nat (length s) :: u32) \<noteq> - 1"
  proof
    assume "(of_nat (length s) :: u32) = - 1"
    then have "unat (of_nat (length s) :: u32) = unat (- 1 :: u32)" by simp
    with n assms(2) show False by (simp add: unsigned_minus_1_eq_mask mask_eq_exp_minus_1)
  qed
  then have "\<not> (if (of_nat (length s) :: u32) < w then w else of_nat (length s)) + 1 < w"
    using assms(1) n unat_Suc_max [of w] unat_Suc_max [of "of_nat (length s)"]
    by (auto simp: word_less_nat_alt)
  then have "unat w - unat ((if (of_nat (length s) :: u32) < w then w else of_nat (length s)) + 1) = 0"
    by (simp add: word_less_nat_alt)
  then show ?thesis
    using n by (simp add: pad_loop_closed justify_def Let_def len)
qed

section \<open>Digits\<close>

text \<open>Positional notation, most significant digit first.\<close>

fun numeral_in :: "nat \<Rightarrow> (nat \<Rightarrow> u8) \<Rightarrow> nat \<Rightarrow> u8 list" where
  "numeral_in b dig n =
     (if b < 2 \<or> n < b then [dig n] else numeral_in b dig (n div b) @ [dig (n mod b)])"

declare numeral_in.simps [simp del]

definition hex_digit :: "u8 \<Rightarrow> nat \<Rightarrow> u8" where
  "hex_digit c d = (if d < 10 then 48 + of_nat d else (if c = CH_x then 87 else 55) + of_nat d)"

lemma split_digit_value:
  assumes "r \<in> {2, 8, 10, 16}"
  shows "split_digit r v = (of_nat (unat v mod unat r), v div r)"
proof -
  have m: "v AND 1 = v mod 2" "v AND 7 = v mod 8" "v AND 15 = v mod 16"
    using take_bit_eq_mod [of 1 v] take_bit_eq_mod [of 3 v] take_bit_eq_mod [of 4 v]
    by (simp_all add: take_bit_eq_mask mask_eq_exp_minus_1)
  have d: "drop_bit (Suc 0) v = v div 2" "drop_bit 3 v = v div 8" "drop_bit 4 v = v div 16"
    using drop_bit_eq_div [of 1 v] by (simp_all add: drop_bit_eq_div)
  have u: "ucast (v mod r) = (of_nat (unat v mod unat r) :: u8)"
    by (simp flip: unat_mod)
  show ?thesis using assms u by (auto simp: split_digit_def m d)
qed

lemma digit_char_hex:
  assumes "r \<in> {2, 8, 10, 16 :: u32}"
  shows "digit_char c (of_nat (unat v mod unat r)) = hex_digit c (unat v mod unat r)"
proof -
  have "unat v mod unat r < unat r" and "unat r \<le> 16" using assms by (auto intro!: mod_less_divisor)
  then have "unat v mod unat r \<in> {..< 16}" by simp
  then show ?thesis
    by (auto simp: lessThan_nat_numeral lessThan_Suc digit_char_def hex_digit_def)
qed

lemma digit_loop_numeral:
  "r \<in> {2, 8, 10, 16} \<Longrightarrow> i < 16 \<Longrightarrow> unat v < unat r ^ (16 - i) \<Longrightarrow>
    rev (digit_loop r c v i) = numeral_in (unat r) (hex_digit c) (unat v)"
proof (induction r c v i rule: digit_loop.induct)
  case (1 r c v i)
  note sd = split_digit_value [OF 1(2), of v] and dc = digit_char_hex [OF 1(2), of c v]
  have b: "2 \<le> unat r" using 1(2) by auto
  have nz: "v div r = 0 \<longleftrightarrow> unat v < unat r"
    using b by (auto simp: word_unat_eq_iff unat_div div_eq_0_iff)
  show ?case
  proof (cases "unat v < unat r")
    case True
    with nz sd dc b show ?thesis
      by (subst digit_loop.simps, subst numeral_in.simps) simp
  next
    case False
    have "unat r ^ (16 - i) = unat r * unat r ^ (16 - Suc i)"
    proof -
      have "16 - i = Suc (16 - Suc i)" using 1(3) by simp
      then show ?thesis by (simp only: power_Suc)
    qed
    with 1(4) have lt: "unat v div unat r < unat r ^ (16 - Suc i)"
      using b by (simp add: div_less_iff_less_mult mult.commute)
    have "Suc i < 16"
    proof (rule ccontr)
      assume "\<not> Suc i < 16"
      with 1(3) have "16 - Suc i = 0" by simp
      with lt False b show False by (simp add: div_eq_0_iff)
    qed
    with 1(1) [OF sd [symmetric]] 1(2) nz lt False have
      "rev (digit_loop r c (v div r) (Suc i)) = numeral_in (unat r) (hex_digit c) (unat v div unat r)"
      by (simp add: unat_div sizeof_s_def)
    with False nz sd dc b \<open>Suc i < 16\<close> show ?thesis
      by (subst digit_loop.simps, subst numeral_in.simps) (simp add: sizeof_s_def)
  qed
qed

lemma digit_loop_bound: "i < sizeof_s \<Longrightarrow> length (digit_loop r c v i) \<le> sizeof_s - i"
proof (induction r c v i rule: digit_loop.induct)
  case (1 r c v i)
  then show ?case
    by (subst digit_loop.simps) (fastforce split: prod.splits)
qed

section \<open>Numbers\<close>

text \<open>
  The reference: the value a type letter denotes, as a sign and a magnitude, in its base, justified in
  the minimum width. Zero padding goes before the sign.
\<close>

definition shown_negative :: "u8 \<Rightarrow> u32 \<Rightarrow> bool" where
  "shown_negative d v \<longleftrightarrow> d = CH_D \<and> sint v < 0"

definition magnitude :: "u8 \<Rightarrow> u32 \<Rightarrow> nat" where
  "magnitude d v = (if d = CH_D then nat \<bar>sint v\<bar> else unat v)"

definition shown :: "u8 \<Rightarrow> u32 \<Rightarrow> u32 \<Rightarrow> u8 list" where
  "shown c r v = (if shown_negative (upper c) v then [CH_minus] else []) @
     numeral_in (unat r) (hex_digit c) (magnitude (upper c) v)"

lemma sign_bit: "v AND 0x80000000 \<noteq> 0 \<longleftrightarrow> sint (v :: u32) < 0"
  using and_exp_eq_0_iff_not_bit [of v 31] bit_last_iff [of v] by simp

lemma negated_magnitude:
  assumes "sint (v :: u32) < 0"
  shows "unat (- v) = nat (- sint v)"
proof -
  have "bit v 31" using assms bit_last_iff [of v] by simp
  then have s: "sint v = uint v - 2 ^ 32"
    using uint_lt2p [of v]
    by (simp add: sint_uint signed_take_bit_eq_take_bit_minus bit_uint_iff take_bit_eq_mod)
  have "v \<noteq> 0" using assms by auto
  moreover have "uint v mod 4294967296 = uint v" using uint_lt2p [of v] by simp
  ultimately have "uint (- v) = 2 ^ 32 - uint v"
    by (simp add: uint_word_ariths zmod_zminus1_eq_if uint_0_iff mod_pos_pos_trivial)
  with s show ?thesis by (simp add: unat_eq_nat_uint)
qed

lemma put_number_shown:
  assumes "radix (upper c) = Some r" and "w \<noteq> - 1" and "f AND 8 = 0" and "r = 2 \<longrightarrow> unat v < 2 ^ 16"
  shows "put_number r c (upper c) f w v = justify f w (if f AND 1 \<noteq> 0 then CH_0 else CH_sp) (shown c r v)"
proof -
  have or8: "(x OR 8) AND 8 \<noteq> 0" "(x OR 8) AND 1 = x AND 1" "(x OR 8) AND 2 = x AND 2" for x :: u32
  proof -
    have "bit ((x OR 8) AND 8) 3" by (simp add: bit_simps)
    then show "(x OR 8) AND 8 \<noteq> 0" by force
    show "(x OR 8) AND 1 = x AND 1" "(x OR 8) AND 2 = x AND 2"
      by (simp_all add: bit.conj_disj_distrib2)
  qed
  let ?d = "upper c"
  let ?neg = "shown_negative ?d v"
  let ?v = "if ?neg then - v else v"
  have r: "r \<in> {2, 8, 10, 16}" using assms(1) by (auto simp: radix_def split: if_splits)
  have mag: "unat ?v = magnitude ?d v"
  proof (cases ?neg)
    case True
    then show ?thesis using negated_magnitude [of v] by (simp add: shown_negative_def magnitude_def)
  next
    case False
    show ?thesis
    proof (cases "?d = CH_D")
      case True
      with False have pos: "0 \<le> sint v" by (simp add: shown_negative_def)
      then have "\<not> bit v 31" using bit_last_iff [of v] by simp
      then have "sint v = uint v"
        using uint_lt2p [of v]
        by (simp add: sint_uint signed_take_bit_eq_take_bit_minus bit_uint_iff take_bit_eq_mod)
      then have "nat \<bar>sint v\<bar> = unat v" by simp
      with True False show ?thesis by (simp add: magnitude_def)
    qed (use False in \<open>simp add: magnitude_def\<close>)
  qed
  have "unat ?v < 2 ^ 32" using unsigned_less [of ?v, where ?'a = nat] by simp
  then have "magnitude ?d v < unat r ^ 16"
    using assms(1,4) mag by (auto simp: radix_def magnitude_def split: if_splits)
  then have dig: "rev (digit_loop r c ?v 0) = numeral_in (unat r) (hex_digit c) (magnitude ?d v)"
    using digit_loop_numeral [OF r, of 0 ?v c] mag by simp
  let ?s = "digit_loop r c ?v 0 @ (if ?neg then [CH_minus] else [])"
  have sh: "rev ?s = shown c r v" using dig by (simp add: shown_def)
  have "length ?s < 2 ^ 32 - 1" using digit_loop_bound [of 0 r c ?v] by (auto simp: sizeof_s_def)
  then have pad: "(let (lead, j) = (if g AND 2 = 0 then pad_loop (of_nat (length ?s)) w p else ([], of_nat (length ?s)));
      (trail, j') = pad_loop j w CH_sp in lead @ rev ?s @ trail) = justify g w p (shown c r v)" for g p
    using pad_around [OF assms(2), of "rev ?s" "length ?s"] \<open>length ?s < 2 ^ 32 - 1\<close> unfolding sh
    by (metis length_rev sh)
  let ?g = "if ?neg then f OR 8 else f"
  let ?p = "if f AND 1 \<noteq> 0 then CH_0 else CH_sp"
  have neg: "?d = CH_D \<and> v AND 0x80000000 \<noteq> 0 \<longleftrightarrow> ?neg" by (simp add: shown_negative_def sign_bit)
  have "put_number r c ?d f w v =
     (let (lead, j) = (if ?g AND 2 = 0 then pad_loop (of_nat (length ?s)) w ?p else ([], of_nat (length ?s)));
      (trail, j') = pad_loop j w CH_sp in lead @ rev ?s @ trail)"
    unfolding put_number_def neg using assms(3) or8 by (cases ?neg) (simp_all add: Let_def)
  also have "\<dots> = justify ?g w ?p (shown c r v)" by (rule pad)
  also have "\<dots> = justify f w ?p (shown c r v)" using or8 by (simp add: justify_def)
  finally show ?thesis .
qed

section \<open>Directives\<close>

text \<open>The text of a directive: flag, minimum width in decimal (empty if zero), size prefix, type.\<close>

definition flag_text :: "u32 \<Rightarrow> u8 list" where
  "flag_text f = (if f = 1 then [CH_0] else if f = 2 then [CH_minus] else [])"

definition width_text :: "nat \<Rightarrow> u8 list" where
  "width_text n = (if n = 0 then [] else numeral_in 10 (hex_digit CH_x) n)"

definition directive_text :: "u32 \<Rightarrow> nat \<Rightarrow> bool \<Rightarrow> u8 \<Rightarrow> u8 list" where
  "directive_text f n l ty = flag_text f @ width_text n @ (if l then [CH_l] else []) @ [ty]"

lemma decimal_digit: "d < 10 \<Longrightarrow> hex_digit c d = 48 + of_nat d"
  by (simp add: hex_digit_def)

lemma digit_range: "d < 10 \<Longrightarrow> (48 :: u8) \<le> 48 + of_nat d \<and> 48 + of_nat d \<le> (57 :: u8) \<and>
    (48 + of_nat d = (48 :: u8) \<longleftrightarrow> d = 0) \<and> ucast (48 + of_nat d :: u8) = (48 + of_nat d :: u32)"
proof -
  assume "d < 10"
  then have "d \<in> {..< 10}" by simp
  then show ?thesis by (auto simp: lessThan_nat_numeral lessThan_Suc)
qed

lemma numeral_in_decimal:
  "set (numeral_in 10 (hex_digit c) n) \<subseteq> {48..57} \<and> numeral_in 10 (hex_digit c) n \<noteq> [] \<and>
   (0 < n \<longrightarrow> hd (numeral_in 10 (hex_digit c) n) \<noteq> 48) \<and>
   foldl (\<lambda>w c. w * 10 + ucast c - 48) 0 (numeral_in 10 (hex_digit c) n) = (of_nat n :: u32)"
proof (induction n rule: less_induct)
  case (less n)
  show ?case
  proof (cases "n < 10")
    case True
    then show ?thesis
      using digit_range [of n] by (subst (1 2 3 4) numeral_in.simps) (auto simp: decimal_digit)
  next
    case False
    then have "n div 10 < n" "0 < n div 10" by simp_all
    with less [of "n div 10"] have
      IH: "set (numeral_in 10 (hex_digit c) (n div 10)) \<subseteq> {48..57}" "numeral_in 10 (hex_digit c) (n div 10) \<noteq> []"
        "hd (numeral_in 10 (hex_digit c) (n div 10)) \<noteq> 48"
        "foldl (\<lambda>w c. w * 10 + ucast c - 48) 0 (numeral_in 10 (hex_digit c) (n div 10)) = (of_nat (n div 10) :: u32)"
      by auto
    have "(of_nat (n div 10) * 10 + of_nat (n mod 10) :: u32) = of_nat (n div 10 * 10 + n mod 10)"
      by (simp only: of_nat_add of_nat_mult of_nat_numeral)
    then have v: "(of_nat (n div 10) * 10 + of_nat (n mod 10) :: u32) = of_nat n" by simp
    show ?thesis
      using False IH digit_range [of "n mod 10"] v
      by (subst (1 2 3 4) numeral_in.simps) (auto simp: decimal_digit)
  qed
qed

lemma width_loop_digits:
  assumes "\<not> (48 \<le> t \<and> t \<le> 57)"
  shows "set ds \<subseteq> {48..57} \<Longrightarrow> width_loop (hd (ds @ t # rest)) (tl (ds @ t # rest)) w =
    (foldl (\<lambda>w c. w * 10 + ucast c - 48) w ds, t, rest)"
proof (induction ds arbitrary: w)
  case Nil
  with assms show ?case by (cases rest) auto
next
  case (Cons c ds)
  obtain d ds' where "ds @ t # rest = d # ds'" by (cases ds) auto
  with Cons show ?case by auto
qed

lemma parse_directive_text:
  assumes "f \<in> {0, 1, 2}" and "radix (upper ty) \<noteq> None" and "n < 2 ^ 32"
  shows "parse_directive (directive_text f n l ty @ rest) = (if l then f OR 4 else f, of_nat n, ty, rest)"
proof -
  have "upper ty \<in> {66, 68, 79, 85, 88}"
    using assms(2) by (auto simp: radix_def split: if_splits)
  then have "ty \<in> {66, 68, 79, 85, 88, 98, 100, 111, 117, 120}"
    by (auto simp: upper_def diff_eq_eq split: if_splits)
  then have ty: "\<not> (48 \<le> ty \<and> ty \<le> 57)" "ty \<noteq> 108" "ty \<noteq> 76" "ty \<noteq> 48" "ty \<noteq> 45"
    by auto
  define t where "t = (if l then CH_l else ty)"
  define rest' where "rest' = (if l then ty # rest else rest)"
  define ds where "ds = width_text n"
  have tx: "directive_text f n l ty @ rest = flag_text f @ ds @ t # rest'"
    by (simp add: directive_text_def t_def rest'_def ds_def)
  have t: "\<not> (48 \<le> t \<and> t \<le> 57)" "t \<noteq> 48" "t \<noteq> 45" using ty by (auto simp: t_def)
  have ds: "set ds \<subseteq> {48..57}" "foldl (\<lambda>w c. w * 10 + ucast c - 48) 0 ds = (of_nat n :: u32)"
    "ds = [] \<or> hd ds \<noteq> 48"
    using numeral_in_decimal [of CH_x n] by (auto simp: ds_def width_text_def)
  obtain c r where cr: "ds @ t # rest' = c # r" by (cases ds) auto
  have "hd ds \<in> set ds" if "ds \<noteq> []" using that by simp
  then have c: "c \<noteq> 48" "c \<noteq> 45" using cr t ds(1,3) by (cases ds; force)+
  have "parse_flag (flag_text f @ ds @ t # rest') = (f, c, r)"
    using assms(1) c cr by (auto simp: parse_flag_def flag_text_def next_char_def Let_def)
  moreover have "width_loop c r 0 = (of_nat n, t, rest')"
    using width_loop_digits [OF t(1) ds(1), of rest' 0] cr ds(2) by simp
  ultimately show ?thesis
    using ty by (auto simp: tx parse_directive_def t_def rest'_def next_char_def)
qed



text \<open>A 17-digit binary number loses its leading digit: the buffer ends the loop first.\<close>

lemma binary_is_truncated: "digit_loop 2 98 0x10000 0 = replicate 16 CH_0"
  by code_simp

lemma numeral_in_length: "2 \<le> b \<Longrightarrow> n < b ^ Suc k \<Longrightarrow> length (numeral_in b dig n) \<le> Suc k"
proof (induction k arbitrary: n)
  case 0
  then show ?case by (subst numeral_in.simps) simp
next
  case (Suc k)
  then have "n div b < b ^ Suc k" by (simp add: div_less_iff_less_mult mult.commute)
  with Suc show ?case by (subst numeral_in.simps) simp
qed

text \<open>The digit loop never writes outside its sixteen-character buffer, and for a signed number
  there is room left for the sign.\<close>

theorem digit_buffer_bound:
  assumes "radix d = Some r"
  shows "length (digit_loop r c v 0) + (if d = CH_D then 1 else 0) \<le> sizeof_s"
proof (cases "d = CH_D")
  case True
  with assms have r: "r = 10" by (simp add: radix_def)
  have v: "unat v < 10 ^ Suc 9" using unsigned_less [of v, where ?'a = nat] by simp
  then have "rev (digit_loop r c v 0) = numeral_in 10 (hex_digit c) (unat v)"
    using digit_loop_numeral [of r 0 v c] r by simp
  then have "length (digit_loop r c v 0) = length (numeral_in 10 (hex_digit c) (unat v))"
    by (metis length_rev)
  with numeral_in_length [OF _ v, where dig = "hex_digit c"] show ?thesis by (simp add: sizeof_s_def)
qed (use digit_loop_bound [of 0 r c v] in \<open>simp add: sizeof_s_def\<close>)

theorem digit_buffer_bound_witness: "length (digit_loop 10 100 0x80000000 0) + 1 \<le> sizeof_s"
  using digit_buffer_bound [where d = CH_D and r = 10 and c = 100 and v = "0x80000000"] by (simp add: radix_def)

section \<open>On the terminal\<close>

definition on_wire :: "u8 list \<Rightarrow> u8 list" where
  "on_wire str = concat (map (\<lambda>c. if c = CH_nl then [CH_cr, CH_nl] else [c]) str)"

lemma send_on:
  assumes "uart_wired cf s" and "tx_on s"
  shows "\<exists>s'. uart_send_wait cf env UART_BASE c s = Some (Inr s') \<and> uart_wired cf s' \<and> tx_on s' \<and>
    host_out s' = host_out s @ [c] \<and> cpu s' = cpu s \<and> pmem s' = pmem s \<and>
    rx_ok s' = rx_ok s \<and> rx_stream s' = rx_stream s"
proof -
  from assms(2) obtain u where u: "hwdev_uart_p s = Some u" "u_cr u AND 1 \<noteq> 0" by (auto simp: tx_on_def)
  from uart_send_wait_on [OF assms(1) u, of env c] obtain s' where
    s': "uart_send_wait cf env UART_BASE c s = Some (Inr s')" "cpu s' = cpu s"
    "uview s' = uview (s\<lparr>host_out := host_out s @ [c],
         hwdev_uart_p := Some (u\<lparr>u_txd := ucast c, u_sr := u_sr u AND NOT 1\<rparr>)\<rparr>)" by blast
  have b: "(x AND - 2) AND 2 = x AND (2 :: u32)" for x
  proof -
    have "(x AND NOT 1) AND 2 = x AND (2 :: u32)" by (rule bit_word_eqI) (auto simp: bit_simps)
    then show ?thesis by simp
  qed
  from uview_cong [OF s'(3)] s'(1,2) assms(1) u b show ?thesis
    by (simp add: tx_on_def rx_ok_def rx_stream_def)
qed

lemma xputc_on:
  assumes "uart_wired cf s" and "tx_on s"
  shows "\<exists>s'. xputc cf env c s = Some (Inr s') \<and> uart_wired cf s' \<and> tx_on s' \<and>
    host_out s' = host_out s @ on_wire [c] \<and> cpu s' = cpu s \<and> pmem s' = pmem s \<and>
    rx_ok s' = rx_ok s \<and> rx_stream s' = rx_stream s"
proof (cases "c = CH_nl")
  case True
  from send_on [OF assms, of env CH_cr] obtain s1 where
    s1: "uart_send_wait cf env UART_BASE CH_cr s = Some (Inr s1)" "uart_wired cf s1" "tx_on s1"
      "host_out s1 = host_out s @ [CH_cr]" "cpu s1 = cpu s" "pmem s1 = pmem s"
      "rx_ok s1 = rx_ok s" "rx_stream s1 = rx_stream s" by blast
  from send_on [OF s1(2,3), of env c] s1 True show ?thesis
    by (auto simp: xputc_def bindO_def on_wire_def)
next
  case False
  with send_on [OF assms, of env c] show ?thesis by (auto simp: xputc_def bindO_def on_wire_def)
qed

lemma xputs_on:
  "uart_wired cf s \<Longrightarrow> tx_on s \<Longrightarrow> \<exists>s'. xputs cf env str s = Some (Inr s') \<and> uart_wired cf s' \<and> tx_on s' \<and>
    host_out s' = host_out s @ on_wire str \<and> cpu s' = cpu s \<and> pmem s' = pmem s \<and>
    rx_ok s' = rx_ok s \<and> rx_stream s' = rx_stream s"
proof (induction str arbitrary: s)
  case (Cons c str)
  from xputc_on [OF Cons.prems, of env c] obtain s1 where
    s1: "xputc cf env c s = Some (Inr s1)" "uart_wired cf s1" "tx_on s1"
      "host_out s1 = host_out s @ on_wire [c]" "cpu s1 = cpu s" "pmem s1 = pmem s"
      "rx_ok s1 = rx_ok s" "rx_stream s1 = rx_stream s" by blast
  from Cons.IH [OF s1(2,3)] s1 show ?case by (auto simp: bindO_def on_wire_def)
qed (simp add: on_wire_def)

lemma xprintf_on:
  assumes "uart_wired cf s" and "tx_on s" and "xvprintf fmt args = Inr out"
  shows "\<exists>s'. xprintf cf env fmt args s = Some (Inr s') \<and> host_out s' = host_out s @ on_wire out \<and>
    uart_wired cf s' \<and> tx_on s' \<and> rx_ok s' = rx_ok s \<and> rx_stream s' = rx_stream s \<and> pmem s' = pmem s \<and>
    (wf_nemu s \<longrightarrow> cpu s' = cpu s)"
proof -
  let ?s = "snd (interrupt_disable s)"
  have s: "uart_wired cf ?s" "tx_on ?s" "rx_ok ?s = rx_ok s" "rx_stream ?s = rx_stream s" using assms(1,2)
    by (simp_all add: interrupt_disable_def set_csr_pr_def uart_wired_def wired_def tx_on_def rx_ok_def
        rx_stream_def Let_def)
  from xputs_on [OF s(1,2), of env out] obtain s' where
    s': "xputs cf env out ?s = Some (Inr s')" "uart_wired cf s'" "tx_on s'"
      "host_out s' = host_out s @ on_wire out" "cpu s' = cpu ?s" "pmem s' = pmem s"
      "rx_ok s' = rx_ok s" "rx_stream s' = rx_stream s"
    using s(3,4) by (auto simp: interrupt_disable_def set_csr_pr_def Let_def)
  let ?t = "interrupt_enable (get_csr_pr 2 s) s'"
  have "xprintf cf env fmt args s = Some (Inr ?t)"
    using s'(1) assms(3) by (simp add: xprintf_def interrupt_disable_def bindO_def Let_def)
  moreover have "wf_nemu s \<longrightarrow> cpu ?t = cpu s"
    using s'(5)
    by (simp add: interrupt_enable_def interrupt_disable_def set_csr_pr_def get_csr_pr_def wf_nemu_def wf_cpu_def Let_def)
  ultimately show ?thesis using s'(2-4,6-8)
    by (auto simp: interrupt_enable_def set_csr_pr_def uart_wired_def wired_def tx_on_def rx_ok_def rx_stream_def)
qed

text \<open>C29: on a machine with the UART's transmitter on, \<open>xprintf\<close> returns, puts exactly the formatted
  text on the terminal, with a carriage return before every line feed, and leaves registers, memory and
  the interrupt enable bit as it found them.\<close>

theorem xprintf_prints:
  assumes "uart_wired cf s" and "tx_on s" and "wf_nemu s" and "xvprintf fmt args = Inr out"
  shows "\<exists>s'. xprintf cf env fmt args s = Some (Inr s') \<and> host_out s' = host_out s @ on_wire out \<and>
    cpu s' = cpu s \<and> pmem s' = pmem s \<and> uart_wired cf s' \<and> tx_on s'"
  using xprintf_on [OF assms(1,2,4), of env] assms(3) by blast

theorem xprintf_prints_witness:
  "\<exists>s s'. init_device default_config (blank_nemu\<lparr>host_stdin := []\<rparr>) = Inr s \<and>
     xprintf default_config id [72, 105, CH_nl] [] s = Some (Inr s') \<and>
     host_out s' = host_out s @ [72, 105, CH_cr, CH_nl]"
proof -
  obtain s where s: "init_device default_config (blank_nemu\<lparr>host_stdin := []\<rparr>) = Inr s" "uart_wired default_config s"
    "hwdev_uart_p s = Some \<lparr>u_cr = 3, u_sr = 0, u_baud = 115200, u_rxd = 0, u_txd = 0, u_has_data = False\<rparr>"
    "wf_nemu s"
    using init_device_blank [of "[]"] by metis
  then have "tx_on s" by (simp add: tx_on_def)
  moreover have "xvprintf [72, 105, CH_nl] [] = Inr [72, 105, CH_nl]" by simp
  ultimately obtain s' where "xprintf default_config id [72, 105, CH_nl] [] s = Some (Inr s')"
    "host_out s' = host_out s @ on_wire [72, 105, CH_nl]"
    using xprintf_prints [OF s(2) _ s(4)] by blast
  moreover have "on_wire [72, 105, CH_nl] = [72, 105, CH_cr, CH_nl]" by (simp add: on_wire_def)
  ultimately show ?thesis using s(1) by metis
qed

end
