(* ===== verification/Bootloader.thy ===== *)
theory Bootloader
  imports Xprintf_Props
begin

text \<open>
  The serial bootloaders \<^verbatim>\<open>sim/uart_recv/main.c\<close> and \<^verbatim>\<open>sim/uart_recv_dbg/main.c\<close>, run on the emulated
  board: they receive packets of 66 bytes (a head byte, sixteen little-endian words, a tail byte), store
  the words from \<open>IAP_ADDR\<close> on until a packet starts with \<open>0xA6\<close>, and jump to the first one. The jump is
  the address \<open>main\<close> returns. The two programs differ in their messages; the loop they share takes what
  is printed after each packet as an argument.
\<close>

section \<open>The programs\<close>

definition IAP_ADDR :: u32 where "IAP_ADDR = 0x80002000"
definition PACKAGE :: nat where "PACKAGE = 16"
definition sizeof_dummy :: nat where "sizeof_dummy = PACKAGE * 4 + 2"

fun read_bytes :: "config \<Rightarrow> (nemu \<Rightarrow> nemu) \<Rightarrow> nat \<Rightarrow> nemu \<Rightarrow> (u8 list \<times> nemu) res option" where
  "read_bytes cf env 0 s = Some (Inr ([], s))"
| "read_bytes cf env (Suc n) s =
     bindO (uart_read_wait cf env UART_BASE s) (\<lambda>(b, s1).
     bindO (read_bytes cf env n s1) (\<lambda>(bs, s2). Some (Inr (b # bs, s2))))"

definition packet_word :: "u8 list \<Rightarrow> nat \<Rightarrow> u32" where
  "packet_word dummy i =
     push_bit 0 (ucast (dummy ! (1 + 4 * i + 0))) + push_bit 8 (ucast (dummy ! (1 + 4 * i + 1)))
     + push_bit 16 (ucast (dummy ! (1 + 4 * i + 2))) + push_bit 24 (ucast (dummy ! (1 + 4 * i + 3)))"

text \<open>\<^verbatim>\<open>*((uint32_t*)IAP_ADDR + offset + i) = ...\<close> for \<^verbatim>\<open>i\<close> from \<open>i\<close> up to the package size.\<close>

fun store_words :: "config \<Rightarrow> u8 list \<Rightarrow> u32 \<Rightarrow> nat list \<Rightarrow> nemu \<Rightarrow> nemu res" where
  "store_words cf dummy offset [] s = Inr s"
| "store_words cf dummy offset (i # ks) s =
     bindE (vaddr_write cf (IAP_ADDR + 4 * (offset + of_nat i)) 4 (packet_word dummy i) s)
       (store_words cf dummy offset ks)"

partial_function (option) recv_loop ::
  "config \<Rightarrow> (nemu \<Rightarrow> nemu) \<Rightarrow> (u8 list \<Rightarrow> nemu \<Rightarrow> nemu res option) \<Rightarrow> u32 \<Rightarrow> nemu \<Rightarrow> nemu res option" where
  "recv_loop cf env trace offset s =
     (case read_bytes cf env sizeof_dummy s of
        None \<Rightarrow> None
      | Some (Inl e) \<Rightarrow> Some (Inl e)
      | Some (Inr (dummy, s1)) \<Rightarrow>
          (case trace dummy s1 of
             None \<Rightarrow> None
           | Some (Inl e) \<Rightarrow> Some (Inl e)
           | Some (Inr s2) \<Rightarrow>
               if 0xA6 = dummy ! 0 then Some (Inr s2)
               else (case store_words cf dummy offset [0..<PACKAGE] s2 of
                   Inl e \<Rightarrow> Some (Inl e)
                 | Inr s3 \<Rightarrow> recv_loop cf env trace (offset + of_nat PACKAGE) s3)))"

definition uart_recv_main :: "config \<Rightarrow> (nemu \<Rightarrow> nemu) \<Rightarrow> nemu \<Rightarrow> (u32 \<times> nemu) res option" where
  "uart_recv_main cf env s =
     bindO (xprintf cf env (bytes_of ''recv bin file...'' @ [CH_nl]) [] s) (\<lambda>s1.
     bindO (recv_loop cf env (\<lambda>_ s. Some (Inr s)) 0 s1) (\<lambda>s2.
     bindO (xprintf cf env (bytes_of ''recv bin file finished.'' @ [CH_nl]) [] s2) (\<lambda>s3.
     bindO (Some (vaddr_read cf IAP_ADDR 4 s3)) (\<lambda>(v, s4).
     bindO (xprintf cf env (bytes_of ''addr:%x, val:%x'' @ [CH_nl]) [AInt IAP_ADDR, AInt v] s4) (\<lambda>s5.
     Some (Inr (IAP_ADDR, s5)))))))"

text \<open>The debugging version prints every byte it receives, in groups of eight, four groups to a line.\<close>

fun dump_packet :: "config \<Rightarrow> (nemu \<Rightarrow> nemu) \<Rightarrow> nat \<Rightarrow> u8 list \<Rightarrow> nemu \<Rightarrow> nemu res option" where
  "dump_packet cf env i [] s = Some (Inr s)"
| "dump_packet cf env i (b # bs) s =
     bindO (xprintf cf env (bytes_of ''%02x'') [AInt (ucast b)] s) (\<lambda>s1.
     bindO (if i mod 32 = 0 then xprintf cf env [CH_nl] [] s1
            else if i mod 8 = 0 then xprintf cf env [CH_sp] [] s1 else Some (Inr s1))
       (dump_packet cf env (Suc i) bs))"

definition uart_recv_dbg_main :: "config \<Rightarrow> (nemu \<Rightarrow> nemu) \<Rightarrow> nemu \<Rightarrow> (u32 \<times> nemu) res option" where
  "uart_recv_dbg_main cf env s =
     bindO (xprintf cf env (bytes_of ''begin iap program'' @ [CH_nl]) [] s) (\<lambda>s1.
     bindO (recv_loop cf env (dump_packet cf env 0) 0 s1) (\<lambda>s2.
     bindO (xprintf cf env (bytes_of ''end iap program'' @ [CH_nl]) [] s2) (\<lambda>s3.
     Some (Inr (IAP_ADDR, s3)))))"

section \<open>Receiving packets\<close>

definition board_ready :: "config \<Rightarrow> nemu \<Rightarrow> bool" where
  "board_ready cf s \<longleftrightarrow> uart_wired cf s \<and> tx_on s \<and> rx_ok s"

text \<open>What the sender transmits for a block of words; head and tail are never checked beyond \<open>0xA6\<close>.\<close>

definition word_bytes :: "u32 \<Rightarrow> u8 list" where
  "word_bytes w = [ucast w, ucast (drop_bit 8 w), ucast (drop_bit 16 w), ucast (drop_bit 24 w)]"

definition data_packet :: "u8 \<Rightarrow> u32 list \<Rightarrow> u8 \<Rightarrow> u8 list" where
  "data_packet h ws t = h # concat (map word_bytes ws) @ [t]"

lemma read_bytes_stream:
  assumes "paced cf env m"
  shows "board_ready cf s \<Longrightarrow> rx_stream s = bs @ rest \<Longrightarrow>
    \<exists>s'. read_bytes cf env (length bs) s = Some (Inr (bs, s')) \<and> board_ready cf s' \<and> rx_stream s' = rest \<and>
      pmem s' = pmem s \<and> host_out s' = host_out s"
proof (induction bs arbitrary: s)
  case (Cons b bs)
  then obtain s1 where s1: "uart_read_wait cf env UART_BASE s = Some (Inr (b, s1))" "board_ready cf s1"
    "rx_stream s1 = bs @ rest" "pmem s1 = pmem s" "host_out s1 = host_out s"
    using uart_read_wait_next [OF _ _ assms, of s b "bs @ rest"] by (auto simp: board_ready_def)
  from Cons.IH [OF s1(2,3)] s1 show ?case by (auto simp: bindO_def)
qed simp

lemma word_bytes_length [simp]: "length (word_bytes w) = 4"
  by (simp add: word_bytes_def)

lemma bytes_sum:
  "ucast (ucast w :: u8) + push_bit 8 (ucast (ucast (drop_bit 8 w) :: u8)) + push_bit 16 (ucast (ucast (drop_bit 16 w) :: u8))
     + push_bit 24 (ucast (ucast (drop_bit 24 w) :: u8)) = (w :: u32)"
proof -
  have b: "ucast (ucast x :: u8) = take_bit 8 x" for x :: u32
    by (rule bit_word_eqI) (auto simp: bit_simps dest: bit_imp_le_length)
  have d: "take_bit 8 (drop_bit 24 w) = drop_bit 24 w"
    by (rule bit_word_eqI) (auto simp: bit_simps dest: bit_imp_le_length)
  have s: "take_bit 8 x + push_bit 8 (drop_bit 8 x) = x" for x :: u32
    using bits_ident [of 8 x] by (simp add: add.commute)
  have "w = take_bit 8 w + push_bit 8 (drop_bit 8 w)" by (simp add: s)
  also have "drop_bit 8 w = take_bit 8 (drop_bit 8 w) + push_bit 8 (drop_bit 16 w)"
    using s [of "drop_bit 8 w"] by simp
  also have "drop_bit 16 w = take_bit 8 (drop_bit 16 w) + push_bit 8 (drop_bit 24 w)"
    using s [of "drop_bit 16 w"] by simp
  finally show ?thesis by (simp add: b d push_bit_add add.assoc)
qed

lemma packet_word_bytes:
  assumes "i < length ws"
  shows "packet_word (data_packet h ws t) i = ws ! i"
proof -
  have "concat (map word_bytes ws) = concat (map word_bytes (take i ws)) @ word_bytes (ws ! i) @ concat (map word_bytes (drop (Suc i) ws))"
    using assms by (subst id_take_nth_drop [of i ws]) simp_all
  moreover have "length (concat (map word_bytes (take i ws))) = 4 * i"
    using assms by (simp add: length_concat comp_def sum_list_triv)
  ultimately have n: "data_packet h ws t ! (1 + 4 * i + k) = word_bytes (ws ! i) ! k" if "k < 4" for k
    using that by (simp add: data_packet_def nth_append)
  show ?thesis
    unfolding packet_word_def using n [of 0] n [of 1] n [of 2] n [of 3] bytes_sum [of "ws ! i"]
    by (simp add: word_bytes_def)
qed

section \<open>The image in memory\<close>

text \<open>\<open>n\<close> words from \<open>IAP_ADDR\<close> on lie in guest memory; with the default configuration 14336 do.\<close>

definition image_fits :: "config \<Rightarrow> nat \<Rightarrow> bool" where
  "image_fits cf n \<longleftrightarrow> n < 2 ^ 30 \<and> (\<forall>k < n. in_pmem cf (IAP_ADDR + 4 * of_nat k) \<and>
     guest_to_host cf (IAP_ADDR + 4 * of_nat k) = guest_to_host cf IAP_ADDR + 4 * k \<and>
     guest_to_host cf IAP_ADDR + 4 * k + 4 \<le> unat (CONFIG_MSIZE cf))"

lemma image_fits_default: "n \<le> 14336 \<Longrightarrow> image_fits default_config n"
proof -
  assume n: "n \<le> 14336"
  have u: "unat (of_nat k :: u32) = k" if "k < n" for k
    using that n by (simp add: unat_of_nat)
  show ?thesis
    using n u by (auto simp: image_fits_def in_pmem_def default_config_def IAP_ADDR_def guest_to_host_def
        word_less_nat_alt unat_word_ariths)
qed

text \<open>Storing the words \<open>ws\<close> one after the other from index \<open>a\<close> of guest memory.\<close>

fun put_words :: "(nat \<Rightarrow> u8) \<Rightarrow> nat \<Rightarrow> u32 list \<Rightarrow> (nat \<Rightarrow> u8)" where
  "put_words m a [] = m"
| "put_words m a (w # ws) = put_words (le_write m a 4 w) (a + 4) ws"

lemma put_words_append: "put_words m a (xs @ ys) = put_words (put_words m a xs) (a + 4 * length xs) ys"
  by (induction xs arbitrary: m a) (simp_all add: algebra_simps)

lemma put_words_outside: "b < a \<or> a + 4 * length ws \<le> b \<Longrightarrow> put_words m a ws b = m b"
proof (induction ws arbitrary: m a)
  case (Cons w ws)
  then have "put_words (le_write m a 4 w) (a + 4) ws b = le_write m a 4 w b" by (intro Cons.IH) auto
  with Cons.prems le_write_outside [of b a 4 m w] show ?case by auto
qed simp

lemma put_words_read: "i < length ws \<Longrightarrow> le_read (put_words m a ws) (a + 4 * i) 4 = ws ! i"
proof (induction ws arbitrary: m a i)
  case (Cons w ws)
  show ?case
  proof (cases i)
    case 0
    have "le_read (put_words (le_write m a 4 w) (a + 4) ws) a 4 = le_read (le_write m a 4 w) a 4"
      by (rule le_read_cong) (simp add: put_words_outside)
    then show ?thesis using 0 le_read_write [of m a 4 w] by (simp add: take_bit_word_eq_self del: le_write.simps le_read.simps)
  next
    case (Suc j)
    have e: "a + 4 * i = (a + 4) + 4 * j" by (simp add: Suc)
    show ?thesis unfolding put_words.simps e using Cons Suc by simp
  qed
qed simp

lemma store_word:
  assumes "image_fits cf n" and "k < n"
  shows "vaddr_write cf (IAP_ADDR + 4 * of_nat k) 4 v s =
    Inr (s\<lparr>pmem := le_write (pmem s) (guest_to_host cf IAP_ADDR + 4 * k) 4 v\<rparr>)"
  using assms
  by (simp add: image_fits_def vaddr_write_def paddr_write_def pmem_write_def host_write_def del: le_write.simps)

lemma store_words_put:
  assumes fits: "image_fits cf n" and "base + PACKAGE \<le> n" and len: "length ws = PACKAGE"
  shows "store_words cf (data_packet h ws t) (of_nat base) [0..<PACKAGE] s =
    Inr (s\<lparr>pmem := put_words (pmem s) (guest_to_host cf IAP_ADDR + 4 * base) ws\<rparr>)"
proof -
  have "i \<le> PACKAGE \<Longrightarrow> store_words cf (data_packet h ws t) (of_nat base) [i..<PACKAGE] s =
      Inr (s\<lparr>pmem := put_words (pmem s) (guest_to_host cf IAP_ADDR + 4 * (base + i)) (drop i ws)\<rparr>)" for i s
  proof (induction "PACKAGE - i" arbitrary: i s)
    case 0
    then show ?case using len by simp
  next
    case (Suc d)
    then have i: "i < PACKAGE" by simp
    have "base + i < n" using i assms(2) by simp
    note st = store_word [OF fits this, of "packet_word (data_packet h ws t) i" s]
    have d: "drop i ws = ws ! i # drop (Suc i) ws" using i len by (simp add: Cons_nth_drop_Suc)
    have r: "[i..<PACKAGE] = i # [Suc i..<PACKAGE]" using i by (simp add: upt_rec)
    show ?case
      using Suc(1) [of "Suc i"] Suc(2) i st packet_word_bytes [of i ws h t] len
      by (simp add: r d algebra_simps del: le_write.simps)
  qed
  from this [of 0] show ?thesis by simp
qed

section \<open>The receive loop\<close>

definition quiet :: "config \<Rightarrow> (u8 list \<Rightarrow> nemu \<Rightarrow> nemu res option) \<Rightarrow> bool" where
  "quiet cf trace \<longleftrightarrow> (\<forall>bs s. board_ready cf s \<longrightarrow> (\<exists>s'. trace bs s = Some (Inr s') \<and> board_ready cf s' \<and>
     rx_stream s' = rx_stream s \<and> pmem s' = pmem s))"

type_synonym block = "u8 \<times> u32 list \<times> u8"

definition block_ok :: "block \<Rightarrow> bool" where
  "block_ok b = (case b of (h, ws, t) \<Rightarrow> h \<noteq> 0xA6 \<and> length ws = PACKAGE)"

definition transmission :: "block list \<Rightarrow> u8 list" where
  "transmission bs = concat (map (\<lambda>(h, ws, t). data_packet h ws t) bs)"

definition image :: "block list \<Rightarrow> u32 list" where
  "image bs = concat (map (\<lambda>(h, ws, t). ws) bs)"

lemma data_packet_length: "length ws = PACKAGE \<Longrightarrow> length (data_packet h ws t) = sizeof_dummy"
  by (simp add: data_packet_def sizeof_dummy_def length_concat comp_def sum_list_triv)

lemma recv_loop_packets:
  assumes env: "paced cf env m" and qt: "quiet cf trace" and fits: "image_fits cf n"
    and fin: "length fin = sizeof_dummy" "fin ! 0 = 0xA6"
  shows "list_all block_ok bs \<Longrightarrow> board_ready cf s \<Longrightarrow> rx_stream s = transmission bs @ fin @ rest \<Longrightarrow>
    base + PACKAGE * length bs \<le> n \<Longrightarrow>
    \<exists>s'. recv_loop cf env trace (of_nat base) s = Some (Inr s') \<and> board_ready cf s' \<and> rx_stream s' = rest \<and>
      pmem s' = put_words (pmem s) (guest_to_host cf IAP_ADDR + 4 * base) (image bs)"
proof (induction bs arbitrary: base s)
  case Nil
  then have "rx_stream s = fin @ rest" by (simp add: transmission_def)
  from read_bytes_stream [OF env Nil(2) this] fin(1) obtain s1 where
    s1: "read_bytes cf env sizeof_dummy s = Some (Inr (fin, s1))" "board_ready cf s1" "rx_stream s1 = rest"
      "pmem s1 = pmem s" by auto
  from qt s1(2) obtain s2 where
    "trace fin s1 = Some (Inr s2)" "board_ready cf s2" "rx_stream s2 = rx_stream s1" "pmem s2 = pmem s1"
    unfolding quiet_def by blast
  with s1 fin show ?case by (subst recv_loop.simps) (simp add: image_def)
next
  case (Cons b bs)
  obtain h ws t where b: "b = (h, ws, t)" by (cases b)
  from Cons.prems(1) have "block_ok b" and ok: "list_all block_ok bs" by simp_all
  with b have h: "h \<noteq> 0xA6" and ws: "length ws = PACKAGE" by (simp_all add: block_ok_def)
  let ?p = "data_packet h ws t"
  have "rx_stream s = ?p @ transmission bs @ fin @ rest"
    using Cons.prems(3) by (simp add: transmission_def b)
  from read_bytes_stream [OF env Cons.prems(2) this] data_packet_length [OF ws, of h t] obtain s1 where
    s1: "read_bytes cf env sizeof_dummy s = Some (Inr (?p, s1))" "board_ready cf s1"
      "rx_stream s1 = transmission bs @ fin @ rest" "pmem s1 = pmem s" by auto
  from qt s1(2) obtain s2 where
    s2: "trace ?p s1 = Some (Inr s2)" "board_ready cf s2" "rx_stream s2 = rx_stream s1" "pmem s2 = pmem s1"
    unfolding quiet_def by blast
  have bound: "base + PACKAGE \<le> n" using Cons.prems(4) by simp
  let ?s3 = "s2\<lparr>pmem := put_words (pmem s2) (guest_to_host cf IAP_ADDR + 4 * base) ws\<rparr>"
  have "board_ready cf ?s3" "rx_stream ?s3 = transmission bs @ fin @ rest"
    using s1(3) s2(2,3) by (simp_all add: board_ready_def uart_wired_def wired_def tx_on_def rx_ok_def rx_stream_def)
  moreover have "base + PACKAGE + PACKAGE * length bs \<le> n" using Cons.prems(4) by simp
  ultimately obtain s' where "recv_loop cf env trace (of_nat (base + PACKAGE)) ?s3 = Some (Inr s')" "board_ready cf s'"
    "rx_stream s' = rest" "pmem s' = put_words (pmem ?s3) (guest_to_host cf IAP_ADDR + 4 * (base + PACKAGE)) (image bs)"
    using Cons.IH [OF ok, of ?s3 "base + PACKAGE"] by blast
  then show ?case
    using s1 s2 store_words_put [OF fits bound ws, of h t s2] h ws
    by (subst recv_loop.simps)
       (simp add: data_packet_def image_def b put_words_append algebra_simps)
qed

text \<open>
  \<open>loaded\<close>: the words of the image stand at \<open>IAP_ADDR\<close> and the rest of guest memory is as it was.
\<close>

definition loaded :: "config \<Rightarrow> u32 list \<Rightarrow> nemu \<Rightarrow> nemu \<Rightarrow> bool" where
  "loaded cf ws s s' \<longleftrightarrow> (\<forall>i < length ws. le_read (pmem s') (guest_to_host cf IAP_ADDR + 4 * i) 4 = ws ! i) \<and>
     (\<forall>b. b < guest_to_host cf IAP_ADDR \<or> guest_to_host cf IAP_ADDR + 4 * length ws \<le> b \<longrightarrow> pmem s' b = pmem s b)"

lemma loaded_put_words:
  "pmem s' = put_words (pmem s) (guest_to_host cf IAP_ADDR) ws \<Longrightarrow> loaded cf ws s s'"
  by (simp add: loaded_def put_words_read put_words_outside del: le_read.simps)

lemma print_ready:
  assumes "board_ready cf s" and "xvprintf fmt args = Inr out"
  shows "\<exists>s'. xprintf cf env fmt args s = Some (Inr s') \<and> board_ready cf s' \<and> rx_stream s' = rx_stream s \<and>
    pmem s' = pmem s \<and> host_out s' = host_out s @ on_wire out"
  using xprintf_on [of cf s fmt args out env] assms by (auto simp: board_ready_def)

lemma xvprintf_plain: "CH_pct \<notin> set fmt \<Longrightarrow> xvprintf fmt [] = Inr fmt"
  by (induction fmt) auto

lemma dump_packet_quiet: "quiet cf (dump_packet cf env i)"
  unfolding quiet_def
proof (intro allI impI)
  fix bs s assume "board_ready cf s"
  then show "\<exists>s'. dump_packet cf env i bs s = Some (Inr s') \<and> board_ready cf s' \<and>
      rx_stream s' = rx_stream s \<and> pmem s' = pmem s"
  proof (induction bs arbitrary: i s)
    case (Cons b bs)
    have "\<exists>out. xvprintf (bytes_of ''%02x'') [AInt (ucast b)] = Inr out"
      by (simp add: bytes_of_def parse_directive_def parse_flag_def next_char_def Let_def upper_def radix_def)
    then obtain s1 where s1: "xprintf cf env (bytes_of ''%02x'') [AInt (ucast b)] s = Some (Inr s1)" "board_ready cf s1"
      "rx_stream s1 = rx_stream s" "pmem s1 = pmem s"
      using print_ready [OF Cons.prems] by blast
    have "\<exists>s2. (if i mod 32 = 0 then xprintf cf env [CH_nl] [] s1
            else if i mod 8 = 0 then xprintf cf env [CH_sp] [] s1 else Some (Inr s1)) = Some (Inr s2) \<and> board_ready cf s2 \<and>
      rx_stream s2 = rx_stream s1 \<and> pmem s2 = pmem s1"
      using print_ready [OF s1(2), of "[CH_nl]" "[]" "[CH_nl]" env] print_ready [OF s1(2), of "[CH_sp]" "[]" "[CH_sp]" env]
        s1(2) by auto
    then obtain s2 where s2: "(if i mod 32 = 0 then xprintf cf env [CH_nl] [] s1
            else if i mod 8 = 0 then xprintf cf env [CH_sp] [] s1 else Some (Inr s1)) = Some (Inr s2)" "board_ready cf s2"
      "rx_stream s2 = rx_stream s1" "pmem s2 = pmem s1" by blast
    from Cons.IH [OF s2(2), of "Suc i"] s1 s2 show ?case by (simp add: bindO_def del: uart_off.simps)
  qed simp
qed

lemma print_plain:
  assumes "board_ready cf s" and "CH_pct \<notin> set (bytes_of t)"
  shows "\<exists>s'. xprintf cf env (bytes_of t @ [CH_nl]) [] s = Some (Inr s') \<and> board_ready cf s' \<and>
      rx_stream s' = rx_stream s \<and> pmem s' = pmem s"
  using print_ready [OF assms(1) xvprintf_plain, of "bytes_of t @ [CH_nl]" env] assms(2) by auto

lemma receive_image:
  assumes "board_ready cf s1" and "rx_stream s1 = rx_stream s" and "pmem s1 = pmem s" and "quiet cf trace" and "paced cf env m" and "image_fits cf n" and "0 < n" and "PACKAGE * length bs \<le> n"
    and "list_all block_ok bs" and "length fin = sizeof_dummy" and "fin ! 0 = 0xA6"
    and "rx_stream s = transmission bs @ fin @ rest"
  shows "\<exists>s'. recv_loop cf env trace 0 s1 = Some (Inr s') \<and> board_ready cf s' \<and> rx_stream s' = rest \<and>
      pmem s' = put_words (pmem s) (guest_to_host cf IAP_ADDR) (image bs)"
  using recv_loop_packets [OF assms(5,4,6,10,11,9,1), of rest 0] assms by simp

lemma uart_recv_main_loads:
  assumes "board_ready cf s" and "paced cf env m" and "image_fits cf n" and "0 < n" and "PACKAGE * length bs \<le> n"
    and "list_all block_ok bs" and "length fin = sizeof_dummy" and "fin ! 0 = 0xA6"
    and "rx_stream s = transmission bs @ fin @ rest"
  shows "\<exists>s'. uart_recv_main cf env s = Some (Inr (IAP_ADDR, s')) \<and> loaded cf (image bs) s s' \<and> rx_stream s' = rest"
proof -
  obtain s1 where s1: "xprintf cf env (bytes_of ''recv bin file...'' @ [CH_nl]) [] s = Some (Inr s1)" "board_ready cf s1"
    "rx_stream s1 = rx_stream s" "pmem s1 = pmem s"
    using print_plain [OF assms(1), of "''recv bin file...''"] by (auto simp: bytes_of_def)
  from receive_image [OF s1(2-4) _ assms(2-9), of "\<lambda>_ s. Some (Inr s)"] obtain s2 where
    s2: "recv_loop cf env (\<lambda>_ s. Some (Inr s)) 0 s1 = Some (Inr s2)" "board_ready cf s2" "rx_stream s2 = rest"
      "pmem s2 = put_words (pmem s) (guest_to_host cf IAP_ADDR) (image bs)" by (auto simp: quiet_def)
  obtain s3 where s3: "xprintf cf env (bytes_of ''recv bin file finished.'' @ [CH_nl]) [] s2 = Some (Inr s3)"
    "board_ready cf s3" "rx_stream s3 = rest" "pmem s3 = pmem s2"
    using print_plain [OF s2(2), of "''recv bin file finished.''"] s2(3) by (auto simp: bytes_of_def)
  have "\<exists>v. vaddr_read cf IAP_ADDR 4 s3 = Inr (v, s3)"
    using assms(3,4) by (auto simp: vaddr_read_def paddr_read_def pmem_read_def host_read_def image_fits_def
        dest: spec [of _ 0])
  then obtain v where v: "vaddr_read cf IAP_ADDR 4 s3 = Inr (v, s3)" by blast
  have "\<exists>out. xvprintf (bytes_of ''addr:%x, val:%x'' @ [CH_nl]) [AInt IAP_ADDR, AInt v] = Inr out"
    by (simp add: bytes_of_def parse_directive_def parse_flag_def next_char_def Let_def upper_def radix_def)
  then obtain s4 where s4: "xprintf cf env (bytes_of ''addr:%x, val:%x'' @ [CH_nl]) [AInt IAP_ADDR, AInt v] s3 = Some (Inr s4)"
    "rx_stream s4 = rest" "pmem s4 = pmem s3"
    using print_ready [OF s3(2)] s3(3) by metis
  have "uart_recv_main cf env s = Some (Inr (IAP_ADDR, s4))"
    using s1(1) s2(1) s3(1) v s4(1) by (simp add: uart_recv_main_def bindO_def)
  then show ?thesis
    using s2(4) s3(4) s4(2,3) by (auto intro!: loaded_put_words)
qed

lemma uart_recv_dbg_main_loads:
  assumes "board_ready cf s" and "paced cf env m" and "image_fits cf n" and "0 < n" and "PACKAGE * length bs \<le> n"
    and "list_all block_ok bs" and "length fin = sizeof_dummy" and "fin ! 0 = 0xA6"
    and "rx_stream s = transmission bs @ fin @ rest"
  shows "\<exists>s'. uart_recv_dbg_main cf env s = Some (Inr (IAP_ADDR, s')) \<and> loaded cf (image bs) s s' \<and> rx_stream s' = rest"
proof -
  obtain s1 where s1: "xprintf cf env (bytes_of ''begin iap program'' @ [CH_nl]) [] s = Some (Inr s1)" "board_ready cf s1"
    "rx_stream s1 = rx_stream s" "pmem s1 = pmem s"
    using print_plain [OF assms(1), of "''begin iap program''"] by (auto simp: bytes_of_def)
  from receive_image [OF s1(2-4) dump_packet_quiet assms(2-9)] obtain s2 where
    s2: "recv_loop cf env (dump_packet cf env 0) 0 s1 = Some (Inr s2)" "board_ready cf s2" "rx_stream s2 = rest"
      "pmem s2 = put_words (pmem s) (guest_to_host cf IAP_ADDR) (image bs)" by blast
  obtain s3 where s3: "xprintf cf env (bytes_of ''end iap program'' @ [CH_nl]) [] s2 = Some (Inr s3)"
    "rx_stream s3 = rest" "pmem s3 = pmem s2"
    using print_plain [OF s2(2), of "''end iap program''"] s2(3) by (auto simp: bytes_of_def)
  have "uart_recv_dbg_main cf env s = Some (Inr (IAP_ADDR, s3))"
    using s1(1) s2(1) s3(1) by (simp add: uart_recv_dbg_main_def bindO_def)
  then show ?thesis
    using s2(4) s3(2,3) by (auto intro!: loaded_put_words)
qed



end
