(* ===== verification/Selftest.thy ===== *)
theory Selftest
  imports Prelude
begin

text \<open>
  The self-test programs that run on the chip, \<^verbatim>\<open>sim/bin-creater\<close> and \<^verbatim>\<open>sim/iap_app\<close> (the same headers
  in both): two sorts, a prime sieve, a CRC, two matrix products and a state machine, and the program
  that runs them and prints what failed. Arrays are lists, a \<^verbatim>\<open>for\<close> loop is a fold over its index; \<^verbatim>\<open>int\<close>
  values are integers, all of them far inside the 32-bit range for the sizes of these programs, except
  in the CRC and the byte buffers, which are words.
\<close>

section \<open>Sorting: sort.h\<close>

definition ARR_LEN :: nat where "ARR_LEN = 1000"

text \<open>The \<^verbatim>\<open>while\<close> loop of the insertion sort, with \<^verbatim>\<open>j + 1\<close> as the argument.\<close>

fun shift_loop :: "int \<Rightarrow> int list \<Rightarrow> nat \<Rightarrow> int list \<times> nat" where
  "shift_loop key arr 0 = (arr, 0)"
| "shift_loop key arr (Suc j) =
     (if arr ! j > key then shift_loop key (arr[Suc j := arr ! j]) j else (arr, Suc j))"

definition insertion_step :: "int list \<Rightarrow> nat \<Rightarrow> int list" where
  "insertion_step arr i =
     (let key = arr ! i; (arr', k) = shift_loop key arr i in arr'[k := key])"

definition sort_insertion :: "int list \<Rightarrow> nat \<Rightarrow> int list" where
  "sort_insertion arr len = foldl insertion_step arr [1..<len]"

definition min_index :: "int list \<Rightarrow> nat \<Rightarrow> nat \<Rightarrow> nat" where
  "min_index arr len i = foldl (\<lambda>m j. if arr ! j < arr ! m then j else m) i [i + 1..<len]"

definition selection_step :: "nat \<Rightarrow> int list \<Rightarrow> nat \<Rightarrow> int list" where
  "selection_step len arr i =
     (let min_idx = min_index arr len i in
      if min_idx \<noteq> i then arr[i := arr ! min_idx, min_idx := arr ! i] else arr)"

definition sort_selection :: "int list \<Rightarrow> nat \<Rightarrow> int list" where
  "sort_selection arr len = foldl (selection_step len) arr [0..<len - 1]"

fun array_equal_from :: "int list \<Rightarrow> int list \<Rightarrow> nat list \<Rightarrow> bool" where
  "array_equal_from a b [] = True"
| "array_equal_from a b (i # is) = (if a ! i \<noteq> b ! i then False else array_equal_from a b is)"

definition array_equal :: "int list \<Rightarrow> int list \<Rightarrow> nat \<Rightarrow> bool" where
  "array_equal a b len = array_equal_from a b [0..<len]"

text \<open>\<^verbatim>\<open>%\<close> of C rounds the quotient towards zero.\<close>

definition init_array :: "int list \<Rightarrow> nat \<Rightarrow> int \<Rightarrow> int list" where
  "init_array arr len rand =
     foldl (\<lambda>a i. a[i := (int len * 73 - rand * 31 + int i) smod 12343]) arr [0..<len]"

section \<open>Primes: prime.h\<close>

definition PRIME_SIZE :: nat where "PRIME_SIZE = 3000"

function trial_loop :: "int \<Rightarrow> int \<Rightarrow> bool" where
  "trial_loop num i =
     (if i * i \<le> num then (if num smod i = 0 then False else trial_loop num (i + 1)) else True)"
  by pat_completeness auto
termination
proof (relation "measure (\<lambda>(num, i). nat (num + 1 - i))", goal_cases)
  case (2 num i)
  have "i \<le> i * i"
  proof (cases "1 \<le> i")
    case True
    then show ?thesis using mult_right_mono [of 1 i i] by simp
  next
    case False
    then have "i \<le> 0" by simp
    then show ?thesis using zero_le_square order_trans by blast
  qed
  with 2 show ?case by simp
qed simp

declare trial_loop.simps [simp del]

definition is_prime :: "int \<Rightarrow> bool" where
  "is_prime num = (if num \<le> 1 then False else trial_loop num 2)"

text \<open>\<^verbatim>\<open>for (int j = i * 2; j <= PRIME_SIZE; j += i) prime_table[j] = 0;\<close> for a table of any size.\<close>

function strike :: "nat \<Rightarrow> nat \<Rightarrow> nat \<Rightarrow> (nat \<Rightarrow> int) \<Rightarrow> (nat \<Rightarrow> int)" where
  "strike sz i j t = (if j \<le> sz \<and> 0 < i then strike sz i (j + i) (t(j := 0)) else t)"
  by pat_completeness auto
termination
  by (relation "measure (\<lambda>(sz, i, j, t). Suc sz - j)") auto

declare strike.simps [simp del]

definition sieve_step :: "nat \<Rightarrow> (nat \<Rightarrow> int) \<times> int \<Rightarrow> nat \<Rightarrow> (nat \<Rightarrow> int) \<times> int" where
  "sieve_step sz = (\<lambda>(t, sum) i.
     if t i \<noteq> 0 then (strike sz i (i * 2) t, sum + 1) else (t, sum))"

definition count_primes :: "nat \<Rightarrow> int" where
  "count_primes sz = foldl (\<lambda>c i. if is_prime (int i) then c + 1 else c) 0 [2..<Suc sz]"

definition validate_prime_calculation :: "nat \<Rightarrow> bool" where
  "validate_prime_calculation sz =
     (let count = count_primes sz;
          t0 = foldl (\<lambda>t i. t(i := 1)) (\<lambda>_. 0) [0..<Suc sz];
          t1 = t0(2 := 0);
          (t2, sum) = foldl (sieve_step sz) (t1, 0) [2..<Suc sz]
      in sum = count)"

section \<open>CRC: crc.h\<close>

definition CRC_SIZE :: nat where "CRC_SIZE = 2048"
definition CRC_LOOP_COUNT :: nat where "CRC_LOOP_COUNT = 300"

definition crc_bit :: "u16 \<Rightarrow> u16" where
  "crc_bit crc = (if crc AND 1 \<noteq> 0 then drop_bit 1 crc XOR 0xA001 else drop_bit 1 crc)"

definition crc_byte :: "u16 \<Rightarrow> u8 \<Rightarrow> u16" where
  "crc_byte crc b = foldl (\<lambda>c j. crc_bit c) (crc XOR ucast b) [0..<8]"

definition crc16_modbus :: "u8 list \<Rightarrow> nat \<Rightarrow> u16" where
  "crc16_modbus data len = foldl (\<lambda>crc i. crc_byte crc (data ! i)) 0xFFFF [0..<len]"

definition init_crc_buffer :: "nat \<Rightarrow> u8 list \<Rightarrow> u8 list" where
  "init_crc_buffer seed buf =
     foldl (\<lambda>b i. b[i := of_nat ((i * 17 + seed * 23 + 29) mod 256)]) buf [0..<CRC_SIZE]"

definition crc_round :: "nat \<Rightarrow> u8 list \<Rightarrow> bool \<times> u8 list" where
  "crc_round round buf0 =
     (let buf = init_crc_buffer round buf0;
          crc_ok = crc16_modbus buf CRC_SIZE;
          k = round * 123 mod CRC_SIZE;
          buf1 = buf[k := buf ! k XOR 0x5A];
          crc_err = crc16_modbus buf1 CRC_SIZE;
          buf2 = buf1[k := buf1 ! k XOR 0x5A];
          crc_verify = crc16_modbus buf2 CRC_SIZE
      in (if crc_ok = crc_err then False else if crc_verify \<noteq> crc_ok then False else True, buf2))"

fun crc_rounds :: "nat list \<Rightarrow> u8 list \<Rightarrow> bool" where
  "crc_rounds [] buf = True"
| "crc_rounds (r # rs) buf = (case crc_round r buf of (ok, buf') \<Rightarrow> if \<not> ok then False else crc_rounds rs buf')"

definition run_crc_test :: "u8 list \<Rightarrow> bool" where
  "run_crc_test crc_buffer = crc_rounds [0..<CRC_LOOP_COUNT] crc_buffer"

section \<open>Matrices: matrix.h\<close>

definition M_SIZE :: nat where "M_SIZE = 30"

type_synonym matrix = "nat \<Rightarrow> nat \<Rightarrow> int"

definition set_entry :: "matrix \<Rightarrow> nat \<Rightarrow> nat \<Rightarrow> int \<Rightarrow> matrix" where
  "set_entry M i j v = M(i := (M i)(j := v))"

text \<open>Two nested loops over all entries.\<close>

definition for_entries :: "(nat \<Rightarrow> nat \<Rightarrow> matrix \<Rightarrow> matrix) \<Rightarrow> matrix \<Rightarrow> matrix" where
  "for_entries f M = fold (\<lambda>i. fold (\<lambda>j. f i j) [0..<M_SIZE]) [0..<M_SIZE] M"

definition matmul_naive :: "matrix \<Rightarrow> matrix \<Rightarrow> matrix \<Rightarrow> matrix" where
  "matmul_naive A B C =
     for_entries (\<lambda>i j C. set_entry C i j (fold (\<lambda>k sum. sum + A i k * B k j) [0..<M_SIZE] 0)) C"

definition matmul_transpose :: "matrix \<Rightarrow> matrix \<Rightarrow> matrix \<Rightarrow> matrix \<Rightarrow> matrix" where
  "matmul_transpose B_T0 A B C =
     (let B_T = for_entries (\<lambda>i j T. set_entry T j i (B i j)) B_T0
      in for_entries (\<lambda>i j C. set_entry C i j (fold (\<lambda>k sum. sum + A i k * B_T j k) [0..<M_SIZE] 0)) C)"

definition verify :: "matrix \<Rightarrow> matrix \<Rightarrow> bool" where
  "verify A B = list_all (\<lambda>i. list_all (\<lambda>j. A i j = B i j) [0..<M_SIZE]) [0..<M_SIZE]"

definition init_matrix :: "matrix \<Rightarrow> nat \<Rightarrow> matrix" where
  "init_matrix M seed = for_entries (\<lambda>i j M. set_entry M i j (int ((i * j + seed) mod 100))) M"

section \<open>State machine: fsm.h\<close>

definition FSM_ROUNDS :: nat where "FSM_ROUNDS = 5000"
definition FSM_TRACE_LEN :: nat where "FSM_TRACE_LEN = 256"

datatype fsm_state = STATE_A | STATE_B | STATE_C | STATE_D

fun fsm_num :: "fsm_state \<Rightarrow> int" where
  "fsm_num STATE_A = 0" | "fsm_num STATE_B = 1" | "fsm_num STATE_C = 2" | "fsm_num STATE_D = 3"

fun fsm_transition :: "fsm_state \<Rightarrow> nat \<Rightarrow> fsm_state" where
  "fsm_transition STATE_A input = (if input mod 2 = 0 then STATE_B else STATE_C)"
| "fsm_transition STATE_B input = (if input mod 3 = 0 then STATE_C else STATE_D)"
| "fsm_transition STATE_C input = (if input mod 5 = 0 then STATE_D else STATE_A)"
| "fsm_transition STATE_D input = (if input mod 7 = 0 then STATE_A else STATE_B)"

text \<open>The inner loop from index \<open>i\<close> on: state and checksum; the trace array is written and never read.\<close>

definition fsm_inner :: "nat \<Rightarrow> nat \<Rightarrow> fsm_state \<times> int \<Rightarrow> fsm_state \<times> int" where
  "fsm_inner a b = fold (\<lambda>i (s, c). let s' = fsm_transition s (i * a + b) in (s', c + fsm_num s' * int (i + 1)))
     [0..<FSM_TRACE_LEN]"

definition run_fsm_test :: bool where
  "run_fsm_test =
     (let checksum = snd ((fsm_inner 17 23 ^^ FSM_ROUNDS) (STATE_A, 0));
          expected = 259865001
      in if checksum \<noteq> expected then False
         else if snd ((fsm_inner 19 31 ^^ FSM_ROUNDS) (STATE_B, 0)) = expected then False else True)"

section \<open>The programs\<close>

text \<open>
  What a program does through the platform table, in order: \<open>Print\<close> is a call of \<^verbatim>\<open>myprintf\<close> with its
  64-bit or 32-bit arguments, \<open>Ecall\<close> an environment call. \<open>start\<close>, \<open>end\<close> and \<open>freq\<close> are what
  \<^verbatim>\<open>get_cycle_value\<close> and \<^verbatim>\<open>get_frequency\<close> return, \<open>B_T\<close> what the uninitialised local matrix holds.
\<close>

datatype abi_event = Print string "u64 list" | Ecall

text \<open>The global arrays keep their contents from one test to the next.\<close>

record globals =
  g_arr1 :: "int list"
  g_arr2 :: "int list"
  g_crc :: "u8 list"
  g_A :: matrix
  g_B :: matrix
  g_C1 :: matrix
  g_C2 :: matrix

fun sort_rounds :: "nat list \<Rightarrow> int list \<Rightarrow> int list \<Rightarrow> bool" where
  "sort_rounds [] arr1 arr2 = True"
| "sort_rounds (i # is) arr1 arr2 =
     (let a = init_array arr1 ARR_LEN (int i);
          b = foldl (\<lambda>b j. b[j := a ! j]) arr2 [0..<ARR_LEN];
          a' = sort_insertion a ARR_LEN;
          b' = sort_selection b ARR_LEN
      in if \<not> array_equal a' b' ARR_LEN then False else sort_rounds is a' b')"

fun matrix_rounds :: "nat list \<Rightarrow> matrix \<Rightarrow> matrix \<Rightarrow> matrix \<Rightarrow> matrix \<Rightarrow> matrix \<Rightarrow> bool" where
  "matrix_rounds [] B_T A B C1 C2 = True"
| "matrix_rounds (i # is) B_T A B C1 C2 =
     (let A' = init_matrix A i; B' = init_matrix B (2 * i);
          C1' = matmul_naive A' B' C1; C2' = matmul_transpose B_T A' B' C2
      in if \<not> verify C1' C2' then False else matrix_rounds is B_T A' B' C1' C2')"

definition nl :: string where "nl = [CHR 0x0A]"

definition report :: "u64 \<Rightarrow> u64 \<Rightarrow> u32 \<Rightarrow> abi_event list" where
  "report start stop freq =
     [Print (''tick: %ld'' @ nl) [stop], Print (''tick: %ld'' @ nl) [stop - start],
      Print (''second: %ld'' @ nl) [(stop - start) div ucast freq]]"

definition jump_test :: "globals \<Rightarrow> matrix \<Rightarrow> u64 \<Rightarrow> u64 \<Rightarrow> u32 \<Rightarrow> abi_event list" where
  "jump_test g B_T start stop freq =
     (if \<not> sort_rounds [0..<5] (g_arr1 g) (g_arr2 g) then [Print (''sort program failed!'' @ nl) []]
      else if \<not> validate_prime_calculation PRIME_SIZE then [Print (''prime program failed!'' @ nl) []]
      else if \<not> run_crc_test (g_crc g) then [Print (''crc program failed!'' @ nl) []]
      else if \<not> matrix_rounds [0..<5] B_T (g_A g) (g_B g) (g_C1 g) (g_C2 g) then [Print (''matrix program failed!'' @ nl) []]
      else if \<not> run_fsm_test then [Print (''fsm program failed!'' @ nl) []]
      else [Print (''Hello from test code!'' @ nl) [], Print (''tick: %ld'' @ nl) [start]]
        @ map (\<lambda>i. Print (''Test round %d'' @ nl) [of_nat i]) [0..<10] @ report start stop freq)"

definition jump_iap :: "globals \<Rightarrow> matrix \<Rightarrow> u64 \<Rightarrow> u64 \<Rightarrow> u32 \<Rightarrow> abi_event list" where
  "jump_iap g B_T start stop freq =
     Print (''sort program start!'' @ nl) [] #
     (if \<not> sort_rounds [0..<5] (g_arr1 g) (g_arr2 g) then [Print (''sort program failed!'' @ nl) []]
      else Print (''prime program start!'' @ nl) [] #
     (if \<not> validate_prime_calculation PRIME_SIZE then [Print (''prime program failed!'' @ nl) []]
      else Print (''crc program start!'' @ nl) [] #
     (if \<not> run_crc_test (g_crc g) then [Print (''crc program failed!'' @ nl) []]
      else Print (''matrix program start!'' @ nl) [] #
     (if \<not> matrix_rounds [0..<5] B_T (g_A g) (g_B g) (g_C1 g) (g_C2 g) then [Print (''matrix program failed!'' @ nl) []]
      else Print (''fsm program start!'' @ nl) [] #
     (if \<not> run_fsm_test then [Print (''fsm program failed!'' @ nl) []]
      else [Print (''Hello from test code!'' @ nl) [], Print (''tick: %ld'' @ nl) [start]]
        @ concat (map (\<lambda>i. [Print (''Test round %d'' @ nl) [of_nat i], Ecall,
            Print (''ecall round %d'' @ nl) [of_nat i]]) [0..<10]) @ report start stop freq)))))"

end
