(* ===== verification/Selftest_Primes.thy ===== *)
theory Selftest_Primes
  imports Selftest
begin

text \<open>
  The prime test of the self-test program. Trial division decides primality. The sieve starts by
  clearing the entry of 2 instead of those of 0 and 1, so it never strikes the multiples of 2: it keeps
  the odd primes and 4, whose multiples cover the other powers of two. One number is lost and one
  gained, so the two counts agree all the same.
\<close>

definition prime_number :: "nat \<Rightarrow> bool" where
  "prime_number p \<longleftrightarrow> 1 < p \<and> (\<forall>d. d dvd p \<longrightarrow> d = 1 \<or> d = p)"

section \<open>Trial division\<close>

lemma trial_loop_iff: "trial_loop num i \<longleftrightarrow> (\<forall>j \<ge> i. j * j \<le> num \<and> 0 \<le> j \<longrightarrow> num smod j \<noteq> 0)" if "0 \<le> i"
  using that
proof (induction num i rule: trial_loop.induct)
  case (1 num i)
  show ?case
  proof (cases "i * i \<le> num")
    case True
    have "(\<forall>j \<ge> i. P j) \<longleftrightarrow> P i \<and> (\<forall>j \<ge> i + 1. P j)" for P :: "int \<Rightarrow> bool"
      by (metis zless_imp_add1_zle order_le_less add1_zle_eq less_imp_le order_refl)
    with True 1 show ?thesis by (subst trial_loop.simps) simp
  next
    case False
    have "\<not> j * j \<le> num" if "i \<le> j" for j
      using mult_mono [of i j i j] that 1(2) False by linarith
    with False show ?thesis by (subst trial_loop.simps) auto
  qed
qed

lemma smod_dvd: "0 < j \<Longrightarrow> int n smod j = 0 \<longleftrightarrow> j dvd int n"
  by (cases "n = 0") (simp_all add: signed_modulo_int_def dvd_eq_mod_eq_0)

lemma is_prime_prime: "is_prime (int n) \<longleftrightarrow> prime_number n"
proof (cases "n \<le> 1")
  case False
  have "is_prime (int n) \<longleftrightarrow> (\<forall>j \<ge> 2. j * j \<le> int n \<longrightarrow> \<not> j dvd int n)"
    using False smod_dvd by (auto simp: is_prime_def trial_loop_iff)
  also have "\<dots> \<longleftrightarrow> (\<forall>d :: nat. 2 \<le> d \<longrightarrow> d * d \<le> n \<longrightarrow> \<not> d dvd n)"
  proof safe
    fix d :: nat assume "\<forall>j \<ge> 2. j * j \<le> int n \<longrightarrow> \<not> j dvd int n" "2 \<le> d" "d * d \<le> n" "d dvd n"
    then show False by (auto dest!: spec [of _ "int d"] simp flip: of_nat_mult)
  next
    fix j :: int assume a: "\<forall>d :: nat. 2 \<le> d \<longrightarrow> d * d \<le> n \<longrightarrow> \<not> d dvd n" "2 \<le> j" "j * j \<le> int n" "j dvd int n"
    then obtain d where "j = int d" by (metis nat_0_le order_trans zero_le_numeral)
    with a show False by (auto simp flip: of_nat_mult)
  qed
  also have "\<dots> \<longleftrightarrow> prime_number n"
  proof
    assume a: "\<forall>d. 2 \<le> d \<longrightarrow> d * d \<le> n \<longrightarrow> \<not> d dvd n"
    show "prime_number n"
      unfolding prime_number_def
    proof (intro conjI allI impI)
      fix d assume "d dvd n"
      then obtain e where n: "n = d * e" by auto
      show "d = 1 \<or> d = n"
      proof (rule ccontr)
        assume c: "\<not> (d = 1 \<or> d = n)"
        with n False have "2 \<le> d" "2 \<le> e"
          by (metis One_nat_def Suc_leI le_less_linear less_2_cases_iff mult_0 mult_0_right mult_1_right numeral_2_eq_2 not_less_eq_eq zero_le_one)+
        then show False
        proof (cases "d \<le> e")
          case True
          with a \<open>2 \<le> d\<close> n show False by (metis dvd_triv_left mult_le_mono2)
        next
          case False
          with a \<open>2 \<le> e\<close> n show False by (metis dvd_triv_right mult_le_mono1 nat_le_linear)
        qed
      qed
    qed (use False in simp)
  next
    assume p: "prime_number n"
    show "\<forall>d. 2 \<le> d \<longrightarrow> d * d \<le> n \<longrightarrow> \<not> d dvd n"
    proof (intro allI impI notI)
      fix d assume d: "2 \<le> d" "d * d \<le> n" "d dvd n"
      with p have "d = n" by (auto simp: prime_number_def)
      with d(1,2) mult_le_mono1 [of 2 d d] show False by linarith
    qed
  qed
  finally show ?thesis .
qed (auto simp: is_prime_def prime_number_def)

section \<open>The sieve\<close>

definition kept :: "nat \<Rightarrow> bool" where
  "kept q \<longleftrightarrow> prime_number q \<and> q \<noteq> 2 \<or> q = 4"

lemma prime_divisor: "1 < n \<Longrightarrow> \<exists>p. prime_number p \<and> p dvd n"
proof (induction n rule: less_induct)
  case (less n)
  show ?case
  proof (cases "prime_number n")
    case False
    with less.prems obtain d where d: "d dvd n" "d \<noteq> 1" "d \<noteq> n" by (auto simp: prime_number_def)
    with less.prems have "1 < d" "d < n" by (auto intro: dvd_imp_le le_neq_trans simp: Suc_lessI dvd_pos_nat)
    with less.IH d(1) show ?thesis by (meson dvd_trans)
  qed auto
qed

lemma not_prime_4: "\<not> prime_number 4"
  by (auto simp: prime_number_def intro!: exI [of _ 2])

lemma kept_iff:
  assumes "2 \<le> i"
  shows "kept i \<longleftrightarrow> i \<noteq> 2 \<and> \<not> (\<exists>q < i. kept q \<and> q dvd i)"
proof
  assume k: "kept i"
  have q2: "2 < q" if "kept q" for q
    using that by (auto simp: kept_def prime_number_def)
  show "i \<noteq> 2 \<and> \<not> (\<exists>q < i. kept q \<and> q dvd i)"
  proof (intro conjI notI)
    show "i = 2 \<Longrightarrow> False" using k q2 by auto
    assume "\<exists>q < i. kept q \<and> q dvd i"
    then obtain q where q: "q < i" "kept q" "q dvd i" by blast
    from k consider "prime_number i" | "i = 4" by (auto simp: kept_def)
    then show False
    proof cases
      case 1
      with q have "q = 1 \<or> q = i" by (auto simp: prime_number_def)
      with q(1) q2 [OF q(2)] show False by linarith
    next
      case 2
      with q q2 [OF q(2)] have "q = 3" by simp
      with q(3) 2 show False by simp
    qed
  qed
next
  assume a: "i \<noteq> 2 \<and> \<not> (\<exists>q < i. kept q \<and> q dvd i)"
  show "kept i"
  proof (cases "prime_number i")
    case False
    have p2: "p = 2" if "prime_number p" "p dvd i" for p
    proof (rule ccontr)
      assume "p \<noteq> 2"
      with that have "kept p" by (simp add: kept_def)
      moreover have "p < i" using that False assms dvd_imp_le [of p i] by (auto intro: le_neq_trans)
      ultimately show False using a that by blast
    qed
    from prime_divisor [of i] assms p2 have "2 dvd i" by (metis less_le_trans one_less_numeral_iff semiring_norm(76))
    then obtain j where j: "i = 2 * j" by auto
    with assms a have "1 < j" by auto
    then obtain p where "prime_number p" "p dvd j" using prime_divisor by blast
    with p2 j have "2 dvd j" by (metis dvd_mult)
    with j have "4 dvd i" by auto
    moreover have "kept 4" by (simp add: kept_def)
    ultimately have "\<not> 4 < i" using a by blast
    with \<open>4 dvd i\<close> assms have "i = 4" by (auto dest: dvd_imp_le)
    then show ?thesis by (simp add: kept_def)
  qed (use a in \<open>simp add: kept_def\<close>)
qed

lemma strike_spec: "0 < i \<Longrightarrow> strike sz i j t k = (if \<exists>m. k = j + m * i \<and> k \<le> sz then 0 else t k)"
proof (induction sz i j t rule: strike.induct)
  case (1 sz i j t)
  show ?case
  proof (cases "j \<le> sz")
    case True
    have "(\<exists>m. k = j + m * i) \<longleftrightarrow> k = j \<or> (\<exists>m. k = j + i + m * i)"
      by (metis add.assoc add.right_neutral mult_Suc mult_zero_left not0_implies_Suc)
    moreover have "strike sz i (j + i) (t(j := 0)) k = (if \<exists>m. k = j + i + m * i \<and> k \<le> sz then 0 else (t(j := 0)) k)"
      using 1 True by blast
    ultimately show ?thesis using True 1(2) by (subst strike.simps) (simp; metis add_0_right mult_0)
  next
    case False
    with 1(2) show ?thesis by (subst strike.simps) auto
  qed
qed

lemma sieve_invariant:
  fixes t0 :: "nat \<Rightarrow> int"
  assumes "\<forall>k \<le> sz. t0 k \<noteq> 0 \<longleftrightarrow> k \<noteq> 2"
  shows "n \<le> sz - 1 \<Longrightarrow> (case foldl (sieve_step sz) (t0, 0) [2..<2 + n] of (t, cnt) \<Rightarrow>
    (\<forall>k \<le> sz. t k \<noteq> 0 \<longleftrightarrow> k \<noteq> 2 \<and> \<not> (\<exists>q < 2 + n. kept q \<and> q dvd k \<and> q < k)) \<and>
    cnt = int (card {q \<in> {2..<2 + n}. kept q}))"
proof (induction n)
  case 0
  have "\<not> kept 0" "\<not> kept 1" by (simp_all add: kept_def prime_number_def)
  then have "\<not> kept q" if "q < 2" for q using that by (metis One_nat_def less_2_cases_iff)
  with assms show ?case by auto
next
  case (Suc n)
  let ?i = "2 + n"
  obtain t cnt where f: "foldl (sieve_step sz) (t0, 0) [2..<2 + n] = (t, cnt)" by fastforce
  from Suc f have
    t: "\<forall>k \<le> sz. t k \<noteq> 0 \<longleftrightarrow> k \<noteq> 2 \<and> \<not> (\<exists>q < 2 + n. kept q \<and> q dvd k \<and> q < k)" and
    s: "cnt = int (card {q \<in> {2..<2 + n}. kept q})" by auto
  have le: "?i \<le> sz" using Suc.prems by simp
  have ti: "t ?i \<noteq> 0 \<longleftrightarrow> kept ?i" using t le kept_iff [of ?i] by auto
  have r: "[2..<2 + Suc n] = [2..<2 + n] @ [?i]" by simp
  have lt: "q < 2 + Suc n \<longleftrightarrow> q < 2 + n \<or> q = ?i" for q by auto
  have c: "{q \<in> {2..<2 + Suc n}. kept q} = (if kept ?i then insert ?i {q \<in> {2..<2 + n}. kept q} else {q \<in> {2..<2 + n}. kept q})"
    by (auto simp: less_Suc_eq)
  show ?case
  proof (cases "kept ?i")
    case True
    have "strike sz ?i (?i * 2) t k \<noteq> 0 \<longleftrightarrow> t k \<noteq> 0 \<and> \<not> (?i dvd k \<and> ?i < k)" if "k \<le> sz" "k \<noteq> 0" for k
    proof -
      have "(\<exists>m. k = ?i * 2 + m * ?i) \<longleftrightarrow> ?i dvd k \<and> ?i < k"
      proof
        assume "?i dvd k \<and> ?i < k"
        then obtain d where "k = ?i * d" "2 \<le> d"
          by (metis dvdE le_less_linear less_2_cases_iff mult.right_neutral mult_0_right not_less_zero One_nat_def less_irrefl)
        moreover from this obtain m where "d = 2 + m" using le_Suc_ex by blast
        ultimately have "k = ?i * 2 + m * ?i" by (simp add: algebra_simps)
        then show "\<exists>m. k = ?i * 2 + m * ?i" by blast
      next
        assume "\<exists>m. k = ?i * 2 + m * ?i"
        then obtain m where "k = ?i * 2 + m * ?i" by blast
        then have m: "k = ?i * (2 + m)" by (simp add: algebra_simps)
        then have "?i dvd k" by (rule dvdI)
        moreover have "?i * 1 < ?i * (2 + m)" by (rule mult_strict_left_mono) simp_all
        ultimately show "?i dvd k \<and> ?i < k" using m by simp
      qed
      with that show ?thesis by (simp add: strike_spec)
    qed
    moreover have "strike sz ?i (?i * 2) t 0 = t 0" by (simp add: strike_spec)
    moreover have "foldl (sieve_step sz) (t0, 0) [2..<2 + Suc n] = (strike sz ?i (?i * 2) t, cnt + 1)"
      using True ti f by (simp add: sieve_step_def)
    moreover have "cnt + 1 = int (card {q \<in> {2..<2 + Suc n}. kept q})"
      using True s c by simp
    ultimately show ?thesis
      using True t lt by (auto; metis not_gr_zero dvd_0_right)
  next
    case False
    then show ?thesis using ti t s c f by (auto simp: sieve_step_def lt)
  qed
qed

lemma count_primes_card: "count_primes sz = int (card {q \<in> {2..<Suc sz}. prime_number q})"
proof -
  have "foldl (\<lambda>c i. if is_prime (int i) then c + 1 else c) 0 [2..<2 + n] = int (card {q \<in> {2..<2 + n}. prime_number q})" for n
  proof (induction n)
    case (Suc n)
    have "{q \<in> {2..<2 + Suc n}. prime_number q} = (if prime_number (2 + n)
        then insert (2 + n) {q \<in> {2..<2 + n}. prime_number q} else {q \<in> {2..<2 + n}. prime_number q})"
      by (auto simp: less_Suc_eq)
    with Suc is_prime_prime [of "2 + n"] show ?case by simp
  qed simp
  from this [of "sz - 1"] show ?thesis by (cases sz) (simp_all add: count_primes_def numeral_2_eq_2)
qed

lemma validate_sizes:
  assumes "4 \<le> sz"
  shows "validate_prime_calculation sz"
proof -
  let ?t0 = "(foldl (\<lambda>t i. t(i := 1)) (\<lambda>_. 0) [0..<Suc sz])(2 := 0) :: nat \<Rightarrow> int"
  have "foldl (\<lambda>t i. t(i := 1)) (\<lambda>_. 0) [0..<n] k = (if k < n then 1 else (0 :: int))" for n k
    by (induction n) auto
  then have t0: "\<forall>k \<le> sz. ?t0 k \<noteq> 0 \<longleftrightarrow> k \<noteq> 2" by (simp del: upt_Suc)
  obtain t cnt where f: "foldl (sieve_step sz) (?t0, 0) [2..<Suc sz] = (t, cnt)" by fastforce
  have "2 + (sz - 1) = Suc sz" using assms by simp
  with sieve_invariant [of sz ?t0 "sz - 1", OF t0] f have cnt: "cnt = int (card {q \<in> {2..<Suc sz}. kept q})"
    by (simp del: upt_Suc)
  let ?P = "{q \<in> {2..<Suc sz}. prime_number q}"
  have "prime_number 2" by (auto simp: prime_number_def dest: dvd_imp_le intro: le_neq_trans) (metis dvd_0_left_iff dvd_imp_le le_antisym less_2_cases_iff not_less numeral_2_eq_2 zero_less_numeral zero_neq_numeral)
  then have two: "2 \<in> ?P" using assms by simp
  have "{q \<in> {2..<Suc sz}. kept q} = insert 4 (?P - {2})"
    using assms by (auto simp: kept_def)
  moreover have "4 \<notin> ?P - {2}" using not_prime_4 by simp
  ultimately have "card {q \<in> {2..<Suc sz}. kept q} = Suc (card (?P - {2}))" by simp
  also have "\<dots> = card ?P" by (rule card_Suc_Diff1 [OF _ two]) simp
  finally show ?thesis
    using cnt f by (simp add: validate_prime_calculation_def Let_def count_primes_card del: upt_Suc)
qed



end
