(* ===== verification/Selftest_Props.thy ===== *)
theory Selftest_Props
  imports Selftest_Primes "HOL-Library.Multiset"
begin

text \<open>
  The self-test programs are correct and always pass: both sorts compute the sorted permutation of the
  prefix they are given, the sieve counts as many numbers as there are primes, the CRC tells a changed
  byte, the two matrix products agree, the state machine has the recorded checksum; so the programs
  that run them never print a failure.
\<close>

section \<open>Insertion sort\<close>

lemma shift_loop_spec:
  assumes "shift_loop key arr k = (arr', k')" and "k < length arr"
  shows "k' \<le> k \<and> arr'[k' := key] = take k' arr @ key # take (k - k') (drop k' arr) @ drop (Suc k) arr \<and>
     (\<forall>x \<in> set (take (k - k') (drop k' arr)). key < x) \<and> (0 < k' \<longrightarrow> arr ! (k' - 1) \<le> key)"
  using assms
proof (induction key arr k rule: shift_loop.induct)
  case (1 key arr)
  then show ?case by (cases arr) auto
next
  case (2 key arr j)
  show ?case
  proof (cases "arr ! j > key")
    case True
    let ?a = "arr[Suc j := arr ! j]"
    from True 2 have IH: "k' \<le> j" "arr'[k' := key] = take k' ?a @ key # take (j - k') (drop k' ?a) @ drop (Suc j) ?a"
      "\<forall>x \<in> set (take (j - k') (drop k' ?a)). key < x" "0 < k' \<longrightarrow> ?a ! (k' - 1) \<le> key"
      by auto
    have "take (Suc j - k') (drop k' arr) = take (j - k') (drop k' arr) @ [arr ! j]"
      using IH(1) 2(3) by (simp add: Suc_diff_le take_Suc_conv_app_nth)
    moreover have "drop (Suc j) ?a = arr ! j # drop (Suc (Suc j)) arr"
      using 2(3) by (simp add: Cons_nth_drop_Suc [symmetric] drop_update_cancel)
    moreover have "take (j - k') (drop k' ?a) = take (j - k') (drop k' arr)" "take k' ?a = take k' arr"
      using IH(1) by (simp_all add: drop_update_swap)
    ultimately show ?thesis using IH True by auto
  next
    case False
    with 2 show ?thesis by (auto simp: upd_conv_take_nth_drop Cons_nth_drop_Suc)
  qed
qed

lemma insertion_step_spec:
  assumes "sorted (take i arr)" and "i < length arr"
  shows "sorted (take (Suc i) (insertion_step arr i))" and "mset (insertion_step arr i) = mset arr"
    and "drop (Suc i) (insertion_step arr i) = drop (Suc i) arr" 
proof -
  obtain arr' k where s: "shift_loop (arr ! i) arr i = (arr', k)" by fastforce
  note sp = shift_loop_spec [OF s assms(2)]
  let ?l = "take k arr" and ?r = "take (i - k) (drop k arr)"
  have k: "k \<le> i" and st: "insertion_step arr i = ?l @ arr ! i # ?r @ drop (Suc i) arr"
    using sp by (simp_all add: insertion_step_def s Let_def)
  have ti: "take i arr = ?l @ ?r" using k by (metis le_add_diff_inverse take_add)
  have len: "length ?l = k" "length ?r = i - k" using k assms(2) by simp_all
  have "sorted (?l @ arr ! i # ?r)"
  proof -
    have l: "\<forall>x \<in> set ?l. x \<le> arr ! i"
    proof (cases "k = 0")
      case False
      have "sorted ?l" using assms(1) ti by (simp add: sorted_append)
      have "\<forall>x \<in> set ?l. x \<le> arr ! (k - 1)"
      proof
        fix x assume "x \<in> set ?l"
        then obtain j where "j < k" "x = ?l ! j" using len(1) by (metis in_set_conv_nth)
        then show "x \<le> arr ! (k - 1)"
          using sorted_nth_mono [OF \<open>sorted ?l\<close>, of j "k - 1"] len(1) by auto
      qed
      moreover have "arr ! (k - 1) \<le> arr ! i" using sp False by simp
      ultimately show ?thesis by (meson order_trans)
    qed simp
    have "\<forall>x \<in> set ?r. arr ! i \<le> x" using sp by (simp add: less_imp_le)
    moreover have "sorted (?l @ ?r)" using assms(1) ti by simp
    ultimately show ?thesis using l by (simp add: sorted_append)
  qed
  then show "sorted (take (Suc i) (insertion_step arr i))"
    using k len by (simp add: st Suc_diff_le)
  have "mset arr = mset (take i arr) + add_mset (arr ! i) (mset (drop (Suc i) arr))"
    using arg_cong [OF id_take_nth_drop [OF assms(2)], of mset] by simp
  then show "mset (insertion_step arr i) = mset arr" by (simp add: st ti)
  show "drop (Suc i) (insertion_step arr i) = drop (Suc i) arr"
    using k len by (simp add: st Suc_diff_le)
qed

lemma sort_eqI:
  assumes "sorted (take n b)" and "mset b = mset a" and "drop n b = drop n a"
  shows "b = sort (take n a) @ drop n a"
proof -
  have "mset (take n b) + mset (drop n b) = mset (take n a) + mset (drop n a)"
    using assms(2) by (metis append_take_drop_id mset_append)
  with assms(3) have "mset (take n b) = mset (take n a)" by simp
  with assms(1) have "take n b = sort (take n a)" by (metis properties_for_sort)
  with assms(3) show ?thesis by (metis append_take_drop_id)
qed

lemma insertion_step_length [simp]: "i < length arr \<Longrightarrow> sorted (take i arr) \<Longrightarrow> length (insertion_step arr i) = length arr"
  using insertion_step_spec(2) by (metis size_mset)

lemma sort_insertion_sort:
  assumes "len \<le> length arr"
  shows "sort_insertion arr len = sort (take len arr) @ drop len arr"
proof (cases "len = 0")
  case False
  have "n \<le> len - 1 \<Longrightarrow> sorted (take (Suc n) (foldl insertion_step arr [1..<Suc n])) \<and>
      mset (foldl insertion_step arr [1..<Suc n]) = mset arr \<and>
      drop (Suc n) (foldl insertion_step arr [1..<Suc n]) = drop (Suc n) arr" for n
  proof (induction n)
    case 0
    then show ?case by (cases arr) simp_all
  next
    case (Suc n)
    let ?a = "foldl insertion_step arr [1..<Suc n]"
    from Suc have IH: "sorted (take (Suc n) ?a)" "mset ?a = mset arr" "drop (Suc n) ?a = drop (Suc n) arr" by auto
    have "length ?a = length arr" using IH(2) by (metis size_mset)
    with Suc.prems assms False have "Suc n < length ?a" by linarith
    note sp = insertion_step_spec [OF IH(1) this]
    have "drop (Suc (Suc n)) ?a = drop (Suc (Suc n)) arr" using IH(3) by (metis drop_Suc tl_drop)
    with sp IH(2) show ?case by simp
  qed
  from this [of "len - 1"] False have "sorted (take len (sort_insertion arr len))"
    "mset (sort_insertion arr len) = mset arr" "drop len (sort_insertion arr len) = drop len arr"
    by (simp_all add: sort_insertion_def)
  then show ?thesis by (rule sort_eqI)
qed (simp add: sort_insertion_def)

section \<open>Selection sort\<close>

lemma min_index_spec:
  assumes "i < len"
  shows "i \<le> min_index arr len i \<and> min_index arr len i < len \<and> (\<forall>j. i \<le> j \<and> j < len \<longrightarrow> arr ! min_index arr len i \<le> arr ! j)"
proof -
  have "n < len - i \<Longrightarrow> (let m = foldl (\<lambda>m j. if arr ! j < arr ! m then j else m) i [i + 1..<i + 1 + n] in
     i \<le> m \<and> m \<le> i + n \<and> (\<forall>j. i \<le> j \<and> j \<le> i + n \<longrightarrow> arr ! m \<le> arr ! j))" for n
  proof (induction n)
    case (Suc n)
    then show ?case by (auto simp: Let_def le_Suc_eq)
  qed (auto simp: Let_def)
  from this [of "len - i - 1"] assms have
    "i \<le> min_index arr len i \<and> min_index arr len i \<le> len - 1 \<and>
     (\<forall>j. i \<le> j \<and> j \<le> len - 1 \<longrightarrow> arr ! min_index arr len i \<le> arr ! j)"
    by (simp add: min_index_def Let_def)
  moreover have "\<And>j. j < len \<longleftrightarrow> j \<le> len - 1" using assms by linarith
  ultimately show ?thesis by presburger
qed

lemma selection_step_spec:
  assumes "i < len" and "len \<le> length arr"
  shows "\<exists>m. i \<le> m \<and> m < len \<and> (\<forall>j. i \<le> j \<and> j < len \<longrightarrow> arr ! m \<le> arr ! j) \<and>
    selection_step len arr i = arr[i := arr ! m, m := arr ! i]"
  using min_index_spec [OF assms(1), of arr]
  by (intro exI [of _ "min_index arr len i"]) (auto simp: selection_step_def Let_def)

text \<open>After \<open>n\<close> rounds the first \<open>n\<close> elements are in order and below the others.\<close>

definition selected :: "nat \<Rightarrow> nat \<Rightarrow> int list \<Rightarrow> bool" where
  "selected len n a \<longleftrightarrow> (\<forall>i j. i \<le> j \<and> i < n \<and> j < len \<longrightarrow> a ! i \<le> a ! j)"

lemma selected_step:
  assumes "selected len n a" and "n < len" and "len \<le> length a"
  shows "selected len (Suc n) (selection_step len a n)" and "mset (selection_step len a n) = mset a"
    and "drop len (selection_step len a n) = drop len a"
proof -
  from selection_step_spec [OF assms(2,3)] obtain m where
    m: "n \<le> m" "m < len" "\<forall>j. n \<le> j \<and> j < len \<longrightarrow> a ! m \<le> a ! j"
      "selection_step len a n = a[n := a ! m, m := a ! n]" by blast
  show "selected len (Suc n) (selection_step len a n)"
    unfolding selected_def
  proof (intro allI impI)
    fix i j assume ij: "i \<le> j \<and> i < Suc n \<and> j < len"
    show "selection_step len a n ! i \<le> selection_step len a n ! j"
    proof (cases "i < n")
      case True
      with assms(1) ij m(1,2) have "a ! i \<le> a ! j" "a ! i \<le> a ! m" "a ! i \<le> a ! n"
        by (auto simp: selected_def assms(2))
      with True m ij assms(2,3) show ?thesis by (auto simp: m(4) nth_list_update)
    next
      case False
      with ij have "i = n" by simp
      with m ij assms(2,3) show ?thesis by (auto simp: m(4) nth_list_update)
    qed
  qed
  show "mset (selection_step len a n) = mset a"
    using m assms(2,3) by (simp add: m(4) mset_swap)
  show "drop len (selection_step len a n) = drop len a"
    using m assms(2) by (simp add: m(4))
qed

lemma sort_selection_sort:
  assumes "len \<le> length arr"
  shows "sort_selection arr len = sort (take len arr) @ drop len arr"
proof -
  have inv: "n \<le> len - 1 \<Longrightarrow> selected len n (foldl (selection_step len) arr [0..<n]) \<and>
      mset (foldl (selection_step len) arr [0..<n]) = mset arr \<and>
      drop len (foldl (selection_step len) arr [0..<n]) = drop len arr" for n
  proof (induction n)
    case (Suc n)
    let ?a = "foldl (selection_step len) arr [0..<n]"
    from Suc have IH: "selected len n ?a" "mset ?a = mset arr" "drop len ?a = drop len arr" by auto
    have "len \<le> length ?a" using IH(2) assms by (metis size_mset)
    with selected_step [OF IH(1) _ this] Suc.prems IH show ?case by simp
  qed (simp add: selected_def)
  let ?b = "sort_selection arr len"
  from inv [of "len - 1"] have b: "selected len (len - 1) ?b" "mset ?b = mset arr" "drop len ?b = drop len arr"
    by (simp_all add: sort_selection_def)
  have "sorted (take len ?b)"
    unfolding sorted_iff_nth_mono
  proof (intro allI impI)
    fix i j assume "i \<le> j" "j < length (take len ?b)"
    with b(1) show "take len ?b ! i \<le> take len ?b ! j"
      by (cases "i = j") (auto simp: selected_def)
  qed
  from sort_eqI [OF this b(2,3)] show ?thesis .
qed

text \<open>C32: insertion and selection sort both leave the sorted permutation of the first \<open>len\<close> elements in
  front and the rest of the array alone, so the comparison of their results succeeds.\<close>

theorem sorts_agree:
  assumes "len \<le> length arr"
  shows "sort_insertion arr len = sort (take len arr) @ drop len arr \<and>
     sort_selection arr len = sort (take len arr) @ drop len arr \<and>
     array_equal (sort_insertion arr len) (sort_selection arr len) len"
proof -
  have eq: "array_equal_from a a ks" for a ks by (induction ks) auto
  show ?thesis
    unfolding sort_insertion_sort [OF assms] sort_selection_sort [OF assms] array_equal_def
    by (simp add: eq)
qed

theorem sorts_agree_witness:
  "sort_insertion [3, 1, 2, 0] 3 = [1, 2, 3, 0] \<and> sort_selection [3, 1, 2, 0] 3 = [1, 2, 3, 0]"
  using sorts_agree [of 3 "[3, 1, 2, 0]"] by simp

section \<open>CRC\<close>

lemma xor_cancel: "(a XOR c = b XOR c) = (a = b)" "(c XOR a = c XOR b) = (a = b)" for a b c :: "'a::len word"
  by (metis xor.assoc xor.right_neutral xor_self_eq xor.commute)+

text \<open>One shift can be undone: the bit that falls out at the bottom is the top bit of the result.\<close>

lemma crc_bit_inj: "crc_bit a = crc_bit b \<longleftrightarrow> a = b"
proof
  assume eq: "crc_bit a = crc_bit b"
  have k: "bit (0xA001 :: u16) 15" by simp
  have o: "c AND 1 \<noteq> 0 \<longleftrightarrow> bit c 0" for c :: u16
    using and_exp_eq_0_iff_not_bit [of c 0] by simp
  have top: "bit (crc_bit c) 15 \<longleftrightarrow> bit c 0" for c
  proof -
    have "\<not> bit (drop_bit 1 c) 15" by (auto simp: bit_drop_bit_eq dest: bit_imp_le_length)
    with k o [of c] show ?thesis by (simp add: crc_bit_def bit_xor_iff)
  qed
  from eq top have low: "bit a 0 = bit b 0" by metis
  with eq o have sh: "drop_bit 1 a = drop_bit 1 b" by (auto simp: crc_bit_def xor_cancel split: if_splits)
  show "a = b"
  proof (rule bit_word_eqI)
    fix n
    show "bit a n = bit b n"
    proof (cases n)
      case (Suc k)
      have "bit (drop_bit 1 a) k = bit (drop_bit 1 b) k" using sh by simp
      with Suc show ?thesis by (simp add: bit_drop_bit_eq)
    qed (use low in simp)
  qed
qed simp

lemma crc_bits_inj: "foldl (\<lambda>c j. crc_bit c) a ks = foldl (\<lambda>c j. crc_bit c) b ks \<longleftrightarrow> a = b"
  by (induction ks arbitrary: a b) (simp_all add: crc_bit_inj)

lemma crc_byte_inj: "crc_byte a x = crc_byte b y \<longleftrightarrow> a XOR ucast x = b XOR ucast y"
  by (simp add: crc_byte_def crc_bits_inj)

lemma ucast_u16_inj: "(ucast (x :: u8) :: u16) = ucast y \<longleftrightarrow> x = y"
proof
  assume e: "(ucast x :: u16) = ucast y"
  show "x = y"
  proof (rule bit_word_eqI)
    fix n assume "n < LENGTH(8)"
    moreover have "bit (ucast x :: u16) n = bit (ucast y :: u16) n" using e by simp
    ultimately show "bit x n = bit y n" by (simp add: bit_simps)
  qed
qed simp

lemma crc_run_inj: "foldl crc_byte a xs = foldl crc_byte b xs \<longleftrightarrow> a = b"
  by (induction xs arbitrary: a b) (simp_all add: crc_byte_inj xor_cancel)

lemma crc16_modbus_take: "len \<le> length data \<Longrightarrow> crc16_modbus data len = foldl crc_byte 0xFFFF (take len data)"
proof -
  assume "len \<le> length data"
  then have "take len data = map (\<lambda>i. data ! i) [0..<len]"
    by (intro nth_equalityI) simp_all
  then show ?thesis by (simp add: crc16_modbus_def foldl_map)
qed

lemma crc_change:
  assumes "k < len" and "len \<le> length data" and "v \<noteq> data ! k"
  shows "crc16_modbus (data[k := v]) len \<noteq> crc16_modbus data len"
proof -
  have t: "take len data = take k data @ data ! k # drop (Suc k) (take len data)"
    using assms id_take_nth_drop [of k "take len data"] by simp
  have t': "take len (data[k := v]) = take k data @ v # drop (Suc k) (take len data)"
    using assms upd_conv_take_nth_drop [of k "take len data" v] by (simp add: take_update_swap min_def)
  have "foldl crc_byte c (xs @ v # ys) = foldl crc_byte c (xs @ w # ys) \<longleftrightarrow> v = w" for c xs ys w
    by (simp add: crc_run_inj crc_byte_inj xor_cancel ucast_u16_inj)
  with assms t t' show ?thesis by (metis crc16_modbus_take length_list_update)
qed

lemma crc_round_ok:
  assumes "length buf = CRC_SIZE"
  shows "crc_round r buf = (True, snd (crc_round r buf)) \<and> length (snd (crc_round r buf)) = CRC_SIZE"
proof -
  have len: "length (foldl (\<lambda>b i. b[i := f i]) xs ks) = length xs" for f :: "nat \<Rightarrow> u8" and xs ks
    by (induction ks arbitrary: xs) simp_all
  let ?buf = "init_crc_buffer r buf" and ?k = "r * 123 mod CRC_SIZE"
  let ?v = "?buf ! ?k XOR 0x5A"
  have l: "length ?buf = CRC_SIZE" using assms by (simp add: init_crc_buffer_def len)
  have k: "?k < CRC_SIZE" by (simp add: CRC_SIZE_def)
  have "?v \<noteq> ?buf ! ?k"
  proof
    assume "?v = ?buf ! ?k"
    then have "?buf ! ?k XOR 0x5A = ?buf ! ?k XOR 0" by simp
    then show False unfolding xor_cancel by simp
  qed
  with crc_change [OF k, of ?buf ?v] l have "crc16_modbus (?buf[?k := ?v]) CRC_SIZE \<noteq> crc16_modbus ?buf CRC_SIZE"
    by simp
  moreover have "?buf[?k := ?v, ?k := ?buf[?k := ?v] ! ?k XOR 0x5A] = ?buf"
    using k l by (simp add: xor.assoc)
  ultimately show ?thesis using l by (simp add: crc_round_def Let_def)
qed

lemma run_crc_test_passes: "length buf = CRC_SIZE \<Longrightarrow> run_crc_test buf"
proof -
  have "length buf = CRC_SIZE \<Longrightarrow> crc_rounds rs buf" for rs
  proof (induction rs arbitrary: buf)
    case (Cons r rs)
    with crc_round_ok [OF Cons.prems, of r] show ?case by (auto split: prod.split)
  qed simp
  then show "length buf = CRC_SIZE \<Longrightarrow> run_crc_test buf" by (simp add: run_crc_test_def)
qed

text \<open>Changing any one byte of the checked part of a buffer changes its CRC.\<close>

theorem crc_detects_change:
  assumes "k < len" and "len \<le> length data" and "v \<noteq> data ! k"
  shows "crc16_modbus (data[k := v]) len \<noteq> crc16_modbus data len"
  by (rule crc_change [OF assms])

theorem crc_detects_change_witness: "crc16_modbus [1, 2, 4] 3 \<noteq> crc16_modbus [1, 2, 3] 3"
  using crc_detects_change [of 2 3 "[1, 2, 3]" 4] by simp

section \<open>Matrices\<close>

lemma fold_row: "fold (\<lambda>j M. set_entry M (p j) (q j) (h (p j) (q j))) js M a b =
    (if \<exists>j \<in> set js. p j = a \<and> q j = b then h a b else M a b)"
  by (induction js arbitrary: M) (auto simp: set_entry_def)

lemma fold_rows: "fold (\<lambda>i. fold (\<lambda>j M. set_entry M (p i j) (q i j) (h (p i j) (q i j))) js) ks M a b =
    (if \<exists>i \<in> set ks. \<exists>j \<in> set js. p i j = a \<and> q i j = b then h a b else M a b)"
proof (induction ks arbitrary: M)
  case (Cons k ks)
  then show ?case using fold_row [of "p k" "q k" h js M a b] by auto
qed simp

lemma for_entries_all: "a < M_SIZE \<Longrightarrow> b < M_SIZE \<Longrightarrow> for_entries (\<lambda>i j M. set_entry M i j (h i j)) M a b = h a b"
  using fold_rows [of "\<lambda>i j. i" "\<lambda>i j. j" h] by (auto simp: for_entries_def)

lemma for_entries_transposed:
  "a < M_SIZE \<Longrightarrow> b < M_SIZE \<Longrightarrow> for_entries (\<lambda>i j M. set_entry M j i (h i j)) M a b = h b a"
  using fold_rows [of "\<lambda>i j. j" "\<lambda>i j. i" "\<lambda>i j. h j i"] by (auto simp: for_entries_def)

lemma matmul_agree: "verify (matmul_naive A B C1) (matmul_transpose T A B C2)"
proof -
  have t: "fold (\<lambda>k s. s + A i k * for_entries (\<lambda>i j M. set_entry M j i (B i j)) T j k) [0..<M_SIZE] 0 =
      fold (\<lambda>k s. s + A i k * B k j) [0..<M_SIZE] 0" if "j < M_SIZE" for i j
    by (rule fold_cong) (auto simp: for_entries_transposed that)
  show ?thesis
    by (auto simp: verify_def list_all_iff matmul_naive_def matmul_transpose_def for_entries_all t Let_def)
qed

lemma matrix_rounds_pass: "matrix_rounds ks T A B C1 C2"
  by (induction ks T A B C1 C2 rule: matrix_rounds.induct) (simp_all add: matmul_agree Let_def)

section \<open>State machine\<close>

lemma fsm_inner_shift:
  "fsm_inner a b (s, c) = (fst (fsm_inner a b (s, 0)), c + snd (fsm_inner a b (s, 0)))"
proof -
  have "fold (\<lambda>i (s, c). let s' = fsm_transition s (i * a + b) in (s', c + fsm_num s' * int (i + 1))) js (s, c + d) =
     (fst (fold (\<lambda>i (s, c). let s' = fsm_transition s (i * a + b) in (s', c + fsm_num s' * int (i + 1))) js (s, d)),
      c + snd (fold (\<lambda>i (s, c). let s' = fsm_transition s (i * a + b) in (s', c + fsm_num s' * int (i + 1))) js (s, d)))" for js d
    by (induction js arbitrary: s d) (simp_all add: Let_def add.assoc)
  from this [of _ 0] show ?thesis by (simp add: fsm_inner_def)
qed

lemma fsm_periodic:
  assumes "fsm_inner a b (s, 0) = (t, k)" and "fsm_inner a b (t, 0) = (t, d)"
  shows "(fsm_inner a b ^^ Suc n) (s, 0) = (t, k + int n * d)"
proof -
  have "(fsm_inner a b ^^ n) (t, c) = (t, c + int n * d)" for c
  proof (induction n)
    case (Suc n)
    then show ?case using assms(2) by (simp add: fsm_inner_shift [of a b t "c + d * int n"] algebra_simps)
  qed simp
  with assms(1) show ?thesis by (simp add: funpow_Suc_right del: funpow.simps)
qed

lemma fsm_round_values:
  "fsm_inner 17 23 (STATE_A, 0) = (STATE_D, 51974)" "fsm_inner 17 23 (STATE_D, 0) = (STATE_D, 51973)"
  "fsm_inner 19 31 (STATE_B, 0) = (STATE_D, 51733)" "fsm_inner 19 31 (STATE_D, 0) = (STATE_D, 51766)"
proof -
  have "[0..<256] = 0 # 1 # [2..<256]" by (simp add: upt_rec [of 0 256] upt_rec [of "Suc 0" 256] numeral_2_eq_2)
  note this [simp]
  show "fsm_inner 17 23 (STATE_A, 0) = (STATE_D, 51974)" "fsm_inner 17 23 (STATE_D, 0) = (STATE_D, 51973)"
    "fsm_inner 19 31 (STATE_B, 0) = (STATE_D, 51733)" "fsm_inner 19 31 (STATE_D, 0) = (STATE_D, 51766)"
    by (simp_all add: fsm_inner_def FSM_TRACE_LEN_def Let_def)
qed

lemma run_fsm_test_passes: run_fsm_test
proof -
  have r: "FSM_ROUNDS = Suc 4999" by (simp add: FSM_ROUNDS_def)
  show ?thesis
    unfolding run_fsm_test_def r fsm_periodic [OF fsm_round_values(1,2)] fsm_periodic [OF fsm_round_values(3,4)]
    by simp
qed

section \<open>The programs\<close>

lemma init_array_length [simp]: "length (init_array arr len r) = length arr"
proof -
  have "length (foldl (\<lambda>a i. a[i := f i]) arr ks) = length arr" for f :: "nat \<Rightarrow> int" and arr ks
    by (induction ks arbitrary: arr) simp_all
  then show ?thesis by (simp add: init_array_def)
qed

lemma copy_array: "length b = len \<Longrightarrow> length a = len \<Longrightarrow> foldl (\<lambda>b j. b[j := a ! j]) b [0..<len] = a"
proof -
  assume l: "length b = len" "length a = len"
  have "n \<le> len \<Longrightarrow> foldl (\<lambda>b j. b[j := a ! j]) b [0..<n] = take n a @ drop n b" for n
  proof (induction n)
    case (Suc n)
    then show ?case using l by (simp add: list_update_append take_Suc_conv_app_nth Cons_nth_drop_Suc [symmetric])
  qed simp
  with l show ?thesis by simp
qed

lemma sort_rounds_pass: "length a = ARR_LEN \<Longrightarrow> length b = ARR_LEN \<Longrightarrow> sort_rounds ks a b"
proof (induction ks arbitrary: a b)
  case (Cons k ks)
  have eq: "array_equal_from x x js" for x js by (induction js) auto
  show ?case
    using Cons by (simp add: Let_def copy_array sort_insertion_sort sort_selection_sort array_equal_def eq)
qed simp

text \<open>C31: with arrays of the declared sizes and whatever they contain, both self-test programs pass all
  five tests: neither prints a failure, and they print their reports with the cycles they measured.\<close>

theorem selftest_passes:
  assumes "length (g_arr1 g) = ARR_LEN" and "length (g_arr2 g) = ARR_LEN" and "length (g_crc g) = CRC_SIZE"
  shows "jump_test g B_T start stop freq =
       [Print (''Hello from test code!'' @ nl) [], Print (''tick: %ld'' @ nl) [start]]
       @ map (\<lambda>i. Print (''Test round %d'' @ nl) [of_nat i]) [0..<10] @ report start stop freq \<and>
     jump_iap g B_T start stop freq =
       map (\<lambda>t. Print (t @ '' program start!'' @ nl) []) [''sort'', ''prime'', ''crc'', ''matrix'', ''fsm'']
       @ [Print (''Hello from test code!'' @ nl) [], Print (''tick: %ld'' @ nl) [start]]
       @ concat (map (\<lambda>i. [Print (''Test round %d'' @ nl) [of_nat i], Ecall,
            Print (''ecall round %d'' @ nl) [of_nat i]]) [0..<10]) @ report start stop freq"
proof -
  have "4 \<le> PRIME_SIZE" by (simp add: PRIME_SIZE_def)
  note pass = sort_rounds_pass [OF assms(1,2)] run_crc_test_passes [OF assms(3)] matrix_rounds_pass
    run_fsm_test_passes validate_sizes [OF this]
  show ?thesis using pass by (simp add: jump_test_def jump_iap_def del: upt_Suc upt_rec_numeral)
qed

theorem selftest_passes_witness:
  "length (jump_test \<lparr>g_arr1 = replicate 1000 0, g_arr2 = replicate 1000 0, g_crc = replicate 2048 0,
     g_A = (\<lambda>_ _. 0), g_B = (\<lambda>_ _. 0), g_C1 = (\<lambda>_ _. 0), g_C2 = (\<lambda>_ _. 0)\<rparr> (\<lambda>_ _. 0) 100 200 25000000) = 15"
  using selftest_passes [of "\<lparr>g_arr1 = replicate 1000 0, g_arr2 = replicate 1000 0, g_crc = replicate 2048 0,
     g_A = (\<lambda>_ _. 0), g_B = (\<lambda>_ _. 0), g_C1 = (\<lambda>_ _. 0), g_C2 = (\<lambda>_ _. 0)\<rparr>"]
  by (simp add: ARR_LEN_def CRC_SIZE_def report_def)

end
