(* ===== verification/Rt_List.thy ===== *)
theory Rt_List
  imports Prelude
begin

text \<open>
  The intrusive doubly linked lists of the RT-Thread kernel (\<^verbatim>\<open>include/rtservice.h\<close>): a node is two
  pointers, a list is a ring of nodes through its head. The store gives the two pointers of every
  node; the operations are the pointer assignments of the code, in their order. The second half
  describes a store by the rings it holds, as a map from each head to the list of its members, and
  shows that every operation is the operation on that list it is meant to be, and leaves all other
  rings alone. The kernel theories reason over the map only.
\<close>

section \<open>The operations of the code\<close>

record 'n links =
  nxt :: "'n \<Rightarrow> 'n"
  prv :: "'n \<Rightarrow> 'n"

definition set_next :: "'n \<Rightarrow> 'n \<Rightarrow> 'n links \<Rightarrow> 'n links" where
  "set_next x y s = s\<lparr>nxt := (nxt s)(x := y)\<rparr>"

definition set_prev :: "'n \<Rightarrow> 'n \<Rightarrow> 'n links \<Rightarrow> 'n links" where
  "set_prev x y s = s\<lparr>prv := (prv s)(x := y)\<rparr>"

definition rt_list_init :: "'n \<Rightarrow> 'n links \<Rightarrow> 'n links" where
  "rt_list_init l s = set_next l l (set_prev l l s)"

definition rt_list_insert_after :: "'n \<Rightarrow> 'n \<Rightarrow> 'n links \<Rightarrow> 'n links" where
  "rt_list_insert_after l n s =
    (let s1 = set_prev (nxt s l) n s;
         s2 = set_next n (nxt s1 l) s1;
         s3 = set_next l n s2
     in set_prev n l s3)"

definition rt_list_insert_before :: "'n \<Rightarrow> 'n \<Rightarrow> 'n links \<Rightarrow> 'n links" where
  "rt_list_insert_before l n s =
    (let s1 = set_next (prv s l) n s;
         s2 = set_prev n (prv s1 l) s1;
         s3 = set_prev l n s2
     in set_next n l s3)"

definition rt_list_remove :: "'n \<Rightarrow> 'n links \<Rightarrow> 'n links" where
  "rt_list_remove n s =
    (let s1 = set_prev (nxt s n) (prv s n) s;
         s2 = set_next (prv s1 n) (nxt s1 n) s1
     in set_next n n (set_prev n n s2))"

definition rt_list_isempty :: "'n \<Rightarrow> 'n links \<Rightarrow> bool" where
  "rt_list_isempty l s = (nxt s l = l)"

text \<open>The length loop ends only when it comes back to the head, so it may run forever.\<close>

partial_function (option) rt_list_len_from :: "'n links \<Rightarrow> 'n \<Rightarrow> 'n \<Rightarrow> u32 \<Rightarrow> u32 option" where
  "rt_list_len_from s l p len =
    (if nxt s p \<noteq> l then rt_list_len_from s l (nxt s p) (len + 1) else Some len)"

declare rt_list_len_from.simps [code]

definition rt_list_len :: "'n \<Rightarrow> 'n links \<Rightarrow> u32 option" where
  "rt_list_len l s = rt_list_len_from s l l 0"

text \<open>
  The cursor loop \<^verbatim>\<open>for (p = head->next; p != head; p = p->next)\<close> with a break: the first node from
  \<open>p\<close> on that satisfies the test, or the head.
\<close>

partial_function (option) rt_list_seek :: "'n links \<Rightarrow> ('n \<Rightarrow> bool) \<Rightarrow> 'n \<Rightarrow> 'n \<Rightarrow> 'n option" where
  "rt_list_seek s P l p =
    (if p = l then Some l else if P p then Some p else rt_list_seek s P l (nxt s p))"

declare rt_list_seek.simps [code]

lemma nxt_set_next [simp]: "nxt (set_next x y s) z = (if z = x then y else nxt s z)"
  and prv_set_next [simp]: "prv (set_next x y s) = prv s"
  and prv_set_prev [simp]: "prv (set_prev x y s) z = (if z = x then y else prv s z)"
  and nxt_set_prev [simp]: "nxt (set_prev x y s) = nxt s"
  by (simp_all add: set_next_def set_prev_def)

section \<open>Rings\<close>

text \<open>The nodes \<open>xs\<close> lead from \<open>x\<close> to \<open>y\<close>, forwards and backwards.\<close>

fun path :: "'n links \<Rightarrow> 'n \<Rightarrow> 'n list \<Rightarrow> 'n \<Rightarrow> bool" where
  "path s x [] y = (nxt s x = y \<and> prv s y = x)"
| "path s x (z # zs) y = (nxt s x = z \<and> prv s z = x \<and> path s z zs y)"

definition ring :: "'n links \<Rightarrow> 'n \<Rightarrow> 'n list \<Rightarrow> bool" where
  "ring s h xs = (path s h xs h \<and> distinct (h # xs))"

lemma path_append: "path s x (xs @ z # zs) y \<longleftrightarrow> path s x xs z \<and> path s z zs y"
  by (induction xs arbitrary: x) auto

lemma path_snoc: "path s x (xs @ [z]) y \<longleftrightarrow> path s x xs z \<and> nxt s z = y \<and> prv s y = z"
  by (simp add: path_append)

lemma path_cong:
  assumes "\<And>z. z \<in> insert x (set xs) \<Longrightarrow> nxt t z = nxt s z"
    and "\<And>z. z \<in> insert y (set xs) \<Longrightarrow> prv t z = prv s z"
  shows "path t x xs y = path s x xs y"
  using assms by (induction xs arbitrary: x) auto

lemma path_first: "path s x xs y \<Longrightarrow> nxt s x = hd (xs @ [y])"
  by (cases xs) auto

lemma path_last: "path s x xs y \<Longrightarrow> prv s y = last (x # xs)"
  by (induction xs arbitrary: x) auto

lemma ring_first: "ring s h xs \<Longrightarrow> nxt s h = hd (xs @ [h])"
  by (simp add: ring_def path_first)

lemma ring_last: "ring s h xs \<Longrightarrow> prv s h = last (h # xs)"
  unfolding ring_def by (blast dest: path_last)

lemma ring_isempty: "ring s h xs \<Longrightarrow> rt_list_isempty h s \<longleftrightarrow> xs = []"
  by (cases xs) (auto simp: ring_def rt_list_isempty_def)

lemma ring_unique: "ring s h xs \<Longrightarrow> ring s h ys \<Longrightarrow> xs = ys"
proof -
  have "path s x xs h \<Longrightarrow> path s x ys h \<Longrightarrow> h \<notin> set xs \<Longrightarrow> h \<notin> set ys \<Longrightarrow> xs = ys" for x
  proof (induction xs arbitrary: x ys)
    case Nil then show ?case by (cases ys) auto
  next
    case (Cons a xs) then show ?case by (cases ys) auto
  qed
  then show "ring s h xs \<Longrightarrow> ring s h ys \<Longrightarrow> xs = ys" by (auto simp: ring_def)
qed

lemma rt_list_len_ring:
  assumes "ring s h xs" shows "rt_list_len h s = Some (of_nat (length xs))"
proof -
  have "path s x ys h \<Longrightarrow> h \<notin> set ys \<Longrightarrow> rt_list_len_from s h x n = Some (n + of_nat (length ys))" for x ys n
    by (induction ys arbitrary: x n) (auto simp: rt_list_len_from.simps algebra_simps)
  from this [of h xs 0] assms show ?thesis by (simp add: rt_list_len_def ring_def)
qed

text \<open>The cursor loop is a search in the list of members.\<close>

lemma rt_list_seek_path:
  "path s x (ys @ zs) h \<Longrightarrow> h \<notin> set (ys @ zs) \<Longrightarrow> x \<noteq> h \<Longrightarrow> \<not> P x \<Longrightarrow> \<forall>y \<in> set ys. \<not> P y \<Longrightarrow>
   (zs \<noteq> [] \<longrightarrow> P (hd zs)) \<Longrightarrow> rt_list_seek s P h x = Some (hd (zs @ [h]))"
proof (induction ys arbitrary: x)
  case Nil
  then show ?case by (cases zs) (simp_all add: rt_list_seek.simps)
next
  case (Cons y ys)
  then have "rt_list_seek s P h y = Some (hd (zs @ [h]))" by (intro Cons.IH) auto
  with Cons.prems show ?case by (simp add: rt_list_seek.simps [of s P h x])
qed

lemma rt_list_seek_ring:
  assumes "ring s h xs"
  shows "rt_list_seek s P h (nxt s h) = Some (case find P xs of Some x \<Rightarrow> x | None \<Rightarrow> h)"
proof (cases xs)
  case Nil with assms show ?thesis by (simp add: ring_def rt_list_seek.simps)
next
  case (Cons x ys)
  have r: "path s x ys h" "h \<notin> set ys" "x \<noteq> h" "nxt s h = x" using assms Cons by (auto simp: ring_def)
  show ?thesis
  proof (cases "P x")
    case True with r Cons show ?thesis by (simp add: rt_list_seek.simps)
  next
    case False
    let ?ys = "takeWhile (Not \<circ> P) ys" and ?zs = "dropWhile (Not \<circ> P) ys"
    have z: "?zs \<noteq> [] \<longrightarrow> P (hd ?zs)" using hd_dropWhile [of "Not \<circ> P" ys] by auto
    have "rt_list_seek s P h x = Some (hd (?zs @ [h]))"
      by (rule rt_list_seek_path [of _ _ ?ys]) (use r False z in \<open>auto dest: set_takeWhileD\<close>)
    moreover have "(case find P ys of Some x \<Rightarrow> x | None \<Rightarrow> h) = hd (?zs @ [h])"
      by (induction ys) auto
    ultimately show ?thesis using r Cons False by simp
  qed
qed

section \<open>What the operations do to one ring\<close>

text \<open>The node \<open>n\<close> enters between \<open>p\<close> and its successor \<open>q\<close>, whichever of the two is named.\<close>

definition splice :: "'n \<Rightarrow> 'n \<Rightarrow> 'n \<Rightarrow> 'n links \<Rightarrow> 'n links" where
  "splice p n q s = set_next p n (set_prev q n (set_next n q (set_prev n p s)))"

lemma insert_after_splice:
  assumes "n \<noteq> l" "n \<noteq> nxt s l"
  shows "rt_list_insert_after l n s = splice l n (nxt s l) s"
  using assms by (cases s) (auto simp: rt_list_insert_after_def splice_def set_next_def set_prev_def Let_def
      fun_upd_twist)

lemma insert_before_splice:
  assumes "n \<noteq> l" "n \<noteq> prv s l"
  shows "rt_list_insert_before l n s = splice (prv s l) n l s"
  using assms by (cases s) (auto simp: rt_list_insert_before_def splice_def set_next_def set_prev_def Let_def
      fun_upd_twist)

lemma nxt_splice: "n \<noteq> p \<Longrightarrow> nxt (splice p n q s) z = (if z = p then n else if z = n then q else nxt s z)"
  and prv_splice: "n \<noteq> q \<Longrightarrow> prv (splice p n q s) z = (if z = q then n else if z = n then p else prv s z)"
  by (auto simp: splice_def)

lemma nxt_remove: "nxt s n \<noteq> n \<Longrightarrow> prv s n \<noteq> n \<Longrightarrow>
    nxt (rt_list_remove n s) z = (if z = n then n else if z = prv s n then nxt s n else nxt s z)"
  and prv_remove: "nxt s n \<noteq> n \<Longrightarrow> prv s n \<noteq> n \<Longrightarrow>
    prv (rt_list_remove n s) z = (if z = n then n else if z = nxt s n then prv s n else prv s z)"
  by (auto simp: rt_list_remove_def Let_def)

lemma path_splice:
  assumes "path s x (as @ bs) y" and "distinct (x # as @ bs)" and "y \<notin> set (as @ bs)" "n \<notin> set (x # y # as @ bs)"
  shows "path (splice (last (x # as)) n (hd (bs @ [y])) s) x (as @ n # bs) y"
proof -
  let ?p = "last (x # as)" and ?q = "hd (bs @ [y])"
  let ?t = "splice ?p n ?q s"
  have p: "?p \<in> set (x # as)" by (rule last_in_set) simp
  have q: "?q \<in> set (bs @ [y])" by (rule hd_in_set) simp
  have n: "n \<noteq> ?p" "n \<noteq> ?q" using p q assms(4) by auto
  have a: "path ?t x as n \<and> path s ?p bs y"
  proof (cases as rule: rev_cases)
    case Nil
    with assms(1) n show ?thesis by (simp add: nxt_splice prv_splice)
  next
    case (snoc as' a)
    have "path s x (as' @ a # bs) y" using assms(1) snoc by simp
    then have 1: "path s x as' a" and 2: "path s a bs y" by (simp_all only: path_append)
    have "path ?t x as' a = path s x as' a"
      by (rule path_cong) (use assms(2-4) snoc n q in \<open>auto simp: nxt_splice prv_splice\<close>)
    moreover have "nxt ?t a = n \<and> prv ?t n = a" using snoc n by (simp add: nxt_splice prv_splice)
    ultimately show ?thesis using 1 2 snoc by (simp add: path_snoc)
  qed
  have b: "path ?t n bs y"
  proof (cases bs)
    case Nil
    with n show ?thesis by (simp add: nxt_splice prv_splice)
  next
    case (Cons b bs')
    have "path s b bs' y" using a Cons by simp
    moreover have "path ?t b bs' y = path s b bs' y"
      by (rule path_cong)
        (use assms(2-4) Cons n p in \<open>auto simp: nxt_splice prv_splice split: if_splits dest: last_in_set\<close>)
    ultimately show ?thesis using n Cons by (simp add: nxt_splice prv_splice)
  qed
  from a b show ?thesis by (simp add: path_append)
qed

lemma path_unsplice:
  assumes "path s x (as @ n # bs) y" and "distinct (x # as @ n # bs)" and "y \<notin> set (as @ n # bs)"
  shows "path (rt_list_remove n s) x (as @ bs) y"
proof -
  let ?t = "rt_list_remove n s"
  have 1: "path s x as n" and 2: "path s n bs y" using assms(1) by (simp_all add: path_append)
  have p: "prv s n = last (x # as)" and q: "nxt s n = hd (bs @ [y])"
    using path_last [OF 1] path_first [OF 2] by simp_all
  have ps: "prv s n \<in> set (x # as)" unfolding p by (rule last_in_set) simp
  have qs: "nxt s n \<in> set (bs @ [y])" unfolding q by (rule hd_in_set) simp
  have ne: "nxt s n \<noteq> n" "prv s n \<noteq> n" using ps qs assms(2,3) by auto
  have b: "path ?t (prv s n) bs y"
  proof (cases bs)
    case Nil
    with ne q show ?thesis by (simp add: nxt_remove prv_remove)
  next
    case (Cons b bs')
    have "path ?t b bs' y = path s b bs' y"
      by (rule path_cong) (use assms(2,3) Cons ne ps q in \<open>auto simp: nxt_remove prv_remove\<close>)
    with ne q 2 Cons show ?thesis by (simp add: nxt_remove prv_remove)
  qed
  show ?thesis
  proof (cases as rule: rev_cases)
    case Nil
    with b p show ?thesis by simp
  next
    case (snoc as' a)
    have "path s x as' a" using 1 snoc by (simp add: path_snoc)
    moreover have "path ?t x as' a = path s x as' a"
      by (rule path_cong) (use assms(2,3) snoc ne qs p in \<open>auto simp: nxt_remove prv_remove\<close>)
    ultimately show ?thesis using b p snoc by (simp add: path_append)
  qed
qed

section \<open>A store as a map from heads to members\<close>

definition members :: "('n \<rightharpoonup> 'n list) \<Rightarrow> 'n \<Rightarrow> 'n set" where
  "members M h = (case M h of None \<Rightarrow> {} | Some xs \<Rightarrow> insert h (set xs))"

definition rings :: "'n links \<Rightarrow> ('n \<rightharpoonup> 'n list) \<Rightarrow> bool" where
  "rings s M = ((\<forall>h xs. M h = Some xs \<longrightarrow> ring s h xs) \<and>
     (\<forall>h k. h \<noteq> k \<longrightarrow> members M h \<inter> members M k = {}))"

lemma members_Some [simp]: "M h = Some xs \<Longrightarrow> members M h = insert h (set xs)"
  by (simp add: members_def)

lemma ringsD: "rings s M \<Longrightarrow> M h = Some xs \<Longrightarrow> ring s h xs"
  by (simp add: rings_def)

lemma rings_disjoint: "rings s M \<Longrightarrow> M h = Some xs \<Longrightarrow> M k = Some ys \<Longrightarrow> h \<noteq> k \<Longrightarrow>
    insert h (set xs) \<inter> insert k (set ys) = {}"
  unfolding rings_def by (metis members_Some)

lemma rings_distinct: "rings s M \<Longrightarrow> M h = Some xs \<Longrightarrow> distinct (h # xs)"
  unfolding rings_def ring_def by blast

text \<open>A node is in one place: it is a head, or a member of one ring.\<close>

lemma member_no_head: "rings s M \<Longrightarrow> M h = Some xs \<Longrightarrow> n \<in> set xs \<Longrightarrow> M n = None"
  using rings_disjoint [of s M h xs n] rings_distinct [of s M h xs] by (cases "M n") auto

lemma member_unique: "rings s M \<Longrightarrow> M h = Some xs \<Longrightarrow> M k = Some ys \<Longrightarrow> n \<in> set xs \<Longrightarrow> n \<in> set ys \<Longrightarrow> h = k"
  using rings_disjoint [of s M h xs k ys] by blast

lemma ring_frame:
  assumes "ring s h xs" and "\<And>z. z \<in> insert h (set xs) \<Longrightarrow> nxt t z = nxt s z \<and> prv t z = prv s z"
  shows "ring t h xs"
proof -
  have "path t h xs h = path s h xs h" by (rule path_cong) (use assms(2) in auto)
  with assms(1) show ?thesis by (simp add: ring_def)
qed

lemma rings_insertI:
  assumes r: "rings s M" and h: "M h = Some (as @ bs)" and n: "M n = Some []" "n \<noteq> h"
  shows "rings (splice (last (h # as)) n (hd (bs @ [h])) s) (M(h \<mapsto> as @ n # bs, n := None))"
    (is "rings ?t ?M")
proof -
  let ?p = "last (h # as)" and ?q = "hd (bs @ [h])"
  have hr: "ring s h (as @ bs)" using r h by (rule ringsD)
  have nn: "n \<notin> set (h # as @ bs)" using rings_disjoint [OF r h n(1)] n(2) by auto
  have p: "?p \<in> set (h # as)" by (rule last_in_set) simp
  have q: "?q \<in> set (bs @ [h])" by (rule hd_in_set) simp
  have np: "n \<noteq> ?p" "n \<noteq> ?q" using p q nn by auto
  have new: "ring ?t h (as @ n # bs)"
    using path_splice [of s h as bs h n] hr nn by (auto simp: ring_def)
  have old: "ring ?t k ys" if k: "M k = Some ys" "k \<noteq> h" "k \<noteq> n" for k ys
  proof (rule ring_frame [of s])
    show "ring s k ys" using r k(1) by (rule ringsD)
    fix z assume z: "z \<in> insert k (set ys)"
    have "z \<notin> insert h (set (as @ bs))" "z \<noteq> n"
      using rings_disjoint [OF r h k(1)] rings_disjoint [OF r n(1) k(1)] k z by auto
    then show "nxt ?t z = nxt s z \<and> prv ?t z = prv s z"
      using p q np by (auto simp: nxt_splice prv_splice)
  qed
  have mem: "members ?M k = (if k = n then {} else if k = h then insert n (members M h) else members M k)" for k
    using h n by (auto simp: members_def split: option.splits)
  have d: "members M k \<inter> members M l = {}" if "k \<noteq> l" for k l using r that by (simp add: rings_def)
  have dn: "n \<notin> members M k" if "k \<noteq> n" for k using d [OF that] n by (auto simp: members_def)
  show ?thesis
    unfolding rings_def mem
    using new old n(2) d dn by (auto split: if_splits)
qed

lemma rings_removeI:
  assumes r: "rings s M" and h: "M h = Some (as @ n # bs)"
  shows "rings (rt_list_remove n s) (M(h \<mapsto> as @ bs, n \<mapsto> []))" (is "rings ?t ?M")
proof -
  have hr: "ring s h (as @ n # bs)" using r h by (rule ringsD)
  have nh: "n \<noteq> h" using hr by (auto simp: ring_def)
  have n: "M n = None" using member_no_head [OF r h] by simp
  have path: "path s h as n" "path s n bs h" using hr by (simp_all add: ring_def path_append)
  have ps: "prv s n \<in> set (h # as)" unfolding path_last [OF path(1)] by (rule last_in_set) simp
  have qs: "nxt s n \<in> set (bs @ [h])" unfolding path_first [OF path(2)] by (rule hd_in_set) simp
  have ne: "nxt s n \<noteq> n" "prv s n \<noteq> n" using ps qs hr by (auto simp: ring_def)
  have new: "ring ?t h (as @ bs)" using path_unsplice [of s h as n bs h] hr by (auto simp: ring_def)
  have self: "ring ?t n []" using ne by (simp add: ring_def nxt_remove prv_remove)
  have old: "ring ?t k ys" if k: "M k = Some ys" "k \<noteq> h" for k ys
  proof (rule ring_frame [of s])
    show "ring s k ys" using r k(1) by (rule ringsD)
    fix z assume z: "z \<in> insert k (set ys)"
    have "z \<notin> insert h (set (as @ n # bs))" using rings_disjoint [OF r h k(1)] k z by auto
    then show "nxt ?t z = nxt s z \<and> prv ?t z = prv s z"
      using ps qs ne by (auto simp: nxt_remove prv_remove)
  qed
  have mem: "members ?M k = (if k = n then {n} else if k = h then members M h - {n} else members M k)" for k
    using h nh hr by (auto simp: members_def ring_def split: option.splits)
  have d: "members M k \<inter> members M l = {}" if "k \<noteq> l" for k l using r that by (simp add: rings_def)
  have d': "x \<notin> members M l" if "x \<in> members M k" "k \<noteq> l" for x k l using d [OF that(2)] that(1) by auto
  have dn: "n \<notin> members M k" if "k \<noteq> h" for k using d [OF that] h by auto
  show ?thesis
    unfolding rings_def mem
    using new self old nh n dn by (auto split: if_splits dest: d')
qed

text \<open>The operations, on the map.\<close>

lemma rings_insert_head:
  assumes "rings s M" and "M h = Some xs" and "M n = Some []" "n \<noteq> h"
  shows "rings (rt_list_insert_after h n s) (M(h \<mapsto> n # xs, n := None))"
proof -
  have "nxt s h = hd (xs @ [h])" using ring_first ringsD assms(1,2) by metis
  moreover have "n \<notin> set (xs @ [h])" using rings_disjoint [OF assms(1-3)] assms(4) by auto
  then have "n \<noteq> hd (xs @ [h])" using hd_in_set [of "xs @ [h]"] by (metis append_is_Nil_conv list.discI)
  ultimately show ?thesis
    using rings_insertI [of s M h "[]" xs n] assms by (simp add: insert_after_splice)
qed

lemma rings_insert_tail:
  assumes "rings s M" and "M h = Some xs" and "M n = Some []" "n \<noteq> h"
  shows "rings (rt_list_insert_before h n s) (M(h \<mapsto> xs @ [n], n := None))"
proof -
  have "prv s h = last (h # xs)" using ring_last ringsD assms(1,2) by metis
  moreover have "n \<notin> set (h # xs)" using rings_disjoint [OF assms(1-3)] assms(4) by auto
  then have "n \<noteq> last (h # xs)" using last_in_set [of "h # xs"] by (metis list.discI)
  ultimately show ?thesis
    using rings_insertI [of s M h xs "[]" n] assms by (simp add: insert_before_splice)
qed

lemma rings_insert_before_member:
  assumes "rings s M" and "M h = Some (as @ x # bs)" and "M n = Some []" "n \<noteq> h"
  shows "rings (rt_list_insert_before x n s) (M(h \<mapsto> as @ n # x # bs, n := None))"
proof -
  have "path s h as x" using ringsD [OF assms(1,2)] by (simp add: ring_def path_append)
  then have "prv s x = last (h # as)" by (rule path_last)
  moreover have nn: "n \<notin> set (h # as @ x # bs)" using rings_disjoint [OF assms(1-3)] assms(4) by auto
  then have "n \<noteq> last (h # as)" using last_in_set [of "h # as"] by (auto split: if_splits)
  ultimately show ?thesis
    using rings_insertI [of s M h as "x # bs" n] assms nn by (simp add: insert_before_splice)
qed

lemma rings_insert_after_member:
  assumes "rings s M" and "M h = Some (as @ x # bs)" and "M n = Some []" "n \<noteq> h"
  shows "rings (rt_list_insert_after x n s) (M(h \<mapsto> as @ x # n # bs, n := None))"
proof -
  have "path s x bs h" using ringsD [OF assms(1,2)] by (simp add: ring_def path_append)
  then have "nxt s x = hd (bs @ [h])" by (rule path_first)
  moreover have nn: "n \<notin> set (h # as @ x # bs)" using rings_disjoint [OF assms(1-3)] assms(4) by auto
  then have "n \<noteq> hd (bs @ [h])" using hd_in_set [of "bs @ [h]"] by (cases bs) auto
  ultimately show ?thesis
    using rings_insertI [of s M h "as @ [x]" bs n] assms nn by (simp add: insert_after_splice)
qed

lemma rings_remove:
  assumes "rings s M" and "M h = Some xs" and "n \<in> set xs"
  shows "rings (rt_list_remove n s) (M(h \<mapsto> remove1 n xs, n \<mapsto> []))"
proof -
  obtain as bs where xs: "xs = as @ n # bs" "n \<notin> set as" using split_list_first [OF assms(3)] by blast
  then have "remove1 n xs = as @ bs" by (simp add: remove1_append)
  with rings_removeI [of s M h as n bs] assms xs show ?thesis by simp
qed

lemma rt_list_remove_alone: "ring s n [] \<Longrightarrow> rt_list_remove n s = s"
  by (cases s) (auto simp: ring_def rt_list_remove_def set_next_def set_prev_def Let_def)

lemma rings_remove_alone: "rings s M \<Longrightarrow> M n = Some [] \<Longrightarrow> rings (rt_list_remove n s) M"
  using rt_list_remove_alone [OF ringsD] by metis

text \<open>Initialising a node that is in no ring, or alone in its own.\<close>

lemma rings_init:
  assumes r: "rings s M" and n: "\<And>k. k \<noteq> n \<Longrightarrow> n \<notin> members M k"
  shows "rings (rt_list_init n s) (M(n \<mapsto> []))"
proof -
  have self: "ring (rt_list_init n s) n []" by (simp add: ring_def rt_list_init_def)
  have old: "ring (rt_list_init n s) k ys" if k: "M k = Some ys" "k \<noteq> n" for k ys
    by (rule ring_frame [OF ringsD [OF r k(1)]]) (use n [OF k(2)] k(1) in \<open>auto simp: rt_list_init_def\<close>)
  have mem: "members (M(n \<mapsto> [])) k = (if k = n then {n} else members M k)" for k
    by (simp add: members_def)
  show ?thesis unfolding rings_def mem using r self old n by (auto simp: rings_def)
qed

end
