(* ===== verification/Rt_Kernel.thy ===== *)
theory Rt_Kernel
  imports Rt_List "HOL-Library.Monad_Syntax"
begin

text \<open>
  The state of the RT-Thread kernel as \<^verbatim>\<open>libs/_kernel/bsp/rtconfig.h\<close> configures it (eight
  priorities, 1000 ticks a second, semaphores and mailboxes, no heap, no hooks, no debugging, one
  level of timer list), and the services below the scheduler: kernel objects, names, the bitmap
  search, the interrupt nesting counter and the context switch of the RISC-V port.

  Threads, semaphores and mailboxes are static and numbered; a pointer to a list node is a value of
  \<open>node\<close>. Every function returns an option: \<open>None\<close> stands for a call that does not return a defined
  result, because the C code leaves an array, follows a null pointer, reads a node as a structure it
  is not part of, or never ends. Saving and restoring the interrupt enable bit around the bodies is
  what makes them atomic, and does not appear.
\<close>

section \<open>Constants\<close>

definition RT_THREAD_PRIORITY_MAX :: nat where "RT_THREAD_PRIORITY_MAX = 8"
definition RT_TICK_PER_SECOND :: u32 where "RT_TICK_PER_SECOND = 1000"
definition RT_NAME_MAX :: nat where "RT_NAME_MAX = 8"
definition RT_TICK_MAX :: u32 where "RT_TICK_MAX = 0xffffffff"
definition RT_SEM_VALUE_MAX :: u16 where "RT_SEM_VALUE_MAX = 0xffff"
definition RT_MB_ENTRY_MAX :: u16 where "RT_MB_ENTRY_MAX = 0xffff"

definition RT_EOK :: u32 where "RT_EOK = 0"
definition RT_ERROR :: u32 where "RT_ERROR = 1"
definition RT_ETIMEOUT :: u32 where "RT_ETIMEOUT = 2"
definition RT_EFULL :: u32 where "RT_EFULL = 3"

definition RT_THREAD_INIT :: u8 where "RT_THREAD_INIT = 0"
definition RT_THREAD_READY :: u8 where "RT_THREAD_READY = 1"
definition RT_THREAD_SUSPEND :: u8 where "RT_THREAD_SUSPEND = 2"
definition RT_THREAD_CLOSE :: u8 where "RT_THREAD_CLOSE = 4"
definition RT_THREAD_STAT_MASK :: u8 where "RT_THREAD_STAT_MASK = 0x0f"

definition RT_TIMER_FLAG_ACTIVATED :: u8 where "RT_TIMER_FLAG_ACTIVATED = 1"
definition RT_TIMER_FLAG_ONE_SHOT :: u8 where "RT_TIMER_FLAG_ONE_SHOT = 0"
definition RT_TIMER_FLAG_PERIODIC :: u8 where "RT_TIMER_FLAG_PERIODIC = 2"

definition RT_IPC_FLAG_FIFO :: u8 where "RT_IPC_FLAG_FIFO = 0"
definition RT_IPC_FLAG_PRIO :: u8 where "RT_IPC_FLAG_PRIO = 1"
definition RT_WAITING_FOREVER :: u32 where "RT_WAITING_FOREVER = -1"

definition RT_Object_Class_Null :: u8 where "RT_Object_Class_Null = 0"
definition RT_Object_Class_Thread :: u8 where "RT_Object_Class_Thread = 1"
definition RT_Object_Class_Semaphore :: u8 where "RT_Object_Class_Semaphore = 2"
definition RT_Object_Class_MailBox :: u8 where "RT_Object_Class_MailBox = 5"
definition RT_Object_Class_Timer :: u8 where "RT_Object_Class_Timer = 0xa"
definition RT_Object_Class_Static :: u8 where "RT_Object_Class_Static = 0x80"

section \<open>Objects and list nodes\<close>

type_synonym tid = nat

datatype timer_id = ThreadTimer tid | AppTimer nat

datatype obj = OThread tid | OTimer timer_id | OSem nat | OMb nat

text \<open>
  All places a list node can be: the ready table, the list of dead threads, the link of a thread,
  the row of a timer, the timer list, the local list of \<^verbatim>\<open>rt_timer_check\<close>, the object containers
  and the object links, and the queues of the semaphores and mailboxes.
\<close>

datatype node =
    Ready nat | Defunct | Tlist tid
  | Row timer_id | TimerList | Expired
  | ObjList nat | ObjNode obj
  | SemWait nat | MbWait nat | MbSenders nat

text \<open>\<^verbatim>\<open>rt_list_entry\<close>: the structure a node is part of.\<close>

fun thread_of :: "node \<Rightarrow> tid option" where
  "thread_of (Tlist t) = Some t" | "thread_of _ = None"

fun timer_of :: "node \<Rightarrow> timer_id option" where
  "timer_of (Row t) = Some t" | "timer_of _ = None"

fun object_of :: "node \<Rightarrow> obj option" where
  "object_of (ObjNode ob) = Some ob" | "object_of _ = None"

record rt_object =
  o_name :: "char list"
  o_type :: u8
  o_flag :: u8

text \<open>A void pointer that is passed through: a number, or a thread.\<close>

datatype arg = Arg u32 | ArgThread tid

text \<open>The function a timer calls: the one of the thread timers, or one of the application.\<close>

datatype timer_func = Rt_thread_timeout | AppFunc nat

record rt_timer =
  tm_func :: timer_func
  tm_parameter :: arg
  tm_init_tick :: u32
  tm_timeout_tick :: u32

record rt_thread =
  th_entry :: nat
  th_parameter :: arg
  th_stack_addr :: u32
  th_stack_size :: u32
  th_error :: u32
  th_stat :: u8
  th_current_priority :: u8
  th_init_priority :: u8
  th_number_mask :: u32
  th_init_tick :: u32
  th_remaining_tick :: u32
  th_cleanup :: "nat option"

record rt_semaphore =
  sem_value :: u16

record rt_mailbox =
  mb_pool :: "u32 list"
  mb_size :: u16
  mb_entry :: u16
  mb_in_offset :: u16
  mb_out_offset :: u16

section \<open>The state\<close>

text \<open>
  Whose computation a saved frame, or the processor, holds: the start-up code or a thread.
  \<open>k_sp\<close> is the frame the stack pointer of a thread points to.
\<close>

datatype cpu_context = Boot | Ctx tid

text \<open>The code a thread has still to run when \<^verbatim>\<open>rt_schedule\<close> returns inside a blocking call.\<close>

datatype pending =
    No_pending
  | P_sleep
  | P_delay_until
  | P_sem_take
  | P_mb_send nat u32 u32 u32
  | P_mb_recv nat u32 u32

record 'a kernel =
  k_links :: "node links"
  k_object :: "obj \<Rightarrow> rt_object"
  k_thread :: "tid \<Rightarrow> rt_thread"
  k_timer :: "timer_id \<Rightarrow> rt_timer"
  k_sem :: "nat \<Rightarrow> rt_semaphore"
  k_mb :: "nat \<Rightarrow> rt_mailbox"
  k_group :: u32
  k_lock_nest :: u16
  k_current :: "tid option"
  k_priority :: u8
  k_interrupt_nest :: u8
  k_tick :: u32
  k_random_nr :: u32
  k_cpu :: cpu_context
  k_sp :: "tid \<Rightarrow> cpu_context"
  k_from :: "tid option"
  k_to :: "tid option"
  k_switch_flag :: bool
  k_pending :: "tid \<Rightarrow> pending"
  k_app :: 'a

definition on_links :: "(node links \<Rightarrow> node links) \<Rightarrow> 'a kernel \<Rightarrow> 'a kernel" where
  "on_links f k = k\<lparr>k_links := f (k_links k)\<rparr>"

definition on_thread :: "tid \<Rightarrow> (rt_thread \<Rightarrow> rt_thread) \<Rightarrow> 'a kernel \<Rightarrow> 'a kernel" where
  "on_thread t f k = k\<lparr>k_thread := (k_thread k)(t := f (k_thread k t))\<rparr>"

definition on_timer :: "timer_id \<Rightarrow> (rt_timer \<Rightarrow> rt_timer) \<Rightarrow> 'a kernel \<Rightarrow> 'a kernel" where
  "on_timer t f k = k\<lparr>k_timer := (k_timer k)(t := f (k_timer k t))\<rparr>"

definition on_object :: "obj \<Rightarrow> (rt_object \<Rightarrow> rt_object) \<Rightarrow> 'a kernel \<Rightarrow> 'a kernel" where
  "on_object ob f k = k\<lparr>k_object := (k_object k)(ob := f (k_object k ob))\<rparr>"

section \<open>Finding the lowest set bit\<close>

definition lowest_bit_bitmap :: "u8 list" where
  "lowest_bit_bitmap =
   [0, 0, 1, 0, 2, 0, 1, 0, 3, 0, 1, 0, 2, 0, 1, 0,
    4, 0, 1, 0, 2, 0, 1, 0, 3, 0, 1, 0, 2, 0, 1, 0,
    5, 0, 1, 0, 2, 0, 1, 0, 3, 0, 1, 0, 2, 0, 1, 0,
    4, 0, 1, 0, 2, 0, 1, 0, 3, 0, 1, 0, 2, 0, 1, 0,
    6, 0, 1, 0, 2, 0, 1, 0, 3, 0, 1, 0, 2, 0, 1, 0,
    4, 0, 1, 0, 2, 0, 1, 0, 3, 0, 1, 0, 2, 0, 1, 0,
    5, 0, 1, 0, 2, 0, 1, 0, 3, 0, 1, 0, 2, 0, 1, 0,
    4, 0, 1, 0, 2, 0, 1, 0, 3, 0, 1, 0, 2, 0, 1, 0,
    7, 0, 1, 0, 2, 0, 1, 0, 3, 0, 1, 0, 2, 0, 1, 0,
    4, 0, 1, 0, 2, 0, 1, 0, 3, 0, 1, 0, 2, 0, 1, 0,
    5, 0, 1, 0, 2, 0, 1, 0, 3, 0, 1, 0, 2, 0, 1, 0,
    4, 0, 1, 0, 2, 0, 1, 0, 3, 0, 1, 0, 2, 0, 1, 0,
    6, 0, 1, 0, 2, 0, 1, 0, 3, 0, 1, 0, 2, 0, 1, 0,
    4, 0, 1, 0, 2, 0, 1, 0, 3, 0, 1, 0, 2, 0, 1, 0,
    5, 0, 1, 0, 2, 0, 1, 0, 3, 0, 1, 0, 2, 0, 1, 0,
    4, 0, 1, 0, 2, 0, 1, 0, 3, 0, 1, 0, 2, 0, 1, 0]"

definition lowest_bit :: "u32 \<Rightarrow> u32" where
  "lowest_bit b = ucast (lowest_bit_bitmap ! unat b)"

definition rt_ffs :: "u32 \<Rightarrow> u32" where
  "rt_ffs value =
    (if value = 0 then 0
     else if value AND 0xff \<noteq> 0 then lowest_bit (value AND 0xff) + 1
     else if value AND 0xff00 \<noteq> 0 then lowest_bit (drop_bit 8 (value AND 0xff00)) + 9
     else if value AND 0xff0000 \<noteq> 0 then lowest_bit (drop_bit 16 (value AND 0xff0000)) + 17
     else lowest_bit (drop_bit 24 (value AND 0xff000000)) + 25)"

section \<open>Names\<close>

text \<open>A C string is the list of its characters before the terminating null.\<close>

definition NUL :: char where "NUL = CHR 0x00"

fun rt_strncpy :: "char list \<Rightarrow> nat \<Rightarrow> char list" where
  "rt_strncpy src 0 = []"
| "rt_strncpy [] (Suc n) = NUL # replicate n NUL"
| "rt_strncpy (c # src) (Suc n) = (if c = NUL then NUL # replicate n NUL else c # rt_strncpy src n)"

definition char_byte :: "char \<Rightarrow> u8" where
  "char_byte c = of_nat (of_char c)"

fun first_char :: "char list \<Rightarrow> char" where
  "first_char [] = NUL" | "first_char (c # cs) = c"

fun rt_strncmp :: "char list \<Rightarrow> char list \<Rightarrow> nat \<Rightarrow> u8" where
  "rt_strncmp cs ct 0 = 0"
| "rt_strncmp cs ct (Suc n) =
    (let res = char_byte (first_char cs) - char_byte (first_char ct)
     in if res \<noteq> 0 \<or> first_char cs = NUL then res else rt_strncmp (tl cs) (tl ct) n)"

end
