(* ===== verification/Rt_Sched.thy ===== *)
theory Rt_Sched
  imports Rt_Kernel
begin

text \<open>
  The scheduler, the kernel objects, the timers and the threads: \<^verbatim>\<open>src/scheduler.c\<close>, \<^verbatim>\<open>object.c\<close>,
  \<^verbatim>\<open>timer.c\<close>, \<^verbatim>\<open>thread.c\<close>, \<^verbatim>\<open>clock.c\<close>, \<^verbatim>\<open>irq.c\<close>, and the context switch of
  \<^verbatim>\<open>libcpu/risc-v/common/cpuport.c\<close>.

  A blocking call ends at its \<^verbatim>\<open>rt_schedule\<close>: it records the rest of its body in \<open>k_pending\<close>, and
  the rest runs when the thread next has the processor.
\<close>

section \<open>Interrupts and the context switch\<close>

definition rt_interrupt_enter :: "'a kernel \<Rightarrow> 'a kernel" where
  "rt_interrupt_enter k = k\<lparr>k_interrupt_nest := k_interrupt_nest k + 1\<rparr>"

definition rt_interrupt_leave :: "'a kernel \<Rightarrow> 'a kernel" where
  "rt_interrupt_leave k = k\<lparr>k_interrupt_nest := k_interrupt_nest k - 1\<rparr>"

definition rt_interrupt_get_nest :: "'a kernel \<Rightarrow> u8" where
  "rt_interrupt_get_nest k = k_interrupt_nest k"

text \<open>The frame of \<open>to\<close> is loaded; the computation that ran is saved under \<open>from\<close>.\<close>

definition rt_hw_context_switch_to :: "tid \<Rightarrow> 'a kernel \<Rightarrow> 'a kernel" where
  "rt_hw_context_switch_to to k = k\<lparr>k_cpu := k_sp k to\<rparr>"

definition rt_hw_context_switch :: "tid \<Rightarrow> tid \<Rightarrow> 'a kernel \<Rightarrow> 'a kernel" where
  "rt_hw_context_switch from to k =
    (let k1 = k\<lparr>k_sp := (k_sp k)(from := k_cpu k)\<rparr> in k1\<lparr>k_cpu := k_sp k1 to\<rparr>)"

definition rt_hw_context_switch_interrupt :: "tid \<Rightarrow> tid \<Rightarrow> 'a kernel \<Rightarrow> 'a kernel" where
  "rt_hw_context_switch_interrupt from to k = k\<lparr>k_from := Some from, k_to := Some to, k_switch_flag := True\<rparr>"

section \<open>The scheduler\<close>

definition rt_system_scheduler_init :: "'a kernel \<Rightarrow> 'a kernel" where
  "rt_system_scheduler_init k =
    (let k1 = k\<lparr>k_lock_nest := 0\<rparr>;
         k2 = fold (\<lambda>offset. on_links (rt_list_init (Ready offset))) [0..<RT_THREAD_PRIORITY_MAX] k1;
         k3 = k2\<lparr>k_priority := of_nat (RT_THREAD_PRIORITY_MAX - 1), k_current := None, k_group := 0\<rparr>
     in on_links (rt_list_init Defunct) k3)"

text \<open>The list head of a priority; an index past the table is outside the array.\<close>

definition ready_head :: "u32 \<Rightarrow> node option" where
  "ready_head p = (if unat p < RT_THREAD_PRIORITY_MAX then Some (Ready (unat p)) else None)"

definition highest_ready :: "'a kernel \<Rightarrow> (u32 \<times> tid) option" where
  "highest_ready k =
    do { let highest_ready_priority = rt_ffs (k_group k) - 1;
         head \<leftarrow> ready_head highest_ready_priority;
         to_thread \<leftarrow> thread_of (nxt (k_links k) head);
         Some (highest_ready_priority, to_thread) }"

definition rt_system_scheduler_start :: "'a kernel \<Rightarrow> 'a kernel option" where
  "rt_system_scheduler_start k =
    do { (_, to_thread) \<leftarrow> highest_ready k;
         Some (rt_hw_context_switch_to to_thread (k\<lparr>k_current := Some to_thread\<rparr>)) }"

definition rt_schedule :: "'a kernel \<Rightarrow> 'a kernel option" where
  "rt_schedule k =
    (if k_lock_nest k = 0
     then do { (highest_ready_priority, to_thread) \<leftarrow> highest_ready k;
               if k_current k \<noteq> Some to_thread
               then do { from_thread \<leftarrow> k_current k;
                         let k1 = k\<lparr>k_priority := ucast highest_ready_priority, k_current := Some to_thread\<rparr>;
                         if k_interrupt_nest k = 0
                         then Some (rt_hw_context_switch from_thread to_thread k1)
                         else Some (rt_hw_context_switch_interrupt from_thread to_thread k1) }
               else Some k }
     else Some k)"

definition rt_schedule_insert_thread :: "tid \<Rightarrow> 'a kernel \<Rightarrow> 'a kernel option" where
  "rt_schedule_insert_thread t k =
    do { let k1 = on_thread t (\<lambda>th. th\<lparr>th_stat := RT_THREAD_READY OR (th_stat th AND NOT RT_THREAD_STAT_MASK)\<rparr>) k;
         head \<leftarrow> ready_head (ucast (th_current_priority (k_thread k1 t)));
         let k2 = on_links (rt_list_insert_before head (Tlist t)) k1;
         Some (k2\<lparr>k_group := k_group k2 OR th_number_mask (k_thread k2 t)\<rparr>) }"

definition rt_schedule_remove_thread :: "tid \<Rightarrow> 'a kernel \<Rightarrow> 'a kernel option" where
  "rt_schedule_remove_thread t k =
    do { let k1 = on_links (rt_list_remove (Tlist t)) k;
         head \<leftarrow> ready_head (ucast (th_current_priority (k_thread k1 t)));
         if rt_list_isempty head (k_links k1)
         then Some (k1\<lparr>k_group := k_group k1 AND NOT (th_number_mask (k_thread k1 t))\<rparr>)
         else Some k1 }"

definition rt_enter_critical :: "'a kernel \<Rightarrow> 'a kernel" where
  "rt_enter_critical k = k\<lparr>k_lock_nest := k_lock_nest k + 1\<rparr>"

definition rt_exit_critical :: "'a kernel \<Rightarrow> 'a kernel option" where
  "rt_exit_critical k =
    (let k1 = k\<lparr>k_lock_nest := k_lock_nest k - 1\<rparr>
     in if k_lock_nest k1 \<le>s 0
        then (let k2 = k1\<lparr>k_lock_nest := 0\<rparr>
              in if k_current k2 \<noteq> None then rt_schedule k2 else Some k2)
        else Some k1)"

definition rt_critical_level :: "'a kernel \<Rightarrow> u16" where
  "rt_critical_level k = k_lock_nest k"

section \<open>Kernel objects\<close>

text \<open>The containers, in the order of the table: thread, semaphore, mailbox, timer.\<close>

definition rt_object_container :: "u8 list" where
  "rt_object_container =
    [RT_Object_Class_Thread, RT_Object_Class_Semaphore, RT_Object_Class_MailBox, RT_Object_Class_Timer]"

fun information_from :: "u8 list \<Rightarrow> nat \<Rightarrow> u8 \<Rightarrow> node option" where
  "information_from [] index type = None"
| "information_from (c # cs) index type =
    (if c = type then Some (ObjList index) else information_from cs (Suc index) type)"

definition rt_object_get_information :: "u8 \<Rightarrow> node option" where
  "rt_object_get_information type = information_from rt_object_container 0 type"

definition rt_object_get_length :: "u8 \<Rightarrow> 'a kernel \<Rightarrow> u32 option" where
  "rt_object_get_length type k =
    (case rt_object_get_information type of
       None \<Rightarrow> Some 0
     | Some information \<Rightarrow> rt_list_len information (k_links k))"

text \<open>
  The search of \<^verbatim>\<open>rt_object_init\<close> only matters with assertions on; it still walks the list.
  Leaving the critical section may switch to a thread of higher priority that was made ready
  without a schedule; the rest of the body would run later, and such a call is outside the model.
\<close>

definition rt_object_init :: "obj \<Rightarrow> u8 \<Rightarrow> char list \<Rightarrow> 'a kernel \<Rightarrow> 'a kernel option" where
  "rt_object_init ob type name k =
    do { information \<leftarrow> rt_object_get_information type;
         let k1 = rt_enter_critical k;
         _ \<leftarrow> rt_list_seek (k_links k1) (\<lambda>_. False) information (nxt (k_links k1) information);
         k2 \<leftarrow> rt_exit_critical k1;
         if k_current k2 \<noteq> k_current k then None
         else do {
           let k3 = on_object ob (\<lambda>x. x\<lparr>o_type := type OR RT_Object_Class_Static,
                                        o_name := rt_strncpy name RT_NAME_MAX\<rparr>) k2;
           Some (on_links (rt_list_insert_after information (ObjNode ob)) k3) } }"

definition rt_object_detach :: "obj \<Rightarrow> 'a kernel \<Rightarrow> 'a kernel" where
  "rt_object_detach ob k = on_links (rt_list_remove (ObjNode ob)) (on_object ob (\<lambda>x. x\<lparr>o_type := 0\<rparr>) k)"

definition rt_object_is_systemobject :: "obj \<Rightarrow> 'a kernel \<Rightarrow> bool" where
  "rt_object_is_systemobject ob k = (o_type (k_object k ob) AND RT_Object_Class_Static \<noteq> 0)"

definition rt_object_get_type :: "obj \<Rightarrow> 'a kernel \<Rightarrow> u8" where
  "rt_object_get_type ob k = o_type (k_object k ob) AND NOT RT_Object_Class_Static"

definition named :: "char list \<Rightarrow> 'a kernel \<Rightarrow> node \<Rightarrow> bool" where
  "named name k n = (case object_of n of None \<Rightarrow> False
     | Some ob \<Rightarrow> rt_strncmp (o_name (k_object k ob)) name RT_NAME_MAX = 0)"

text \<open>The result is a node of the container, or its head when no object has the name.\<close>

definition rt_object_find :: "char list \<Rightarrow> u8 \<Rightarrow> 'a kernel \<Rightarrow> (obj option \<times> 'a kernel) option" where
  "rt_object_find name type k =
    (case rt_object_get_information type of
       None \<Rightarrow> Some (None, k)
     | Some information \<Rightarrow>
         do { let k1 = rt_enter_critical k;
              n \<leftarrow> rt_list_seek (k_links k1) (named name k1) information (nxt (k_links k1) information);
              k2 \<leftarrow> rt_exit_critical k1;
              Some (object_of n, k2) })"

definition rt_thread_find :: "char list \<Rightarrow> 'a kernel \<Rightarrow> (tid option \<times> 'a kernel) option" where
  "rt_thread_find name k =
    do { (found, k1) \<leftarrow> rt_object_find name RT_Object_Class_Thread k;
         Some (case found of Some (OThread t) \<Rightarrow> Some t | _ \<Rightarrow> None, k1) }"

section \<open>Timers\<close>

definition tick_get :: "'a kernel \<Rightarrow> u32" where "tick_get k = k_tick k"

definition rt_tick_set :: "u32 \<Rightarrow> 'a kernel \<Rightarrow> 'a kernel" where
  "rt_tick_set tick k = k\<lparr>k_tick := tick\<rparr>"

definition set_flag :: "u8 \<Rightarrow> timer_id \<Rightarrow> 'a kernel \<Rightarrow> 'a kernel" where
  "set_flag m tm = on_object (OTimer tm) (\<lambda>x. x\<lparr>o_flag := o_flag x OR m\<rparr>)"

definition clear_flag :: "u8 \<Rightarrow> timer_id \<Rightarrow> 'a kernel \<Rightarrow> 'a kernel" where
  "clear_flag m tm = on_object (OTimer tm) (\<lambda>x. x\<lparr>o_flag := o_flag x AND NOT m\<rparr>)"

definition timer_flag :: "timer_id \<Rightarrow> 'a kernel \<Rightarrow> u8" where
  "timer_flag tm k = o_flag (k_object k (OTimer tm))"

definition timer_init_fields :: "timer_id \<Rightarrow> timer_func \<Rightarrow> arg \<Rightarrow> u32 \<Rightarrow> u8 \<Rightarrow> 'a kernel \<Rightarrow> 'a kernel" where
  "timer_init_fields tm timeout parameter time flag k =
    (let k1 = on_object (OTimer tm) (\<lambda>x. x\<lparr>o_flag := flag\<rparr>) k;
         k2 = clear_flag RT_TIMER_FLAG_ACTIVATED tm k1;
         k3 = on_timer tm (\<lambda>x. x\<lparr>tm_func := timeout, tm_parameter := parameter,
                                  tm_timeout_tick := 0, tm_init_tick := time\<rparr>) k2
     in on_links (rt_list_init (Row tm)) k3)"

definition rt_timer_remove :: "timer_id \<Rightarrow> 'a kernel \<Rightarrow> 'a kernel" where
  "rt_timer_remove tm = on_links (rt_list_remove (Row tm))"

definition rt_timer_init :: "timer_id \<Rightarrow> char list \<Rightarrow> timer_func \<Rightarrow> arg \<Rightarrow> u32 \<Rightarrow> u8 \<Rightarrow> 'a kernel \<Rightarrow> 'a kernel option" where
  "rt_timer_init tm name timeout parameter time flag k =
    do { k1 \<leftarrow> rt_object_init (OTimer tm) RT_Object_Class_Timer name k;
         Some (timer_init_fields tm timeout parameter time flag k1) }"

definition rt_timer_detach :: "timer_id \<Rightarrow> 'a kernel \<Rightarrow> 'a kernel" where
  "rt_timer_detach tm k =
    rt_object_detach (OTimer tm) (clear_flag RT_TIMER_FLAG_ACTIVATED tm (rt_timer_remove tm k))"

text \<open>The place of a timer in the list: the node after which it goes.\<close>

partial_function (option) timer_slot :: "'a kernel \<Rightarrow> u32 \<Rightarrow> node \<Rightarrow> node option" where
  "timer_slot k timeout row_head =
    (if row_head = prv (k_links k) TimerList then Some row_head
     else case timer_of (nxt (k_links k) row_head) of
       None \<Rightarrow> None
     | Some t \<Rightarrow>
         if tm_timeout_tick (k_timer k t) - timeout = 0
         then timer_slot k timeout (nxt (k_links k) row_head)
         else if tm_timeout_tick (k_timer k t) - timeout < RT_TICK_MAX div 2 then Some row_head
         else timer_slot k timeout (nxt (k_links k) row_head))"

declare timer_slot.simps [code]

definition rt_timer_start :: "timer_id \<Rightarrow> 'a kernel \<Rightarrow> 'a kernel option" where
  "rt_timer_start tm k =
    do { let k1 = clear_flag RT_TIMER_FLAG_ACTIVATED tm (rt_timer_remove tm k);
         let k2 = on_timer tm (\<lambda>x. x\<lparr>tm_timeout_tick := tick_get k1 + tm_init_tick x\<rparr>) k1;
         row_head \<leftarrow> timer_slot k2 (tm_timeout_tick (k_timer k2 tm)) TimerList;
         let k3 = k2\<lparr>k_random_nr := k_random_nr k2 + 1\<rparr>;
         let k4 = on_links (rt_list_insert_after row_head (Row tm)) k3;
         Some (set_flag RT_TIMER_FLAG_ACTIVATED tm k4) }"

definition rt_timer_stop :: "timer_id \<Rightarrow> 'a kernel \<Rightarrow> u32 \<times> 'a kernel" where
  "rt_timer_stop tm k =
    (if timer_flag tm k AND RT_TIMER_FLAG_ACTIVATED = 0 then (- RT_ERROR, k)
     else (RT_EOK, clear_flag RT_TIMER_FLAG_ACTIVATED tm (rt_timer_remove tm k)))"

datatype timer_cmd = SET_TIME u32 | GET_TIME | SET_ONESHOT | SET_PERIODIC | GET_STATE

text \<open>The second component is what the call stores through its argument, if it does.\<close>

definition rt_timer_control :: "timer_id \<Rightarrow> timer_cmd \<Rightarrow> 'a kernel \<Rightarrow> u32 option \<times> 'a kernel" where
  "rt_timer_control tm cmd k =
    (case cmd of
       GET_TIME \<Rightarrow> (Some (tm_init_tick (k_timer k tm)), k)
     | SET_TIME time \<Rightarrow> (None, on_timer tm (\<lambda>x. x\<lparr>tm_init_tick := time\<rparr>) k)
     | SET_ONESHOT \<Rightarrow> (None, clear_flag RT_TIMER_FLAG_PERIODIC tm k)
     | SET_PERIODIC \<Rightarrow> (None, set_flag RT_TIMER_FLAG_PERIODIC tm k)
     | GET_STATE \<Rightarrow> (Some (if timer_flag tm k AND RT_TIMER_FLAG_ACTIVATED \<noteq> 0 then 1 else 0), k))"

definition rt_timer_next_timeout_tick :: "'a kernel \<Rightarrow> u32 option" where
  "rt_timer_next_timeout_tick k =
    (if rt_list_isempty TimerList (k_links k) then Some RT_TICK_MAX
     else do { t \<leftarrow> timer_of (nxt (k_links k) TimerList); Some (tm_timeout_tick (k_timer k t)) })"

definition rt_system_timer_init :: "'a kernel \<Rightarrow> 'a kernel" where
  "rt_system_timer_init k = on_links (rt_list_init TimerList) k"

end
