(* ===== verification/Rt_Thread.thy ===== *)
theory Rt_Thread
  imports Rt_Sched
begin

text \<open>
  Threads and the clock: \<^verbatim>\<open>src/thread.c\<close>, the timer check of \<^verbatim>\<open>timer.c\<close>, \<^verbatim>\<open>clock.c\<close>, \<^verbatim>\<open>idle.c\<close>, and the
  clock interrupt with the trap entry and exit of the port. The functions of the application that
  the kernel calls (timer callbacks, cleanup functions) are the parameter \<open>cb\<close>.
\<close>

type_synonym 'a callbacks = "nat \<Rightarrow> arg \<Rightarrow> 'a kernel \<Rightarrow> 'a kernel option"

definition thread_stat :: "tid \<Rightarrow> 'a kernel \<Rightarrow> u8" where
  "thread_stat t k = th_stat (k_thread k t) AND RT_THREAD_STAT_MASK"

definition set_stat :: "tid \<Rightarrow> u8 \<Rightarrow> 'a kernel \<Rightarrow> 'a kernel" where
  "set_stat t s = on_thread t (\<lambda>th. th\<lparr>th_stat := s\<rparr>)"

definition set_error :: "tid \<Rightarrow> u32 \<Rightarrow> 'a kernel \<Rightarrow> 'a kernel" where
  "set_error t e = on_thread t (\<lambda>th. th\<lparr>th_error := e\<rparr>)"

section \<open>Suspending and resuming\<close>

definition rt_thread_suspend :: "tid \<Rightarrow> 'a kernel \<Rightarrow> (u32 \<times> 'a kernel) option" where
  "rt_thread_suspend t k =
    (if thread_stat t k \<noteq> RT_THREAD_READY then Some (- RT_ERROR, k)
     else do { k1 \<leftarrow> rt_schedule_remove_thread t k;
               let k2 = on_thread t (\<lambda>th. th\<lparr>th_stat := RT_THREAD_SUSPEND OR (th_stat th AND NOT RT_THREAD_STAT_MASK)\<rparr>) k1;
               Some (RT_EOK, snd (rt_timer_stop (ThreadTimer t) k2)) })"

definition rt_thread_resume :: "tid \<Rightarrow> 'a kernel \<Rightarrow> (u32 \<times> 'a kernel) option" where
  "rt_thread_resume t k =
    (if thread_stat t k \<noteq> RT_THREAD_SUSPEND then Some (- RT_ERROR, k)
     else do { let k1 = on_links (rt_list_remove (Tlist t)) k;
               let k2 = snd (rt_timer_stop (ThreadTimer t) k1);
               k3 \<leftarrow> rt_schedule_insert_thread t k2;
               Some (RT_EOK, k3) })"

definition rt_thread_timeout :: "tid \<Rightarrow> 'a kernel \<Rightarrow> 'a kernel option" where
  "rt_thread_timeout t k =
    do { let k1 = set_error t (- RT_ETIMEOUT) k;
         let k2 = on_links (rt_list_remove (Tlist t)) k1;
         k3 \<leftarrow> rt_schedule_insert_thread t k2;
         rt_schedule k3 }"

section \<open>Starting and ending\<close>

definition thread_init_fields :: "tid \<Rightarrow> char list \<Rightarrow> nat \<Rightarrow> arg \<Rightarrow> u32 \<Rightarrow> u32 \<Rightarrow> u8 \<Rightarrow> u32 \<Rightarrow> 'a kernel \<Rightarrow> 'a kernel option" where
  "thread_init_fields t name entry parameter stack_start stack_size priority tick k =
    do { let k1 = on_links (rt_list_init (Tlist t)) k;
         let k2 = on_thread t (\<lambda>th. th\<lparr>th_entry := entry, th_parameter := parameter,
                    th_stack_addr := stack_start, th_stack_size := stack_size,
                    th_init_priority := priority, th_current_priority := priority, th_number_mask := 0,
                    th_init_tick := tick, th_remaining_tick := tick, th_error := RT_EOK,
                    th_stat := RT_THREAD_INIT, th_cleanup := None\<rparr>) k1;
         let k3 = k2\<lparr>k_sp := (k_sp k2)(t := Ctx t)\<rparr>;
         rt_timer_init (ThreadTimer t) (o_name (k_object k3 (OThread t))) Rt_thread_timeout (ArgThread t)
           0 RT_TIMER_FLAG_ONE_SHOT k3 }"

definition rt_thread_init :: "tid \<Rightarrow> char list \<Rightarrow> nat \<Rightarrow> arg \<Rightarrow> u32 \<Rightarrow> u32 \<Rightarrow> u8 \<Rightarrow> u32 \<Rightarrow> 'a kernel \<Rightarrow> 'a kernel option" where
  "rt_thread_init t name entry parameter stack_start stack_size priority tick k =
    do { k1 \<leftarrow> rt_object_init (OThread t) RT_Object_Class_Thread name k;
         thread_init_fields t name entry parameter stack_start stack_size priority tick k1 }"

definition rt_thread_self :: "'a kernel \<Rightarrow> tid option" where
  "rt_thread_self k = k_current k"

definition priority_mask :: "u8 \<Rightarrow> u32" where
  "priority_mask p = push_bit (unat p) 1"

definition rt_thread_startup :: "tid \<Rightarrow> 'a kernel \<Rightarrow> 'a kernel option" where
  "rt_thread_startup t k =
    do { let k1 = on_thread t (\<lambda>th. th\<lparr>th_current_priority := th_init_priority th\<rparr>) k;
         let k2 = on_thread t (\<lambda>th. th\<lparr>th_number_mask := priority_mask (th_current_priority th)\<rparr>) k1;
         let k3 = set_stat t RT_THREAD_SUSPEND k2;
         (_, k4) \<leftarrow> rt_thread_resume t k3;
         if rt_thread_self k4 \<noteq> None then rt_schedule k4 else Some k4 }"

definition thread_cleanup_execute :: "'a callbacks \<Rightarrow> tid \<Rightarrow> 'a kernel \<Rightarrow> 'a kernel option" where
  "thread_cleanup_execute cb t k =
    (case th_cleanup (k_thread k t) of None \<Rightarrow> Some k | Some f \<Rightarrow> cb f (ArgThread t) k)"

text \<open>The common end of a thread: off the object list, or on the list of dead threads.\<close>

definition thread_retire :: "tid \<Rightarrow> 'a kernel \<Rightarrow> 'a kernel" where
  "thread_retire t k =
    (if rt_object_is_systemobject (OThread t) k then rt_object_detach (OThread t) k
     else on_links (rt_list_insert_after Defunct (Tlist t)) k)"

definition rt_thread_exit :: "'a callbacks \<Rightarrow> 'a kernel \<Rightarrow> 'a kernel option" where
  "rt_thread_exit cb k =
    do { t \<leftarrow> k_current k;
         k1 \<leftarrow> thread_cleanup_execute cb t k;
         k2 \<leftarrow> rt_schedule_remove_thread t k1;
         let k3 = set_stat t RT_THREAD_CLOSE k2;
         let k4 = rt_timer_detach (ThreadTimer t) k3;
         rt_schedule (thread_retire t k4) }"

definition rt_thread_detach :: "'a callbacks \<Rightarrow> tid \<Rightarrow> 'a kernel \<Rightarrow> 'a kernel option" where
  "rt_thread_detach cb t k =
    (if thread_stat t k = RT_THREAD_CLOSE then Some k
     else do { k1 \<leftarrow> (if thread_stat t k \<noteq> RT_THREAD_INIT then rt_schedule_remove_thread t k else Some k);
               k2 \<leftarrow> thread_cleanup_execute cb t k1;
               let k3 = rt_timer_detach (ThreadTimer t) k2;
               Some (thread_retire t (set_stat t RT_THREAD_CLOSE k3)) })"

section \<open>Giving up the processor\<close>

definition rt_thread_yield :: "'a kernel \<Rightarrow> 'a kernel option" where
  "rt_thread_yield k =
    do { t \<leftarrow> k_current k;
         if thread_stat t k = RT_THREAD_READY \<and> nxt (k_links k) (Tlist t) \<noteq> prv (k_links k) (Tlist t)
         then do { let k1 = on_links (rt_list_remove (Tlist t)) k;
                   head \<leftarrow> ready_head (ucast (th_current_priority (k_thread k1 t)));
                   rt_schedule (on_links (rt_list_insert_before head (Tlist t)) k1) }
         else Some k }"

text \<open>The thread is off the ready list, its timer set and running: what every timed wait does.\<close>

definition start_thread_timer :: "tid \<Rightarrow> u32 \<Rightarrow> 'a kernel \<Rightarrow> 'a kernel option" where
  "start_thread_timer t tick k =
    rt_timer_start (ThreadTimer t) (snd (rt_timer_control (ThreadTimer t) (SET_TIME tick) k))"

text \<open>A blocking call stops at its \<^verbatim>\<open>rt_schedule\<close>.\<close>

definition block_in :: "pending \<Rightarrow> tid \<Rightarrow> 'a kernel \<Rightarrow> 'a kernel option" where
  "block_in p t k = rt_schedule (k\<lparr>k_pending := (k_pending k)(t := p)\<rparr>)"

definition rt_thread_sleep :: "u32 \<Rightarrow> 'a kernel \<Rightarrow> 'a kernel option" where
  "rt_thread_sleep tick k =
    do { t \<leftarrow> k_current k;
         (_, k1) \<leftarrow> rt_thread_suspend t k;
         k2 \<leftarrow> start_thread_timer t tick k1;
         block_in P_sleep t k2 }"

definition rt_thread_delay :: "u32 \<Rightarrow> 'a kernel \<Rightarrow> 'a kernel option" where
  "rt_thread_delay tick k = rt_thread_sleep tick k"

text \<open>The rest of the body, once the thread runs again.\<close>

definition clear_timeout_error :: "tid \<Rightarrow> 'a kernel \<Rightarrow> 'a kernel" where
  "clear_timeout_error t k = (if th_error (k_thread k t) = - RT_ETIMEOUT then set_error t RT_EOK k else k)"

definition rt_thread_sleep_rest :: "tid \<Rightarrow> 'a kernel \<Rightarrow> u32 \<times> 'a kernel" where
  "rt_thread_sleep_rest t k = (RT_EOK, clear_timeout_error t k)"

text \<open>
  \<^verbatim>\<open>rt_thread_delay_until\<close> stores through its pointer at the end: the wake-up tick. \<open>Inl\<close> is a call
  that returned at once, with that tick; \<open>Inr\<close> one that waits.
\<close>

definition rt_thread_delay_until :: "u32 \<Rightarrow> u32 \<Rightarrow> 'a kernel \<Rightarrow> (u32 \<times> 'a kernel + 'a kernel) option" where
  "rt_thread_delay_until tick inc_tick k =
    do { t \<leftarrow> rt_thread_self k;
         if tick_get k - tick < inc_tick
         then do { let left = tick + inc_tick - tick_get k;
                   (_, k1) \<leftarrow> rt_thread_suspend t k;
                   k2 \<leftarrow> start_thread_timer t left k1;
                   k3 \<leftarrow> block_in P_delay_until t k2;
                   Some (Inr k3) }
         else Some (Inl (tick_get k, k)) }"

definition rt_thread_delay_until_rest :: "tid \<Rightarrow> 'a kernel \<Rightarrow> u32 \<times> 'a kernel" where
  "rt_thread_delay_until_rest t k = (let k1 = clear_timeout_error t k in (tick_get k1, k1))"

definition rt_tick_from_millisecond :: "u32 \<Rightarrow> u32" where
  "rt_tick_from_millisecond ms =
    (if ms <s 0 then RT_WAITING_FOREVER
     else RT_TICK_PER_SECOND * (ms div 1000) + (RT_TICK_PER_SECOND * (ms mod 1000) + 999) div 1000)"

definition rt_thread_mdelay :: "u32 \<Rightarrow> 'a kernel \<Rightarrow> 'a kernel option" where
  "rt_thread_mdelay ms k = rt_thread_sleep (rt_tick_from_millisecond ms) k"

section \<open>Controlling\<close>

datatype thread_cmd = CHANGE_PRIORITY u8 | STARTUP | CLOSE | OTHER

definition set_priority :: "tid \<Rightarrow> u8 \<Rightarrow> 'a kernel \<Rightarrow> 'a kernel" where
  "set_priority t p = on_thread t (\<lambda>th. th\<lparr>th_current_priority := p, th_number_mask := priority_mask p\<rparr>)"

definition rt_thread_control :: "'a callbacks \<Rightarrow> tid \<Rightarrow> thread_cmd \<Rightarrow> 'a kernel \<Rightarrow> 'a kernel option" where
  "rt_thread_control cb t cmd k =
    (case cmd of
       CHANGE_PRIORITY p \<Rightarrow>
         if thread_stat t k = RT_THREAD_READY
         then do { k1 \<leftarrow> rt_schedule_remove_thread t k;
                   rt_schedule_insert_thread t (set_priority t p k1) }
         else Some (set_priority t p k)
     | STARTUP \<Rightarrow> rt_thread_startup t k
     | CLOSE \<Rightarrow> if rt_object_is_systemobject (OThread t) k then rt_thread_detach cb t k else Some k
     | OTHER \<Rightarrow> Some k)"

section \<open>The clock\<close>

fun call_timeout :: "'a callbacks \<Rightarrow> timer_func \<Rightarrow> arg \<Rightarrow> 'a kernel \<Rightarrow> 'a kernel option" where
  "call_timeout cb Rt_thread_timeout (ArgThread t) k = rt_thread_timeout t k"
| "call_timeout cb Rt_thread_timeout (Arg _) k = None"
| "call_timeout cb (AppFunc f) a k = cb f a k"

text \<open>One expired timer: taken off, run, and started again if it is periodic.\<close>

definition timer_fire :: "'a callbacks \<Rightarrow> timer_id \<Rightarrow> 'a kernel \<Rightarrow> 'a kernel option" where
  "timer_fire cb t k =
    do { let k1 = rt_timer_remove t k;
         let k2 = (if timer_flag t k1 AND RT_TIMER_FLAG_PERIODIC = 0
                   then clear_flag RT_TIMER_FLAG_ACTIVATED t k1 else k1);
         let k3 = on_links (rt_list_insert_after Expired (Row t)) k2;
         k4 \<leftarrow> call_timeout cb (tm_func (k_timer k3 t)) (tm_parameter (k_timer k3 t)) k3;
         if rt_list_isempty Expired (k_links k4) then Some k4
         else do {
           let k5 = rt_timer_remove t k4;
           if timer_flag t k5 AND RT_TIMER_FLAG_PERIODIC \<noteq> 0 \<and> timer_flag t k5 AND RT_TIMER_FLAG_ACTIVATED \<noteq> 0
           then rt_timer_start t (clear_flag RT_TIMER_FLAG_ACTIVATED t k5)
           else Some k5 } }"

text \<open>
  The tick is read again after every callback. A periodic timer of zero ticks expires again at
  once, so the loop may not end.
\<close>

partial_function (option) timer_check_loop :: "'a callbacks \<Rightarrow> u32 \<Rightarrow> 'a kernel \<Rightarrow> 'a kernel option" where
  "timer_check_loop cb current_tick k =
    (if rt_list_isempty TimerList (k_links k) then Some k
     else Option.bind (timer_of (nxt (k_links k) TimerList)) (\<lambda>t.
       if current_tick - tm_timeout_tick (k_timer k t) < RT_TICK_MAX div 2
       then Option.bind (timer_fire cb t k) (\<lambda>k'. timer_check_loop cb (tick_get k') k')
       else Some k))"

declare timer_check_loop.simps [code]

definition rt_timer_check :: "'a callbacks \<Rightarrow> 'a kernel \<Rightarrow> 'a kernel option" where
  "rt_timer_check cb k =
    (let k1 = on_links (rt_list_init Expired) k in timer_check_loop cb (tick_get k1) k1)"

definition rt_tick_increase :: "'a callbacks \<Rightarrow> 'a kernel \<Rightarrow> 'a kernel option" where
  "rt_tick_increase cb k =
    do { let k1 = k\<lparr>k_tick := k_tick k + 1\<rparr>;
         t \<leftarrow> rt_thread_self k1;
         let k2 = on_thread t (\<lambda>th. th\<lparr>th_remaining_tick := th_remaining_tick th - 1\<rparr>) k1;
         k3 \<leftarrow> (if th_remaining_tick (k_thread k2 t) = 0
               then rt_thread_yield (on_thread t (\<lambda>th. th\<lparr>th_remaining_tick := th_init_tick th\<rparr>) k2)
               else Some k2);
         rt_timer_check cb k3 }"

text \<open>
  The clock interrupt: the trap entry sets the nesting counter to one, the exit copies the frame of
  the interrupted computation to the thread recorded in \<open>k_from\<close> if a switch was asked for, loads the
  one of \<open>k_to\<close>, and clears the counter.
\<close>

definition trap_entry :: "'a kernel \<Rightarrow> 'a kernel" where
  "trap_entry k = k\<lparr>k_interrupt_nest := 1\<rparr>"

definition trap_exit :: "'a kernel \<Rightarrow> 'a kernel option" where
  "trap_exit k =
    (if k_switch_flag k
     then do { from \<leftarrow> k_from k; to \<leftarrow> k_to k;
               let k1 = k\<lparr>k_switch_flag := False, k_sp := (k_sp k)(from := k_cpu k)\<rparr>;
               Some (k1\<lparr>k_cpu := k_sp k1 to, k_interrupt_nest := 0\<rparr>) }
     else Some (k\<lparr>k_interrupt_nest := 0\<rparr>))"

definition rt_os_tick_callback :: "'a callbacks \<Rightarrow> 'a kernel \<Rightarrow> 'a kernel option" where
  "rt_os_tick_callback cb k = rt_tick_increase cb k"

definition clock_interrupt :: "'a callbacks \<Rightarrow> 'a kernel \<Rightarrow> 'a kernel option" where
  "clock_interrupt cb k = do { k1 \<leftarrow> rt_os_tick_callback cb (trap_entry k); trap_exit k1 }"

end
