(* ===== verification/Rt_Ipc.thy ===== *)
theory Rt_Ipc
  imports Rt_Thread
begin

text \<open>
  Semaphores and mailboxes (\<^verbatim>\<open>src/ipc.c\<close>), the continuation of blocked calls, and the start-up of the
  kernel (\<^verbatim>\<open>components.c\<close>, \<^verbatim>\<open>idle.c\<close>). A call that may wait returns \<open>(Some answer, k)\<close> when it is over
  and \<open>(None, k)\<close> when its thread is suspended in it; \<open>run_pending\<close> is the rest of such a call.
\<close>

datatype answer = Err u32 | Mail u32 | Woken u32

section \<open>Queues of waiting threads\<close>

definition comes_before :: "tid \<Rightarrow> 'a kernel \<Rightarrow> node \<Rightarrow> bool" where
  "comes_before t k n = (case thread_of n of None \<Rightarrow> False
     | Some s \<Rightarrow> th_current_priority (k_thread k t) < th_current_priority (k_thread k s))"

definition rt_ipc_object_init :: "node \<Rightarrow> 'a kernel \<Rightarrow> 'a kernel" where
  "rt_ipc_object_init queue k = on_links (rt_list_init queue) k"

definition rt_ipc_list_suspend :: "node \<Rightarrow> tid \<Rightarrow> u8 \<Rightarrow> 'a kernel \<Rightarrow> 'a kernel option" where
  "rt_ipc_list_suspend queue t flag k =
    do { (_, k1) \<leftarrow> rt_thread_suspend t k;
         if flag = RT_IPC_FLAG_FIFO then Some (on_links (rt_list_insert_before queue (Tlist t)) k1)
         else if flag = RT_IPC_FLAG_PRIO
         then do { n \<leftarrow> rt_list_seek (k_links k1) (comes_before t k1) queue (nxt (k_links k1) queue);
                   Some (on_links (rt_list_insert_before n (Tlist t)) k1) }
         else Some k1 }"

definition rt_ipc_list_resume :: "node \<Rightarrow> 'a kernel \<Rightarrow> 'a kernel option" where
  "rt_ipc_list_resume queue k =
    do { t \<leftarrow> thread_of (nxt (k_links k) queue);
         (_, k1) \<leftarrow> rt_thread_resume t k;
         Some k1 }"

partial_function (option) rt_ipc_list_resume_all :: "node \<Rightarrow> 'a kernel \<Rightarrow> 'a kernel option" where
  "rt_ipc_list_resume_all queue k =
    (if rt_list_isempty queue (k_links k) then Some k
     else Option.bind (thread_of (nxt (k_links k) queue)) (\<lambda>t.
       Option.bind (rt_thread_resume t (set_error t (- RT_ERROR) k)) (\<lambda>(_, k1).
         rt_ipc_list_resume_all queue k1)))"

declare rt_ipc_list_resume_all.simps [code]

text \<open>Waiting for a while, or forever: the timer is set for a positive time only.\<close>

definition wait_timer :: "tid \<Rightarrow> u32 \<Rightarrow> 'a kernel \<Rightarrow> 'a kernel option" where
  "wait_timer t time k = (if 0 <s time then start_thread_timer t time k else Some k)"

section \<open>Semaphores\<close>

definition on_sem :: "nat \<Rightarrow> (u16 \<Rightarrow> u16) \<Rightarrow> 'a kernel \<Rightarrow> 'a kernel" where
  "on_sem s f k = k\<lparr>k_sem := (k_sem k)(s := (k_sem k s)\<lparr>sem_value := f (sem_value (k_sem k s))\<rparr>)\<rparr>"

definition rt_sem_init :: "nat \<Rightarrow> char list \<Rightarrow> u32 \<Rightarrow> u8 \<Rightarrow> 'a kernel \<Rightarrow> 'a kernel option" where
  "rt_sem_init s name value flag k =
    do { k1 \<leftarrow> rt_object_init (OSem s) RT_Object_Class_Semaphore name k;
         let k2 = rt_ipc_object_init (SemWait s) k1;
         let k3 = on_sem s (\<lambda>_. ucast value) k2;
         Some (on_object (OSem s) (\<lambda>x. x\<lparr>o_flag := flag\<rparr>) k3) }"

definition rt_sem_detach :: "nat \<Rightarrow> 'a kernel \<Rightarrow> 'a kernel option" where
  "rt_sem_detach s k =
    do { k1 \<leftarrow> rt_ipc_list_resume_all (SemWait s) k;
         Some (rt_object_detach (OSem s) k1) }"

definition rt_sem_take :: "nat \<Rightarrow> u32 \<Rightarrow> 'a kernel \<Rightarrow> (answer option \<times> 'a kernel) option" where
  "rt_sem_take s time k =
    (if sem_value (k_sem k s) > 0 then Some (Some (Err RT_EOK), on_sem s (\<lambda>v. v - 1) k)
     else if time = 0 then Some (Some (Err (- RT_ETIMEOUT)), k)
     else do { t \<leftarrow> rt_thread_self k;
               let k1 = set_error t RT_EOK k;
               k2 \<leftarrow> rt_ipc_list_suspend (SemWait s) t (o_flag (k_object k1 (OSem s))) k1;
               k3 \<leftarrow> wait_timer t time k2;
               k4 \<leftarrow> block_in P_sem_take t k3;
               Some (None, k4) })"

definition rt_sem_take_rest :: "tid \<Rightarrow> 'a kernel \<Rightarrow> answer" where
  "rt_sem_take_rest t k =
    (if th_error (k_thread k t) \<noteq> RT_EOK then Err (th_error (k_thread k t)) else Err RT_EOK)"

definition rt_sem_trytake :: "nat \<Rightarrow> 'a kernel \<Rightarrow> (answer option \<times> 'a kernel) option" where
  "rt_sem_trytake s k = rt_sem_take s 0 k"

definition rt_sem_release :: "nat \<Rightarrow> 'a kernel \<Rightarrow> (u32 \<times> 'a kernel) option" where
  "rt_sem_release s k =
    (if \<not> rt_list_isempty (SemWait s) (k_links k)
     then do { k1 \<leftarrow> rt_ipc_list_resume (SemWait s) k;
               k2 \<leftarrow> rt_schedule k1;
               Some (RT_EOK, k2) }
     else if sem_value (k_sem k s) < RT_SEM_VALUE_MAX then Some (RT_EOK, on_sem s (\<lambda>v. v + 1) k)
     else Some (- RT_EFULL, k))"

text \<open>The argument is the command's own: only a reset, with the new value, does anything.\<close>

definition rt_sem_control :: "nat \<Rightarrow> u32 option \<Rightarrow> 'a kernel \<Rightarrow> (u32 \<times> 'a kernel) option" where
  "rt_sem_control s reset k =
    (case reset of
       None \<Rightarrow> Some (- RT_ERROR, k)
     | Some value \<Rightarrow>
         do { k1 \<leftarrow> rt_ipc_list_resume_all (SemWait s) k;
              k2 \<leftarrow> rt_schedule (on_sem s (\<lambda>_. ucast value) k1);
              Some (RT_EOK, k2) })"

section \<open>Mailboxes\<close>

definition on_mb :: "nat \<Rightarrow> (rt_mailbox \<Rightarrow> rt_mailbox) \<Rightarrow> 'a kernel \<Rightarrow> 'a kernel" where
  "on_mb m f k = k\<lparr>k_mb := (k_mb k)(m := f (k_mb k m))\<rparr>"

definition mb_empty :: "rt_mailbox \<Rightarrow> rt_mailbox" where
  "mb_empty mb = mb\<lparr>mb_entry := 0, mb_in_offset := 0, mb_out_offset := 0\<rparr>"

definition rt_mb_init :: "nat \<Rightarrow> char list \<Rightarrow> u32 list \<Rightarrow> u32 \<Rightarrow> u8 \<Rightarrow> 'a kernel \<Rightarrow> 'a kernel option" where
  "rt_mb_init m name msgpool pool_size flag k =
    do { k1 \<leftarrow> rt_object_init (OMb m) RT_Object_Class_MailBox name k;
         let k2 = on_object (OMb m) (\<lambda>x. x\<lparr>o_flag := flag\<rparr>) k1;
         let k3 = rt_ipc_object_init (MbWait m) k2;
         let k4 = on_mb m (\<lambda>mb. mb_empty (mb\<lparr>mb_pool := msgpool, mb_size := ucast pool_size\<rparr>)) k3;
         Some (on_links (rt_list_init (MbSenders m)) k4) }"

definition rt_mb_detach :: "nat \<Rightarrow> 'a kernel \<Rightarrow> 'a kernel option" where
  "rt_mb_detach m k =
    do { k1 \<leftarrow> rt_ipc_list_resume_all (MbWait m) k;
         k2 \<leftarrow> rt_ipc_list_resume_all (MbSenders m) k1;
         Some (rt_object_detach (OMb m) k2) }"

text \<open>The ring buffer: the value stored and the offset moved, before the count is looked at.\<close>

definition step_offset :: "u16 \<Rightarrow> u16 \<Rightarrow> u16" where
  "step_offset offset mb_sz = (let o1 = offset + 1 in if o1 \<ge> mb_sz then 0 else o1)"

definition mb_store :: "u32 \<Rightarrow> rt_mailbox \<Rightarrow> rt_mailbox option" where
  "mb_store value mb =
    (if unat (mb_in_offset mb) < length (mb_pool mb)
     then Some (mb\<lparr>mb_pool := (mb_pool mb)[unat (mb_in_offset mb) := value],
                   mb_in_offset := step_offset (mb_in_offset mb) (mb_size mb)\<rparr>)
     else None)"

definition mb_fetch :: "rt_mailbox \<Rightarrow> (u32 \<times> rt_mailbox) option" where
  "mb_fetch mb =
    (if unat (mb_out_offset mb) < length (mb_pool mb)
     then Some (mb_pool mb ! unat (mb_out_offset mb),
                mb\<lparr>mb_out_offset := step_offset (mb_out_offset mb) (mb_size mb),
                   mb_entry := (if mb_entry mb > 0 then mb_entry mb - 1 else mb_entry mb)\<rparr>)
     else None)"

definition mb_send_tail :: "nat \<Rightarrow> u32 \<Rightarrow> 'a kernel \<Rightarrow> (answer option \<times> 'a kernel) option" where
  "mb_send_tail m value k =
    do { mb \<leftarrow> mb_store value (k_mb k m);
         let k1 = on_mb m (\<lambda>_. mb) k;
         if mb_entry mb < RT_MB_ENTRY_MAX
         then do { let k2 = on_mb m (\<lambda>mb. mb\<lparr>mb_entry := mb_entry mb + 1\<rparr>) k1;
                   if \<not> rt_list_isempty (MbWait m) (k_links k2)
                   then do { k3 \<leftarrow> rt_ipc_list_resume (MbWait m) k2;
                             k4 \<leftarrow> rt_schedule k3;
                             Some (Some (Err RT_EOK), k4) }
                   else Some (Some (Err RT_EOK), k2) }
         else Some (Some (Err (- RT_EFULL)), k1) }"

definition mb_send_loop :: "nat \<Rightarrow> u32 \<Rightarrow> u32 \<Rightarrow> u32 \<Rightarrow> 'a kernel \<Rightarrow> (answer option \<times> 'a kernel) option" where
  "mb_send_loop m value timeout tick_delta k =
    (if mb_entry (k_mb k m) = mb_size (k_mb k m)
     then do { t \<leftarrow> rt_thread_self k;
               let k1 = set_error t RT_EOK k;
               if timeout = 0 then Some (Some (Err (- RT_EFULL)), k1)
               else do { k2 \<leftarrow> rt_ipc_list_suspend (MbSenders m) t (o_flag (k_object k1 (OMb m))) k1;
                         k3 \<leftarrow> wait_timer t timeout k2;
                         let start = (if 0 <s timeout then tick_get k2 else tick_delta);
                         k4 \<leftarrow> block_in (P_mb_send m value timeout start) t k3;
                         Some (None, k4) } }
     else mb_send_tail m value k)"

definition rt_mb_send_wait :: "nat \<Rightarrow> u32 \<Rightarrow> u32 \<Rightarrow> 'a kernel \<Rightarrow> (answer option \<times> 'a kernel) option" where
  "rt_mb_send_wait m value timeout k =
    (if mb_entry (k_mb k m) = mb_size (k_mb k m) \<and> timeout = 0 then Some (Some (Err (- RT_EFULL)), k)
     else mb_send_loop m value timeout 0 k)"

definition rt_mb_send :: "nat \<Rightarrow> u32 \<Rightarrow> 'a kernel \<Rightarrow> (answer option \<times> 'a kernel) option" where
  "rt_mb_send m value k = rt_mb_send_wait m value 0 k"

text \<open>What is left of a timeout after the wait that began at \<open>start\<close>.\<close>

definition time_left :: "u32 \<Rightarrow> u32 \<Rightarrow> 'a kernel \<Rightarrow> u32" where
  "time_left timeout start k =
    (if 0 <s timeout then (let left = timeout - (tick_get k - start) in if left <s 0 then 0 else left) else timeout)"

definition rt_mb_send_rest :: "tid \<Rightarrow> nat \<Rightarrow> u32 \<Rightarrow> u32 \<Rightarrow> u32 \<Rightarrow> 'a kernel \<Rightarrow> (answer option \<times> 'a kernel) option" where
  "rt_mb_send_rest t m value timeout start k =
    (if th_error (k_thread k t) \<noteq> RT_EOK then Some (Some (Err (th_error (k_thread k t))), k)
     else mb_send_loop m value (time_left timeout start k) (tick_get k - start) k)"

definition mb_recv_tail :: "nat \<Rightarrow> 'a kernel \<Rightarrow> (answer option \<times> 'a kernel) option" where
  "mb_recv_tail m k =
    do { (value, mb) \<leftarrow> mb_fetch (k_mb k m);
         let k1 = on_mb m (\<lambda>_. mb) k;
         if \<not> rt_list_isempty (MbSenders m) (k_links k1)
         then do { k2 \<leftarrow> rt_ipc_list_resume (MbSenders m) k1;
                   k3 \<leftarrow> rt_schedule k2;
                   Some (Some (Mail value), k3) }
         else Some (Some (Mail value), k1) }"

definition mb_recv_loop :: "nat \<Rightarrow> u32 \<Rightarrow> u32 \<Rightarrow> 'a kernel \<Rightarrow> (answer option \<times> 'a kernel) option" where
  "mb_recv_loop m timeout tick_delta k =
    (if mb_entry (k_mb k m) = 0
     then do { t \<leftarrow> rt_thread_self k;
               let k1 = set_error t RT_EOK k;
               if timeout = 0 then Some (Some (Err (- RT_ETIMEOUT)), set_error t (- RT_ETIMEOUT) k1)
               else do { k2 \<leftarrow> rt_ipc_list_suspend (MbWait m) t (o_flag (k_object k1 (OMb m))) k1;
                         k3 \<leftarrow> wait_timer t timeout k2;
                         let start = (if 0 <s timeout then tick_get k2 else tick_delta);
                         k4 \<leftarrow> block_in (P_mb_recv m timeout start) t k3;
                         Some (None, k4) } }
     else mb_recv_tail m k)"

definition rt_mb_recv :: "nat \<Rightarrow> u32 \<Rightarrow> 'a kernel \<Rightarrow> (answer option \<times> 'a kernel) option" where
  "rt_mb_recv m timeout k =
    (if mb_entry (k_mb k m) = 0 \<and> timeout = 0 then Some (Some (Err (- RT_ETIMEOUT)), k)
     else mb_recv_loop m timeout 0 k)"

definition rt_mb_recv_rest :: "tid \<Rightarrow> nat \<Rightarrow> u32 \<Rightarrow> u32 \<Rightarrow> 'a kernel \<Rightarrow> (answer option \<times> 'a kernel) option" where
  "rt_mb_recv_rest t m timeout start k =
    (if th_error (k_thread k t) \<noteq> RT_EOK then Some (Some (Err (th_error (k_thread k t))), k)
     else mb_recv_loop m (time_left timeout start k) (tick_get k - start) k)"

definition rt_mb_control :: "nat \<Rightarrow> bool \<Rightarrow> 'a kernel \<Rightarrow> (u32 \<times> 'a kernel) option" where
  "rt_mb_control m reset k =
    (if reset
     then do { k1 \<leftarrow> rt_ipc_list_resume_all (MbWait m) k;
               k2 \<leftarrow> rt_ipc_list_resume_all (MbSenders m) k1;
               k3 \<leftarrow> rt_schedule (on_mb m mb_empty k2);
               Some (RT_EOK, k3) }
     else Some (- RT_ERROR, k))"

section \<open>Going on after a wait\<close>

text \<open>The current thread has the processor again and leaves \<^verbatim>\<open>rt_schedule\<close>.\<close>

definition run_pending :: "'a kernel \<Rightarrow> (answer option \<times> 'a kernel) option" where
  "run_pending k =
    do { t \<leftarrow> k_current k;
         let k1 = k\<lparr>k_pending := (k_pending k)(t := No_pending)\<rparr>;
         case k_pending k t of
           No_pending \<Rightarrow> Some (None, k)
         | P_sleep \<Rightarrow> (let (r, k2) = rt_thread_sleep_rest t k1 in Some (Some (Err r), k2))
         | P_delay_until \<Rightarrow> (let (r, k2) = rt_thread_delay_until_rest t k1 in Some (Some (Woken r), k2))
         | P_sem_take \<Rightarrow> Some (Some (rt_sem_take_rest t k1), k1)
         | P_mb_send m value timeout start \<Rightarrow> rt_mb_send_rest t m value timeout start k1
         | P_mb_recv m timeout start \<Rightarrow> rt_mb_recv_rest t m timeout start k1 }"

section \<open>Starting the kernel\<close>

text \<open>
  The two static threads: the main thread and the idle thread. The board's own initialisation
  functions are empty. Stack addresses are wherever the linker put the arrays.
\<close>

definition main_tid :: tid where "main_tid = 0"
definition idle_tid :: tid where "idle_tid = 1"

definition RT_MAIN_THREAD_PRIORITY :: u8 where
  "RT_MAIN_THREAD_PRIORITY = of_nat (RT_THREAD_PRIORITY_MAX div 3)"

definition rt_thread_idle_init :: "u32 \<Rightarrow> 'a kernel \<Rightarrow> 'a kernel option" where
  "rt_thread_idle_init stack k =
    do { k1 \<leftarrow> rt_thread_init idle_tid ''tidle'' 1 (Arg 0) stack 256 (of_nat (RT_THREAD_PRIORITY_MAX - 1)) 32 k;
         rt_thread_startup idle_tid k1 }"

definition rt_application_init :: "u32 \<Rightarrow> 'a kernel \<Rightarrow> 'a kernel option" where
  "rt_application_init stack k =
    do { k1 \<leftarrow> rt_thread_init main_tid ''main'' 0 (Arg 0) stack 1024 RT_MAIN_THREAD_PRIORITY 20 k;
         rt_thread_startup main_tid k1 }"

definition rtthread_startup :: "u32 \<Rightarrow> u32 \<Rightarrow> 'a kernel \<Rightarrow> 'a kernel option" where
  "rtthread_startup main_stack idle_stack k =
    do { let k1 = rt_system_timer_init k;
         let k2 = rt_system_scheduler_init k1;
         k3 \<leftarrow> rt_application_init main_stack k2;
         k4 \<leftarrow> rt_thread_idle_init idle_stack k3;
         rt_system_scheduler_start k4 }"

text \<open>
  Memory when the kernel starts: everything is zero, which is the null pointer for a link, except the
  object containers, whose list heads the initialiser of the table points to themselves. A link is
  only followed after its node has been initialised, so what a null link points to is left open.
\<close>

definition initial_links :: "node \<Rightarrow> node links" where
  "initial_links null = fold (\<lambda>i. rt_list_init (ObjList i)) [0..<4] \<lparr>nxt = \<lambda>_. null, prv = \<lambda>_. null\<rparr>"

definition blank_object :: rt_object where
  "blank_object = \<lparr>o_name = replicate 8 NUL, o_type = 0, o_flag = 0\<rparr>"

definition blank_thread :: rt_thread where
  "blank_thread = \<lparr>th_entry = 0, th_parameter = Arg 0, th_stack_addr = 0, th_stack_size = 0, th_error = 0,
     th_stat = 0, th_current_priority = 0, th_init_priority = 0, th_number_mask = 0, th_init_tick = 0,
     th_remaining_tick = 0, th_cleanup = None\<rparr>"

definition initial_kernel :: "node \<Rightarrow> 'a \<Rightarrow> 'a kernel" where
  "initial_kernel null app =
    \<lparr>k_links = initial_links null, k_object = \<lambda>_. blank_object, k_thread = \<lambda>_. blank_thread,
     k_timer = \<lambda>_. \<lparr>tm_func = AppFunc 0, tm_parameter = Arg 0, tm_init_tick = 0, tm_timeout_tick = 0\<rparr>,
     k_sem = \<lambda>_. \<lparr>sem_value = 0\<rparr>,
     k_mb = \<lambda>_. \<lparr>mb_pool = [], mb_size = 0, mb_entry = 0, mb_in_offset = 0, mb_out_offset = 0\<rparr>,
     k_group = 0, k_lock_nest = 0, k_current = None, k_priority = 0, k_interrupt_nest = 0, k_tick = 0,
     k_random_nr = 0, k_cpu = Boot, k_sp = \<lambda>_. Boot, k_from = None, k_to = None, k_switch_flag = False,
     k_pending = \<lambda>_. No_pending, k_app = app\<rparr>"

end
