(* ===== verification/Rt_Bitmap.thy ===== *)
theory Rt_Bitmap
  imports Rt_Kernel
begin

text \<open>
  The bitmap search of \<^verbatim>\<open>src/kservice.c\<close>: a table of 256 entries, used a byte at a time, finds the
  lowest set bit of every nonzero word.
\<close>

text \<open>\<open>b\<close> is the position of the lowest set bit.\<close>

definition lowest_set :: "u32 \<Rightarrow> nat \<Rightarrow> bool" where
  "lowest_set v b = (bit v b \<and> (\<forall>j<b. \<not> bit v j))"

lemma lowest_bit_table:
  "list_all2 (\<lambda>i b. b < 8 \<and> i mod 2 ^ (b + 1) = 2 ^ b) [2..<256] (drop 2 (map unat lowest_bit_bitmap))"
  by (simp add: lowest_bit_bitmap_def upt_rec_numeral)

lemma mod_lowest:
  fixes i :: nat assumes "i mod 2 ^ (b + 1) = 2 ^ b" shows "bit i b \<and> (\<forall>j<b. \<not> bit i j)"
proof -
  have t: "take_bit (b + 1) i = 2 ^ b" using assms by (simp add: take_bit_eq_mod)
  have "bit i j = bit (take_bit (b + 1) i) j" if "j \<le> b" for j using that by (simp add: bit_take_bit_iff)
  then show ?thesis unfolding t by (auto simp: bit_exp_iff)
qed

lemma lowest_bit_byte:
  assumes "unat b < 256" "b \<noteq> 0"
  shows "unat (lowest_bit b) < 8 \<and> lowest_set b (unat (lowest_bit b))"
proof -
  define l where "l = unat (lowest_bit_bitmap ! unat b)"
  have len: "length lowest_bit_bitmap = 256" by (simp add: lowest_bit_bitmap_def)
  have "l < 8 \<and> unat b mod 2 ^ (l + 1) = 2 ^ l"
  proof (cases "unat b = 1")
    case True
    have "lowest_bit_bitmap ! 1 = 0" by (simp add: lowest_bit_bitmap_def)
    with True show ?thesis by (simp add: l_def)
  next
    case False
    have "unat b \<noteq> 0" using assms(2) by (simp add: unat_eq_zero)
    then have b: "unat b \<ge> 2" using False by linarith
    have 1: "unat b - 2 < length [2..<256::nat]" unfolding length_upt using b assms(1) by linarith
    have 2: "[2..<256] ! (unat b - 2) = unat b" by (subst nth_upt) (use b assms(1) in linarith)+
    have 3: "drop 2 (map unat lowest_bit_bitmap) ! (unat b - 2) = l"
      using b assms(1) len by (simp add: l_def le_add_diff_inverse del: add_2_eq_Suc add_2_eq_Suc')
    show ?thesis using list_all2_nthD [OF lowest_bit_table 1] unfolding 2 3 by simp
  qed
  then have l: "l < 8" and m: "unat b mod 2 ^ (l + 1) = 2 ^ l" by auto
  have "lowest_set b l"
    using mod_lowest [OF m] by (simp add: lowest_set_def bit_unsigned_iff)
  moreover have "unat (lowest_bit b) = l"
    using l by (simp add: lowest_bit_def l_def unsigned_ucast_eq take_bit_nat_eq_self)
  ultimately show ?thesis using l by simp
qed

lemma lowest_set_part:
  assumes n: "n \<le> 24" and part: "drop_bit n (v AND push_bit n (mask 8)) \<noteq> 0"
    and low: "\<And>j. j < n \<Longrightarrow> \<not> bit v j"
  shows "lowest_set v (n + unat (lowest_bit (drop_bit n (v AND push_bit n (mask 8))))) \<and>
    unat (lowest_bit (drop_bit n (v AND push_bit n (mask 8)))) < 8"
proof -
  let ?b = "drop_bit n (v AND push_bit n (mask 8)) :: u32"
  have bits: "bit ?b j \<longleftrightarrow> j < 8 \<and> bit v (n + j)" for j
    using n by (auto simp: bit_drop_bit_eq bit_and_iff bit_push_bit_iff dest: bit_imp_le_length)
  have "?b = take_bit 8 ?b"
    by (rule bit_eqI) (use bits in \<open>auto simp: bit_take_bit_iff simp del: drop_bit_and take_bit_and\<close>)
  then have "unat ?b = take_bit 8 (unat ?b)" by (metis unsigned_take_bit_eq)
  moreover have "take_bit 8 (unat ?b) < 2 ^ 8" by (rule take_bit_nat_less_exp)
  ultimately have "unat ?b < 256" by simp
  from lowest_bit_byte [OF this part]
  have l: "unat (lowest_bit ?b) < 8" "lowest_set ?b (unat (lowest_bit ?b))" by auto
  have "\<not> bit v j" if j: "j < n + unat (lowest_bit ?b)" for j
  proof (cases "j < n")
    case False
    then obtain i where i: "j = n + i" by (metis le_iff_add not_less)
    then have "i < unat (lowest_bit ?b)" using j by simp
    with l bits [of i] i show ?thesis by (auto simp: lowest_set_def)
  qed (rule low)
  with l bits show ?thesis by (auto simp: lowest_set_def)
qed

lemma part_zero:
  assumes "v AND push_bit n (mask 8) = (0 :: u32)" "n \<le> j" "j < n + 8" shows "\<not> bit v j"
proof
  assume b: "bit v j"
  then have "j < 32" using bit_imp_le_length by fastforce
  then have "bit (v AND push_bit n (mask 8)) j"
    using b assms(2,3) by (auto simp: bit_and_iff bit_push_bit_iff less_diff_conv2)
  with assms(1) show False by simp
qed

lemma part_nonzero:
  assumes "v AND push_bit n (mask 8) \<noteq> (0 :: u32)" shows "drop_bit n (v AND push_bit n (mask 8)) \<noteq> 0"
proof -
  obtain j where j: "bit (v AND push_bit n (mask 8)) j" using assms by (metis bit_eq_iff bit_0_eq bot_apply bot_bool_def)
  then have "n \<le> j" by (simp add: bit_and_iff bit_push_bit_iff)
  with j have "bit (drop_bit n (v AND push_bit n (mask 8))) (j - n)"
    by (simp add: bit_drop_bit_eq del: drop_bit_and)
  then show ?thesis by auto
qed

lemma unat_byte_add:
  assumes "unat x < 8" "n \<le> 24"
  shows "unat (x + of_nat (n + 1) - 1) = n + unat x \<and> x + of_nat (n + 1) \<noteq> (0 :: u32)"
proof -
  have "unat (x + of_nat m) = unat x + m" if "m \<le> 25" for m
    using that assms(1) by (simp add: unat_word_ariths unat_of_nat)
  from this [of n] this [of "n + 1"] assms(2) show ?thesis by auto
qed

text \<open>For every nonzero word the search returns one more than the position of the lowest set bit.\<close>

lemma rt_ffs_lowest:
  assumes v: "v \<noteq> 0"
  shows "lowest_set v (unat (rt_ffs v - 1)) \<and> rt_ffs v \<noteq> 0"
proof -
  have "(0xff :: u32) = mask 8" by (simp add: mask_eq_exp_minus_1)
  then have m: "(0xff :: u32) = push_bit 0 (mask 8)" "(0xff00 :: u32) = push_bit 8 (mask 8)"
    "(0xff0000 :: u32) = push_bit 16 (mask 8)" "(0xff000000 :: u32) = push_bit 24 (mask 8)"
    by (simp_all add: push_bit_eq_mult mask_eq_exp_minus_1)
  define part where "part n = drop_bit n (v AND push_bit n (mask 8))" for n
  have res: ?thesis if "rt_ffs v = lowest_bit (part n) + of_nat (n + 1)" "n \<le> 24"
    "v AND push_bit n (mask 8) \<noteq> 0" "\<And>j. j < n \<Longrightarrow> \<not> bit v j" for n
    using lowest_set_part [OF that(2) part_nonzero [OF that(3)] that(4)] unat_byte_add [OF _ that(2)] that(1)
    by (auto simp: part_def)
  have ffs: "rt_ffs v =
    (if v AND push_bit 0 (mask 8) \<noteq> 0 then lowest_bit (part 0) + of_nat (0 + 1)
     else if v AND push_bit 8 (mask 8) \<noteq> 0 then lowest_bit (part 8) + of_nat (8 + 1)
     else if v AND push_bit 16 (mask 8) \<noteq> 0 then lowest_bit (part 16) + of_nat (16 + 1)
     else lowest_bit (part 24) + of_nat (24 + 1))"
    using v unfolding rt_ffs_def m part_def by simp
  consider (a) "v AND push_bit 0 (mask 8) \<noteq> 0" | (b) "v AND push_bit 0 (mask 8) = 0" "v AND push_bit 8 (mask 8) \<noteq> 0"
    | (c) "v AND push_bit 0 (mask 8) = 0" "v AND push_bit 8 (mask 8) = 0" "v AND push_bit 16 (mask 8) \<noteq> 0"
    | (d) "v AND push_bit 0 (mask 8) = 0" "v AND push_bit 8 (mask 8) = 0" "v AND push_bit 16 (mask 8) = 0"
    by blast
  then show ?thesis
  proof cases
    case a
    show ?thesis by (rule res [of 0]) (use a ffs in simp_all)
  next
    case b
    show ?thesis by (rule res [of 8]) (use b ffs part_zero [OF b(1)] in auto)
  next
    case c
    have "\<not> bit v j" if "j < 16" for j
      using part_zero [OF c(1), of j] part_zero [OF c(2), of j] that by (cases "j < 8") auto
    then show ?thesis by (intro res [of 16]) (use c ffs in auto)
  next
    case d
    have low: "\<not> bit v j" if "j < 24" for j
      using part_zero [OF d(1), of j] part_zero [OF d(2), of j] part_zero [OF d(3), of j] that
      by (cases "j < 8"; cases "j < 16") auto
    have "v AND push_bit 24 (mask 8) \<noteq> 0"
    proof
      assume z: "v AND push_bit 24 (mask 8) = 0"
      have "v = 0"
      proof (rule bit_eqI)
        fix j assume "possible_bit TYPE(u32) j"
        then have "j < 32" by (simp add: possible_bit_def)
        then show "bit v j = bit 0 j" using low [of j] part_zero [OF z, of j] by (cases "j < 24") auto
      qed
      with v show False by simp
    qed
    with low show ?thesis by (intro res [of 24]) (use d ffs in auto)
  qed
qed

end
