(* ===== verification/Rt_Inv.thy ===== *)
theory Rt_Inv
  imports Rt_Ipc Rt_Bitmap
begin

text \<open>
  The invariant of the kernel, over the map from list heads to members: which node may be in which
  list, where the node of a ready and of a suspended thread is, that the bitmap marks exactly the
  priorities with a ready thread, and that the timer list is sorted by what is left of each timer.
  Each primitive of the scheduler and the timers keeps it; the set \<open>X\<close> holds threads that are
  between two lists at that moment.
\<close>

section \<open>The map under removal and insertion\<close>

definition queue :: "(node \<rightharpoonup> node list) \<Rightarrow> node \<Rightarrow> node list" where
  "queue M h = (case M h of None \<Rightarrow> [] | Some xs \<Rightarrow> xs)"

definition in_place :: "node \<Rightarrow> (node \<rightharpoonup> node list) \<Rightarrow> bool" where
  "in_place n M = (M n = Some [] \<or> (\<exists>h. n \<in> set (queue M h)))"

definition unlink :: "node \<Rightarrow> (node \<rightharpoonup> node list) \<Rightarrow> node \<rightharpoonup> node list" where
  "unlink n M = (\<lambda>h. if h = n then Some [] else map_option (remove1 n) (M h))"

definition link_last :: "node \<Rightarrow> node \<Rightarrow> (node \<rightharpoonup> node list) \<Rightarrow> node \<rightharpoonup> node list" where
  "link_last h n M = M(h \<mapsto> queue M h @ [n], n := None)"

lemma queue_Some [simp]: "M h = Some xs \<Longrightarrow> queue M h = xs"
  by (simp add: queue_def)

lemma queue_upd [simp]: "queue (M(h := x)) g = (if g = h then (case x of None \<Rightarrow> [] | Some xs \<Rightarrow> xs) else queue M g)"
  by (simp add: queue_def)

lemma in_queueD: "n \<in> set (queue M h) \<Longrightarrow> \<exists>xs. M h = Some xs \<and> n \<in> set xs"
  by (cases "M h") (auto simp: queue_def)

lemma queue_unlink: "queue (unlink n M) h = (if h = n then [] else remove1 n (queue M h))"
  by (auto simp: queue_def unlink_def split: option.splits)

lemma unlink_self [simp]: "unlink n M n = Some []"
  by (simp add: unlink_def)

lemma unlink_None [simp]: "h \<noteq> n \<Longrightarrow> unlink n M h = None \<longleftrightarrow> M h = None"
  by (simp add: unlink_def)

lemma unlink_Nil: "M h = Some [] \<Longrightarrow> unlink n M h = Some []"
  by (simp add: unlink_def)

lemma in_unlink: "distinct (queue M h) \<Longrightarrow> m \<in> set (queue (unlink n M) h) \<longleftrightarrow> h \<noteq> n \<and> m \<noteq> n \<and> m \<in> set (queue M h)"
  by (auto simp: queue_unlink)

lemma rings_queue_distinct: "rings s M \<Longrightarrow> distinct (queue M h)"
  by (auto simp: queue_def rings_def ring_def split: option.splits)

lemma rings_queue_unique: "rings s M \<Longrightarrow> n \<in> set (queue M h) \<Longrightarrow> n \<in> set (queue M g) \<Longrightarrow> h = g"
  by (meson in_queueD member_unique)

lemma rings_queue_None: "rings s M \<Longrightarrow> n \<in> set (queue M h) \<Longrightarrow> M n = None"
  by (meson in_queueD member_no_head)

lemma rings_unlink:
  assumes r: "rings s M" and n: "in_place n M"
  shows "rings (rt_list_remove n s) (unlink n M)"
proof (cases "M n = Some []")
  case True
  have "n \<notin> set (queue M h)" for h
    using rings_queue_None [OF r, of n h] True by auto
  then have "map_option (remove1 n) (M h) = M h" for h
    by (cases "M h") (metis option.map_disc_iff, metis option.simps(9) queue_Some remove1_idem)
  then have "unlink n M = M" using True by (auto simp: unlink_def)
  with rings_remove_alone [OF r True] show ?thesis by simp
next
  case False
  then obtain h xs where h: "M h = Some xs" "n \<in> set xs"
    using n by (auto simp: in_place_def dest: in_queueD)
  have "map_option (remove1 n) (M g) = M g" if "g \<noteq> h" for g
  proof (cases "M g")
    case (Some ys)
    then have "n \<notin> set ys" using member_unique [OF r Some h(1)] h(2) that by blast
    with Some show ?thesis by (simp add: remove1_idem)
  qed simp
  moreover have "n \<noteq> h" using rings_distinct [OF r h(1)] h(2) by auto
  ultimately have "unlink n M = M(h \<mapsto> remove1 n xs, n \<mapsto> [])" using h by (auto simp: unlink_def)
  with rings_remove [OF r h] show ?thesis by simp
qed

lemma rings_link_last:
  "rings s M \<Longrightarrow> M h \<noteq> None \<Longrightarrow> M n = Some [] \<Longrightarrow> n \<noteq> h \<Longrightarrow>
   rings (rt_list_insert_before h n s) (link_last h n M)"
  using rings_insert_tail [of s M h _ n] by (auto simp: link_last_def)

lemma in_place_unlink [simp]: "in_place n (unlink n M)"
  by (simp add: in_place_def)

lemma in_place_unlink_other:
  assumes "n \<noteq> m" "in_place n M" "M m = None \<or> M m = Some []"
  shows "in_place n (unlink m M)"
proof (cases "M n = Some []")
  case True with assms(1) show ?thesis by (simp add: in_place_def unlink_Nil)
next
  case False
  then obtain h where h: "n \<in> set (queue M h)" using assms(2) by (auto simp: in_place_def)
  moreover have "h \<noteq> m" using h assms(3) by (auto simp: queue_def)
  ultimately have "n \<in> set (queue (unlink m M) h)" using assms(1) by (simp add: queue_unlink)
  then show ?thesis by (auto simp: in_place_def)
qed

section \<open>The invariant\<close>

fun wait_head :: "node \<Rightarrow> bool" where
  "wait_head (SemWait s) = True" | "wait_head (MbWait m) = True" | "wait_head (MbSenders m) = True"
| "wait_head _ = False"

lemma wait_head_other:
  "wait_head h \<Longrightarrow> h \<noteq> Tlist t \<and> h \<noteq> Row tm \<and> h \<noteq> TimerList \<and> h \<noteq> Ready p \<and> h \<noteq> ObjNode ob \<and> h \<noteq> Expired \<and> h \<noteq> ObjList c"
  by (cases h) auto

definition prio :: "'a kernel \<Rightarrow> tid \<Rightarrow> nat" where
  "prio k t = unat (th_current_priority (k_thread k t))"

definition ready :: "'a kernel \<Rightarrow> tid \<Rightarrow> bool" where
  "ready k t = (thread_stat t k = RT_THREAD_READY)"

definition suspended :: "'a kernel \<Rightarrow> tid \<Rightarrow> bool" where
  "suspended k t = (thread_stat t k = RT_THREAD_SUSPEND)"

definition active :: "'a kernel \<Rightarrow> timer_id \<Rightarrow> bool" where
  "active k tm = (timer_flag tm k AND RT_TIMER_FLAG_ACTIVATED \<noteq> 0)"

definition periodic :: "'a kernel \<Rightarrow> timer_id \<Rightarrow> bool" where
  "periodic k tm = (timer_flag tm k AND RT_TIMER_FLAG_PERIODIC \<noteq> 0)"

definition thread_timer_ok :: "'a kernel \<Rightarrow> tid \<Rightarrow> bool" where
  "thread_timer_ok k t = (tm_func (k_timer k (ThreadTimer t)) = Rt_thread_timeout \<and>
     tm_parameter (k_timer k (ThreadTimer t)) = ArgThread t \<and> \<not> periodic k (ThreadTimer t))"

definition prio_ok :: "'a kernel \<Rightarrow> tid \<Rightarrow> bool" where
  "prio_ok k t = (prio k t < 8 \<and> th_number_mask (k_thread k t) = priority_mask (th_current_priority (k_thread k t)))"

text \<open>What is left of a timer, as a signed number of ticks.\<close>

definition due :: "'a kernel \<Rightarrow> timer_id \<Rightarrow> int" where
  "due k tm = sint (tm_timeout_tick (k_timer k tm) - k_tick k)"

definition timers :: "(node \<rightharpoonup> node list) \<Rightarrow> timer_id list" where
  "timers M = map (the \<circ> timer_of) (queue M TimerList)"

text \<open>Which node may be in which list.\<close>

fun member_ok :: "'a kernel \<Rightarrow> node \<Rightarrow> node \<Rightarrow> bool" where
  "member_ok k (Ready p) n = (p < 8 \<and> (\<exists>t. n = Tlist t \<and> ready k t \<and> prio k t = p))"
| "member_ok k TimerList n = (\<exists>tm. n = Row tm \<and> active k tm \<and>
     (\<forall>t. tm = ThreadTimer t \<longrightarrow> suspended k t \<and> thread_timer_ok k t))"
| "member_ok k Expired n = (\<exists>tm. n = Row tm)"
| "member_ok k (ObjList c) n = (\<exists>ob. n = ObjNode ob)"
| "member_ok k Defunct n = (\<exists>t. n = Tlist t \<and> \<not> ready k t \<and> \<not> suspended k t)"
| "member_ok k h n = (wait_head h \<and> (\<exists>t. n = Tlist t \<and> suspended k t))"

definition thread_ok :: "(node \<rightharpoonup> node list) \<Rightarrow> 'a kernel \<Rightarrow> tid \<Rightarrow> bool" where
  "thread_ok M k t =
    ((ready k t \<longrightarrow> prio_ok k t \<and> Tlist t \<in> set (queue M (Ready (prio k t)))) \<and>
     (suspended k t \<longrightarrow> prio_ok k t \<and> (M (Tlist t) = Some [] \<or> (\<exists>h. wait_head h \<and> Tlist t \<in> set (queue M h)))) \<and>
     (ready k t \<or> suspended k t \<longrightarrow> in_place (Row (ThreadTimer t)) M \<and> thread_timer_ok k t \<and>
        (active k (ThreadTimer t) \<longrightarrow> Row (ThreadTimer t) \<in> set (queue M TimerList))))"

text \<open>
  The objects: only initialised ones are in containers, in queues, in the timer list or run, and the
  queues of an initialised object are lists.
\<close>

definition live :: "'a kernel \<Rightarrow> obj \<Rightarrow> bool" where
  "live k ob = (o_type (k_object k ob) \<noteq> 0)"

fun owner :: "node \<Rightarrow> obj" where
  "owner (SemWait s) = OSem s" | "owner (MbWait m) = OMb m" | "owner (MbSenders m) = OMb m"
| "owner (Row tm) = OTimer tm" | "owner (ObjNode ob) = ob" | "owner (Tlist t) = OThread t"
| "owner _ = OThread 0"

definition objs_ok :: "(node \<rightharpoonup> node list) \<Rightarrow> 'a kernel \<Rightarrow> bool" where
  "objs_ok M k =
    ((\<forall>c<4. M (ObjList c) \<noteq> None) \<and>
     (\<forall>h. wait_head h \<longrightarrow> (live k (owner h) \<longrightarrow> M h \<noteq> None) \<and> (queue M h \<noteq> [] \<longrightarrow> live k (owner h))) \<and>
     (\<forall>h n. n \<in> set (queue M h) \<longrightarrow> live k (owner n)) \<and>
     (\<forall>t. ready k t \<or> suspended k t \<longrightarrow> live k (OThread t) \<and> live k (OTimer (ThreadTimer t))) \<and>
     (\<forall>t. live k (OTimer (ThreadTimer t)) \<longrightarrow> live k (OThread t)))"

text \<open>A thread between two lists: its link is alone, and its timer runs only while it is suspended.\<close>

definition loose_ok :: "(node \<rightharpoonup> node list) \<Rightarrow> 'a kernel \<Rightarrow> tid \<Rightarrow> bool" where
  "loose_ok M k t = (M (Tlist t) = Some [] \<and> in_place (Row (ThreadTimer t)) M \<and>
     thread_timer_ok k t \<and>
     (active k (ThreadTimer t) \<longrightarrow> suspended k t \<and> Row (ThreadTimer t) \<in> set (queue M TimerList)) \<and>
     live k (OThread t) \<and> live k (OTimer (ThreadTimer t)))"

definition timers_ok :: "int \<Rightarrow> (node \<rightharpoonup> node list) \<Rightarrow> 'a kernel \<Rightarrow> bool" where
  "timers_ok lo M k = (M TimerList \<noteq> None \<and> sorted (map (due k) (timers M)) \<and>
     (\<forall>tm \<in> set (timers M). lo \<le> due k tm \<and> due k tm < 2 ^ 31 - 1))"

definition group_ok :: "(node \<rightharpoonup> node list) \<Rightarrow> 'a kernel \<Rightarrow> bool" where
  "group_ok M k = (\<forall>p. bit (k_group k) p \<longleftrightarrow> p < 8 \<and> queue M (Ready p) \<noteq> [])"

definition kinv :: "tid set \<Rightarrow> int \<Rightarrow> (node \<rightharpoonup> node list) \<Rightarrow> 'a kernel \<Rightarrow> bool" where
  "kinv X lo M k =
    (rings (k_links k) M \<and> (\<forall>p<8. M (Ready p) \<noteq> None) \<and>
     (\<forall>h n. n \<in> set (queue M h) \<longrightarrow> member_ok k h n) \<and>
     (\<forall>t. t \<notin> X \<longrightarrow> thread_ok M k t) \<and> (\<forall>t \<in> X. loose_ok M k t) \<and>
     group_ok M k \<and> timers_ok lo M k \<and> objs_ok M k)"

lemma kinvI:
  assumes "rings (k_links k) M" "\<And>p. p < 8 \<Longrightarrow> M (Ready p) \<noteq> None"
    "\<And>h n. n \<in> set (queue M h) \<Longrightarrow> member_ok k h n" "\<And>t. t \<notin> X \<Longrightarrow> thread_ok M k t"
    "\<And>t. t \<in> X \<Longrightarrow> loose_ok M k t" "group_ok M k" "timers_ok lo M k" "objs_ok M k"
  shows "kinv X lo M k"
  using assms by (simp add: kinv_def)

lemma kinvD:
  assumes "kinv X lo M k"
  shows "rings (k_links k) M" "p < 8 \<Longrightarrow> M (Ready p) \<noteq> None"
    "n \<in> set (queue M h) \<Longrightarrow> member_ok k h n" "t \<notin> X \<Longrightarrow> thread_ok M k t"
    "t \<in> X \<Longrightarrow> loose_ok M k t" "group_ok M k" "timers_ok lo M k" "objs_ok M k"
  using assms by (simp_all add: kinv_def)

text \<open>What the invariant reads of the state beside the links and the bitmap.\<close>

definition same_view :: "'a kernel \<Rightarrow> 'b kernel \<Rightarrow> bool" where
  "same_view k l = (k_tick k = k_tick l \<and>
     (\<forall>t. th_stat (k_thread k t) = th_stat (k_thread l t) \<and>
       th_current_priority (k_thread k t) = th_current_priority (k_thread l t) \<and>
       th_number_mask (k_thread k t) = th_number_mask (k_thread l t)) \<and>
     (\<forall>tm. o_flag (k_object k (OTimer tm)) = o_flag (k_object l (OTimer tm))) \<and>
     (\<forall>ob. o_type (k_object k ob) = o_type (k_object l ob)) \<and>
     (\<forall>tm. tm_func (k_timer k tm) = tm_func (k_timer l tm) \<and>
       tm_parameter (k_timer k tm) = tm_parameter (k_timer l tm) \<and>
       tm_timeout_tick (k_timer k tm) = tm_timeout_tick (k_timer l tm)))"

lemma same_view_facts:
  assumes "same_view k l"
  shows "ready k = ready l" "suspended k = suspended l" "prio k = prio l" "prio_ok k = prio_ok l"
    "active k = active l" "periodic k = periodic l" "thread_timer_ok k = thread_timer_ok l" "due k = due l" "live k = live l"
  using assms unfolding same_view_def
  by (auto simp: live_def fun_eq_iff ready_def suspended_def prio_def prio_ok_def active_def periodic_def
      thread_timer_ok_def due_def thread_stat_def timer_flag_def)

lemma member_ok_view: "same_view k l \<Longrightarrow> member_ok k = member_ok l"
proof (intro ext)
  fix h n assume "same_view k l" then show "member_ok k h n = member_ok l h n"
    by (cases h) (simp_all add: same_view_facts)
qed

lemma thread_ok_view: "same_view k l \<Longrightarrow> thread_ok M k = thread_ok M l"
  and loose_ok_view: "same_view k l \<Longrightarrow> loose_ok M k = loose_ok M l"
  and timers_ok_view: "same_view k l \<Longrightarrow> timers_ok lo M k = timers_ok lo M l"
  and objs_ok_view: "same_view k l \<Longrightarrow> objs_ok M k = objs_ok M l"
  by (simp_all add: fun_eq_iff thread_ok_def loose_ok_def timers_ok_def objs_ok_def same_view_facts)

lemma kinv_view:
  "same_view k l \<Longrightarrow> k_links k = k_links l \<Longrightarrow> k_group k = k_group l \<Longrightarrow> kinv X lo M k = kinv X lo M l"
  unfolding kinv_def group_ok_def
  by (simp add: member_ok_view thread_ok_view loose_ok_view timers_ok_view objs_ok_view)

text \<open>A switch that the trap exit is to make has both its threads.\<close>

definition switch_ok :: "'a kernel \<Rightarrow> bool" where
  "switch_ok k = (k_switch_flag k \<longrightarrow> k_from k \<noteq> None \<and> k_to k \<noteq> None)"

lemma switch_ok_update [simp]:
  "switch_ok (k\<lparr>k_links := a\<rparr>) = switch_ok k" "switch_ok (k\<lparr>k_group := b\<rparr>) = switch_ok k"
  "switch_ok (k\<lparr>k_thread := c\<rparr>) = switch_ok k" "switch_ok (k\<lparr>k_timer := d\<rparr>) = switch_ok k"
  "switch_ok (k\<lparr>k_object := e\<rparr>) = switch_ok k" "switch_ok (k\<lparr>k_random_nr := f\<rparr>) = switch_ok k"
  "switch_ok (k\<lparr>k_tick := g\<rparr>) = switch_ok k" "switch_ok (k\<lparr>k_current := h\<rparr>) = switch_ok k"
  "switch_ok (k\<lparr>k_priority := i\<rparr>) = switch_ok k" "switch_ok (k\<lparr>k_cpu := j\<rparr>) = switch_ok k"
  "switch_ok (k\<lparr>k_sp := l\<rparr>) = switch_ok k"
  by (simp_all add: switch_ok_def)

lemmas kernel_defs = on_links_def on_thread_def on_timer_def on_object_def set_stat_def set_error_def
  set_flag_def clear_flag_def set_priority_def

section \<open>Nodes under removal and insertion\<close>

lemma queue_unlinkD:
  "rings s M \<Longrightarrow> m \<in> set (queue (unlink n M) h) \<Longrightarrow> m \<in> set (queue M h) \<and> m \<noteq> n \<and> h \<noteq> n"
  by (simp add: in_unlink rings_queue_distinct)

lemma queue_unlinkI:
  "rings s M \<Longrightarrow> m \<in> set (queue M h) \<Longrightarrow> m \<noteq> n \<Longrightarrow> M n = None \<or> M n = Some [] \<Longrightarrow> m \<in> set (queue (unlink n M) h)"
  by (cases "h = n") (auto simp: queue_unlink dest: in_queueD)

lemma in_place_alone: "rings s M \<Longrightarrow> in_place n M \<Longrightarrow> M n = None \<or> M n = Some []"
  by (auto simp: in_place_def dest: rings_queue_None)

lemma queue_link_last: "queue (link_last h n M) g = (if g = n then [] else if g = h then queue M h @ [n] else queue M g)"
  by (simp add: link_last_def)

lemma in_place_link_last:
  assumes "in_place m M" "M n = Some []" "h \<noteq> n" "m \<noteq> h"
  shows "in_place m (link_last h n M)"
proof (cases "m = n \<or> M m = Some []")
  case True
  then show ?thesis using assms by (auto simp: in_place_def queue_link_last) (auto simp: link_last_def)
next
  case False
  then obtain g where "m \<in> set (queue M g)" using assms(1) by (auto simp: in_place_def)
  moreover from this have "g \<noteq> n" using assms(2) by auto
  ultimately have "m \<in> set (queue (link_last h n M) g)" by (auto simp: queue_link_last)
  then show ?thesis by (auto simp: in_place_def)
qed

lemma ready_head_prio: "prio k t < 8 \<Longrightarrow> ready_head (ucast (th_current_priority (k_thread k t))) = Some (Ready (prio k t))"
  by (simp add: ready_head_def prio_def RT_THREAD_PRIORITY_MAX_def unsigned_ucast_eq take_bit_nat_eq_self)

lemma bit_priority_mask: "unat p < 8 \<Longrightarrow> bit (priority_mask p) i \<longleftrightarrow> i = unat p"
  by (auto simp: priority_mask_def bit_exp_iff)

text \<open>A thread's conditions survive the removal of another thread's link.\<close>

lemma thread_ok_unlink:
  assumes "thread_ok M k u" "rings s M" "in_place (Tlist t) M" "u \<noteq> t"
  shows "thread_ok (unlink (Tlist t) M) k u"
proof -
  have a: "M (Tlist t) = None \<or> M (Tlist t) = Some []" using in_place_alone assms(2,3) by blast
  have q: "Tlist u \<in> set (queue M h) \<Longrightarrow> Tlist u \<in> set (queue (unlink (Tlist t) M) h)"
    and r: "Row tm \<in> set (queue M h) \<Longrightarrow> Row tm \<in> set (queue (unlink (Tlist t) M) h)" for h tm
    using queue_unlinkI [OF assms(2) _ _ a] assms(4) by simp_all
  show ?thesis
    using assms(1) a unfolding thread_ok_def
    by (auto intro: q r simp: unlink_Nil in_place_unlink_other)
qed

lemma loose_ok_unlink:
  assumes "loose_ok M k u" "rings s M" "in_place (Tlist t) M"
  shows "loose_ok (unlink (Tlist t) M) k u"
proof -
  have a: "M (Tlist t) = None \<or> M (Tlist t) = Some []" using in_place_alone assms(2,3) by blast
  show ?thesis
    using assms(1) a queue_unlinkI [OF assms(2) _ _ a]
    by (auto simp: loose_ok_def unlink_Nil in_place_unlink_other)
qed

lemma queue_unlink_idem: "n \<notin> set (queue M h) \<Longrightarrow> h \<noteq> n \<Longrightarrow> queue (unlink n M) h = queue M h"
  by (simp add: queue_unlink remove1_idem)

lemma objs_ok_unlink:
  assumes "objs_ok M k" "rings s M" "in_place n M" "\<And>h. wait_head h \<Longrightarrow> h \<noteq> n" "\<And>c. ObjList c \<noteq> n"
  shows "objs_ok (unlink n M) k"
  using assms(1) unfolding objs_ok_def
  by (auto simp: assms(4,5) queue_unlink dest: subsetD [OF set_remove1_subset] split: if_splits)

text \<open>
  Taking a ready thread off its list, with the bitmap kept right, makes it loose.
\<close>

lemma kinv_remove_ready:
  assumes k: "kinv X lo M k" and t: "t \<notin> X" and r: "ready k t"
  shows "\<exists>k'. rt_schedule_remove_thread t k = Some k' \<and> same_view k' k \<and> kinv (insert t X) lo (unlink (Tlist t) M) k'
    \<and> k' = k\<lparr>k_links := k_links k', k_group := k_group k'\<rparr>"
proof -
  let ?n = "Tlist t" and ?p = "prio k t" and ?M = "unlink (Tlist t) M"
  note rings = kinvD(1) [OF k]
  have ok: "thread_ok M k t" using kinvD(4) [OF k t] .
  then have p: "prio_ok k t" and mem: "?n \<in> set (queue M (Ready ?p))" and tm: "in_place (Row (ThreadTimer t)) M"
    "thread_timer_ok k t" using r by (auto simp: thread_ok_def)
  have objects: "live k (OThread t)" "live k (OTimer (ThreadTimer t))" using kinvD(8) [OF k] r by (simp_all add: objs_ok_def)
  have p8: "?p < 8" using p by (simp add: prio_ok_def)
  have place: "in_place ?n M" using mem by (auto simp: in_place_def)
  have alone: "M ?n = None" by (rule rings_queue_None [OF rings mem])
  have other: "?n \<notin> set (queue M h)" if "h \<noteq> Ready ?p" for h
    using rings_queue_unique [OF rings mem] that by blast
  define k1 where "k1 = on_links (rt_list_remove ?n) k"
  have r1: "rings (k_links k1) ?M" using rings_unlink [OF rings place] by (simp add: k1_def on_links_def)
  have head: "ready_head (ucast (th_current_priority (k_thread k1 t))) = Some (Ready ?p)"
    using ready_head_prio [OF p8] by (simp add: k1_def on_links_def)
  define k2 where "k2 = (if rt_list_isempty (Ready ?p) (k_links k1)
    then k1\<lparr>k_group := k_group k1 AND NOT (th_number_mask (k_thread k1 t))\<rparr> else k1)"
  have e: "rt_schedule_remove_thread t k = Some k2"
    unfolding rt_schedule_remove_thread_def Let_def k1_def [symmetric] head k2_def by simp
  have links: "k_links k2 = k_links k1" by (simp add: k2_def)
  have v: "same_view k2 k" by (simp add: same_view_def k2_def k1_def on_links_def)
  obtain xs where xs: "?M (Ready ?p) = Some xs" using kinvD(2) [OF k p8] by (auto simp: unlink_def)
  have empty: "rt_list_isempty (Ready ?p) (k_links k1) \<longleftrightarrow> queue ?M (Ready ?p) = []"
    using ring_isempty [OF ringsD [OF r1 xs]] xs by simp
  have bits: "bit (th_number_mask (k_thread k1 t)) i \<longleftrightarrow> i = ?p" for i
    using p bit_priority_mask [of "th_current_priority (k_thread k t)"]
    by (simp add: prio_ok_def prio_def k1_def on_links_def)
  have q: "queue ?M (Ready i) = queue M (Ready i)" if "i \<noteq> ?p" for i
    using other [of "Ready i"] that by (simp add: queue_unlink_idem)
  have nonempty: "queue M (Ready ?p) \<noteq> []" using mem by auto
  have gr: "bit (k_group k) i \<longleftrightarrow> i < 8 \<and> queue M (Ready i) \<noteq> []" for i
    using kinvD(6) [OF k] by (simp add: group_ok_def)
  have "k_group k2 = (if queue ?M (Ready ?p) = [] then k_group k1 AND NOT (th_number_mask (k_thread k1 t)) else k_group k1)"
    by (simp add: k2_def empty)
  moreover have "k_group k1 = k_group k" by (simp add: k1_def on_links_def)
  moreover have "i < 32" if "bit (k_group k) i" for i using bit_imp_le_length [OF that] by simp
  ultimately have "bit (k_group k2) i \<longleftrightarrow> bit (k_group k) i \<and> (i = ?p \<longrightarrow> queue ?M (Ready ?p) \<noteq> [])" for i
    by (auto simp: bit_and_iff bit_not_iff bits)
  then have "bit (k_group k2) i \<longleftrightarrow> i < 8 \<and> queue ?M (Ready i) \<noteq> []" for i
    using q [of i] gr [of i] p8 nonempty by (cases "i = ?p") auto
  then have g: "group_ok ?M k2" by (simp add: group_ok_def)
  have inactive: "\<not> active k (ThreadTimer t)"
  proof
    assume "active k (ThreadTimer t)"
    then have "Row (ThreadTimer t) \<in> set (queue M TimerList)" using ok r by (simp add: thread_ok_def)
    from kinvD(3) [OF k this] have "suspended k t" by simp
    with r show False by (simp add: ready_def suspended_def RT_THREAD_READY_def RT_THREAD_SUSPEND_def)
  qed
  have "kinv (insert t X) lo ?M k2"
  proof (rule kinvI)
    show "rings (k_links k2) ?M" using r1 links by simp
    show "?M (Ready i) \<noteq> None" if "i < 8" for i using kinvD(2) [OF k that] by simp
    show "member_ok k2 h n" if "n \<in> set (queue ?M h)" for h n
      using kinvD(3) [OF k] queue_unlinkD [OF rings that] member_ok_view [OF v] by simp
    show "thread_ok ?M k2 u" if "u \<notin> insert t X" for u
      using thread_ok_unlink [OF kinvD(4) [OF k] rings place] that thread_ok_view [OF v] by simp
    show "loose_ok ?M k2 u" if "u \<in> insert t X" for u
    proof (cases "u \<in> X")
      case True
      then show ?thesis using loose_ok_unlink [OF kinvD(5) [OF k True] rings place] loose_ok_view [OF v] by simp
    next
      case False
      with that have "u = t" by simp
      then show ?thesis
        using tm inactive in_place_unlink_other [OF _ tm(1), of ?n] alone objects r
        by (simp add: loose_ok_view [OF v]) (simp add: loose_ok_def)
    qed
    show "group_ok ?M k2" by (rule g)
    show "timers_ok lo ?M k2"
      using kinvD(7) [OF k] other [of TimerList]
      by (simp add: timers_ok_view [OF v]) (simp add: timers_ok_def timers_def queue_unlink_idem)
    show "objs_ok ?M k2"
      using objs_ok_unlink [OF kinvD(8) [OF k] rings place] objs_ok_view [OF v] wait_head_other by auto
  qed
  moreover have "k2 = k\<lparr>k_links := k_links k2, k_group := k_group k2\<rparr>"
    by (simp add: k2_def k1_def on_links_def)
  ultimately show ?thesis using e v by blast
qed

text \<open>Making a loose thread ready puts it at the end of the list of its priority.\<close>

lemma stat_merge: "(s OR (x AND NOT m)) AND m = s AND (m :: u8)"
  by (rule bit_eqI) (auto simp: bit_and_iff bit_or_iff bit_not_iff)

lemma stat_values [simp]:
  "(RT_THREAD_READY OR (x AND NOT RT_THREAD_STAT_MASK)) AND RT_THREAD_STAT_MASK = RT_THREAD_READY"
  "(RT_THREAD_SUSPEND OR (x AND NOT RT_THREAD_STAT_MASK)) AND RT_THREAD_STAT_MASK = RT_THREAD_SUSPEND"
  unfolding stat_merge by (simp_all add: RT_THREAD_READY_def RT_THREAD_SUSPEND_def RT_THREAD_STAT_MASK_def)

lemma stat_distinct [simp]:
  "RT_THREAD_READY \<noteq> RT_THREAD_SUSPEND" "RT_THREAD_SUSPEND \<noteq> RT_THREAD_READY"
  "RT_THREAD_INIT \<noteq> RT_THREAD_READY" "RT_THREAD_INIT \<noteq> RT_THREAD_SUSPEND"
  "RT_THREAD_CLOSE \<noteq> RT_THREAD_READY" "RT_THREAD_CLOSE \<noteq> RT_THREAD_SUSPEND"
  by (simp_all add: RT_THREAD_READY_def RT_THREAD_SUSPEND_def RT_THREAD_INIT_def RT_THREAD_CLOSE_def)

lemma ready_not_suspended: "ready k t \<Longrightarrow> \<not> suspended k t"
  by (simp add: ready_def suspended_def)

text \<open>Two states that differ in the fields of one thread only.\<close>

definition differ_at :: "tid \<Rightarrow> 'a kernel \<Rightarrow> 'a kernel \<Rightarrow> bool" where
  "differ_at t k l = (k_tick k = k_tick l \<and> k_timer k = k_timer l \<and>
     (\<forall>tm. o_flag (k_object k (OTimer tm)) = o_flag (k_object l (OTimer tm))) \<and>
     (\<forall>ob. o_type (k_object k ob) = o_type (k_object l ob)) \<and>
     (\<forall>u. u \<noteq> t \<longrightarrow> k_thread k u = k_thread l u))"

lemma differ_at_facts:
  assumes "differ_at t k l"
  shows "u \<noteq> t \<Longrightarrow> ready k u = ready l u" "u \<noteq> t \<Longrightarrow> suspended k u = suspended l u"
    "u \<noteq> t \<Longrightarrow> prio k u = prio l u" "u \<noteq> t \<Longrightarrow> prio_ok k u = prio_ok l u"
    "active k = active l" "periodic k = periodic l" "thread_timer_ok k = thread_timer_ok l" "due k = due l" "live k = live l"
  using assms unfolding differ_at_def
  by (auto simp: live_def fun_eq_iff ready_def suspended_def prio_def prio_ok_def active_def periodic_def
      thread_timer_ok_def due_def thread_stat_def timer_flag_def)

lemma member_ok_differ:
  assumes "differ_at t k l" "n \<noteq> Tlist t" "n \<noteq> Row (ThreadTimer t) \<or> suspended k t = suspended l t"
  shows "member_ok k h n = member_ok l h n"
  using assms(2,3) differ_at_facts [OF assms(1)]
  by (cases h) (auto, metis+)

lemma loose_ok_differ:
  assumes "differ_at t k l" "u \<noteq> t \<or> \<not> active l (ThreadTimer t)"
  shows "loose_ok M k u = loose_ok M l u"
  using assms(2) differ_at_facts [OF assms(1)] unfolding loose_ok_def by (cases "u = t") auto

lemma thread_ok_differ: "differ_at t k l \<Longrightarrow> u \<noteq> t \<Longrightarrow> thread_ok M k u = thread_ok M l u"
  and timers_ok_differ: "differ_at t k l \<Longrightarrow> timers_ok lo M k = timers_ok lo M l"
  by (simp_all add: thread_ok_def timers_ok_def differ_at_facts)

lemma objs_ok_differ:
  assumes "objs_ok M l" "differ_at t k l" "live l (OThread t)" "live l (OTimer (ThreadTimer t))"
  shows "objs_ok M k"
proof -
  note d = differ_at_facts [OF assms(2)]
  have "live l (OThread u) \<and> live l (OTimer (ThreadTimer u))" if "ready k u \<or> suspended k u" for u
    using that d(1,2) [of u] assms(1,3,4) by (cases "u = t") (auto simp: objs_ok_def)
  then show ?thesis using assms(1) by (simp add: objs_ok_def d)
qed

text \<open>A loose thread is in no list, and neither is its timer in the timer list.\<close>

lemma loose_absent:
  assumes k: "kinv X lo M k" and t: "t \<in> X"
  shows "Tlist t \<notin> set (queue M h)"
    "\<not> active k (ThreadTimer t) \<Longrightarrow> Row (ThreadTimer t) \<notin> set (queue M TimerList)"
proof -
  have l: "loose_ok M k t" using kinvD(5) [OF k t] .
  then show "Tlist t \<notin> set (queue M h)"
    using rings_queue_None [OF kinvD(1) [OF k]] by (auto simp: loose_ok_def)
  show "Row (ThreadTimer t) \<notin> set (queue M TimerList)" if "\<not> active k (ThreadTimer t)"
    using kinvD(3) [OF k, of "Row (ThreadTimer t)" TimerList] that by auto
qed

lemma loose_differ:
  assumes k: "kinv X lo M k" and t: "t \<in> X" and d: "differ_at t l k" and a: "\<not> active k (ThreadTimer t)"
    and same: "k_links l = k_links k" "k_group l = k_group k"
  shows "kinv X lo M l"
proof (rule kinvI)
  show "rings (k_links l) M" using kinvD(1) [OF k] same by simp
  show "M (Ready p) \<noteq> None" if "p < 8" for p using kinvD(2) [OF k that] .
  show "member_ok l h n" if n: "n \<in> set (queue M h)" for h n
  proof (cases "n = Row (ThreadTimer t)")
    case False
    then show ?thesis using kinvD(3) [OF k n] member_ok_differ [OF d] loose_absent(1) [OF k t] n by metis
  next
    case True
    then have "h \<noteq> TimerList" using loose_absent(2) [OF k t a] n by auto
    with kinvD(3) [OF k n] True show ?thesis by (cases h) auto
  qed
  show "thread_ok M l u" if "u \<notin> X" for u
    using kinvD(4) [OF k that] thread_ok_differ [OF d, of u] t that by auto
  show "loose_ok M l u" if "u \<in> X" for u using kinvD(5) [OF k that] loose_ok_differ [OF d] a by blast
  show "group_ok M l" using kinvD(6) [OF k] same by (simp add: group_ok_def)
  show "timers_ok lo M l" using kinvD(7) [OF k] timers_ok_differ [OF d] by simp
  show "objs_ok M l" using objs_ok_differ [OF kinvD(8) [OF k] d] kinvD(5) [OF k t] by (simp add: loose_ok_def)
qed

end
