(* ===== verification/Rt_Steps.thy ===== *)
theory Rt_Steps
  imports Rt_Inv
begin

text \<open>
  The primitives of the scheduler and the timers keep the invariant: each lemma says that the call
  is defined, what it does to the map of lists, and what it leaves alone.
\<close>

section \<open>Ready and loose\<close>

lemma thread_ok_link:
  assumes "thread_ok M k u" "M (Tlist t) = Some []" "h \<noteq> Tlist t" "u \<noteq> t" "\<And>v. h \<noteq> Tlist v" "\<And>tm. h \<noteq> Row tm"
  shows "thread_ok (link_last h (Tlist t) M) k u"
proof -
  have q: "n \<in> set (queue M g) \<Longrightarrow> n \<in> set (queue (link_last h (Tlist t) M) g)" for n g
    using assms(2,3) by (auto simp: queue_link_last)
  have a: "M (Tlist u) = Some [] \<Longrightarrow> link_last h (Tlist t) M (Tlist u) = Some []"
    using assms(4,5) by (auto simp: link_last_def)
  have r: "in_place (Row tm) M \<Longrightarrow> in_place (Row tm) (link_last h (Tlist t) M)" for tm
    by (rule in_place_link_last) (use assms(2,3,6) in auto)
  show ?thesis using assms(1) unfolding thread_ok_def by (auto intro: q a r)
qed

lemma loose_ok_link:
  assumes "loose_ok M k u" "M (Tlist t) = Some []" "h \<noteq> Tlist t" "u \<noteq> t" "\<And>v. h \<noteq> Tlist v" "\<And>tm. h \<noteq> Row tm"
  shows "loose_ok (link_last h (Tlist t) M) k u"
proof -
  have r: "in_place (Row tm) M \<Longrightarrow> in_place (Row tm) (link_last h (Tlist t) M)" for tm
    by (rule in_place_link_last) (use assms(2,3,6) in auto)
  have a: "M (Tlist u) = Some [] \<Longrightarrow> link_last h (Tlist t) M (Tlist u) = Some []"
    using assms(4,5) by (auto simp: link_last_def)
  have q: "n \<in> set (queue M g) \<Longrightarrow> n \<in> set (queue (link_last h (Tlist t) M) g)" for n g
    using assms(2,3) by (auto simp: queue_link_last)
  show ?thesis using assms(1) unfolding loose_ok_def by (auto intro: a r q)
qed

lemma objs_ok_link:
  assumes "objs_ok M k" "live k (OThread t)" "M (Tlist t) = Some []" "\<And>v. h \<noteq> Tlist v" "wait_head h \<Longrightarrow> live k (owner h)"
  shows "objs_ok (link_last h (Tlist t) M) k"
  using assms unfolding objs_ok_def by (auto simp: queue_link_last link_last_def split: if_splits)

lemma kinv_insert_ready:
  assumes k: "kinv X lo M k" and t: "t \<in> X" and p: "prio_ok k t"
    and a: "\<not> active k (ThreadTimer t)"
  shows "\<exists>k'. rt_schedule_insert_thread t k = Some k' \<and> differ_at t k' k \<and> ready k' t \<and> prio k' t = prio k t \<and>
    kinv (X - {t}) lo (link_last (Ready (prio k t)) (Tlist t) M) k' \<and>
    k' = k\<lparr>k_links := k_links k', k_group := k_group k', k_thread := k_thread k'\<rparr> \<and>
    k_thread k' = (k_thread k)(t := (k_thread k t)\<lparr>th_stat := th_stat (k_thread k' t)\<rparr>)"
proof -
  let ?n = "Tlist t" and ?p = "prio k t"
  let ?M = "link_last (Ready ?p) ?n M"
  have p8: "?p < 8" using p by (simp add: prio_ok_def)
  have l: "loose_ok M k t" using kinvD(5) [OF k t] .
  then have alone: "M ?n = Some []" by (simp add: loose_ok_def)
  define k1 where "k1 = on_thread t (\<lambda>th. th\<lparr>th_stat := RT_THREAD_READY OR (th_stat th AND NOT RT_THREAD_STAT_MASK)\<rparr>) k"
  have head: "ready_head (ucast (th_current_priority (k_thread k1 t))) = Some (Ready ?p)"
    using ready_head_prio [OF p8] by (simp add: k1_def on_thread_def)
  define k2 where "k2 = on_links (rt_list_insert_before (Ready ?p) ?n) k1"
  define k3 where "k3 = k2\<lparr>k_group := k_group k2 OR th_number_mask (k_thread k2 t)\<rparr>"
  have e: "rt_schedule_insert_thread t k = Some k3"
    unfolding rt_schedule_insert_thread_def Let_def k1_def [symmetric] head k3_def k2_def by simp
  have d: "differ_at t k3 k" by (simp add: differ_at_def k3_def k2_def k1_def on_links_def on_thread_def)
  have rt: "ready k3 t" by (simp add: ready_def thread_stat_def k3_def k2_def k1_def on_links_def on_thread_def)
  have pr: "prio k3 t = ?p" and pok: "prio_ok k3 t"
    using p by (simp_all add: prio_def prio_ok_def k3_def k2_def k1_def on_links_def on_thread_def)
  have links: "k_links k3 = rt_list_insert_before (Ready ?p) ?n (k_links k)"
    by (simp add: k3_def k2_def k1_def on_links_def on_thread_def)
  have mask: "k_group k3 = k_group k OR th_number_mask (k_thread k t)"
    by (simp add: k3_def k2_def k1_def on_links_def on_thread_def)
  have bits: "bit (th_number_mask (k_thread k t)) i \<longleftrightarrow> i = ?p" for i
    using p bit_priority_mask [of "th_current_priority (k_thread k t)"] by (simp add: prio_ok_def prio_def)
  have ne: "Ready ?p \<noteq> ?n" by simp
  note absent = loose_absent(1) [OF k t] loose_absent(2) [OF k t a]
  have q: "queue ?M g = (if g = Ready ?p then queue M g @ [?n] else if g = ?n then [] else queue M g)" for g
    by (simp add: queue_link_last)
  have "kinv (X - {t}) lo ?M k3"
  proof (rule kinvI)
    show "rings (k_links k3) ?M"
      unfolding links by (rule rings_link_last [OF kinvD(1) [OF k] kinvD(2) [OF k p8] alone]) simp
    show "?M (Ready i) \<noteq> None" if "i < 8" for i using kinvD(2) [OF k that] by (simp add: link_last_def)
    show "member_ok k3 h n" if n: "n \<in> set (queue ?M h)" for h n
    proof (cases "h = Ready ?p \<and> n = ?n")
      case True
      then show ?thesis using rt pr p8 by simp
    next
      case False
      then have m: "n \<in> set (queue M h)" using n by (auto simp: q split: if_splits)
      show ?thesis
      proof (cases "n = Row (ThreadTimer t)")
        case True
        then have "h \<noteq> TimerList" using absent(2) m by auto
        with kinvD(3) [OF k m] True show ?thesis by (cases h) auto
      next
        case False
        with kinvD(3) [OF k m] member_ok_differ [OF d, of n h] absent(1) m show ?thesis by auto
      qed
    qed
    show "thread_ok ?M k3 u" if u: "u \<notin> X - {t}" for u
    proof (cases "u = t")
      case True
      have "in_place (Row (ThreadTimer t)) ?M"
        by (rule in_place_link_last) (use l alone in \<open>auto simp: loose_ok_def\<close>)
      then show ?thesis
        using True rt pok pr l differ_at_facts [OF d] ready_not_suspended [OF rt] a
        by (simp add: thread_ok_def q loose_ok_def)
    next
      case False
      then show ?thesis
        using thread_ok_link [OF kinvD(4) [OF k, of u] alone] u thread_ok_differ [OF d False] by simp
    qed
    show "loose_ok ?M k3 u" if "u \<in> X - {t}" for u
      using loose_ok_link [OF kinvD(5) [OF k, of u] alone] that loose_ok_differ [OF d, of u] by simp
    have "bit (k_group k) i \<longleftrightarrow> i < 8 \<and> queue M (Ready i) \<noteq> []" for i
      using kinvD(6) [OF k] by (simp add: group_ok_def)
    then show "group_ok ?M k3"
      using p8 by (auto simp: group_ok_def mask bit_or_iff bits q)
    have "timers_ok lo ?M k" using kinvD(7) [OF k] by (simp add: timers_ok_def timers_def q) (simp add: link_last_def)
    then show "timers_ok lo ?M k3" using timers_ok_differ [OF d] by simp
    have lv: "live k (OThread t)" "live k (OTimer (ThreadTimer t))" using l by (simp_all add: loose_ok_def)
    show "objs_ok ?M k3"
      by (rule objs_ok_differ [OF _ d]) (use lv objs_ok_link [OF kinvD(8) [OF k] lv(1) alone, of "Ready ?p"] in simp_all)
  qed
  moreover have "k3 = k\<lparr>k_links := k_links k3, k_group := k_group k3, k_thread := k_thread k3\<rparr>"
    "k_thread k3 = (k_thread k)(t := (k_thread k t)\<lparr>th_stat := th_stat (k_thread k3 t)\<rparr>)"
    by (simp_all add: k3_def k2_def k1_def on_links_def on_thread_def)
  ultimately show ?thesis using e d rt pr by blast
qed

text \<open>A suspended thread leaves the queue it waits in, if any.\<close>

lemma kinv_loosen:
  assumes k: "kinv X lo M k" and t: "t \<notin> X" and s: "suspended k t"
  shows "kinv (insert t X) lo (unlink (Tlist t) M) (on_links (rt_list_remove (Tlist t)) k)" (is "kinv _ _ ?M ?k")
    and "in_place (Tlist t) M"
proof -
  note rings = kinvD(1) [OF k]
  have ok: "thread_ok M k t" using kinvD(4) [OF k t] .
  then show place: "in_place (Tlist t) M" using s by (auto simp: thread_ok_def in_place_def)
  have al: "M (Tlist t) = None \<or> M (Tlist t) = Some []" using in_place_alone [OF rings place] .
  have v: "same_view ?k k" by (simp add: same_view_def on_links_def)
  have other: "queue ?M h = queue M h" if "\<not> wait_head h" "h \<noteq> Tlist t" for h
  proof (rule queue_unlink_idem)
    show "Tlist t \<notin> set (queue M h)"
    proof
      assume "Tlist t \<in> set (queue M h)"
      from kinvD(3) [OF k this] that(1) s show False
        by (cases h) (auto simp: ready_def suspended_def)
    qed
  qed (use that in simp)
  show "kinv (insert t X) lo ?M ?k"
  proof (rule kinvI)
    show "rings (k_links ?k) ?M" using rings_unlink [OF rings place] by (simp add: on_links_def)
    show "?M (Ready i) \<noteq> None" if "i < 8" for i using kinvD(2) [OF k that] by simp
    show "member_ok ?k h n" if "n \<in> set (queue ?M h)" for h n
      using kinvD(3) [OF k] queue_unlinkD [OF rings that] member_ok_view [OF v] by simp
    show "thread_ok ?M ?k u" if "u \<notin> insert t X" for u
      using thread_ok_unlink [OF kinvD(4) [OF k] rings place] that thread_ok_view [OF v] by simp
    show "loose_ok ?M ?k u" if "u \<in> insert t X" for u
    proof (cases "u \<in> X")
      case True
      then show ?thesis using loose_ok_unlink [OF kinvD(5) [OF k True] rings place] loose_ok_view [OF v] by simp
    next
      case False
      with that have "u = t" by simp
      moreover have "in_place (Row (ThreadTimer t)) ?M"
        using ok s al by (intro in_place_unlink_other) (auto simp: thread_ok_def)
      moreover have "live k (OThread t)" "live k (OTimer (ThreadTimer t))"
        using kinvD(8) [OF k] s by (simp_all add: objs_ok_def)
      moreover have "active k (ThreadTimer t) \<Longrightarrow> Row (ThreadTimer t) \<in> set (queue ?M TimerList)"
        using ok s queue_unlinkI [OF rings _ _ al] by (simp add: thread_ok_def)
      ultimately show ?thesis using ok s by (simp add: loose_ok_view [OF v] loose_ok_def thread_ok_def)
    qed
    show "group_ok ?M ?k" using kinvD(6) [OF k] other by (simp add: group_ok_def on_links_def)
    show "timers_ok lo ?M ?k"
      using kinvD(7) [OF k] other [of TimerList]
      by (simp add: timers_ok_view [OF v]) (simp add: timers_ok_def timers_def)
    show "objs_ok ?M ?k"
      using objs_ok_unlink [OF kinvD(8) [OF k] rings place] objs_ok_view [OF v] wait_head_other by auto
  qed
qed

text \<open>A loose thread is left suspended, in no queue.\<close>

lemma kinv_settle:
  assumes k: "kinv X lo M k" and t: "t \<in> X" and s: "suspended k t" and p: "prio_ok k t"
  shows "kinv (X - {t}) lo M k"
proof (rule kinvI)
  have l: "loose_ok M k t" using kinvD(5) [OF k t] .
  show "thread_ok M k u" if "u \<notin> X - {t}" for u
  proof (cases "u = t")
    case True
    then show ?thesis using l s p by (auto simp: thread_ok_def loose_ok_def ready_def suspended_def)
  qed (use kinvD(4) [OF k] that in auto)
  show "loose_ok M k u" if "u \<in> X - {t}" for u using kinvD(5) [OF k] that by auto
qed (use kinvD [OF k] in auto)

end
