(* ===== verification/Rt_Timer_Steps.thy ===== *)
theory Rt_Timer_Steps
  imports Rt_Steps
begin

text \<open>
  Stopping and starting timers keeps the invariant; a started timer goes behind all timers that are
  due no later than it is.
\<close>

section \<open>The timer list as a list of timers\<close>

lemma timer_rows: "kinv X lo M k \<Longrightarrow> queue M TimerList = map Row (timers M)"
proof -
  assume k: "kinv X lo M k"
  have "n = Row (the (timer_of n))" if "n \<in> set (queue M TimerList)" for n
    using kinvD(3) [OF k that] by auto
  then have "map (Row \<circ> (the \<circ> timer_of)) (queue M TimerList) = queue M TimerList"
    by (intro map_idI) auto
  then show ?thesis by (simp add: timers_def)
qed

lemma in_timers: "kinv X lo M k \<Longrightarrow> Row tm \<in> set (queue M TimerList) \<longleftrightarrow> tm \<in> set (timers M)"
  by (auto simp: timer_rows)

lemma timers_distinct: "kinv X lo M k \<Longrightarrow> distinct (timers M)"
  using rings_queue_distinct [OF kinvD(1), of X lo M k TimerList] timer_rows [of X lo M k] by (simp add: distinct_map)

lemma timers_unlink_row:
  assumes "kinv X lo M k"
  shows "timers (unlink (Row tm) M) = filter (\<lambda>x. tm \<noteq> x) (timers M)"
proof -
  have "remove1 (Row tm) (map Row (timers M)) = removeAll (Row tm) (map Row (timers M))"
    by (rule distinct_remove1_removeAll) (use timers_distinct [OF assms] in \<open>simp add: distinct_map inj_on_def\<close>)
  also have "\<dots> = map Row (filter (\<lambda>x. tm \<noteq> x) (timers M))"
    by (simp add: removeAll_filter_not_eq filter_map comp_def)
  finally have "remove1 (Row tm) (map Row (timers M)) = map Row (filter (\<lambda>x. tm \<noteq> x) (timers M))" .
  then have "queue (unlink (Row tm) M) TimerList = map Row (filter (\<lambda>x. tm \<noteq> x) (timers M))"
    using timer_rows [OF assms] by (simp add: queue_unlink)
  then show ?thesis by (simp add: timers_def [of "unlink (Row tm) M"] comp_def)
qed

section \<open>Stopping\<close>

definition timer_off :: "timer_id \<Rightarrow> 'a kernel \<Rightarrow> 'a kernel" where
  "timer_off tm k = clear_flag RT_TIMER_FLAG_ACTIVATED tm (rt_timer_remove tm k)"

lemma flag_clear_active:
  "(x AND NOT RT_TIMER_FLAG_ACTIVATED) AND RT_TIMER_FLAG_ACTIVATED = 0"
  "(x AND NOT RT_TIMER_FLAG_ACTIVATED) AND RT_TIMER_FLAG_PERIODIC = x AND RT_TIMER_FLAG_PERIODIC"
  by (simp_all add: RT_TIMER_FLAG_ACTIVATED_def RT_TIMER_FLAG_PERIODIC_def word_bw_assocs)

lemma flag_set_active:
  "(x OR RT_TIMER_FLAG_ACTIVATED) AND RT_TIMER_FLAG_ACTIVATED \<noteq> 0"
  "(x OR RT_TIMER_FLAG_ACTIVATED) AND RT_TIMER_FLAG_PERIODIC = x AND RT_TIMER_FLAG_PERIODIC"
  by (simp_all add: RT_TIMER_FLAG_ACTIVATED_def RT_TIMER_FLAG_PERIODIC_def bit.conj_disj_distrib2)

text \<open>Two states that differ in one timer only, beside the links and the random counter.\<close>

definition differ_timer :: "timer_id \<Rightarrow> 'a kernel \<Rightarrow> 'a kernel \<Rightarrow> bool" where
  "differ_timer tm k l =
    (k_tick k = k_tick l \<and> k_thread k = k_thread l \<and> k_group k = k_group l \<and>
     (\<forall>u. u \<noteq> tm \<longrightarrow> k_timer k u = k_timer l u \<and> timer_flag u k = timer_flag u l) \<and>
     tm_func (k_timer k tm) = tm_func (k_timer l tm) \<and> tm_parameter (k_timer k tm) = tm_parameter (k_timer l tm) \<and>
     periodic k tm = periodic l tm \<and>
     (\<forall>ob. ob \<noteq> OTimer tm \<longrightarrow> k_object k ob = k_object l ob) \<and> (\<forall>ob. o_type (k_object k ob) = o_type (k_object l ob)))"

lemma differ_timer_facts:
  assumes "differ_timer tm k l"
  shows "ready k = ready l" "suspended k = suspended l" "prio k = prio l" "prio_ok k = prio_ok l"
    "u \<noteq> tm \<Longrightarrow> active k u = active l u" "periodic k = periodic l" "thread_timer_ok k = thread_timer_ok l"
    "u \<noteq> tm \<Longrightarrow> due k u = due l u" "k_group k = k_group l" "live k = live l"
proof -
  show p: "periodic k = periodic l"
  proof
    fix u show "periodic k u = periodic l u"
      using assms by (cases "u = tm") (simp_all add: differ_timer_def periodic_def)
  qed
  have f: "tm_func (k_timer k u) = tm_func (k_timer l u)" "tm_parameter (k_timer k u) = tm_parameter (k_timer l u)" for u
    using assms by (cases "u = tm"; simp add: differ_timer_def)+
  show "thread_timer_ok k = thread_timer_ok l" by (simp add: fun_eq_iff thread_timer_ok_def p f)
qed (use assms in \<open>auto simp: live_def differ_timer_def fun_eq_iff ready_def suspended_def prio_def prio_ok_def active_def
      due_def thread_stat_def\<close>)

lemma member_ok_differ_timer:
  assumes "differ_timer tm k l" "n \<noteq> Row tm"
  shows "member_ok k h n = member_ok l h n"
  using assms(2) differ_timer_facts [OF assms(1)] by (cases h) auto

lemma timer_off_facts:
  shows "differ_timer tm (timer_off tm k) k" "\<not> active (timer_off tm k) tm"
    "k_links (timer_off tm k) = rt_list_remove (Row tm) (k_links k)" "k_timer (timer_off tm k) = k_timer k"
    "timer_off tm k = k\<lparr>k_links := k_links (timer_off tm k), k_object := k_object (timer_off tm k)\<rparr>"
    "tick_get (timer_off tm k) = tick_get k"
  by (simp_all add: differ_timer_def timer_off_def kernel_defs rt_timer_remove_def periodic_def active_def
      timer_flag_def flag_clear_active tick_get_def)

text \<open>A thread's conditions survive the removal of a row that is not its own active timer's.\<close>

lemma kinv_timer_off:
  assumes k: "kinv X lo M k" and place: "in_place (Row tm) M"
  shows "kinv X lo (unlink (Row tm) M) (timer_off tm k)" (is "kinv _ _ ?M ?k")
proof -
  note rings = kinvD(1) [OF k] and f = timer_off_facts [of tm k]
  note d = differ_timer_facts [OF f(1)]
  have al: "M (Row tm) = None \<or> M (Row tm) = Some []" using in_place_alone [OF rings place] .
  have row: "in_place (Row u) M \<Longrightarrow> in_place (Row u) ?M" for u
    using in_place_unlink_other [of "Row u" "Row tm" M] al by (cases "u = tm") auto
  have keep: "n \<in> set (queue M h) \<Longrightarrow> n \<noteq> Row tm \<Longrightarrow> n \<in> set (queue ?M h)" for n h
    using queue_unlinkI [OF rings _ _ al] .
  have alone: "M (Tlist u) = Some [] \<Longrightarrow> ?M (Tlist u) = Some []" for u by (rule unlink_Nil)
  have act: "active ?k u \<Longrightarrow> u \<noteq> tm \<and> active k u" for u using d(5) [of u] f(2) by (cases "u = tm") auto
  have q: "queue ?M (Ready p) = queue M (Ready p)" for p
  proof (rule queue_unlink_idem)
    show "Row tm \<notin> set (queue M (Ready p))" using kinvD(3) [OF k, of "Row tm" "Ready p"] by auto
  qed simp
  show ?thesis
  proof (rule kinvI)
    show "rings (k_links ?k) ?M" using rings_unlink [OF rings place] f(3) by simp
    show "?M (Ready i) \<noteq> None" if "i < 8" for i using kinvD(2) [OF k that] by simp
    show "member_ok ?k h n" if "n \<in> set (queue ?M h)" for h n
      using kinvD(3) [OF k] queue_unlinkD [OF rings that] member_ok_differ_timer [OF f(1)] by simp
    show "thread_ok ?M ?k u" if "u \<notin> X" for u
      using kinvD(4) [OF k that] d unfolding thread_ok_def by (auto intro: keep row alone dest!: act)
    show "loose_ok ?M ?k u" if "u \<in> X" for u
      using kinvD(5) [OF k that] d unfolding loose_ok_def by (auto intro: row alone keep dest!: act)
    show "group_ok ?M ?k" using kinvD(6) [OF k] d(9) q by (simp add: group_ok_def)
    have s: "set (timers ?M) = set (timers M) - {tm}" using timers_unlink_row [OF k] by auto
    have e: "map (due ?k) (timers ?M) = map (due k) (timers ?M)" using s d(8) by (intro map_cong) auto
    have "sorted (map (due k) (timers ?M))"
      using kinvD(7) [OF k] by (simp add: timers_ok_def timers_unlink_row [OF k] sorted_filter)
    then show "timers_ok lo ?M ?k"
      using kinvD(7) [OF k] s d(8) unfolding timers_ok_def e by auto
    have "objs_ok ?M k" using objs_ok_unlink [OF kinvD(8) [OF k] rings place] wait_head_other by auto
    then show "objs_ok ?M ?k" by (simp add: objs_ok_def d)
  qed
qed

text \<open>The call \<^verbatim>\<open>rt_timer_stop\<close> does nothing to a stopped timer.\<close>

lemma rt_timer_stop_off: "snd (rt_timer_stop tm k) = (if active k tm then timer_off tm k else k)"
  by (simp add: rt_timer_stop_def active_def timer_off_def)

section \<open>Starting\<close>

lemma tick_compare:
  fixes a b tick :: u32
  assumes "- 1 \<le> sint (a - tick)" "sint (a - tick) < 2 ^ 31 - 1" "0 \<le> sint (b - tick)" "sint (b - tick) < 2 ^ 31 - 1"
  shows "a - b = 0 \<longleftrightarrow> sint (a - tick) = sint (b - tick)"
    and "a - b < RT_TICK_MAX div 2 \<longleftrightarrow> sint (b - tick) \<le> sint (a - tick)"
proof -
  show "a - b = 0 \<longleftrightarrow> sint (a - tick) = sint (b - tick)" by (metis diff_add_cancel right_minus_eq signed_word_eqI)
  have "a - b = (a - tick) - (b - tick)" by simp
  also have "\<dots> = word_of_int (sint (a - tick)) - word_of_int (sint (b - tick))"
    by (simp add: signed_word_eqI signed_take_bit_int_eq_self sint_sbintrunc flip: scast_eq)
  also have "\<dots> = word_of_int (sint (a - tick) - sint (b - tick))" by (simp only: wi_hom_sub)
  finally have u: "uint (a - b) = (sint (a - tick) - sint (b - tick)) mod 2 ^ 32"
    by (simp only: uint_word_of_int) simp
  have m: "a - b < RT_TICK_MAX div 2 \<longleftrightarrow> uint (a - b) < 2 ^ 31 - 1"
    by (simp add: word_less_def RT_TICK_MAX_def uint_div)
  show "a - b < RT_TICK_MAX div 2 \<longleftrightarrow> sint (b - tick) \<le> sint (a - tick)"
  proof (cases "sint (b - tick) \<le> sint (a - tick)")
    case True
    with assms have "uint (a - b) = sint (a - tick) - sint (b - tick)" unfolding u by (intro mod_pos_pos_trivial) auto
    with True assms m show ?thesis by linarith
  next
    case False
    have "(sint (a - tick) - sint (b - tick)) mod 2 ^ 32 = sint (a - tick) - sint (b - tick) + 2 ^ 32"
      using False assms by (subst mod_pos_pos_trivial [of "sint (a - tick) - sint (b - tick) + 2 ^ 32" "2 ^ 32", symmetric]) auto
    with False assms u have "\<not> uint (a - b) < 2 ^ 31 - 1" by simp
    with False m show ?thesis by simp
  qed
qed

text \<open>Where a timer that is due in \<open>d\<close> ticks goes.\<close>

definition due_before :: "'a kernel \<Rightarrow> int \<Rightarrow> (node \<rightharpoonup> node list) \<Rightarrow> timer_id list" where
  "due_before k d M = takeWhile (\<lambda>t. due k t \<le> d) (timers M)"

lemma timer_slot_path:
  assumes "path (k_links k) x (map Row tms) TimerList" "distinct (x # map Row tms)"
    "prv (k_links k) TimerList = last (x # map Row tms)"
    "\<And>t. t \<in> set tms \<Longrightarrow> - 1 \<le> due k t \<and> due k t < 2 ^ 31 - 1"
    "0 \<le> sint (timeout - k_tick k)" "sint (timeout - k_tick k) < 2 ^ 31 - 1"
  shows "timer_slot k timeout x =
    Some (last (x # map Row (takeWhile (\<lambda>t. due k t \<le> sint (timeout - k_tick k)) tms)))"
  using assms
proof (induction tms arbitrary: x)
  case Nil
  then show ?case by (simp add: timer_slot.simps [of k timeout x])
next
  case (Cons z zs)
  have ne: "x \<noteq> prv (k_links k) TimerList"
    using Cons.prems(2,3) last_in_set [of "map Row (z # zs)"] by auto
  have nx: "nxt (k_links k) x = Row z" using Cons.prems(1) by simp
  have z: "- 1 \<le> due k z" "due k z < 2 ^ 31 - 1" using Cons.prems(4) by auto
  have cmp: "tm_timeout_tick (k_timer k z) - timeout = 0 \<longleftrightarrow> due k z = sint (timeout - k_tick k)"
    "tm_timeout_tick (k_timer k z) - timeout < RT_TICK_MAX div 2 \<longleftrightarrow> sint (timeout - k_tick k) \<le> due k z"
    using tick_compare [OF z [unfolded due_def] Cons.prems(5,6)] by (simp_all add: due_def)
  have IH: "timer_slot k timeout (Row z) =
    Some (last (Row z # map Row (takeWhile (\<lambda>t. due k t \<le> sint (timeout - k_tick k)) zs)))"
    by (rule Cons.IH) (use Cons.prems in auto)
  show ?case
    using ne nx cmp IH by (subst timer_slot.simps) auto
qed

text \<open>The map after a start.\<close>

definition start_map :: "timer_id \<Rightarrow> 'a kernel \<Rightarrow> int \<Rightarrow> (node \<rightharpoonup> node list) \<Rightarrow> node \<rightharpoonup> node list" where
  "start_map tm k d M =
    (let M1 = unlink (Row tm) M; early = (\<lambda>t. due k t \<le> d)
     in M1(TimerList \<mapsto> map Row (takeWhile early (timers M1) @ tm # dropWhile early (timers M1)), Row tm := None))"

lemma timers_start_map:
  "timers (start_map tm k d M) =
    takeWhile (\<lambda>t. due k t \<le> d) (timers (unlink (Row tm) M)) @ tm # dropWhile (\<lambda>t. due k t \<le> d) (timers (unlink (Row tm) M))"
proof -
  have "queue (start_map tm k d M) TimerList =
    map Row (takeWhile (\<lambda>t. due k t \<le> d) (timers (unlink (Row tm) M)) @
      tm # dropWhile (\<lambda>t. due k t \<le> d) (timers (unlink (Row tm) M)))"
    by (simp add: start_map_def Let_def)
  then show ?thesis by (simp add: timers_def [of "start_map tm k d M"] comp_def)
qed

lemma set_timers_start_map: "set (timers (start_map tm k d M)) = insert tm (set (timers (unlink (Row tm) M)))"
proof -
  let ?xs = "timers (unlink (Row tm) M)" and ?P = "\<lambda>t. due k t \<le> d"
  have "set ?xs = set (takeWhile ?P ?xs) \<union> set (dropWhile ?P ?xs)"
    by (metis set_append takeWhile_dropWhile_id)
  then show ?thesis unfolding timers_start_map by auto
qed

lemma queue_start_map: "h \<noteq> TimerList \<Longrightarrow> queue (start_map tm k d M) h = queue (unlink (Row tm) M) h"
  by (simp add: start_map_def Let_def)

lemma sorted_insert_due:
  assumes "sorted (map f xs)"
  shows "sorted (map f (takeWhile (\<lambda>t. f t \<le> f x) xs @ x # dropWhile (\<lambda>t. f t \<le> f x) xs))"
proof -
  let ?P = "\<lambda>t. f t \<le> f x"
  have s: "sorted (map f (takeWhile ?P xs))" "sorted (map f (dropWhile ?P xs))"
    using assms sorted_append [of "map f (takeWhile ?P xs)" "map f (dropWhile ?P xs)"]
    by (simp_all flip: map_append)
  have early: "f t \<le> f x" if "t \<in> set (takeWhile ?P xs)" for t using set_takeWhileD [OF that] by simp
  have late: "f x \<le> f t" if t: "t \<in> set (dropWhile ?P xs)" for t
  proof (cases "dropWhile ?P xs")
    case (Cons y ys)
    then have "\<not> f y \<le> f x" using hd_dropWhile [of ?P xs] by simp
    with s(2) t Cons show ?thesis by auto
  next
    case Nil
    with t show ?thesis by (metis empty_iff list.set(1))
  qed
  show ?thesis using s early late by (auto simp: sorted_append intro: order_trans)
qed

lemma kinv_timer_start:
  assumes k: "kinv X lo M k" and place: "in_place (Row tm) M" and init: "uint (tm_init_tick (k_timer k tm)) < 2 ^ 31 - 1"
    and lo: "- 1 \<le> lo" "lo \<le> 0"
    and lv: "live k (OTimer tm)"
    and owner: "\<And>t. tm = ThreadTimer t \<Longrightarrow> t \<notin> X \<and> suspended k t \<and> thread_timer_ok k t"
  shows "\<exists>k'. rt_timer_start tm k = Some k' \<and> differ_timer tm k' k \<and> active k' tm \<and>
    due k' tm = uint (tm_init_tick (k_timer k tm)) \<and>
    kinv X lo (start_map tm k (uint (tm_init_tick (k_timer k tm))) M) k' \<and>
    k' = k\<lparr>k_links := k_links k', k_object := k_object k', k_timer := k_timer k', k_random_nr := k_random_nr k'\<rparr>"
proof -
  define d where "d = uint (tm_init_tick (k_timer k tm))"
  define M1 where "M1 = unlink (Row tm) M"
  define k1 where "k1 = timer_off tm k"
  define k2 where "k2 = on_timer tm (\<lambda>x. x\<lparr>tm_timeout_tick := tick_get k1 + tm_init_tick x\<rparr>) k1"
  note off = timer_off_facts [of tm k, folded k1_def]
  have i1: "kinv X lo M1 k1" using kinv_timer_off [OF k place] by (simp add: k1_def M1_def)
  have k1k: "k_tick k1 = k_tick k" "k_timer k1 = k_timer k" using off by (simp_all add: tick_get_def)
  have k2k: "k_links k2 = k_links k1" "k_tick k2 = k_tick k" "k_object k2 = k_object k1" "k_thread k2 = k_thread k1"
    "k_group k2 = k_group k1" by (simp_all add: k2_def on_timer_def k1k)
  have to: "tm_timeout_tick (k_timer k2 tm) = k_tick k + tm_init_tick (k_timer k tm)"
    by (simp add: k2_def on_timer_def k1k tick_get_def)
  have d0: "0 \<le> d" "d < 2 ^ 31 - 1" using init by (simp_all add: d_def)
  have sd: "sint (tm_init_tick (k_timer k tm)) = d"
  proof -
    have "sint (tm_init_tick (k_timer k tm)) = signed_take_bit 31 d" by (simp add: d_def sint_uint)
    also have "\<dots> = d" by (rule signed_take_bit_int_eq_self) (use d0 in auto)
    finally show ?thesis .
  qed
  have dnew: "sint (tm_timeout_tick (k_timer k2 tm) - k_tick k2) = d" by (simp add: to k2k sd)
  define xs where "xs = timers M1"
  have xs: "xs = filter (\<lambda>x. tm \<noteq> x) (timers M)" by (simp add: xs_def M1_def timers_unlink_row [OF k])
  have ntm: "tm \<notin> set xs" by (simp add: xs)
  have due2: "due k2 t = due k t" if "t \<noteq> tm" for t
    using that by (simp add: due_def k2k) (simp add: k2_def on_timer_def k1k)
  have M1T: "M1 TimerList = Some (map Row xs)"
  proof -
    have "M1 TimerList \<noteq> None" using kinvD(7) [OF i1] by (simp add: timers_ok_def)
    then show ?thesis using timer_rows [OF i1] by (auto simp: xs_def)
  qed
  have r1: "rings (k_links k2) M1" using kinvD(1) [OF i1] by (simp add: k2k)
  have ring: "ring (k_links k2) TimerList (map Row xs)" using ringsD [OF r1 M1T] .
  let ?P = "\<lambda>t. due k2 t \<le> d"
  have P: "takeWhile ?P xs = takeWhile (\<lambda>t. due k t \<le> d) xs" "dropWhile ?P xs = dropWhile (\<lambda>t. due k t \<le> d) xs"
    by (rule takeWhile_cong dropWhile_cong; use ntm due2 in force)+
  have range: "- 1 \<le> due k2 t \<and> due k2 t < 2 ^ 31 - 1" if "t \<in> set xs" for t
    using kinvD(7) [OF k] that ntm lo due2 [of t] by (force simp: timers_ok_def xs)
  have slot: "timer_slot k2 (tm_timeout_tick (k_timer k2 tm)) TimerList = Some (last (TimerList # map Row (takeWhile ?P xs)))"
    using timer_slot_path [of k2 TimerList xs "tm_timeout_tick (k_timer k2 tm)"] ring ring_last [OF ring] range dnew d0
    by (simp add: ring_def)
  let ?M = "start_map tm k d M"
  have M': "?M = M1(TimerList \<mapsto> map Row (takeWhile ?P xs @ tm # dropWhile ?P xs), Row tm := None)"
    unfolding start_map_def Let_def M1_def [symmetric] xs_def [symmetric] P by simp
  define k4 where "k4 = on_links (rt_list_insert_after (last (TimerList # map Row (takeWhile ?P xs))) (Row tm))
    (k2\<lparr>k_random_nr := k_random_nr k2 + 1\<rparr>)"
  define k5 where "k5 = set_flag RT_TIMER_FLAG_ACTIVATED tm k4"
  have e: "rt_timer_start tm k = Some k5"
    unfolding rt_timer_start_def Let_def timer_off_def [symmetric] k1_def [symmetric] k2_def [symmetric] slot k5_def k4_def by simp
  have k5k: "k_tick k5 = k_tick k2" "k_timer k5 = k_timer k2" "k_thread k5 = k_thread k2" "k_group k5 = k_group k2"
    "k_links k5 = rt_list_insert_after (last (TimerList # map Row (takeWhile ?P xs))) (Row tm) (k_links k2)"
    by (simp_all add: k5_def k4_def kernel_defs)
  have rings: "rings (k_links k5) ?M"
  proof (cases "takeWhile ?P xs" rule: rev_cases)
    case Nil
    then have "dropWhile ?P xs = xs" by (metis append_Nil takeWhile_dropWhile_id)
    with Nil show ?thesis unfolding k5k(5) M' using rings_insert_head [OF r1 M1T, of "Row tm"] by (simp add: M1_def)
  next
    case (snoc as a)
    have "map Row xs = map Row as @ Row a # map Row (dropWhile ?P xs)"
      using takeWhile_dropWhile_id [of ?P xs] snoc by (metis append.assoc append_Cons append_Nil list.simps(9) map_append)
    then have "M1 TimerList = Some (map Row as @ Row a # map Row (dropWhile ?P xs))" using M1T by simp
    from rings_insert_after_member [OF r1 this, of "Row tm"] snoc show ?thesis
      unfolding k5k(5) M' by (simp add: M1_def)
  qed
  have flags: "timer_flag u k5 = (if u = tm then timer_flag u k1 OR RT_TIMER_FLAG_ACTIVATED else timer_flag u k1)" for u
    by (simp add: k5_def k4_def kernel_defs timer_flag_def k2k)
  have types: "o_type (k_object k5 ob) = o_type (k_object k1 ob)" for ob
    by (simp add: k5_def k4_def k2_def kernel_defs)
  have objects: "k_object k5 ob = k_object k1 ob" if "ob \<noteq> OTimer tm" for ob
    using that by (simp add: k5_def k4_def k2_def kernel_defs)
  have dt: "differ_timer tm k5 k1"
    using k2k(2-5) k5k(1-4) types objects by (auto simp: differ_timer_def flags periodic_def flag_set_active k2_def on_timer_def)
  note f = differ_timer_facts [OF dt] and f1 = differ_timer_facts [OF off(1)]
  have act: "active k5 tm" using flag_set_active(1) by (simp add: active_def flags)
  have due5: "due k5 tm = d" using dnew by (simp add: due_def k5k)
  have q: "queue ?M h = queue M1 h" if "h \<noteq> TimerList" for h using queue_start_map [OF that] by (simp add: M1_def)
  have qT: "n \<in> set (queue ?M TimerList) \<longleftrightarrow> n = Row tm \<or> n \<in> set (queue M1 TimerList)" for n
  proof -
    have a: "timers ?M = takeWhile ?P xs @ tm # dropWhile ?P xs"
      unfolding timers_start_map M1_def [symmetric] xs_def [symmetric] P ..
    have "queue ?M TimerList = map Row (timers ?M)" unfolding a by (subst M') simp
    moreover have "queue M1 TimerList = map Row (timers M1)" by (rule timer_rows [OF i1])
    ultimately show ?thesis using set_timers_start_map [of tm k d M] by (auto simp: M1_def)
  qed
  have keep: "n \<in> set (queue M1 h) \<Longrightarrow> n \<in> set (queue ?M h)" for n h using q [of h] qT by (cases "h = TimerList") auto
  have alone: "M1 (Tlist u) = Some [] \<Longrightarrow> ?M (Tlist u) = Some []" for u by (simp add: M')
  have row: "in_place (Row u) M1 \<Longrightarrow> in_place (Row u) ?M" for u
  proof (cases "u = tm")
    case True
    have "Row tm \<in> set (queue ?M TimerList)" using qT by simp
    with True show ?thesis unfolding in_place_def by blast
  next
    case False
    assume "in_place (Row u) M1"
    then consider "M1 (Row u) = Some []" | h where "Row u \<in> set (queue M1 h)" by (auto simp: in_place_def)
    then show ?thesis
    proof cases
      case 1
      then have "?M (Row u) = Some []" using False by (simp add: M')
      then show ?thesis by (simp add: in_place_def)
    next
      case 2
      from keep [OF this] show ?thesis by (auto simp only: in_place_def)
    qed
  qed
  have "kinv X lo ?M k5"
  proof (rule kinvI)
    show "rings (k_links k5) ?M" by (rule rings)
    show "?M (Ready i) \<noteq> None" if "i < 8" for i using kinvD(2) [OF i1 that] by (simp add: M')
    show "member_ok k5 h n" if n: "n \<in> set (queue ?M h)" for h n
    proof (cases "h = TimerList \<and> n = Row tm")
      case True
      then show ?thesis using act owner f f1 by simp
    next
      case False
      then have m: "n \<in> set (queue M1 h)" using n q qT by (cases "h = TimerList") auto
      have "n \<noteq> Row tm" using queue_unlinkD [OF kinvD(1) [OF k], of n "Row tm" h] m by (simp add: M1_def)
      with kinvD(3) [OF i1 m] member_ok_differ_timer [OF dt] show ?thesis by simp
    qed
    show "thread_ok ?M k5 u" if "u \<notin> X" for u
    proof -
      have "active k5 (ThreadTimer u) \<Longrightarrow> Row (ThreadTimer u) \<in> set (queue ?M TimerList) \<or> active k1 (ThreadTimer u)"
        using f(5) [of "ThreadTimer u"] qT by (cases "ThreadTimer u = tm") simp_all
      moreover note ok = kinvD(4) [OF i1 that]
      ultimately show ?thesis
        unfolding thread_ok_def f(1-4,7) using keep alone row by blast
    qed
    show "loose_ok ?M k5 u" if u: "u \<in> X" for u
    proof -
      have "ThreadTimer u \<noteq> tm" using owner [of u] u by auto
      with kinvD(5) [OF i1 u] f(2,7,10) f(5) [of "ThreadTimer u"] show ?thesis
        unfolding loose_ok_def by (auto intro: alone row keep)
    qed
    show "group_ok ?M k5" using kinvD(6) [OF i1] q by (simp add: group_ok_def k5k k2k)
    have dk: "due k5 = due k2" by (simp add: due_def k5k fun_eq_iff)
    have "sorted (map (due k2) xs)"
    proof -
      have "due k2 x = due k x" if "x \<in> set xs" for x using due2 [of x] ntm that by blast
      then have e: "map (due k2) xs = map (due k) xs" by simp
      have "sorted (map (due k) xs)" using kinvD(7) [OF k] by (simp add: xs timers_ok_def sorted_filter)
      with e show ?thesis by (simp only:)
    qed
    from sorted_insert_due [OF this, of tm] have s: "sorted (map (due k2) (timers ?M))"
      using due5 dk by (simp add: timers_start_map M1_def [symmetric] xs_def [symmetric] P)
    have "lo \<le> due k5 t \<and> due k5 t < 2 ^ 31 - 1" if "t \<in> set (timers ?M)" for t
    proof (cases "t = tm")
      case True then show ?thesis using due5 d0 lo by simp
    next
      case False
      then have "t \<in> set (timers M)" using that set_timers_start_map [of tm k d M] timers_unlink_row [OF k, of tm] by auto
      with kinvD(7) [OF k] due2 [OF False] dk show ?thesis by (simp add: timers_ok_def)
    qed
    moreover have "?M TimerList \<noteq> None" by (simp add: M')
    ultimately show "timers_ok lo ?M k5" using s unfolding timers_ok_def dk by blast
    have "objs_ok ?M k1"
      unfolding objs_ok_def
    proof (intro conjI allI impI)
      fix h n assume n: "n \<in> set (queue ?M h)"
      show "live k1 (owner n)"
      proof (cases "n = Row tm")
        case True then show ?thesis using lv f1(10) by simp
      next
        case False
        then have "n \<in> set (queue M1 h)" using n q [of h] qT by (cases "h = TimerList") auto
        then show ?thesis using kinvD(8) [OF i1] by (simp add: objs_ok_def)
      qed
    next
      fix h assume h: "wait_head h" "live k1 (owner h)"
      then have "M1 h \<noteq> None" using kinvD(8) [OF i1] by (simp add: objs_ok_def)
      then show "?M h \<noteq> None" using wait_head_other [OF h(1)] by (simp add: M')
    next
      fix h assume h: "wait_head h" "queue ?M h \<noteq> []"
      then show "live k1 (owner h)" using kinvD(8) [OF i1] q [of h] wait_head_other [OF h(1)] by (simp add: objs_ok_def)
    next
      fix c assume "c < (4 :: nat)"
      then show "?M (ObjList c) \<noteq> None" using kinvD(8) [OF i1] by (simp add: M' objs_ok_def)
    qed (use kinvD(8) [OF i1] in \<open>auto simp: objs_ok_def\<close>)
    then show "objs_ok ?M k5" by (simp add: objs_ok_def f)
  qed
  moreover have "differ_timer tm k5 k"
    using dt off(1) by (auto simp: differ_timer_def)
  moreover obtain a b where ab: "k1 = k\<lparr>k_links := a, k_object := b\<rparr>" using off(5) by blast
  have "k5 = k\<lparr>k_links := k_links k5, k_object := k_object k5, k_timer := k_timer k5, k_random_nr := k_random_nr k5\<rparr>"
    by (simp add: k5_def k4_def k2_def kernel_defs ab)
  ultimately show ?thesis using e act due5 unfolding d_def by blast
qed

end
