(* ===== verification/Rt_Ops.thy ===== *)
theory Rt_Ops
  imports Rt_Timer_Steps
begin

text \<open>
  The operations on threads, each with its effect on the map of lists: what it returns, that the
  invariant holds after it, and which threads, timers and other parts of the state it touches.
\<close>

section \<open>What an operation leaves alone\<close>

definition same_rest :: "'a kernel \<Rightarrow> 'a kernel \<Rightarrow> bool" where
  "same_rest k l = (k_sem l = k_sem k \<and> k_mb l = k_mb k \<and> k_lock_nest l = k_lock_nest k \<and>
     k_interrupt_nest l = k_interrupt_nest k \<and> k_tick l = k_tick k \<and> k_pending l = k_pending k \<and>
     k_app l = k_app k \<and> (switch_ok k \<longrightarrow> switch_ok l) \<and> (\<forall>ob. o_type (k_object l ob) = o_type (k_object k ob)) \<and>
     (\<forall>s. k_object l (OSem s) = k_object k (OSem s)) \<and> (\<forall>m. k_object l (OMb m) = k_object k (OMb m)))"

definition same_cpu :: "'a kernel \<Rightarrow> 'a kernel \<Rightarrow> bool" where
  "same_cpu k l = (k_current l = k_current k \<and> k_priority l = k_priority k \<and> k_cpu l = k_cpu k \<and> k_sp l = k_sp k \<and>
     k_from l = k_from k \<and> k_to l = k_to k \<and> k_switch_flag l = k_switch_flag k)"

text \<open>Only thread \<open>t\<close> changed, in its state and its timer.\<close>

definition touches :: "tid \<Rightarrow> 'a kernel \<Rightarrow> 'a kernel \<Rightarrow> bool" where
  "touches t k l = (same_rest k l \<and> same_cpu k l \<and> (\<forall>u. u \<noteq> t \<longrightarrow> k_thread l u = k_thread k u) \<and>
     (\<forall>tm. tm \<noteq> ThreadTimer t \<longrightarrow> k_timer l tm = k_timer k tm \<and> timer_flag tm l = timer_flag tm k) \<and>
     (\<exists>s. k_thread l t = (k_thread k t)\<lparr>th_stat := s\<rparr>))"

lemma same_rest_refl [simp]: "same_rest k k" and same_cpu_refl [simp]: "same_cpu k k"
  by (simp_all add: same_rest_def same_cpu_def)

lemma same_rest_trans: "same_rest k l \<Longrightarrow> same_rest l m \<Longrightarrow> same_rest k m"
  and same_cpu_trans: "same_cpu k l \<Longrightarrow> same_cpu l m \<Longrightarrow> same_cpu k m"
  by (simp_all add: same_rest_def same_cpu_def)

lemma touches_trans: "touches t k l \<Longrightarrow> touches t l m \<Longrightarrow> touches t k m"
  unfolding touches_def by (auto intro: same_rest_trans same_cpu_trans)

lemma touches_facts:
  assumes "touches t k l"
  shows "u \<noteq> t \<Longrightarrow> ready l u = ready k u" "u \<noteq> t \<Longrightarrow> suspended l u = suspended k u" "prio l = prio k"
    "th_error (k_thread l u) = th_error (k_thread k u)" "tm \<noteq> ThreadTimer t \<Longrightarrow> active l tm = active k tm"
    "tm \<noteq> ThreadTimer t \<Longrightarrow> due l tm = due k tm" "live l = live k"
    "th_remaining_tick (k_thread l u) = th_remaining_tick (k_thread k u)"
    "th_init_tick (k_thread l u) = th_init_tick (k_thread k u)"
proof -
  have p: "th_current_priority (k_thread l u) = th_current_priority (k_thread k u)" for u
    using assms unfolding touches_def by (cases "u = t") auto
  then show "prio l = prio k" by (simp add: prio_def fun_eq_iff)
  have e: "th_error (k_thread l u) = th_error (k_thread k u) \<and>
    th_remaining_tick (k_thread l u) = th_remaining_tick (k_thread k u) \<and>
    th_init_tick (k_thread l u) = th_init_tick (k_thread k u)" for u
    using assms unfolding touches_def by (cases "u = t") auto
  show "th_error (k_thread l u) = th_error (k_thread k u)"
    "th_remaining_tick (k_thread l u) = th_remaining_tick (k_thread k u)"
    "th_init_tick (k_thread l u) = th_init_tick (k_thread k u)" using e by simp_all
qed (use assms in \<open>auto simp: touches_def ready_def suspended_def thread_stat_def active_def due_def live_def
      same_rest_def fun_eq_iff\<close>)

lemma timer_off_touches: "touches t k (timer_off (ThreadTimer t) k)"
  unfolding touches_def
  by (auto simp: same_rest_def same_cpu_def timer_off_def rt_timer_remove_def kernel_defs timer_flag_def intro!: exI [of _ "th_stat (k_thread k t)"])

section \<open>Suspending and resuming\<close>

lemma ready_inactive:
  assumes k: "kinv X lo M k" and "t \<notin> X" and r: "ready k t"
  shows "\<not> active k (ThreadTimer t)"
proof
  assume "active k (ThreadTimer t)"
  then have "Row (ThreadTimer t) \<in> set (queue M TimerList)" using kinvD(4) [OF k assms(2)] r by (simp add: thread_ok_def)
  from kinvD(3) [OF k this] show False using ready_not_suspended [OF r] by simp
qed

lemma suspend_ok:
  assumes k: "kinv X lo M k" and t: "t \<notin> X" and r: "ready k t"
  shows "\<exists>k'. rt_thread_suspend t k = Some (RT_EOK, k') \<and> kinv X lo (unlink (Tlist t) M) k' \<and> suspended k' t \<and>
    \<not> active k' (ThreadTimer t) \<and> touches t k k'"
proof -
  obtain k1 where e1: "rt_schedule_remove_thread t k = Some k1" and v: "same_view k1 k"
    and i1: "kinv (insert t X) lo (unlink (Tlist t) M) k1"
    and k1: "k1 = k\<lparr>k_links := k_links k1, k_group := k_group k1\<rparr>"
    using kinv_remove_ready [OF k t r] by blast
  define k2 where "k2 = on_thread t (\<lambda>th. th\<lparr>th_stat := RT_THREAD_SUSPEND OR (th_stat th AND NOT RT_THREAD_STAT_MASK)\<rparr>) k1"
  have a1: "\<not> active k1 (ThreadTimer t)" using ready_inactive [OF k t r] same_view_facts [OF v] by simp
  have d: "differ_at t k2 k1" by (simp add: differ_at_def k2_def on_thread_def)
  have i2: "kinv (insert t X) lo (unlink (Tlist t) M) k2"
    by (rule loose_differ [OF i1 _ d a1]) (simp_all add: k2_def on_thread_def)
  have s: "suspended k2 t" by (simp add: suspended_def thread_stat_def k2_def on_thread_def)
  have a2: "\<not> active k2 (ThreadTimer t)" using a1 differ_at_facts [OF d] by simp
  have "prio_ok k t" using kinvD(4) [OF k t] r by (simp add: thread_ok_def)
  then have p: "prio_ok k2 t"
    using same_view_facts [OF v] by (simp add: prio_ok_def prio_def k2_def on_thread_def same_view_def) (metis same_view_def v)
  have "kinv X lo (unlink (Tlist t) M) k2"
    using kinv_settle [OF i2 _ s p] t by simp
  moreover have "rt_thread_suspend t k = Some (RT_EOK, k2)"
    using r a2 by (simp add: rt_thread_suspend_def ready_def e1 Let_def k2_def [symmetric] rt_timer_stop_off)
  moreover have "touches t k k2"
  proof -
    obtain a b where "k1 = k\<lparr>k_links := a, k_group := b\<rparr>" using k1 by blast
    then show ?thesis unfolding touches_def
      by (auto simp: same_rest_def same_cpu_def k2_def on_thread_def timer_flag_def)
  qed
  ultimately show ?thesis using s a2 by blast
qed

definition resume_map :: "tid \<Rightarrow> 'a kernel \<Rightarrow> (node \<rightharpoonup> node list) \<Rightarrow> node \<rightharpoonup> node list" where
  "resume_map t k M =
    link_last (Ready (prio k t)) (Tlist t)
      ((if active k (ThreadTimer t) then unlink (Row (ThreadTimer t)) else id) (unlink (Tlist t) M))"

lemma resume_ok:
  assumes k: "kinv X lo M k" and t: "t \<notin> X" and s: "suspended k t"
  shows "\<exists>k'. rt_thread_resume t k = Some (RT_EOK, k') \<and> kinv X lo (resume_map t k M) k' \<and> ready k' t \<and>
    \<not> active k' (ThreadTimer t) \<and> touches t k k'"
proof -
  let ?tm = "ThreadTimer t"
  define k1 where "k1 = on_links (rt_list_remove (Tlist t)) k"
  define M1 where "M1 = unlink (Tlist t) M"
  have i1: "kinv (insert t X) lo M1 k1" using kinv_loosen(1) [OF k t s] by (simp add: k1_def M1_def)
  have v1: "same_view k1 k" by (simp add: same_view_def k1_def on_links_def)
  have place: "in_place (Row ?tm) M1" using kinvD(5) [OF i1, of t] by (simp add: loose_ok_def)
  define k2 where "k2 = snd (rt_timer_stop ?tm k1)"
  define M2 where "M2 = (if active k ?tm then unlink (Row ?tm) else id) M1"
  have k2: "k2 = (if active k ?tm then timer_off ?tm k1 else k1)"
    by (simp add: k2_def rt_timer_stop_off same_view_facts [OF v1])
  have i2: "kinv (insert t X) lo M2 k2"
    using kinv_timer_off [OF i1 place] i1 by (simp add: k2 M2_def)
  have a2: "\<not> active k2 ?tm"
    using timer_off_facts(2) [of ?tm k1] same_view_facts(5) [OF v1] by (simp add: k2)
  have t2: "touches t k k2"
  proof -
    have "touches t k k1" unfolding touches_def
      by (auto simp: same_rest_def same_cpu_def k1_def on_links_def timer_flag_def intro!: exI [of _ "th_stat (k_thread k t)"])
    then show ?thesis using timer_off_touches [of t k1] touches_trans by (auto simp: k2)
  qed
  have th2: "k_thread k2 = k_thread k" by (simp add: k2 k1_def on_links_def timer_off_def rt_timer_remove_def kernel_defs)
  have "prio_ok k t" using kinvD(4) [OF k t] s by (simp add: thread_ok_def)
  then have p: "prio_ok k2 t" "prio k2 t = prio k t" by (simp_all add: prio_ok_def prio_def th2)
  obtain k3 where e3: "rt_schedule_insert_thread t k2 = Some k3" and d3: "differ_at t k3 k2" and r3: "ready k3 t"
    and i3: "kinv (insert t X - {t}) lo (link_last (Ready (prio k2 t)) (Tlist t) M2) k3"
    and k3: "k3 = k2\<lparr>k_links := k_links k3, k_group := k_group k3, k_thread := k_thread k3\<rparr>"
    and th3: "k_thread k3 = (k_thread k2)(t := (k_thread k2 t)\<lparr>th_stat := th_stat (k_thread k3 t)\<rparr>)"
    using kinv_insert_ready [OF i2 _ p(1) a2] by blast
  have "kinv X lo (resume_map t k M) k3"
    using i3 t p(2) by (simp add: resume_map_def M2_def M1_def)
  moreover have "rt_thread_resume t k = Some (RT_EOK, k3)"
    using s e3 by (simp add: rt_thread_resume_def suspended_def Let_def k1_def k2_def)
  moreover have "touches t k2 k3"
  proof -
    obtain a b c where abc: "k3 = k2\<lparr>k_links := a, k_group := b, k_thread := c\<rparr>" using k3 by blast
    have "k_thread k3 u = k_thread k2 u" if "u \<noteq> t" for u using fun_cong [OF th3, of u] that by simp
    moreover have "\<exists>s. k_thread k3 t = (k_thread k2 t)\<lparr>th_stat := s\<rparr>" using fun_cong [OF th3, of t] by auto
    ultimately show ?thesis unfolding touches_def
      by (auto simp: same_rest_def same_cpu_def timer_flag_def abc)
  qed
  moreover have "\<not> active k3 ?tm" using a2 differ_at_facts [OF d3] by simp
  ultimately show ?thesis using r3 touches_trans [OF t2] by blast
qed

section \<open>Starting the timer of a suspended thread\<close>

lemma start_thread_timer_ok:
  assumes k: "kinv X lo M k" and t: "t \<notin> X" and s: "suspended k t" and n: "uint n < 2 ^ 31 - 1"
    and lo: "- 1 \<le> lo" "lo \<le> 0"
  shows "\<exists>k'. start_thread_timer t n k = Some k' \<and> kinv X lo (start_map (ThreadTimer t) k (uint n) M) k' \<and>
    active k' (ThreadTimer t) \<and> due k' (ThreadTimer t) = uint n \<and> suspended k' t \<and> touches t k k'"
proof -
  let ?tm = "ThreadTimer t"
  define k1 where "k1 = on_timer ?tm (\<lambda>x. x\<lparr>tm_init_tick := n\<rparr>) k"
  have v: "same_view k1 k" by (simp add: same_view_def k1_def on_timer_def)
  have i1: "kinv X lo M k1"
    using k kinv_view [OF v] by (simp add: k1_def on_timer_def)
  have ok: "thread_ok M k1 t" "suspended k1 t" using kinvD(4) [OF i1 t] s same_view_facts [OF v] by simp_all
  have place: "in_place (Row ?tm) M" and tok: "thread_timer_ok k1 t" using ok by (simp_all add: thread_ok_def)
  have lv: "live k1 (OTimer ?tm)" using kinvD(8) [OF i1] ok(2) by (simp add: objs_ok_def)
  have n1: "tm_init_tick (k_timer k1 ?tm) = n" by (simp add: k1_def on_timer_def)
  obtain k2 where e: "rt_timer_start ?tm k1 = Some k2" and d: "differ_timer ?tm k2 k1" and a: "active k2 ?tm"
    and due: "due k2 ?tm = uint n" and i2: "kinv X lo (start_map ?tm k1 (uint n) M) k2"
    and k2: "k2 = k1\<lparr>k_links := k_links k2, k_object := k_object k2, k_timer := k_timer k2, k_random_nr := k_random_nr k2\<rparr>"
    using kinv_timer_start [OF i1 place _ lo lv] n n1 ok(2) tok t by auto
  have m: "start_map ?tm k1 (uint n) M = start_map ?tm k (uint n) M"
    by (simp add: start_map_def same_view_facts [OF v])
  have tch: "touches t k k2"
  proof -
    obtain a b c e where abc: "k2 = k1\<lparr>k_links := a, k_object := b, k_timer := c, k_random_nr := e\<rparr>" using k2 by blast
    have "k_thread k2 = k_thread k" "k_sem k2 = k_sem k" by (simp_all add: abc k1_def on_timer_def)
    moreover have "timer_flag u k1 = timer_flag u k" for u by (simp add: timer_flag_def k1_def on_timer_def)
    moreover have "k_timer k1 u = k_timer k u" if "u \<noteq> ?tm" for u using that by (simp add: k1_def on_timer_def)
    moreover have "k_object k1 = k_object k" by (simp add: k1_def on_timer_def)
    moreover have "same_cpu k k2" by (simp add: same_cpu_def abc k1_def on_timer_def)
    moreover have "same_rest k k2"
      using d by (simp add: same_rest_def differ_timer_def) (simp add: abc k1_def on_timer_def)
    ultimately show ?thesis
      using d unfolding touches_def differ_timer_def
      by (auto intro!: exI [of _ "th_stat (k_thread k t)"])
  qed
  show ?thesis
    using e a due i2 m ok(2) differ_timer_facts(2) [OF d] tch
    by (simp add: start_thread_timer_def rt_timer_control_def k1_def)
qed

end
