(* ===== verification/Rt_Switch.thy ===== *)
theory Rt_Switch
  imports Rt_Ops
begin

text \<open>
  Choosing the next thread: the bitmap search finds the first thread of the highest priority that has
  one, and \<^verbatim>\<open>rt_schedule\<close> hands it the processor, at once or, in an interrupt, at its end. Then the
  operations that end with a schedule: yielding and the timeout of a wait.
\<close>

section \<open>The thread at the top\<close>

definition is_top :: "(node \<rightharpoonup> node list) \<Rightarrow> tid \<Rightarrow> bool" where
  "is_top M t = (\<exists>p<8. (\<exists>ts. queue M (Ready p) = Tlist t # ts) \<and> (\<forall>q<p. queue M (Ready q) = []))"

lemma is_top_unique: "is_top M t \<Longrightarrow> is_top M u \<Longrightarrow> t = u"
  unfolding is_top_def by (metis linorder_neqE_nat list.distinct(1) list.inject node.inject(2))

lemma top_exists:
  assumes k: "kinv X lo M k" and t: "t \<notin> X" and r: "ready k t"
  shows "\<exists>u. is_top M u \<and> prio k u \<le> prio k t"
proof -
  let ?Q = "\<lambda>p. queue M (Ready p) \<noteq> []"
  have q: "?Q (prio k t)" and p8: "prio k t < 8"
    using kinvD(4) [OF k t] r by (auto simp: thread_ok_def prio_ok_def)
  define p where "p = (LEAST p. ?Q p)"
  have p: "?Q p" unfolding p_def by (rule LeastI [of ?Q, OF q])
  have first: "queue M (Ready i) = []" if "i < p" for i using not_less_Least [of i ?Q] that by (simp add: p_def)
  have le: "p \<le> prio k t" unfolding p_def by (rule Least_le [of ?Q, OF q])
  obtain n ns where n: "queue M (Ready p) = n # ns" using p by (cases "queue M (Ready p)") auto
  then have "member_ok k (Ready p) n" using kinvD(3) [OF k, of n "Ready p"] by simp
  then obtain u where "n = Tlist u" "prio k u = p" by auto
  then have "is_top M u" unfolding is_top_def using n first le p8 by (intro exI [of _ p]) simp
  with \<open>prio k u = p\<close> le show ?thesis by auto
qed

lemma top_ready:
  assumes k: "kinv X lo M k" and "is_top M t"
  shows "ready k t" "prio k t < 8" "\<And>u. u \<notin> X \<Longrightarrow> ready k u \<Longrightarrow> prio k t \<le> prio k u"
proof -
  obtain p ts where p: "p < 8" "queue M (Ready p) = Tlist t # ts" "\<forall>q<p. queue M (Ready q) = []"
    using assms(2) by (auto simp: is_top_def)
  then have m: "member_ok k (Ready p) (Tlist t)" using kinvD(3) [OF k, of "Tlist t" "Ready p"] by simp
  then show "ready k t" "prio k t < 8" by auto
  show "prio k t \<le> prio k u" if "u \<notin> X" "ready k u" for u
  proof -
    have "queue M (Ready (prio k u)) \<noteq> []" using kinvD(4) [OF k that(1)] that(2) by (auto simp: thread_ok_def)
    with p(3) m show ?thesis by (metis member_ok.simps(1) node.inject(2) not_less)
  qed
qed

lemma highest_ready_top:
  assumes k: "kinv X lo M k" and t: "is_top M t"
  shows "highest_ready k = Some (of_nat (prio k t), t)"
proof -
  obtain p ts where p: "p < 8" "queue M (Ready p) = Tlist t # ts" "\<forall>q<p. queue M (Ready q) = []"
    using t by (auto simp: is_top_def)
  have g: "bit (k_group k) q \<longleftrightarrow> q < 8 \<and> queue M (Ready q) \<noteq> []" for q
    using kinvD(6) [OF k] by (simp add: group_ok_def)
  have bp: "bit (k_group k) p" using g p by simp
  then have "k_group k \<noteq> 0" by auto
  from rt_ffs_lowest [OF this] have l: "lowest_set (k_group k) (unat (rt_ffs (k_group k) - 1))" ..
  have "unat (rt_ffs (k_group k) - 1) = p"
    using l bp g p(3) unfolding lowest_set_def by (metis linorder_neqE_nat)
  moreover have "x = of_nat (unat x)" for x :: u32 by simp
  ultimately have h: "rt_ffs (k_group k) - 1 = of_nat p" by metis
  obtain xs where xs: "M (Ready p) = Some xs" using kinvD(2) [OF k p(1)] by auto
  have "nxt (k_links k) (Ready p) = Tlist t"
    using ring_first [OF ringsD [OF kinvD(1) [OF k] xs]] p(2) xs by simp
  moreover have "prio k t = p" using kinvD(3) [OF k, of "Tlist t" "Ready p"] p(2) by simp
  moreover have "unat (of_nat p :: u32) = p" using p(1) by (simp add: unat_of_nat)
  ultimately show ?thesis
    using p(1) by (simp add: highest_ready_def h ready_head_def RT_THREAD_PRIORITY_MAX_def Let_def)
qed

section \<open>Scheduling\<close>

definition switch_to :: "tid \<Rightarrow> 'a kernel \<Rightarrow> 'a kernel" where
  "switch_to t k =
    (if k_current k = Some t then k
     else let k1 = k\<lparr>k_priority := ucast (of_nat (prio k t) :: u32), k_current := Some t\<rparr>
          in if k_interrupt_nest k = 0 then rt_hw_context_switch (the (k_current k)) t k1
             else rt_hw_context_switch_interrupt (the (k_current k)) t k1)"

lemma rt_schedule_top:
  assumes "kinv X lo M k" "is_top M t" "k_lock_nest k = 0" "k_current k \<noteq> None"
  shows "rt_schedule k = Some (switch_to t k)"
  using assms(3,4) highest_ready_top [OF assms(1,2)]
  by (auto simp: rt_schedule_def switch_to_def Let_def)

lemma switch_to_facts:
  shows "same_view (switch_to t k) k" "k_links (switch_to t k) = k_links k" "k_group (switch_to t k) = k_group k"
    "k_thread (switch_to t k) = k_thread k" "k_timer (switch_to t k) = k_timer k" "k_object (switch_to t k) = k_object k"
    "k_current (switch_to t k) = Some t" "same_rest k (switch_to t k)"
  by (simp_all add: switch_to_def Let_def rt_hw_context_switch_def rt_hw_context_switch_interrupt_def
      same_view_def same_rest_def switch_ok_def)

lemma kinv_switch_to: "kinv X lo M (switch_to t k) = kinv X lo M k"
  using kinv_view [OF switch_to_facts(1)] by (simp add: switch_to_facts)

text \<open>
  Frames: the processor runs the current thread, and every other thread that has been started is
  saved under its own stack pointer.
\<close>

definition frames_ok :: "'a kernel \<Rightarrow> bool" where
  "frames_ok k = (\<exists>c. k_current k = Some c \<and> k_cpu k = Ctx c \<and>
     (\<forall>t. t \<noteq> c \<longrightarrow> ready k t \<or> suspended k t \<longrightarrow> k_sp k t = Ctx t))"

lemma frames_switch_to:
  assumes "frames_ok k" "k_interrupt_nest k = 0" "ready k t"
  shows "frames_ok (switch_to t k)"
  using assms by (auto simp: frames_ok_def switch_to_def Let_def rt_hw_context_switch_def ready_def suspended_def thread_stat_def)

section \<open>Yielding\<close>

text \<open>The thread goes to the end of its list, behind the others of its priority.\<close>

definition rotate_map :: "tid \<Rightarrow> 'a kernel \<Rightarrow> (node \<rightharpoonup> node list) \<Rightarrow> node \<rightharpoonup> node list" where
  "rotate_map t k M = link_last (Ready (prio k t)) (Tlist t) (unlink (Tlist t) M)"

lemma alone_in_ring:
  assumes "rings s M" "M h = Some xs" "n \<in> set xs"
  shows "nxt s n = prv s n \<longleftrightarrow> xs = [n]"
proof -
  obtain as bs where xs: "xs = as @ n # bs" using assms(3) by (auto dest: split_list)
  have r: "ring s h (as @ n # bs)" using ringsD [OF assms(1,2)] xs by simp
  then have p: "path s h as n" "path s n bs h" by (simp_all add: ring_def path_append)
  have ne: "nxt s n = hd (bs @ [h])" "prv s n = last (h # as)" using path_first path_last p by metis+
  have d: "distinct (h # as @ n # bs)" using r by (simp add: ring_def)
  show ?thesis
  proof (cases bs)
    case Nil
    then show ?thesis using d ne xs by (cases as rule: rev_cases) auto
  next
    case (Cons b bs')
    have "last (h # as) \<in> set (h # as)" by (rule last_in_set) simp
    then have "b \<noteq> last (h # as)" using d Cons by auto
    with Cons ne xs show ?thesis by auto
  qed
qed

lemma kinv_rotate:
  assumes k: "kinv {} lo M k" and r: "ready k t"
  shows "kinv {} lo (rotate_map t k M)
    (on_links (rt_list_insert_before (Ready (prio k t)) (Tlist t)) (on_links (rt_list_remove (Tlist t)) k))"
    (is "kinv _ _ ?M ?k")
proof -
  note rings = kinvD(1) [OF k]
  have mem: "Tlist t \<in> set (queue M (Ready (prio k t)))" and p8: "prio k t < 8"
    using kinvD(4) [OF k, of t] r by (auto simp: thread_ok_def prio_ok_def)
  have place: "in_place (Tlist t) M" using mem by (auto simp: in_place_def)
  have alone: "M (Tlist t) = None" by (rule rings_queue_None [OF rings mem])
  have other: "Tlist t \<notin> set (queue M h)" if "h \<noteq> Ready (prio k t)" for h
    using rings_queue_unique [OF rings mem] that by blast
  let ?M1 = "unlink (Tlist t) M"
  have v: "same_view ?k k" by (simp add: same_view_def on_links_def)
  have q: "set (queue ?M h) = set (queue M h)" for h
  proof (cases "h = Tlist t")
    case True
    then show ?thesis using alone by (simp add: rotate_map_def queue_link_last) (simp add: queue_def)
  next
    case False
    then show ?thesis
      using mem other [of h] rings_queue_distinct [OF rings, of h]
      by (auto simp: rotate_map_def queue_link_last queue_unlink remove1_idem)
  qed
  have qx: "queue ?M h = queue M h" if "\<And>p. h \<noteq> Ready p" for h
    using that other [of h] alone by (simp add: rotate_map_def queue_link_last queue_unlink remove1_idem) (auto simp: queue_def)
  have none: "?M h = None \<longleftrightarrow> M h = None" if "h \<noteq> Tlist t" for h
    using that kinvD(2) [OF k p8] by (simp add: rotate_map_def link_last_def)
  have self: "?M (Tlist u) = Some [] \<longleftrightarrow> M (Tlist u) = Some []" for u
  proof (cases "u = t")
    case False
    have "queue M (Tlist u) = []" using kinvD(3) [OF k, of _ "Tlist u"] by (cases "queue M (Tlist u)") auto
    with False show ?thesis
      by (auto simp: rotate_map_def link_last_def unlink_def queue_def split: option.splits)
  qed (simp add: rotate_map_def link_last_def alone)
  have row: "in_place (Row tm) M \<Longrightarrow> in_place (Row tm) ?M" for tm
    unfolding rotate_map_def
    by (rule in_place_link_last; (rule in_place_unlink_other)?) (use alone in auto)
  show ?thesis
  proof (rule kinvI)
    show "rings (k_links ?k) ?M"
      using rings_link_last [OF rings_unlink [OF rings place], of "Ready (prio k t)" "Tlist t"] kinvD(2) [OF k p8]
      by (simp add: rotate_map_def on_links_def)
    show "?M (Ready i) \<noteq> None" if "i < 8" for i using kinvD(2) [OF k that] none by simp
    show "member_ok ?k h n" if "n \<in> set (queue ?M h)" for h n
      using kinvD(3) [OF k] that q member_ok_view [OF v] by simp
    show "thread_ok ?M ?k u" for u
      using kinvD(4) [OF k, of u] row unfolding thread_ok_view [OF v] thread_ok_def q self by auto
    have "queue ?M (Ready p) = [] \<longleftrightarrow> queue M (Ready p) = []" for p using q [of "Ready p"] by (metis set_empty)
    then show "group_ok ?M ?k" using kinvD(6) [OF k] by (simp add: group_ok_def on_links_def)
    show "timers_ok lo ?M ?k"
      using kinvD(7) [OF k] qx [of TimerList] none [of TimerList] unfolding timers_ok_view [OF v]
      by (simp add: timers_ok_def timers_def)
    show "objs_ok ?M ?k"
    proof -
      note ob = kinvD(8) [OF k, unfolded objs_ok_def]
      have "(live k (owner h) \<longrightarrow> ?M h \<noteq> None) \<and> (queue ?M h \<noteq> [] \<longrightarrow> live k (owner h))" if "wait_head h" for h
        using ob that none [of h] qx [of h] wait_head_other [OF that] by simp
      then have "objs_ok ?M k" using ob none unfolding objs_ok_def q by auto
      then show ?thesis using objs_ok_view [OF v] by simp
    qed
  qed simp
qed

end
