(* ===== verification/Rt_Wait.thy ===== *)
theory Rt_Wait
  imports Rt_Switch
begin

text \<open>
  Entering a queue of waiting threads, and the operations that end with a schedule: yielding, the
  timeout of a wait, sleeping.
\<close>

section \<open>Entering a queue\<close>

definition enqueue_map :: "node \<Rightarrow> node list \<Rightarrow> node \<Rightarrow> node list \<Rightarrow> (node \<rightharpoonup> node list) \<Rightarrow> node \<rightharpoonup> node list" where
  "enqueue_map h as n bs M = M(h \<mapsto> as @ n # bs, n := None)"

lemma kinv_enqueue:
  assumes k: "kinv X lo M k" and t: "t \<notin> X" and s: "suspended k t" and alone: "M (Tlist t) = Some []"
    and h: "wait_head h" "live k (owner h)" and q: "queue M h = as @ bs"
  shows "kinv X lo (enqueue_map h as (Tlist t) bs M) (on_links (rt_list_insert_before (hd (bs @ [h])) (Tlist t)) k)"
    (is "kinv _ _ ?M ?k")
proof -
  note rings = kinvD(1) [OF k]
  have ho: "h \<noteq> Tlist u" "h \<noteq> Row tm" "h \<noteq> TimerList" "h \<noteq> Ready p" for u tm p
    using h(1) by (cases h; simp)+
  have ho': "Tlist u \<noteq> h" "Ready p \<noteq> h" "TimerList \<noteq> h" for u p using ho by metis+
  have v: "same_view ?k k" by (simp add: same_view_def on_links_def)
  have hM: "M h = Some (as @ bs)" using kinvD(8) [OF k] h q by (auto simp: objs_ok_def)
  have qu: "queue ?M g = (if g = Tlist t then [] else if g = h then as @ Tlist t # bs else queue M g)" for g
    by (simp add: enqueue_map_def)
  have keep: "n \<in> set (queue M g) \<Longrightarrow> n \<in> set (queue ?M g)" for n g
    using q alone by (auto simp: qu)
  have new: "n \<in> set (queue ?M g) \<Longrightarrow> n = Tlist t \<and> g = h \<or> n \<in> set (queue M g)" for n g
    using q by (auto simp: qu split: if_splits)
  have row: "in_place (Row tm) M \<Longrightarrow> in_place (Row tm) ?M" for tm
  proof -
    assume "in_place (Row tm) M"
    then consider "M (Row tm) = Some []" | g where "Row tm \<in> set (queue M g)" by (auto simp: in_place_def)
    then show ?thesis
    proof cases
      case 1
      moreover have "h \<noteq> Row tm" using ho by blast
      ultimately have "?M (Row tm) = Some []" by (simp add: enqueue_map_def)
      then show ?thesis by (simp add: in_place_def)
    next
      case 2 from keep [OF this] show ?thesis by (auto simp only: in_place_def)
    qed
  qed
  have self: "M (Tlist u) = Some [] \<Longrightarrow> u \<noteq> t \<Longrightarrow> ?M (Tlist u) = Some []" for u
  proof -
    assume "M (Tlist u) = Some []" "u \<noteq> t"
    moreover have "h \<noteq> Tlist u" using ho by blast
    ultimately show ?thesis by (simp add: enqueue_map_def)
  qed
  have none: "g \<noteq> Tlist t \<Longrightarrow> ?M g = None \<longleftrightarrow> M g = None" for g using hM by (simp add: enqueue_map_def)
  have linked: "rings (k_links ?k) ?M"
  proof (cases bs)
    case Nil
    with rings_insert_tail [OF rings, of h as "Tlist t"] hM alone ho' show ?thesis
      by (simp add: enqueue_map_def on_links_def)
  next
    case (Cons b bs')
    with rings_insert_before_member [OF rings, of h as b bs' "Tlist t"] hM alone ho' show ?thesis
      by (simp add: enqueue_map_def on_links_def)
  qed
  show ?thesis
  proof (rule kinvI)
    show "rings (k_links ?k) ?M" by (rule linked)
    show "?M (Ready i) \<noteq> None" if "i < 8" for i using kinvD(2) [OF k that] none by simp
    have m: "member_ok k h (Tlist t)" using h(1) s by (cases h) auto
    show "member_ok ?k g n" if "n \<in> set (queue ?M g)" for g n
      using new [OF that] m kinvD(3) [OF k] member_ok_view [OF v] by auto
    show "thread_ok ?M ?k u" if u: "u \<notin> X" for u
    proof -
      note ok = kinvD(4) [OF k u, unfolded thread_ok_def]
      have "Tlist t \<in> set (queue ?M h)" using ho by (simp add: qu)
      then have "suspended k u \<longrightarrow> prio_ok k u \<and> (?M (Tlist u) = Some [] \<or> (\<exists>h. wait_head h \<and> Tlist u \<in> set (queue ?M h)))"
        using ok h(1) self [of u] keep by (cases "u = t") blast+
      then have "thread_ok ?M k u" using ok row keep unfolding thread_ok_def by blast
      then show ?thesis using thread_ok_view [OF v] by simp
    qed
    show "loose_ok ?M ?k u" if u: "u \<in> X" for u
    proof -
      have "loose_ok ?M k u" using kinvD(5) [OF k u] u t row keep self unfolding loose_ok_def by blast
      then show ?thesis using loose_ok_view [OF v] by simp
    qed
    show "group_ok ?M ?k" using kinvD(6) [OF k] ho' by (simp add: group_ok_def on_links_def qu)
    have "timers_ok lo ?M k" using kinvD(7) [OF k] ho' none [of TimerList] by (simp add: timers_ok_def timers_def qu)
    then show "timers_ok lo ?M ?k" using timers_ok_view [OF v] by simp
    have "objs_ok ?M k"
    proof -
      note ob = kinvD(8) [OF k, unfolded objs_ok_def]
      have "(live k (owner g) \<longrightarrow> ?M g \<noteq> None) \<and> (queue ?M g \<noteq> [] \<longrightarrow> live k (owner g))" if g: "wait_head g" for g
        using ob g none [of g] h wait_head_other [OF g] by (auto simp: qu)
      moreover have "live k (owner n)" if "n \<in> set (queue ?M g)" for g n
        using new [OF that] ob s by auto
      ultimately show ?thesis using ob none unfolding objs_ok_def by auto
    qed
    then show "objs_ok ?M ?k" using objs_ok_view [OF v] by simp
  qed
qed

text \<open>Where a thread goes: to the end of the queue, or before the first one of lower priority.\<close>

definition queue_split :: "u8 \<Rightarrow> tid \<Rightarrow> 'a kernel \<Rightarrow> node list \<Rightarrow> node list \<times> node list" where
  "queue_split flag t k ns =
    (if flag = RT_IPC_FLAG_PRIO then (takeWhile (Not \<circ> comes_before t k) ns, dropWhile (Not \<circ> comes_before t k) ns)
     else (ns, []))"

lemma queue_split_append: "queue_split flag t k ns = (as, bs) \<Longrightarrow> ns = as @ bs"
  by (auto simp: queue_split_def split: if_splits)

lemma find_dropWhile: "(case find P xs of Some x \<Rightarrow> x | None \<Rightarrow> h) = hd (dropWhile (Not \<circ> P) xs @ [h])"
  by (induction xs) auto

definition wait_map :: "node \<Rightarrow> tid \<Rightarrow> u8 \<Rightarrow> 'a kernel \<Rightarrow> (node \<rightharpoonup> node list) \<Rightarrow> node \<rightharpoonup> node list" where
  "wait_map h t flag k M = (let M1 = unlink (Tlist t) M; (as, bs) = queue_split flag t k (queue M1 h)
    in enqueue_map h as (Tlist t) bs M1)"

lemma ipc_list_suspend_ok:
  assumes k: "kinv X lo M k" and t: "t \<notin> X" and r: "ready k t"
    and h: "wait_head h" "live k (owner h)" and f: "flag = RT_IPC_FLAG_FIFO \<or> flag = RT_IPC_FLAG_PRIO"
  shows "\<exists>k'. rt_ipc_list_suspend h t flag k = Some k' \<and> kinv X lo (wait_map h t flag k M) k' \<and> suspended k' t \<and>
    \<not> active k' (ThreadTimer t) \<and> touches t k k'"
proof -
  let ?M1 = "unlink (Tlist t) M"
  obtain k1 where e1: "rt_thread_suspend t k = Some (RT_EOK, k1)" and i1: "kinv X lo ?M1 k1"
    and s1: "suspended k1 t" and a1: "\<not> active k1 (ThreadTimer t)" and t1: "touches t k k1"
    using suspend_ok [OF k t r] by blast
  have cb: "comes_before t k1 = comes_before t k"
  proof -
    have "th_current_priority (k_thread k1 u) = th_current_priority (k_thread k u)" for u
      using t1 unfolding touches_def by (cases "u = t") auto
    then show ?thesis by (simp add: comes_before_def fun_eq_iff split: option.split)
  qed
  obtain as bs where sp: "queue_split flag t k (queue ?M1 h) = (as, bs)" by fastforce
  have q: "queue ?M1 h = as @ bs" by (rule queue_split_append [OF sp])
  have lv: "live k1 (owner h)" using h(2) touches_facts(7) [OF t1] by simp
  define k2 where "k2 = on_links (rt_list_insert_before (hd (bs @ [h])) (Tlist t)) k1"
  have M: "wait_map h t flag k M = enqueue_map h as (Tlist t) bs ?M1" by (simp add: wait_map_def sp)
  have i2: "kinv X lo (wait_map h t flag k M) k2"
    unfolding M k2_def by (rule kinv_enqueue [OF i1 t s1 _ h(1) lv q]) simp
  obtain xs where xs: "?M1 h = Some xs" using kinvD(8) [OF i1] h lv by (auto simp: objs_ok_def)
  have ring: "ring (k_links k1) h (queue ?M1 h)" using ringsD [OF kinvD(1) [OF i1] xs] xs by simp
  have "rt_ipc_list_suspend h t flag k = Some k2"
  proof (cases "flag = RT_IPC_FLAG_PRIO")
    case True
    have "bs = dropWhile (Not \<circ> comes_before t k) (queue ?M1 h)" using sp True by (simp add: queue_split_def)
    then have seek: "rt_list_seek (k_links k1) (comes_before t k1) h (nxt (k_links k1) h) = Some (hd (bs @ [h]))"
      using rt_list_seek_ring [OF ring, of "comes_before t k1"] find_dropWhile [where P = "comes_before t k" and xs = "queue ?M1 h" and h = h] cb by simp
    have "flag \<noteq> RT_IPC_FLAG_FIFO" using True by (simp add: RT_IPC_FLAG_FIFO_def RT_IPC_FLAG_PRIO_def)
    with True seek show ?thesis by (simp add: rt_ipc_list_suspend_def e1 k2_def)
  next
    case False
    then have "bs = []" using sp by (simp add: queue_split_def)
    with False f show ?thesis by (simp add: rt_ipc_list_suspend_def e1 k2_def)
  qed
  moreover have "touches t k1 k2"
    unfolding touches_def by (auto simp: same_rest_def same_cpu_def k2_def on_links_def timer_flag_def
        intro!: exI [of _ "th_stat (k_thread k1 t)"])
  moreover have "suspended k2 t" "\<not> active k2 (ThreadTimer t)"
    using s1 a1 by (simp_all add: k2_def on_links_def suspended_def thread_stat_def active_def timer_flag_def)
  ultimately show ?thesis using i2 touches_trans [OF t1] by blast
qed

section \<open>Scheduling at the end of an operation\<close>

text \<open>
  The state between two calls: a thread runs, it is ready, the idle thread is, the scheduler is not
  locked.
\<close>

definition running :: "tid \<Rightarrow> 'a kernel \<Rightarrow> bool" where
  "running c k = (k_current k = Some c \<and> k_lock_nest k = 0)"

lemma schedule_ok:
  assumes k: "kinv {} lo M k" and c: "running c k" and i: "ready k i"
  shows "\<exists>u. is_top M u \<and> rt_schedule k = Some (switch_to u k) \<and> kinv {} lo M (switch_to u k) \<and>
    running u (switch_to u k) \<and> ready (switch_to u k) u"
proof -
  obtain u where u: "is_top M u" using top_exists [OF k _ i] by auto
  have "ready k u" by (rule top_ready(1) [OF k u])
  moreover have "k_lock_nest (switch_to u k) = k_lock_nest k" using switch_to_facts(8) [of k u] by (simp add: same_rest_def)
  ultimately show ?thesis
    using u rt_schedule_top [OF k u] c k kinv_switch_to [of "{}" lo M u k] same_view_facts(1) [OF switch_to_facts(1) [of u k]]
    by (intro exI [of _ u]) (simp add: running_def switch_to_facts)
qed

lemma yield_ok:
  assumes k: "kinv {} lo M k" and c: "running c k" and r: "ready k c"
  shows "\<exists>u k'. rt_thread_yield k = Some k' \<and> kinv {} lo (rotate_map c k M) k' \<and> running u k' \<and> ready k' u \<and>
    k_thread k' = k_thread k \<and> k_timer k' = k_timer k \<and> k_object k' = k_object k \<and> same_rest k k' \<and>
    (if queue M (Ready (prio k c)) = [Tlist c] then k' = k \<and> u = c else is_top (rotate_map c k M) u \<and>
      k' = switch_to u (on_links (rt_list_insert_before (Ready (prio k c)) (Tlist c)) (on_links (rt_list_remove (Tlist c)) k)))"
proof -
  let ?p = "prio k c"
  have mem: "Tlist c \<in> set (queue M (Ready ?p))" and p8: "?p < 8"
    using kinvD(4) [OF k, of c] r by (auto simp: thread_ok_def prio_ok_def)
  obtain xs where xs: "M (Ready ?p) = Some xs" using kinvD(2) [OF k p8] by auto
  have alone: "nxt (k_links k) (Tlist c) = prv (k_links k) (Tlist c) \<longleftrightarrow> queue M (Ready ?p) = [Tlist c]"
    using alone_in_ring [OF kinvD(1) [OF k] xs, of "Tlist c"] mem xs by simp
  define k1 where "k1 = on_links (rt_list_remove (Tlist c)) k"
  define k2 where "k2 = on_links (rt_list_insert_before (Ready ?p) (Tlist c)) k1"
  have head: "ready_head (ucast (th_current_priority (k_thread k1 c))) = Some (Ready ?p)"
    using ready_head_prio [OF p8] by (simp add: k1_def on_links_def)
  have i2: "kinv {} lo (rotate_map c k M) k2" using kinv_rotate [OF k r] by (simp add: k1_def k2_def)
  have c2: "running c k2" and r2: "ready k2 c"
    using c r by (simp_all add: running_def k1_def k2_def on_links_def ready_def thread_stat_def)
  show ?thesis
  proof (cases "queue M (Ready ?p) = [Tlist c]")
    case True
    have "rotate_map c k M = M"
    proof
      fix h
      have "Tlist c \<notin> set (queue M g)" if "g \<noteq> Ready ?p" for g
        using rings_queue_unique [OF kinvD(1) [OF k] mem] that by blast
      then have "map_option (remove1 (Tlist c)) (M g) = M g" if "g \<noteq> Ready ?p" for g
        using that by (cases "M g") (auto simp: remove1_idem queue_def)
      moreover have "M (Tlist c) = None" by (rule rings_queue_None [OF kinvD(1) [OF k] mem])
      ultimately show "rotate_map c k M h = M h"
        using True xs by (auto simp: rotate_map_def link_last_def queue_unlink) (auto simp: unlink_def)
    qed
    moreover have "rt_thread_yield k = Some k" using c True alone by (simp add: rt_thread_yield_def running_def)
    ultimately show ?thesis using k c r True by auto
  next
    case False
    obtain u where u: "is_top (rotate_map c k M) u" "rt_schedule k2 = Some (switch_to u k2)"
      "kinv {} lo (rotate_map c k M) (switch_to u k2)" "running u (switch_to u k2)" "ready (switch_to u k2) u"
      using schedule_ok [OF i2 c2 r2] by blast
    have "rt_thread_yield k = Some (switch_to u k2)"
      using c r False alone head u(2)
      by (simp add: rt_thread_yield_def running_def ready_def Let_def k1_def [symmetric] k2_def [symmetric])
    moreover have "same_rest k k2" by (simp add: same_rest_def k2_def k1_def on_links_def)
    then have "same_rest k (switch_to u k2)" using switch_to_facts(8) same_rest_trans by blast
    ultimately show ?thesis using u False
      by (auto simp: switch_to_facts k2_def k1_def on_links_def)
  qed
qed

end
