(* ===== verification/Rt_Clock.thy ===== *)
theory Rt_Clock
  imports Rt_Wait
begin

text \<open>
  The clock tick: time passes for every timer, the running thread may yield, and the timers that are
  due wake their threads, exactly those. The timers are those of the threads; no timer of the
  application is running.
\<close>

definition thread_timers :: "(node \<rightharpoonup> node list) \<Rightarrow> bool" where
  "thread_timers M = (\<forall>tm \<in> set (timers M). \<exists>t. tm = ThreadTimer t)"

section \<open>Timeout of a wait\<close>

lemma loosen_insert:
  assumes k: "kinv {} lo M k" and s: "suspended k t" and a: "\<not> active k (ThreadTimer t)"
  shows "\<exists>k'. rt_schedule_insert_thread t (on_links (rt_list_remove (Tlist t)) k) = Some k' \<and>
    kinv {} lo (rotate_map t k M) k' \<and> ready k' t \<and> touches t k k'"
proof -
  define k1 where "k1 = on_links (rt_list_remove (Tlist t)) k"
  have i1: "kinv {t} lo (unlink (Tlist t) M) k1" using kinv_loosen(1) [OF k _ s] by (simp add: k1_def)
  have v: "same_view k1 k" by (simp add: same_view_def k1_def on_links_def)
  have "prio_ok k t" using kinvD(4) [OF k, of t] s by (simp add: thread_ok_def)
  then have p: "prio_ok k1 t" "prio k1 t = prio k t" "\<not> active k1 (ThreadTimer t)"
    using a same_view_facts [OF v] by simp_all
  obtain k3 where e3: "rt_schedule_insert_thread t k1 = Some k3" and d3: "differ_at t k3 k1" and r3: "ready k3 t"
    and i3: "kinv ({t} - {t}) lo (link_last (Ready (prio k1 t)) (Tlist t) (unlink (Tlist t) M)) k3"
    and k3: "k3 = k1\<lparr>k_links := k_links k3, k_group := k_group k3, k_thread := k_thread k3\<rparr>"
    and th3: "k_thread k3 = (k_thread k1)(t := (k_thread k1 t)\<lparr>th_stat := th_stat (k_thread k3 t)\<rparr>)"
    using kinv_insert_ready [OF i1 _ p(1,3)] by blast
  have "touches t k k3"
  proof -
    obtain a b c where abc: "k3 = k1\<lparr>k_links := a, k_group := b, k_thread := c\<rparr>" using k3 by blast
    have "k_thread k3 u = k_thread k u" if "u \<noteq> t" for u
      using fun_cong [OF th3, of u] that by (simp add: k1_def on_links_def)
    moreover have "\<exists>s. k_thread k3 t = (k_thread k t)\<lparr>th_stat := s\<rparr>"
      using fun_cong [OF th3, of t] by (auto simp: k1_def on_links_def)
    ultimately show ?thesis unfolding touches_def
      by (auto simp: same_rest_def same_cpu_def timer_flag_def abc k1_def on_links_def)
  qed
  then show ?thesis using e3 i3 r3 p(2) by (auto simp: k1_def rotate_map_def)
qed

lemma timeout_ok:
  assumes k: "kinv {} lo M k" and s: "suspended k t" and a: "\<not> active k (ThreadTimer t)" and c: "running c k"
  shows "\<exists>u k'. rt_thread_timeout t k = Some k' \<and> kinv {} lo (rotate_map t k M) k' \<and> running u k' \<and>
    is_top (rotate_map t k M) u \<and> ready k' t \<and> th_error (k_thread k' t) = - RT_ETIMEOUT \<and>
    (\<forall>v. v \<noteq> t \<longrightarrow> k_thread k' v = k_thread k v) \<and> same_rest k k' \<and>
    (\<forall>tm. tm \<noteq> ThreadTimer t \<longrightarrow> k_timer k' tm = k_timer k tm \<and> timer_flag tm k' = timer_flag tm k) \<and>
    \<not> active k' (ThreadTimer t)"
proof -
  define k1 where "k1 = set_error t (- RT_ETIMEOUT) k"
  have v: "same_view k1 k" by (simp add: same_view_def k1_def kernel_defs)
  have i1: "kinv {} lo M k1" using k kinv_view [OF v] by (simp add: k1_def kernel_defs)
  have p: "prio k1 t = prio k t" "suspended k1 t" "\<not> active k1 (ThreadTimer t)" using s a same_view_facts [OF v] by simp_all
  obtain k2 where e: "rt_schedule_insert_thread t (on_links (rt_list_remove (Tlist t)) k1) = Some k2"
    and i2: "kinv {} lo (rotate_map t k1 M) k2" and r2: "ready k2 t" and t2: "touches t k1 k2"
    using loosen_insert [OF i1 p(2,3)] by blast
  have m: "rotate_map t k1 M = rotate_map t k M" by (simp add: rotate_map_def p)
  have c2: "running c k2"
    using c t2 by (simp add: running_def touches_def same_cpu_def same_rest_def k1_def kernel_defs)
  obtain u where u: "is_top (rotate_map t k M) u" "rt_schedule k2 = Some (switch_to u k2)"
    "kinv {} lo (rotate_map t k M) (switch_to u k2)" "running u (switch_to u k2)"
    using schedule_ok [OF i2 c2 r2] m by auto
  have e': "rt_thread_timeout t k = Some (switch_to u k2)"
    using e u(2) by (simp add: rt_thread_timeout_def Let_def k1_def)
  have "same_rest k k1" by (simp add: same_rest_def k1_def kernel_defs)
  moreover have "same_rest k1 k2" using t2 by (simp add: touches_def)
  ultimately have rest: "same_rest k (switch_to u k2)"
    using switch_to_facts(8) [of k2 u] same_rest_trans by blast
  have th: "k_thread k1 v = (if v = t then (k_thread k t)\<lparr>th_error := - RT_ETIMEOUT\<rparr> else k_thread k v)" for v
    by (simp add: k1_def kernel_defs)
  have err: "th_error (k_thread k2 t) = - RT_ETIMEOUT" using touches_facts(4) [OF t2, of t] th by simp
  have oth: "k_thread k2 v = k_thread k v" if "v \<noteq> t" for v using t2 that th by (simp add: touches_def)
  have tms: "k_timer k2 tm = k_timer k tm \<and> timer_flag tm k2 = timer_flag tm k" if "tm \<noteq> ThreadTimer t" for tm
    using t2 that by (simp add: touches_def k1_def kernel_defs timer_flag_def)
  have ina: "\<not> active k2 (ThreadTimer t)" using ready_inactive [OF i2 _ r2] by simp
  have r3: "ready (switch_to u k2) t" using r2 same_view_facts [OF switch_to_facts(1) [of u k2]] by simp
  have ina3: "\<not> active (switch_to u k2) (ThreadTimer t)"
    using ina same_view_facts(5) [OF switch_to_facts(1) [of u k2]] by simp
  have err3: "th_error (k_thread (switch_to u k2) t) = - RT_ETIMEOUT" using err by (simp add: switch_to_facts)
  have oth3: "\<forall>v. v \<noteq> t \<longrightarrow> k_thread (switch_to u k2) v = k_thread k v" using oth by (simp add: switch_to_facts)
  have tms3: "\<forall>tm. tm \<noteq> ThreadTimer t \<longrightarrow> k_timer (switch_to u k2) tm = k_timer k tm \<and>
      timer_flag tm (switch_to u k2) = timer_flag tm k"
    using tms by (simp add: switch_to_facts timer_flag_def)
  show ?thesis using e' u r3 rest err3 oth3 tms3 ina3 by blast
qed

section \<open>One expired timer\<close>

text \<open>The row of a stopped timer enters the local list of the check.\<close>

lemma kinv_expire:
  assumes k: "kinv X lo M k" and a: "M (Row tm) = Some []" and e: "M Expired = Some []" and lv: "live k (OTimer tm)"
  shows "kinv X lo (M(Expired \<mapsto> [Row tm], Row tm := None)) (on_links (rt_list_insert_after Expired (Row tm)) k)"
    (is "kinv _ _ ?M ?k")
proof -
  note rings = kinvD(1) [OF k]
  have v: "same_view ?k k" by (simp add: same_view_def on_links_def)
  have qu: "queue ?M g = (if g = Expired then [Row tm] else if g = Row tm then [] else queue M g)" for g by simp
  have keep: "n \<in> set (queue M g) \<Longrightarrow> n \<in> set (queue ?M g)" for n g using a e by (auto simp: qu)
  have row: "in_place (Row u) M \<Longrightarrow> in_place (Row u) ?M" for u
  proof (cases "u = tm")
    case True
    have "Row tm \<in> set (queue ?M Expired)" by simp
    with True show ?thesis unfolding in_place_def by blast
  next
    case False
    assume "in_place (Row u) M"
    then consider "M (Row u) = Some []" | g where "Row u \<in> set (queue M g)" by (auto simp: in_place_def)
    then show ?thesis
    proof cases
      case 1 with False show ?thesis by (simp add: in_place_def)
    next
      case 2 from keep [OF this] show ?thesis by (auto simp only: in_place_def)
    qed
  qed
  have self: "M (Tlist u) = Some [] \<Longrightarrow> ?M (Tlist u) = Some []" for u by simp
  have whead: "wait_head g \<Longrightarrow> g \<noteq> Expired \<and> g \<noteq> Row tm" for g using wait_head_other by blast
  show ?thesis
  proof (rule kinvI)
    show "rings (k_links ?k) ?M"
      using rings_insert_head [OF rings e a] by (simp add: on_links_def)
    show "member_ok ?k g n" if "n \<in> set (queue ?M g)" for g n
      using that kinvD(3) [OF k, of n g] unfolding member_ok_view [OF v] qu by (auto split: if_splits)
    have "thread_ok ?M k u" if "u \<notin> X" for u
      using kinvD(4) [OF k that] row keep self unfolding thread_ok_def by blast
    then show "thread_ok ?M ?k u" if "u \<notin> X" for u using that thread_ok_view [OF v] by simp
    have "loose_ok ?M k u" if "u \<in> X" for u
      using kinvD(5) [OF k that] row keep self unfolding loose_ok_def by blast
    then show "loose_ok ?M ?k u" if "u \<in> X" for u using that loose_ok_view [OF v] by simp
    have "timers_ok lo ?M k" using kinvD(7) [OF k] by (simp add: timers_ok_def timers_def)
    then show "timers_ok lo ?M ?k" using timers_ok_view [OF v] by simp
    have "objs_ok ?M k"
    proof -
      note ob = kinvD(8) [OF k, unfolded objs_ok_def]
      have "(live k (owner g) \<longrightarrow> ?M g \<noteq> None) \<and> (queue ?M g \<noteq> [] \<longrightarrow> live k (owner g))" if g: "wait_head g" for g
        using ob g whead [OF g] by (simp add: qu)
      moreover have "live k (owner n)" if "n \<in> set (queue ?M g)" for g n
        using that ob lv by (auto simp: qu split: if_splits)
      ultimately show ?thesis using ob unfolding objs_ok_def by auto
    qed
    then show "objs_ok ?M ?k" using objs_ok_view [OF v] by simp
  qed (use kinvD(2,6) [OF k] in \<open>simp_all add: group_ok_def on_links_def\<close>)
qed

lemma and_not_disjoint: "x AND m = 0 \<Longrightarrow> x AND NOT m = (x :: u8)"
proof (rule bit_eqI)
  fix j assume z: "x AND m = 0" and "possible_bit TYPE(u8) j"
  have "\<not> bit (x AND m) j" using z by simp
  with \<open>possible_bit TYPE(u8) j\<close> show "bit (x AND NOT m) j = bit x j"
    by (auto simp: bit_and_iff bit_not_iff possible_bit_def)
qed

lemma timer_remove_off: "\<not> active k tm \<Longrightarrow> timer_off tm k = rt_timer_remove tm k"
proof -
  assume "\<not> active k tm"
  then have "timer_flag tm k AND NOT RT_TIMER_FLAG_ACTIVATED = timer_flag tm k"
    using and_not_disjoint [of "timer_flag tm k" RT_TIMER_FLAG_ACTIVATED] by (simp add: active_def)
  then show ?thesis by (simp add: timer_off_def rt_timer_remove_def kernel_defs timer_flag_def fun_upd_idem)
qed

lemma rotate_map_other: "h \<noteq> Tlist t \<Longrightarrow> (\<And>p. h \<noteq> Ready p) \<Longrightarrow> Tlist t \<notin> set (queue M h) \<Longrightarrow> rotate_map t k M h = M h"
  by (cases "M h") (auto simp: rotate_map_def link_last_def unlink_def remove1_idem)

text \<open>
  What a check leaves alone: all threads outside \<open>W\<close>, all timers that are not theirs.
\<close>

definition wakes :: "tid set \<Rightarrow> 'a kernel \<Rightarrow> 'a kernel \<Rightarrow> bool" where
  "wakes W k l = (same_rest k l \<and>
     (\<forall>t \<in> W. ready l t \<and> th_error (k_thread l t) = - RT_ETIMEOUT) \<and>
     (\<forall>v. v \<notin> W \<longrightarrow> k_thread l v = k_thread k v) \<and>
     (\<forall>tm. tm \<notin> ThreadTimer ` W \<longrightarrow> k_timer l tm = k_timer k tm \<and> timer_flag tm l = timer_flag tm k))"

lemma wakes_refl: "wakes {} k k" by (simp add: wakes_def)

lemma wakes_trans:
  assumes "wakes V k l" "wakes W l m" "V \<inter> W = {}"
  shows "wakes (V \<union> W) k m"
proof -
  have "ready m t \<and> th_error (k_thread m t) = - RT_ETIMEOUT" if "t \<in> V" for t
  proof -
    have "k_thread m t = k_thread l t" using assms(2,3) that by (auto simp: wakes_def)
    with assms(1) that show ?thesis by (simp add: wakes_def ready_def thread_stat_def)
  qed
  then show ?thesis using assms unfolding wakes_def by (auto intro: same_rest_trans simp: image_Un)
qed

lemma running_touches: "touches t k l \<Longrightarrow> running c l = running c k"
  by (simp add: touches_def same_rest_def same_cpu_def running_def)

lemma links_touch:
  "touches t k (on_links f k)"
  by (auto simp: touches_def same_rest_def same_cpu_def on_links_def timer_flag_def intro!: exI [of _ "th_stat (k_thread k t)"])

text \<open>The queues of waiting threads only lose members.\<close>

definition shrinks :: "(node \<rightharpoonup> node list) \<Rightarrow> (node \<rightharpoonup> node list) \<Rightarrow> bool" where
  "shrinks M N = (\<forall>h. wait_head h \<longrightarrow> set (queue N h) \<subseteq> set (queue M h))"

lemma shrinks_refl [simp]: "shrinks M M"
  and shrinks_trans: "shrinks L M \<Longrightarrow> shrinks M N \<Longrightarrow> shrinks L N"
  by (auto simp: shrinks_def)

lemma shrinks_unlink: "shrinks M (unlink n M)"
  by (auto simp: shrinks_def queue_unlink elim: subsetD [OF set_remove1_subset])

lemma shrinks_rotate: "shrinks M (rotate_map t k M)"
  by (auto simp: shrinks_def rotate_map_def queue_link_last queue_unlink elim: subsetD [OF set_remove1_subset])

lemma shrinks_upd: "\<not> wait_head h \<Longrightarrow> shrinks M (M(h := x))" "shrinks M (M(n := None))"
  by (auto simp: shrinks_def)

lemma timer_fire_ok:
  assumes k: "kinv {} lo M k" and tms: "timers M = ThreadTimer t # rest" and e: "M Expired = Some []" and c: "running c k"
  shows "\<exists>u k' M'. timer_fire cb (ThreadTimer t) k = Some k' \<and> kinv {} lo M' k' \<and> timers M' = rest \<and>
    M' Expired = Some [] \<and> running u k' \<and> is_top M' u \<and> wakes {t} k k' \<and> shrinks M M'"
proof -
  let ?tm = "ThreadTimer t"
  have mem: "Row ?tm \<in> set (queue M TimerList)" using tms in_timers [OF k] by simp
  then have place: "in_place (Row ?tm) M" by (auto simp: in_place_def)
  have ok: "active k ?tm" "suspended k t" "thread_timer_ok k t" using kinvD(3) [OF k mem] by auto
  have lv: "live k (OTimer ?tm)" using kinvD(8) [OF k] mem by (force simp: objs_ok_def)
  define k2 where "k2 = timer_off ?tm k"
  note off = timer_off_facts [of ?tm k, folded k2_def]
  have i2: "kinv {} lo (unlink (Row ?tm) M) k2" using kinv_timer_off [OF k place] by (simp add: k2_def)
  define M2 where "M2 = (unlink (Row ?tm) M)(Expired \<mapsto> [Row ?tm], Row ?tm := None)"
  define k3 where "k3 = on_links (rt_list_insert_after Expired (Row ?tm)) k2"
  have i3: "kinv {} lo M2 k3"
    unfolding M2_def k3_def
    by (rule kinv_expire [OF i2]) (use e lv off differ_timer_facts(10) [OF off(1)] in \<open>auto simp: unlink_Nil\<close>)
  have v3: "same_view k3 k2" by (simp add: same_view_def k3_def on_links_def)
  have s3: "suspended k3 t" "\<not> active k3 ?tm"
    using ok(2) off(2) same_view_facts [OF v3] differ_timer_facts(2) [OF off(1)] by simp_all
  have t3: "touches t k k3" using touches_trans [OF timer_off_touches links_touch] by (simp add: k2_def k3_def)
  have c3: "running c k3" using c running_touches [OF t3] by simp
  obtain u k4 where e4: "rt_thread_timeout t k3 = Some k4" and i4: "kinv {} lo (rotate_map t k3 M2) k4"
    and c4: "running u k4" "is_top (rotate_map t k3 M2) u" and r4: "ready k4 t"
    and err: "th_error (k_thread k4 t) = - RT_ETIMEOUT" and oth: "\<forall>v. v \<noteq> t \<longrightarrow> k_thread k4 v = k_thread k3 v"
    and sr: "same_rest k3 k4"
    and tm4: "\<forall>tm. tm \<noteq> ?tm \<longrightarrow> k_timer k4 tm = k_timer k3 tm \<and> timer_flag tm k4 = timer_flag tm k3"
    and a4: "\<not> active k4 ?tm"
    using timeout_ok [OF i3 s3 c3] by blast
  let ?M3 = "rotate_map t k3 M2"
  have th3: "k_thread k3 = k_thread k" "k_timer k3 = k_timer k" "k_object k3 = k_object k2"
    using off(1,4) by (simp_all add: k3_def on_links_def differ_timer_def)
  have np: "timer_flag ?tm (rt_timer_remove ?tm k) AND RT_TIMER_FLAG_PERIODIC = 0"
    using ok(3) by (simp add: thread_timer_ok_def periodic_def rt_timer_remove_def on_links_def timer_flag_def)
  have call: "call_timeout cb (tm_func (k_timer k3 ?tm)) (tm_parameter (k_timer k3 ?tm)) k3 = Some k4"
    using ok(3) e4 by (simp add: th3 thread_timer_ok_def)
  have exp: "?M3 Expired = Some [Row ?tm]" by (subst rotate_map_other) (simp_all add: M2_def)
  have ne: "\<not> rt_list_isempty Expired (k_links k4)"
    using ring_isempty [OF ringsD [OF kinvD(1) [OF i4] exp]] by simp
  define k5 where "k5 = rt_timer_remove ?tm k4"
  have k5: "k5 = timer_off ?tm k4" using timer_remove_off [OF a4] by (simp add: k5_def)
  have place3: "in_place (Row ?tm) ?M3" unfolding in_place_def using exp by (metis list.set_intros(1) queue_Some)
  have i5: "kinv {} lo (unlink (Row ?tm) ?M3) k5" unfolding k5 by (rule kinv_timer_off [OF i4 place3])
  have np5: "timer_flag ?tm k5 AND RT_TIMER_FLAG_PERIODIC = 0"
  proof -
    have "thread_timer_ok k4 t" using kinvD(4) [OF i4, of t] r4 by (simp add: thread_ok_def)
    then show ?thesis by (simp add: k5_def thread_timer_ok_def periodic_def rt_timer_remove_def on_links_def timer_flag_def)
  qed
  have fire: "timer_fire cb ?tm k = Some k5"
    using np call ne np5
    by (simp add: timer_fire_def Let_def timer_off_def [symmetric] k2_def [symmetric] k3_def [symmetric] k5_def [symmetric])
  have q3: "queue ?M3 TimerList = queue (unlink (Row ?tm) M) TimerList"
    using kinvD(3) [OF i3, of "Tlist t" TimerList] by (simp add: queue_def) (subst rotate_map_other, auto simp: M2_def queue_def)
  have "timers ?M3 = timers (unlink (Row ?tm) M)" by (simp add: timers_def q3)
  also have "\<dots> = rest"
    using timers_distinct [OF k] tms by (simp add: timers_unlink_row [OF k] filter_id_conv) auto
  finally have tms3: "timers ?M3 = rest" .
  have "?tm \<notin> set rest" using timers_distinct [OF k] tms by simp
  then have tms5: "timers (unlink (Row ?tm) ?M3) = rest"
    using tms3 by (simp add: timers_unlink_row [OF i4] filter_id_conv) auto
  have top: "is_top (unlink (Row ?tm) ?M3) u"
  proof -
    have "queue (unlink (Row ?tm) ?M3) (Ready p) = queue ?M3 (Ready p)" for p
      using kinvD(3) [OF i4, of "Row ?tm" "Ready p"] by (auto intro: queue_unlink_idem)
    then show ?thesis using c4(2) by (simp add: is_top_def)
  qed
  have t5: "touches t k4 k5" unfolding k5 by (rule timer_off_touches)
  have "wakes {t} k k5"
    unfolding wakes_def
  proof (intro conjI ballI allI impI)
    show "same_rest k k5" using t3 sr t5 same_rest_trans by (metis touches_def)
    fix v assume "v \<in> {t}"
    then show "ready k5 v" "th_error (k_thread k5 v) = - RT_ETIMEOUT"
      using r4 err by (simp_all add: k5_def rt_timer_remove_def on_links_def ready_def thread_stat_def)
  next
    fix v assume "v \<notin> {t}"
    then show "k_thread k5 v = k_thread k v" using oth th3 by (simp add: k5_def rt_timer_remove_def on_links_def)
  next
    fix tm assume "tm \<notin> ThreadTimer ` {t}"
    then have n: "tm \<noteq> ?tm" by simp
    then show "k_timer k5 tm = k_timer k tm" using tm4 th3 by (simp add: k5_def rt_timer_remove_def on_links_def)
    have "timer_flag tm k5 = timer_flag tm k4" by (simp add: k5_def rt_timer_remove_def on_links_def timer_flag_def)
    also have "\<dots> = timer_flag tm k2" using tm4 n th3 by (simp add: timer_flag_def)
    also have "\<dots> = timer_flag tm k" using off(1) n by (simp add: differ_timer_def)
    finally show "timer_flag tm k5 = timer_flag tm k" .
  qed
  moreover have "unlink (Row ?tm) ?M3 Expired = Some []" using exp by (simp add: unlink_def)
  moreover have "running u k5" using running_touches [OF t5] c4(1) by simp
  moreover have "shrinks M (unlink (Row ?tm) ?M3)"
  proof -
    have "shrinks M M2"
      unfolding M2_def
      by (rule shrinks_trans [OF shrinks_unlink shrinks_trans [OF shrinks_upd(1) shrinks_upd(2)]]) simp
    then show ?thesis by (rule shrinks_trans) (rule shrinks_trans [OF shrinks_rotate shrinks_unlink])
  qed
  ultimately show ?thesis using fire i5 tms5 top by blast
qed

section \<open>The check\<close>

lemma expired_test:
  assumes "- 1 \<le> due k tm" "due k tm < 2 ^ 31 - 1"
  shows "k_tick k - tm_timeout_tick (k_timer k tm) < RT_TICK_MAX div 2 \<longleftrightarrow> due k tm \<le> 0"
proof -
  define x where "x = tm_timeout_tick (k_timer k tm) - k_tick k"
  have "k_tick k - tm_timeout_tick (k_timer k tm) = - x" by (simp add: x_def)
  also have "\<dots> = - word_of_int (sint x)" by simp
  also have "\<dots> = word_of_int (- sint x)" by (simp only: wi_hom_neg)
  finally have u: "uint (k_tick k - tm_timeout_tick (k_timer k tm)) = (- due k tm) mod 2 ^ 32"
    by (simp only: uint_word_of_int due_def x_def) simp
  have m: "k_tick k - tm_timeout_tick (k_timer k tm) < RT_TICK_MAX div 2 \<longleftrightarrow>
    uint (k_tick k - tm_timeout_tick (k_timer k tm)) < 2 ^ 31 - 1"
    by (simp add: word_less_def RT_TICK_MAX_def uint_div)
  show ?thesis
  proof (cases "due k tm \<le> 0")
    case True
    with assms(1) have "uint (k_tick k - tm_timeout_tick (k_timer k tm)) = - due k tm"
      unfolding u by (intro mod_pos_pos_trivial) auto
    with True assms(1) m show ?thesis by simp
  next
    case False
    then have "(- due k tm) mod 2 ^ 32 = 2 ^ 32 - due k tm"
      using assms(2) by (subst mod_pos_pos_trivial [of "2 ^ 32 - due k tm" "2 ^ 32", symmetric]) auto
    with False assms(2) u have "\<not> uint (k_tick k - tm_timeout_tick (k_timer k tm)) < 2 ^ 31 - 1" by simp
    with False m show ?thesis by simp
  qed
qed

text \<open>The threads whose timers have run out.\<close>

definition expired :: "'a kernel \<Rightarrow> (node \<rightharpoonup> node list) \<Rightarrow> tid set" where
  "expired k M = {t. ThreadTimer t \<in> set (timers M) \<and> due k (ThreadTimer t) \<le> 0}"

lemma check_loop_ok:
  assumes "kinv {} (- 1) M k" "M Expired = Some []" "running c k" "thread_timers M"
  shows "\<exists>u k' M'. timer_check_loop cb (k_tick k) k = Some k' \<and> kinv {} (- 1) M' k' \<and> M' Expired = Some [] \<and>
    running u k' \<and> (\<forall>tm \<in> set (timers M'). 0 < due k' tm) \<and> set (timers M') \<subseteq> set (timers M) \<and>
    wakes (expired k M) k k' \<and> (if expired k M = {} then k' = k \<and> u = c \<and> M' = M else is_top M' u) \<and>
    shrinks M M'"
  using assms
proof (induction "timers M" arbitrary: M k c)
  case Nil
  have T: "timers M = []" using Nil.hyps by simp
  have "queue M TimerList = []" using timer_rows [OF Nil.prems(1)] T by simp
  moreover obtain xs where "M TimerList = Some xs" using kinvD(7) [OF Nil.prems(1)] by (auto simp: timers_ok_def)
  ultimately have "rt_list_isempty TimerList (k_links k)"
    using ring_isempty [OF ringsD [OF kinvD(1) [OF Nil.prems(1)]]] by simp
  then have "timer_check_loop cb (k_tick k) k = Some k" by (simp add: timer_check_loop.simps)
  then show ?case
    using Nil.prems wakes_refl T by (intro exI [of _ c] exI [of _ k] exI [of _ M]) (simp add: expired_def)
next
  case (Cons tm rest)
  note k = Cons.prems(1)
  have T: "timers M = tm # rest" using Cons.hyps(2) by simp
  obtain t where tm: "tm = ThreadTimer t" using Cons.prems(4) T by (auto simp: thread_timers_def)
  have rows: "queue M TimerList = map Row (tm # rest)" using timer_rows [OF k] T by simp
  obtain xs where xs: "M TimerList = Some xs" using kinvD(7) [OF k] by (auto simp: timers_ok_def)
  have ring: "ring (k_links k) TimerList (map Row (tm # rest))"
    using ringsD [OF kinvD(1) [OF k] xs] rows xs by simp
  have ne: "\<not> rt_list_isempty TimerList (k_links k)" using ring_isempty [OF ring] by simp
  have first: "timer_of (nxt (k_links k) TimerList) = Some tm" using ring_first [OF ring] by simp
  have tin: "tm \<in> set (timers M)" by (simp add: T)
  have range: "- 1 \<le> due k tm" "due k tm < 2 ^ 31 - 1" using kinvD(7) [OF k] tin by (auto simp: timers_ok_def)
  have sorted: "\<forall>x \<in> set rest. due k tm \<le> due k x"
    using kinvD(7) [OF k] by (simp add: timers_ok_def T)
  show ?case
  proof (cases "due k tm \<le> 0")
    case False
    have e: "expired k M = {}" using False sorted by (auto simp: expired_def T)
    have "timer_check_loop cb (k_tick k) k = Some k"
      using ne first expired_test [OF range] False by (subst timer_check_loop.simps) simp
    moreover have "\<forall>tm \<in> set (timers M). 0 < due k tm" using False sorted by (auto simp add: T)
    ultimately show ?thesis using Cons.prems wakes_refl e by (intro exI [of _ c] exI [of _ k] exI [of _ M]) simp
  next
    case True
    obtain u k1 M1 where f: "timer_fire cb tm k = Some k1" "kinv {} (- 1) M1 k1" "timers M1 = rest" "M1 Expired = Some []"
      "running u k1" "is_top M1 u" "wakes {t} k k1" "shrinks M M1"
      using timer_fire_ok [OF k _ Cons.prems(2,3), of t rest cb] T tm by metis
    have tick: "tick_get k1 = k_tick k1" "k_tick k1 = k_tick k" using f(7) by (simp_all add: tick_get_def wakes_def same_rest_def)
    have tt: "thread_timers M1" using Cons.prems(4) f(3) by (auto simp: thread_timers_def T)
    obtain v k2 M2 where g: "timer_check_loop cb (k_tick k1) k1 = Some k2" "kinv {} (- 1) M2 k2" "M2 Expired = Some []"
      "running v k2" "\<forall>tm \<in> set (timers M2). 0 < due k2 tm" "set (timers M2) \<subseteq> set (timers M1)"
      "wakes (expired k1 M1) k1 k2" "if expired k1 M1 = {} then k2 = k1 \<and> v = u \<and> M2 = M1 else is_top M2 v"
      "shrinks M1 M2"
      using Cons.hyps(1) [OF f(3) [symmetric] f(2,4,5) tt] by blast
    have dist: "tm \<notin> set rest" using timers_distinct [OF k] by (simp add: T)
    have due: "due k1 x = due k x" if "x \<in> set rest" for x
    proof -
      have "x \<notin> ThreadTimer ` {t}" using that dist tm by auto
      then show ?thesis using f(7) tick by (simp add: wakes_def due_def)
    qed
    have ex: "expired k M = {t} \<union> expired k1 M1" "{t} \<inter> expired k1 M1 = {}"
      using True due dist tm f(3) by (auto simp: expired_def T)
    have "timer_check_loop cb (k_tick k) k = Some k2"
      using ne first expired_test [OF range] True f(1) g(1) tick by (subst timer_check_loop.simps) simp
    moreover have "wakes (expired k M) k k2" using wakes_trans [OF f(7) g(7) ex(2)] ex(1) by simp
    moreover have "is_top M2 v" using g(8) f(6) by (auto split: if_splits)
    moreover have "set (timers M2) \<subseteq> set (timers M)" using g(6) f(3) by (auto simp add: T)
    moreover have "shrinks M M2" using f(8) g(9) shrinks_trans by blast
    ultimately show ?thesis using g ex(1) by auto
  qed
qed

section \<open>The tick\<close>

lemma due_tick:
  assumes "- (2 ^ 31) < due k tm"
  shows "due (k\<lparr>k_tick := k_tick k + 1\<rparr>) tm = due k tm - 1"
proof -
  define x where "x = tm_timeout_tick (k_timer k tm) - k_tick k"
  have s: "- (2 ^ 31) < sint x" "sint x < 2 ^ 31"
    using assms sint_lt [of x] by (simp_all add: due_def x_def)
  have "tm_timeout_tick (k_timer k tm) - (k_tick k + 1) = word_of_int (sint x) - 1" by (simp add: x_def)
  also have "\<dots> = word_of_int (sint x - 1)" by (simp flip: wi_hom_sub)
  finally have "sint (tm_timeout_tick (k_timer k tm) - (k_tick k + 1)) = signed_take_bit 31 (sint x - 1)"
    by (simp only: sint_sbintrunc') simp
  also have "\<dots> = sint x - 1" by (rule signed_take_bit_int_eq_self) (use s in auto)
  finally show ?thesis by (simp add: due_def x_def)
qed

lemma kinv_tick:
  assumes k: "kinv X 0 M k"
  shows "kinv X (- 1) M (k\<lparr>k_tick := k_tick k + 1\<rparr>)" (is "kinv _ _ _ ?k")
proof -
  have f: "ready ?k = ready k" "suspended ?k = suspended k" "prio ?k = prio k" "prio_ok ?k = prio_ok k"
    "active ?k = active k" "thread_timer_ok ?k = thread_timer_ok k" "live ?k = live k"
    by (simp_all add: fun_eq_iff ready_def suspended_def prio_def prio_ok_def active_def periodic_def
        thread_timer_ok_def live_def thread_stat_def timer_flag_def)
  have m: "member_ok ?k h n = member_ok k h n" for h n by (cases h) (simp_all add: f)
  have d: "due ?k tm = due k tm - 1" if "tm \<in> set (timers M)" for tm
    using kinvD(7) [OF k] that by (intro due_tick) (auto simp: timers_ok_def)
  have e: "map (due ?k) (timers M) = map (\<lambda>x. x - 1) (map (due k) (timers M))" using d by simp
  have "sorted (map (\<lambda>x. x - 1) xs)" if "sorted xs" for xs :: "int list"
    using that by (induction xs) auto
  moreover have "sorted (map (due k) (timers M))" using kinvD(7) [OF k] by (simp add: timers_ok_def)
  ultimately have "sorted (map (due ?k) (timers M))" unfolding e by blast
  then have "timers_ok (- 1) M ?k"
    using kinvD(7) [OF k] d by (auto simp: timers_ok_def)
  then show ?thesis
    using k unfolding kinv_def thread_ok_def loose_ok_def group_ok_def objs_ok_def by (simp add: f m)
qed

lemma kinv_raise:
  assumes "kinv X lo M k" "\<forall>tm \<in> set (timers M). lo' \<le> due k tm"
  shows "kinv X lo' M k"
  using assms by (auto simp: kinv_def timers_ok_def)

lemma kinv_init_expired:
  assumes k: "kinv X lo M k" and e: "queue M Expired = []"
  shows "kinv X lo (M(Expired \<mapsto> [])) (on_links (rt_list_init Expired) k)" (is "kinv _ _ ?M ?k")
proof -
  have v: "same_view ?k k" by (simp add: same_view_def on_links_def)
  have q: "queue ?M = queue M" using e by (simp add: fun_eq_iff)
  have nomem: "Expired \<notin> set (queue M h)" for h
    using kinvD(3) [OF k, of Expired h] by (cases h) auto
  have "Expired \<notin> members M h" if "h \<noteq> Expired" for h
    using nomem [of h] that by (auto simp: members_def queue_def split: option.splits)
  then have r: "rings (k_links ?k) ?M" using rings_init [OF kinvD(1) [OF k]] by (simp add: on_links_def)
  have p: "in_place n ?M = in_place n M" if "n \<noteq> Expired" for n using that by (simp add: in_place_def q)
  have whead: "wait_head h \<Longrightarrow> h \<noteq> Expired" for h using wait_head_other by blast
  show ?thesis
  proof (rule kinvI)
    show "thread_ok ?M ?k u" if "u \<notin> X" for u
      using kinvD(4) [OF k that] thread_ok_view [OF v, of ?M] by (simp add: thread_ok_def q p)
    show "loose_ok ?M ?k u" if "u \<in> X" for u
      using kinvD(5) [OF k that] loose_ok_view [OF v, of ?M] by (simp add: loose_ok_def q p)
    show "timers_ok lo ?M ?k" using kinvD(7) [OF k] timers_ok_view [OF v, of lo ?M] by (simp add: timers_ok_def timers_def q)
    have "objs_ok ?M k" using kinvD(8) [OF k] whead unfolding objs_ok_def q by auto
    then show "objs_ok ?M ?k" using objs_ok_view [OF v] by simp
  qed (use r kinvD(2,3,6) [OF k] member_ok_view [OF v] in \<open>auto simp: q group_ok_def on_links_def\<close>)
qed

text \<open>What the kernel looks like between two operations.\<close>

definition steady :: "(node \<rightharpoonup> node list) \<Rightarrow> tid \<Rightarrow> 'a kernel \<Rightarrow> bool" where
  "steady M c k = (kinv {} 0 M k \<and> running c k \<and> ready k c \<and> thread_timers M \<and> queue M Expired = [])"

lemma rt_timer_check_ok:
  assumes k: "kinv {} (- 1) M k" and c: "running c k" "ready k c" and t: "thread_timers M" and e: "queue M Expired = []"
  shows "\<exists>u k' M'. rt_timer_check cb k = Some k' \<and> steady M' u k' \<and> wakes (expired k M) k k' \<and>
    (is_top M c \<or> expired k M \<noteq> {} \<longrightarrow> is_top M' u) \<and> shrinks M M'"
proof -
  let ?k = "on_links (rt_list_init Expired) k" and ?M = "M(Expired \<mapsto> [])"
  have i: "kinv {} (- 1) ?M ?k" by (rule kinv_init_expired [OF k e])
  have c1: "running c ?k" using c(1) by (simp add: running_def on_links_def)
  have tm: "timers ?M = timers M" by (simp add: timers_def)
  have v: "same_view ?k k" by (simp add: same_view_def on_links_def)
  have ex: "expired ?k ?M = expired k M" using same_view_facts(8) [OF v] by (simp add: expired_def tm)
  obtain u k' M' where l: "timer_check_loop cb (k_tick ?k) ?k = Some k'" "kinv {} (- 1) M' k'" "M' Expired = Some []"
    "running u k'" "\<forall>tm \<in> set (timers M'). 0 < due k' tm" "set (timers M') \<subseteq> set (timers ?M)"
    "wakes (expired k M) ?k k'" "if expired k M = {} then k' = ?k \<and> u = c \<and> M' = ?M else is_top M' u"
    "shrinks ?M M'"
    using check_loop_ok [OF i _ c1, of cb] t ex by (auto simp: thread_timers_def tm)
  have "kinv {} 0 M' k'" using kinv_raise [OF l(2), of 0] l(5) by force
  moreover have "thread_timers M'" using l(6) t by (auto simp: thread_timers_def tm)
  moreover have "ready k' u"
  proof (cases "expired k M = {}")
    case True
    then show ?thesis using l(8) c(2) same_view_facts(1) [OF v] by simp
  next
    case False
    then show ?thesis using l(8) top_ready(1) [OF l(2)] by simp
  qed
  moreover have "wakes {} k ?k" by (simp add: wakes_def same_rest_def on_links_def timer_flag_def)
  from wakes_trans [OF this l(7)] have "wakes (expired k M) k k'" by simp
  moreover have "rt_timer_check cb k = Some k'" using l(1) by (simp add: rt_timer_check_def tick_get_def)
  moreover have "is_top M c \<or> expired k M \<noteq> {} \<longrightarrow> is_top M' u" using l(8) by (auto simp: is_top_def split: if_splits)
  moreover have "shrinks M M'" using l(9) shrinks_trans [OF shrinks_upd(1) [of Expired]] by auto
  ultimately show ?thesis using l(2,3,4) unfolding steady_def by (metis queue_Some)
qed

end
