(* ===== verification/Rt_System.thy ===== *)
theory Rt_System
  imports Rt_Clock
begin

text \<open>
  The operations an application and the clock interrupt perform on the kernel, each from a steady
  state to a steady state: the tick, sleeping, suspending, resuming and changing the priority of
  threads, semaphores.
\<close>

lemma steadyD:
  assumes "steady M c k"
  shows "kinv {} 0 M k" "running c k" "ready k c" "thread_timers M" "queue M Expired = []" "k_current k = Some c" "k_lock_nest k = 0"
  using assms by (simp_all add: steady_def running_def)

lemma steady_switch:
  assumes k: "kinv {} 0 M k" and c: "running c k" and i: "ready k i" and t: "thread_timers M" and e: "queue M Expired = []"
  shows "\<exists>u. rt_schedule k = Some (switch_to u k) \<and> steady M u (switch_to u k) \<and> is_top M u"
  using schedule_ok [OF k c i] t e by (auto simp: steady_def)

section \<open>The maps of the operations on the timer list\<close>

lemma unlink_thread_timers:
  "kinv X lo M k \<Longrightarrow> timers (unlink (Tlist t) M) = timers M"
proof -
  assume k: "kinv X lo M k"
  have "Tlist t \<notin> set (queue M TimerList)" using kinvD(3) [OF k, of "Tlist t" TimerList] by auto
  then show ?thesis by (simp add: timers_def queue_unlink_idem)
qed

lemma unlink_thread_expired: "kinv X lo M k \<Longrightarrow> queue M Expired = [] \<Longrightarrow> queue (unlink (Tlist t) M) Expired = []"
  by (simp add: queue_unlink)

lemma unlink_row_expired: "queue M Expired = [] \<Longrightarrow> queue (unlink (Row tm) M) Expired = []"
  by (simp add: queue_unlink)

lemma rotate_timers:
  "kinv X lo M k \<Longrightarrow> timers (rotate_map t l M) = timers M"
  using unlink_thread_timers [of X lo M k t] by (simp add: rotate_map_def timers_def queue_link_last)

lemma rotate_expired: "queue M Expired = [] \<Longrightarrow> queue (rotate_map t l M) Expired = []"
  by (simp add: rotate_map_def queue_link_last queue_unlink)

lemma wait_map_timers:
  assumes k: "kinv X lo M k" and h: "wait_head h"
  shows "timers (wait_map h t f l M) = timers M" "queue M Expired = [] \<Longrightarrow> queue (wait_map h t f l M) Expired = []"
proof -
  have n: "TimerList \<noteq> h" "Expired \<noteq> h" using wait_head_other [OF h] by metis+
  show "timers (wait_map h t f l M) = timers M"
    using unlink_thread_timers [OF k, of t] n by (simp add: wait_map_def Let_def enqueue_map_def timers_def split: prod.split)
  show "queue M Expired = [] \<Longrightarrow> queue (wait_map h t f l M) Expired = []"
    using n by (simp add: wait_map_def Let_def enqueue_map_def queue_unlink split: prod.split)
qed

lemma start_map_facts:
  assumes "kinv X lo M k" "thread_timers M"
  shows "thread_timers (start_map (ThreadTimer t) l d M)"
    "queue M Expired = [] \<Longrightarrow> queue (start_map tm l d M) Expired = []"
  using assms by (auto simp: thread_timers_def set_timers_start_map timers_unlink_row queue_start_map queue_unlink)

lemma resume_map_facts:
  assumes k: "kinv X lo M k"
  shows "set (timers (resume_map t k M)) \<subseteq> set (timers M)" "queue M Expired = [] \<Longrightarrow> queue (resume_map t k M) Expired = []"
proof -
  have "timers (resume_map t k M) =
    (if active k (ThreadTimer t) then map (the \<circ> timer_of) (remove1 (Row (ThreadTimer t)) (queue (unlink (Tlist t) M) TimerList))
     else timers (unlink (Tlist t) M))"
    by (simp add: resume_map_def timers_def queue_link_last queue_unlink)
  moreover have "map (the \<circ> timer_of) (queue (unlink (Tlist t) M) TimerList) = timers M"
    using unlink_thread_timers [OF k, of t] by (simp add: timers_def)
  ultimately show "set (timers (resume_map t k M)) \<subseteq> set (timers M)"
    using unlink_thread_timers [OF k, of t]
      image_mono [OF set_remove1_subset [of "Row (ThreadTimer t)" "queue (unlink (Tlist t) M) TimerList"], of "the \<circ> timer_of"]
    by (metis list.set_map order_refl)
  show "queue M Expired = [] \<Longrightarrow> queue (resume_map t k M) Expired = []"
    by (simp add: resume_map_def queue_link_last queue_unlink)
qed

lemma thread_timers_mono: "thread_timers M \<Longrightarrow> set (timers N) \<subseteq> set (timers M) \<Longrightarrow> thread_timers N"
  by (auto simp: thread_timers_def)

lemma is_top_rotate_alone:
  assumes k: "kinv X lo M k" and q: "queue M (Ready (prio k c)) = [Tlist c]" and t: "is_top M c"
  shows "is_top (rotate_map c k M) c"
proof -
  obtain p ts where p: "p < 8" "queue M (Ready p) = Tlist c # ts" "\<forall>q<p. queue M (Ready q) = []"
    using t by (auto simp: is_top_def)
  have "Ready p = Ready (prio k c)" by (rule rings_queue_unique [OF kinvD(1) [OF k], of "Tlist c"]) (simp_all add: p q)
  then show ?thesis
    using p q unfolding is_top_def
    by (intro exI [of _ p]) (simp add: rotate_map_def queue_link_last queue_unlink)
qed

section \<open>The tick\<close>

text \<open>The threads whose wait is over with the next tick.\<close>

definition to_wake :: "'a kernel \<Rightarrow> tid set" where
  "to_wake k = {t. suspended k t \<and> active k (ThreadTimer t) \<and> due k (ThreadTimer t) \<le> 1}"

lemma to_wake_timers:
  assumes k: "kinv {} lo M k"
  shows "to_wake k = {t. ThreadTimer t \<in> set (timers M) \<and> due k (ThreadTimer t) \<le> 1}"
proof -
  have "suspended k t \<and> active k (ThreadTimer t) \<longleftrightarrow> Row (ThreadTimer t) \<in> set (queue M TimerList)" for t
    using kinvD(4) [OF k, of t] kinvD(3) [OF k, of "Row (ThreadTimer t)" TimerList] by (auto simp: thread_ok_def)
  then show ?thesis by (auto simp: to_wake_def in_timers [OF k])
qed

lemma tick_increase_ok:
  assumes k: "steady M c k"
  shows "\<exists>u k' M'. rt_tick_increase cb k = Some k' \<and> steady M' u k' \<and> k_tick k' = k_tick k + 1 \<and>
    (\<forall>t \<in> to_wake k. ready k' t \<and> th_error (k_thread k' t) = - RT_ETIMEOUT) \<and>
    (\<forall>t. t \<notin> to_wake k \<longrightarrow> th_stat (k_thread k' t) = th_stat (k_thread k t) \<and> th_error (k_thread k' t) = th_error (k_thread k t)) \<and>
    (\<forall>t. t \<notin> to_wake k \<longrightarrow> k_timer k' (ThreadTimer t) = k_timer k (ThreadTimer t) \<and>
      timer_flag (ThreadTimer t) k' = timer_flag (ThreadTimer t) k) \<and>
    (is_top M c \<or> to_wake k \<noteq> {} \<longrightarrow> is_top M' u) \<and> shrinks M M' \<and> (switch_ok k \<longrightarrow> switch_ok k') \<and>
    k_sem k' = k_sem k \<and> k_mb k' = k_mb k \<and> k_interrupt_nest k' = k_interrupt_nest k \<and> k_pending k' = k_pending k \<and>
    (\<forall>ob. o_type (k_object k' ob) = o_type (k_object k ob)) \<and>
    (\<forall>s. k_object k' (OSem s) = k_object k (OSem s)) \<and> (\<forall>m. k_object k' (OMb m) = k_object k (OMb m))"
proof -
  note s = steadyD [OF k]
  define k1 where "k1 = k\<lparr>k_tick := k_tick k + 1\<rparr>"
  define k2 where "k2 = on_thread c (\<lambda>th. th\<lparr>th_remaining_tick := th_remaining_tick th - 1\<rparr>) k1"
  define k2' where "k2' = on_thread c (\<lambda>th. th\<lparr>th_remaining_tick := th_init_tick th\<rparr>) k2"
  have i1: "kinv {} (- 1) M k1" using kinv_tick [OF s(1)] by (simp add: k1_def)
  have v2: "same_view k2 k1" "same_view k2' k1" by (simp_all add: same_view_def k2'_def k2_def kernel_defs)
  have i2: "kinv {} (- 1) M k2" "kinv {} (- 1) M k2'"
    using i1 kinv_view [OF v2(1)] kinv_view [OF v2(2)] by (simp_all add: k2'_def k2_def kernel_defs)
  have r1: "ready k1 c" using s(3) by (simp add: k1_def ready_def thread_stat_def)
  have c2: "running c k2" "ready k2 c" "running c k2'" "ready k2' c"
    using s r1 same_view_facts(1) [OF v2(1)] same_view_facts(1) [OF v2(2)]
    by (simp_all add: running_def k2'_def k2_def k1_def kernel_defs)
  have st: "th_stat (k_thread k2 t) = th_stat (k_thread k t)" "th_error (k_thread k2 t) = th_error (k_thread k t)"
    "th_stat (k_thread k2' t) = th_stat (k_thread k t)" "th_error (k_thread k2' t) = th_error (k_thread k t)" for t
    by (simp_all add: k2'_def k2_def k1_def kernel_defs)
  have expired: "expired l N = to_wake k" if "timers N = timers M" "k_timer l = k_timer k" "k_tick l = k_tick k + 1" for l :: "'a kernel" and N
  proof -
    have "due l tm = due k tm - 1" if "tm \<in> set (timers M)" for tm
    proof -
      have "due l tm = due k1 tm" using \<open>k_timer l = k_timer k\<close> \<open>k_tick l = k_tick k + 1\<close> by (simp add: due_def k1_def)
      also have "\<dots> = due k tm - 1"
        unfolding k1_def by (rule due_tick) (use kinvD(7) [OF s(1)] that in \<open>auto simp: timers_ok_def\<close>)
      finally show ?thesis .
    qed
    then show ?thesis unfolding to_wake_timers [OF s(1)] expired_def by (auto simp: that(1))
  qed
  obtain d k3 M3 where y: "(if th_remaining_tick (k_thread k2 c) = 0 then rt_thread_yield k2' else Some k2) = Some k3"
    and i3: "kinv {} (- 1) M3 k3" and c3: "running d k3" "ready k3 d" and tm3: "timers M3 = timers M"
    and e3: "queue M3 Expired = []" and f3: "k_timer k3 = k_timer k" "k_object k3 = k_object k"
    "\<forall>t. th_stat (k_thread k3 t) = th_stat (k_thread k t) \<and> th_error (k_thread k3 t) = th_error (k_thread k t)"
    and sr3: "same_rest k2 k3" and top3: "is_top M c \<longrightarrow> is_top M3 d" and sh3: "shrinks M M3"
  proof (cases "th_remaining_tick (k_thread k2 c) = 0")
    case True
    obtain d k3 where e: "rt_thread_yield k2' = Some k3" and i: "kinv {} (- 1) (rotate_map c k2' M) k3"
      and r: "running d k3" "ready k3 d" and f: "k_thread k3 = k_thread k2'" "k_timer k3 = k_timer k2'"
      "k_object k3 = k_object k2'" and sr: "same_rest k2' k3"
      and a: "if queue M (Ready (prio k2' c)) = [Tlist c] then k3 = k2' \<and> d = c else is_top (rotate_map c k2' M) d"
      using yield_ok [OF i2(2) c2(3,4)] by (metis (no_types, lifting))
    have tp: "is_top M c \<longrightarrow> is_top (rotate_map c k2' M) d"
      using a is_top_rotate_alone [OF i2(2)] by (auto split: if_splits)
    have "same_rest k2 k2'" by (simp add: same_rest_def k2'_def kernel_defs)
    then have sr': "same_rest k2 k3" using sr same_rest_trans by blast
    show ?thesis
      by (rule that [of k3 "rotate_map c k2' M" d])
        (use True e i r f sr' st tp shrinks_rotate rotate_timers [OF i2(2)] rotate_expired [OF s(5)] in \<open>simp_all add: k2'_def k2_def k1_def kernel_defs\<close>)
  next
    case False
    show ?thesis
      by (rule that [of k2 M c]) (use False i2 c2 s(5) st in \<open>simp_all add: k2_def k1_def kernel_defs\<close>)
  qed
  have tick3: "k_tick k3 = k_tick k + 1" using sr3 by (simp add: same_rest_def k2_def k1_def kernel_defs)
  have tt3: "thread_timers M3" using s(4) tm3 by (simp add: thread_timers_def)
  obtain u k' M' where c: "rt_timer_check cb k3 = Some k'" "steady M' u k'" "wakes (to_wake k) k3 k'"
    "is_top M3 d \<or> to_wake k \<noteq> {} \<longrightarrow> is_top M' u" "shrinks M3 M'"
    using rt_timer_check_ok [OF i3 c3 tt3 e3, of cb] expired [OF tm3 f3(1) tick3] by auto
  have "rt_thread_self k1 = Some c" using s(6) by (simp add: rt_thread_self_def k1_def)
  then have "rt_tick_increase cb k = Some k'"
    unfolding rt_tick_increase_def Let_def k1_def [symmetric] using y c(1)
    by (simp only: bind.bind_lunit k2_def [symmetric] k2'_def [symmetric])
  moreover have "same_rest k2 k'" using sr3 c(3) same_rest_trans by (auto simp: wakes_def)
  moreover have "k_timer k' (ThreadTimer t) = k_timer k (ThreadTimer t) \<and> timer_flag (ThreadTimer t) k' = timer_flag (ThreadTimer t) k"
    if "t \<notin> to_wake k" for t
  proof -
    have "ThreadTimer t \<notin> ThreadTimer ` to_wake k" using that by auto
    then show ?thesis using c(3) f3(1,2) by (simp add: wakes_def timer_flag_def)
  qed
  moreover have "switch_ok k2 = switch_ok k" by (simp add: k2_def k1_def kernel_defs)
  moreover have "shrinks M M'" using sh3 c(5) shrinks_trans by blast
  moreover have "is_top M c \<or> to_wake k \<noteq> {} \<longrightarrow> is_top M' u" using c(4) top3 by blast
  ultimately show ?thesis
    using c(2,3) f3(3) by (intro exI [of _ u] exI [of _ k'] exI [of _ M'])
      (simp add: wakes_def same_rest_def k2_def k1_def kernel_defs)
qed

end
