(* ===== verification/Rt_Calls.thy ===== *)
theory Rt_Calls
  imports Rt_System
begin

text \<open>
  The blocking calls and the calls that end a wait, each from a steady state to a steady state:
  sleeping, semaphores and mailboxes, and the continuation of a call when its thread runs again.
\<close>

section \<open>Waiting\<close>

text \<open>What is left of the state when thread \<open>c\<close> blocks.\<close>

definition waits :: "pending \<Rightarrow> tid \<Rightarrow> 'a kernel \<Rightarrow> 'a kernel \<Rightarrow> bool" where
  "waits p c k l = (suspended l c \<and> k_pending l = (k_pending k)(c := p) \<and>
     same_rest k (l\<lparr>k_pending := k_pending k\<rparr>) \<and> (\<forall>t. t \<noteq> c \<longrightarrow> k_thread l t = k_thread k t) \<and>
     (\<exists>s. k_thread l c = (k_thread k c)\<lparr>th_stat := s\<rparr>) \<and>
     (\<forall>tm. tm \<noteq> ThreadTimer c \<longrightarrow> k_timer l tm = k_timer k tm \<and> timer_flag tm l = timer_flag tm k))"

lemma same_view_pending [simp]: "same_view (k\<lparr>k_pending := p\<rparr>) k"
  by (simp add: same_view_def)

lemma block_ok:
  assumes k: "kinv {} 0 M k" and c: "running c k" and i: "ready k i"
    and t: "thread_timers M" and e: "queue M Expired = []"
  shows "\<exists>u k'. block_in p c k = Some k' \<and> steady M u k' \<and> is_top M u \<and> k_thread k' = k_thread k \<and>
    k_timer k' = k_timer k \<and> k_object k' = k_object k \<and> k_pending k' = (k_pending k)(c := p) \<and>
    same_rest k (k'\<lparr>k_pending := k_pending k\<rparr>)"
proof -
  let ?k = "k\<lparr>k_pending := (k_pending k)(c := p)\<rparr>"
  have k1: "kinv {} 0 M ?k" using k kinv_view [OF same_view_pending [of "(k_pending k)(c := p)" k]] by simp
  have c1: "running c ?k" and i1: "ready ?k i"
    using c i same_view_facts(1) [OF same_view_pending [of "(k_pending k)(c := p)" k]] by (simp_all add: running_def)
  obtain u where "rt_schedule ?k = Some (switch_to u ?k)" "steady M u (switch_to u ?k)" "is_top M u"
    using steady_switch [OF k1 c1 i1 t e] by blast
  moreover have "same_rest k (switch_to u ?k\<lparr>k_pending := k_pending k\<rparr>)"
    using switch_to_facts(8) [of ?k u] by (simp add: same_rest_def switch_ok_def)
  ultimately show ?thesis using switch_to_facts(8) [of ?k u]
    by (intro exI [of _ u] exI [of _ "switch_to u ?k"]) (simp add: block_in_def switch_to_facts same_rest_def)
qed

text \<open>The thread is already suspended; the rest of the call puts it to sleep.\<close>

lemma suspended_waits:
  assumes tch: "touches c k l" and s: "suspended l c"
    and f: "k_thread k' = k_thread l" "k_timer k' = k_timer l" "k_object k' = k_object l"
    "k_pending k' = (k_pending l)(c := p)" "same_rest l (k'\<lparr>k_pending := k_pending l\<rparr>)"
  shows "waits p c k k'"
  unfolding waits_def
proof (intro conjI)
  have p: "k_pending l = k_pending k" using tch by (simp add: touches_def same_rest_def)
  show "suspended k' c" using s f(1) by (simp add: suspended_def thread_stat_def)
  show "k_pending k' = (k_pending k)(c := p)" using f(4) p by simp
  show "same_rest k (k'\<lparr>k_pending := k_pending k\<rparr>)"
    using tch f(5) p same_rest_trans by (fastforce simp: touches_def)
qed (use tch f in \<open>auto simp: touches_def timer_flag_def\<close>)

lemma sleep_ok:
  assumes k: "steady M c k" and i: "ready k i" "i \<noteq> c" and n: "uint n < 2 ^ 31 - 1"
  shows "\<exists>u k' M'. rt_thread_sleep n k = Some k' \<and> steady M' u k' \<and> is_top M' u \<and> waits P_sleep c k k' \<and>
    active k' (ThreadTimer c) \<and> due k' (ThreadTimer c) = uint n \<and>
    (\<forall>h. wait_head h \<longrightarrow> queue M' h = queue M h)"
proof -
  note s = steadyD [OF k]
  obtain k1 where e1: "rt_thread_suspend c k = Some (RT_EOK, k1)" and i1: "kinv {} 0 (unlink (Tlist c) M) k1"
    and s1: "suspended k1 c" and t1: "touches c k k1"
    using suspend_ok [OF s(1) _ s(3)] by auto
  let ?M1 = "unlink (Tlist c) M"
  obtain k2 where e2: "start_thread_timer c n k1 = Some k2"
    and i2: "kinv {} 0 (start_map (ThreadTimer c) k1 (uint n) ?M1) k2"
    and a2: "active k2 (ThreadTimer c)" "due k2 (ThreadTimer c) = uint n" and s2: "suspended k2 c"
    and t2: "touches c k1 k2"
    using start_thread_timer_ok [OF i1 _ s1 n] by auto
  let ?M2 = "start_map (ThreadTimer c) k1 (uint n) ?M1"
  have t: "touches c k k2" using touches_trans [OF t1 t2] .
  have c2: "running c k2" and r2: "ready k2 i"
    using s(2) i running_touches [OF t] touches_facts(1) [OF t] by simp_all
  have m1: "thread_timers ?M1" "queue ?M1 Expired = []"
    using s(4,5) unlink_thread_timers [OF s(1), of c] by (simp_all add: thread_timers_def queue_unlink)
  obtain u k' where b: "block_in P_sleep c k2 = Some k'" "steady ?M2 u k'" "is_top ?M2 u"
    "k_thread k' = k_thread k2" "k_timer k' = k_timer k2" "k_object k' = k_object k2"
    "k_pending k' = (k_pending k2)(c := P_sleep)" "same_rest k2 (k'\<lparr>k_pending := k_pending k2\<rparr>)"
    using block_ok [OF i2 c2 r2 start_map_facts(1) [OF i1 m1(1)] start_map_facts(2) [OF i1 m1]] by blast
  have "queue ?M2 h = queue M h" if "wait_head h" for h
  proof -
    have "Row (ThreadTimer c) \<notin> set (queue ?M1 h)" using kinvD(3) [OF i1, of _ h] that by (cases h) auto
    moreover have "Tlist c \<notin> set (queue M h)"
      using kinvD(3) [OF s(1), of "Tlist c" h] that ready_not_suspended [OF s(3)] by (cases h) auto
    ultimately show ?thesis
      using wait_head_other [OF that] by (simp add: queue_start_map queue_unlink remove1_idem)
  qed
  moreover have "rt_thread_sleep n k = Some k'" using s(6) e1 e2 b(1) by (simp add: rt_thread_sleep_def)
  moreover have "active k' (ThreadTimer c)" "due k' (ThreadTimer c) = uint n"
    using a2 b(4-6,8) by (simp_all add: active_def due_def timer_flag_def same_rest_def)
  ultimately show ?thesis using b(2,3) suspended_waits [OF t s2 b(4-8)] by blast
qed

section \<open>Waiting in a queue\<close>

definition joined :: "u8 \<Rightarrow> tid \<Rightarrow> 'a kernel \<Rightarrow> node list \<Rightarrow> node list" where
  "joined flag t k ns = (case queue_split flag t k ns of (as, bs) \<Rightarrow> as @ Tlist t # bs)"

lemma set_joined: "set (joined flag t k ns) = insert (Tlist t) (set ns)"
  by (cases "queue_split flag t k ns") (auto simp: joined_def dest: queue_split_append)

lemma wait_map_queue:
  assumes k: "kinv X lo M k" and c: "ready k c" and g: "wait_head g" and h: "wait_head h"
  shows "queue (wait_map h c flag k M) g = (if g = h then joined flag c k (queue M h) else queue M g)"
proof -
  have "Tlist c \<notin> set (queue M x)" if "wait_head x" for x
    using kinvD(3) [OF k, of "Tlist c" x] that ready_not_suspended [OF c] by (cases x) auto
  then have "queue (unlink (Tlist c) M) x = queue M x" if "wait_head x" for x
    using that wait_head_other [OF that] by (simp add: queue_unlink remove1_idem)
  then show ?thesis
    using g h wait_head_other [OF g]
    by (cases "queue_split flag c k (queue M h)") (simp add: wait_map_def Let_def enqueue_map_def joined_def)
qed

text \<open>Waiting times: forever when negative, and below half the range of the tick otherwise.\<close>

definition time_ok :: "u32 \<Rightarrow> bool" where "time_ok time = (time \<noteq> 2 ^ 31 - 1)"

lemma time_ok_pos: "time_ok time \<Longrightarrow> 0 <s time \<Longrightarrow> uint time < 2 ^ 31 - 1"
proof -
  assume t: "time_ok time" and p: "0 <s time"
  have s: "0 < sint time" "sint time < 2 ^ 31" using p sint_lt [of time] by (simp_all add: word_sless_alt)
  then have "uint time = sint time" by (simp add: uint_sint take_bit_int_eq_self)
  then have "uint time < 2 ^ 31" using s(2) by simp
  moreover have "uint time \<noteq> 2 ^ 31 - 1"
  proof
    assume "uint time = 2 ^ 31 - 1"
    then have "time = word_of_int (2 ^ 31 - 1)" by (metis word_of_int_uint)
    with t show False by (simp add: time_ok_def)
  qed
  ultimately show ?thesis by simp
qed

lemma wait_ok:
  assumes k: "steady M c k" and i: "ready k i" "i \<noteq> c" and h: "wait_head h" "live k (owner h)"
    and f: "flag = RT_IPC_FLAG_FIFO \<or> flag = RT_IPC_FLAG_PRIO" and n: "time_ok time"
  shows "\<exists>k2 k3. rt_ipc_list_suspend h c flag k = Some k2 \<and> k_tick k2 = k_tick k \<and>
    wait_timer c time k2 = Some k3 \<and>
    (\<exists>u k' M'. block_in p c k3 = Some k' \<and> steady M' u k' \<and> is_top M' u \<and> waits p c k k' \<and>
    (active k' (ThreadTimer c) \<longleftrightarrow> 0 <s time) \<and> (0 <s time \<longrightarrow> due k' (ThreadTimer c) = uint time) \<and>
    (\<forall>g. wait_head g \<longrightarrow> queue M' g = (if g = h then joined flag c k (queue M h) else queue M g)))"
proof -
  note s = steadyD [OF k]
  let ?M1 = "wait_map h c flag k M"
  obtain k2 where e2: "rt_ipc_list_suspend h c flag k = Some k2" and i2: "kinv {} 0 ?M1 k2"
    and s2: "suspended k2 c" and a2: "\<not> active k2 (ThreadTimer c)" and t2: "touches c k k2"
    using ipc_list_suspend_ok [OF s(1) _ s(3) h f] by blast
  have m1: "thread_timers ?M1" "queue ?M1 Expired = []"
    using s(4,5) wait_map_timers [OF s(1) h(1), of c flag k] by (simp_all add: thread_timers_def)
  have q1: "queue ?M1 g = (if g = h then joined flag c k (queue M h) else queue M g)" if "wait_head g" for g
    by (rule wait_map_queue [OF s(1,3) that h(1)])
  obtain k3 M3 where e3: "wait_timer c time k2 = Some k3" and i3: "kinv {} 0 M3 k3" and t3: "touches c k k3"
    and s3: "suspended k3 c" and m3: "thread_timers M3" "queue M3 Expired = []"
    and a3: "active k3 (ThreadTimer c) \<longleftrightarrow> 0 <s time" "0 <s time \<longrightarrow> due k3 (ThreadTimer c) = uint time"
    and q3: "\<forall>g. wait_head g \<longrightarrow> queue M3 g = queue ?M1 g"
  proof (cases "0 <s time")
    case True
    let ?M3 = "start_map (ThreadTimer c) k2 (uint time) ?M1"
    obtain k3 where "start_thread_timer c time k2 = Some k3" "kinv {} 0 ?M3 k3"
      "active k3 (ThreadTimer c)" "due k3 (ThreadTimer c) = uint time" "suspended k3 c" "touches c k2 k3"
      using start_thread_timer_ok [OF i2 _ s2 time_ok_pos [OF n True]] by auto
    moreover have "queue ?M3 g = queue ?M1 g" if "wait_head g" for g
    proof -
      have "Row (ThreadTimer c) \<notin> set (queue ?M1 g)" using kinvD(3) [OF i2, of _ g] that by (cases g) auto
      then show ?thesis using wait_head_other [OF that] by (simp add: queue_start_map queue_unlink remove1_idem)
    qed
    ultimately show ?thesis
      using that [of k3 ?M3] True touches_trans [OF t2] start_map_facts(1) [OF i2 m1(1), of c k2 "uint time"]
        start_map_facts(2) [OF i2 m1, of "ThreadTimer c" k2 "uint time"]
      by (simp add: wait_timer_def)
  next
    case False
    then show ?thesis using that [of k2 ?M1] i2 t2 s2 m1 a2 by (simp add: wait_timer_def)
  qed
  have c3: "running c k3" and r3: "ready k3 i"
    using s(2) i running_touches [OF t3] touches_facts(1) [OF t3] by simp_all
  obtain u k' where b: "block_in p c k3 = Some k'" "steady M3 u k'" "is_top M3 u"
    "k_thread k' = k_thread k3" "k_timer k' = k_timer k3" "k_object k' = k_object k3"
    "k_pending k' = (k_pending k3)(c := p)" "same_rest k3 (k'\<lparr>k_pending := k_pending k3\<rparr>)"
    using block_ok [OF i3 c3 r3 m3] by blast
  have "active k' (ThreadTimer c) \<longleftrightarrow> 0 <s time" "0 <s time \<longrightarrow> due k' (ThreadTimer c) = uint time"
    using a3 b(4-6,8) by (simp_all add: active_def due_def timer_flag_def same_rest_def)
  moreover have "k_tick k2 = k_tick k" using t2 by (simp add: touches_def same_rest_def)
  moreover have "\<forall>g. wait_head g \<longrightarrow> queue M3 g = (if g = h then joined flag c k (queue M h) else queue M g)"
    using q1 q3 by simp
  ultimately show ?thesis
    using e2 e3 b(1-3) suspended_waits [OF t3 s3 b(4-8)] by blast
qed

end
