(* ===== verification/Rt_Wake.thy ===== *)
theory Rt_Wake
  imports Rt_Calls
begin

text \<open>The calls that end a wait: the first thread of a queue is resumed and the processor given to the
  highest thread; and the changes of data that the invariant of the scheduler does not see.\<close>

lemma steady_view:
  assumes "same_view l k" "k_links l = k_links k" "k_group l = k_group k" "k_current l = k_current k" "k_lock_nest l = k_lock_nest k"
  shows "steady M c l = steady M c k"
  using kinv_view [OF assms(1-3), of "{}" 0 M] same_view_facts(1) [OF assms(1)] assms(4,5)
  by (simp add: steady_def running_def)

lemma same_view_data [simp]:
  "same_view (on_sem s f k) k" "same_view (on_mb m g k) k" "same_view (set_error t e k) k"
  by (simp_all add: same_view_def on_sem_def on_mb_def kernel_defs)

lemma steady_data [simp]:
  "steady M c (on_sem s f k) = steady M c k" "steady M c (on_mb m g k) = steady M c k"
  "steady M c (set_error t e k) = steady M c k" "steady M c (k\<lparr>k_pending := p\<rparr>) = steady M c k"
  by (rule steady_view; simp add: same_view_def on_sem_def on_mb_def kernel_defs)+

lemma wait_queue_threads:
  assumes "kinv X lo M k" "wait_head h" "n \<in> set (queue M h)"
  shows "\<exists>t. n = Tlist t \<and> suspended k t"
  using kinvD(3) [OF assms(1,3)] assms(2) by (cases h) auto

lemma isempty_queue:
  assumes k: "kinv X lo M k" and h: "wait_head h" "live k (owner h)"
  shows "rt_list_isempty h (k_links k) \<longleftrightarrow> queue M h = []"
proof -
  obtain ns where "M h = Some ns" using kinvD(8) [OF k] h by (auto simp: objs_ok_def)
  then show ?thesis using ring_isempty [OF ringsD [OF kinvD(1) [OF k]]] by simp
qed

lemma resume_map_queue:
  assumes k: "kinv X lo M k" and h: "wait_head h" "queue M h = Tlist t # ns" and g: "wait_head g"
  shows "queue (resume_map t k M) g = (if g = h then ns else queue M g)"
proof -
  have r: "rings (k_links k) M" by (rule kinvD(1) [OF k])
  have u: "queue (unlink (Tlist t) M) g = (if g = h then ns else queue M g)"
    using rings_queue_unique [OF r, of "Tlist t" h g] h(2) wait_head_other [OF g]
    by (cases "Tlist t \<in> set (queue M g)") (auto simp: queue_unlink remove1_idem)
  have "Row tm \<notin> set (queue M x)" if "wait_head x" for tm x
    using wait_queue_threads [OF k that] by blast
  then have "Row tm \<notin> set (queue (unlink (Tlist t) M) g)" for tm
    using g h unfolding u by (metis list.set_intros(2))
  then have "queue (unlink (Row (ThreadTimer t)) (unlink (Tlist t) M)) g = queue (unlink (Tlist t) M) g"
    using wait_head_other [OF g] by (intro queue_unlink_idem) auto
  then show ?thesis using u wait_head_other [OF g] by (auto simp: resume_map_def queue_link_last)
qed

lemma list_resume_ok:
  assumes k: "steady M c k" and h: "wait_head h" "queue M h = Tlist t # ns"
  shows "\<exists>k' M'. rt_ipc_list_resume h k = Some k' \<and> steady M' c k' \<and> ready k' t \<and> touches t k k' \<and>
    (\<forall>g. wait_head g \<longrightarrow> queue M' g = (if g = h then ns else queue M g))"
proof -
  note s = steadyD [OF k]
  have sus: "suspended k t" using wait_queue_threads [OF s(1) h(1), of "Tlist t"] h(2) by auto
  obtain xs where "M h = Some xs" using h(2) by (cases "M h") (auto simp: queue_def)
  then have ring: "ring (k_links k) h (Tlist t # ns)" using ringsD [OF kinvD(1) [OF s(1)]] h(2) by simp
  obtain k' where e: "rt_thread_resume t k = Some (RT_EOK, k')" and i: "kinv {} 0 (resume_map t k M) k'"
    and r: "ready k' t" and tch: "touches t k k'"
    using resume_ok [OF s(1) _ sus] by auto
  have ct: "c \<noteq> t" using s(3) sus ready_not_suspended by metis
  have "rt_ipc_list_resume h k = Some k'" using ring_first [OF ring] e by (simp add: rt_ipc_list_resume_def)
  moreover have "steady (resume_map t k M) c k'"
    using i s(2,3) running_touches [OF tch] touches_facts(1) [OF tch ct]
      thread_timers_mono [OF s(4) resume_map_facts(1) [OF s(1)]] resume_map_facts(2) [OF s(1,5)]
    by (simp add: steady_def)
  ultimately show ?thesis using r tch resume_map_queue [OF s(1) h] by blast
qed

text \<open>What a call that resumes thread \<open>t\<close> and schedules leaves of the state.\<close>

definition woke :: "tid \<Rightarrow> 'a kernel \<Rightarrow> 'a kernel \<Rightarrow> bool" where
  "woke t k l = (ready l t \<and> same_rest k l \<and> (\<forall>v. v \<noteq> t \<longrightarrow> k_thread l v = k_thread k v) \<and>
     (\<exists>s. k_thread l t = (k_thread k t)\<lparr>th_stat := s\<rparr>))"

lemma wake_ok:
  assumes k: "steady M c k" and h: "wait_head h" "queue M h = Tlist t # ns"
  shows "\<exists>k1. rt_ipc_list_resume h k = Some k1 \<and>
    (\<exists>u k' M'. rt_schedule k1 = Some k' \<and> steady M' u k' \<and> is_top M' u \<and> woke t k k' \<and>
      (\<forall>g. wait_head g \<longrightarrow> queue M' g = (if g = h then ns else queue M g)))"
proof -
  obtain k1 M1 where e1: "rt_ipc_list_resume h k = Some k1" and s1: "steady M1 c k1" and r1: "ready k1 t" and t1: "touches t k k1"
    and q1: "\<forall>g. wait_head g \<longrightarrow> queue M1 g = (if g = h then ns else queue M g)"
    using list_resume_ok [OF k h] by blast
  note s = steadyD [OF s1]
  obtain u where u: "rt_schedule k1 = Some (switch_to u k1)" "steady M1 u (switch_to u k1)" "is_top M1 u"
    using steady_switch [OF s(1,2,3,4,5)] by blast
  have "woke t k (switch_to u k1)"
    unfolding woke_def
  proof (intro conjI allI impI)
    show "ready (switch_to u k1) t" using r1 same_view_facts(1) [OF switch_to_facts(1) [of u k1]] by simp
    show "same_rest k (switch_to u k1)" using t1 switch_to_facts(8) same_rest_trans by (metis touches_def)
  qed (use t1 in \<open>auto simp: touches_def switch_to_facts\<close>)
  then show ?thesis using e1 u q1 by blast
qed

end
