(* ===== verification/Rt_Mailbox.thy ===== *)
theory Rt_Mailbox
  imports Rt_Wake Fifo
begin

text \<open>The ring buffer of a mailbox, as the list of the mails in it.\<close>

section \<open>The invariant and the view\<close>

definition mb_ok :: "rt_mailbox \<Rightarrow> bool" where
  "mb_ok mb = (0 < mb_size mb \<and> unat (mb_size mb) \<le> length (mb_pool mb) \<and> mb_entry mb \<le> mb_size mb \<and>
     mb_out_offset mb < mb_size mb \<and>
     unat (mb_in_offset mb) = (unat (mb_out_offset mb) + unat (mb_entry mb)) mod unat (mb_size mb))"

definition mails :: "rt_mailbox \<Rightarrow> u32 list" where
  "mails mb = ring_view (take (unat (mb_size mb)) (mb_pool mb)) (unat (mb_out_offset mb)) (unat (mb_entry mb))"

lemma length_mails [simp]: "length (mails mb) = unat (mb_entry mb)"
  by (simp add: mails_def)

lemma step_offset: "x < n \<Longrightarrow> unat (step_offset x n) = Suc (unat x) mod unat n"
proof -
  assume x: "x < n"
  then have l: "unat x < unat n" "unat n < 2 ^ 16" using unsigned_less [of n] by (simp_all add: word_less_nat_alt)
  have s: "unat (x + 1) = Suc (unat x)" using l by (simp add: unat_word_ariths)
  show ?thesis
  proof (cases "Suc (unat x) = unat n")
    case True
    then show ?thesis using s by (simp add: step_offset_def Let_def word_le_nat_alt)
  next
    case False
    then have "\<not> x + 1 \<ge> n" using l s by (simp add: word_le_nat_alt)
    then show ?thesis using s l False by (simp add: step_offset_def Let_def)
  qed
qed

lemma mb_offsets:
  assumes "mb_ok mb"
  shows "unat (mb_out_offset mb) < unat (mb_size mb)" "unat (mb_in_offset mb) < unat (mb_size mb)"
    "unat (mb_entry mb) \<le> unat (mb_size mb)" "unat (mb_size mb) \<le> length (mb_pool mb)" "0 < unat (mb_size mb)"
  using assms by (auto simp: mb_ok_def word_less_nat_alt word_le_nat_alt)

section \<open>Storing and fetching\<close>

lemma mb_store_ok:
  assumes ok: "mb_ok mb" and room: "mb_entry mb \<noteq> mb_size mb"
  shows "\<exists>mb'. mb_store value mb = Some mb' \<and> mb_entry mb' = mb_entry mb \<and> mb_size mb' = mb_size mb \<and>
    mb_entry mb < RT_MB_ENTRY_MAX \<and> mb_ok (mb'\<lparr>mb_entry := mb_entry mb + 1\<rparr>) \<and>
    mails (mb'\<lparr>mb_entry := mb_entry mb + 1\<rparr>) = mails mb @ [value]"
proof -
  note o = mb_offsets [OF ok]
  let ?n = "unat (mb_size mb)" and ?i = "unat (mb_in_offset mb)" and ?e = "unat (mb_entry mb)"
  let ?mb = "mb\<lparr>mb_pool := (mb_pool mb)[?i := value], mb_in_offset := step_offset (mb_in_offset mb) (mb_size mb)\<rparr>"
  have e: "?e < ?n" using o(3) room by (metis le_neq_implies_less unsigned_word_eqI)
  have n: "?n < 2 ^ 16" using unsigned_less [of "mb_size mb"] by simp
  then have e1: "unat (mb_entry mb + 1) = Suc ?e" using e by (simp add: unat_word_ariths)
  have i: "?i = (unat (mb_out_offset mb) + ?e) mod ?n" using ok by (simp add: mb_ok_def)
  have step: "unat (step_offset (mb_in_offset mb) (mb_size mb)) = (unat (mb_out_offset mb) + Suc ?e) mod ?n"
    using step_offset [of "mb_in_offset mb" "mb_size mb"] o(2) i by (simp add: word_less_nat_alt mod_Suc_eq)
  have "mb_store value mb = Some ?mb" using o(2,4) by (simp add: mb_store_def)
  moreover have "mb_entry mb < RT_MB_ENTRY_MAX" using e n by (simp add: word_less_nat_alt RT_MB_ENTRY_MAX_def)
  moreover have "mb_ok (?mb\<lparr>mb_entry := mb_entry mb + 1\<rparr>)"
    using ok e e1 step by (simp add: mb_ok_def word_le_nat_alt word_less_nat_alt)
  moreover have "mails (?mb\<lparr>mb_entry := mb_entry mb + 1\<rparr>) = mails mb @ [value]"
  proof -
    have t: "take ?n ((mb_pool mb)[?i := value]) = (take ?n (mb_pool mb))[?i := value]" by (simp add: take_update_swap)
    have l: "length (take ?n (mb_pool mb)) = ?n" using o(4) by simp
    have "ring_view ((take ?n (mb_pool mb))[?i := value]) (unat (mb_out_offset mb)) (Suc ?e) = mails mb @ [value]"
      using ring_view_put [of ?e "take ?n (mb_pool mb)" "unat (mb_out_offset mb)" "value"] e
      unfolding l mails_def i by simp
    then show ?thesis unfolding mails_def by (simp add: t e1)
  qed
  ultimately show ?thesis by (intro exI [of _ ?mb]) simp
qed

lemma mb_fetch_ok:
  assumes ok: "mb_ok mb" and some: "mb_entry mb \<noteq> 0"
  shows "\<exists>value mb'. mb_fetch mb = Some (value, mb') \<and> mails mb = value # mails mb' \<and> mb_ok mb' \<and>
    mb_size mb' = mb_size mb"
proof -
  note o = mb_offsets [OF ok]
  let ?n = "unat (mb_size mb)" and ?o = "unat (mb_out_offset mb)" and ?e = "unat (mb_entry mb)"
  let ?mb = "mb\<lparr>mb_out_offset := step_offset (mb_out_offset mb) (mb_size mb), mb_entry := mb_entry mb - 1\<rparr>"
  have e: "0 < ?e" using some by (simp add: unat_gt_0)
  then have e1: "unat (mb_entry mb - 1) = ?e - 1" by (simp add: unat_minus_one some)
  have step: "unat (step_offset (mb_out_offset mb) (mb_size mb)) = Suc ?o mod ?n"
    using step_offset [of "mb_out_offset mb" "mb_size mb"] o(1) by (simp add: word_less_nat_alt)
  have i: "unat (mb_in_offset mb) = (?o + ?e) mod ?n" using ok by (simp add: mb_ok_def)
  also have "?o + ?e = Suc ?o + (?e - 1)" using e by simp
  also have "(Suc ?o + (?e - 1)) mod ?n = (Suc ?o mod ?n + (?e - 1)) mod ?n" by (rule mod_add_left_eq [symmetric])
  finally have i': "unat (mb_in_offset mb) = (Suc ?o mod ?n + (?e - 1)) mod ?n" .
  have l: "length (take ?n (mb_pool mb)) = ?n" using o(4) by simp
  have "mails mb = ring_view (take ?n (mb_pool mb)) ?o (Suc (?e - 1))" using e by (simp add: mails_def)
  also have "\<dots> = mb_pool mb ! ?o # ring_view (take ?n (mb_pool mb)) (Suc ?o) (?e - 1)"
    using o(1) unfolding ring_view_Suc l by simp
  also have "\<dots> = mb_pool mb ! ?o # mails ?mb"
    using ring_view_mod [of "take ?n (mb_pool mb)" "Suc ?o" "?e - 1"] unfolding l by (simp add: mails_def step e1)
  finally have "mails mb = mb_pool mb ! ?o # mails ?mb" .
  moreover have "mb_fetch mb = Some (mb_pool mb ! ?o, ?mb)" using o(1,4) some by (simp add: mb_fetch_def word_gt_0)
  moreover have "mb_ok ?mb"
    using ok i' e1 step o by (auto simp: mb_ok_def word_le_nat_alt word_less_nat_alt)
  ultimately show ?thesis by auto
qed

end
