(* ===== verification/Rt_Sys.thy ===== *)
theory Rt_Sys
  imports Rt_Mailbox
begin

text \<open>
  The invariant of the running system, and that every call of the application and every clock
  interrupt returns and keeps it.
\<close>

section \<open>The invariant\<close>

definition flag_ok :: "u8 \<Rightarrow> bool" where
  "flag_ok f = (f = RT_IPC_FLAG_FIFO \<or> f = RT_IPC_FLAG_PRIO)"

definition ipc_ok :: "(node \<rightharpoonup> node list) \<Rightarrow> 'a kernel \<Rightarrow> bool" where
  "ipc_ok M k =
    ((\<forall>s. live k (OSem s) \<longrightarrow> flag_ok (o_flag (k_object k (OSem s))) \<and>
       (queue M (SemWait s) \<noteq> [] \<longrightarrow> sem_value (k_sem k s) = 0)) \<and>
     (\<forall>m. live k (OMb m) \<longrightarrow> flag_ok (o_flag (k_object k (OMb m))) \<and> mb_ok (k_mb k m)))"

fun pending_ok :: "'a kernel \<Rightarrow> pending \<Rightarrow> bool" where
  "pending_ok k (P_mb_send m value timeout start) = live k (OMb m)"
| "pending_ok k (P_mb_recv m timeout start) = live k (OMb m)"
| "pending_ok k _ = True"

definition pend_ok :: "'a kernel \<Rightarrow> bool" where
  "pend_ok k = (k_pending k idle_tid = No_pending \<and> (\<forall>t. pending_ok k (k_pending k t)))"

definition sys :: "(node \<rightharpoonup> node list) \<Rightarrow> tid \<Rightarrow> 'a kernel \<Rightarrow> bool" where
  "sys M c k = (steady M c k \<and> is_top M c \<and> ready k idle_tid \<and> k_interrupt_nest k = 0 \<and> switch_ok k \<and>
     ipc_ok M k \<and> pend_ok k)"

lemma pending_ok_live: "live l = live k \<Longrightarrow> pending_ok l p = pending_ok k p"
  by (cases p) simp_all

text \<open>What the invariant reads of the semaphores, the mailboxes and the blocked calls.\<close>

definition same_ipc :: "'a kernel \<Rightarrow> 'a kernel \<Rightarrow> bool" where
  "same_ipc k l = (k_sem l = k_sem k \<and> k_mb l = k_mb k \<and> k_pending l = k_pending k \<and>
     (\<forall>ob. o_type (k_object l ob) = o_type (k_object k ob)) \<and>
     (\<forall>s. k_object l (OSem s) = k_object k (OSem s)) \<and> (\<forall>m. k_object l (OMb m) = k_object k (OMb m)))"

lemma same_rest_ipc: "same_rest k l \<Longrightarrow> same_ipc k l"
  by (simp add: same_rest_def same_ipc_def)

lemma same_ipc_live: "same_ipc k l \<Longrightarrow> live l = live k"
  by (simp add: same_ipc_def live_def fun_eq_iff)

lemma shrinks_empty:
  assumes "shrinks M M'" "wait_head h" "queue M h = []"
  shows "queue M' h = []"
proof -
  have "set (queue M' h) \<subseteq> set (queue M h)" using assms(1,2) unfolding shrinks_def by blast
  then show ?thesis using assms(3) by simp
qed

lemma ipc_ok_shrinks:
  assumes o: "ipc_ok M k" and s: "shrinks M M'" and r: "same_ipc k k'"
  shows "ipc_ok M' k'"
  using o r shrinks_empty [OF s] unfolding ipc_ok_def same_ipc_live [OF r]
  by (auto simp: same_ipc_def)

lemma pend_ok_same: "pend_ok k \<Longrightarrow> same_ipc k l \<Longrightarrow> pend_ok l"
proof -
  assume p: "pend_ok k" and r: "same_ipc k l"
  have "k_pending l = k_pending k" using r by (simp add: same_ipc_def)
  then show "pend_ok l" using p pending_ok_live [OF same_ipc_live [OF r]] by (simp add: pend_ok_def)
qed

text \<open>A call that blocks nobody.\<close>

lemma sys_same:
  assumes k: "sys M c k" and s: "steady M' u k'" "is_top M' u" and i: "ready k' idle_tid"
    and r: "same_rest k k'" and m: "shrinks M M'"
  shows "sys M' u k'"
  using k s i ipc_ok_shrinks [OF _ m same_rest_ipc [OF r]] pend_ok_same [OF _ same_rest_ipc [OF r]] r by (simp add: sys_def) (simp add: same_rest_def)

section \<open>The clock interrupt and yielding\<close>

lemma trap_entry_view: "same_view (trap_entry k) k"
  by (simp add: trap_entry_def same_view_def)

lemma to_wake_entry: "to_wake (trap_entry k) = to_wake k"
  using same_view_facts(2,5,8) [OF trap_entry_view [of k]] by (simp add: to_wake_def)

text \<open>The trap exit finds both threads of the switch it is asked for, and changes only the frames.\<close>

lemma trap_exit_ok:
  assumes "switch_ok k"
  shows "\<exists>k'. trap_exit k = Some k' \<and> same_view k' k \<and> k_links k' = k_links k \<and> k_group k' = k_group k \<and>
    k_current k' = k_current k \<and> k_lock_nest k' = k_lock_nest k \<and> k_interrupt_nest k' = 0 \<and> switch_ok k' \<and>
    k_sem k' = k_sem k \<and> k_mb k' = k_mb k \<and> k_pending k' = k_pending k \<and> k_object k' = k_object k \<and>
    k_thread k' = k_thread k \<and> k_timer k' = k_timer k \<and> k_tick k' = k_tick k"
  using assms by (cases "k_switch_flag k") (auto simp: trap_exit_def switch_ok_def same_view_def)

text \<open>The clock interrupt: exactly the threads whose time is up are woken, with a timeout.\<close>

definition ticked :: "'a kernel \<Rightarrow> 'a kernel \<Rightarrow> bool" where
  "ticked k k' = (k_tick k' = k_tick k + 1 \<and>
     (\<forall>t \<in> to_wake k. ready k' t \<and> th_error (k_thread k' t) = - RT_ETIMEOUT) \<and>
     (\<forall>t. t \<notin> to_wake k \<longrightarrow> th_stat (k_thread k' t) = th_stat (k_thread k t) \<and>
        th_error (k_thread k' t) = th_error (k_thread k t) \<and>
        k_timer k' (ThreadTimer t) = k_timer k (ThreadTimer t) \<and> timer_flag (ThreadTimer t) k' = timer_flag (ThreadTimer t) k))"

lemma tick_keeps:
  assumes k: "sys M c k"
  shows "\<exists>k' M' u. clock_interrupt cb k = Some k' \<and> sys M' u k' \<and> ticked k k' \<and> shrinks M M'"
proof -
  let ?k = "trap_entry k"
  have s: "steady M c ?k"
    using k by (simp add: sys_def) (subst steady_view [OF trap_entry_view]; simp add: trap_entry_def)
  have top: "is_top M c" and id: "ready ?k idle_tid" using k same_view_facts(1) [OF trap_entry_view [of k]] by (simp_all add: sys_def)
  have sw: "switch_ok ?k" using k by (simp add: sys_def trap_entry_def switch_ok_def)
  have nw: "idle_tid \<notin> to_wake ?k" using ready_not_suspended [OF id] by (simp add: to_wake_def)
  obtain u k1 M' where t: "rt_tick_increase cb ?k = Some k1" "steady M' u k1" "is_top M' u" "shrinks M M'" "switch_ok k1"
    and ti: "ticked ?k k1"
    and eq: "k_sem k1 = k_sem ?k" "k_mb k1 = k_mb ?k" "k_pending k1 = k_pending ?k"
      "\<forall>ob. o_type (k_object k1 ob) = o_type (k_object ?k ob)"
      "\<forall>s. k_object k1 (OSem s) = k_object ?k (OSem s)" "\<forall>m. k_object k1 (OMb m) = k_object ?k (OMb m)"
    using tick_increase_ok [OF s, of cb] top sw unfolding ticked_def by blast
  obtain k' where e: "trap_exit k1 = Some k'" and f: "same_view k' k1" "k_links k' = k_links k1" "k_group k' = k_group k1"
    "k_current k' = k_current k1" "k_lock_nest k' = k_lock_nest k1" "k_interrupt_nest k' = 0" "switch_ok k'"
    "k_sem k' = k_sem k1" "k_mb k' = k_mb k1" "k_pending k' = k_pending k1" "k_object k' = k_object k1" "k_thread k' = k_thread k1"
    "k_timer k' = k_timer k1" "k_tick k' = k_tick k1"
    using trap_exit_ok [OF t(5)] by blast
  have sy: "steady M' u k'" using t(2) steady_view [OF f(1-5)] by simp
  have "ready k1 idle_tid" using id nw ti by (simp add: ticked_def ready_def thread_stat_def)
  then have id': "ready k' idle_tid" using f(12) by (simp add: ready_def thread_stat_def)
  have ipc: "same_ipc k k'" using eq f(8-11) by (simp add: same_ipc_def trap_entry_def)
  have "ticked k k'"
    using ti f unfolding ticked_def to_wake_entry by (simp add: ready_def thread_stat_def timer_flag_def) (simp add: trap_entry_def)
  moreover have "sys M' u k'"
    using k sy t(3) id' f(6,7) ipc_ok_shrinks [OF _ t(4) ipc] pend_ok_same [OF _ ipc] by (simp add: sys_def)
  moreover have "clock_interrupt cb k = Some k'"
    using t(1) e by (simp add: clock_interrupt_def rt_os_tick_callback_def)
  ultimately show ?thesis using t(4) by blast
qed

lemma yield_keeps:
  assumes k: "sys M c k"
  shows "\<exists>k' M' u. rt_thread_yield k = Some k' \<and> sys M' u k'"
proof -
  have st: "steady M c k" and top: "is_top M c" and id: "ready k idle_tid" using k by (simp_all add: sys_def)
  note s = steadyD [OF st]
  obtain u k' where e: "rt_thread_yield k = Some k'" and i: "kinv {} 0 (rotate_map c k M) k'" and r: "running u k'" "ready k' u"
    and th: "k_thread k' = k_thread k" and sr: "same_rest k k'"
    and a: "if queue M (Ready (prio k c)) = [Tlist c] then k' = k \<and> u = c else is_top (rotate_map c k M) u"
    using yield_ok [OF s(1-3)] by (metis (no_types, lifting))
  have "is_top (rotate_map c k M) u"
    using a top is_top_rotate_alone [OF s(1)] by (auto split: if_splits)
  moreover have "steady (rotate_map c k M) u k'"
    using i r s(4) rotate_timers [OF s(1), of c k] rotate_expired [OF s(5)] by (simp add: steady_def thread_timers_def)
  moreover have "ready k' idle_tid" using id th by (simp add: ready_def thread_stat_def)
  ultimately show ?thesis using e sys_same [OF k _ _ _ sr shrinks_rotate] by blast
qed

section \<open>Blocking\<close>

lemma sys_waits:
  assumes k: "sys M c k" and s: "steady M' u k'" "is_top M' u" and w: "waits p c k k'" and c: "c \<noteq> idle_tid"
    and p: "pending_ok k p"
    and q: "\<And>s. live k (OSem s) \<Longrightarrow> queue M' (SemWait s) \<noteq> [] \<Longrightarrow> sem_value (k_sem k s) = 0"
  shows "sys M' u k'"
proof -
  have ty: "\<forall>ob. o_type (k_object k' ob) = o_type (k_object k ob)"
    and ob: "\<forall>s. k_object k' (OSem s) = k_object k (OSem s)" "\<forall>m. k_object k' (OMb m) = k_object k (OMb m)"
    and eq: "k_sem k' = k_sem k" "k_mb k' = k_mb k" "k_interrupt_nest k' = k_interrupt_nest k" "switch_ok k \<longrightarrow> switch_ok k'"
    using w by (auto simp: waits_def same_rest_def switch_ok_def)
  have lv: "live k' = live k" using ty by (simp add: live_def fun_eq_iff)
  have pe: "k_pending k' = (k_pending k)(c := p)" and th: "k_thread k' idle_tid = k_thread k idle_tid"
    using w c by (simp_all add: waits_def)
  have "ready k' idle_tid" using k th by (simp add: sys_def ready_def thread_stat_def)
  moreover have "ipc_ok M' k'" using k q ob eq unfolding sys_def ipc_ok_def lv by auto
  moreover have "pend_ok k'"
    using k c p pending_ok_live [OF lv] unfolding sys_def pend_ok_def pe by auto
  ultimately show ?thesis using k s eq by (simp add: sys_def)
qed

lemma sys_steady: "sys M c k \<Longrightarrow> steady M c k" and sys_idle: "sys M c k \<Longrightarrow> ready k idle_tid"
  by (simp_all add: sys_def)

lemma sys_sem_queue: "sys M c k \<Longrightarrow> live k (OSem s) \<Longrightarrow> queue M (SemWait s) \<noteq> [] \<Longrightarrow> sem_value (k_sem k s) = 0"
  by (simp add: sys_def ipc_ok_def)

lemma sleep_keeps:
  assumes k: "sys M c k" and c: "c \<noteq> idle_tid" and n: "uint n < 2 ^ 31 - 1"
  shows "\<exists>k' M' u. rt_thread_sleep n k = Some k' \<and> sys M' u k'"
proof -
  obtain u k' M' where s: "rt_thread_sleep n k = Some k'" "steady M' u k'" "is_top M' u" "waits P_sleep c k k'"
    "\<forall>h. wait_head h \<longrightarrow> queue M' h = queue M h"
    using sleep_ok [OF sys_steady [OF k] sys_idle [OF k] c [symmetric] n] by blast
  then show ?thesis using sys_waits [OF k s(2-4) c] sys_sem_queue [OF k] by auto
qed

section \<open>Semaphores\<close>

lemma sys_set_error [simp]: "sys M c (set_error t e k) = sys M c k"
proof -
  have v: "same_view (set_error t e k) k" by simp
  have "same_ipc (set_error t e k) k" and "same_ipc k (set_error t e k)" by (simp_all add: same_ipc_def kernel_defs)
  then have "ipc_ok M (set_error t e k) = ipc_ok M k" "pend_ok (set_error t e k) = pend_ok k"
    using ipc_ok_shrinks [OF _ shrinks_refl] pend_ok_same by blast+
  moreover have "switch_ok (set_error t e k) = switch_ok k" "k_interrupt_nest (set_error t e k) = k_interrupt_nest k"
    by (simp_all add: kernel_defs)
  ultimately show ?thesis using same_view_facts(1) [OF v] by (simp add: sys_def)
qed

lemma live_data [simp]: "live (on_sem s f k) = live k" "live (on_mb m g k) = live k" "live (set_error t e k) = live k"
  by (simp_all add: live_def fun_eq_iff on_sem_def on_mb_def kernel_defs)

lemma sys_on_sem:
  assumes k: "sys M c k" and q: "queue M (SemWait s) = []"
  shows "sys M c (on_sem s f k)"
proof -
  have "ipc_ok M (on_sem s f k)" using k q unfolding sys_def ipc_ok_def live_data by (auto simp: on_sem_def)
  moreover have "pend_ok (on_sem s f k)"
    using k pending_ok_live [OF live_data(1) [of s f k]] by (simp add: sys_def pend_ok_def) (simp add: on_sem_def)
  moreover have "switch_ok (on_sem s f k) = switch_ok k" "k_interrupt_nest (on_sem s f k) = k_interrupt_nest k"
    by (simp_all add: on_sem_def switch_ok_def)
  ultimately show ?thesis using k same_view_facts(1) [OF same_view_data(1) [of s f k]] by (simp add: sys_def)
qed

lemma take_keeps:
  assumes k: "sys M c k" and s: "live k (OSem s)" and c: "c \<noteq> idle_tid" and n: "time_ok time"
  shows "\<exists>a k' M' u. rt_sem_take s time k = Some (a, k') \<and> sys M' u k' \<and>
    (if sem_value (k_sem k s) > 0 then a = Some (Err RT_EOK) \<and> k' = on_sem s (\<lambda>v. v - 1) k \<and> M' = M
     else if time = 0 then a = Some (Err (- RT_ETIMEOUT)) \<and> k' = k \<and> M' = M
     else a = None \<and> waits P_sem_take c (set_error c RT_EOK k) k' \<and> (active k' (ThreadTimer c) \<longleftrightarrow> 0 <s time) \<and>
       (0 <s time \<longrightarrow> due k' (ThreadTimer c) = uint time) \<and>
       (\<forall>g. wait_head g \<longrightarrow> queue M' g =
         (if g = SemWait s then joined (o_flag (k_object k (OSem s))) c k (queue M (SemWait s)) else queue M g)))"
proof (cases "sem_value (k_sem k s) > 0")
  case True
  then have "queue M (SemWait s) = []" using sys_sem_queue [OF k s] by fastforce
  from sys_on_sem [OF k this] True show ?thesis by (auto simp: rt_sem_take_def)
next
  case False
  show ?thesis
  proof (cases "time = 0")
    case True
    with False k show ?thesis by (auto simp: rt_sem_take_def)
  next
    case time: False
    let ?k = "set_error c RT_EOK k" and ?f = "o_flag (k_object k (OSem s))"
    have k1: "sys M c ?k" using k by simp
    have f: "?f = RT_IPC_FLAG_FIFO \<or> ?f = RT_IPC_FLAG_PRIO" using k s by (simp add: sys_def ipc_ok_def flag_ok_def)
    have h: "wait_head (SemWait s)" "live ?k (owner (SemWait s))" using s by simp_all
    obtain k2 k3 u k' M' where w: "rt_ipc_list_suspend (SemWait s) c ?f ?k = Some k2" "wait_timer c time k2 = Some k3"
      "block_in P_sem_take c k3 = Some k'" "steady M' u k'" "is_top M' u" "waits P_sem_take c ?k k'"
      "active k' (ThreadTimer c) \<longleftrightarrow> 0 <s time" "0 <s time \<longrightarrow> due k' (ThreadTimer c) = uint time"
      "\<forall>g. wait_head g \<longrightarrow> queue M' g = (if g = SemWait s then joined ?f c ?k (queue M (SemWait s)) else queue M g)"
      using wait_ok [OF sys_steady [OF k1] sys_idle [OF k1] c [symmetric] h f n, of P_sem_take] by blast
    have j: "joined ?f c ?k ns = joined ?f c k ns" for ns
    proof -
      have "comes_before c ?k = comes_before c k"
        by (simp add: fun_eq_iff comes_before_def kernel_defs split: option.splits)
      then show ?thesis by (simp add: joined_def queue_split_def)
    qed
    have "sys M' u k'"
    proof (rule sys_waits [OF k1 w(4-6) c])
      fix s' assume l: "live ?k (OSem s')" and q: "queue M' (SemWait s') \<noteq> []"
      show "sem_value (k_sem ?k s') = 0"
      proof (cases "s' = s")
        case True
        have "\<not> 0 < sem_value (k_sem k s)" by fact
        then show ?thesis using True by (simp add: kernel_defs word_neq_0_conv [symmetric])
      next
        case False
        then show ?thesis using sys_sem_queue [OF k1 l] q w(9) by simp
      qed
    qed simp
    moreover have "rt_sem_take s time k = Some (None, k')"
      using \<open>\<not> 0 < _\<close> time w(1-3) steadyD(6) [OF sys_steady [OF k]]
      by (simp add: rt_sem_take_def rt_thread_self_def Let_def kernel_defs)
    ultimately show ?thesis using False time w(6-9) j by auto
  qed
qed

end
