(* ===== verification/Rt_Sys_Ipc.thy ===== *)
theory Rt_Sys_Ipc
  imports Rt_Sys
begin

text \<open>Releasing semaphores, and sending and receiving mails, in the running system.\<close>

section \<open>Waking\<close>

lemma sys_woke:
  assumes k: "sys M c k" and s: "steady M' u k'" "is_top M' u" and w: "woke t k k'"
    and t: "suspended k t" and q: "shrinks M M'"
  shows "sys M' u k'"
proof -
  have "idle_tid \<noteq> t" using t ready_not_suspended [OF sys_idle [OF k]] by metis
  then have "k_thread k' idle_tid = k_thread k idle_tid" using w by (simp add: woke_def)
  then have "ready k' idle_tid" using sys_idle [OF k] by (simp add: ready_def thread_stat_def)
  then show ?thesis using sys_same [OF k s _ _ q] w by (simp add: woke_def)
qed

lemma resume_schedule:
  assumes k: "sys M c k" and h: "wait_head h" "queue M h = Tlist t # ns"
  shows "\<exists>k1 k' M' u. rt_ipc_list_resume h k = Some k1 \<and> rt_schedule k1 = Some k' \<and> sys M' u k' \<and> woke t k k' \<and>
    (\<forall>g. wait_head g \<longrightarrow> queue M' g = (if g = h then ns else queue M g))"
proof -
  obtain k1 u k' M' where w: "rt_ipc_list_resume h k = Some k1" "rt_schedule k1 = Some k'" "steady M' u k'" "is_top M' u"
    "woke t k k'" "\<forall>g. wait_head g \<longrightarrow> queue M' g = (if g = h then ns else queue M g)"
    using wake_ok [OF sys_steady [OF k] h] by blast
  have "suspended k t" using wait_queue_threads [OF steadyD(1) [OF sys_steady [OF k]] h(1), of "Tlist t"] h(2) by auto
  moreover have "shrinks M M'" using w(6) h(2) by (auto simp: shrinks_def)
  ultimately have "sys M' u k'" by (rule sys_woke [OF k w(3-5)])
  with w show ?thesis by blast
qed

lemma wait_queue_cases:
  assumes k: "sys M c k" and h: "wait_head h" "live k (owner h)"
  shows "(queue M h = [] \<and> rt_list_isempty h (k_links k)) \<or>
    (\<exists>t ns. queue M h = Tlist t # ns \<and> \<not> rt_list_isempty h (k_links k))"
proof -
  note i = steadyD(1) [OF sys_steady [OF k]]
  show ?thesis
  proof (cases "queue M h")
    case (Cons n ns)
    then obtain t where "n = Tlist t" using wait_queue_threads [OF i h(1), of n] by auto
    with Cons show ?thesis using isempty_queue [OF i h] by simp
  qed (use isempty_queue [OF i h] in simp)
qed

lemma release_keeps:
  assumes k: "sys M c k" and s: "live k (OSem s)"
  shows "\<exists>r k' M' u. rt_sem_release s k = Some (r, k') \<and> sys M' u k' \<and>
    (case queue M (SemWait s) of
       n # ns \<Rightarrow> r = RT_EOK \<and> k_sem k' = k_sem k \<and> (\<forall>t. n = Tlist t \<longrightarrow> woke t k k') \<and>
         (\<forall>g. wait_head g \<longrightarrow> queue M' g = (if g = SemWait s then ns else queue M g))
     | [] \<Rightarrow> M' = M \<and> (if sem_value (k_sem k s) = RT_SEM_VALUE_MAX then r = - RT_EFULL \<and> k' = k
              else r = RT_EOK \<and> k' = on_sem s (\<lambda>v. v + 1) k))"
proof -
  have h: "wait_head (SemWait s)" "live k (owner (SemWait s))" using s by simp_all
  from wait_queue_cases [OF k h] show ?thesis
  proof
    assume e: "queue M (SemWait s) = [] \<and> rt_list_isempty (SemWait s) (k_links k)"
    have "sem_value (k_sem k s) < RT_SEM_VALUE_MAX \<longleftrightarrow> sem_value (k_sem k s) \<noteq> RT_SEM_VALUE_MAX"
    proof -
      have m: "RT_SEM_VALUE_MAX = - 1" by (simp add: RT_SEM_VALUE_MAX_def)
      show ?thesis unfolding m by (rule word_order.not_eq_extremum [symmetric])
    qed
    then show ?thesis using e k sys_on_sem [OF k, of s] by (auto simp: rt_sem_release_def)
  next
    assume "\<exists>t ns. queue M (SemWait s) = Tlist t # ns \<and> \<not> rt_list_isempty (SemWait s) (k_links k)"
    then obtain t ns where q: "queue M (SemWait s) = Tlist t # ns" and ne: "\<not> rt_list_isempty (SemWait s) (k_links k)" by blast
    obtain k1 k' M' u where w: "rt_ipc_list_resume (SemWait s) k = Some k1" "rt_schedule k1 = Some k'" "sys M' u k'"
      "woke t k k'" "\<forall>g. wait_head g \<longrightarrow> queue M' g = (if g = SemWait s then ns else queue M g)"
      using resume_schedule [OF k h(1) q] by blast
    then have "rt_sem_release s k = Some (RT_EOK, k')" using ne by (simp add: rt_sem_release_def)
    then show ?thesis using q w by (auto simp: woke_def same_rest_def)
  qed
qed

section \<open>Mailboxes\<close>

lemma sys_mb_ok: "sys M c k \<Longrightarrow> live k (OMb m) \<Longrightarrow> mb_ok (k_mb k m)"
  by (simp add: sys_def ipc_ok_def)

lemma sys_on_mb:
  assumes k: "sys M c k" and m: "live k (OMb m) \<Longrightarrow> mb_ok (f (k_mb k m))"
  shows "sys M c (on_mb m f k)"
proof -
  have "ipc_ok M (on_mb m f k)" using k m unfolding sys_def ipc_ok_def live_data by (auto simp: on_mb_def)
  moreover have "pend_ok (on_mb m f k)"
    using k pending_ok_live [OF live_data(2) [of m f k]] by (simp add: sys_def pend_ok_def) (simp add: on_mb_def)
  moreover have "switch_ok (on_mb m f k) = switch_ok k" "k_interrupt_nest (on_mb m f k) = k_interrupt_nest k"
    by (simp_all add: on_mb_def switch_ok_def)
  ultimately show ?thesis using k same_view_facts(1) [OF same_view_data(2) [of m f k]] by (simp add: sys_def)
qed

text \<open>What a call that ends without blocking does to mailbox \<open>m\<close>, and whom it wakes.\<close>

definition mb_turn :: "nat \<Rightarrow> rt_mailbox \<Rightarrow> node list \<Rightarrow> 'a kernel \<Rightarrow> 'a kernel \<Rightarrow> bool" where
  "mb_turn m mb ns k k' = (k_mb k' = (k_mb k)(m := mb) \<and> k_sem k' = k_sem k \<and> k_tick k' = k_tick k \<and>
     k_pending k' = k_pending k \<and> live k' = live k \<and>
     (case ns of [] \<Rightarrow> k' = on_mb m (\<lambda>_. mb) k | n # _ \<Rightarrow> \<forall>t. n = Tlist t \<longrightarrow> woke t (on_mb m (\<lambda>_. mb) k) k'))"

text \<open>The common end: the mailbox is updated, and the first thread of a queue is let go if there is one.\<close>

lemma mb_turn_ok:
  assumes k: "sys M c k" and m: "live k (OMb m)" and b: "mb_ok mb" and h: "wait_head h" "owner h = OMb m"
  shows "\<exists>k' M' u. (let k1 = on_mb m (\<lambda>_. mb) k in
      if \<not> rt_list_isempty h (k_links k1)
      then Option.bind (rt_ipc_list_resume h k1) (\<lambda>k2. Option.bind (rt_schedule k2) (\<lambda>k3. Some (a, k3)))
      else Some (a, k1)) = Some (a, k') \<and>
    sys M' u k' \<and> mb_turn m mb (queue M h) k k' \<and> shrinks M M'"
proof -
  let ?k = "on_mb m (\<lambda>_. mb) k"
  have k1: "sys M c ?k" by (rule sys_on_mb [OF k b])
  have d: "k_mb ?k = (k_mb k)(m := mb)" "k_sem ?k = k_sem k" "k_tick ?k = k_tick k" "k_pending ?k = k_pending k"
    by (simp_all add: on_mb_def)
  have l: "live ?k (owner h)" using m h(2) by simp
  from wait_queue_cases [OF k1 h(1) l] show ?thesis
  proof
    assume "queue M h = [] \<and> rt_list_isempty h (k_links ?k)"
    then show ?thesis using k1 d by (auto simp: mb_turn_def)
  next
    assume "\<exists>t ns. queue M h = Tlist t # ns \<and> \<not> rt_list_isempty h (k_links ?k)"
    then obtain t ns where q: "queue M h = Tlist t # ns" and ne: "\<not> rt_list_isempty h (k_links ?k)" by blast
    obtain k2 k' M' u where w: "rt_ipc_list_resume h ?k = Some k2" "rt_schedule k2 = Some k'" "sys M' u k'"
      "woke t ?k k'" "\<forall>g. wait_head g \<longrightarrow> queue M' g = (if g = h then ns else queue M g)"
      using resume_schedule [OF k1 h(1) q] by blast
    have "same_rest ?k k'" using w(4) by (simp add: woke_def)
    then have "mb_turn m mb (queue M h) k k'"
      using w(4) q d same_ipc_live [OF same_rest_ipc, of ?k k'] by (simp add: mb_turn_def) (simp add: same_rest_def)
    moreover have "shrinks M M'" using w(5) q by (auto simp: shrinks_def)
    ultimately show ?thesis using w(1-3) ne by (auto simp: Let_def)
  qed
qed

lemma send_tail_ok:
  assumes k: "sys M c k" and m: "live k (OMb m)" and room: "mb_entry (k_mb k m) \<noteq> mb_size (k_mb k m)"
  shows "\<exists>k' M' u mb. mb_send_tail m value k = Some (Some (Err RT_EOK), k') \<and> sys M' u k' \<and>
    mb_ok mb \<and> mails mb = mails (k_mb k m) @ [value] \<and> mb_size mb = mb_size (k_mb k m) \<and>
    mb_turn m mb (queue M (MbWait m)) k k'"
proof -
  obtain mb where st: "mb_store value (k_mb k m) = Some mb" "mb_entry mb = mb_entry (k_mb k m)"
    "mb_size mb = mb_size (k_mb k m)" "mb_entry (k_mb k m) < RT_MB_ENTRY_MAX"
    and b: "mb_ok (mb\<lparr>mb_entry := mb_entry (k_mb k m) + 1\<rparr>)"
    "mails (mb\<lparr>mb_entry := mb_entry (k_mb k m) + 1\<rparr>) = mails (k_mb k m) @ [value]"
    using mb_store_ok [OF sys_mb_ok [OF k m] room] by blast
  let ?mb = "mb\<lparr>mb_entry := mb_entry (k_mb k m) + 1\<rparr>"
  have c: "on_mb m (\<lambda>mb. mb\<lparr>mb_entry := mb_entry mb + 1\<rparr>) (on_mb m (\<lambda>_. mb) k) = on_mb m (\<lambda>_. ?mb) k"
    using st(2) by (simp add: on_mb_def)
  have h: "wait_head (MbWait m)" "owner (MbWait m) = OMb m" by simp_all
  have "mb_size ?mb = mb_size (k_mb k m)" using st(3) by simp
  moreover have "mb_send_tail m value k = (let k1 = on_mb m (\<lambda>_. ?mb) k in
      if \<not> rt_list_isempty (MbWait m) (k_links k1)
      then Option.bind (rt_ipc_list_resume (MbWait m) k1) (\<lambda>k2. Option.bind (rt_schedule k2) (\<lambda>k3. Some (Some (Err RT_EOK), k3)))
      else Some (Some (Err RT_EOK), k1))"
    using st(1,2,4) c by (simp add: mb_send_tail_def)
  ultimately show ?thesis
    using mb_turn_ok [OF k m b(1) h, of "Some (Err RT_EOK)"] b by (metis (no_types, lifting))
qed

lemma recv_tail_ok:
  assumes k: "sys M c k" and m: "live k (OMb m)" and some: "mb_entry (k_mb k m) \<noteq> 0"
  shows "\<exists>value k' M' u mb. mb_recv_tail m k = Some (Some (Mail value), k') \<and> sys M' u k' \<and>
    mb_ok mb \<and> mails (k_mb k m) = value # mails mb \<and> mb_size mb = mb_size (k_mb k m) \<and>
    mb_turn m mb (queue M (MbSenders m)) k k'"
proof -
  obtain v mb where f: "mb_fetch (k_mb k m) = Some (v, mb)" "mails (k_mb k m) = v # mails mb" "mb_ok mb"
    "mb_size mb = mb_size (k_mb k m)"
    using mb_fetch_ok [OF sys_mb_ok [OF k m] some] by blast
  have h: "wait_head (MbSenders m)" "owner (MbSenders m) = OMb m" by simp_all
  have "mb_recv_tail m k = (let k1 = on_mb m (\<lambda>_. mb) k in
      if \<not> rt_list_isempty (MbSenders m) (k_links k1)
      then Option.bind (rt_ipc_list_resume (MbSenders m) k1) (\<lambda>k2. Option.bind (rt_schedule k2) (\<lambda>k3. Some (Some (Mail v), k3)))
      else Some (Some (Mail v), k1))"
    using f(1) by (simp add: mb_recv_tail_def)
  then show ?thesis using mb_turn_ok [OF k m f(3) h, of "Some (Mail v)"] f(2-4) by (metis (no_types, lifting))
qed

text \<open>Blocking on a mailbox.\<close>

lemma mb_wait_ok:
  assumes k: "sys M c k" and m: "live k (OMb m)" and c: "c \<noteq> idle_tid" and n: "time_ok time"
    and h: "wait_head h" "owner h = OMb m" and p: "pending_ok k p"
  shows "\<exists>k2 k3 k' M' u. rt_ipc_list_suspend h c (o_flag (k_object (set_error c RT_EOK k) (OMb m))) (set_error c RT_EOK k) = Some k2 \<and>
    wait_timer c time k2 = Some k3 \<and> k_tick k2 = k_tick k \<and> block_in p c k3 = Some k' \<and> sys M' u k' \<and>
    waits p c (set_error c RT_EOK k) k' \<and> (active k' (ThreadTimer c) \<longleftrightarrow> 0 <s time) \<and>
    (\<forall>g. wait_head g \<longrightarrow> set (queue M' g) = (if g = h then insert (Tlist c) (set (queue M h)) else set (queue M g)))"
proof -
  let ?k = "set_error c RT_EOK k"
  let ?f = "o_flag (k_object ?k (OMb m))"
  have k1: "sys M c ?k" using k by simp
  have f: "?f = RT_IPC_FLAG_FIFO \<or> ?f = RT_IPC_FLAG_PRIO"
    using k1 m by (simp add: sys_def ipc_ok_def flag_ok_def)
  have l: "live ?k (owner h)" using m h(2) by simp
  obtain k2 k3 u k' M' where w: "rt_ipc_list_suspend h c ?f ?k = Some k2" "wait_timer c time k2 = Some k3" "k_tick k2 = k_tick ?k"
    "block_in p c k3 = Some k'" "steady M' u k'" "is_top M' u" "waits p c ?k k'" "active k' (ThreadTimer c) \<longleftrightarrow> 0 <s time"
    "\<forall>g. wait_head g \<longrightarrow> queue M' g = (if g = h then joined ?f c ?k (queue M h) else queue M g)"
    using wait_ok [OF sys_steady [OF k1] sys_idle [OF k1] c [symmetric] h(1) l f n, of p] by blast
  have "SemWait s \<noteq> h" for s using h(2) by auto
  then have "sys M' u k'"
    using w(9) sys_sem_queue [OF k1] p pending_ok_live [OF live_data(3) [of c RT_EOK k]]
    by (intro sys_waits [OF k1 w(5-7) c]) auto
  moreover have "k_tick k2 = k_tick k" using w(3) by (simp add: kernel_defs)
  moreover have "set (queue M' g) = (if g = h then insert (Tlist c) (set (queue M h)) else set (queue M g))" if "wait_head g" for g
    using w(9) that by (simp add: set_joined)
  ultimately show ?thesis using w(1,2,4,7,8) by (intro exI [of _ k2] exI [of _ k3] exI [of _ k'] exI [of _ M'] exI [of _ u]) simp
qed

text \<open>The loops of sending and receiving, entered from a call or after a wait.\<close>

lemma send_loop_ok:
  assumes k: "sys M c k" and m: "live k (OMb m)" and c: "c \<noteq> idle_tid" and n: "time_ok time"
  shows "\<exists>a k' M' u. mb_send_loop m value time delta k = Some (a, k') \<and> sys M' u k' \<and>
    (if mb_entry (k_mb k m) \<noteq> mb_size (k_mb k m)
     then a = Some (Err RT_EOK) \<and> (\<exists>mb. mails mb = mails (k_mb k m) @ [value] \<and> mb_size mb = mb_size (k_mb k m) \<and>
       mb_turn m mb (queue M (MbWait m)) k k')
     else if time = 0 then a = Some (Err (- RT_EFULL)) \<and> k' = set_error c RT_EOK k
     else a = None \<and> waits (P_mb_send m value time (if 0 <s time then k_tick k else delta)) c (set_error c RT_EOK k) k' \<and>
       Tlist c \<in> set (queue M' (MbSenders m)))"
proof (cases "mb_entry (k_mb k m) = mb_size (k_mb k m)")
  case False
  then show ?thesis using send_tail_ok [OF k m False, of "value"] by (simp add: mb_send_loop_def) blast
next
  case True
  have self: "rt_thread_self k = Some c" using steadyD(6) [OF sys_steady [OF k]] by (simp add: rt_thread_self_def)
  show ?thesis
  proof (cases "time = 0")
    case True
    with \<open>mb_entry _ = _\<close> k self show ?thesis by (auto simp: mb_send_loop_def)
  next
    case False
    let ?p = "P_mb_send m value time (if 0 <s time then k_tick k else delta)"
    have h: "wait_head (MbSenders m)" "owner (MbSenders m) = OMb m" by simp_all
    have p: "pending_ok k ?p" using m by simp
    obtain k2 k3 k' M' u where w: "rt_ipc_list_suspend (MbSenders m) c (o_flag (k_object (set_error c RT_EOK k) (OMb m))) (set_error c RT_EOK k) = Some k2"
      "wait_timer c time k2 = Some k3" "k_tick k2 = k_tick k" "block_in ?p c k3 = Some k'" "sys M' u k'"
      "waits ?p c (set_error c RT_EOK k) k'"
      "\<forall>g. wait_head g \<longrightarrow> set (queue M' g) = (if g = MbSenders m then insert (Tlist c) (set (queue M (MbSenders m))) else set (queue M g))"
      using mb_wait_ok [OF k m c n h p] by blast
    then have "mb_send_loop m value time delta k = Some (None, k')"
      using True False self by (cases "0 <s time") (simp_all add: mb_send_loop_def Let_def tick_get_def)
    then show ?thesis using True False w(5-7) by auto
  qed
qed

lemma recv_loop_ok:
  assumes k: "sys M c k" and m: "live k (OMb m)" and c: "c \<noteq> idle_tid" and n: "time_ok time"
  shows "\<exists>a k' M' u. mb_recv_loop m time delta k = Some (a, k') \<and> sys M' u k' \<and>
    (if mb_entry (k_mb k m) \<noteq> 0
     then (\<exists>value mb. a = Some (Mail value) \<and> mails (k_mb k m) = value # mails mb \<and> mb_size mb = mb_size (k_mb k m) \<and>
       mb_turn m mb (queue M (MbSenders m)) k k')
     else if time = 0 then a = Some (Err (- RT_ETIMEOUT)) \<and> k' = set_error c (- RT_ETIMEOUT) (set_error c RT_EOK k)
     else a = None \<and> waits (P_mb_recv m time (if 0 <s time then k_tick k else delta)) c (set_error c RT_EOK k) k' \<and>
       Tlist c \<in> set (queue M' (MbWait m)))"
proof (cases "mb_entry (k_mb k m) = 0")
  case False
  then show ?thesis using recv_tail_ok [OF k m False] by (simp add: mb_recv_loop_def) blast
next
  case True
  have self: "rt_thread_self k = Some c" using steadyD(6) [OF sys_steady [OF k]] by (simp add: rt_thread_self_def)
  show ?thesis
  proof (cases "time = 0")
    case True
    with \<open>mb_entry _ = _\<close> k self show ?thesis by (auto simp: mb_recv_loop_def)
  next
    case False
    let ?p = "P_mb_recv m time (if 0 <s time then k_tick k else delta)"
    have h: "wait_head (MbWait m)" "owner (MbWait m) = OMb m" by simp_all
    have p: "pending_ok k ?p" using m by simp
    obtain k2 k3 k' M' u where w: "rt_ipc_list_suspend (MbWait m) c (o_flag (k_object (set_error c RT_EOK k) (OMb m))) (set_error c RT_EOK k) = Some k2"
      "wait_timer c time k2 = Some k3" "k_tick k2 = k_tick k" "block_in ?p c k3 = Some k'" "sys M' u k'"
      "waits ?p c (set_error c RT_EOK k) k'"
      "\<forall>g. wait_head g \<longrightarrow> set (queue M' g) = (if g = MbWait m then insert (Tlist c) (set (queue M (MbWait m))) else set (queue M g))"
      using mb_wait_ok [OF k m c n h p] by blast
    then have "mb_recv_loop m time delta k = Some (None, k')"
      using True False self by (cases "0 <s time") (simp_all add: mb_recv_loop_def Let_def tick_get_def)
    then show ?thesis using True False w(5-7) by auto
  qed
qed

end
