(* ===== verification/Rt_Reach.thy ===== *)
theory Rt_Reach
  imports Rt_Sys_Ipc
begin

text \<open>
  The calls a thread makes and the clock interrupt as the steps of the running system, with the
  conditions on their arguments under which they are defined.
\<close>

section \<open>Mails, as calls\<close>

lemma send_keeps:
  assumes k: "sys M c k" and m: "live k (OMb m)" and c: "c \<noteq> idle_tid" and n: "time_ok time"
  shows "\<exists>a k' M' u. rt_mb_send_wait m value time k = Some (a, k') \<and> sys M' u k' \<and>
    (if mb_entry (k_mb k m) \<noteq> mb_size (k_mb k m)
     then a = Some (Err RT_EOK) \<and> (\<exists>mb. mails mb = mails (k_mb k m) @ [value] \<and> mb_size mb = mb_size (k_mb k m) \<and>
       mb_turn m mb (queue M (MbWait m)) k k')
     else if time = 0 then a = Some (Err (- RT_EFULL)) \<and> k' = k
     else a = None \<and> waits (P_mb_send m value time (if 0 <s time then k_tick k else 0)) c (set_error c RT_EOK k) k' \<and>
       Tlist c \<in> set (queue M' (MbSenders m)))"
proof (cases "mb_entry (k_mb k m) = mb_size (k_mb k m) \<and> time = 0")
  case True
  with k show ?thesis by (auto simp: rt_mb_send_wait_def)
next
  case False
  then show ?thesis using send_loop_ok [OF k m c n, of "value" 0] by (auto simp: rt_mb_send_wait_def split: if_splits)
qed

lemma recv_keeps:
  assumes k: "sys M c k" and m: "live k (OMb m)" and c: "c \<noteq> idle_tid" and n: "time_ok time"
  shows "\<exists>a k' M' u. rt_mb_recv m time k = Some (a, k') \<and> sys M' u k' \<and>
    (if mb_entry (k_mb k m) \<noteq> 0
     then (\<exists>value mb. a = Some (Mail value) \<and> mails (k_mb k m) = value # mails mb \<and> mb_size mb = mb_size (k_mb k m) \<and>
       mb_turn m mb (queue M (MbSenders m)) k k')
     else if time = 0 then a = Some (Err (- RT_ETIMEOUT)) \<and> k' = k
     else a = None \<and> waits (P_mb_recv m time (if 0 <s time then k_tick k else 0)) c (set_error c RT_EOK k) k' \<and>
       Tlist c \<in> set (queue M' (MbWait m)))"
proof (cases "mb_entry (k_mb k m) = 0 \<and> time = 0")
  case True
  with k show ?thesis by (auto simp: rt_mb_recv_def)
next
  case False
  then show ?thesis using recv_loop_ok [OF k m c n, of 0] by (auto simp: rt_mb_recv_def split: if_splits)
qed

section \<open>Going on after a wait\<close>

definition unblocked :: "tid \<Rightarrow> 'a kernel \<Rightarrow> 'a kernel" where
  "unblocked c k = k\<lparr>k_pending := (k_pending k)(c := No_pending)\<rparr>"

lemma sys_unblocked:
  assumes k: "sys M c k"
  shows "sys M c (unblocked c k)"
proof -
  have lv: "live (unblocked c k) = live k" by (simp add: live_def fun_eq_iff unblocked_def)
  have "pend_ok (unblocked c k)"
    using k pending_ok_live [OF lv] by (simp add: sys_def pend_ok_def) (simp add: unblocked_def)
  moreover have "ipc_ok M (unblocked c k)"
    using k unfolding sys_def ipc_ok_def lv by (simp add: unblocked_def)
  ultimately show ?thesis
    using k same_view_facts(1) [OF same_view_pending [of "(k_pending k)(c := No_pending)" k]]
    by (simp add: sys_def) (simp add: unblocked_def switch_ok_def)
qed

text \<open>The time that is left of a wait for a mailbox, if it is bounded, is again a time the timers take.\<close>

fun left_ok :: "'a kernel \<Rightarrow> pending \<Rightarrow> bool" where
  "left_ok k (P_mb_send m value time start) = time_ok (time_left time start k)"
| "left_ok k (P_mb_recv m time start) = time_ok (time_left time start k)"
| "left_ok k _ = True"

lemma continue_keeps:
  assumes k: "sys M c k" and l: "left_ok k (k_pending k c)"
  shows "\<exists>a k' M' u. run_pending k = Some (a, k') \<and> sys M' u k'"
proof -
  let ?k = "unblocked c k"
  have k1: "sys M c ?k" by (rule sys_unblocked [OF k])
  have cur: "k_current k = Some c" by (rule steadyD(6) [OF sys_steady [OF k]])
  have lv: "live ?k = live k" by (simp add: live_def fun_eq_iff unblocked_def)
  have left: "time_left time start ?k = time_left time start k" for time start
    by (simp add: time_left_def tick_get_def unblocked_def)
  have idle: "c \<noteq> idle_tid" if "k_pending k c \<noteq> No_pending" using k that by (auto simp: sys_def pend_ok_def)
  have lm: "pending_ok k (k_pending k c)" using k by (simp add: sys_def pend_ok_def)
  have clear: "sys M c (clear_timeout_error c ?k)" using k1 by (simp add: clear_timeout_error_def)
  show ?thesis
  proof (cases "k_pending k c")
    case (P_mb_send m v time start)
    have n: "time_ok (time_left time start ?k)" using l left P_mb_send by simp
    have lm': "live ?k (OMb m)" using lm lv P_mb_send by simp
    have c: "c \<noteq> idle_tid" using idle P_mb_send by simp
    obtain a k' M' u where "mb_send_loop m v (time_left time start ?k) (tick_get ?k - start) ?k = Some (a, k')" "sys M' u k'"
      using send_loop_ok [OF k1 lm' c n] by blast
    then show ?thesis using k1 cur P_mb_send
      by (cases "th_error (k_thread ?k c) = RT_EOK") (auto simp: run_pending_def Let_def unblocked_def [symmetric] rt_mb_send_rest_def)
  next
    case (P_mb_recv m time start)
    have n: "time_ok (time_left time start ?k)" using l left P_mb_recv by simp
    have lm': "live ?k (OMb m)" using lm lv P_mb_recv by simp
    have c: "c \<noteq> idle_tid" using idle P_mb_recv by simp
    obtain a k' M' u where "mb_recv_loop m (time_left time start ?k) (tick_get ?k - start) ?k = Some (a, k')" "sys M' u k'"
      using recv_loop_ok [OF k1 lm' c n] by blast
    then show ?thesis using k1 cur P_mb_recv
      by (cases "th_error (k_thread ?k c) = RT_EOK") (auto simp: run_pending_def Let_def unblocked_def [symmetric] rt_mb_recv_rest_def)
  qed (use k k1 cur clear in \<open>auto simp: run_pending_def Let_def unblocked_def [symmetric] rt_thread_sleep_rest_def rt_thread_delay_until_rest_def\<close>)
qed

end
