(* ===== verification/Rt_Extend.thy ===== *)
theory Rt_Extend
  imports Rt_Reach
begin

text \<open>
  New kernel objects: the invariant holds again once an object has been entered in its container and
  its links have been initialised. \<open>kinv_extend\<close> says what such a call must leave alone.
\<close>

section \<open>Attaching a node\<close>

lemma insert_after_init:
  "h \<noteq> n \<Longrightarrow> nxt s h \<noteq> n \<Longrightarrow> rt_list_insert_after h n (rt_list_init n s) = rt_list_insert_after h n s"
  by (auto simp: rt_list_insert_after_def rt_list_init_def set_next_def set_prev_def Let_def fun_upd_twist)

lemma no_member:
  assumes "\<And>k. n \<notin> set (queue M k)" "k \<noteq> n"
  shows "n \<notin> members M k"
  using assms(1) [of k] assms(2) by (cases "M k") (auto simp: members_def queue_def)

lemma rings_attach:
  assumes r: "rings s M" and h: "M h = Some xs" "n \<noteq> h" and n: "\<And>k. n \<notin> set (queue M k)"
  shows "rings (rt_list_insert_after h n s) (M(h \<mapsto> n # xs, n := None))"
proof -
  have i: "rings (rt_list_init n s) (M(n \<mapsto> []))" using rings_init [OF r] no_member [OF n] by blast
  have "nxt s h = hd (xs @ [h])" using ring_first [OF ringsD [OF r h(1)]] .
  then have "nxt s h \<noteq> n" using n [of h] h by (cases xs) auto
  then show ?thesis
    using rings_insert_head [OF i, of h xs n] h insert_after_init [of h n s] by (simp add: fun_upd_twist)
qed

section \<open>The frame of the invariant\<close>

lemma kinv_extend:
  assumes k: "kinv {} lo M k" and tt: "thread_timers M" and r: "rings (k_links k') M'"
    and q: "\<And>h. \<forall>c. h \<noteq> ObjList c \<Longrightarrow> queue M' h = queue M h"
    and qo: "\<And>c n. n \<in> set (queue M' (ObjList c)) \<Longrightarrow> \<exists>ob. n = ObjNode ob \<and> live k' ob"
    and al: "\<And>h. \<forall>ob. h \<noteq> ObjNode ob \<Longrightarrow> \<forall>c. h \<noteq> ObjList c \<Longrightarrow> M h = Some [] \<Longrightarrow> M' h = Some []"
    and dom: "\<And>h. \<forall>ob. h \<noteq> ObjNode ob \<Longrightarrow> M h \<noteq> None \<Longrightarrow> M' h \<noteq> None"
    and st: "\<And>t. ready k' t = ready k t \<and> suspended k' t = suspended k t"
    and eq: "\<And>t. ready k t \<or> suspended k t \<Longrightarrow> k_thread k' t = k_thread k t \<and>
       k_timer k' (ThreadTimer t) = k_timer k (ThreadTimer t) \<and> timer_flag (ThreadTimer t) k' = timer_flag (ThreadTimer t) k"
    and g: "k_group k' = k_group k" and t: "k_tick k' = k_tick k"
    and lv: "\<And>ob. live k ob \<Longrightarrow> live k' ob" and wh: "\<And>h. wait_head h \<Longrightarrow> live k' (owner h) \<Longrightarrow> M' h \<noteq> None"
    and lt: "\<And>t. live k' (OTimer (ThreadTimer t)) \<Longrightarrow> live k' (OThread t)"
  shows "kinv {} lo M' k'"
proof -
  have view: "prio k' u = prio k u" "prio_ok k' u = prio_ok k u" "thread_timer_ok k' u = thread_timer_ok k u"
    "active k' (ThreadTimer u) = active k (ThreadTimer u)" "due k' (ThreadTimer u) = due k (ThreadTimer u)"
    if "ready k u \<or> suspended k u" for u
    using eq [OF that] t by (simp_all add: prio_def prio_ok_def thread_timer_ok_def periodic_def active_def due_def)
  have place: "in_place (Row tm) M'" if p: "in_place (Row tm) M" for tm
  proof -
    from p consider "M (Row tm) = Some []" | h where "Row tm \<in> set (queue M h)" by (auto simp: in_place_def)
    then show ?thesis
    proof cases
      case 1 then show ?thesis using al [of "Row tm"] by (simp add: in_place_def)
    next
      case 2
      have "\<forall>c. h \<noteq> ObjList c" using kinvD(3) [OF k 2] by auto
      then have "Row tm \<in> set (queue M' h)" using 2 q [of h] by simp
      then show ?thesis by (auto simp: in_place_def)
    qed
  qed
  have whq: "queue M' h = queue M h" if "wait_head h" for h using q wait_head_other [OF that] by blast
  have tms: "timers M' = timers M" by (simp add: timers_def q)
  have tmd: "due k' tm = due k tm" if m: "tm \<in> set (timers M)" for tm
  proof -
    obtain u where u: "tm = ThreadTimer u" using tt m by (auto simp: thread_timers_def)
    have "Row tm \<in> set (queue M TimerList)" using m in_timers [OF k] by simp
    then have "suspended k u" using kinvD(3) [OF k, of "Row tm" TimerList] u by simp
    then show ?thesis using view(5) u by simp
  qed
  show ?thesis
  proof (rule kinvI [OF r])
    show "M' (Ready p) \<noteq> None" if "p < 8" for p using kinvD(2) [OF k that] dom by auto
    show "member_ok k' h n" if n: "n \<in> set (queue M' h)" for h n
    proof (cases "\<exists>c. h = ObjList c")
      case True
      then show ?thesis using qo n by fastforce
    next
      case False
      then have m: "n \<in> set (queue M h)" using n q [of h] by simp
      from kinvD(3) [OF k this] show ?thesis
      proof (cases h)
        case TimerList
        obtain tm where tm: "n = Row tm" using kinvD(3) [OF k m] TimerList by auto
        then have "tm \<in> set (timers M)" using in_timers [OF k] m TimerList by simp
        then obtain u where "tm = ThreadTimer u" using tt unfolding thread_timers_def by blast
        then show ?thesis using kinvD(3) [OF k m] TimerList tm st view by auto
      qed (use st view in auto)
    qed
    show "thread_ok M' k' u" if "u \<notin> {}" for u
    proof -
      have o: "thread_ok M k u" using kinvD(4) [OF k, of u] by simp
      have a: "M (Tlist u) = Some [] \<Longrightarrow> M' (Tlist u) = Some []" using al by simp
      have w: "\<exists>h. wait_head h \<and> Tlist u \<in> set (queue M h) \<Longrightarrow> \<exists>h. wait_head h \<and> Tlist u \<in> set (queue M' h)"
        using whq by auto
      show ?thesis
      proof (cases "ready k u \<or> suspended k u")
        case True
        then show ?thesis using o st view [OF True] a w place q unfolding thread_ok_def by auto
      qed (use st in \<open>simp add: thread_ok_def\<close>)
    qed
    show "group_ok M' k'" using kinvD(6) [OF k] by (simp add: group_ok_def g q)
    show "timers_ok lo M' k'"
      using kinvD(7) [OF k] tmd dom [of TimerList] by (simp add: timers_ok_def tms cong: map_cong)
    have ob: "objs_ok M k" by (rule kinvD(8) [OF k])
    show "objs_ok M' k'"
      unfolding objs_ok_def
    proof (intro conjI allI impI)
      show "M' (ObjList c) \<noteq> None" if "c < 4" for c using ob that dom [of "ObjList c"] by (simp add: objs_ok_def)
      show "M' h \<noteq> None" if "wait_head h" "live k' (owner h)" for h using wh that .
      show "live k' (owner h)" if "wait_head h" "queue M' h \<noteq> []" for h
        using ob that whq lv by (simp add: objs_ok_def)
      show "live k' (owner n)" if "n \<in> set (queue M' h)" for h n
      proof (cases "\<exists>c. h = ObjList c")
        case True then show ?thesis using qo that by force
      next
        case False then show ?thesis using ob that q [of h] lv unfolding objs_ok_def by metis
      qed
      show "live k' (OThread u)" "live k' (OTimer (ThreadTimer u))" if "ready k' u \<or> suspended k' u" for u
        using ob that st lv unfolding objs_ok_def by blast+
      show "live k' (OThread u)" if "live k' (OTimer (ThreadTimer u))" for u using lt that .
    qed
  qed simp
qed

section \<open>Entering an object in its container\<close>

text \<open>
  No call was interrupted: outside a critical section, and the running thread, if there is one, is
  the one the scheduler would choose.
\<close>

definition calm :: "(node \<rightharpoonup> node list) \<Rightarrow> 'a kernel \<Rightarrow> bool" where
  "calm M k = (k_lock_nest k = 0 \<and> (\<forall>c. k_current k = Some c \<longrightarrow> is_top M c))"

lemma sys_calm: "sys M c k \<Longrightarrow> calm M k"
  using steadyD(6,7) [of M c k] by (simp add: sys_def calm_def)

definition attached :: "obj \<Rightarrow> u8 \<Rightarrow> char list \<Rightarrow> nat \<Rightarrow> 'a kernel \<Rightarrow> 'a kernel" where
  "attached ob type name i k = on_links (rt_list_insert_after (ObjList i) (ObjNode ob))
     (on_object ob (\<lambda>x. x\<lparr>o_type := type OR RT_Object_Class_Static, o_name := rt_strncpy name RT_NAME_MAX\<rparr>) k)"

lemma exit_critical_calm:
  assumes k: "kinv X lo M k" and c: "calm M k"
  shows "rt_exit_critical (rt_enter_critical k) = Some k"
proof -
  have l: "k_lock_nest k = 0" using c by (simp add: calm_def)
  have e: "k\<lparr>k_lock_nest := 0\<rparr> = k" using l by (cases k) simp
  have u: "(rt_enter_critical k)\<lparr>k_lock_nest := 0\<rparr> = k" using e by (simp add: rt_enter_critical_def)
  show ?thesis
  proof (cases "k_current k")
    case None
    then show ?thesis using l u by (simp add: rt_exit_critical_def Let_def) (simp add: rt_enter_critical_def)
  next
    case (Some t)
    then have "rt_schedule k = Some k"
      using rt_schedule_top [OF k _ l, of t] c by (simp add: calm_def switch_to_def)
    then show ?thesis using l u Some by (simp add: rt_exit_critical_def Let_def) (simp add: rt_enter_critical_def)
  qed
qed

lemma object_init_ok:
  assumes k: "kinv X lo M k" and c: "calm M k" and i: "rt_object_get_information type = Some (ObjList i)" "i < 4"
  shows "rt_object_init ob type name k = Some (attached ob type name i k)"
proof -
  obtain xs where "M (ObjList i) = Some xs" using kinvD(8) [OF k] i(2) by (auto simp: objs_ok_def)
  then have "ring (k_links (rt_enter_critical k)) (ObjList i) xs"
    using ringsD [OF kinvD(1) [OF k]] by (simp add: rt_enter_critical_def)
  from rt_list_seek_ring [OF this]
  have "rt_list_seek (k_links (rt_enter_critical k)) (\<lambda>_. False) (ObjList i) (nxt (k_links (rt_enter_critical k)) (ObjList i)) \<noteq> None"
    by simp
  then show ?thesis
    using i(1) exit_critical_calm [OF k c] by (auto simp: rt_object_init_def attached_def Let_def)
qed

lemma attached_facts:
  shows "k_links (attached ob type name i k) = rt_list_insert_after (ObjList i) (ObjNode ob) (k_links k)"
    "k_thread (attached ob type name i k) = k_thread k" "k_timer (attached ob type name i k) = k_timer k"
    "k_group (attached ob type name i k) = k_group k" "k_current (attached ob type name i k) = k_current k"
    "k_lock_nest (attached ob type name i k) = k_lock_nest k"
    "k_object (attached ob type name i k) = (k_object k)(ob := (k_object k ob)\<lparr>o_type := type OR RT_Object_Class_Static,
       o_name := rt_strncpy name RT_NAME_MAX\<rparr>)"
  by (simp_all add: attached_def kernel_defs)

lemma live_static: "type OR RT_Object_Class_Static \<noteq> 0"
proof
  assume "type OR RT_Object_Class_Static = 0"
  then have "\<not> bit (type OR RT_Object_Class_Static) 7" by simp
  then show False by (simp add: bit_or_iff RT_Object_Class_Static_def)
qed

lemma object_information:
  "rt_object_get_information RT_Object_Class_Thread = Some (ObjList 0)"
  "rt_object_get_information RT_Object_Class_Semaphore = Some (ObjList 1)"
  "rt_object_get_information RT_Object_Class_MailBox = Some (ObjList 2)"
  "rt_object_get_information RT_Object_Class_Timer = Some (ObjList 3)"
  by (simp_all add: rt_object_get_information_def rt_object_container_def RT_Object_Class_Thread_def
      RT_Object_Class_Semaphore_def RT_Object_Class_MailBox_def RT_Object_Class_Timer_def)

text \<open>A node of an object that is not initialised is in no list.\<close>

lemma dead_no_member:
  assumes k: "kinv X lo M k" and o: "\<not> live k (owner n)"
  shows "n \<notin> set (queue M h)"
  using kinvD(8) [OF k] o by (auto simp: objs_ok_def)

lemma head_no_member:
  assumes k: "kinv X lo M k" and w: "wait_head n"
  shows "n \<notin> set (queue M h)"
proof
  assume "n \<in> set (queue M h)"
  from kinvD(3) [OF k this] w show False by (cases h) auto
qed

end
