(* ===== verification/Rt_Create.thy ===== *)
theory Rt_Create
  imports Rt_Extend
begin

text \<open>Initialising threads, semaphores and mailboxes, and starting a thread.\<close>

section \<open>Maps with a new object\<close>

definition entered :: "nat \<Rightarrow> obj \<Rightarrow> (node \<rightharpoonup> node list) \<Rightarrow> node \<rightharpoonup> node list" where
  "entered i ob M = M(ObjList i \<mapsto> ObjNode ob # queue M (ObjList i), ObjNode ob := None)"

lemma queue_entered:
  "queue (entered i ob M) h = (if h = ObjNode ob then [] else if h = ObjList i then ObjNode ob # queue M h else queue M h)"
  by (simp add: entered_def)

lemma entered_other: "h \<noteq> ObjNode ob \<Longrightarrow> h \<noteq> ObjList i \<Longrightarrow> entered i ob M h = M h"
  by (simp add: entered_def)

lemma node_queue:
  assumes k: "kinv X lo M k"
  shows "queue M (ObjNode ob) = []" "queue M (Tlist t) = []" "queue M (Row tm) = []"
proof -
  have "n \<notin> set (queue M (ObjNode ob))" "n \<notin> set (queue M (Tlist t))" "n \<notin> set (queue M (Row tm))" for n
    using kinvD(3) [OF k, of n] by (metis member_ok.simps wait_head.simps)+
  then show "queue M (ObjNode ob) = []" "queue M (Tlist t) = []" "queue M (Row tm) = []"
    by (metis list.set_intros(1) neq_Nil_conv)+
qed

lemma rings_entered:
  assumes k: "kinv X lo M k" and i: "i < 4" and d: "\<not> live k ob"
  shows "rings (rt_list_insert_after (ObjList i) (ObjNode ob) (k_links k)) (entered i ob M)"
proof -
  obtain xs where xs: "M (ObjList i) = Some xs" using kinvD(8) [OF k] i by (auto simp: objs_ok_def)
  have "ObjNode ob \<notin> set (queue M h)" for h using dead_no_member [OF k, of "ObjNode ob"] d by simp
  from rings_attach [OF kinvD(1) [OF k] xs _ this] xs show ?thesis by (simp add: entered_def)
qed

lemma rings_fresh:
  assumes r: "rings s M" and n: "\<And>h. n \<notin> set (queue M h)"
  shows "rings (rt_list_init n s) (M(n \<mapsto> []))"
  using rings_init [OF r] no_member [OF n] by blast

text \<open>The object is in its container, and its own nodes are initialised.\<close>

definition with_object :: "nat \<Rightarrow> obj \<Rightarrow> node list \<Rightarrow> (node \<rightharpoonup> node list) \<Rightarrow> node \<rightharpoonup> node list" where
  "with_object i ob ns M = (\<lambda>h. if h \<in> set ns then Some [] else entered i ob M h)"

lemma rings_fresh_list:
  "rings s M \<Longrightarrow> (\<And>n h. n \<in> set ns \<Longrightarrow> n \<notin> set (queue M h)) \<Longrightarrow>
   rings (fold rt_list_init ns s) (\<lambda>h. if h \<in> set ns then Some [] else M h)"
proof (induction ns arbitrary: s M)
  case (Cons n ns)
  have "rings (rt_list_init n s) (M(n \<mapsto> []))" using rings_fresh [OF Cons.prems(1)] Cons.prems(2) by simp
  moreover have "m \<notin> set (queue (M(n \<mapsto> [])) h)" if "m \<in> set ns" for m h using Cons.prems(2) [of m h] that by simp
  ultimately have "rings (fold rt_list_init ns (rt_list_init n s)) (\<lambda>h. if h \<in> set ns then Some [] else (M(n \<mapsto> [])) h)"
    by (rule Cons.IH)
  moreover have "(\<lambda>h. if h \<in> set ns then Some [] else (M(n \<mapsto> [])) h) = (\<lambda>h. if h \<in> set (n # ns) then Some [] else M h)"
    by auto
  ultimately show ?case by simp
qed simp

lemma queue_with_object:
  assumes k: "kinv X lo M k" and n: "\<And>n. n \<in> set ns \<Longrightarrow> queue M n = [] \<and> (\<forall>c. n \<noteq> ObjList c)"
  shows "queue (with_object i ob ns M) h = (if h = ObjList i then ObjNode ob # queue M h else queue M h)"
  using n [of h] node_queue(1) [OF k, of ob] by (auto simp: with_object_def queue_def entered_def split: if_splits)

lemma kinv_enter:
  assumes k: "kinv {} lo M k" and tt: "thread_timers M" and i: "i < 4" and d: "\<not> live k ob"
    and ns: "\<And>n h. n \<in> set ns \<Longrightarrow> n \<notin> set (queue M h)"
      "\<And>n. n \<in> set ns \<Longrightarrow> queue M n = [] \<and> (\<forall>c. n \<noteq> ObjList c) \<and> n \<noteq> ObjNode ob"
    and l: "k_links l = fold rt_list_init ns (rt_list_insert_after (ObjList i) (ObjNode ob) (k_links k))"
    and lv: "\<And>x. live l x \<longleftrightarrow> x = ob \<or> live k x"
    and st: "\<And>t. ready l t = ready k t \<and> suspended l t = suspended k t"
    and eq: "\<And>t. ready k t \<or> suspended k t \<Longrightarrow> k_thread l t = k_thread k t \<and>
       k_timer l (ThreadTimer t) = k_timer k (ThreadTimer t) \<and> timer_flag (ThreadTimer t) l = timer_flag (ThreadTimer t) k"
    and g: "k_group l = k_group k" "k_tick l = k_tick k"
    and wh: "\<And>h. wait_head h \<Longrightarrow> owner h = ob \<Longrightarrow> h \<in> set ns"
    and lt: "\<And>t. ob = OTimer (ThreadTimer t) \<Longrightarrow> live k (OThread t)"
  shows "kinv {} lo (with_object i ob ns M) l"
proof (rule kinv_extend [OF k tt _ _ _ _ _ st eq g])
  let ?N = "with_object i ob ns M"
  have q: "queue ?N h = (if h = ObjList i then ObjNode ob # queue M h else queue M h)" for h
    by (rule queue_with_object [OF k]) (use ns(2) in blast)
  have "n \<notin> set (queue (entered i ob M) h)" if "n \<in> set ns" for n h
    using ns(1) [OF that] ns(2) [OF that] by (simp add: queue_entered)
  from rings_fresh_list [OF rings_entered [OF k i d] this]
  show "rings (k_links l) ?N" unfolding l with_object_def .
  show "queue ?N h = queue M h" if "\<forall>c. h \<noteq> ObjList c" for h using that q by simp
  show "\<exists>y. x = ObjNode y \<and> live l y" if x: "x \<in> set (queue ?N (ObjList c))" for c x
  proof -
    have "x = ObjNode ob \<or> x \<in> set (queue M (ObjList c))" using x q by (auto split: if_splits)
    then show ?thesis
    proof
      assume m: "x \<in> set (queue M (ObjList c))"
      then obtain y where "x = ObjNode y" using kinvD(3) [OF k m] by auto
      then show ?thesis using kinvD(8) [OF k] m lv unfolding objs_ok_def by fastforce
    qed (use lv in simp)
  qed
  show "?N h = Some []" if "\<forall>ob. h \<noteq> ObjNode ob" "\<forall>c. h \<noteq> ObjList c" "M h = Some []" for h
    using that by (simp add: with_object_def entered_other)
  show "?N h \<noteq> None" if "\<forall>ob. h \<noteq> ObjNode ob" "M h \<noteq> None" for h
    using that by (simp add: with_object_def entered_def)
  show "?N h \<noteq> None" if w: "wait_head h" and "live l (owner h)" for h
  proof (cases "owner h = ob")
    case True then show ?thesis using wh w by (simp add: with_object_def)
  next
    case False
    then have "M h \<noteq> None" using that lv kinvD(8) [OF k] by (simp add: objs_ok_def)
    then show ?thesis using wait_head_other [OF w] by (simp add: with_object_def entered_def)
  qed
  show "live l (OThread u)" if "live l (OTimer (ThreadTimer u))" for u
    using that kinvD(8) [OF k] lv lt by (auto simp: objs_ok_def)
qed (use lv in auto)

section \<open>Threads\<close>

text \<open>A call that concerns only thread \<open>t\<close>, its timer and its objects.\<close>

definition concerns :: "tid \<Rightarrow> 'a kernel \<Rightarrow> 'a kernel \<Rightarrow> bool" where
  "concerns t k l = ((\<forall>u. u \<noteq> t \<longrightarrow> k_thread l u = k_thread k u) \<and>
     (\<forall>tm. tm \<noteq> ThreadTimer t \<longrightarrow> k_timer l tm = k_timer k tm) \<and>
     (\<forall>ob. ob \<noteq> OThread t \<longrightarrow> ob \<noteq> OTimer (ThreadTimer t) \<longrightarrow> k_object l ob = k_object k ob) \<and>
     k_sem l = k_sem k \<and> k_mb l = k_mb k \<and> k_pending l = k_pending k \<and> k_current l = k_current k \<and>
     k_lock_nest l = k_lock_nest k \<and> k_interrupt_nest l = k_interrupt_nest k \<and> k_tick l = k_tick k \<and>
     (switch_ok k \<longrightarrow> switch_ok l))"

lemma concerns_trans: "concerns t k l \<Longrightarrow> concerns t l m \<Longrightarrow> concerns t k m"
  by (simp add: concerns_def)

text \<open>A thread that has been initialised and not started.\<close>

definition startable :: "(node \<rightharpoonup> node list) \<Rightarrow> tid \<Rightarrow> 'a kernel \<Rightarrow> bool" where
  "startable M t k = (\<not> ready k t \<and> \<not> suspended k t \<and> M (Tlist t) = Some [] \<and> M (Row (ThreadTimer t)) = Some [] \<and>
     thread_timer_ok k t \<and> \<not> active k (ThreadTimer t) \<and> live k (OThread t) \<and> live k (OTimer (ThreadTimer t)) \<and>
     unat (th_init_priority (k_thread k t)) < 8)"

definition thread_fields :: "tid \<Rightarrow> nat \<Rightarrow> arg \<Rightarrow> u32 \<Rightarrow> u32 \<Rightarrow> u8 \<Rightarrow> u32 \<Rightarrow> 'a kernel \<Rightarrow> 'a kernel" where
  "thread_fields t entry parameter stack_start stack_size priority tick k =
    (let k1 = on_links (rt_list_init (Tlist t)) k;
         k2 = on_thread t (\<lambda>th. th\<lparr>th_entry := entry, th_parameter := parameter,
                    th_stack_addr := stack_start, th_stack_size := stack_size,
                    th_init_priority := priority, th_current_priority := priority, th_number_mask := 0,
                    th_init_tick := tick, th_remaining_tick := tick, th_error := RT_EOK,
                    th_stat := RT_THREAD_INIT, th_cleanup := None\<rparr>) k1
     in k2\<lparr>k_sp := (k_sp k2)(t := Ctx t)\<rparr>)"

lemma thread_init_fields_eq:
  "thread_init_fields t name entry parameter stack_start stack_size priority tick k =
    (let k1 = thread_fields t entry parameter stack_start stack_size priority tick k in
     rt_timer_init (ThreadTimer t) (o_name (k_object k1 (OThread t))) Rt_thread_timeout (ArgThread t)
       0 RT_TIMER_FLAG_ONE_SHOT k1)"
  by (simp add: thread_init_fields_def thread_fields_def Let_def)

lemma init_stat: "RT_THREAD_INIT AND RT_THREAD_STAT_MASK \<noteq> RT_THREAD_READY" "RT_THREAD_INIT AND RT_THREAD_STAT_MASK \<noteq> RT_THREAD_SUSPEND"
  by (simp_all add: RT_THREAD_INIT_def RT_THREAD_READY_def RT_THREAD_SUSPEND_def)

lemma dead_thread:
  assumes k: "kinv {} lo M k" and d: "\<not> live k (OThread t)"
  shows "\<not> ready k t" "\<not> suspended k t"
  using kinvD(8) [OF k] d by (auto simp: objs_ok_def)

lemma init_first_half:
  fixes k :: "'a kernel" and name e p a z pr n
  assumes k: "kinv {} lo M k" and tt: "thread_timers M" and d: "\<not> live k (OThread t)" "\<not> live k (OTimer (ThreadTimer t))"
  defines "l \<equiv> thread_fields t e p a z pr n (attached (OThread t) RT_Object_Class_Thread name 0 k)"
  shows "kinv {} lo (with_object 0 (OThread t) [Tlist t] M) l" "concerns t k l" "live l x \<longleftrightarrow> x = OThread t \<or> live k x"
    "\<not> ready l t" "\<not> suspended l t" "th_init_priority (k_thread l t) = pr"
proof -
  note nt = dead_thread [OF k d(1)]
  have th: "k_thread l u = k_thread k u" if "u \<noteq> t" for u
    using that by (simp add: l_def thread_fields_def Let_def kernel_defs attached_facts)
  have f: "k_timer l = k_timer k" "k_group l = k_group k" "k_tick l = k_tick k"
    "k_object l = (k_object k)(OThread t := (k_object k (OThread t))\<lparr>o_type := RT_Object_Class_Thread OR RT_Object_Class_Static,
       o_name := rt_strncpy name RT_NAME_MAX\<rparr>)"
    "k_links l = rt_list_init (Tlist t) (rt_list_insert_after (ObjList 0) (ObjNode (OThread t)) (k_links k))"
    by (simp_all add: l_def thread_fields_def Let_def kernel_defs attached_def)
  have stat: "th_stat (k_thread l t) = RT_THREAD_INIT" "th_init_priority (k_thread l t) = pr"
    by (simp_all add: l_def thread_fields_def Let_def kernel_defs)
  then show ns: "\<not> ready l t" "\<not> suspended l t" and "th_init_priority (k_thread l t) = pr"
    using init_stat by (simp_all add: ready_def suspended_def thread_stat_def)
  have lv: "live l x \<longleftrightarrow> x = OThread t \<or> live k x" for x using live_static by (simp add: live_def f)
  then show "live l x \<longleftrightarrow> x = OThread t \<or> live k x" .
  show "kinv {} lo (with_object 0 (OThread t) [Tlist t] M) l"
  proof (rule kinv_enter [OF k tt _ d(1) _ _ _ lv])
    show "ready l u = ready k u \<and> suspended l u = suspended k u" for u
      using th nt ns by (cases "u = t") (simp_all add: ready_def suspended_def thread_stat_def)
    show "m \<notin> set (queue M h)" if "m \<in> set [Tlist t]" for m h
      using dead_no_member [OF k, of "Tlist t"] d(1) that by simp
    show "k_thread l u = k_thread k u \<and> k_timer l (ThreadTimer u) = k_timer k (ThreadTimer u) \<and>
      timer_flag (ThreadTimer u) l = timer_flag (ThreadTimer u) k" if "ready k u \<or> suspended k u" for u
      using that nt th f by (cases "u = t") (simp_all add: timer_flag_def)
    show "h \<in> set [Tlist t]" if "wait_head h" "owner h = OThread t" for h using that by (cases h) auto
  qed (use f node_queue(2) [OF k] in auto)
  show "concerns t k l"
    unfolding concerns_def by (simp add: th f) (simp add: l_def thread_fields_def attached_def Let_def kernel_defs switch_ok_def)
qed

lemma init_second_half:
  fixes k :: "'a kernel" and name
  assumes k: "kinv {} lo M k" and tt: "thread_timers M" and d: "live k (OThread t)" "\<not> live k (OTimer (ThreadTimer t))"
    and nr: "\<not> ready k t" "\<not> suspended k t"
  defines "l \<equiv> timer_init_fields (ThreadTimer t) Rt_thread_timeout (ArgThread t) 0 RT_TIMER_FLAG_ONE_SHOT
     (attached (OTimer (ThreadTimer t)) RT_Object_Class_Timer name 3 k)"
  shows "kinv {} lo (with_object 3 (OTimer (ThreadTimer t)) [Row (ThreadTimer t)] M) l" "concerns t k l"
    "live l x \<longleftrightarrow> x = OTimer (ThreadTimer t) \<or> live k x" "k_thread l = k_thread k" "thread_timer_ok l t" "\<not> active l (ThreadTimer t)"
proof -
  let ?tm = "ThreadTimer t"
  have f: "k_group l = k_group k" "k_tick l = k_tick k"
    "k_links l = rt_list_init (Row ?tm) (rt_list_insert_after (ObjList 3) (ObjNode (OTimer ?tm)) (k_links k))"
    and fl: "timer_flag ?tm l = 0" and tm: "tm_func (k_timer l ?tm) = Rt_thread_timeout" "tm_parameter (k_timer l ?tm) = ArgThread t"
    and ty: "o_type (k_object l (OTimer ?tm)) = RT_Object_Class_Timer OR RT_Object_Class_Static"
    and oo: "x \<noteq> OTimer ?tm \<Longrightarrow> k_object l x = k_object k x" and ot: "u \<noteq> ?tm \<Longrightarrow> k_timer l u = k_timer k u" for x u
    by (simp_all add: l_def timer_init_fields_def Let_def kernel_defs attached_def timer_flag_def RT_TIMER_FLAG_ONE_SHOT_def)
  show th: "k_thread l = k_thread k"
    by (simp add: l_def timer_init_fields_def Let_def kernel_defs attached_def)
  show "thread_timer_ok l t" "\<not> active l ?tm" using tm fl by (simp_all add: thread_timer_ok_def periodic_def active_def)
  have lv: "live l x \<longleftrightarrow> x = OTimer ?tm \<or> live k x" for x
    using live_static ty oo [of x] by (cases "x = OTimer ?tm") (simp_all add: live_def)
  then show "live l x \<longleftrightarrow> x = OTimer ?tm \<or> live k x" .
  show "kinv {} lo (with_object 3 (OTimer ?tm) [Row ?tm] M) l"
  proof (rule kinv_enter [OF k tt _ d(2) _ _ _ lv])
    show "ready l u = ready k u \<and> suspended l u = suspended k u" for u
      using th by (simp add: ready_def suspended_def thread_stat_def)
    show "m \<notin> set (queue M h)" if "m \<in> set [Row ?tm]" for m h
      using dead_no_member [OF k, of "Row ?tm"] d(2) that by simp
    show "k_thread l u = k_thread k u \<and> k_timer l (ThreadTimer u) = k_timer k (ThreadTimer u) \<and>
      timer_flag (ThreadTimer u) l = timer_flag (ThreadTimer u) k" if "ready k u \<or> suspended k u" for u
      using that nr th oo ot by (cases "u = t") (auto simp: timer_flag_def)
    show "h \<in> set [Row ?tm]" if "wait_head h" "owner h = OTimer ?tm" for h using that by (cases h) auto
  qed (use f d(1) node_queue(3) [OF k] in auto)
  show "concerns t k l"
    unfolding concerns_def by (simp add: th ot oo) (simp add: l_def timer_init_fields_def attached_def Let_def kernel_defs switch_ok_def)
qed

end
