(* ===== verification/Rt_Boot.thy ===== *)
theory Rt_Boot
  imports Rt_Create
begin

text \<open>Creating a thread, a semaphore or a mailbox, and the start of the kernel up to its first thread.\<close>

section \<open>Initialising a thread\<close>

lemma calm_concerns:
  assumes "calm M k" "concerns t k l" "\<And>p. queue N (Ready p) = queue M (Ready p)"
  shows "calm N l"
  using assms by (simp add: calm_def concerns_def is_top_def)

lemma thread_init_ok:
  fixes k :: "'a kernel"
  assumes k: "kinv {} lo M k" and c: "calm M k" and tt: "thread_timers M"
    and d: "\<not> live k (OThread t)" "\<not> live k (OTimer (ThreadTimer t))" and p: "unat pr < 8"
  shows "\<exists>k' M'. rt_thread_init t name e a st sz pr n k = Some k' \<and> kinv {} lo M' k' \<and> concerns t k k' \<and>
    startable M' t k' \<and> thread_timers M' \<and> th_init_priority (k_thread k' t) = pr \<and>
    (\<forall>h. (\<forall>c. h \<noteq> ObjList c) \<longrightarrow> queue M' h = queue M h) \<and>
    (\<forall>x. live k' x \<longleftrightarrow> x = OThread t \<or> x = OTimer (ThreadTimer t) \<or> live k x)"
proof -
  let ?tm = "ThreadTimer t"
  define k1 where "k1 = thread_fields t e a st sz pr n (attached (OThread t) RT_Object_Class_Thread name 0 k)"
  define M1 where "M1 = with_object 0 (OThread t) [Tlist t] M"
  note h1 = init_first_half [OF k tt d, where e = e and p = a and a = st and z = sz and pr = pr and n = n and name = name, folded k1_def M1_def]
  have q1: "queue M1 h = (if h = ObjList 0 then ObjNode (OThread t) # queue M h else queue M h)" for h
    unfolding M1_def by (rule queue_with_object [OF k]) (use node_queue(2) [OF k] in auto)
  have c1: "calm M1 k1" by (rule calm_concerns [OF c h1(2)]) (simp add: q1)
  have tt1: "thread_timers M1" using tt by (simp add: thread_timers_def timers_def q1)
  have l1: "live k1 (OThread t)" "\<not> live k1 (OTimer ?tm)" using h1(3) d by simp_all
  define nm where "nm = o_name (k_object k1 (OThread t))"
  define k2 where "k2 = timer_init_fields ?tm Rt_thread_timeout (ArgThread t) 0 RT_TIMER_FLAG_ONE_SHOT
     (attached (OTimer ?tm) RT_Object_Class_Timer nm 3 k1)"
  define M2 where "M2 = with_object 3 (OTimer ?tm) [Row ?tm] M1"
  note h2 = init_second_half [OF h1(1) tt1 l1 h1(4,5), where name = nm, folded k2_def M2_def]
  have q2: "queue M2 h = (if h = ObjList 3 then ObjNode (OTimer ?tm) # queue M1 h else queue M1 h)" for h
    unfolding M2_def by (rule queue_with_object [OF h1(1)]) (use node_queue(3) [OF h1(1)] in auto)
  have "rt_object_init (OThread t) RT_Object_Class_Thread name k = Some (attached (OThread t) RT_Object_Class_Thread name 0 k)"
    by (rule object_init_ok [OF k c object_information(1)]) simp
  moreover have "rt_object_init (OTimer ?tm) RT_Object_Class_Timer nm k1 = Some (attached (OTimer ?tm) RT_Object_Class_Timer nm 3 k1)"
    by (rule object_init_ok [OF h1(1) c1 object_information(4)]) simp
  ultimately have "rt_thread_init t name e a st sz pr n k = Some k2"
    by (simp add: rt_thread_init_def thread_init_fields_eq Let_def k1_def [symmetric] nm_def [symmetric] rt_timer_init_def k2_def)
  moreover have "startable M2 t k2"
    using h1(3-6) h2(3-6) d p
    by (simp add: startable_def ready_def suspended_def thread_stat_def) (simp add: M2_def M1_def with_object_def entered_def)
  moreover have "thread_timers M2" using tt1 by (simp add: thread_timers_def timers_def q2)
  moreover have "live k2 x \<longleftrightarrow> x = OThread t \<or> x = OTimer ?tm \<or> live k x" for x
    unfolding h2(3) h1(3) by blast
  ultimately show ?thesis
    using h2(1,4) concerns_trans [OF h1(2) h2(2)] h1(6) q1 q2 by (intro exI [of _ k2] exI [of _ M2]) auto
qed

section \<open>Starting a thread\<close>

text \<open>The state in which \<^verbatim>\<open>rt_thread_startup\<close> resumes the thread.\<close>

definition armed :: "tid \<Rightarrow> 'a kernel \<Rightarrow> 'a kernel" where
  "armed t k = set_stat t RT_THREAD_SUSPEND
     (on_thread t (\<lambda>th. th\<lparr>th_number_mask := priority_mask (th_current_priority th)\<rparr>)
       (on_thread t (\<lambda>th. th\<lparr>th_current_priority := th_init_priority th\<rparr>) k))"

lemma armed_ok:
  assumes k: "kinv {} lo M k" and s: "startable M t k"
  shows "kinv {} lo M (armed t k)" "suspended (armed t k) t" "prio (armed t k) t = unat (th_init_priority (k_thread k t))"
    "concerns t k (armed t k)" "k_object (armed t k) = k_object k" "\<not> active (armed t k) (ThreadTimer t)"
proof -
  let ?k = "armed t k"
  have th: "th_current_priority (k_thread ?k t) = th_init_priority (k_thread k t)" "th_stat (k_thread ?k t) = RT_THREAD_SUSPEND"
    "th_number_mask (k_thread ?k t) = priority_mask (th_init_priority (k_thread k t))"
    by (simp_all add: armed_def kernel_defs)
  show sus: "suspended ?k t" by (simp add: suspended_def thread_stat_def th RT_THREAD_SUSPEND_def RT_THREAD_STAT_MASK_def)
  show pr: "prio ?k t = unat (th_init_priority (k_thread k t))" by (simp add: prio_def th)
  have lo: "loose_ok M k t"
    using s by (simp add: startable_def loose_ok_def in_place_def)
  have kt: "kinv {t} lo M k"
    using k lo unfolding kinv_def by auto
  have df: "differ_at t ?k k" by (simp add: differ_at_def armed_def kernel_defs)
  have a: "\<not> active k (ThreadTimer t)" using s by (simp add: startable_def)
  have "kinv {t} lo M ?k" by (rule loose_differ [OF kt _ df a]) (simp_all add: armed_def kernel_defs)
  moreover have "prio_ok ?k t" using s pr th by (simp add: prio_ok_def startable_def)
  ultimately have "kinv ({t} - {t}) lo M ?k" using kinv_settle [of "{t}" lo M ?k t] sus by simp
  then show "kinv {} lo M ?k" by simp
  show "concerns t k ?k" by (simp add: concerns_def armed_def kernel_defs)
  show "k_object ?k = k_object k" by (simp add: armed_def kernel_defs)
  then show "\<not> active ?k (ThreadTimer t)" using a by (simp add: active_def timer_flag_def)
qed

lemma touches_concerns: "touches t k l \<Longrightarrow> (\<forall>ob. ob \<noteq> OTimer (ThreadTimer t) \<longrightarrow> k_object l ob = k_object k ob) \<Longrightarrow> concerns t k l"
  by (simp add: touches_def concerns_def same_rest_def same_cpu_def)

text \<open>The thread is the last of its priority; the running thread, if there is one, may have to give way.\<close>

lemma startup_ok:
  assumes k: "kinv {} 0 M k" and s: "startable M t k" and tt: "thread_timers M" and e: "queue M Expired = []"
  defines "p \<equiv> unat (th_init_priority (k_thread k t))"
  shows "\<exists>k' M'. rt_thread_startup t k = (if k_current k \<noteq> None then rt_schedule k' else Some k') \<and>
    kinv {} 0 M' k' \<and> ready k' t \<and> prio k' t = p \<and> thread_timers M' \<and> queue M' Expired = [] \<and> same_rest k k' \<and>
    k_current k' = k_current k \<and> (\<forall>u. u \<noteq> t \<longrightarrow> k_thread k' u = k_thread k u) \<and>
    (\<forall>h. queue M' h = (if h = Ready p then queue M h @ [Tlist t] else queue M h))"
proof -
  let ?k = "armed t k"
  note a = armed_ok [OF k s]
  obtain k' where r: "rt_thread_resume t ?k = Some (RT_EOK, k')" and i: "kinv {} 0 (resume_map t ?k M) k'"
    and rd: "ready k' t" and tch: "touches t ?k k'"
    using resume_ok [OF a(1) _ a(2)] by auto
  have alone: "M (Tlist t) = Some []" using s by (simp add: startable_def)
  then have no: "Tlist t \<notin> set (queue M h)" for h
    using rings_queue_None [OF kinvD(1) [OF k]] by force
  have q: "queue (resume_map t ?k M) h = (if h = Ready p then queue M h @ [Tlist t] else queue M h)" for h
    using a(6) no alone node_queue(2) [OF k, of t] by (auto simp: resume_map_def queue_link_last queue_unlink remove1_idem a(3) p_def)
  have sr: "same_rest k k'" using tch by (simp add: touches_def same_rest_def) (simp add: armed_def kernel_defs)
  have st: "rt_thread_startup t k = (if k_current k \<noteq> None then rt_schedule k' else Some k')"
  proof -
    have "k_current k' = k_current k" using tch by (simp add: touches_def same_cpu_def armed_def kernel_defs)
    then show ?thesis using r by (simp add: rt_thread_startup_def Let_def armed_def rt_thread_self_def)
  qed
  have "thread_timers (resume_map t ?k M)" using tt by (simp add: thread_timers_def timers_def q)
  moreover have "k_current k' = k_current k" "\<forall>u. u \<noteq> t \<longrightarrow> k_thread k' u = k_thread k u"
    using tch by (simp_all add: touches_def same_cpu_def armed_def kernel_defs)
  moreover have "prio k' t = p" using touches_facts(3) [OF tch] a(3) by (simp add: p_def)
  ultimately show ?thesis
    using st i rd e q sr by (intro exI [of _ k'] exI [of _ "resume_map t ?k M"]) simp
qed

end
