(* ===== verification/Rt_Start.thy ===== *)
theory Rt_Start
  imports Rt_Boot
begin

text \<open>
  The calls that create objects, in the running system, and the start of the kernel: from the memory
  the loader leaves to the first instruction of the main thread.
\<close>

section \<open>Creating a thread in the running system\<close>

lemma ipc_ok_frame:
  assumes o: "ipc_ok M k" and q: "\<And>s. queue M' (SemWait s) = queue M (SemWait s)"
    and f: "k_sem l = k_sem k" "k_mb l = k_mb k" "\<And>s. k_object l (OSem s) = k_object k (OSem s)" "\<And>m. k_object l (OMb m) = k_object k (OMb m)"
  shows "ipc_ok M' l"
  using o by (simp add: ipc_ok_def live_def q f)

lemma pend_ok_frame:
  assumes o: "pend_ok k" and f: "k_pending l = k_pending k" "\<And>m. live k (OMb m) \<Longrightarrow> live l (OMb m)"
  shows "pend_ok l"
proof -
  have "pending_ok k p \<Longrightarrow> pending_ok l p" for p using f(2) by (cases p) simp_all
  then show ?thesis using o f(1) by (simp add: pend_ok_def)
qed

lemma create_keeps:
  assumes k: "sys M c k" and d: "\<not> live k (OThread t)" "\<not> live k (OTimer (ThreadTimer t))" and p: "unat pr < 8"
  shows "\<exists>k1 k' M' u. rt_thread_init t name e a st sz pr n k = Some k1 \<and> rt_thread_startup t k1 = Some k' \<and> sys M' u k' \<and>
    ready k' t \<and> prio k' t = unat pr"
proof -
  note s = steadyD [OF sys_steady [OF k]]
  obtain k1 M1 where i: "rt_thread_init t name e a st sz pr n k = Some k1" and k1: "kinv {} 0 M1 k1" and c1: "concerns t k k1"
    and s1: "startable M1 t k1" "thread_timers M1" and p1: "th_init_priority (k_thread k1 t) = pr"
    and q1: "\<forall>h. (\<forall>c. h \<noteq> ObjList c) \<longrightarrow> queue M1 h = queue M h"
    and l1: "\<forall>x. live k1 x \<longleftrightarrow> x = OThread t \<or> x = OTimer (ThreadTimer t) \<or> live k x"
    using thread_init_ok [OF s(1) sys_calm [OF k] s(4) d p, of name e a st sz n] by blast
  have e1: "queue M1 Expired = []" using q1 s(5) by simp
  have cur: "k_current k1 = Some c" using c1 s(6) by (simp add: concerns_def)
  obtain k2 M2 where st: "rt_thread_startup t k1 = (if k_current k1 \<noteq> None then rt_schedule k2 else Some k2)" and k2: "kinv {} 0 M2 k2" "ready k2 t" "prio k2 t = unat pr"
    and m2: "thread_timers M2" "queue M2 Expired = []" and r2: "same_rest k1 k2" "k_current k2 = k_current k1"
    "\<forall>u. u \<noteq> t \<longrightarrow> k_thread k2 u = k_thread k1 u"
    and q2: "\<forall>h. queue M2 h = (if h = Ready (unat pr) then queue M1 h @ [Tlist t] else queue M1 h)"
    using startup_ok [OF k1 s1 e1, unfolded p1] by blast
  have run: "running c k2" using r2 c1 s(7) cur by (simp add: running_def concerns_def same_rest_def)
  obtain u where u: "rt_schedule k2 = Some (switch_to u k2)" "steady M2 u (switch_to u k2)" "is_top M2 u"
    using steady_switch [OF k2(1) run k2(2) m2] by blast
  let ?k = "switch_to u k2"
  have sr: "same_rest k1 ?k" using r2(1) switch_to_facts(8) same_rest_trans by blast
  have "live k (OThread idle_tid)" using sys_idle [OF k] kinvD(8) [OF s(1)] by (simp add: objs_ok_def)
  then have "idle_tid \<noteq> t" using d by metis
  then have "k_thread ?k idle_tid = k_thread k idle_tid" using r2(3) c1 by (simp add: switch_to_facts concerns_def)
  then have id: "ready ?k idle_tid" using sys_idle [OF k] by (simp add: ready_def thread_stat_def)
  have f1: "k_sem k1 = k_sem k" "k_mb k1 = k_mb k" "k_pending k1 = k_pending k" "k_interrupt_nest k1 = k_interrupt_nest k"
    "switch_ok k \<longrightarrow> switch_ok k1" "k_object k1 (OSem x) = k_object k (OSem x)" "k_object k1 (OMb x) = k_object k (OMb x)" for x
    using c1 unfolding concerns_def by blast+
  have f2: "k_sem ?k = k_sem k1" "k_mb ?k = k_mb k1" "k_pending ?k = k_pending k1" "k_interrupt_nest ?k = k_interrupt_nest k1"
    "switch_ok k1 \<longrightarrow> switch_ok ?k" "k_object ?k (OSem x) = k_object k1 (OSem x)" "k_object ?k (OMb x) = k_object k1 (OMb x)" for x
    using sr unfolding same_rest_def by blast+
  have "ipc_ok M2 ?k"
    by (rule ipc_ok_frame [of M k]) (use k in \<open>simp_all add: sys_def f1 f2 q1 q2\<close>)
  moreover have "pend_ok ?k"
    by (rule pend_ok_frame [of k]) (use k in \<open>simp_all add: sys_def live_def f1 f2\<close>)
  moreover have "k_interrupt_nest ?k = 0" "switch_ok ?k" using k f1(4,5) f2(4,5) by (simp_all add: sys_def)
  ultimately have "sys M2 u ?k" using u(2,3) id by (simp add: sys_def)
  moreover have "ready ?k t" "prio ?k t = unat pr"
    using k2 same_view_facts(1,3) [OF switch_to_facts(1) [of u k2]] by simp_all
  ultimately show ?thesis using i st cur u(1) by auto
qed

section \<open>Semaphores and mailboxes\<close>

lemma object_enter_keeps:
  assumes k: "sys M c k" and i: "i < 4" and d: "\<not> live k ob" and nt: "\<And>t. ob \<noteq> OThread t" "\<And>tm. ob \<noteq> OTimer tm"
    and ns: "\<And>n. n \<in> set ns \<longleftrightarrow> wait_head n \<and> owner n = ob"
    and l: "k_links l = fold rt_list_init ns (rt_list_insert_after (ObjList i) (ObjNode ob) (k_links k))"
    and lv: "o_type (k_object l ob) \<noteq> 0" and oo: "\<And>x. x \<noteq> ob \<Longrightarrow> k_object l x = k_object k x"
    and f: "k_thread l = k_thread k" "k_timer l = k_timer k" "k_group l = k_group k" "k_tick l = k_tick k"
      "k_current l = k_current k" "k_lock_nest l = k_lock_nest k" "k_interrupt_nest l = k_interrupt_nest k" "k_pending l = k_pending k"
      "switch_ok l = switch_ok k"
    and sem: "\<And>s. ob = OSem s \<Longrightarrow> flag_ok (o_flag (k_object l ob))" "\<And>s. ob \<noteq> OSem s \<Longrightarrow> k_sem l s = k_sem k s"
    and mb: "\<And>m. ob = OMb m \<Longrightarrow> flag_ok (o_flag (k_object l ob)) \<and> mb_ok (k_mb l m)" "\<And>m. ob \<noteq> OMb m \<Longrightarrow> k_mb l m = k_mb k m"
  shows "sys (with_object i ob ns M) c l"
proof -
  note s = steadyD [OF sys_steady [OF k]]
  let ?M = "with_object i ob ns M"
  have live: "live l x \<longleftrightarrow> x = ob \<or> live k x" for x using lv oo [of x] by (cases "x = ob") (simp_all add: live_def)
  have empty: "queue M n = []" if "n \<in> set ns" for n
    using ns [of n] that d kinvD(8) [OF s(1)] by (auto simp: objs_ok_def)
  have q: "queue ?M h = (if h = ObjList i then ObjNode ob # queue M h else queue M h)" for h
  proof (rule queue_with_object [OF s(1)])
    fix n assume n: "n \<in> set ns"
    then have "wait_head n" using ns by simp
    from wait_head_other [OF this] empty [OF n] show "queue M n = [] \<and> (\<forall>c. n \<noteq> ObjList c)" by blast
  qed
  have view: "ready l = ready k" "suspended l = suspended k"
    using f(1) by (simp_all add: fun_eq_iff ready_def suspended_def thread_stat_def)
  have fl: "timer_flag tm l = timer_flag tm k" for tm using oo [of "OTimer tm"] nt(2) [of tm] by (auto simp: timer_flag_def)
  have "kinv {} 0 ?M l"
  proof (rule kinv_enter [OF s(1,4) i d _ _ l live])
    show "n \<notin> set (queue M h)" if "n \<in> set ns" for n h using head_no_member [OF s(1)] ns that by simp
    show "queue M n = [] \<and> (\<forall>c. n \<noteq> ObjList c) \<and> n \<noteq> ObjNode ob" if n: "n \<in> set ns" for n
      using empty [OF n] wait_head_other [of n] ns n by blast
  qed (use f fl view ns nt in auto)
  then have "steady ?M c l"
    using s f view by (simp add: steady_def running_def thread_timers_def timers_def q)
  moreover have "is_top ?M c" using k by (simp add: sys_def is_top_def q)
  moreover have "ipc_ok ?M l"
  proof -
    have "flag_ok (o_flag (k_object l (OSem s))) \<and> (queue ?M (SemWait s) \<noteq> [] \<longrightarrow> sem_value (k_sem l s) = 0)" if "live l (OSem s)" for s
    proof (cases "ob = OSem s")
      case True
      then have "SemWait s \<in> set ns" using ns by simp
      then have "queue ?M (SemWait s) = []" using empty q by simp
      then show ?thesis using True sem(1) by simp
    next
      case False
      then show ?thesis using that live k oo [of "OSem s"] sem(2) [OF False] by (auto simp: sys_def ipc_ok_def q)
    qed
    moreover have "flag_ok (o_flag (k_object l (OMb m))) \<and> mb_ok (k_mb l m)" if "live l (OMb m)" for m
      using that live k oo [of "OMb m"] mb [of m] by (cases "ob = OMb m") (auto simp: sys_def ipc_ok_def)
    ultimately show ?thesis by (simp add: ipc_ok_def)
  qed
  moreover have "pend_ok l" by (rule pend_ok_frame [of k]) (use k f live in \<open>auto simp: sys_def\<close>)
  ultimately show ?thesis using k f view by (simp add: sys_def)
qed

lemma sem_init_keeps:
  assumes k: "sys M c k" and d: "\<not> live k (OSem s)" and f: "flag_ok flag"
  shows "\<exists>k' M'. rt_sem_init s name v flag k = Some k' \<and> sys M' c k' \<and> live k' (OSem s) \<and> sem_value (k_sem k' s) = ucast v"
proof -
  have e: "rt_object_init (OSem s) RT_Object_Class_Semaphore name k = Some (attached (OSem s) RT_Object_Class_Semaphore name 1 k)"
    by (rule object_init_ok [OF steadyD(1) [OF sys_steady [OF k]] sys_calm [OF k] object_information(2)]) simp
  let ?l = "on_object (OSem s) (\<lambda>x. x\<lparr>o_flag := flag\<rparr>) (on_sem s (\<lambda>_. ucast v) (rt_ipc_object_init (SemWait s)
    (attached (OSem s) RT_Object_Class_Semaphore name 1 k)))"
  have "o_type (k_object ?l (OSem s)) \<noteq> 0"
    using live_static by (simp add: attached_def rt_ipc_object_init_def on_sem_def kernel_defs)
  moreover have "sys (with_object 1 (OSem s) [SemWait s] M) c ?l"
  proof (rule object_enter_keeps [OF k _ d])
    show "n \<in> set [SemWait s] \<longleftrightarrow> wait_head n \<and> owner n = OSem s" for n by (cases n) auto
  qed (use f live_static in \<open>simp_all add: attached_def rt_ipc_object_init_def on_sem_def kernel_defs switch_ok_def\<close>)
  moreover have "sem_value (k_sem ?l s) = ucast v" by (simp add: on_sem_def kernel_defs)
  ultimately show ?thesis using e by (intro exI [of _ ?l]) (auto simp: rt_sem_init_def live_def)
qed

lemma mb_init_keeps:
  assumes k: "sys M c k" and d: "\<not> live k (OMb m)" and f: "flag_ok flag"
    and z: "0 < sz" "sz < 2 ^ 16" "unat sz \<le> length pool"
  shows "\<exists>k' M'. rt_mb_init m name pool sz flag k = Some k' \<and> sys M' c k' \<and> live k' (OMb m) \<and> mails (k_mb k' m) = [] \<and>
    mb_size (k_mb k' m) = ucast sz"
proof -
  have e: "rt_object_init (OMb m) RT_Object_Class_MailBox name k = Some (attached (OMb m) RT_Object_Class_MailBox name 2 k)"
    by (rule object_init_ok [OF steadyD(1) [OF sys_steady [OF k]] sys_calm [OF k] object_information(3)]) simp
  let ?l = "on_links (rt_list_init (MbSenders m)) (on_mb m (\<lambda>mb. mb_empty (mb\<lparr>mb_pool := pool, mb_size := ucast sz\<rparr>))
    (rt_ipc_object_init (MbWait m) (on_object (OMb m) (\<lambda>x. x\<lparr>o_flag := flag\<rparr>) (attached (OMb m) RT_Object_Class_MailBox name 2 k))))"
  have n: "unat (ucast sz :: u16) = unat sz" using z(2) by (simp add: unsigned_ucast_eq take_bit_nat_eq_self word_less_nat_alt)
  then have "(ucast sz :: u16) > 0" using z(1) by (simp add: word_less_nat_alt)
  then have b: "mb_ok (k_mb ?l m)"
    using n z(3) by (simp add: on_mb_def kernel_defs rt_ipc_object_init_def mb_empty_def mb_ok_def)
  have "o_type (k_object ?l (OMb m)) \<noteq> 0"
    using live_static by (simp add: attached_def rt_ipc_object_init_def on_mb_def kernel_defs)
  moreover have "sys (with_object 2 (OMb m) [MbWait m, MbSenders m] M) c ?l"
  proof (rule object_enter_keeps [OF k _ d])
    show "n \<in> set [MbWait m, MbSenders m] \<longleftrightarrow> wait_head n \<and> owner n = OMb m" for n by (cases n) auto
    show "flag_ok (o_flag (k_object ?l (OMb m))) \<and> mb_ok (k_mb ?l x)" if "OMb m = OMb x" for x
      using that b f by (simp add: attached_def rt_ipc_object_init_def on_mb_def kernel_defs)
  qed (use live_static in \<open>simp_all add: attached_def rt_ipc_object_init_def on_mb_def kernel_defs switch_ok_def\<close>)
  moreover have "mb_size (k_mb ?l m) = ucast sz" by (simp add: on_mb_def kernel_defs mb_empty_def)
  moreover have "mails (k_mb ?l m) = []" by (simp add: on_mb_def kernel_defs mb_empty_def mails_def)
  ultimately show ?thesis using e by (intro exI [of _ ?l]) (auto simp: rt_mb_init_def live_def Let_def)
qed

end
