(* ===== verification/Rt_Reset.thy ===== *)
theory Rt_Reset
  imports Rt_Start
begin

text \<open>From reset to the main thread: \<^verbatim>\<open>rtthread_startup\<close> on the memory the loader leaves.\<close>

section \<open>Before the first thread\<close>

definition boot_heads :: "node list" where
  "boot_heads = map ObjList [0..<4] @ [TimerList] @ map Ready [0..<8] @ [Defunct]"

definition boot_map :: "node \<rightharpoonup> node list" where
  "boot_map = (\<lambda>h. if h \<in> set boot_heads then Some [] else None)"

lemma queue_boot [simp]: "queue boot_map h = []"
  by (simp add: boot_map_def queue_def)

lemma fold_links: "fold (\<lambda>x. on_links (f x)) xs k = on_links (fold f xs) k"
  by (induction xs arbitrary: k) (simp_all add: on_links_def)

definition boot_kernel :: "node \<Rightarrow> 'a \<Rightarrow> 'a kernel" where
  "boot_kernel null app = rt_system_scheduler_init (rt_system_timer_init (initial_kernel null app))"

lemma boot_kernel:
  "k_links (boot_kernel null app) = fold rt_list_init boot_heads \<lparr>nxt = \<lambda>_. null, prv = \<lambda>_. null\<rparr>"
  "k_group (boot_kernel null app) = 0" "k_current (boot_kernel null app) = None" "k_lock_nest (boot_kernel null app) = 0"
  "k_interrupt_nest (boot_kernel null app) = 0" "switch_ok (boot_kernel null app)" "k_pending (boot_kernel null app) t = No_pending"
  "k_thread (boot_kernel null app) t = blank_thread" "k_object (boot_kernel null app) ob = blank_object"
  by (simp_all add: boot_kernel_def rt_system_scheduler_init_def rt_system_timer_init_def initial_kernel_def Let_def fold_links
      on_links_def boot_heads_def initial_links_def RT_THREAD_PRIORITY_MAX_def switch_ok_def fold_map comp_def)

lemma boot_kinv: "kinv {} 0 boot_map (boot_kernel null app)"
proof (rule kinvI)
  let ?k = "boot_kernel null app"
  have nr: "\<not> ready ?k t" "\<not> suspended ?k t" for t
    by (simp_all add: ready_def suspended_def thread_stat_def boot_kernel blank_thread_def RT_THREAD_READY_def RT_THREAD_SUSPEND_def)
  have nl: "\<not> live ?k ob" for ob by (simp add: live_def boot_kernel blank_object_def)
  have "rings \<lparr>nxt = \<lambda>_. null, prv = \<lambda>_. null\<rparr> Map.empty" by (simp add: rings_def members_def)
  from rings_fresh_list [OF this, of boot_heads]
  show "rings (k_links ?k) boot_map" by (simp add: boot_kernel boot_map_def queue_def)
  show "boot_map (Ready p) \<noteq> None" if "p < 8" for p using that by (auto simp: boot_map_def boot_heads_def)
  show "thread_ok boot_map ?k t" for t using nr by (simp add: thread_ok_def)
  show "group_ok boot_map ?k" by (simp add: group_ok_def boot_kernel)
  show "timers_ok 0 boot_map ?k" by (simp add: timers_ok_def timers_def) (simp add: boot_map_def boot_heads_def)
  show "objs_ok boot_map ?k" using nr nl by (simp add: objs_ok_def) (simp add: boot_map_def boot_heads_def)
qed auto

section \<open>The first two threads\<close>

text \<open>What is known of the kernel while threads are started and no thread runs yet.\<close>

definition starting :: "(node \<rightharpoonup> node list) \<Rightarrow> tid set \<Rightarrow> 'a kernel \<Rightarrow> bool" where
  "starting M T k = (kinv {} 0 M k \<and> thread_timers M \<and> queue M Expired = [] \<and> (\<forall>h. wait_head h \<longrightarrow> queue M h = []) \<and>
     k_current k = None \<and> k_lock_nest k = 0 \<and> k_interrupt_nest k = 0 \<and> switch_ok k \<and> (\<forall>t. k_pending k t = No_pending) \<and>
     (\<forall>t. ready k t \<longleftrightarrow> t \<in> T) \<and> (\<forall>x. live k x \<longleftrightarrow> (\<exists>t \<in> T. x = OThread t \<or> x = OTimer (ThreadTimer t))))"

lemma starting_boot: "starting boot_map {} (boot_kernel null app)"
  using boot_kinv [of null app]
  by (simp add: starting_def boot_kernel thread_timers_def timers_def ready_def thread_stat_def live_def blank_thread_def
      blank_object_def RT_THREAD_READY_def)

lemma starting_thread:
  assumes s: "starting M T k" and t: "t \<notin> T" and p: "unat pr < 8"
  shows "\<exists>k1 k' M'. rt_thread_init t name e a st sz pr n k = Some k1 \<and> rt_thread_startup t k1 = Some k' \<and>
    starting M' (insert t T) k' \<and> prio k' t = unat pr \<and> (\<forall>u \<in> T. prio k' u = prio k u)"
proof -
  have k: "kinv {} 0 M k" "thread_timers M" "queue M Expired = []" and c: "calm M k"
    using s by (simp_all add: starting_def calm_def)
  have d: "\<not> live k (OThread t)" "\<not> live k (OTimer (ThreadTimer t))" using s t by (simp_all add: starting_def)
  obtain k1 M1 where i: "rt_thread_init t name e a st sz pr n k = Some k1" and k1: "kinv {} 0 M1 k1" and c1: "concerns t k k1"
    and s1: "startable M1 t k1" "thread_timers M1" and p1: "th_init_priority (k_thread k1 t) = pr"
    and q1: "\<forall>h. (\<forall>c. h \<noteq> ObjList c) \<longrightarrow> queue M1 h = queue M h"
    and l1: "\<forall>x. live k1 x \<longleftrightarrow> x = OThread t \<or> x = OTimer (ThreadTimer t) \<or> live k x"
    using thread_init_ok [OF k(1) c k(2) d p, of name e a st sz n] by blast
  have e1: "queue M1 Expired = []" using q1 k(3) by simp
  obtain k2 M2 where st: "rt_thread_startup t k1 = (if k_current k1 \<noteq> None then rt_schedule k2 else Some k2)"
    and k2: "kinv {} 0 M2 k2" "ready k2 t" "prio k2 t = unat pr"
    and m2: "thread_timers M2" "queue M2 Expired = []" and r2: "same_rest k1 k2" "k_current k2 = k_current k1"
    "\<forall>u. u \<noteq> t \<longrightarrow> k_thread k2 u = k_thread k1 u"
    and q2: "\<forall>h. queue M2 h = (if h = Ready (unat pr) then queue M1 h @ [Tlist t] else queue M1 h)"
    using startup_ok [OF k1 s1 e1, unfolded p1] by blast
  have f1: "k_current k1 = k_current k" "k_lock_nest k1 = k_lock_nest k" "k_interrupt_nest k1 = k_interrupt_nest k"
    "switch_ok k \<longrightarrow> switch_ok k1" "k_pending k1 = k_pending k" "\<forall>u. u \<noteq> t \<longrightarrow> k_thread k1 u = k_thread k u"
    using c1 unfolding concerns_def by blast+
  have f2: "k_lock_nest k2 = k_lock_nest k1" "k_interrupt_nest k2 = k_interrupt_nest k1"
    "switch_ok k1 \<longrightarrow> switch_ok k2" "k_pending k2 = k_pending k1" and l2: "live k2 = live k1"
    using r2(1) same_ipc_live [OF same_rest_ipc [OF r2(1)]] unfolding same_rest_def by blast+
  have cur: "k_current k1 = None" using s f1 by (simp add: starting_def)
  have th: "k_thread k2 u = k_thread k u" if "u \<noteq> t" for u using that f1(6) r2(3) by simp
  then have rd: "ready k2 u \<longleftrightarrow> u \<in> insert t T" for u
    using s k2(2) by (cases "u = t") (auto simp: starting_def ready_def thread_stat_def)
  have q: "queue M2 h = []" if w: "wait_head h" for h
  proof -
    have "queue M h = []" using s w by (simp add: starting_def)
    moreover have "queue M1 h = queue M h" using q1 wait_head_other [OF w] by blast
    moreover have "queue M2 h = queue M1 h" using q2 wait_head_other [OF w, of undefined] by simp
    ultimately show ?thesis by simp
  qed
  have "live k x \<longleftrightarrow> (\<exists>u \<in> T. x = OThread u \<or> x = OTimer (ThreadTimer u))" for x using s by (simp add: starting_def)
  then have "live k2 x \<longleftrightarrow> (\<exists>u \<in> insert t T. x = OThread u \<or> x = OTimer (ThreadTimer u))" for x
    using l1 unfolding l2 by (simp add: disj_assoc)
  moreover have "k_lock_nest k2 = 0" "k_interrupt_nest k2 = 0" "switch_ok k2" "\<forall>t. k_pending k2 t = No_pending"
    using s f1 f2 by (simp_all add: starting_def)
  ultimately have "starting M2 (insert t T) k2"
    using k2(1) m2 q rd cur r2(2) by (simp add: starting_def)
  moreover have "prio k2 u = prio k u" if "u \<in> T" for u
  proof -
    have "u \<noteq> t" using that t by blast
    from th [OF this] show ?thesis by (simp add: prio_def)
  qed
  ultimately show ?thesis using i st cur k2(3) by auto
qed

section \<open>The first context switch\<close>

theorem boot_ok:
  "\<exists>k M. rtthread_startup main_stack idle_stack (initial_kernel null app) = Some k \<and> sys M main_tid k \<and>
    (\<forall>x. live k x \<longleftrightarrow> (\<exists>t \<in> {main_tid, idle_tid}. x = OThread t \<or> x = OTimer (ThreadTimer t)))"
proof -
  have p: "unat RT_MAIN_THREAD_PRIORITY < 8" "unat (of_nat (RT_THREAD_PRIORITY_MAX - 1) :: u8) < 8"
    by (simp_all add: RT_MAIN_THREAD_PRIORITY_def RT_THREAD_PRIORITY_MAX_def)
  obtain k1 k2 M2 where a: "rt_thread_init main_tid ''main'' 0 (Arg 0) main_stack 1024 RT_MAIN_THREAD_PRIORITY 20 (boot_kernel null app) = Some k1"
    "rt_thread_startup main_tid k1 = Some k2" "starting M2 {main_tid} k2" "prio k2 main_tid = unat RT_MAIN_THREAD_PRIORITY"
    using starting_thread [OF starting_boot _ p(1), of main_tid] by (metis empty_iff)
  have nt: "idle_tid \<notin> {main_tid}" by (simp add: idle_tid_def main_tid_def)
  obtain k3 k4 M4 where b: "rt_thread_init idle_tid ''tidle'' 1 (Arg 0) idle_stack 256 (of_nat (RT_THREAD_PRIORITY_MAX - 1)) 32 k2 = Some k3"
    "rt_thread_startup idle_tid k3 = Some k4" "starting M4 {idle_tid, main_tid} k4"
    "prio k4 idle_tid = unat (of_nat (RT_THREAD_PRIORITY_MAX - 1) :: u8)" "prio k4 main_tid = prio k2 main_tid"
    using starting_thread [OF a(3) nt p(2), of "''tidle''" 1 "Arg 0" idle_stack 256 32] by blast
  have i: "kinv {} 0 M4 k4" and r: "ready k4 main_tid" and ro: "\<And>t. ready k4 t \<longleftrightarrow> t \<in> {idle_tid, main_tid}"
    using b(3) by (simp_all add: starting_def)
  obtain u where u: "is_top M4 u" "prio k4 u \<le> prio k4 main_tid" using top_exists [OF i _ r] by auto
  have um: "u = main_tid"
  proof -
    have "u \<in> {idle_tid, main_tid}" using top_ready(1) [OF i u(1)] ro by simp
    moreover have "u \<noteq> idle_tid"
      using u(2) a(4) b(4,5) by (auto simp: RT_MAIN_THREAD_PRIORITY_def RT_THREAD_PRIORITY_MAX_def)
    ultimately show ?thesis by blast
  qed
  let ?k = "rt_hw_context_switch_to main_tid (k4\<lparr>k_current := Some main_tid\<rparr>)"
  have v: "same_view ?k k4" "k_links ?k = k_links k4" "k_group ?k = k_group k4"
    by (simp_all add: same_view_def rt_hw_context_switch_to_def)
  have "rtthread_startup main_stack idle_stack (initial_kernel null app) = Some ?k"
    using a(1,2) b(1,2) highest_ready_top [OF i u(1)] um
    by (simp add: rtthread_startup_def rt_application_init_def rt_thread_idle_init_def rt_system_scheduler_start_def
        boot_kernel_def [symmetric] Let_def)
  moreover have "live ?k = live k4" using same_view_facts(9) [OF v(1)] .
  moreover have "sys M4 main_tid ?k"
  proof -
    have "kinv {} 0 M4 ?k" using i kinv_view [OF v] by simp
    then have "steady M4 main_tid ?k"
      using b(3) r same_view_facts(1) [OF v(1)]
      by (simp add: steady_def starting_def running_def) (simp add: rt_hw_context_switch_to_def)
    moreover have "ipc_ok M4 ?k" "pend_ok ?k"
    proof -
      have "\<not> live ?k (OSem s)" "\<not> live ?k (OMb s)" for s
        using b(3) same_view_facts(9) [OF v(1)] by (simp_all add: starting_def)
      then show "ipc_ok M4 ?k" by (simp add: ipc_ok_def)
      have "k_pending ?k t = No_pending" for t using b(3) by (simp add: starting_def rt_hw_context_switch_to_def)
      then show "pend_ok ?k" by (simp add: pend_ok_def)
    qed
    moreover have "ready ?k idle_tid" using ro same_view_facts(1) [OF v(1)] by simp
    moreover have "k_interrupt_nest ?k = 0" "switch_ok ?k"
      using b(3) by (simp_all add: starting_def rt_hw_context_switch_to_def switch_ok_def)
    ultimately show ?thesis using u(1) um by (simp add: sys_def)
  qed
  ultimately show ?thesis using b(3) by (auto simp: starting_def)
qed

end
