(* ===== verification/Rt_Props.thy ===== *)
theory Rt_Props
  imports Rt_Reset
begin

text \<open>
  The running system from reset on: every state that calls of the threads and clock interrupts can
  reach, what holds in all of them, and what the calls do there.
\<close>

section \<open>The steps of the system\<close>

datatype call =
    Tick
  | Yield
  | Sleep u32
  | Take nat u32
  | Release nat
  | Send nat u32 u32
  | Receive nat u32
  | Continue
  | Create tid "char list" nat arg u32 u32 u8 u32
  | New_sem nat "char list" u32 u8
  | New_mb nat "char list" "u32 list" u32 u8

fun perform :: "'a callbacks \<Rightarrow> call \<Rightarrow> 'a kernel \<Rightarrow> 'a kernel option" where
  "perform cb Tick k = clock_interrupt cb k"
| "perform cb Yield k = rt_thread_yield k"
| "perform cb (Sleep n) k = rt_thread_sleep n k"
| "perform cb (Take s time) k = map_option snd (rt_sem_take s time k)"
| "perform cb (Release s) k = map_option snd (rt_sem_release s k)"
| "perform cb (Send m value time) k = map_option snd (rt_mb_send_wait m value time k)"
| "perform cb (Receive m time) k = map_option snd (rt_mb_recv m time k)"
| "perform cb Continue k = map_option snd (run_pending k)"
| "perform cb (Create t name e a st sz pr n) k =
     Option.bind (rt_thread_init t name e a st sz pr n k) (rt_thread_startup t)"
| "perform cb (New_sem s name v flag) k = rt_sem_init s name v flag k"
| "perform cb (New_mb m name pool sz flag) k = rt_mb_init m name pool sz flag k"

text \<open>
  What a caller has to respect: the idle thread does not block, objects are initialised once and
  before they are used, priorities are below the number of lists, queueing is by arrival or by
  priority, waiting times are negative or below half the range of the tick, and a mailbox has at
  least one slot and the memory it claims.
\<close>

definition may_block :: "'a kernel \<Rightarrow> bool" where
  "may_block k = (k_current k \<noteq> Some idle_tid)"

fun allowed :: "call \<Rightarrow> 'a kernel \<Rightarrow> bool" where
  "allowed (Sleep n) k = (may_block k \<and> n < 2 ^ 31 - 1)"
| "allowed (Take s time) k = (may_block k \<and> live k (OSem s) \<and> time_ok time)"
| "allowed (Release s) k = live k (OSem s)"
| "allowed (Send m value time) k = (may_block k \<and> live k (OMb m) \<and> time_ok time)"
| "allowed (Receive m time) k = (may_block k \<and> live k (OMb m) \<and> time_ok time)"
| "allowed Continue k = (case k_current k of None \<Rightarrow> False | Some c \<Rightarrow> left_ok k (k_pending k c))"
| "allowed (Create t name e a st sz pr n) k =
     (\<not> live k (OThread t) \<and> \<not> live k (OTimer (ThreadTimer t)) \<and> unat pr < RT_THREAD_PRIORITY_MAX)"
| "allowed (New_sem s name v flag) k = (\<not> live k (OSem s) \<and> flag_ok flag)"
| "allowed (New_mb m name pool sz flag) k =
     (\<not> live k (OMb m) \<and> flag_ok flag \<and> 0 < sz \<and> sz < 2 ^ 16 \<and> unat sz \<le> length pool)"
| "allowed _ k = True"

inductive reach :: "'a callbacks \<Rightarrow> 'a kernel \<Rightarrow> bool" for cb where
  boot: "rtthread_startup main_stack idle_stack (initial_kernel null app) = Some k \<Longrightarrow> reach cb k"
| step: "reach cb k \<Longrightarrow> allowed c k \<Longrightarrow> perform cb c k = Some k' \<Longrightarrow> reach cb k'"

inductive_cases reachE: "reach cb k"

section \<open>The invariant holds in every reachable state\<close>

lemma perform_keeps:
  assumes k: "sys M c k" and a: "allowed call k"
  shows "\<exists>k' M' u. perform cb call k = Some k' \<and> sys M' u k'"
proof -
  have cur: "k_current k = Some c" by (rule steadyD(6) [OF sys_steady [OF k]])
  then have ni: "may_block k \<Longrightarrow> c \<noteq> idle_tid" by (simp add: may_block_def)
  show ?thesis
  proof (cases call)
    case Tick then show ?thesis using tick_keeps [OF k, of cb] by auto
  next
    case Yield then show ?thesis using yield_keeps [OF k] by auto
  next
    case (Sleep n)
    then have "uint n < 2 ^ 31 - 1" using a by (simp add: word_less_def)
    then show ?thesis using sleep_keeps [OF k ni] a Sleep by auto
  next
    case (Take s time) then show ?thesis using take_keeps [OF k _ ni, of s time] a by fastforce
  next
    case (Release s) then show ?thesis using release_keeps [OF k, of s] a by fastforce
  next
    case (Send m v time) then show ?thesis using send_keeps [OF k _ ni, of m time v] a by fastforce
  next
    case (Receive m time) then show ?thesis using recv_keeps [OF k _ ni, of m time] a by fastforce
  next
    case Continue then show ?thesis using continue_keeps [OF k] a cur by fastforce
  next
    case (Create t name e p st sz pr n)
    then have d: "\<not> live k (OThread t)" "\<not> live k (OTimer (ThreadTimer t))" "unat pr < 8"
      using a by (simp_all add: RT_THREAD_PRIORITY_MAX_def)
    from create_keeps [OF k this, of name e p st sz n] show ?thesis using Create by fastforce
  next
    case (New_sem s name v flag) then show ?thesis using sem_init_keeps [OF k, of s flag name v] a by fastforce
  next
    case (New_mb m name pool sz flag)
    then show ?thesis using mb_init_keeps [OF k, of m flag sz pool name] a by fastforce
  qed
qed

lemma reach_sys:
  assumes "reach cb k"
  shows "\<exists>M c. sys M c k"
  using assms
proof (induction rule: reach.induct)
  case (boot ms st null app k)
  then show ?case using boot_ok [of ms st null app] by auto
next
  case (step k call k')
  then obtain M c where "sys M c k" by blast
  from perform_keeps [OF this step.hyps(2), of cb] step.hyps(3) show ?case by auto
qed

end
