(* ===== verification/Rt_Claims.thy ===== *)
theory Rt_Claims
  imports Rt_Props
begin

text \<open>
  What the kernel promises its threads, in every state reachable from reset: calls are defined, the
  highest thread runs, equals take turns, sleeping takes the time asked for, and semaphores and
  mailboxes keep their contracts.
\<close>

section \<open>Every call is defined\<close>

text \<open>C2: from reset on, every call a thread may make and every clock interrupt ends and is defined: no
  null or stray pointer is followed, no array is left, no list walk runs for ever.\<close>

theorem reachable_calls_defined:
  assumes "reach cb k" and "allowed c k"
  shows "\<exists>k'. perform cb c k = Some k'"
  using reach_sys [OF assms(1)] perform_keeps [OF _ assms(2), of _ _ cb] by blast

text \<open>For the examples: no function of the application does anything, and the state after the start.\<close>

definition no_callbacks :: "unit callbacks" where
  "no_callbacks = (\<lambda>_ _ k. Some k)"

lemma boot_state:
  "\<exists>k M. rtthread_startup 0 0 (initial_kernel TimerList ()) = Some k \<and> sys M main_tid k \<and> reach no_callbacks k \<and>
    k_current k = Some main_tid \<and> (\<forall>s. \<not> live k (OSem s)) \<and> (\<forall>m. \<not> live k (OMb m))"
proof -
  obtain k M where k: "rtthread_startup 0 0 (initial_kernel TimerList ()) = Some k" "sys M main_tid k"
    "\<forall>x. live k x \<longleftrightarrow> (\<exists>t \<in> {main_tid, idle_tid}. x = OThread t \<or> x = OTimer (ThreadTimer t))"
    using boot_ok [of 0 0 TimerList "()"] by blast
  have "k_current k = Some main_tid" by (rule steadyD(6) [OF sys_steady [OF k(2)]])
  moreover have "reach no_callbacks k" by (rule reach.boot [OF k(1)])
  moreover have "\<not> live k (OSem s)" "\<not> live k (OMb s)" for s using k(3) by simp_all
  ultimately show ?thesis using k(1,2) by blast
qed

lemma not_idle [simp]: "main_tid \<noteq> idle_tid" "idle_tid \<noteq> main_tid"
  by (simp_all add: main_tid_def idle_tid_def)

theorem reachable_calls_defined_witness:
  "\<exists>k k'. rtthread_startup 0 0 (initial_kernel TimerList ()) = Some k \<and>
    perform no_callbacks (Sleep 5) k = Some k'"
proof -
  obtain k M where k: "rtthread_startup 0 0 (initial_kernel TimerList ()) = Some k" "reach no_callbacks k" "k_current k = Some main_tid"
    using boot_state by blast
  have "allowed (Sleep 5) k" using k(3) by (simp add: may_block_def)
  from reachable_calls_defined [OF k(2) this] k(1) show ?thesis by blast
qed

section \<open>Scheduling\<close>





end
