(* ===== verification/Rt_Wait_Claims.thy ===== *)
theory Rt_Wait_Claims
  imports Rt_Claims
begin

text \<open>Sleeping takes the time asked for; semaphores and mailboxes keep their contracts.\<close>

section \<open>Sleeping\<close>

primrec ticks :: "'a callbacks \<Rightarrow> nat \<Rightarrow> 'a kernel \<Rightarrow> 'a kernel option" where
  "ticks cb 0 k = Some k"
| "ticks cb (Suc j) k = Option.bind (ticks cb j k) (clock_interrupt cb)"

text \<open>One tick for a thread whose timer has \<open>d\<close> ticks to go, and for one that is ready.\<close>

lemma tick_waiting:
  assumes k: "sys M c k" and w: "suspended k t" "active k (ThreadTimer t)" "due k (ThreadTimer t) = d" "0 \<le> d"
  shows "\<exists>k' M' u. clock_interrupt cb k = Some k' \<and> sys M' u k' \<and>
    (if d \<le> 1 then ready k' t else suspended k' t \<and> active k' (ThreadTimer t) \<and> due k' (ThreadTimer t) = d - 1)"
proof -
  obtain k' M' u where e: "clock_interrupt cb k = Some k'" "sys M' u k'" "ticked k k'" using tick_keeps [OF k] by blast
  have wake: "t \<in> to_wake k \<longleftrightarrow> d \<le> 1" using w by (simp add: to_wake_def)
  show ?thesis
  proof (cases "d \<le> 1")
    case True
    then show ?thesis using e wake by (auto simp: ticked_def)
  next
    case False
    then have f: "th_stat (k_thread k' t) = th_stat (k_thread k t)" "k_timer k' (ThreadTimer t) = k_timer k (ThreadTimer t)"
      "timer_flag (ThreadTimer t) k' = timer_flag (ThreadTimer t) k" "k_tick k' = k_tick k + 1"
      using e(3) wake by (simp_all add: ticked_def)
    have "due k' (ThreadTimer t) = due (k\<lparr>k_tick := k_tick k + 1\<rparr>) (ThreadTimer t)" using f by (simp add: due_def)
    also have "\<dots> = d - 1" using due_tick [of k "ThreadTimer t"] w by simp
    finally show ?thesis using e f w False by (auto simp: suspended_def thread_stat_def active_def)
  qed
qed

lemma tick_ready:
  assumes k: "sys M c k" and r: "ready k t"
  shows "\<exists>k' M' u. clock_interrupt cb k = Some k' \<and> sys M' u k' \<and> ready k' t"
proof -
  obtain k' M' u where e: "clock_interrupt cb k = Some k'" "sys M' u k'" "ticked k k'" using tick_keeps [OF k] by blast
  have "t \<notin> to_wake k" using ready_not_suspended [OF r] by (simp add: to_wake_def)
  then have "ready k' t" using e(3) r by (simp add: ticked_def ready_def thread_stat_def)
  then show ?thesis using e by blast
qed

lemma ticks_waiting:
  assumes k: "sys M c k" and w: "suspended k t" "active k (ThreadTimer t)" "due k (ThreadTimer t) = int n"
  shows "\<exists>k' M' u. ticks cb j k = Some k' \<and> sys M' u k' \<and>
    (if j < max 1 n then suspended k' t \<and> active k' (ThreadTimer t) \<and> due k' (ThreadTimer t) = int n - int j else ready k' t)"
proof (induction j)
  case 0
  show ?case using k w by auto
next
  case (Suc j)
  then obtain k1 M1 u1 where s: "ticks cb j k = Some k1" "sys M1 u1 k1"
    and c: "if j < max 1 n then suspended k1 t \<and> active k1 (ThreadTimer t) \<and> due k1 (ThreadTimer t) = int n - int j else ready k1 t"
    by blast
  show ?case
  proof (cases "j < max 1 n")
    case True
    then have w1: "suspended k1 t" "active k1 (ThreadTimer t)" "due k1 (ThreadTimer t) = int n - int j" "0 \<le> int n - int j"
      using c by auto
    obtain k2 M2 u2 where t: "clock_interrupt cb k1 = Some k2" "sys M2 u2 k2"
      "if int n - int j \<le> 1 then ready k2 t else suspended k2 t \<and> active k2 (ThreadTimer t) \<and> due k2 (ThreadTimer t) = int n - int j - 1"
      using tick_waiting [OF s(2) w1] by blast
    moreover have "int n - int j \<le> 1 \<longleftrightarrow> \<not> Suc j < max 1 n" using True by auto
    ultimately show ?thesis using s(1) by auto
  next
    case False
    then obtain k2 M2 u2 where "clock_interrupt cb k1 = Some k2" "sys M2 u2 k2" "ready k2 t"
      using tick_ready [OF s(2), of t cb] c by auto
    then show ?thesis using s(1) False by auto
  qed
qed

text \<open>C4: a thread that sleeps for \<open>n\<close> ticks stays suspended for exactly \<open>n\<close> clock interrupts (one if \<open>n\<close> is
  zero) and is ready after them.\<close>

theorem sleep_takes_its_time:
  assumes "reach cb k" and "k_current k = Some t" and "t \<noteq> idle_tid" and "n < 2 ^ 31 - 1"
  shows "\<exists>k0. rt_thread_sleep n k = Some k0 \<and>
    (\<exists>k'. ticks cb' j k0 = Some k' \<and> (if j < max 1 (unat n) then suspended k' t else ready k' t))"
proof -
  obtain M c where s: "sys M c k" using reach_sys [OF assms(1)] by blast
  have c: "c = t" using steadyD(6) [OF sys_steady [OF s]] assms(2) by simp
  have n: "uint n < 2 ^ 31 - 1" using assms(4) by (simp add: word_less_def)
  have ct: "c \<noteq> idle_tid" using c assms(3) by simp
  obtain u k0 M0 where z: "rt_thread_sleep n k = Some k0" "suspended k0 t" "active k0 (ThreadTimer t)" "due k0 (ThreadTimer t) = uint n"
    using sleep_ok [OF sys_steady [OF s] sys_idle [OF s] ct [symmetric] n] c by (auto simp: waits_def)
  obtain k1 M1 u1 where "rt_thread_sleep n k = Some k1" "sys M1 u1 k1" using sleep_keeps [OF s ct n] by blast
  then have "sys M1 u1 k0" using z(1) by simp
  from ticks_waiting [OF this z(2,3), of "unat n" cb' j] z show ?thesis by (auto split: if_splits)
qed

theorem sleep_takes_its_time_witness:
  "\<exists>k k0 k'. rtthread_startup 0 0 (initial_kernel TimerList ()) = Some k \<and> rt_thread_sleep 2 k = Some k0 \<and>
    ticks no_callbacks 2 k0 = Some k' \<and> ready k' main_tid"
proof -
  obtain k M where k: "rtthread_startup 0 0 (initial_kernel TimerList ()) = Some k" "reach no_callbacks k" "k_current k = Some main_tid"
    using boot_state by blast
  have "(2 :: u32) < 2 ^ 31 - 1" by simp
  from sleep_takes_its_time [OF k(2,3) not_idle(1) this, of no_callbacks 2] k(1) show ?thesis by auto
qed

section \<open>Semaphores\<close>

lemma reach_sem_queue:
  assumes "sys M c k" "live k (OSem s)" "\<not> rt_list_isempty (SemWait s) (k_links k)"
  shows "\<exists>t ns. queue M (SemWait s) = Tlist t # ns"
proof -
  have h: "wait_head (SemWait s)" "live k (owner (SemWait s))" using assms(2) by simp_all
  from wait_queue_cases [OF assms(1) h] assms(3) show ?thesis by blast
qed

text \<open>C6: threads wait only for a semaphore of value zero. A release hands the semaphore to the first waiting
  thread, which becomes ready, and leaves the value alone; with no thread waiting it counts up, up to
  the largest value, and fails beyond.\<close>

theorem semaphore_release:
  assumes "reach cb k" and "live k (OSem s)"
  shows "\<exists>r k'. rt_sem_release s k = Some (r, k') \<and>
    (if rt_list_isempty (SemWait s) (k_links k)
     then (if sem_value (k_sem k s) = RT_SEM_VALUE_MAX then r = - RT_EFULL \<and> k' = k
           else r = RT_EOK \<and> k' = on_sem s (\<lambda>v. v + 1) k)
     else r = RT_EOK \<and> sem_value (k_sem k s) = 0 \<and> k_sem k' = k_sem k \<and>
       (\<exists>t. nxt (k_links k) (SemWait s) = Tlist t \<and> suspended k t \<and> ready k' t \<and>
         (\<forall>v. v \<noteq> t \<longrightarrow> k_thread k' v = k_thread k v)))"
proof -
  obtain M c where y: "sys M c k" using reach_sys [OF assms(1)] by blast
  note i = steadyD(1) [OF sys_steady [OF y]]
  have h: "wait_head (SemWait s)" "live k (owner (SemWait s))" using assms(2) by simp_all
  obtain r k' M' u where e: "rt_sem_release s k = Some (r, k')"
    and c: "case queue M (SemWait s) of
       n # ns \<Rightarrow> r = RT_EOK \<and> k_sem k' = k_sem k \<and> (\<forall>t. n = Tlist t \<longrightarrow> woke t k k') \<and>
         (\<forall>g. wait_head g \<longrightarrow> queue M' g = (if g = SemWait s then ns else queue M g))
     | [] \<Rightarrow> M' = M \<and> (if sem_value (k_sem k s) = RT_SEM_VALUE_MAX then r = - RT_EFULL \<and> k' = k
              else r = RT_EOK \<and> k' = on_sem s (\<lambda>v. v + 1) k)"
    using release_keeps [OF y assms(2)] by blast
  show ?thesis
  proof (cases "rt_list_isempty (SemWait s) (k_links k)")
    case True
    then have "queue M (SemWait s) = []" using isempty_queue [OF i h] by simp
    then show ?thesis using True e c by auto
  next
    case False
    then obtain t ns where q: "queue M (SemWait s) = Tlist t # ns" using reach_sem_queue [OF y assms(2)] by blast
    then obtain xs where "M (SemWait s) = Some xs" by (cases "M (SemWait s)") (auto simp: queue_def)
    then have "ring (k_links k) (SemWait s) (Tlist t # ns)" using ringsD [OF kinvD(1) [OF i]] q by simp
    then have "nxt (k_links k) (SemWait s) = Tlist t" using ring_first by fastforce
    moreover have "suspended k t" using wait_queue_threads [OF i h(1), of "Tlist t"] q by auto
    moreover have "sem_value (k_sem k s) = 0" using sys_sem_queue [OF y assms(2)] q by simp
    ultimately show ?thesis using False e c q by (auto simp: woke_def)
  qed
qed

theorem semaphore_release_witness:
  "\<exists>k k1 k'. rtthread_startup 0 0 (initial_kernel TimerList ()) = Some k \<and> rt_sem_init 3 ''s'' 0 RT_IPC_FLAG_FIFO k = Some k1 \<and>
    rt_sem_release 3 k1 = Some (RT_EOK, k') "
proof -
  obtain k M where k: "rtthread_startup 0 0 (initial_kernel TimerList ()) = Some k" "sys M main_tid k" "reach no_callbacks k"
    "\<not> live k (OSem 3)"
    using boot_state by blast
  obtain k1 M1 where k1: "rt_sem_init 3 ''s'' 0 RT_IPC_FLAG_FIFO k = Some k1" "live k1 (OSem 3)" "sem_value (k_sem k1 3) = 0"
    using sem_init_keeps [OF k(2,4), of RT_IPC_FLAG_FIFO "''s''" 0] by (auto simp: flag_ok_def)
  have "allowed (New_sem 3 ''s'' 0 RT_IPC_FLAG_FIFO) k" using k(4) by (simp add: flag_ok_def)
  then have "reach no_callbacks k1" by (rule reach.step [OF k(3)]) (simp add: k1)
  from semaphore_release [OF this k1(2)] k1(1,3) k(1) show ?thesis
    by (auto simp: RT_SEM_VALUE_MAX_def split: if_splits)
qed

section \<open>Mailboxes\<close>

definition mb_put :: "nat \<Rightarrow> u32 \<Rightarrow> 'a kernel \<Rightarrow> 'a kernel option" where
  "mb_put m value k = (case rt_mb_send m value k of
     Some (Some (Err r), k') \<Rightarrow> if r = RT_EOK then Some k' else None | _ \<Rightarrow> None)"

definition mb_get :: "nat \<Rightarrow> 'a kernel \<Rightarrow> (u32 \<times> 'a kernel) option" where
  "mb_get m k = (case rt_mb_recv m 0 k of Some (Some (Mail value), k') \<Rightarrow> Some (value, k') | _ \<Rightarrow> None)"

definition mb_running :: "nat \<Rightarrow> 'a kernel \<Rightarrow> bool" where
  "mb_running m k = (live k (OMb m) \<and> (\<exists>M c. sys M c k))"

lemma mb_full_iff: "length (mails mb) = unat (mb_size mb) \<longleftrightarrow> mb_entry mb = mb_size mb"
  by (simp add: word_unat_eq_iff)

lemma mb_put_room:
  assumes k: "mb_running m k" and r: "mb_entry (k_mb k m) \<noteq> mb_size (k_mb k m)"
  shows "\<exists>k'. mb_put m x k = Some k' \<and> mb_running m k' \<and> mails (k_mb k' m) = mails (k_mb k m) @ [x] \<and>
    mb_size (k_mb k' m) = mb_size (k_mb k m)"
proof -
  obtain M c where s: "sys M c k" "live k (OMb m)" using k by (auto simp: mb_running_def)
  obtain k' M' u mb where t: "mb_send_tail m x k = Some (Some (Err RT_EOK), k')" "sys M' u k'"
    "mails mb = mails (k_mb k m) @ [x]" "mb_size mb = mb_size (k_mb k m)" "mb_turn m mb (queue M (MbWait m)) k k'"
    using send_tail_ok [OF s r] by blast
  then show ?thesis
    using r s(2) by (auto simp: mb_put_def rt_mb_send_def rt_mb_send_wait_def mb_send_loop_def mb_running_def mb_turn_def)
qed

lemma mb_put_full:
  "mb_entry (k_mb k m) = mb_size (k_mb k m) \<Longrightarrow> mb_put m x k = None"
  by (simp add: mb_put_def rt_mb_send_def rt_mb_send_wait_def RT_EFULL_def RT_EOK_def)

lemma mb_get_some:
  assumes k: "mb_running m k" and e: "mb_entry (k_mb k m) \<noteq> 0"
  shows "\<exists>x k'. mb_get m k = Some (x, k') \<and> mb_running m k' \<and> mails (k_mb k m) = x # mails (k_mb k' m) \<and>
    mb_size (k_mb k' m) = mb_size (k_mb k m)"
proof -
  obtain M c where s: "sys M c k" "live k (OMb m)" using k by (auto simp: mb_running_def)
  obtain x k' M' u mb where t: "mb_recv_tail m k = Some (Some (Mail x), k')" "sys M' u k'"
    "mails (k_mb k m) = x # mails mb" "mb_size mb = mb_size (k_mb k m)" "mb_turn m mb (queue M (MbSenders m)) k k'"
    using recv_tail_ok [OF s e] by blast
  then show ?thesis
    using e s(2) by (auto simp: mb_get_def rt_mb_recv_def mb_recv_loop_def mb_running_def mb_turn_def)
qed

lemma mb_get_empty: "mb_entry (k_mb k m) = 0 \<Longrightarrow> mb_get m k = None"
  by (simp add: mb_get_def rt_mb_recv_def)

interpretation mailbox: fifo "mb_running m" "\<lambda>k. mails (k_mb k m)" "\<lambda>k. unat (mb_size (k_mb k m))" "mb_put m" "mb_get m" for m
proof
  fix k :: "'a kernel" and x
  assume inv: "mb_running m k"
  then have le: "unat (mb_entry (k_mb k m)) \<le> unat (mb_size (k_mb k m))"
    using mb_offsets(3) [OF sys_mb_ok] by (auto simp: mb_running_def)
  show "length (mails (k_mb k m)) \<le> unat (mb_size (k_mb k m))" using le by simp
  show "\<exists>k'. mb_put m x k = Some k' \<and> mb_running m k' \<and> mails (k_mb k' m) = mails (k_mb k m) @ [x] \<and>
      unat (mb_size (k_mb k' m)) = unat (mb_size (k_mb k m))" if "length (mails (k_mb k m)) < unat (mb_size (k_mb k m))"
    using mb_put_room [OF inv, of x] that by fastforce
  show "mb_put m x k = None" if "length (mails (k_mb k m)) = unat (mb_size (k_mb k m))"
    using that mb_put_full mb_full_iff by blast
next
  fix k :: "'a kernel" and x xs
  assume inv: "mb_running m k" and v: "mails (k_mb k m) = x # xs"
  then have "mb_entry (k_mb k m) \<noteq> 0" using length_mails [of "k_mb k m"] by auto
  from mb_get_some [OF inv this] v
  show "\<exists>k'. mb_get m k = Some (x, k') \<and> mb_running m k' \<and> mails (k_mb k' m) = xs \<and>
      unat (mb_size (k_mb k' m)) = unat (mb_size (k_mb k m))" by auto
next
  fix k :: "'a kernel"
  assume "mb_running m k" and "mails (k_mb k m) = []"
  then have "unat (mb_entry (k_mb k m)) = 0" using length_mails [of "k_mb k m"] by simp
  then show "mb_get m k = None" by (simp add: mb_get_empty unat_eq_0)
qed

text \<open>C5: a mailbox is a bounded first-in first-out buffer: whatever successful sends and receives do to the
  threads waiting for it, the mails come out in the order in which they went in, none lost and none made up.\<close>

theorem mailbox_in_order:
  assumes "reach cb k" and "live k (OMb m)" and "mails (k_mb k m) = []"
    and "fifo.run (mb_put m) (mb_get m) ops k = Some (outs, k')"
  shows "puts ops = outs @ mails (k_mb k' m) \<and> mb_running m k'"
proof -
  have "mb_running m k" using reach_sys [OF assms(1)] assms(2) by (auto simp: mb_running_def)
  from mailbox.run_conserves [OF this assms(4)] assms(3) show ?thesis by simp
qed

theorem mailbox_in_order_witness:
  "\<exists>k k1 k'. rtthread_startup 0 0 (initial_kernel TimerList ()) = Some k \<and>
    rt_mb_init 2 ''m'' [0, 0] 2 RT_IPC_FLAG_PRIO k = Some k1 \<and>
    fifo.run (mb_put 2) (mb_get 2) [Put 7, Put 9, Get] k1 = Some ([7], k') \<and> mails (k_mb k' 2) = [9]"
proof -
  obtain k M where k: "rtthread_startup 0 0 (initial_kernel TimerList ()) = Some k" "sys M main_tid k" "reach no_callbacks k"
    "\<not> live k (OMb 2)"
    using boot_state by blast
  have fl: "flag_ok RT_IPC_FLAG_PRIO" by (simp add: flag_ok_def)
  obtain k1 M1 where k1: "rt_mb_init 2 ''m'' [0, 0] 2 RT_IPC_FLAG_PRIO k = Some k1" "sys M1 main_tid k1" "live k1 (OMb 2)"
    "mails (k_mb k1 2) = []" "mb_size (k_mb k1 2) = 2"
    using mb_init_keeps [OF k(2,4) fl, of 2 "[0, 0]" "''m''"] by auto
  have "allowed (New_mb 2 ''m'' [0, 0] 2 RT_IPC_FLAG_PRIO) k" using k(4) fl by simp
  then have r: "reach no_callbacks k1" by (rule reach.step [OF k(3)]) (simp add: k1)
  have run: "mb_running 2 k1" using k1 by (auto simp: mb_running_def)
  obtain k2 where k2: "mb_put 2 7 k1 = Some k2" "mb_running 2 k2" "mails (k_mb k2 2) = [7]" "mb_size (k_mb k2 2) = 2"
    using mb_put_room [OF run, of 7] k1(4,5) mb_full_iff [of "k_mb k1 2"] by auto
  obtain k3 where k3: "mb_put 2 9 k2 = Some k3" "mb_running 2 k3" "mails (k_mb k3 2) = [7, 9]"
    using mb_put_room [OF k2(2), of 9] k2(3,4) mb_full_iff [of "k_mb k2 2"] by auto
  have "mb_entry (k_mb k3 2) \<noteq> 0" using k3(3) length_mails [of "k_mb k3 2"] by auto
  then obtain k4 where k4: "mb_get 2 k3 = Some (7, k4)" using mb_get_some [OF k3(2)] k3(3) by auto
  have f: "fifo.run (mb_put 2) (mb_get 2) [Put 7, Put 9, Get] k1 = Some ([7], k4)"
    using k2(1) k3(1) k4 by (simp add: mailbox.run.simps)
  from mailbox_in_order [OF r k1(3,4) f] k(1) k1(1) f show ?thesis by auto
qed

end
