(* ===== verification/Rt_Bytes.thy ===== *)
theory Rt_Bytes
  imports Rt_Kernel
begin

text \<open>
  The memory and string functions of \<^verbatim>\<open>src/kservice.c\<close>, as the configuration compiles them (without
  \<^verbatim>\<open>RT_USING_TINY_SIZE\<close>). Memory is a map from 32-bit addresses to bytes; addresses wrap around as
  pointers of the machine do. A string that is only read is the list of its characters before the
  terminator, and a pointer into it is what is left of it from there.
\<close>

type_synonym memory = "u32 \<Rightarrow> u8"

section \<open>Words in memory\<close>

text \<open>A \<^verbatim>\<open>long\<close> has four bytes, the lowest first.\<close>

definition put_word :: "u32 \<Rightarrow> u32 \<Rightarrow> memory \<Rightarrow> memory" where
  "put_word p x m =
    m(p := ucast x, p + 1 := ucast (drop_bit 8 x), p + 2 := ucast (drop_bit 16 x), p + 3 := ucast (drop_bit 24 x))"

definition get_word :: "u32 \<Rightarrow> memory \<Rightarrow> u32" where
  "get_word p m =
    ucast (m p) OR push_bit 8 (ucast (m (p + 1))) OR push_bit 16 (ucast (m (p + 2))) OR push_bit 24 (ucast (m (p + 3)))"

section \<open>Filling\<close>

text \<open>The loops return where they stopped: the pointer and the bytes that are left.\<close>

function set_blocks :: "u32 \<Rightarrow> u32 \<Rightarrow> u32 \<Rightarrow> memory \<Rightarrow> u32 \<times> u32 \<times> memory" where
  "set_blocks buffer p count m =
    (if count \<ge> 16
     then set_blocks buffer (p + 16) (count - 16)
            (put_word (p + 12) buffer (put_word (p + 8) buffer (put_word (p + 4) buffer (put_word p buffer m))))
     else (p, count, m))"
  by pat_completeness auto
termination by (relation "measure (\<lambda>(buffer, p, count, m). unat count)") (auto simp: unat_sub word_le_nat_alt)

function set_words :: "u32 \<Rightarrow> u32 \<Rightarrow> u32 \<Rightarrow> memory \<Rightarrow> u32 \<times> u32 \<times> memory" where
  "set_words buffer p count m =
    (if count \<ge> 4 then set_words buffer (p + 4) (count - 4) (put_word p buffer m) else (p, count, m))"
  by pat_completeness auto
termination by (relation "measure (\<lambda>(buffer, p, count, m). unat count)") (auto simp: unat_sub word_le_nat_alt)

function set_bytes :: "u8 \<Rightarrow> u32 \<Rightarrow> u32 \<Rightarrow> memory \<Rightarrow> memory" where
  "set_bytes d p count m = (if count \<noteq> 0 then set_bytes d (p + 1) (count - 1) (m(p := d)) else m)"
  by pat_completeness auto
termination by (relation "measure (\<lambda>(d, p, count, m). unat count)") (auto simp: unat_gt_0 unat_minus_one)

declare set_blocks.simps [simp del] set_words.simps [simp del] set_bytes.simps [simp del]

definition rt_memset :: "u32 \<Rightarrow> u32 \<Rightarrow> u32 \<Rightarrow> memory \<Rightarrow> memory" where
  "rt_memset s c count m =
    (let d = c AND 0xff
     in if \<not> count < 4 \<and> s AND 3 = 0
        then (let half = push_bit 8 d OR d; buffer = half OR push_bit 16 half;
                  (p1, n1, m1) = set_blocks buffer s count m;
                  (p2, n2, m2) = set_words buffer p1 n1 m1
              in set_bytes (ucast d) p2 n2 m2)
        else set_bytes (ucast d) s count m)"

section \<open>Copying\<close>

definition copy_word :: "u32 \<Rightarrow> u32 \<Rightarrow> memory \<Rightarrow> memory" where
  "copy_word d s m = put_word d (get_word s m) m"

function copy_blocks :: "u32 \<Rightarrow> u32 \<Rightarrow> u32 \<Rightarrow> memory \<Rightarrow> u32 \<times> u32 \<times> u32 \<times> memory" where
  "copy_blocks d s len m =
    (if len \<ge> 16
     then copy_blocks (d + 16) (s + 16) (len - 16)
            (copy_word (d + 12) (s + 12) (copy_word (d + 8) (s + 8) (copy_word (d + 4) (s + 4) (copy_word d s m))))
     else (d, s, len, m))"
  by pat_completeness auto
termination by (relation "measure (\<lambda>(d, s, len, m). unat len)") (auto simp: unat_sub word_le_nat_alt)

function copy_longs :: "u32 \<Rightarrow> u32 \<Rightarrow> u32 \<Rightarrow> memory \<Rightarrow> u32 \<times> u32 \<times> u32 \<times> memory" where
  "copy_longs d s len m = (if len \<ge> 4 then copy_longs (d + 4) (s + 4) (len - 4) (copy_word d s m) else (d, s, len, m))"
  by pat_completeness auto
termination by (relation "measure (\<lambda>(d, s, len, m). unat len)") (auto simp: unat_sub word_le_nat_alt)

function copy_bytes :: "u32 \<Rightarrow> u32 \<Rightarrow> u32 \<Rightarrow> memory \<Rightarrow> memory" where
  "copy_bytes d s n m = (if n \<noteq> 0 then copy_bytes (d + 1) (s + 1) (n - 1) (m(d := m s)) else m)"
  by pat_completeness auto
termination by (relation "measure (\<lambda>(d, s, n, m). unat n)") (auto simp: unat_gt_0 unat_minus_one)

text \<open>From the end: the pointers are moved before the byte is.\<close>

function copy_bytes_down :: "u32 \<Rightarrow> u32 \<Rightarrow> u32 \<Rightarrow> memory \<Rightarrow> memory" where
  "copy_bytes_down d s n m = (if n \<noteq> 0 then copy_bytes_down (d - 1) (s - 1) (n - 1) (m(d - 1 := m (s - 1))) else m)"
  by pat_completeness auto
termination by (relation "measure (\<lambda>(d, s, n, m). unat n)") (auto simp: unat_gt_0 unat_minus_one)

declare copy_blocks.simps [simp del] copy_longs.simps [simp del] copy_bytes.simps [simp del] copy_bytes_down.simps [simp del]

definition rt_memcpy :: "u32 \<Rightarrow> u32 \<Rightarrow> u32 \<Rightarrow> memory \<Rightarrow> memory" where
  "rt_memcpy dst src count m =
    (if \<not> count < 16 \<and> (src AND 3) OR (dst AND 3) = 0
     then (let (d1, s1, n1, m1) = copy_blocks dst src count m;
               (d2, s2, n2, m2) = copy_longs d1 s1 n1 m1
           in copy_bytes d2 s2 n2 m2)
     else copy_bytes dst src count m)"

definition rt_memmove :: "u32 \<Rightarrow> u32 \<Rightarrow> u32 \<Rightarrow> memory \<Rightarrow> memory" where
  "rt_memmove dest src n m =
    (if src < dest \<and> dest < src + n then copy_bytes_down (dest + n) (src + n) n m else copy_bytes dest src n m)"

function memcmp_loop :: "u32 \<Rightarrow> u32 \<Rightarrow> u32 \<Rightarrow> memory \<Rightarrow> u32" where
  "memcmp_loop su1 su2 count m =
    (if 0 < count
     then (let res = ucast (m su1) - ucast (m su2) in if res \<noteq> 0 then res else memcmp_loop (su1 + 1) (su2 + 1) (count - 1) m)
     else 0)"
  by pat_completeness auto
termination
  by (relation "measure (\<lambda>(su1, su2, count, m). unat count)") (auto simp: unat_gt_0 unat_minus_one word_neq_0_conv)

declare memcmp_loop.simps [simp del]

definition rt_memcmp :: "u32 \<Rightarrow> u32 \<Rightarrow> u32 \<Rightarrow> memory \<Rightarrow> u32" where
  "rt_memcmp cs ct count m = memcmp_loop cs ct count m"

section \<open>Strings\<close>

definition char_int :: "char \<Rightarrow> u32" where
  "char_int c = of_nat (of_char c)"

fun rt_strlen :: "char list \<Rightarrow> u32" where
  "rt_strlen [] = 0"
| "rt_strlen (c # s) = (if c = NUL then 0 else rt_strlen s + 1)"

function strnlen_loop :: "char list \<Rightarrow> u32 \<Rightarrow> u32 \<Rightarrow> u32" where
  "strnlen_loop sc i maxlen =
    (if first_char sc \<noteq> NUL \<and> i < maxlen then strnlen_loop (tl sc) (i + 1) maxlen else i)"
  by pat_completeness auto
termination
proof (relation "measure (\<lambda>(sc, i, maxlen). length sc)", goal_cases)
  case (2 sc i maxlen)
  then show ?case by (cases sc) auto
qed simp

declare strnlen_loop.simps [simp del]

definition rt_strnlen :: "char list \<Rightarrow> u32 \<Rightarrow> u32" where
  "rt_strnlen s maxlen = strnlen_loop s 0 maxlen"

fun rt_strcmp :: "char list \<Rightarrow> char list \<Rightarrow> u32" where
  "rt_strcmp (c # cs) ct =
    (if c \<noteq> NUL \<and> c = first_char ct then rt_strcmp cs (tl ct) else char_int c - char_int (first_char ct))"
| "rt_strcmp [] ct = char_int NUL - char_int (first_char ct)"

definition lower_case :: "char \<Rightarrow> u32" where
  "lower_case c = (let ca = char_int c AND 0xff in if ca \<ge> 65 \<and> ca \<le> 90 then ca + 32 else ca)"

fun rt_strcasecmp :: "char list \<Rightarrow> char list \<Rightarrow> u32" where
  "rt_strcasecmp (c # a) b =
    (let ca = lower_case c; cb = lower_case (first_char b)
     in if ca = cb \<and> ca \<noteq> 0 then rt_strcasecmp a (tl b) else ca - cb)"
| "rt_strcasecmp [] b = lower_case NUL - lower_case (first_char b)"

text \<open>\<^verbatim>\<open>rt_memcmp(s1, s2, l2)\<close> on the text of two strings, and the search.\<close>

fun same_text :: "char list \<Rightarrow> char list \<Rightarrow> bool" where
  "same_text s1 [] = True"
| "same_text s1 (c # s2) = (first_char s1 = c \<and> same_text (tl s1) s2)"

fun strstr_loop :: "char list \<Rightarrow> char list \<Rightarrow> nat \<Rightarrow> char list option" where
  "strstr_loop s1 s2 l1 =
    (if l1 \<ge> length s2 \<and> l1 \<noteq> 0
     then (if same_text s1 s2 then Some s1 else strstr_loop (tl s1) s2 (l1 - 1))
     else None)"

definition rt_strstr :: "char list \<Rightarrow> char list \<Rightarrow> char list option" where
  "rt_strstr s1 s2 = (if s2 = [] then Some s1 else strstr_loop s1 s2 (length s1))"

end
