(* ===== verification/Rt_Mem.thy ===== *)
theory Rt_Mem
  imports Rt_Bytes
begin

text \<open>
  The small-memory heap of \<^verbatim>\<open>src/mem.c\<close>, byte by byte: the headers of the blocks lie in the same
  memory as the data. The configuration names it (\<^verbatim>\<open>RT_USING_SMALL_MEM\<close>) but leaves \<^verbatim>\<open>RT_USING_HEAP\<close>
  off; it is modelled as it is when both are on, without tracing and without assertions.

  A pointer is an address, and zero the null pointer. Every function takes the semaphore \<^verbatim>\<open>heap_sem\<close>,
  so that a call is one step; the model keeps the value of the semaphore, and a call that would have to
  wait for it is \<open>None\<close>, as is one that never ends.
\<close>

section \<open>Headers\<close>

definition HEAP_MAGIC :: u16 where "HEAP_MAGIC = 0x1ea0"
definition RT_ALIGN_SIZE :: u32 where "RT_ALIGN_SIZE = 4"
definition SIZEOF_STRUCT_MEM :: u32 where "SIZEOF_STRUCT_MEM = 12"
definition MIN_SIZE :: u32 where "MIN_SIZE = 12"
definition MIN_SIZE_ALIGNED :: u32 where "MIN_SIZE_ALIGNED = 12"

definition rt_align :: "u32 \<Rightarrow> u32" where
  "rt_align sz = (sz + RT_ALIGN_SIZE - 1) AND NOT (RT_ALIGN_SIZE - 1)"

definition rt_align_down :: "u32 \<Rightarrow> u32" where
  "rt_align_down sz = sz AND NOT (RT_ALIGN_SIZE - 1)"

definition get_half :: "u32 \<Rightarrow> memory \<Rightarrow> u16" where
  "get_half p m = ucast (m p) OR push_bit 8 (ucast (m (p + 1)))"

definition put_half :: "u32 \<Rightarrow> u16 \<Rightarrow> memory \<Rightarrow> memory" where
  "put_half p x m = m(p := ucast x, p + 1 := ucast (drop_bit 8 x))"

text \<open>The fields of \<^verbatim>\<open>struct heap_mem\<close> at address \<open>p\<close>.\<close>

definition mem_magic :: "u32 \<Rightarrow> memory \<Rightarrow> u16" where "mem_magic p = get_half p"
definition mem_used :: "u32 \<Rightarrow> memory \<Rightarrow> u16" where "mem_used p = get_half (p + 2)"
definition mem_next :: "u32 \<Rightarrow> memory \<Rightarrow> u32" where "mem_next p = get_word (p + 4)"
definition mem_prev :: "u32 \<Rightarrow> memory \<Rightarrow> u32" where "mem_prev p = get_word (p + 8)"
definition set_magic :: "u32 \<Rightarrow> u16 \<Rightarrow> memory \<Rightarrow> memory" where "set_magic p = put_half p"
definition set_used :: "u32 \<Rightarrow> u16 \<Rightarrow> memory \<Rightarrow> memory" where "set_used p = put_half (p + 2)"
definition set_mem_next :: "u32 \<Rightarrow> u32 \<Rightarrow> memory \<Rightarrow> memory" where "set_mem_next p = put_word (p + 4)"
definition set_mem_prev :: "u32 \<Rightarrow> u32 \<Rightarrow> memory \<Rightarrow> memory" where "set_mem_prev p = put_word (p + 8)"

record heap =
  h_mem :: memory
  heap_ptr :: u32
  heap_end :: u32
  lfree :: u32
  heap_sem :: u16
  mem_size_aligned :: u32
  used_mem :: u32
  max_mem :: u32

definition on_mem :: "(memory \<Rightarrow> memory) \<Rightarrow> heap \<Rightarrow> heap" where
  "on_mem f h = h\<lparr>h_mem := f (h_mem h)\<rparr>"

text \<open>\<^verbatim>\<open>&heap_ptr[offset]\<close>\<close>

definition at_offset :: "heap \<Rightarrow> u32 \<Rightarrow> u32" where
  "at_offset h offset = heap_ptr h + offset"

definition take_heap :: "heap \<Rightarrow> heap option" where
  "take_heap h = (if heap_sem h > 0 then Some (h\<lparr>heap_sem := heap_sem h - 1\<rparr>) else None)"

definition release_heap :: "heap \<Rightarrow> heap" where
  "release_heap h = h\<lparr>heap_sem := heap_sem h + 1\<rparr>"

section \<open>Joining free neighbours\<close>

definition plug_forward :: "u32 \<Rightarrow> heap \<Rightarrow> heap" where
  "plug_forward mem h =
    (let nmem = at_offset h (mem_next mem (h_mem h))
     in if mem \<noteq> nmem \<and> mem_used nmem (h_mem h) = 0 \<and> nmem \<noteq> heap_end h
        then (let h1 = (if lfree h = nmem then h\<lparr>lfree := mem\<rparr> else h);
                  h2 = on_mem (set_mem_next mem (mem_next nmem (h_mem h1))) h1
              in on_mem (set_mem_prev (at_offset h2 (mem_next nmem (h_mem h2))) (mem - heap_ptr h2)) h2)
        else h)"

definition plug_backward :: "u32 \<Rightarrow> heap \<Rightarrow> heap" where
  "plug_backward mem h =
    (let pmem = at_offset h (mem_prev mem (h_mem h))
     in if pmem \<noteq> mem \<and> mem_used pmem (h_mem h) = 0
        then (let h1 = (if lfree h = mem then h\<lparr>lfree := pmem\<rparr> else h);
                  h2 = on_mem (set_mem_next pmem (mem_next mem (h_mem h1))) h1
              in on_mem (set_mem_prev (at_offset h2 (mem_next mem (h_mem h2))) (pmem - heap_ptr h2)) h2)
        else h)"

definition plug_holes :: "u32 \<Rightarrow> heap \<Rightarrow> heap" where
  "plug_holes mem h = plug_backward mem (plug_forward mem h)"

section \<open>Setting up\<close>

definition rt_system_heap_init :: "u32 \<Rightarrow> u32 \<Rightarrow> heap \<Rightarrow> heap" where
  "rt_system_heap_init begin_addr end_addr h =
    (let begin_align = rt_align begin_addr; end_align = rt_align_down end_addr
     in if end_align > 2 * SIZEOF_STRUCT_MEM \<and> end_align - 2 * SIZEOF_STRUCT_MEM \<ge> begin_align
        then (let sz = end_align - begin_align - 2 * SIZEOF_STRUCT_MEM;
                  h1 = h\<lparr>mem_size_aligned := sz, heap_ptr := begin_align\<rparr>;
                  mem = begin_align;
                  h2 = on_mem (set_used mem 0 \<circ> set_mem_prev mem 0 \<circ> set_mem_next mem (sz + SIZEOF_STRUCT_MEM) \<circ> set_magic mem HEAP_MAGIC) h1;
                  e = at_offset h2 (mem_next mem (h_mem h2));
                  h3 = on_mem (set_mem_prev e (sz + SIZEOF_STRUCT_MEM) \<circ> set_mem_next e (sz + SIZEOF_STRUCT_MEM) \<circ>
                               set_used e 1 \<circ> set_magic e HEAP_MAGIC) (h2\<lparr>heap_end := e\<rparr>)
              in h3\<lparr>heap_sem := 1, lfree := begin_align\<rparr>)
        else h)"

section \<open>Allocating\<close>

text \<open>The first free block from offset \<open>ptr\<close> on that is large enough; \<open>Some None\<close> if there is none.\<close>

partial_function (option) find_fit :: "heap \<Rightarrow> u32 \<Rightarrow> u32 \<Rightarrow> u32 option option" where
  "find_fit h sz ptr =
    (if ptr < mem_size_aligned h - sz
     then (let mem = at_offset h ptr
           in if mem_used mem (h_mem h) = 0 \<and> mem_next mem (h_mem h) - (ptr + SIZEOF_STRUCT_MEM) \<ge> sz
              then Some (Some ptr)
              else find_fit h sz (mem_next mem (h_mem h)))
     else Some None)"

declare find_fit.simps [code]

text \<open>\<^verbatim>\<open>while (lfree->used && lfree != heap_end)\<close>\<close>

partial_function (option) next_free :: "heap \<Rightarrow> u32 \<Rightarrow> u32 option" where
  "next_free h p =
    (if mem_used p (h_mem h) \<noteq> 0 \<and> p \<noteq> heap_end h then next_free h (at_offset h (mem_next p (h_mem h))) else Some p)"

declare next_free.simps [code]

definition count_used :: "u32 \<Rightarrow> heap \<Rightarrow> heap" where
  "count_used n h =
    (let h1 = h\<lparr>used_mem := used_mem h + n\<rparr>
     in if max_mem h1 < used_mem h1 then h1\<lparr>max_mem := used_mem h1\<rparr> else h1)"

text \<open>A new free block at offset \<open>ptr2\<close> in the block at \<open>ptr\<close>, which then ends there.\<close>

definition split_block :: "u32 \<Rightarrow> u32 \<Rightarrow> heap \<Rightarrow> heap" where
  "split_block ptr ptr2 h =
    (let mem = at_offset h ptr; mem2 = at_offset h ptr2;
         h1 = on_mem (set_mem_prev mem2 ptr \<circ> set_mem_next mem2 (mem_next mem (h_mem h)) \<circ> set_used mem2 0 \<circ> set_magic mem2 HEAP_MAGIC) h
     in on_mem (set_mem_next mem ptr2) h1)"

definition link_back :: "u32 \<Rightarrow> heap \<Rightarrow> heap" where
  "link_back ptr2 h =
    (let n = mem_next (at_offset h ptr2) (h_mem h)
     in if n \<noteq> mem_size_aligned h + SIZEOF_STRUCT_MEM then on_mem (set_mem_prev (at_offset h n) ptr2) h else h)"

definition use_block :: "u32 \<Rightarrow> u32 \<Rightarrow> heap \<Rightarrow> heap option" where
  "use_block sz ptr h =
    do { let mem = at_offset h ptr;
         let h1 = (if mem_next mem (h_mem h) - (ptr + SIZEOF_STRUCT_MEM) \<ge> sz + SIZEOF_STRUCT_MEM + MIN_SIZE_ALIGNED
                   then (let ptr2 = ptr + SIZEOF_STRUCT_MEM + sz
                         in count_used (sz + SIZEOF_STRUCT_MEM)
                              (link_back ptr2 (on_mem (set_used mem 1) (split_block ptr ptr2 h))))
                   else (let h0 = on_mem (set_used mem 1) h
                         in count_used (mem_next mem (h_mem h0) - (mem - heap_ptr h0)) h0));
         let h2 = on_mem (set_magic mem HEAP_MAGIC) h1;
         if mem = lfree h2 then do { p \<leftarrow> next_free h2 (lfree h2); Some (h2\<lparr>lfree := p\<rparr>) } else Some h2 }"

definition rt_malloc :: "u32 \<Rightarrow> heap \<Rightarrow> (u32 \<times> heap) option" where
  "rt_malloc size0 h =
    (if size0 = 0 then Some (0, h)
     else let size1 = rt_align size0
          in if size1 > mem_size_aligned h then Some (0, h)
             else let sz = (if size1 < MIN_SIZE_ALIGNED then MIN_SIZE_ALIGNED else size1)
                  in do { h1 \<leftarrow> take_heap h;
                          found \<leftarrow> find_fit h1 sz (lfree h1 - heap_ptr h1);
                          case found of
                            None \<Rightarrow> Some (0, release_heap h1)
                          | Some ptr \<Rightarrow> do { h2 \<leftarrow> use_block sz ptr h1;
                                            Some (at_offset h2 ptr + SIZEOF_STRUCT_MEM, release_heap h2) } })"

section \<open>Freeing\<close>

text \<open>A block that is not in use, or whose magic number is gone, is reported and then freed all the same.\<close>

definition rt_free :: "u32 \<Rightarrow> heap \<Rightarrow> heap option" where
  "rt_free rmem h =
    (if rmem = 0 then Some h
     else if rmem < heap_ptr h \<or> rmem \<ge> heap_end h then Some h
     else do { let mem = rmem - SIZEOF_STRUCT_MEM;
               h1 \<leftarrow> take_heap h;
               let h2 = on_mem (set_magic mem HEAP_MAGIC \<circ> set_used mem 0) h1;
               let h3 = (if mem < lfree h2 then h2\<lparr>lfree := mem\<rparr> else h2);
               let h4 = h3\<lparr>used_mem := used_mem h3 - (mem_next mem (h_mem h3) - (mem - heap_ptr h3))\<rparr>;
               Some (release_heap (plug_holes mem h4)) })"

section \<open>Resizing\<close>

definition shrink_block :: "u32 \<Rightarrow> u32 \<Rightarrow> u32 \<Rightarrow> heap \<Rightarrow> heap" where
  "shrink_block ptr sz newsize h =
    (let h1 = h\<lparr>used_mem := used_mem h - (sz - newsize)\<rparr>;
         ptr2 = ptr + SIZEOF_STRUCT_MEM + newsize;
         mem2 = at_offset h1 ptr2;
         h2 = link_back ptr2 (split_block ptr ptr2 h1);
         h3 = (if mem2 < lfree h2 then h2\<lparr>lfree := mem2\<rparr> else h2)
     in plug_holes mem2 h3)"

definition rt_realloc :: "u32 \<Rightarrow> u32 \<Rightarrow> heap \<Rightarrow> (u32 \<times> heap) option" where
  "rt_realloc rmem newsize0 h =
    (let newsize = rt_align newsize0
     in if newsize > mem_size_aligned h then Some (0, h)
        else if newsize = 0 then do { h1 \<leftarrow> rt_free rmem h; Some (0, h1) }
        else if rmem = 0 then rt_malloc newsize h
        else do { h1 \<leftarrow> take_heap h;
          if rmem < heap_ptr h1 \<or> rmem \<ge> heap_end h1 then Some (rmem, release_heap h1)
          else let mem = rmem - SIZEOF_STRUCT_MEM; ptr = mem - heap_ptr h1;
                   sz = mem_next mem (h_mem h1) - ptr - SIZEOF_STRUCT_MEM
               in if sz = newsize then Some (rmem, release_heap h1)
                  else if newsize + SIZEOF_STRUCT_MEM + MIN_SIZE < sz
                  then Some (rmem, release_heap (shrink_block ptr sz newsize h1))
                  else do { (nmem, h2) \<leftarrow> rt_malloc newsize (release_heap h1);
                            if nmem \<noteq> 0
                            then do { let h3 = on_mem (rt_memcpy nmem rmem (if sz < newsize then sz else newsize)) h2;
                                      h4 \<leftarrow> rt_free rmem h3;
                                      Some (nmem, h4) }
                            else Some (nmem, h2) } })"

definition rt_calloc :: "u32 \<Rightarrow> u32 \<Rightarrow> heap \<Rightarrow> (u32 \<times> heap) option" where
  "rt_calloc count sz h =
    do { (p, h1) \<leftarrow> rt_malloc (count * sz) h;
         Some (p, if p \<noteq> 0 then on_mem (rt_memset p 0 (count * sz)) h1 else h1) }"

definition rt_memory_info :: "heap \<Rightarrow> u32 \<times> u32 \<times> u32" where
  "rt_memory_info h = (mem_size_aligned h, used_mem h, max_mem h)"

text \<open>\<^verbatim>\<open>rt_malloc_align\<close> and \<^verbatim>\<open>rt_free_align\<close> of \<^verbatim>\<open>src/kservice.c\<close> keep the pointer of the block before the data.\<close>

definition rt_malloc_align :: "u32 \<Rightarrow> u32 \<Rightarrow> heap \<Rightarrow> (u32 \<times> heap) option" where
  "rt_malloc_align sz align0 h =
    (let align = (align0 + 3) AND NOT 3; align_size = ((sz + 3) AND NOT 3) + align
     in do { (ptr, h1) \<leftarrow> rt_malloc align_size h;
             if ptr \<noteq> 0
             then let align_ptr = (if ptr AND (align - 1) = 0 then ptr + align else (ptr + (align - 1)) AND NOT (align - 1))
                  in Some (align_ptr, on_mem (put_word (align_ptr - 4) ptr) h1)
             else Some (0, h1) })"

definition rt_free_align :: "u32 \<Rightarrow> heap \<Rightarrow> heap option" where
  "rt_free_align ptr h = rt_free (get_word (ptr - 4) (h_mem h)) h"

end
