(* ===== verification/Rt_Bytes_Props.thy ===== *)
theory Rt_Bytes_Props
  imports Rt_Bytes
begin

text \<open>
  The memory functions move whole words where they can; here they are shown to do what their byte by
  byte descriptions say, at every address, wrap-around included.
\<close>

section \<open>Spans of addresses\<close>

text \<open>The first \<open>n\<close> addresses from \<open>p\<close> on are those with \<open>a - p < n\<close>.\<close>

lemma span_split:
  fixes x :: u32
  shows "k \<le> n \<Longrightarrow> x < n \<longleftrightarrow> x < k \<or> x - k < n - k"
  by uint_arith

lemma span_after: "k \<le> n \<Longrightarrow> (x :: u32) < k \<Longrightarrow> \<not> x - k < n - k"
  by uint_arith

lemma span_before: "(x :: u32) < e \<Longrightarrow> k \<le> x \<Longrightarrow> \<not> x - e < k"
  by uint_arith

lemma span_chain: "(n1 :: u32) \<le> n \<Longrightarrow> n2 \<le> n1 \<Longrightarrow> n2 \<le> n \<and> n - n1 \<le> n - n2"
  by uint_arith

lemma span_rest: "(k :: u32) \<le> n \<Longrightarrow> n - k \<le> n"
  by uint_arith

lemma span_beyond: "(k :: u32) \<le> n \<Longrightarrow> n \<le> e \<Longrightarrow> x < k \<Longrightarrow> \<not> e + x - k < n - k"
  by uint_arith

lemma span_word: "(x :: u32) < 4 \<longleftrightarrow> x = 0 \<or> x = 1 \<or> x = 2 \<or> x = 3"
  by uint_arith

lemma span_one: "(x :: u32) < 1 \<longleftrightarrow> x = 0"
  by (simp add: word_less_1)

definition filled :: "u32 \<Rightarrow> u32 \<Rightarrow> u8 \<Rightarrow> memory \<Rightarrow> memory" where
  "filled p n d m = (\<lambda>a. if a - p < n then d else m a)"

definition copied :: "u32 \<Rightarrow> u32 \<Rightarrow> u32 \<Rightarrow> memory \<Rightarrow> memory" where
  "copied d s n m = (\<lambda>a. if a - d < n then m (s + (a - d)) else m a)"

lemma filled_split:
  assumes "k \<le> n"
  shows "filled (p + k) (n - k) d (filled p k d m) = filled p n d m"
proof
  fix a
  have "a - p < n \<longleftrightarrow> a - p < k \<or> a - (p + k) < n - k"
    using span_split [OF assms, of "a - p"] by (simp add: diff_diff_add)
  then show "filled (p + k) (n - k) d (filled p k d m) a = filled p n d m a" by (auto simp: filled_def)
qed

text \<open>Copying from the front is right when no byte is overwritten before it is read.\<close>

lemma copied_split:
  assumes k: "k \<le> n" and f: "d = s \<or> n \<le> d - s"
  shows "copied (d + k) (s + k) (n - k) (copied d s k m) = copied d s n m"
proof
  fix a
  define x where "x = a - d"
  have a: "a = d + x" by (simp add: x_def)
  have e: "a - (d + k) = x - k" "s + k + (x - k) = s + x" by (simp_all add: a)
  have "copied d s k m (s + x) = m (s + x)" if "x - k < n - k"
  proof -
    have x: "k \<le> x" using that span_after [OF k, of x] by force
    have xn: "x < n" using that span_split [OF k, of x] by simp
    have "\<not> s + x - d < k"
    proof (cases "d = s")
      case True then show ?thesis using x by simp
    next
      case False
      then have "x < d - s" using f xn by (metis order.strict_trans2)
      moreover have "s + x - d = x - (d - s)" by simp
      ultimately show ?thesis using span_before [OF _ x] by metis
    qed
    then show ?thesis by (simp add: copied_def)
  qed
  moreover have "copied (d + k) (s + k) (n - k) g a = (if x - k < n - k then g (s + x) else g a)" for g
    unfolding copied_def e ..
  moreover have "copied d s n m a = (if x < n then m (s + x) else m a)" "copied d s k m a = (if x < k then m (s + x) else m a)"
    unfolding copied_def x_def by rule+
  ultimately show "copied (d + k) (s + k) (n - k) (copied d s k m) a = copied d s n m a"
    using span_split [OF k, of x] by simp
qed

section \<open>Filling\<close>

lemma word_offsets: "p + (1 :: u32) \<noteq> p" "p + (2 :: u32) \<noteq> p" "p + (3 :: u32) \<noteq> p"
  "p + 1 \<noteq> p + (2 :: u32)" "p + 1 \<noteq> p + (3 :: u32)" "p + 2 \<noteq> p + (3 :: u32)"
  by simp_all

lemma put_word_at:
  "put_word p x m a =
    (if a - p = 0 then ucast x else if a - p = 1 then ucast (drop_bit 8 x)
     else if a - p = 2 then ucast (drop_bit 16 x) else if a - p = 3 then ucast (drop_bit 24 x) else m a)"
proof -
  have "a - p = i \<longleftrightarrow> a = p + i" for i by (metis add_diff_cancel_left' add.commute diff_add_cancel)
  then show ?thesis by (auto simp: put_word_def word_offsets)
qed

definition spread :: "u8 \<Rightarrow> u32" where
  "spread d = (let half = push_bit 8 (ucast d) OR ucast d in half OR push_bit 16 half)"

lemma spread_bytes:
  "ucast (spread d) = d" "ucast (drop_bit 8 (spread d)) = d" "ucast (drop_bit 16 (spread d)) = d" "ucast (drop_bit 24 (spread d)) = d"
proof -
  note [dest] = bit_imp_le_length
  show "ucast (spread d) = d" by (rule bit_word_eqI) (auto simp: spread_def bit_simps)
  show "ucast (drop_bit 8 (spread d)) = d" by (rule bit_word_eqI) (auto simp: spread_def bit_simps)
  show "ucast (drop_bit 16 (spread d)) = d" by (rule bit_word_eqI) (auto simp: spread_def bit_simps)
  show "ucast (drop_bit 24 (spread d)) = d" by (rule bit_word_eqI) (auto simp: spread_def bit_simps)
qed

lemma put_spread: "put_word p (spread d) m = filled p 4 d m"
  by (rule ext) (auto simp: put_word_at filled_def spread_bytes span_word)

lemma set_bytes_filled: "set_bytes d p n m = filled p n d m"
proof (induction d p n m rule: set_bytes.induct)
  case (1 d p n m)
  show ?case
  proof (cases "n = 0")
    case True then show ?thesis by (simp add: set_bytes.simps filled_def)
  next
    case False
    have "m(p := d) = filled p 1 d m" by (rule ext) (auto simp: filled_def span_one)
    moreover have "(1 :: u32) \<le> n" using False by (simp add: word_le_nat_alt unat_gt_0 Suc_leI)
    ultimately show ?thesis using 1 False filled_split [of 1 n p d m] by (simp add: set_bytes.simps)
  qed
qed

lemma set_words_filled:
  "set_words (spread d) p n m = (p', n', m') \<Longrightarrow> n' \<le> n \<and> p' = p + (n - n') \<and> m' = filled p (n - n') d m"
proof (induction "spread d" p n m arbitrary: p' n' m' rule: set_words.induct)
  case (1 p n m)
  show ?case
  proof (cases "4 \<le> n")
    case True
    then have s: "set_words (spread d) (p + 4) (n - 4) (filled p 4 d m) = (p', n', m')"
      using 1(2) by (simp add: set_words.simps [of "spread d" p] put_spread)
    then have h: "n' \<le> n - 4" "p' = p + 4 + (n - 4 - n')" "m' = filled (p + 4) (n - 4 - n') d (filled p 4 d m)"
      using 1(1) [OF True, of p' n' m'] by (simp_all add: put_spread)
    moreover have "n' \<le> n" "4 \<le> n - n'" using h(1) True by uint_arith+
    moreover from this(2) have "filled (p + 4) (n - n' - 4) d (filled p 4 d m) = filled p (n - n') d m" by (rule filled_split)
    moreover have "n - n' - 4 = n - 4 - n'" by simp
    ultimately show ?thesis by simp
  next
    case False
    then show ?thesis using 1(2) by (simp add: set_words.simps filled_def)
  qed
qed

lemma four_words:
  "filled (p + 12) 4 d (filled (p + 8) 4 d (filled (p + 4) 4 d (filled p 4 d m))) = filled p 16 d m"
proof -
  have "filled (p + 4) 4 d (filled p 4 d m) = filled p 8 d m" using filled_split [of 4 8 p d m] by simp
  moreover have "filled (p + 8) 4 d (filled p 8 d m) = filled p 12 d m" using filled_split [of 8 12 p d m] by simp
  moreover have "filled (p + 12) 4 d (filled p 12 d m) = filled p 16 d m" using filled_split [of 12 16 p d m] by simp
  ultimately show ?thesis by simp
qed

lemma set_blocks_filled:
  "set_blocks (spread d) p n m = (p', n', m') \<Longrightarrow> n' \<le> n \<and> p' = p + (n - n') \<and> m' = filled p (n - n') d m"
proof (induction "spread d" p n m arbitrary: p' n' m' rule: set_blocks.induct)
  case (1 p n m)
  show ?case
  proof (cases "16 \<le> n")
    case True
    then have s: "set_blocks (spread d) (p + 16) (n - 16) (filled p 16 d m) = (p', n', m')"
      using 1(2) by (simp add: set_blocks.simps [of "spread d" p] put_spread four_words)
    then have h: "n' \<le> n - 16" "p' = p + 16 + (n - 16 - n')" "m' = filled (p + 16) (n - 16 - n') d (filled p 16 d m)"
      using 1(1) [OF True, of p' n' m'] by (simp_all add: put_spread four_words)
    moreover have "n' \<le> n" "16 \<le> n - n'" using h(1) True by uint_arith+
    moreover from this(2) have "filled (p + 16) (n - n' - 16) d (filled p 16 d m) = filled p (n - n') d m" by (rule filled_split)
    moreover have "n - n' - 16 = n - 16 - n'" by simp
    ultimately show ?thesis by simp
  next
    case False
    then show ?thesis using 1(2) by (simp add: set_blocks.simps filled_def)
  qed
qed

text \<open>\<^verbatim>\<open>rt_memset\<close> writes the low byte of its argument to \<open>n\<close> bytes and nothing else, whatever way it takes.\<close>

lemma memset_filled: "rt_memset p c n m = filled p n (ucast c) m"
proof -
  have m: "(0xff :: u32) = mask 8" by (simp add: mask_eq_exp_minus_1)
  have d: "ucast (c AND 0xff) = (ucast c :: u8)" unfolding m by (rule bit_word_eqI) (auto simp: bit_simps)
  have b: "(let half = push_bit 8 (c AND 0xff) OR (c AND 0xff) in half OR push_bit 16 half) = spread (ucast c)"
  proof -
    have "ucast (ucast c :: u8) = c AND 0xff" unfolding m by (rule bit_word_eqI) (auto simp: bit_simps)
    then show ?thesis by (simp add: spread_def)
  qed
  obtain p1 n1 m1 where s1: "set_blocks (spread (ucast c)) p n m = (p1, n1, m1)" by (metis prod_cases3)
  obtain p2 n2 m2 where s2: "set_words (spread (ucast c)) p1 n1 m1 = (p2, n2, m2)" by (metis prod_cases3)
  note h1 = set_blocks_filled [OF s1] and h2 = set_words_filled [OF s2]
  have le: "n2 \<le> n" "n - n1 \<le> n - n2" using h1 h2 span_chain by blast+
  have "p2 = p + (n - n2)" using h1 h2 by simp
  moreover have "m2 = filled p (n - n2) (ucast c) m"
  proof -
    have "n - n2 - (n - n1) = n1 - n2" by simp
    then show ?thesis using h1 h2 filled_split [OF le(2), of p "ucast c" m] by simp
  qed
  moreover have "n - n2 \<le> n" "n - (n - n2) = n2" using span_rest [OF le(1)] by simp_all
  ultimately have "set_bytes (ucast c) p2 n2 m2 = filled p n (ucast c) m"
    using filled_split [of "n - n2" n p "ucast c" m] by (simp add: set_bytes_filled)
  then show ?thesis
    using s1 s2 b by (auto simp: rt_memset_def Let_def d set_bytes_filled)
qed

section \<open>Copying\<close>

text \<open>Going up is right when the destination is not inside the source, going down when the source is not
  inside the destination.\<close>

definition upward :: "u32 \<Rightarrow> u32 \<Rightarrow> u32 \<Rightarrow> bool" where
  "upward d s n = (d = s \<or> n \<le> d - s)"

lemma upward_rest: "upward d s n \<Longrightarrow> k \<le> n \<Longrightarrow> upward (d + k) (s + k) (n - k) \<and> upward d s k"
  using span_rest [of k n] by (auto simp: upward_def)

lemma copied_parts:
  assumes "upward d s n" and "k \<le> n" and "n' \<le> n - k"
  shows "n' \<le> n \<and> d + k + (n - k - n') = d + (n - n') \<and>
    copied (d + k) (s + k) (n - k - n') (copied d s k m) = copied d s (n - n') m"
proof -
  have le: "n' \<le> n" "k \<le> n - n'" "n - n' \<le> n" using assms(2,3) by uint_arith+
  have "d = s \<or> n - n' \<le> d - s" using assms(1) le(3) by (auto simp: upward_def)
  from copied_split [OF le(2) this, of m] have "copied (d + k) (s + k) (n - n' - k) (copied d s k m) = copied d s (n - n') m" .
  moreover have "n - n' - k = n - k - n'" by simp
  ultimately show ?thesis using le(1) by simp
qed

lemma copied_none: "copied d s 0 m = m"
  by (simp add: copied_def)

lemma copied_one: "m(d := m s) = copied d s 1 m"
  by (rule ext) (auto simp: copied_def span_one)

lemma word_bytes:
  "ucast (get_word s m) = m s" "ucast (drop_bit 8 (get_word s m)) = m (s + 1)"
  "ucast (drop_bit 16 (get_word s m)) = m (s + 2)" "ucast (drop_bit 24 (get_word s m)) = m (s + 3)"
proof -
  note [dest] = bit_imp_le_length
  show "ucast (get_word s m) = m s" by (rule bit_word_eqI) (auto simp: get_word_def bit_simps)
  show "ucast (drop_bit 8 (get_word s m)) = m (s + 1)" by (rule bit_word_eqI) (auto simp: get_word_def bit_simps)
  show "ucast (drop_bit 16 (get_word s m)) = m (s + 2)" by (rule bit_word_eqI) (auto simp: get_word_def bit_simps)
  show "ucast (drop_bit 24 (get_word s m)) = m (s + 3)" by (rule bit_word_eqI) (auto simp: get_word_def bit_simps)
qed

lemma copy_word_copied: "copy_word d s m = copied d s 4 m"
  by (rule ext) (auto simp: copy_word_def put_word_at copied_def word_bytes span_word)

lemma copy_bytes_copied: "upward d s n \<Longrightarrow> copy_bytes d s n m = copied d s n m"
proof (induction d s n m rule: copy_bytes.induct)
  case (1 d s n m)
  show ?case
  proof (cases "n = 0")
    case True then show ?thesis by (simp add: copy_bytes.simps copied_none)
  next
    case False
    then have le: "1 \<le> n" by (simp add: word_le_nat_alt unat_gt_0 Suc_leI)
    have "copy_bytes d s n m = copied (d + 1) (s + 1) (n - 1) (copied d s 1 m)"
      using 1(1) [OF False] upward_rest [OF 1(2) le] False by (simp add: copy_bytes.simps [of d s n] copied_one)
    then show ?thesis using copied_parts [OF 1(2) le, of 0] by simp
  qed
qed

lemma copy_longs_copied:
  "copy_longs d s n m = (d', s', n', m') \<Longrightarrow> upward d s n \<Longrightarrow>
   n' \<le> n \<and> d' = d + (n - n') \<and> s' = s + (n - n') \<and> m' = copied d s (n - n') m"
proof (induction d s n m arbitrary: d' s' n' m' rule: copy_longs.induct)
  case (1 d s n m)
  show ?case
  proof (cases "4 \<le> n")
    case True
    then have "copy_longs (d + 4) (s + 4) (n - 4) (copied d s 4 m) = (d', s', n', m')"
      using 1(2) by (simp add: copy_longs.simps [of d s n] copy_word_copied)
    then have h: "n' \<le> n - 4" "d' = d + 4 + (n - 4 - n')" "s' = s + 4 + (n - 4 - n')"
        "m' = copied (d + 4) (s + 4) (n - 4 - n') (copied d s 4 m)"
      using 1(1) [OF True, of d' s' n' m'] upward_rest [OF 1(3) True] by (simp_all add: copy_word_copied)
    then show ?thesis using copied_parts [OF 1(3) True h(1), of m] by simp
  next
    case False
    then show ?thesis using 1(2) by (simp add: copy_longs.simps copied_none)
  qed
qed

lemma copied_four:
  assumes "upward d s n" and "16 \<le> n"
  shows "copied (d + 12) (s + 12) 4 (copied (d + 8) (s + 8) 4 (copied (d + 4) (s + 4) 4 (copied d s 4 m))) = copied d s 16 m"
proof -
  have u: "upward d s 16" using upward_rest [OF assms] by blast
  have s: "copied (d + k) (s + k) 4 (copied d s k m) = copied d s (k + 4) m" if "k \<in> {4, 8, 12}" for k
  proof -
    have "k \<le> 16" "16 - (k + 4) \<le> 16 - k" "16 - k - (16 - (k + 4)) = 4" "16 - (16 - (k + 4)) = k + 4" using that by auto
    then show ?thesis using copied_parts [OF u, of k "16 - (k + 4)" m] by (simp add: add.commute)
  qed
  show ?thesis using s [of 4] s [of 8] s [of 12] by simp
qed

lemma copy_blocks_copied:
  "copy_blocks d s n m = (d', s', n', m') \<Longrightarrow> upward d s n \<Longrightarrow>
   n' \<le> n \<and> d' = d + (n - n') \<and> s' = s + (n - n') \<and> m' = copied d s (n - n') m"
proof (induction d s n m arbitrary: d' s' n' m' rule: copy_blocks.induct)
  case (1 d s n m)
  show ?case
  proof (cases "16 \<le> n")
    case True
    note b = copied_four [OF 1(3) True]
    have "copy_blocks (d + 16) (s + 16) (n - 16) (copied d s 16 m) = (d', s', n', m')"
      using 1(2) True by (simp add: copy_blocks.simps [of d s n] copy_word_copied b)
    then have h: "n' \<le> n - 16" "d' = d + 16 + (n - 16 - n')" "s' = s + 16 + (n - 16 - n')"
        "m' = copied (d + 16) (s + 16) (n - 16 - n') (copied d s 16 m)"
      using 1(1) [OF True, of d' s' n' m'] upward_rest [OF 1(3) True] by (simp_all add: copy_word_copied b)
    then show ?thesis using copied_parts [OF 1(3) True h(1), of m] by simp
  next
    case False
    then show ?thesis using 1(2) by (simp add: copy_blocks.simps copied_none)
  qed
qed

lemma memcpy_copied:
  assumes u: "upward d s n"
  shows "rt_memcpy d s n m = copied d s n m"
proof -
  obtain d1 s1 n1 m1 where c1: "copy_blocks d s n m = (d1, s1, n1, m1)" by (metis prod_cases4)
  obtain d2 s2 n2 m2 where c2: "copy_longs d1 s1 n1 m1 = (d2, s2, n2, m2)" by (metis prod_cases4)
  note h1 = copy_blocks_copied [OF c1 u]
  have k1: "n - n1 \<le> n" "n - (n - n1) = n1" using h1 span_rest [of n1 n] by simp_all
  have u1: "upward d1 s1 n1" using upward_rest [OF u k1(1)] h1 k1(2) by simp
  note h2 = copy_longs_copied [OF c2 u1]
  have le: "n2 \<le> n" "n - n1 \<le> n - n2" using h1 h2 span_chain by blast+
  have k2: "n - n2 \<le> n" "n - (n - n2) = n2" using span_rest [OF le(1)] by simp_all
  have m2: "m2 = copied d s (n - n2) m" "d2 = d + (n - n2)" "s2 = s + (n - n2)"
    using h1 h2 copied_parts [OF u k1(1), of n2 m] k1(2) by auto
  have "copy_bytes d2 s2 n2 m2 = copied d2 s2 n2 m2"
    using copy_bytes_copied upward_rest [OF u k2(1)] m2 k2(2) by simp
  also have "\<dots> = copied d s n m" using copied_parts [OF u k2(1), of 0 m] m2 k2(2) by simp
  finally show ?thesis using c1 c2 copy_bytes_copied [OF u] by (simp add: rt_memcpy_def)
qed

text \<open>Going down, the last bytes first.\<close>

lemma copied_down:
  assumes k: "k \<le> n" and f: "d = s \<or> n \<le> s - d"
  shows "copied d s k (copied (d + k) (s + k) (n - k) m) = copied d s n m"
proof
  fix a
  define x where "x = a - d"
  have a: "a = d + x" by (simp add: x_def)
  have e: "a - (d + k) = x - k" "s + k + (x - k) = s + x" by (simp_all add: a)
  have "copied (d + k) (s + k) (n - k) m (s + x) = m (s + x)" if xk: "x < k"
  proof -
    have "\<not> s + x - (d + k) < n - k"
    proof (cases "d = s")
      case True then show ?thesis using span_after [OF k xk] by simp
    next
      case False
      then have "n \<le> s - d" using f by simp
      moreover have "s + x - (d + k) = (s - d) + x - k" by simp
      ultimately show ?thesis using span_beyond [OF k _ xk] by metis
    qed
    then show ?thesis by (simp add: copied_def)
  qed
  moreover have "copied d s k g a = (if x < k then g (s + x) else g a)" for g
    unfolding copied_def x_def ..
  moreover have "copied d s n m a = (if x < n then m (s + x) else m a)"
    "copied (d + k) (s + k) (n - k) m a = (if x - k < n - k then m (s + x) else m a)"
    unfolding copied_def e x_def [symmetric] by rule+
  ultimately show "copied d s k (copied (d + k) (s + k) (n - k) m) a = copied d s n m a"
    using span_split [OF k, of x] by simp
qed

lemma copy_bytes_down_copied: "d = s \<or> n \<le> s - d \<Longrightarrow> copy_bytes_down (d + n) (s + n) n m = copied d s n m"
proof (induction n arbitrary: m rule: word_induct2)
  case zero
  show ?case by (simp add: copy_bytes_down.simps copied_none)
next
  case (suc n)
  note Suc = suc
  have le: "n \<le> 1 + n" using Suc(1) by (simp add: word_le_nat_alt unatSuc)
  have f: "d = s \<or> n \<le> s - d" using Suc(3) le by auto
  have one: "m(d + n := m (s + n)) = copied (d + n) (s + n) 1 m" by (rule copied_one)
  have "copy_bytes_down (d + (1 + n)) (s + (1 + n)) (1 + n) m = copy_bytes_down (d + n) (s + n) n (m(d + n := m (s + n)))"
    using Suc(1) by (subst copy_bytes_down.simps) (simp add: add.commute add.left_commute)
  also have "\<dots> = copied d s n (copied (d + n) (s + n) 1 m)" using Suc(2) [OF f] one by simp
  also have "\<dots> = copied d s (1 + n) m" using copied_down [OF le Suc(3), of m] by simp
  finally show ?case .
qed

text \<open>\<^verbatim>\<open>rt_memmove\<close> is right for every overlap of two regions inside the address space.\<close>

lemma memmove_copied:
  assumes s: "unat s + unat n < 2 ^ 32" and d: "unat d + unat n \<le> 2 ^ 32"
  shows "rt_memmove d s n m = copied d s n m"
proof (cases "s < d \<and> d < s + n")
  case True
  have "n \<le> s - d"
  proof -
    have "unat (s - d) = 2 ^ 32 + unat s - unat d"
      using True by (auto simp: unat_sub_if' word_less_nat_alt)
    then show ?thesis using True s d by (simp add: word_le_nat_alt word_less_nat_alt)
  qed
  then show ?thesis using True copy_bytes_down_copied [of d s n m] by (simp add: rt_memmove_def)
next
  case False
  have "upward d s n"
  proof (cases "s < d")
    case True
    then have "s + n \<le> d" using False by simp
    moreover have "unat (s + n) = unat s + unat n" using s unat_add_lem [of s n] by simp
    ultimately have "n \<le> d - s" using True by (simp add: word_le_nat_alt unat_sub word_less_nat_alt)
    then show ?thesis by (simp add: upward_def)
  next
    case le: False
    show ?thesis
    proof (cases "d = s")
      case ne: False
      then have "d < s" using le by simp
      then have "unat (d - s) = 2 ^ 32 + unat d - unat s" by (auto simp: unat_sub_if' word_less_nat_alt)
      then have "n \<le> d - s" using s \<open>d < s\<close> by (simp add: word_le_nat_alt word_less_nat_alt)
      then show ?thesis by (simp add: upward_def)
    qed (simp add: upward_def)
  qed
  then show ?thesis using False copy_bytes_copied by (auto simp: rt_memmove_def)
qed

end
