(* ===== verification/Rt_Mem_Inv.thy ===== *)
theory Rt_Mem_Inv
  imports Rt_Mem Rt_Bytes_Props
begin

text \<open>
  The heap as a list of blocks, each with the size of its data and whether it is in use, and the
  invariant that relates the list to the headers in memory.
\<close>

section \<open>Headers in memory\<close>

definition header :: "memory \<Rightarrow> u32 \<Rightarrow> u16 \<times> u16 \<times> u32 \<times> u32" where
  "header m p = (mem_magic p m, mem_used p m, mem_next p m, mem_prev p m)"

lemmas field_defs = mem_magic_def mem_used_def mem_next_def mem_prev_def set_magic_def set_used_def set_mem_next_def set_mem_prev_def

lemma half_bytes: "ucast (get_half s m) = m s" "ucast (drop_bit 8 (get_half s m)) = m (s + 1)"
proof -
  note [dest] = bit_imp_le_length
  show "ucast (get_half s m) = m s" by (rule bit_word_eqI) (auto simp: get_half_def bit_simps)
  show "ucast (drop_bit 8 (get_half s m)) = m (s + 1)" by (rule bit_word_eqI) (auto simp: get_half_def bit_simps)
qed

lemma get_put_half [simp]: "get_half p (put_half p x m) = x"
  by (rule bit_word_eqI) (auto simp: get_half_def put_half_def bit_simps)

lemma get_put_word [simp]: "get_word p (put_word p x m) = x"
proof (rule bit_word_eqI)
  fix n assume "n < LENGTH(32)"
  then show "bit (get_word p (put_word p x m)) n = bit x n"
    by (cases "n < 8"; cases "n < 16"; cases "n < 24") (auto simp: get_word_def put_word_def bit_simps)
qed

lemma same_header_fields [simp]:
  "mem_magic p (set_magic p h m) = h" "mem_magic p (set_used p h m) = mem_magic p m"
  "mem_magic p (set_mem_next p w m) = mem_magic p m" "mem_magic p (set_mem_prev p w m) = mem_magic p m"
  "mem_used p (set_magic p h m) = mem_used p m" "mem_used p (set_used p h m) = h"
  "mem_used p (set_mem_next p w m) = mem_used p m" "mem_used p (set_mem_prev p w m) = mem_used p m"
  "mem_next p (set_magic p h m) = mem_next p m" "mem_next p (set_used p h m) = mem_next p m"
  "mem_next p (set_mem_next p w m) = w" "mem_next p (set_mem_prev p w m) = mem_next p m"
  "mem_prev p (set_magic p h m) = mem_prev p m" "mem_prev p (set_used p h m) = mem_prev p m"
  "mem_prev p (set_mem_next p w m) = mem_prev p m" "mem_prev p (set_mem_prev p w m) = w"
  by (simp_all add: field_defs)
    (simp_all add: get_half_def get_word_def put_half_def put_word_def add.assoc)

text \<open>A header only changes when one of its twelve bytes does.\<close>

definition apart :: "u32 \<Rightarrow> u32 \<Rightarrow> bool" where
  "apart p q = (12 \<le> p - q \<and> 12 \<le> q - p)"

lemma span_of: "(x :: u32) - p < 12 \<longleftrightarrow> (\<exists>i. i < 12 \<and> x = p + i)"
  by (metis add_diff_cancel_left' diff_add_cancel add.commute)

lemma header_cong:
  assumes "\<And>i. i < 12 \<Longrightarrow> m' (p + i) = m (p + i)"
  shows "header m' p = header m p"
proof -
  have b: "m' p = m p" "m' (p + 1) = m (p + 1)" "m' (p + 2) = m (p + 2)" "m' (p + 3) = m (p + 3)"
    "m' (p + 4) = m (p + 4)" "m' (p + 5) = m (p + 5)" "m' (p + 6) = m (p + 6)" "m' (p + 7) = m (p + 7)"
    "m' (p + 8) = m (p + 8)" "m' (p + 9) = m (p + 9)" "m' (p + 10) = m (p + 10)" "m' (p + 11) = m (p + 11)"
    using assms [of 0] assms [of 1] assms [of 2] assms [of 3] assms [of 4] assms [of 5] assms [of 6] assms [of 7]
      assms [of 8] assms [of 9] assms [of 10] assms [of 11] by simp_all
  then show ?thesis by (simp add: header_def field_defs get_half_def get_word_def add.assoc)
qed

lemma set_outside:
  assumes "\<not> a - p < 12"
  shows "set_magic p h m a = m a" "set_used p h m a = m a" "set_mem_next p w m a = m a" "set_mem_prev p w m a = m a"
proof -
  have "a \<noteq> p + i" if "i < 12" for i using assms that by (auto simp: span_of)
  from this [of 0] this [of 1] this [of 2] this [of 3] this [of 4] this [of 5] this [of 6] this [of 7]
    this [of 8] this [of 9] this [of 10] this [of 11]
  show "set_magic p h m a = m a" "set_used p h m a = m a" "set_mem_next p w m a = m a" "set_mem_prev p w m a = m a"
    by (simp_all add: field_defs put_half_def put_word_def add.assoc)
qed

lemma no_wrap:
  assumes "12 \<le> d" and "12 \<le> 0 - d" and "i < 12"
  shows "\<not> d + i < (12 :: u32)"
proof -
  have d: "12 \<le> unat d" using assms(1) by (simp add: word_le_nat_alt)
  then have "unat (0 - d) = 2 ^ 32 - unat d" by (subst unat_sub_if') simp
  then have "unat d + 12 \<le> 2 ^ 32" using assms(2) unsigned_less [of d] by (simp add: word_le_nat_alt)
  moreover have "unat i < 12" using assms(3) by (simp add: word_less_nat_alt)
  ultimately have "unat (d + i) = unat d + unat i" using unat_add_lem [of d i] by simp
  then show ?thesis using d by (simp add: word_less_nat_alt)
qed

lemma apart_outside:
  assumes "apart p q" and "(i :: u32) < 12"
  shows "\<not> q + i - p < 12"
proof -
  have "q + i - p = (q - p) + i" "p - q = 0 - (q - p)" by simp_all
  then show ?thesis using assms no_wrap [of "q - p" i] unfolding apart_def by metis
qed

lemma apart_fields:
  assumes "apart p q"
  shows "header (set_magic p h m) q = header m q" "header (set_used p h m) q = header m q"
    "header (set_mem_next p w m) q = header m q" "header (set_mem_prev p w m) q = header m q"
  by (rule header_cong, rule set_outside, erule apart_outside [OF assms])+

text \<open>The same for single fields; \<open>headers\<close> collects what symbolic execution over headers needs.\<close>

named_theorems headers

lemma apart_field [headers]:
  assumes "apart p q"
  shows "mem_magic q (set_magic p h m) = mem_magic q m" "mem_magic q (set_used p h m) = mem_magic q m"
    "mem_magic q (set_mem_next p w m) = mem_magic q m" "mem_magic q (set_mem_prev p w m) = mem_magic q m"
    "mem_used q (set_magic p h m) = mem_used q m" "mem_used q (set_used p h m) = mem_used q m"
    "mem_used q (set_mem_next p w m) = mem_used q m" "mem_used q (set_mem_prev p w m) = mem_used q m"
    "mem_next q (set_magic p h m) = mem_next q m" "mem_next q (set_used p h m) = mem_next q m"
    "mem_next q (set_mem_next p w m) = mem_next q m" "mem_next q (set_mem_prev p w m) = mem_next q m"
    "mem_prev q (set_magic p h m) = mem_prev q m" "mem_prev q (set_used p h m) = mem_prev q m"
    "mem_prev q (set_mem_next p w m) = mem_prev q m" "mem_prev q (set_mem_prev p w m) = mem_prev q m"
  using apart_fields [OF assms, of _ m] by (simp_all add: header_def)

lemma on_mem_simps [headers]:
  "h_mem (on_mem f h) = f (h_mem h)" "heap_ptr (on_mem f h) = heap_ptr h" "heap_end (on_mem f h) = heap_end h"
  "lfree (on_mem f h) = lfree h" "heap_sem (on_mem f h) = heap_sem h" "mem_size_aligned (on_mem f h) = mem_size_aligned h"
  "used_mem (on_mem f h) = used_mem h" "max_mem (on_mem f h) = max_mem h"
  by (simp_all add: on_mem_def)

section \<open>Blocks\<close>

type_synonym blocks = "(nat \<times> bool) list"

fun span :: "blocks \<Rightarrow> nat" where
  "span [] = 0" | "span ((n, u) # bs) = 12 + n + span bs"

text \<open>The offsets of the headers, the first at \<open>off\<close>.\<close>

fun heads :: "nat \<Rightarrow> blocks \<Rightarrow> nat list" where
  "heads off [] = []" | "heads off ((n, u) # bs) = off # heads (off + 12 + n) bs"

text \<open>The headers of the blocks from offset \<open>off\<close> on, where the block before starts at \<open>pr\<close>.\<close>

fun seg :: "memory \<Rightarrow> u32 \<Rightarrow> nat \<Rightarrow> nat \<Rightarrow> blocks \<Rightarrow> bool" where
  "seg m b pr off [] = True"
| "seg m b pr off ((n, u) # bs) =
    (header m (b + of_nat off) = (HEAP_MAGIC, if u then 1 else 0, of_nat (off + 12 + n), of_nat pr) \<and>
     seg m b off (off + 12 + n) bs)"

fun last_head :: "nat \<Rightarrow> nat \<Rightarrow> blocks \<Rightarrow> nat" where
  "last_head pr off [] = pr" | "last_head pr off ((n, u) # bs) = last_head off (off + 12 + n) bs"

lemma span_append [simp]: "span (xs @ ys) = span xs + span ys"
  by (induction xs rule: span.induct) auto

lemma heads_append [simp]: "heads off (xs @ ys) = heads off xs @ heads (off + span xs) ys"
  by (induction off xs rule: heads.induct) (auto simp: add.assoc)

lemma segs_append: "seg m b pr off (xs @ ys) \<longleftrightarrow> seg m b pr off xs \<and> seg m b (last_head pr off xs) (off + span xs) ys"
  by (induction m b pr off xs rule: seg.induct) (auto simp: add.assoc)

lemma last_head_append: "last_head pr off (xs @ [(n, u)]) = off + span xs"
  by (induction pr off xs rule: last_head.induct) auto

lemma heads_range: "j \<in> set (heads off bs) \<Longrightarrow> off \<le> j \<and> j + 12 \<le> off + span bs"
  by (induction off bs rule: heads.induct) fastforce+

lemma seg_cong:
  "(\<And>j. j \<in> set (heads off bs) \<Longrightarrow> header m' (b + of_nat j) = header m (b + of_nat j)) \<Longrightarrow> seg m' b pr off bs = seg m b pr off bs"
  by (induction m b pr off bs rule: seg.induct) auto

lemma apart_offsets:
  assumes "i + 12 \<le> j \<or> j + 12 \<le> i" and "i + 12 \<le> 2 ^ 32" and "j + 12 \<le> 2 ^ 32"
  shows "apart (b + of_nat i) (b + of_nat j)"
proof -
  have gap: "12 \<le> (of_nat (y - x) :: u32) \<and> 12 \<le> - (of_nat (y - x) :: u32)" if "x + 12 \<le> y" "y + 12 \<le> 2 ^ 32" for x y :: nat
  proof -
    have u: "unat (of_nat (y - x) :: u32) = y - x" using that by (simp add: unat_of_nat del: of_nat_diff)
    then have "unat (0 - (of_nat (y - x) :: u32)) = 2 ^ 32 - (y - x)" using that by (subst unat_sub_if') (simp del: of_nat_diff)
    then show ?thesis using u that by (simp add: word_le_nat_alt del: of_nat_diff) arith
  qed
  have e: "(b + of_nat x) - (b + of_nat y) = - (of_nat (y - x) :: u32)" "(b + of_nat y) - (b + of_nat x) = of_nat (y - x)" if "x \<le> y" for x y
    using that by (simp_all add: of_nat_diff)
  show ?thesis using assms(1)
  proof
    assume "i + 12 \<le> j"
    then show ?thesis using gap [of i j] e [of i j] assms(3) by (simp add: apart_def)
  next
    assume "j + 12 \<le> i"
    then show ?thesis using gap [of j i] e [of j i] assms(2) by (simp add: apart_def)
  qed
qed

text \<open>A header that is not among those of a segment may be changed.\<close>

lemma seg_set [headers]:
  assumes "\<And>j. j \<in> set (heads off bs) \<Longrightarrow> apart p (b + of_nat j)"
  shows "seg (set_magic p h m) b pr off bs = seg m b pr off bs" "seg (set_used p h m) b pr off bs = seg m b pr off bs"
    "seg (set_mem_next p w m) b pr off bs = seg m b pr off bs" "seg (set_mem_prev p w m) b pr off bs = seg m b pr off bs"
  by (rule seg_cong, rule apart_fields, erule assms)+

text \<open>Changing one header of a list of blocks, and the link back to it.\<close>

lemma seg_mid:
  "seg m b 0 0 (xs @ (n, u) # ys) \<longleftrightarrow> seg m b 0 0 xs \<and>
     header m (b + of_nat (span xs)) = (HEAP_MAGIC, if u then 1 else 0, of_nat (span xs + 12 + n), of_nat (last_head 0 0 xs)) \<and>
     seg m b (span xs) (span xs + 12 + n) ys"
  by (simp add: segs_append)

text \<open>Writes at offset \<open>o\<close> do not touch the blocks that end before it or begin after it.\<close>

lemma seg_below:
  assumes "span xs \<le> q" and "q + 12 \<le> 2 ^ 32"
  shows "j \<in> set (heads 0 xs) \<Longrightarrow> apart (b + of_nat q) (b + of_nat j)"
  using heads_range [of j 0 xs] assms by (intro apart_offsets) auto

lemma seg_above:
  assumes "q + 12 \<le> off" and "off + span ys \<le> 2 ^ 32"
  shows "j \<in> set (heads off ys) \<Longrightarrow> apart (b + of_nat q) (b + of_nat j)"
  using heads_range [of j off ys] assms by (intro apart_offsets) auto

lemma seg_set_prev:
  assumes "seg m b pr off ys" and "off + span ys + 12 \<le> 2 ^ 32"
  shows "seg (set_mem_prev (b + of_nat off) (of_nat pr') m) b pr' off ys"
proof (cases ys)
  case (Cons y zs)
  obtain n u where y: "y = (n, u)" by fastforce
  have "seg (set_mem_prev (b + of_nat off) (of_nat pr') m) b off (off + 12 + n) zs = seg m b off (off + 12 + n) zs"
    by (rule seg_set, rule seg_above) (use assms(2) Cons y in auto)
  then show ?thesis using assms(1) Cons y by (simp add: header_def)
qed simp

definition join_at :: "u32 \<Rightarrow> nat \<Rightarrow> nat \<Rightarrow> memory \<Rightarrow> memory" where
  "join_at b off off3 m = set_mem_prev (b + of_nat off3) (of_nat off) (set_mem_next (b + of_nat off) (of_nat off3) m)"

lemma join_seg:
  assumes s: "seg m b 0 0 (xs @ (n, u) # (k, v) # ys)" and l: "span (xs @ (n, u) # (k, v) # ys) + 12 \<le> 2 ^ 32"
  shows "seg (join_at b (span xs) (span xs + 12 + n + 12 + k) m) b 0 0 (xs @ (n + 12 + k, u) # ys)"
proof -
  let ?o = "span xs" and ?o3 = "span xs + 12 + n + 12 + k"
  let ?m1 = "set_mem_next (b + of_nat ?o) (of_nat ?o3) m"
  have lim: "?o + 12 \<le> 2 ^ 32" "?o3 + span ys + 12 \<le> 2 ^ 32" using l by auto
  have m: "seg m b 0 0 xs" "header m (b + of_nat ?o) = (HEAP_MAGIC, if u then 1 else 0, of_nat (?o + 12 + n), of_nat (last_head 0 0 xs))"
    "seg m b (?o + 12 + n) ?o3 ys"
    using s by (simp_all add: seg_mid add.assoc)
  have ap: "apart (b + of_nat ?o3) (b + of_nat ?o)" using lim by (intro apart_offsets) auto
  have "seg (join_at b ?o ?o3 m) b 0 0 xs"
  proof -
    have "seg (join_at b ?o ?o3 m) b 0 0 xs = seg ?m1 b 0 0 xs"
      unfolding join_at_def by (rule seg_set, rule seg_below) (use lim in auto)
    also have "\<dots> = seg m b 0 0 xs" by (rule seg_set, rule seg_below) (use lim in auto)
    finally show ?thesis using m(1) by simp
  qed
  moreover have "header (join_at b ?o ?o3 m) (b + of_nat ?o) = (HEAP_MAGIC, if u then 1 else 0, of_nat ?o3, of_nat (last_head 0 0 xs))"
    using m(2) ap by (simp add: join_at_def header_def headers)
  moreover have "seg (join_at b ?o ?o3 m) b ?o ?o3 ys"
    unfolding join_at_def
  proof (rule seg_set_prev)
    have "seg ?m1 b (?o + 12 + n) ?o3 ys = seg m b (?o + 12 + n) ?o3 ys"
      by (rule seg_set, rule seg_above) (use lim in auto)
    then show "seg ?m1 b (?o + 12 + n) ?o3 ys" using m(3) by simp
  qed (use lim in auto)
  ultimately show ?thesis by (simp add: seg_mid add.assoc)
qed

section \<open>The shape of a heap\<close>

definition shape :: "heap \<Rightarrow> blocks \<Rightarrow> bool" where
  "shape h bs = (seg (h_mem h) (heap_ptr h) 0 0 bs \<and> span bs = unat (mem_size_aligned h) + 12 \<and>
     heap_end h = heap_ptr h + of_nat (span bs) \<and> unat (heap_ptr h) + span bs + 12 \<le> 2 ^ 32)"

text \<open>\<open>same_heap\<close>: everything but the memory and the pointer to the first free block.\<close>

definition same_heap :: "heap \<Rightarrow> heap \<Rightarrow> bool" where
  "same_heap h h' = (heap_ptr h' = heap_ptr h \<and> heap_end h' = heap_end h \<and> heap_sem h' = heap_sem h \<and>
     mem_size_aligned h' = mem_size_aligned h \<and> used_mem h' = used_mem h \<and> max_mem h' = max_mem h)"

lemma block_at:
  assumes "shape h (xs @ (n, u) # ys)"
  defines "p \<equiv> heap_ptr h + of_nat (span xs)"
  shows "mem_magic p (h_mem h) = HEAP_MAGIC" "mem_used p (h_mem h) = (if u then 1 else 0)"
    "mem_next p (h_mem h) = of_nat (span xs + 12 + n)" "mem_prev p (h_mem h) = of_nat (last_head 0 0 xs)"
  using assms by (auto simp: shape_def seg_mid header_def)

lemma apart_neq: "apart p q \<Longrightarrow> p \<noteq> q"
  by (auto simp: apart_def)

lemma shape_apart:
  assumes "shape h bs" and "i \<in> set (heads 0 bs @ [span bs])" and "j \<in> set (heads 0 bs @ [span bs])" and "i + 12 \<le> j \<or> j + 12 \<le> i"
  shows "apart (heap_ptr h + of_nat i) (heap_ptr h + of_nat j)"
  using assms heads_range [of i 0 bs] heads_range [of j 0 bs] by (intro apart_offsets) (auto simp: shape_def)

lemma shape_neq:
  assumes "shape h bs" and "i \<in> set (heads 0 bs @ [span bs])" and "j \<in> set (heads 0 bs @ [span bs])" and "i + 12 \<le> j \<or> j + 12 \<le> i"
  shows "heap_ptr h + of_nat i \<noteq> heap_ptr h + of_nat j"
  using apart_neq [OF shape_apart [OF assms]] .

lemma shape_join:
  assumes s: "shape h (xs @ (n, u) # (k, v) # ys)"
    and m: "h_mem h' = join_at (heap_ptr h) (span xs) (span xs + 12 + n + 12 + k) (h_mem h)" and r: "same_heap h h'"
  shows "shape h' (xs @ (n + 12 + k, u) # ys)"
proof -
  have l: "span (xs @ (n, u) # (k, v) # ys) + 12 \<le> 2 ^ 32" using s by (auto simp: shape_def)
  have "seg (h_mem h) (heap_ptr h) 0 0 (xs @ (n, u) # (k, v) # ys)" using s by (simp add: shape_def)
  from join_seg [OF this l] s r m show ?thesis by (auto simp: shape_def same_heap_def)
qed

text \<open>Joining with the block after it.\<close>

lemma plug_forward_joins:
  assumes s: "shape h (xs @ (n, False) # (k, False) # ys)"
  defines "p \<equiv> heap_ptr h + of_nat (span xs)" and "q \<equiv> heap_ptr h + of_nat (span xs + 12 + n)"
  shows "plug_forward p h = (h\<lparr>lfree := if lfree h = q then p else lfree h,
    h_mem := join_at (heap_ptr h) (span xs) (span xs + 12 + n + 12 + k) (h_mem h)\<rparr>)"
proof -
  have pq: "apart p q" unfolding p_def q_def by (rule shape_apart [OF s]) auto
  have qe: "q \<noteq> heap_end h"
  proof -
    have "q \<noteq> heap_ptr h + of_nat (span (xs @ (n, False) # (k, False) # ys))"
      unfolding q_def by (rule shape_neq [OF s]) auto
    then show ?thesis using s unfolding shape_def by metis
  qed
  have bp: "mem_next p (h_mem h) = of_nat (span xs + 12 + n)" using block_at [OF s] by (simp add: p_def)
  have s2: "shape h ((xs @ [(n, False)]) @ (k, False) # ys)" using s by simp
  have off: "of_nat (span (xs @ [(n, False)])) = (of_nat (span xs + 12 + n) :: u32)" by (simp add: add.assoc)
  have bq: "mem_used q (h_mem h) = 0" "mem_next q (h_mem h) = of_nat (span xs + 12 + n + 12 + k)"
    using block_at [OF s2] unfolding off q_def [symmetric] by (simp_all add: add_ac)
  have at: "at_offset h (mem_next p (h_mem h)) = q" by (simp add: at_offset_def bp q_def)
  have pm: "p - heap_ptr h = of_nat (span xs)" by (simp add: p_def)
  show ?thesis
    using apart_neq [OF pq] qe bq pm pq
    unfolding plug_forward_def Let_def at
    by (simp add: headers join_at_def on_mem_def at_offset_def p_def [symmetric])
qed

lemma plug_forward_stops:
  assumes s: "shape h (xs @ (n, u) # ys)" and y: "ys = [] \<or> snd (hd ys)"
  shows "plug_forward (heap_ptr h + of_nat (span xs)) h = h"
proof -
  let ?p = "heap_ptr h + of_nat (span xs)"
  have at: "at_offset h (mem_next ?p (h_mem h)) = heap_ptr h + of_nat (span xs + 12 + n)"
    using block_at [OF s] by (simp add: at_offset_def)
  show ?thesis
  proof (cases ys)
    case Nil
    then have "heap_end h = heap_ptr h + of_nat (span xs + 12 + n)" using s by (simp add: shape_def add.assoc)
    then show ?thesis by (simp only: plug_forward_def Let_def at) simp
  next
    case (Cons y zs)
    then obtain k where k: "y = (k, True)" using y by (cases y) auto
    have "shape h ((xs @ [(n, u)]) @ (k, True) # zs)" using s Cons k by simp
    from block_at(2) [OF this] have "mem_used (heap_ptr h + of_nat (span xs + 12 + n)) (h_mem h) = 1" by (simp add: add.assoc)
    then show ?thesis by (simp only: plug_forward_def Let_def at) simp
  qed
qed

text \<open>Joining with the block before it.\<close>

lemma plug_backward_joins:
  assumes s: "shape h (xs @ (n, False) # (k, False) # ys)"
  defines "p \<equiv> heap_ptr h + of_nat (span xs)" and "q \<equiv> heap_ptr h + of_nat (span xs + 12 + n)"
  shows "plug_backward q h = (h\<lparr>lfree := if lfree h = q then p else lfree h,
    h_mem := join_at (heap_ptr h) (span xs) (span xs + 12 + n + 12 + k) (h_mem h)\<rparr>)"
proof -
  have pq: "apart p q" unfolding p_def q_def by (rule shape_apart [OF s]) auto
  have bp: "mem_used p (h_mem h) = 0" using block_at [OF s] by (simp add: p_def)
  have s2: "shape h ((xs @ [(n, False)]) @ (k, False) # ys)" using s by simp
  have off: "of_nat (span (xs @ [(n, False)])) = (of_nat (span xs + 12 + n) :: u32)" by (simp add: add.assoc)
  have bq: "mem_prev q (h_mem h) = of_nat (span xs)" "mem_next q (h_mem h) = of_nat (span xs + 12 + n + 12 + k)"
    using block_at [OF s2] unfolding off q_def [symmetric] by (simp_all add: add_ac last_head_append)
  have at: "at_offset h (mem_prev q (h_mem h)) = p" by (simp add: at_offset_def bq p_def)
  have pm: "p - heap_ptr h = of_nat (span xs)" by (simp add: p_def)
  show ?thesis
    using apart_neq [OF pq] bp bq pm pq
    unfolding plug_backward_def Let_def at
    by (simp add: headers join_at_def on_mem_def at_offset_def p_def [symmetric])
qed

lemma plug_backward_stops:
  assumes s: "shape h (xs @ (n, u) # ys)" and x: "xs = [] \<or> snd (last xs)"
  shows "plug_backward (heap_ptr h + of_nat (span xs)) h = h"
proof (cases xs rule: rev_cases)
  case Nil
  then have "at_offset h (mem_prev (heap_ptr h) (h_mem h)) = heap_ptr h"
    using block_at(4) [OF s] by (simp add: at_offset_def)
  then show ?thesis using Nil by (simp add: plug_backward_def)
next
  case (snoc zs z)
  then obtain k where k: "z = (k, True)" using x by (cases z) auto
  have at: "at_offset h (mem_prev (heap_ptr h + of_nat (span xs)) (h_mem h)) = heap_ptr h + of_nat (span zs)"
    using block_at(4) [OF s] snoc k by (simp add: at_offset_def last_head_append)
  have "shape h (zs @ (k, True) # (n, u) # ys)" using s snoc k by simp
  from block_at(2) [OF this] have "mem_used (heap_ptr h + of_nat (span zs)) (h_mem h) = 1" by simp
  then show ?thesis by (simp only: plug_backward_def Let_def at) simp
qed

section \<open>Joining, on the list\<close>

definition push :: "nat \<times> bool \<Rightarrow> blocks \<Rightarrow> blocks" where
  "push b cs = (case cs of c # cs' \<Rightarrow> if snd b \<or> snd c then b # cs else (fst b + 12 + fst c, False) # cs' | [] \<Rightarrow> [b])"

primrec join :: "blocks \<Rightarrow> blocks" where
  "join [] = []" | "join (b # bs) = push b (join bs)"

text \<open>No two free neighbours.\<close>

fun joined :: "blocks \<Rightarrow> bool" where
  "joined (a # b # bs) = ((snd a \<or> snd b) \<and> joined (b # bs))" | "joined _ = True"

text \<open>The offset of the first free block, or the end.\<close>

fun first_free :: "nat \<Rightarrow> blocks \<Rightarrow> nat" where
  "first_free off [] = off" | "first_free off ((n, u) # bs) = (if u then first_free (off + 12 + n) bs else off)"

fun used_span :: "blocks \<Rightarrow> nat" where
  "used_span [] = 0" | "used_span ((n, u) # bs) = (if u then 12 + n else 0) + used_span bs"

lemma push_cases:
  obtains "push b cs = b # cs" "cs = [] \<or> snd b \<or> snd (hd cs)"
  | k cs' where "cs = (k, False) # cs'" "\<not> snd b" "push b cs = (fst b + 12 + k, False) # cs'"
proof (cases cs)
  case (Cons c cs')
  obtain k v where c: "c = (k, v)" by fastforce
  show ?thesis
  proof (cases "snd b \<or> v")
    case True
    with that(1) Cons c show ?thesis by (simp add: push_def)
  next
    case False
    with that(2) [of k cs'] Cons c show ?thesis by (simp add: push_def)
  qed
qed (use that in \<open>simp add: push_def\<close>)

lemma joined_cons: "joined (b # bs) \<longleftrightarrow> (bs = [] \<or> snd b \<or> snd (hd bs)) \<and> joined bs"
  by (cases bs) auto

lemma joined_append: "joined (xs @ ys) \<longleftrightarrow> joined xs \<and> joined ys \<and> (xs = [] \<or> ys = [] \<or> snd (last xs) \<or> snd (hd ys))"
  by (induction xs rule: joined.induct) (auto simp: joined_cons)

lemma push_joined: "cs = [] \<or> snd b \<or> snd (hd cs) \<Longrightarrow> push b cs = b # cs"
  by (cases cs) (auto simp: push_def)

lemma span_cons: "span (b # bs) = 12 + fst b + span bs" "heads off (b # bs) = off # heads (off + 12 + fst b) bs"
  "used_span (b # bs) = (if snd b then 12 + fst b else 0) + used_span bs"
  "first_free off (b # bs) = (if snd b then first_free (off + 12 + fst b) bs else off)"
  by (cases b; simp)+

lemma push_facts:
  "span (push b cs) = span (b # cs)" "used_span (push b cs) = used_span (b # cs)"
  "first_free off (push b cs) = first_free off (b # cs)" "set (heads off (push b cs)) \<subseteq> set (heads off (b # cs))"
  "joined cs \<Longrightarrow> joined (push b cs)" "push b cs \<noteq> []"
proof -
  have "span (push b cs) = span (b # cs) \<and> used_span (push b cs) = used_span (b # cs) \<and>
    first_free off (push b cs) = first_free off (b # cs) \<and> set (heads off (push b cs)) \<subseteq> set (heads off (b # cs)) \<and>
    (joined cs \<longrightarrow> joined (push b cs)) \<and> push b cs \<noteq> []"
  proof (cases b cs rule: push_cases)
    case 1
    then show ?thesis by (auto simp: joined_cons)
  next
    case (2 k cs')
    then show ?thesis by (auto simp: span_cons joined_cons add_ac)
  qed
  then show "span (push b cs) = span (b # cs)" "used_span (push b cs) = used_span (b # cs)"
    "first_free off (push b cs) = first_free off (b # cs)" "set (heads off (push b cs)) \<subseteq> set (heads off (b # cs))"
    "joined cs \<Longrightarrow> joined (push b cs)" "push b cs \<noteq> []" by blast+
qed

lemma span_join [simp]: "span (join bs) = span bs"
  by (induction bs) (auto simp: push_facts span_cons)

lemma used_span_join [simp]: "used_span (join bs) = used_span bs"
  by (induction bs) (auto simp: push_facts span_cons)

lemma used_span_append [simp]: "used_span (xs @ ys) = used_span xs + used_span ys"
  by (induction xs) (auto simp: span_cons)

lemma used_span_le: "used_span bs \<le> span bs"
  by (induction bs) (auto simp: span_cons)

lemma first_free_join [simp]: "first_free off (join bs) = first_free off bs"
  by (induction bs arbitrary: off) (auto simp: push_facts span_cons)

lemma heads_join: "set (heads off (join bs)) \<subseteq> set (heads off bs)"
proof (induction bs arbitrary: off)
  case (Cons b bs)
  have "set (heads off (join (b # bs))) \<subseteq> set (heads off (b # join bs))" using push_facts(4) by simp
  also have "\<dots> \<subseteq> set (heads off (b # bs))" using Cons.IH by (auto simp: span_cons)
  finally show ?case .
qed simp

lemma joined_of_join: "joined (join bs)"
  by (induction bs) (auto simp: push_facts)

lemma joined_join: "joined bs \<Longrightarrow> join bs = bs"
  by (induction bs) (auto simp: joined_cons push_joined)

lemma join_prefix:
  "joined xs \<Longrightarrow> xs = [] \<or> ys = [] \<or> snd (last xs) \<or> snd (hd ys) \<Longrightarrow> join (xs @ ys) = xs @ join ys"
proof (induction xs)
  case (Cons x xs)
  show ?case
  proof (cases "xs = []")
    case True
    have "snd (hd ys) \<Longrightarrow> ys \<noteq> [] \<Longrightarrow> snd (hd (join ys))" by (cases ys) (auto simp: push_def split: list.splits)
    then show ?thesis using True Cons.prems by (cases "ys = []") (auto intro!: push_joined)
  next
    case False
    then show ?thesis using Cons by (auto simp: joined_cons intro!: push_joined)
  qed
qed simp

lemma first_free_le: "first_free off bs \<le> off + span bs"
proof (induction bs arbitrary: off)
  case (Cons b bs)
  then show ?case using Cons.IH [of "off + 12 + fst b"] by (simp add: span_cons add.assoc)
qed simp

lemma first_free_append:
  "first_free off (xs @ ys) = (if first_free off xs < off + span xs then first_free off xs else first_free (off + span xs) ys)"
  by (induction xs arbitrary: off) (auto simp: span_cons add.assoc)

text \<open>Memory outside the headers of a list of blocks, and of what comes after it.\<close>

definition outside :: "u32 \<Rightarrow> blocks \<Rightarrow> u32 \<Rightarrow> bool" where
  "outside b bs a = (\<forall>j \<in> set (heads 0 bs @ [span bs]). \<not> a - (b + of_nat j) < 12)"

lemma outside_join: "outside b bs a \<Longrightarrow> outside b (join bs) a"
  using heads_join [of 0 bs] by (auto simp: outside_def)

lemma join_at_outside:
  assumes "outside b bs a" and "i \<in> set (heads 0 bs @ [span bs])" and "j \<in> set (heads 0 bs @ [span bs])"
  shows "join_at b i j m a = m a"
proof -
  have "\<not> a - (b + of_nat i) < 12" "\<not> a - (b + of_nat j) < 12" using assms unfolding outside_def by blast+
  then show ?thesis by (simp add: join_at_def set_outside)
qed

lemma head_in: "span xs \<in> set (heads 0 (xs @ (n, u) # ys))"
  by simp

lemma next_head_in: "span xs + 12 + n \<in> set (heads 0 (xs @ (n, u) # ys) @ [span (xs @ (n, u) # ys)])"
  by (cases ys) auto

text \<open>\<^verbatim>\<open>plug_holes\<close> joins the blocks, if no others were to be joined.\<close>

lemma plug_forward_ok:
  assumes s: "shape h (xs @ (n, False) # ys)" and y: "joined ys" and l: "lfree h = heap_ptr h + of_nat (first_free 0 (xs @ (n, False) # ys))"
  defines "h' \<equiv> plug_forward (heap_ptr h + of_nat (span xs)) h"
  shows "\<exists>n' ys'. join ((n, False) # ys) = (n', False) # ys' \<and> joined ys' \<and> (ys' = [] \<or> snd (hd ys')) \<and>
    shape h' (xs @ (n', False) # ys') \<and> same_heap h h' \<and> lfree h' = lfree h \<and>
    (\<forall>a. outside (heap_ptr h) (xs @ (n, False) # ys) a \<longrightarrow> h_mem h' a = h_mem h a)"
proof (cases "ys = [] \<or> snd (hd ys)")
  case True
  then have "h' = h" using plug_forward_stops [OF s] by (simp add: h'_def)
  then show ?thesis using True y s by (auto simp: joined_join push_joined same_heap_def)
next
  case False
  then obtain k zs where ys: "ys = (k, False) # zs" by (metis list.collapse prod.collapse)
  have z: "zs = [] \<or> snd (hd zs)" "joined zs" using y ys by (auto simp: joined_cons)
  note s' = s [unfolded ys]
  let ?q = "heap_ptr h + of_nat (span xs + 12 + n)"
  have lq: "lfree h \<noteq> ?q"
  proof -
    have "first_free 0 (xs @ (n, False) # ys) \<le> span xs" using first_free_le [of 0 xs] by (simp add: first_free_append span_cons)
    moreover have "first_free 0 (xs @ (n, False) # ys) + 12 + n \<le> span xs + 12 + n" using calculation by simp
    moreover have "span xs + 12 + n + 12 \<le> 2 ^ 32" using s' by (auto simp: shape_def)
    ultimately have "apart (heap_ptr h + of_nat (first_free 0 (xs @ (n, False) # ys))) ?q" by (intro apart_offsets) auto
    then show ?thesis using l apart_neq by metis
  qed
  have h': "h' = h\<lparr>lfree := lfree h, h_mem := join_at (heap_ptr h) (span xs) (span xs + 12 + n + 12 + k) (h_mem h)\<rparr>"
    using plug_forward_joins [OF s'] lq by (simp add: h'_def)
  have sh: "same_heap h h'" by (simp add: h' same_heap_def)
  have "shape h' (xs @ (n + 12 + k, False) # zs)" by (rule shape_join [OF s' _ sh]) (simp add: h')
  moreover have "h_mem h' a = h_mem h a" if "outside (heap_ptr h) (xs @ (n, False) # ys) a" for a
  proof -
    have "span xs + 12 + n + 12 + k \<in> set (heads 0 (xs @ (n, False) # ys) @ [span (xs @ (n, False) # ys)])"
      using next_head_in [of "xs @ [(n, False)]" k False zs] by (simp add: ys add_ac)
    then show ?thesis using join_at_outside [OF that, of "span xs"] by (simp add: h')
  qed
  moreover have "join ((n, False) # ys) = (n + 12 + k, False) # zs"
    using z by (simp add: ys joined_join push_joined) (simp add: push_def)
  ultimately show ?thesis using z sh h' by auto
qed

lemma plug_backward_ok:
  assumes s: "shape h (xs @ (n, False) # ys)" and x: "joined xs" and l: "lfree h = heap_ptr h + of_nat (first_free 0 (xs @ (n, False) # ys))"
    and y: "joined ys" "ys = [] \<or> snd (hd ys)"
  defines "h' \<equiv> plug_backward (heap_ptr h + of_nat (span xs)) h"
  shows "shape h' (join (xs @ (n, False) # ys)) \<and> same_heap h h' \<and> lfree h' = lfree h \<and>
    (\<forall>a. outside (heap_ptr h) (xs @ (n, False) # ys) a \<longrightarrow> h_mem h' a = h_mem h a)"
proof (cases "xs = [] \<or> snd (last xs)")
  case True
  then have "h' = h" using plug_backward_stops [OF s] by (simp add: h'_def)
  moreover have "join (xs @ (n, False) # ys) = xs @ (n, False) # ys"
    using True x y by (subst joined_join) (auto simp: joined_append joined_cons)
  ultimately show ?thesis using s by (simp add: same_heap_def)
next
  case False
  then obtain zs k where xs: "xs = zs @ [(k, False)]" by (metis append_butlast_last_id prod.collapse)
  have z: "zs = [] \<or> snd (last zs)" "joined zs" using x xs by (auto simp: joined_append)
  have s': "shape h (zs @ (k, False) # (n, False) # ys)" using s xs by simp
  let ?q = "heap_ptr h + of_nat (span zs + 12 + k)"
  have sx: "span xs = span zs + 12 + k" by (simp add: xs span_cons)
  have lq: "lfree h \<noteq> ?q"
  proof -
    have "first_free 0 (xs @ (n, False) # ys) \<le> span zs" using first_free_le [of 0 zs] by (simp add: xs first_free_append span_cons)
    moreover have "span zs + 12 + k + 12 \<le> 2 ^ 32" using s' by (auto simp: shape_def)
    ultimately have "apart (heap_ptr h + of_nat (first_free 0 (xs @ (n, False) # ys))) ?q" by (intro apart_offsets) auto
    then show ?thesis using l apart_neq by metis
  qed
  have h': "h' = h\<lparr>lfree := lfree h, h_mem := join_at (heap_ptr h) (span zs) (span zs + 12 + k + 12 + n) (h_mem h)\<rparr>"
    using plug_backward_joins [OF s'] lq by (simp add: h'_def sx)
  have sh: "same_heap h h'" by (simp add: h' same_heap_def)
  have "shape h' (zs @ (k + 12 + n, False) # ys)" by (rule shape_join [OF s' _ sh]) (simp add: h')
  moreover have "join (xs @ (n, False) # ys) = zs @ (k + 12 + n, False) # ys"
  proof -
    have "join (xs @ (n, False) # ys) = join (zs @ (k, False) # (n, False) # ys)" by (simp add: xs)
    also have "\<dots> = zs @ join ((k, False) # (n, False) # ys)"
    proof (cases zs rule: rev_cases)
      case (snoc ws w)
      then have "snd w" using z by simp
      then show ?thesis using join_prefix [OF z(2), of "(k, False) # (n, False) # ys"] snoc by simp
    qed simp
    also have "join ((k, False) # (n, False) # ys) = (k + 12 + n, False) # ys"
      using y by (simp add: joined_join push_joined) (simp add: push_def)
    finally show ?thesis .
  qed
  moreover have "h_mem h' a = h_mem h a" if "outside (heap_ptr h) (xs @ (n, False) # ys) a" for a
  proof -
    have "span zs \<in> set (heads 0 (xs @ (n, False) # ys) @ [span (xs @ (n, False) # ys)])" by (simp add: xs)
    moreover have "span zs + 12 + k + 12 + n \<in> set (heads 0 (xs @ (n, False) # ys) @ [span (xs @ (n, False) # ys)])"
      using next_head_in [of xs n False ys] by (simp add: sx)
    ultimately show ?thesis using join_at_outside [OF that] by (simp add: h')
  qed
  ultimately show ?thesis using sh h' by simp
qed

lemma plug_holes_ok:
  assumes s: "shape h (xs @ (n, False) # ys)" and j: "joined xs" "joined ys"
    and l: "lfree h = heap_ptr h + of_nat (first_free 0 (xs @ (n, False) # ys))"
  defines "h' \<equiv> plug_holes (heap_ptr h + of_nat (span xs)) h"
  shows "shape h' (join (xs @ (n, False) # ys)) \<and> same_heap h h' \<and> lfree h' = lfree h \<and>
    (\<forall>a. outside (heap_ptr h) (xs @ (n, False) # ys) a \<longrightarrow> h_mem h' a = h_mem h a)"
proof -
  let ?p = "heap_ptr h + of_nat (span xs)"
  define h1 where "h1 = plug_forward ?p h"
  obtain n' ys' where f: "join ((n, False) # ys) = (n', False) # ys'" "joined ys'" "ys' = [] \<or> snd (hd ys')"
    "shape h1 (xs @ (n', False) # ys')" "same_heap h h1" "lfree h1 = lfree h"
    "\<forall>a. outside (heap_ptr h) (xs @ (n, False) # ys) a \<longrightarrow> h_mem h1 a = h_mem h a"
    using plug_forward_ok [OF s j(2) l] unfolding h1_def by blast
  have b: "heap_ptr h1 = heap_ptr h" using f(5) by (simp add: same_heap_def)
  have ff: "first_free 0 (xs @ (n', False) # ys') = first_free 0 (xs @ (n, False) # ys)"
    by (simp add: first_free_append span_cons)
  have jj: "join (xs @ (n', False) # ys') = join (xs @ (n, False) # ys)"
  proof -
    have "join (xs @ ys0) = foldr push xs (join ys0)" for ys0 by (induction xs) simp_all
    moreover have "join ((n', False) # ys') = join ((n, False) # ys)"
      unfolding f(1) [symmetric] by (rule joined_join [OF joined_of_join])
    ultimately show ?thesis by simp
  qed
  have out: "outside (heap_ptr h) (xs @ (n, False) # ys) a \<Longrightarrow> outside (heap_ptr h) (xs @ (n', False) # ys') a" for a
  proof -
    have "set (heads (span xs) ((n', False) # ys')) \<subseteq> set (heads (span xs) ((n, False) # ys))"
      using heads_join [of "span xs" "(n, False) # ys"] f(1) by simp
    then have "set (heads 0 (xs @ (n', False) # ys')) \<subseteq> set (heads 0 (xs @ (n, False) # ys))"
      unfolding heads_append set_append add_0 by blast
    moreover have sp: "span (xs @ (n', False) # ys') = span (xs @ (n, False) # ys)"
      unfolding span_append using f(1) span_join by metis
    ultimately show "outside (heap_ptr h) (xs @ (n, False) # ys) a \<Longrightarrow> outside (heap_ptr h) (xs @ (n', False) # ys') a"
      unfolding outside_def sp set_append by blast
  qed
  have l1: "lfree h1 = heap_ptr h1 + of_nat (first_free 0 (xs @ (n', False) # ys'))" using l f(6) b ff by simp
  have h': "h' = plug_backward (heap_ptr h1 + of_nat (span xs)) h1" by (simp add: h'_def plug_holes_def h1_def [symmetric] b)
  have "shape h' (join (xs @ (n', False) # ys')) \<and> same_heap h1 h' \<and> lfree h' = lfree h1 \<and>
    (\<forall>a. outside (heap_ptr h1) (xs @ (n', False) # ys') a \<longrightarrow> h_mem h' a = h_mem h1 a)"
    unfolding h' by (rule plug_backward_ok [OF f(4) j(1) l1 f(2,3)])
  then show ?thesis using f(5-7) b out jj by (simp add: same_heap_def)
qed

end
