(* ===== verification/Rt_Mem_Ops.thy ===== *)
theory Rt_Mem_Ops
  imports Rt_Mem_Inv
begin

text \<open>
  Allocating, freeing and resizing, on the list of blocks: what each call does to it, that the heap
  stays well-formed, and that the data of blocks in use is not touched.
\<close>

section \<open>Finding a block\<close>

fun fit :: "nat \<Rightarrow> nat \<Rightarrow> nat \<Rightarrow> blocks \<Rightarrow> nat option" where
  "fit lim sz off [] = None"
| "fit lim sz off ((n, u) # bs) =
    (if off < lim then if \<not> u \<and> sz \<le> n then Some off else fit lim sz (off + 12 + n) bs else None)"

lemma fit_beyond: "lim \<le> off \<Longrightarrow> fit lim sz off bs = None"
  by (cases bs) auto

lemma fit_used: "\<forall>b \<in> set xs. snd b \<Longrightarrow> fit lim sz off (xs @ ys) = fit lim sz (off + span xs) ys"
proof (induction xs arbitrary: off)
  case (Cons x xs)
  obtain n u where x: "x = (n, u)" by fastforce
  show ?case
  proof (cases "off < lim")
    case True
    then show ?thesis using Cons x by (simp add: add.assoc)
  next
    case False
    then show ?thesis by (simp add: fit_beyond)
  qed
qed simp

lemma fit_some:
  "fit lim sz off bs = Some q \<Longrightarrow> \<exists>xs n ys. bs = xs @ (n, False) # ys \<and> q = off + span xs \<and> sz \<le> n \<and> q < lim"
proof (induction lim sz off bs rule: fit.induct)
  case (2 lim sz off n u bs)
  show ?case
  proof (cases "\<not> u \<and> sz \<le> n")
    case True
    then show ?thesis using 2(2) by (intro exI [of _ "[]"]) (auto split: if_splits)
  next
    case False
    then have "off < lim" "fit lim sz (off + 12 + n) bs = Some q" using 2(2) by (auto split: if_splits)
    then obtain xs k ys where "bs = xs @ (k, False) # ys" "q = off + 12 + n + span xs" "sz \<le> k" "q < lim"
      using 2(1) False by blast
    then show ?thesis by (intro exI [of _ "(n, u) # xs"]) auto
  qed
qed simp

lemma fit_none: "fit lim sz off (xs @ (n, False) # ys) = None \<Longrightarrow> sz \<le> n \<Longrightarrow> lim \<le> off + span xs"
proof (induction xs arbitrary: off)
  case (Cons x xs)
  obtain k u where x: "x = (k, u)" by fastforce
  show ?case
  proof (cases "off < lim")
    case True
    then have "fit lim sz (off + 12 + k) (xs @ (n, False) # ys) = None" using Cons.prems x by (auto split: if_splits)
    then show ?thesis using Cons.IH [of "off + 12 + k"] Cons.prems(2) x by simp
  qed simp
qed (auto split: if_splits)

lemma first_free_split: "\<exists>xs ys. bs = xs @ ys \<and> (\<forall>b \<in> set xs. snd b) \<and> first_free off bs = off + span xs \<and> (ys = [] \<or> \<not> snd (hd ys))"
proof (induction bs arbitrary: off)
  case (Cons b bs)
  obtain n u where b: "b = (n, u)" by fastforce
  show ?case
  proof (cases u)
    case True
    obtain xs ys where "bs = xs @ ys" "\<forall>b \<in> set xs. snd b" "first_free (off + 12 + n) bs = off + 12 + n + span xs" "ys = [] \<or> \<not> snd (hd ys)"
      using Cons.IH by blast
    then show ?thesis using b True by (intro exI [of _ "b # xs"] exI [of _ ys]) auto
  next
    case False
    then show ?thesis using b by (intro exI [of _ "[]"] exI [of _ "b # bs"]) auto
  qed
qed simp

lemma shape_bounds:
  assumes "shape h (xs @ ys)"
  shows "span xs + span ys = unat (mem_size_aligned h) + 12" "span xs + span ys + 12 \<le> 2 ^ 32"
proof -
  show "span xs + span ys = unat (mem_size_aligned h) + 12" using assms by (simp add: shape_def)
  show "span xs + span ys + 12 \<le> 2 ^ 32" using assms by (auto simp: shape_def)
qed

lemma of_nat_less_u32: "i < 2 ^ 32 \<Longrightarrow> j < 2 ^ 32 \<Longrightarrow> (of_nat i :: u32) < of_nat j \<longleftrightarrow> i < j"
  by (simp add: word_less_nat_alt unat_of_nat)

lemma of_nat_le_u32: "i < 2 ^ 32 \<Longrightarrow> j < 2 ^ 32 \<Longrightarrow> (of_nat i :: u32) \<le> of_nat j \<longleftrightarrow> i \<le> j"
  by (simp add: word_le_nat_alt unat_of_nat)

lemma of_nat_eq_u32: "i < 2 ^ 32 \<Longrightarrow> j < 2 ^ 32 \<Longrightarrow> (of_nat i :: u32) = of_nat j \<longleftrightarrow> i = j"
  by (simp add: word_unat_eq_iff unat_of_nat)

lemma offset_below:
  assumes "q < 2 ^ 32" and "sz \<le> unat s"
  shows "(of_nat q :: u32) < s - of_nat sz \<longleftrightarrow> q < unat s - sz"
proof -
  have "unat s < 2 ^ 32" using unsigned_less [of s] by simp
  then have z: "unat (of_nat sz :: u32) = sz" using assms(2) by (simp add: unat_of_nat)
  then have "unat (s - of_nat sz) = unat s - sz" using assms(2) by (simp add: unat_sub word_le_nat_alt)
  then show ?thesis using assms(1) by (simp add: word_less_nat_alt unat_of_nat)
qed

lemma find_fit_ok:
  "shape h (xs @ ys) \<Longrightarrow> sz \<le> unat (mem_size_aligned h) \<Longrightarrow>
   find_fit h (of_nat sz) (of_nat (span xs)) =
     Some (map_option of_nat (fit (unat (mem_size_aligned h) - sz) sz (span xs) ys))"
proof (induction ys arbitrary: xs)
  case Nil
  have "\<not> (of_nat (span xs) :: u32) < mem_size_aligned h - of_nat sz"
    using shape_bounds [OF Nil(1)] by (subst offset_below [OF _ Nil(2)]) auto
  then show ?case by (simp add: find_fit.simps)
next
  case (Cons y ys)
  obtain n u where y: "y = (n, u)" by fastforce
  let ?S = "unat (mem_size_aligned h)" and ?p = "heap_ptr h + of_nat (span xs)"
  note b = block_at [OF Cons(2) [unfolded y]] and bnd = shape_bounds [OF Cons(2)]
  have lt: "(of_nat (span xs) :: u32) < mem_size_aligned h - of_nat sz \<longleftrightarrow> span xs < ?S - sz"
    using bnd by (intro offset_below [OF _ Cons(3)]) auto
  have nx: "mem_next ?p (h_mem h) - (of_nat (span xs) + SIZEOF_STRUCT_MEM) = of_nat n"
    using b by (simp add: SIZEOF_STRUCT_MEM_def)
  have ge: "(of_nat sz :: u32) \<le> of_nat n \<longleftrightarrow> sz \<le> n"
    using bnd Cons(3) y by (intro of_nat_le_u32) auto
  have "shape h ((xs @ [y]) @ ys)" using Cons(2) by simp
  from Cons(1) [OF this Cons(3)]
  have ih: "find_fit h (of_nat sz) (of_nat (span xs + 12 + n)) = Some (map_option of_nat (fit (?S - sz) sz (span xs + 12 + n) ys))"
    by (simp add: y add.assoc)
  show ?case
    unfolding find_fit.simps [of h "of_nat sz" "of_nat (span xs)"] Let_def at_offset_def lt nx y
    using b ge ih by (simp add: y)
qed

lemma next_free_ok:
  "shape h (xs @ ys) \<Longrightarrow> next_free h (heap_ptr h + of_nat (span xs)) = Some (heap_ptr h + of_nat (first_free (span xs) ys))"
proof (induction ys arbitrary: xs)
  case Nil
  then have "heap_ptr h + of_nat (span xs) = heap_end h" by (simp add: shape_def)
  then show ?case by (simp add: next_free.simps)
next
  case (Cons y ys)
  obtain n u where y: "y = (n, u)" by fastforce
  let ?p = "heap_ptr h + of_nat (span xs)"
  note b = block_at [OF Cons(2) [unfolded y]]
  have "?p \<noteq> heap_ptr h + of_nat (span (xs @ y # ys))" by (rule shape_neq [OF Cons(2)]) (auto simp: y)
  then have e: "?p \<noteq> heap_end h" using Cons(2) unfolding shape_def by metis
  have "shape h ((xs @ [y]) @ ys)" using Cons(2) by simp
  from Cons(1) [OF this] have ih: "next_free h (heap_ptr h + of_nat (span xs + 12 + n)) = Some (heap_ptr h + of_nat (first_free (span xs + 12 + n) ys))"
    by (simp add: y add.assoc)
  show ?case
  proof (cases u)
    case True
    then have "next_free h ?p = next_free h (at_offset h (mem_next ?p (h_mem h)))"
      using b(2) e by (subst next_free.simps) simp
    also have "at_offset h (mem_next ?p (h_mem h)) = heap_ptr h + of_nat (span xs + 12 + n)" by (simp add: at_offset_def b(3))
    finally show ?thesis using ih True y by simp
  next
    case False
    then show ?thesis using b(2) y by (subst next_free.simps) simp
  qed
qed

section \<open>Splitting a block\<close>

text \<open>
  While a block at \<open>span xs\<close> is split, the block after the new one may still be linked back to \<open>pr\<close>.
\<close>

definition parts :: "memory \<Rightarrow> u32 \<Rightarrow> blocks \<Rightarrow> bool \<Rightarrow> nat \<Rightarrow> nat \<Rightarrow> nat \<Rightarrow> blocks \<Rightarrow> bool" where
  "parts m b xs u sz n pr ys =
    (seg m b 0 0 xs \<and>
     header m (b + of_nat (span xs)) = (HEAP_MAGIC, if u then 1 else 0, of_nat (span xs + 12 + sz), of_nat (last_head 0 0 xs)) \<and>
     header m (b + of_nat (span xs + 12 + sz)) = (HEAP_MAGIC, 0, of_nat (span xs + 12 + n), of_nat (span xs)) \<and>
     seg m b pr (span xs + 12 + n) ys)"

lemma parts_done:
  assumes "parts m b xs u sz n (span xs + 12 + sz) ys" and "sz + 12 \<le> n"
  shows "seg m b 0 0 (xs @ (sz, u) # (n - sz - 12, False) # ys)"
proof -
  have "span xs + 12 + sz + 12 + (n - sz - 12) = span xs + 12 + n" using assms(2) by simp
  then show ?thesis using assms(1) by (simp only: parts_def seg_mid seg.simps) simp
qed

definition split_mem :: "u32 \<Rightarrow> nat \<Rightarrow> nat \<Rightarrow> nat \<Rightarrow> memory \<Rightarrow> memory" where
  "split_mem b q sz n m = set_mem_next (b + of_nat q) (of_nat (q + 12 + sz))
     (set_mem_prev (b + of_nat (q + 12 + sz)) (of_nat q) (set_mem_next (b + of_nat (q + 12 + sz)) (of_nat (q + 12 + n))
       (set_used (b + of_nat (q + 12 + sz)) 0 (set_magic (b + of_nat (q + 12 + sz)) HEAP_MAGIC m))))"

text \<open>The three headers concerned, and the other blocks, do not overlap.\<close>

lemma parts_apart:
  assumes "sz + 24 \<le> n" and "span xs + 12 + n + span ys + 12 \<le> 2 ^ 32"
  shows "apart (b + of_nat (span xs)) (b + of_nat (span xs + 12 + sz))" "apart (b + of_nat (span xs + 12 + sz)) (b + of_nat (span xs))"
    "apart (b + of_nat (span xs + 12 + n)) (b + of_nat (span xs))" "apart (b + of_nat (span xs + 12 + n)) (b + of_nat (span xs + 12 + sz))"
    "j \<in> set (heads 0 xs) \<Longrightarrow> apart (b + of_nat (span xs)) (b + of_nat j)"
    "j \<in> set (heads 0 xs) \<Longrightarrow> apart (b + of_nat (span xs + 12 + sz)) (b + of_nat j)"
    "j \<in> set (heads 0 xs) \<Longrightarrow> apart (b + of_nat (span xs + 12 + n)) (b + of_nat j)"
    "j \<in> set (heads (span xs + 12 + n) ys) \<Longrightarrow> apart (b + of_nat (span xs)) (b + of_nat j)"
    "j \<in> set (heads (span xs + 12 + n) ys) \<Longrightarrow> apart (b + of_nat (span xs + 12 + sz)) (b + of_nat j)"
proof -
  show "apart (b + of_nat (span xs)) (b + of_nat (span xs + 12 + sz))" "apart (b + of_nat (span xs + 12 + sz)) (b + of_nat (span xs))"
    "apart (b + of_nat (span xs + 12 + n)) (b + of_nat (span xs))" "apart (b + of_nat (span xs + 12 + n)) (b + of_nat (span xs + 12 + sz))"
    by (rule apart_offsets; use assms in linarith)+
  show "j \<in> set (heads 0 xs) \<Longrightarrow> apart (b + of_nat (span xs)) (b + of_nat j)"
    "j \<in> set (heads 0 xs) \<Longrightarrow> apart (b + of_nat (span xs + 12 + sz)) (b + of_nat j)"
    "j \<in> set (heads 0 xs) \<Longrightarrow> apart (b + of_nat (span xs + 12 + n)) (b + of_nat j)"
    by (drule heads_range, rule apart_offsets; use assms in simp)+
  show "j \<in> set (heads (span xs + 12 + n) ys) \<Longrightarrow> apart (b + of_nat (span xs)) (b + of_nat j)"
    "j \<in> set (heads (span xs + 12 + n) ys) \<Longrightarrow> apart (b + of_nat (span xs + 12 + sz)) (b + of_nat j)"
    by (drule heads_range, rule apart_offsets; use assms in simp)+
qed

lemma split_parts:
  assumes s: "seg m b 0 0 (xs @ (n, u) # ys)" and l: "sz + 24 \<le> n" "span xs + 12 + n + span ys + 12 \<le> 2 ^ 32"
  shows "parts (split_mem b (span xs) sz n m) b xs u sz n (span xs) ys"
proof -
  note ap = parts_apart [OF l, where b = b]
  have m: "seg m b 0 0 xs" "header m (b + of_nat (span xs)) = (HEAP_MAGIC, if u then 1 else 0, of_nat (span xs + 12 + n), of_nat (last_head 0 0 xs))"
    "seg m b (span xs) (span xs + 12 + n) ys"
    using s by (simp_all add: seg_mid)
  have "seg (split_mem b (span xs) sz n m) b 0 0 xs = seg m b 0 0 xs"
    unfolding split_mem_def by (subst seg_set, erule ap)+ (rule refl)
  moreover have "seg (split_mem b (span xs) sz n m) b (span xs) (span xs + 12 + n) ys = seg m b (span xs) (span xs + 12 + n) ys"
    unfolding split_mem_def by (subst seg_set, erule ap)+ (rule refl)
  ultimately show ?thesis
    using m(1,3) m(2) ap(1,2) unfolding parts_def by (simp add: split_mem_def header_def headers del: of_nat_add)
qed

lemma parts_use:
  assumes p: "parts m b xs u sz n pr ys" and l: "sz + 24 \<le> n" "span xs + 12 + n + span ys + 12 \<le> 2 ^ 32"
  shows "parts (set_used (b + of_nat (span xs)) 1 m) b xs True sz n pr ys"
proof -
  note ap = parts_apart [OF l, where b = b]
  have "seg (set_used (b + of_nat (span xs)) 1 m) b 0 0 xs = seg m b 0 0 xs" by (rule seg_set, erule ap)
  moreover have "seg (set_used (b + of_nat (span xs)) 1 m) b pr (span xs + 12 + n) ys = seg m b pr (span xs + 12 + n) ys"
    by (rule seg_set, erule ap)
  ultimately show ?thesis
    using p ap(1) unfolding parts_def by (simp add: header_def headers del: of_nat_add)
qed

lemma parts_link:
  assumes p: "parts m b xs u sz n pr ys" and l: "sz + 24 \<le> n" "span xs + 12 + n + span ys + 12 \<le> 2 ^ 32"
  shows "parts (set_mem_prev (b + of_nat (span xs + 12 + n)) (of_nat (span xs + 12 + sz)) m) b xs u sz n (span xs + 12 + sz) ys"
proof -
  note ap = parts_apart [OF l, where b = b]
  let ?m = "set_mem_prev (b + of_nat (span xs + 12 + n)) (of_nat (span xs + 12 + sz)) m"
  have "seg ?m b 0 0 xs = seg m b 0 0 xs" by (rule seg_set, erule ap)
  moreover have "seg ?m b (span xs + 12 + sz) (span xs + 12 + n) ys"
    by (rule seg_set_prev) (use p l in \<open>auto simp: parts_def\<close>)
  ultimately show ?thesis
    using p ap(3,4) unfolding parts_def by (simp add: header_def headers del: of_nat_add)
qed

lemma parts_no_link: "parts m b xs u sz n pr [] \<Longrightarrow> parts m b xs u sz n pr' []"
  by (simp add: parts_def)

text \<open>Changing the memory and nothing else keeps the shape, if the headers fit.\<close>

lemma shape_mem:
  assumes "shape h bs" and "seg (h_mem h') (heap_ptr h) 0 0 bs'" and "span bs' = span bs" and "same_heap h h'"
  shows "shape h' bs'"
  using assms by (simp add: shape_def same_heap_def)

lemma split_block_mem:
  assumes s: "shape h (xs @ (n, u) # ys)" and l: "sz + 24 \<le> n"
  shows "split_block (of_nat (span xs)) (of_nat (span xs + 12 + sz)) h =
    h\<lparr>h_mem := split_mem (heap_ptr h) (span xs) sz n (h_mem h)\<rparr>"
  using block_at(3) [OF s] by (simp add: split_block_def at_offset_def on_mem_def split_mem_def Let_def)

lemma link_back_parts:
  assumes p: "parts (h_mem h) (heap_ptr h) xs u sz n (span xs) ys" and l: "sz + 24 \<le> n" "span xs + 12 + n + span ys + 12 \<le> 2 ^ 32"
    and e: "span xs + 12 + n + span ys = unat (mem_size_aligned h) + 12"
  defines "h' \<equiv> link_back (of_nat (span xs + 12 + sz)) h"
  shows "same_heap h h' \<and> lfree h' = lfree h \<and> parts (h_mem h') (heap_ptr h) xs u sz n (span xs + 12 + sz) ys \<and>
    (\<forall>a. \<not> a - (heap_ptr h + of_nat (span xs + 12 + n)) < 12 \<longrightarrow> h_mem h' a = h_mem h a)"
proof -
  have nx: "mem_next (at_offset h (of_nat (span xs + 12 + sz))) (h_mem h) = of_nat (span xs + 12 + n)"
    using p by (simp add: parts_def at_offset_def header_def)
  have "mem_size_aligned h + SIZEOF_STRUCT_MEM = of_nat (span xs + 12 + n + span ys)" unfolding e by (simp add: SIZEOF_STRUCT_MEM_def)
  moreover have "(of_nat (span xs + 12 + n) :: u32) = of_nat (span xs + 12 + n + span ys) \<longleftrightarrow> span ys = 0"
    by (subst of_nat_eq_u32) (use l in auto)
  moreover have "span ys = 0 \<longleftrightarrow> ys = []" by (cases ys) (auto simp: span_cons)
  ultimately have c: "(of_nat (span xs + 12 + n) = mem_size_aligned h + SIZEOF_STRUCT_MEM) \<longleftrightarrow> ys = []" by metis
  show ?thesis
  proof (cases "ys = []")
    case True
    then have "h' = h" using c by (simp add: h'_def link_back_def nx Let_def del: of_nat_add)
    then show ?thesis using p True parts_no_link by (auto simp: same_heap_def)
  next
    case False
    then have "h' = on_mem (set_mem_prev (heap_ptr h + of_nat (span xs + 12 + n)) (of_nat (span xs + 12 + sz))) h"
      unfolding h'_def link_back_def nx Let_def using c by (simp add: at_offset_def del: of_nat_add)
    then show ?thesis using parts_link [OF p l] by (simp add: same_heap_def on_mem_simps set_outside del: of_nat_add)
  qed
qed

lemma split_mem_outside:
  "\<not> a - (b + of_nat q) < 12 \<Longrightarrow> \<not> a - (b + of_nat (q + 12 + sz)) < 12 \<Longrightarrow> split_mem b q sz n m a = m a"
  by (simp add: split_mem_def set_outside del: of_nat_add)

text \<open>The pointer to the first free block, after its block went into use.\<close>

lemma first_free_here:
  "first_free 0 (xs @ (n, False) # ys) = span xs \<longleftrightarrow> first_free 0 xs = span xs"
  using first_free_le [of 0 xs] by (auto simp: first_free_append)

lemma lfree_moves:
  assumes s: "shape h (xs @ (k, True) # zs)" and l: "lfree h = heap_ptr h + of_nat (first_free 0 (xs @ (n, False) # ys))"
    and b: "span xs + 12 \<le> 2 ^ 32"
  shows "(if heap_ptr h + of_nat (span xs) = lfree h then Option.bind (next_free h (lfree h)) (\<lambda>p. Some (h\<lparr>lfree := p\<rparr>)) else Some h) =
    Some (h\<lparr>lfree := heap_ptr h + of_nat (first_free 0 (xs @ (k, True) # zs))\<rparr>)"
proof (cases "first_free 0 xs = span xs")
  case True
  then have "lfree h = heap_ptr h + of_nat (span xs)" using l first_free_here by metis
  moreover have "first_free (span xs) ((k, True) # zs) = first_free 0 (xs @ (k, True) # zs)" using True by (simp add: first_free_append)
  ultimately show ?thesis using next_free_ok [OF s] by simp
next
  case False
  then have lt: "first_free 0 xs < span xs" using first_free_le [of 0 xs] by simp
  then have e: "first_free 0 (xs @ (n, False) # ys) = first_free 0 xs" "first_free 0 (xs @ (k, True) # zs) = first_free 0 xs"
    by (simp_all add: first_free_append)
  have "(of_nat (span xs) :: u32) \<noteq> of_nat (first_free 0 xs)" using lt b by (subst of_nat_eq_u32) auto
  then have "heap_ptr h + of_nat (span xs) \<noteq> lfree h" using l e by simp
  then show ?thesis using l e by simp
qed

section \<open>Taking a block into use\<close>

definition carve :: "nat \<Rightarrow> nat \<Rightarrow> blocks" where
  "carve sz n = (if sz + 24 \<le> n then [(sz, True), (n - sz - 12, False)] else [(n, True)])"

lemma carve_facts: "span (carve sz n) = 12 + n" "used_span (carve sz n) = (if sz + 24 \<le> n then 12 + sz else 12 + n)"
  by (auto simp: carve_def)

text \<open>\<open>kept h h'\<close>: the registers of the heap that an operation does not change.\<close>

definition kept :: "heap \<Rightarrow> heap \<Rightarrow> bool" where
  "kept h h' = (heap_ptr h' = heap_ptr h \<and> heap_end h' = heap_end h \<and> mem_size_aligned h' = mem_size_aligned h)"

lemma count_used_simps: "h_mem (count_used k h) = h_mem h" "heap_ptr (count_used k h) = heap_ptr h" "heap_end (count_used k h) = heap_end h"
  "lfree (count_used k h) = lfree h" "heap_sem (count_used k h) = heap_sem h" "mem_size_aligned (count_used k h) = mem_size_aligned h"
  "used_mem (count_used k h) = used_mem h + k"
  by (simp_all add: count_used_def Let_def)

text \<open>Marking the header of a block.\<close>

lemma mark_seg:
  assumes "seg m b 0 0 (xs @ (n, u) # ys)" and l: "span xs + 12 + n + span ys + 12 \<le> 2 ^ 32"
  shows "seg (set_used (b + of_nat (span xs)) (if v then 1 else 0) m) b 0 0 (xs @ (n, v) # ys)"
    "seg (set_magic (b + of_nat (span xs)) HEAP_MAGIC m) b 0 0 (xs @ (n, u) # ys)"
proof -
  let ?p = "b + of_nat (span xs)"
  have k: "seg (set_used ?p w m) b 0 0 xs = seg m b 0 0 xs" "seg (set_magic ?p w m) b 0 0 xs = seg m b 0 0 xs" for w
    by (rule seg_set, rule seg_below; use l in simp)+
  have k': "seg (set_used ?p w m) b (span xs) (span xs + 12 + n) ys = seg m b (span xs) (span xs + 12 + n) ys"
    "seg (set_magic ?p w m) b (span xs) (span xs + 12 + n) ys = seg m b (span xs) (span xs + 12 + n) ys" for w
    by (rule seg_set, rule seg_above; use l in simp)+
  show "seg (set_used ?p (if v then 1 else 0) m) b 0 0 (xs @ (n, v) # ys)"
    "seg (set_magic ?p HEAP_MAGIC m) b 0 0 (xs @ (n, u) # ys)"
    using assms(1) k k' by (auto simp: seg_mid header_def)
qed

lemma use_block_ok:
  assumes s: "shape h (xs @ (n, False) # ys)" and z: "sz \<le> n" and l: "span xs + 12 + n + span ys + 12 < 2 ^ 32"
    and f: "lfree h = heap_ptr h + of_nat (first_free 0 (xs @ (n, False) # ys))"
  defines "bs' \<equiv> xs @ carve sz n @ ys"
  shows "\<exists>h'. use_block (of_nat sz) (of_nat (span xs)) h = Some h' \<and> shape h' bs' \<and> kept h h' \<and> heap_sem h' = heap_sem h \<and>
    lfree h' = heap_ptr h' + of_nat (first_free 0 bs') \<and> used_mem h' = used_mem h + of_nat (used_span (carve sz n)) \<and>
    (\<forall>a. outside (heap_ptr h) bs' a \<longrightarrow> h_mem h' a = h_mem h a)"
proof -
  let ?b = "heap_ptr h" and ?q = "span xs"
  let ?p = "?b + of_nat ?q"
  have l': "span xs + 12 + n + span ys + 12 \<le> 2 ^ 32" using l by simp
  have room: "mem_next ?p (h_mem h) - (of_nat ?q + SIZEOF_STRUCT_MEM) = of_nat n"
    using block_at(3) [OF s] by (simp add: SIZEOF_STRUCT_MEM_def)
  have fits: "(of_nat sz + SIZEOF_STRUCT_MEM + MIN_SIZE_ALIGNED \<le> (of_nat n :: u32)) \<longleftrightarrow> sz + 24 \<le> n"
  proof -
    have e: "of_nat sz + SIZEOF_STRUCT_MEM + MIN_SIZE_ALIGNED = (of_nat (sz + 24) :: u32)" by (simp add: SIZEOF_STRUCT_MEM_def MIN_SIZE_ALIGNED_def)
    show ?thesis unfolding e by (rule of_nat_le_u32) (use z l in auto)
  qed
  have seg: "seg (h_mem h) ?b 0 0 (xs @ (n, False) # ys)" using s by (simp add: shape_def)
  text \<open>The heap before the pointer to the first free block is moved.\<close>
  obtain h2 where h2: "use_block (of_nat sz) (of_nat ?q) h =
      (if ?p = lfree h2 then Option.bind (next_free h2 (lfree h2)) (\<lambda>p. Some (h2\<lparr>lfree := p\<rparr>)) else Some h2)"
    "shape h2 bs'" "kept h h2" "heap_sem h2 = heap_sem h" "lfree h2 = lfree h"
    "used_mem h2 = used_mem h + of_nat (used_span (carve sz n))" "\<forall>a. outside ?b bs' a \<longrightarrow> h_mem h2 a = h_mem h a"
  proof (cases "sz + 24 \<le> n")
    case True
    have s1: "split_block (of_nat ?q) (of_nat (?q + 12 + sz)) h = h\<lparr>h_mem := split_mem ?b ?q sz n (h_mem h)\<rparr>"
      by (rule split_block_mem [OF s True])
    let ?h1 = "h\<lparr>h_mem := set_used ?p 1 (split_mem ?b ?q sz n (h_mem h))\<rparr>"
    have p1: "parts (h_mem ?h1) (heap_ptr ?h1) xs True sz n ?q ys"
      using parts_use [OF split_parts [OF seg True l'] True l'] by simp
    have e: "?q + 12 + n + span ys = unat (mem_size_aligned ?h1) + 12" using s by (simp add: shape_def add.assoc)
    define h3 where "h3 = link_back (of_nat (?q + 12 + sz)) ?h1"
    have lb: "same_heap ?h1 h3" "lfree h3 = lfree h" "parts (h_mem h3) ?b xs True sz n (?q + 12 + sz) ys"
      "\<forall>a. \<not> a - (?b + of_nat (?q + 12 + n)) < 12 \<longrightarrow> h_mem h3 a = h_mem ?h1 a"
      using link_back_parts [OF p1 True l' e] by (simp_all add: h3_def)
    define h2 where "h2 = on_mem (set_magic ?p HEAP_MAGIC) (count_used (of_nat sz + SIZEOF_STRUCT_MEM) h3)"
    have b: "carve sz n = [(sz, True), (n - sz - 12, False)]" using True by (simp add: carve_def)
    show ?thesis
    proof (rule that [of h2])
      have p2: "of_nat ?q + SIZEOF_STRUCT_MEM + of_nat sz = (of_nat (?q + 12 + sz) :: u32)" by (simp add: SIZEOF_STRUCT_MEM_def)
      show "use_block (of_nat sz) (of_nat ?q) h =
        (if ?p = lfree h2 then Option.bind (next_free h2 (lfree h2)) (\<lambda>p. Some (h2\<lparr>lfree := p\<rparr>)) else Some h2)"
        unfolding use_block_def Let_def at_offset_def room p2 using fits True s1
        by (simp add: h2_def h3_def on_mem_def del: of_nat_add)
      have sp: "span bs' = span (xs @ (n, False) # ys)" using True by (simp add: bs'_def b)
      have "seg (h_mem h3) ?b 0 0 bs'" using parts_done [OF lb(3)] True by (simp add: bs'_def b)
      moreover have "span xs + 12 + sz + span ((n - sz - 12, False) # ys) + 12 \<le> 2 ^ 32" using l True by simp
      ultimately have "seg (h_mem h2) ?b 0 0 bs'"
        using mark_seg(2) [of "h_mem h3" ?b xs sz True "(n - sz - 12, False) # ys"] by (simp add: h2_def bs'_def b on_mem_simps count_used_simps)
      then show "shape h2 bs'"
        using s sp lb(1) by (simp add: shape_def same_heap_def h2_def on_mem_simps count_used_simps)
      show "kept h h2" "heap_sem h2 = heap_sem h" "lfree h2 = lfree h"
        using lb(1,2) by (simp_all add: kept_def same_heap_def h2_def on_mem_simps count_used_simps)
      show "used_mem h2 = used_mem h + of_nat (used_span (carve sz n))"
        using lb(1) b by (simp add: same_heap_def h2_def on_mem_simps count_used_simps SIZEOF_STRUCT_MEM_def)
      show "\<forall>a. outside ?b bs' a \<longrightarrow> h_mem h2 a = h_mem h a"
      proof (intro allI impI)
        fix a assume o: "outside ?b bs' a"
        have "bs' = (xs @ [(sz, True)]) @ (n - sz - 12, False) # ys" "?q + 12 + n = span (xs @ [(sz, True)]) + 12 + (n - sz - 12)"
          using True by (simp_all add: bs'_def b)
        then have "?q + 12 + n \<in> set (heads 0 bs' @ [span bs'])" using next_head_in by metis
        moreover have "?q \<in> set (heads 0 bs' @ [span bs'])" "?q + 12 + sz \<in> set (heads 0 bs' @ [span bs'])" by (simp_all add: bs'_def b)
        ultimately have "\<not> a - (?b + of_nat (?q + 12 + n)) < 12" "\<not> a - ?p < 12" "\<not> a - (?b + of_nat (?q + 12 + sz)) < 12"
          using o unfolding outside_def by blast+
        then show "h_mem h2 a = h_mem h a"
          using lb(4) by (simp add: h2_def on_mem_simps count_used_simps set_outside split_mem_outside del: of_nat_add)
      qed
    qed
  next
    case False
    define h2 where "h2 = on_mem (set_magic ?p HEAP_MAGIC) (count_used (of_nat (12 + n)) (on_mem (set_used ?p 1) h))"
    have b: "carve sz n = [(n, True)]" using False by (simp add: carve_def)
    have nx: "mem_next ?p (set_used ?p 1 (h_mem h)) - (?p - ?b) = of_nat (12 + n)" using block_at(3) [OF s] by simp
    show ?thesis
    proof (rule that [of h2])
      show "use_block (of_nat sz) (of_nat ?q) h =
        (if ?p = lfree h2 then Option.bind (next_free h2 (lfree h2)) (\<lambda>p. Some (h2\<lparr>lfree := p\<rparr>)) else Some h2)"
        unfolding use_block_def Let_def at_offset_def room on_mem_simps nx using fits False
        by (simp add: h2_def on_mem_simps count_used_simps del: of_nat_add)
      have "seg (set_used ?p 1 (h_mem h)) ?b 0 0 (xs @ (n, True) # ys)" using mark_seg(1) [OF seg l', of True] by simp
      from mark_seg(2) [OF this l'] have "seg (h_mem h2) ?b 0 0 bs'" by (simp add: h2_def on_mem_simps count_used_simps bs'_def b)
      then show "shape h2 bs'" using s by (simp add: shape_def h2_def on_mem_simps count_used_simps bs'_def b)
      show "kept h h2" "heap_sem h2 = heap_sem h" "lfree h2 = lfree h" "used_mem h2 = used_mem h + of_nat (used_span (carve sz n))"
        by (simp_all add: kept_def h2_def on_mem_simps count_used_simps b)
      show "\<forall>a. outside ?b bs' a \<longrightarrow> h_mem h2 a = h_mem h a"
        by (auto simp: outside_def bs'_def b h2_def on_mem_simps count_used_simps set_outside)
    qed
  qed
  have bs: "\<exists>k zs. bs' = xs @ (k, True) # zs" by (auto simp: bs'_def carve_def)
  then obtain k zs where bz: "bs' = xs @ (k, True) # zs" by blast
  have pt: "heap_ptr h2 = ?b" using h2(3) by (simp add: kept_def)
  have "use_block (of_nat sz) (of_nat ?q) h = Some (h2\<lparr>lfree := ?b + of_nat (first_free 0 bs')\<rparr>)"
    using lfree_moves [of h2 xs k zs n ys] h2(1,2,5) f l pt bz by simp
  moreover have "shape (h2\<lparr>lfree := ?b + of_nat (first_free 0 bs')\<rparr>) bs'" using h2(2) by (simp add: shape_def)
  ultimately show ?thesis using h2 pt by (auto simp: kept_def)
qed

end
