(* ===== verification/Rt_Heap.thy ===== *)
theory Rt_Heap
  imports Rt_Mem_Ops
begin

text \<open>
  The invariant of the heap between calls, and what each call does to the list of blocks: the
  allocator takes the first block that fits, and freeing joins neighbours. Data in use stays as it is.
\<close>

section \<open>The invariant\<close>

definition heap_ok :: "heap \<Rightarrow> blocks \<Rightarrow> bool" where
  "heap_ok h bs = (shape h bs \<and> joined bs \<and> (\<forall>(n, u) \<in> set bs. 0 < n \<and> 4 dvd n) \<and> 4 dvd unat (heap_ptr h) \<and>
     lfree h = heap_ptr h + of_nat (first_free 0 bs) \<and> heap_sem h = 1 \<and> used_mem h = of_nat (used_span bs) \<and>
     12 \<le> unat (mem_size_aligned h) \<and> unat (heap_ptr h) + span bs + 12 < 2 ^ 32)"

lemma heap_okD:
  assumes "heap_ok h bs"
  shows "shape h bs" "joined bs" "(n, u) \<in> set bs \<Longrightarrow> 0 < n \<and> 4 dvd n" "4 dvd unat (heap_ptr h)"
    "lfree h = heap_ptr h + of_nat (first_free 0 bs)" "heap_sem h = 1" "used_mem h = of_nat (used_span bs)"
    "12 \<le> unat (mem_size_aligned h)" "unat (heap_ptr h) + span bs + 12 < 2 ^ 32" "span bs = unat (mem_size_aligned h) + 12"
  using assms by (auto simp: heap_ok_def shape_def)

text \<open>The addresses of the data in use.\<close>

definition data :: "u32 \<Rightarrow> blocks \<Rightarrow> u32 set" where
  "data b bs = {a. \<exists>xs n ys i. bs = xs @ (n, True) # ys \<and> i < n \<and> a = b + of_nat (span xs + 12 + i)}"

lemma dataI: "bs = xs @ (n, True) # ys \<Longrightarrow> i < n \<Longrightarrow> a = b + of_nat (span xs + 12 + i) \<Longrightarrow> a \<in> data b bs"
  unfolding data_def by blast

lemma data_outside:
  assumes "a \<in> data b bs" and "span bs + 12 \<le> 2 ^ 32"
  shows "outside b bs a"
proof -
  obtain xs n ys i where a: "bs = xs @ (n, True) # ys" "i < n" "a = b + of_nat (span xs + 12 + i)"
    using assms(1) by (auto simp: data_def)
  have far: "\<not> a - (b + of_nat j) < 12" if j: "j \<le> span xs \<or> span xs + 12 + n \<le> j" "j + 12 \<le> 2 ^ 32" for j
  proof (cases "j \<le> span xs")
    case True
    then have "a - (b + of_nat j) = of_nat (span xs + 12 + i - j)" using a(3) by (simp add: of_nat_diff)
    moreover have "span xs + 12 + i - j < 2 ^ 32" "12 \<le> span xs + 12 + i - j" using a assms(2) True by auto
    ultimately show ?thesis by (simp add: word_less_nat_alt unat_of_nat del: of_nat_diff)
  next
    case False
    let ?d = "j - (span xs + 12 + i)"
    have d: "span xs + 12 + i < j" using False j(1) a(2) by simp
    then have "a - (b + of_nat j) = 0 - of_nat ?d" using a(3) by (simp add: of_nat_diff)
    moreover have "unat (0 - (of_nat ?d :: u32)) = 2 ^ 32 - ?d"
      using d j(2) by (subst unat_sub_if') (simp add: unat_of_nat del: of_nat_diff)
    ultimately show ?thesis using j(2) d by (simp add: word_less_nat_alt del: of_nat_diff)
  qed
  have "j \<le> span xs \<or> span xs + 12 + n \<le> j" "j + 12 \<le> 2 ^ 32" if "j \<in> set (heads 0 bs @ [span bs])" for j
  proof -
    from that consider "j \<in> set (heads 0 xs)" | "j = span xs" | "j \<in> set (heads (span xs + 12 + n) ys)" | "j = span bs"
      using a(1) by auto
    then have "(j \<le> span xs \<or> span xs + 12 + n \<le> j) \<and> j + 12 \<le> 2 ^ 32"
      using heads_range [of j 0 xs] heads_range [of j "span xs + 12 + n" ys] a(1) assms(2) by cases auto
    then show "j \<le> span xs \<or> span xs + 12 + n \<le> j" "j + 12 \<le> 2 ^ 32" by simp_all
  qed
  then show ?thesis using far unfolding outside_def by blast
qed

text \<open>Replacing one block by others of the same span keeps the data of the rest.\<close>

lemma data_replace:
  assumes "span zs = 12 + n"
  shows "data b (xs @ (n, False) # ys) \<subseteq> data b (xs @ zs @ ys)"
proof
  fix a assume "a \<in> data b (xs @ (n, False) # ys)"
  then obtain vs k ws i where v: "xs @ (n, False) # ys = vs @ (k, True) # ws" "i < k" "a = b + of_nat (span vs + 12 + i)"
    unfolding data_def by blast
  from v(1) consider us where "xs = vs @ (k, True) # us" "ws = us @ (n, False) # ys"
    | us where "vs = xs @ (n, False) # us" "ys = us @ (k, True) # ws"
    by (auto simp: append_eq_append_conv2 append_eq_Cons_conv Cons_eq_append_conv)
  then show "a \<in> data b (xs @ zs @ ys)"
  proof cases
    case 1
    then have "xs @ zs @ ys = vs @ (k, True) # (us @ zs @ ys)" by simp
    then show ?thesis using v(2,3) by (rule dataI)
  next
    case 2
    then have "xs @ zs @ ys = (xs @ zs @ us) @ (k, True) # ws" "span vs = span (xs @ zs @ us)" using assms(1) by simp_all
    with dataI [OF _ v(2)] v(3) show ?thesis by metis
  qed
qed

section \<open>Allocating\<close>

lemma align_down_nat: "unat (x AND NOT 3 :: u32) = 4 * (unat x div 4)"
proof -
  have "x AND NOT 3 = push_bit 2 (drop_bit 2 x)"
  proof (rule bit_word_eqI)
    fix n assume "n < LENGTH(32)"
    have m: "(3 :: u32) = mask 2" by (simp add: mask_eq_exp_minus_1)
    show "bit (x AND NOT 3) n = bit (push_bit 2 (drop_bit 2 x)) n"
    proof (cases "n < 2")
      case False
      then obtain k where "n = k + 2" by (metis le_add_diff_inverse2 not_less)
      then show ?thesis unfolding m using \<open>n < LENGTH(32)\<close> by (simp add: bit_simps)
    qed (unfold m, simp add: bit_simps)
  qed
  moreover have "unat (push_bit 2 (drop_bit 2 x) :: u32) = 4 * (unat x div 4)"
  proof -
    have "unat (drop_bit 2 x) = unat x div 4" by (simp add: drop_bit_eq_div unat_div)
    moreover have "4 * (unat x div 4) \<le> unat x" by simp
    moreover have "unat x < 2 ^ 32" using unsigned_less [of x] by simp
    ultimately have "unat (of_nat (4 * (unat x div 4)) :: u32) = 4 * (unat x div 4)" by (subst unat_of_nat) simp
    moreover have "push_bit 2 (drop_bit 2 x) = (of_nat (4 * (unat x div 4)) :: u32)"
    proof -
      have "drop_bit 2 x = of_nat (unat (drop_bit 2 x))" by simp
      then have d: "drop_bit 2 x = of_nat (unat x div 4)" using \<open>unat (drop_bit 2 x) = unat x div 4\<close> by metis
      show ?thesis unfolding d by (simp add: push_bit_eq_mult)
    qed
    ultimately show ?thesis by metis
  qed
  ultimately show ?thesis by simp
qed

definition rounded :: "u32 \<Rightarrow> nat" where
  "rounded size0 = 4 * ((unat size0 + 3) div 4)"

lemma rt_align_nat: "unat size0 + 3 < 2 ^ 32 \<Longrightarrow> unat (rt_align size0) = rounded size0 \<and> rt_align size0 = of_nat (rounded size0)"
proof -
  assume l: "unat size0 + 3 < 2 ^ 32"
  have "unat (size0 + 3) = unat size0 + 3" using l unat_add_lem [of size0 3] by simp
  then have "unat (rt_align size0) = rounded size0" using align_down_nat [of "size0 + 3"] by (simp add: rt_align_def RT_ALIGN_SIZE_def rounded_def add.commute)
  moreover have "rt_align size0 = of_nat (unat (rt_align size0))" by simp
  ultimately show ?thesis by metis
qed

text \<open>The semaphore is free again after a call.\<close>

lemma take_release: "heap_sem h = 1 \<Longrightarrow> take_heap h = Some (h\<lparr>heap_sem := 0\<rparr>)" "heap_sem h = 1 \<Longrightarrow> release_heap (h\<lparr>heap_sem := 0\<rparr>) = h"
  by (simp_all add: take_heap_def release_heap_def)

lemma shape_sem [simp]: "shape (h\<lparr>heap_sem := v\<rparr>) bs = shape h bs" "shape (h\<lparr>used_mem := w\<rparr>) bs = shape h bs"
  "shape (h\<lparr>lfree := w\<rparr>) bs = shape h bs"
  by (simp_all add: shape_def)

lemma lfree_offset: "heap_ok h bs \<Longrightarrow> lfree h - heap_ptr h = of_nat (first_free 0 bs)"
  using heap_okD(5) by simp

lemma search:
  assumes k: "heap_ok h bs" and z: "sz \<le> unat (mem_size_aligned h)"
  shows "find_fit (h\<lparr>heap_sem := v\<rparr>) (of_nat sz) (lfree h - heap_ptr h) =
    Some (map_option of_nat (fit (unat (mem_size_aligned h) - sz) sz 0 bs))"
proof -
  obtain xs ys where b: "bs = xs @ ys" "\<forall>b \<in> set xs. snd b" "first_free 0 bs = span xs"
    using first_free_split [of bs 0] by auto
  have "shape (h\<lparr>heap_sem := v\<rparr>) (xs @ ys)" using heap_okD(1) [OF k] b(1) by simp
  from find_fit_ok [OF this, of sz] z fit_used [OF b(2), of "unat (mem_size_aligned h) - sz" sz 0 ys] lfree_offset [OF k] b(1,3)
  show ?thesis by simp
qed

lemma carve_ok:
  assumes k: "heap_ok h (xs @ (n, False) # ys)" and z: "sz \<le> n" "0 < sz" "4 dvd sz"
  shows "joined (xs @ carve sz n @ ys)" "(m, u) \<in> set (xs @ carve sz n @ ys) \<Longrightarrow> 0 < m \<and> 4 dvd m"
    "span (xs @ carve sz n @ ys) = span (xs @ (n, False) # ys)"
    "used_span (xs @ carve sz n @ ys) = used_span (xs @ (n, False) # ys) + used_span (carve sz n)"
proof -
  have j: "joined xs" "joined ys" "ys = [] \<or> snd (hd ys)" using heap_okD(2) [OF k] by (auto simp: joined_append joined_cons)
  show "joined (xs @ carve sz n @ ys)" using j by (cases ys) (auto simp: carve_def joined_append joined_cons)
  have d: "4 dvd n" "0 < n" using heap_okD(3) [OF k, of n False] by auto
  have "4 dvd n - sz - 12" using d z by (simp add: dvd_diff_nat)
  then show "(m, u) \<in> set (xs @ carve sz n @ ys) \<Longrightarrow> 0 < m \<and> 4 dvd m"
    using heap_okD(3) [OF k, of m u] d z by (auto simp: carve_def split: if_splits)
  show "span (xs @ carve sz n @ ys) = span (xs @ (n, False) # ys)" by (simp add: carve_facts)
  show "used_span (xs @ carve sz n @ ys) = used_span (xs @ (n, False) # ys) + used_span (carve sz n)" by simp
qed

text \<open>What \<^verbatim>\<open>rt_malloc\<close> asks for, and what it does.\<close>

definition wanted :: "u32 \<Rightarrow> nat" where
  "wanted size0 = max 12 (rounded size0)"

lemma malloc_ok:
  assumes k: "heap_ok h bs" and s: "size0 \<noteq> 0" "unat size0 + 3 < 2 ^ 32" "rounded size0 \<le> unat (mem_size_aligned h)"
  shows "case fit (unat (mem_size_aligned h) - wanted size0) (wanted size0) 0 bs of
      None \<Rightarrow> rt_malloc size0 h = Some (0, h)
    | Some q \<Rightarrow> \<exists>xs n ys h'. bs = xs @ (n, False) # ys \<and> q = span xs \<and> wanted size0 \<le> n \<and>
        rt_malloc size0 h = Some (heap_ptr h + of_nat (span xs + 12), h') \<and>
        heap_ok h' (xs @ carve (wanted size0) n @ ys) \<and> kept h h' \<and>
        (\<forall>a. outside (heap_ptr h) (xs @ carve (wanted size0) n @ ys) a \<longrightarrow> h_mem h' a = h_mem h a)"
proof -
  let ?z = "wanted size0" and ?S = "unat (mem_size_aligned h)"
  have al: "unat (rt_align size0) = rounded size0" "rt_align size0 = of_nat (rounded size0)"
    using rt_align_nat [OF s(2)] by blast+
  have zS: "?z \<le> ?S" using s(3) heap_okD(8) [OF k] by (simp add: wanted_def)
  have zw: "(if rt_align size0 < MIN_SIZE_ALIGNED then MIN_SIZE_ALIGNED else rt_align size0) = of_nat ?z"
    using al by (auto simp: wanted_def MIN_SIZE_ALIGNED_def word_less_nat_alt max_def)
  have nb: "\<not> rt_align size0 > mem_size_aligned h" using al(1) s(3) by (simp add: word_less_nat_alt)
  let ?h = "h\<lparr>heap_sem := 0\<rparr>"
  note tr = take_release [OF heap_okD(6) [OF k]]
  have ff: "find_fit ?h (of_nat ?z) (lfree h - heap_ptr h) = Some (map_option of_nat (fit (?S - ?z) ?z 0 bs))"
    using search [OF k zS, of 0] by simp
  have m: "rt_malloc size0 h = (case fit (?S - ?z) ?z 0 bs of None \<Rightarrow> Some (0, h)
      | Some q \<Rightarrow> Option.bind (use_block (of_nat ?z) (of_nat q) ?h) (\<lambda>h2. Some (at_offset h2 (of_nat q) + SIZEOF_STRUCT_MEM, release_heap h2)))"
    using s(1) nb by (simp add: rt_malloc_def Let_def zw tr(1) ff tr(2) split: option.split)
  show ?thesis
  proof (cases "fit (?S - ?z) ?z 0 bs")
    case None
    then show ?thesis using m by simp
  next
    case (Some q)
    obtain xs n ys where b: "bs = xs @ (n, False) # ys" "q = span xs" "?z \<le> n" using fit_some [OF Some] by auto
    have kb: "heap_ok h (xs @ (n, False) # ys)" using k b by simp
    have z0: "0 < ?z" "4 dvd ?z" by (auto simp: wanted_def rounded_def max_def)
    have l: "span xs + 12 + n + span ys + 12 < 2 ^ 32" using heap_okD(9) [OF kb] by simp
    obtain h2 where u: "use_block (of_nat ?z) (of_nat (span xs)) ?h = Some h2" "shape h2 (xs @ carve ?z n @ ys)" "kept ?h h2" "heap_sem h2 = 0"
      "lfree h2 = heap_ptr h2 + of_nat (first_free 0 (xs @ carve ?z n @ ys))" "used_mem h2 = used_mem h + of_nat (used_span (carve ?z n))"
      "\<forall>a. outside (heap_ptr h) (xs @ carve ?z n @ ys) a \<longrightarrow> h_mem h2 a = h_mem h a"
      using use_block_ok [of ?h xs n ys ?z] heap_okD(1,5) [OF kb] b(3) l by auto
    let ?h2 = "release_heap h2"
    have r: "heap_sem ?h2 = 1" "kept h ?h2" "h_mem ?h2 = h_mem h2" using u(3,4) by (simp_all add: release_heap_def kept_def)
    have pt: "heap_ptr h2 = heap_ptr h" "mem_size_aligned h2 = mem_size_aligned h" using u(3) by (simp_all add: kept_def)
    have ok: "heap_ok ?h2 (xs @ carve ?z n @ ys)"
      unfolding heap_ok_def
    proof (intro conjI)
      show "shape ?h2 (xs @ carve ?z n @ ys)" using u(2) by (simp add: release_heap_def)
      show "joined (xs @ carve ?z n @ ys)" by (rule carve_ok(1) [OF kb b(3) z0])
      show "\<forall>(n', u) \<in> set (xs @ carve ?z n @ ys). 0 < n' \<and> 4 dvd n'" using carve_ok(2) [OF kb b(3) z0] by blast
      show "4 dvd unat (heap_ptr ?h2)" using heap_okD(4) [OF k] pt by (simp add: release_heap_def)
      show "lfree ?h2 = heap_ptr ?h2 + of_nat (first_free 0 (xs @ carve ?z n @ ys))" using u(5) by (simp add: release_heap_def)
      show "heap_sem ?h2 = 1" by (rule r(1))
      show "used_mem ?h2 = of_nat (used_span (xs @ carve ?z n @ ys))"
        using u(6) heap_okD(7) [OF kb] by (simp add: release_heap_def)
      show "12 \<le> unat (mem_size_aligned ?h2)" using heap_okD(8) [OF k] pt by (simp add: release_heap_def)
      show "unat (heap_ptr ?h2) + span (xs @ carve ?z n @ ys) + 12 < 2 ^ 32"
        using heap_okD(9) [OF kb] pt by (simp add: release_heap_def carve_facts)
    qed
    have res: "rt_malloc size0 h = Some (heap_ptr h + of_nat (span xs + 12), ?h2)"
      using m Some b(2) u(1) pt by (simp add: at_offset_def SIZEOF_STRUCT_MEM_def add_ac)
    show ?thesis using Some b ok res r u(7) by auto
  qed
qed

section \<open>Freeing\<close>

lemma pointer_range:
  assumes "heap_ok h (xs @ (n, True) # ys)"
  defines "p \<equiv> heap_ptr h + of_nat (span xs + 12)"
  shows "p \<noteq> 0" "\<not> p < heap_ptr h" "\<not> p \<ge> heap_end h" "p - SIZEOF_STRUCT_MEM = heap_ptr h + of_nat (span xs)"
proof -
  have l: "unat (heap_ptr h) + (span xs + 12 + n + span ys) + 12 < 2 ^ 32" using heap_okD(9) [OF assms(1)] by simp
  have add: "unat (heap_ptr h + of_nat i) = unat (heap_ptr h) + i" if "unat (heap_ptr h) + i < 2 ^ 32" for i
    using that unat_add_lem [of "heap_ptr h" "of_nat i"] by (simp add: unat_of_nat)
  have u: "unat p = unat (heap_ptr h) + (span xs + 12)" unfolding p_def by (rule add) (use l in simp)
  have "heap_end h = heap_ptr h + of_nat (span (xs @ (n, True) # ys))" using heap_okD(1) [OF assms(1)] unfolding shape_def by blast
  then have e: "unat (heap_end h) = unat (heap_ptr h) + span (xs @ (n, True) # ys)" by (elim ssubst, intro add) (use l in simp)
  show "p \<noteq> 0" using u by (intro notI) simp
  show "\<not> p < heap_ptr h" using u by (simp add: word_less_nat_alt)
  have "0 < n" using heap_okD(3) [OF assms(1), of n True] by simp
  then show "\<not> p \<ge> heap_end h" using u e by (simp add: word_le_nat_alt)
  show "p - SIZEOF_STRUCT_MEM = heap_ptr h + of_nat (span xs)" by (simp add: p_def SIZEOF_STRUCT_MEM_def)
qed

lemma first_free_ge: "off \<le> first_free off bs"
proof (induction bs arbitrary: off)
  case (Cons b bs)
  show ?case using Cons.IH [of "off + 12 + fst b"] by (simp add: span_cons)
qed simp

lemma join_sizes:
  "(\<forall>(n, u) \<in> set bs. 0 < n \<and> 4 dvd (n :: nat)) \<Longrightarrow> \<forall>(n, u) \<in> set (join bs). 0 < n \<and> 4 dvd n"
proof (induction bs)
  case (Cons b bs)
  then have ih: "\<forall>(n, u) \<in> set (join bs). 0 < n \<and> 4 dvd n" and b: "0 < fst b" "4 dvd fst b" by auto
  show ?case
  proof (cases b "join bs" rule: push_cases)
    case 1
    then show ?thesis using ih b by auto
  next
    case (2 k cs)
    then show ?thesis using ih b by (auto intro!: dvd_add)
  qed
qed simp

text \<open>The pointer to the first free block, when a block becomes free.\<close>

lemma lower_pointer:
  assumes "unat (b :: u32) + i < 2 ^ 32" and "unat b + j < 2 ^ 32"
  shows "(if b + of_nat i < b + of_nat j then b + of_nat i else b + of_nat j) = b + of_nat (min i j)"
proof -
  have add: "unat (b + of_nat x) = unat b + x" if "unat b + x < 2 ^ 32" for x
    using that unat_add_lem [of b "of_nat x"] by (simp add: unat_of_nat)
  show ?thesis using assms add by (simp add: word_less_nat_alt min_def)
qed

lemma lfree_lowered:
  assumes k: "heap_ok h bs" and i: "i \<le> span bs"
  shows "(if heap_ptr h + of_nat i < lfree h then heap_ptr h + of_nat i else lfree h) =
    heap_ptr h + of_nat (min i (first_free 0 bs))"
  unfolding heap_okD(5) [OF k]
  by (rule lower_pointer) (use i heap_okD(9) [OF k] first_free_le [of 0 bs] in simp_all)

lemma first_free_freed: "first_free 0 (xs @ (n, False) # ys) = min (span xs) (first_free 0 (xs @ (n, True) # ys))"
  using first_free_le [of 0 xs] first_free_ge [of "span xs + 12 + n" ys] by (auto simp: first_free_append min_def)

lemma first_free_split_off:
  assumes "z + 12 \<le> n"
  shows "first_free 0 (xs @ (z, True) # (n - z - 12, False) # ys) = min (span xs + 12 + z) (first_free 0 (xs @ (n, True) # ys))"
  using assms first_free_le [of 0 xs] first_free_ge [of "span xs + 12 + n" ys] by (auto simp: first_free_append min_def)

lemma free_ok:
  assumes k: "heap_ok h (xs @ (n, True) # ys)"
  shows "\<exists>h'. rt_free (heap_ptr h + of_nat (span xs + 12)) h = Some h' \<and> heap_ok h' (join (xs @ (n, False) # ys)) \<and>
    kept h h' \<and> (\<forall>a. outside (heap_ptr h) (xs @ (n, False) # ys) a \<longrightarrow> h_mem h' a = h_mem h a)"
proof -
  let ?p = "heap_ptr h + of_nat (span xs)" and ?bs = "xs @ (n, False) # ys"
  note r = pointer_range [OF k] and tr = take_release [OF heap_okD(6) [OF k]]
  have l: "span xs + 12 + n + span ys + 12 \<le> 2 ^ 32" using heap_okD(9) [OF k] by simp
  have seg: "seg (h_mem h) (heap_ptr h) 0 0 (xs @ (n, True) # ys)" using heap_okD(1) [OF k] by (simp add: shape_def)
  let ?m = "set_magic ?p HEAP_MAGIC (set_used ?p 0 (h_mem h))"
  have seg': "seg ?m (heap_ptr h) 0 0 ?bs" using mark_seg(2) [OF mark_seg(1) [OF seg l, of False, simplified] l] by simp
  have nx: "mem_next ?p ?m - (?p - heap_ptr h) = of_nat (12 + n)" using block_at(3) [OF heap_okD(1) [OF k]] by simp
  define h4 where "h4 = h\<lparr>heap_sem := 0, h_mem := ?m, lfree := heap_ptr h + of_nat (first_free 0 ?bs), used_mem := used_mem h - of_nat (12 + n)\<rparr>"
  have h4: "h4 = h\<lparr>heap_sem := 0, h_mem := ?m, lfree := if ?p < lfree h then ?p else lfree h, used_mem := used_mem h - of_nat (12 + n)\<rparr>"
    using lfree_lowered [OF k, of "span xs"] by (simp add: h4_def first_free_freed)
  have f: "rt_free (heap_ptr h + of_nat (span xs + 12)) h = Some (release_heap (plug_holes ?p h4))"
  proof (cases "?p < lfree h")
    case True
    then show ?thesis using r nx tr(1) by (simp add: rt_free_def Let_def r(4) on_mem_def h4 del: of_nat_add)
  next
    case False
    then have "h4 = h\<lparr>heap_sem := 0, h_mem := ?m, used_mem := used_mem h - of_nat (12 + n)\<rparr>" unfolding h4 by (cases h) simp
    then show ?thesis using False r nx tr(1) by (simp add: rt_free_def Let_def r(4) on_mem_def del: of_nat_add)
  qed
  have s4: "shape h4 ?bs" using heap_okD(1) [OF k] seg' by (simp add: shape_def h4_def)
  have j: "joined xs" "joined ys" using heap_okD(2) [OF k] by (auto simp: joined_append joined_cons)
  have l4: "lfree h4 = heap_ptr h4 + of_nat (first_free 0 ?bs)" by (simp add: h4_def)
  have p4: "heap_ptr h4 = heap_ptr h" by (simp add: h4_def)
  define h5 where "h5 = plug_holes ?p h4"
  have pl: "shape h5 (join ?bs)" "same_heap h4 h5" "lfree h5 = lfree h4"
    "\<forall>a. outside (heap_ptr h) ?bs a \<longrightarrow> h_mem h5 a = h_mem h4 a"
    using plug_holes_ok [OF s4 j l4] unfolding h5_def p4 by blast+
  have reg: "heap_ptr h5 = heap_ptr h" "heap_end h5 = heap_end h" "mem_size_aligned h5 = mem_size_aligned h" "heap_sem h5 = 0"
    "used_mem h5 = used_mem h - of_nat (12 + n)"
    using pl(2) by (simp_all add: same_heap_def h4_def)
  have ok: "heap_ok (release_heap h5) (join ?bs)"
    unfolding heap_ok_def
  proof (intro conjI)
    show "shape (release_heap h5) (join ?bs)" using pl(1) by (simp add: release_heap_def)
    show "joined (join ?bs)" by (rule joined_of_join)
    show "\<forall>(n, u) \<in> set (join ?bs). 0 < n \<and> 4 dvd n"
      using join_sizes [of ?bs] heap_okD(3) [OF k] by fastforce
    show "4 dvd unat (heap_ptr (release_heap h5))" using heap_okD(4) [OF k] reg by (simp add: release_heap_def)
    show "lfree (release_heap h5) = heap_ptr (release_heap h5) + of_nat (first_free 0 (join ?bs))"
      using pl(3) l4 p4 reg by (simp add: release_heap_def)
    show "heap_sem (release_heap h5) = 1" using reg by (simp add: release_heap_def)
    show "used_mem (release_heap h5) = of_nat (used_span (join ?bs))"
      using reg heap_okD(7) [OF k] by (simp add: release_heap_def)
    show "12 \<le> unat (mem_size_aligned (release_heap h5))" using heap_okD(8) [OF k] reg by (simp add: release_heap_def)
    show "unat (heap_ptr (release_heap h5)) + span (join ?bs) + 12 < 2 ^ 32"
      using heap_okD(9) [OF k] reg by (simp add: release_heap_def)
  qed
  have "h_mem h5 a = h_mem h a" if "outside (heap_ptr h) ?bs a" for a
  proof -
    have "\<not> a - ?p < 12" using that unfolding outside_def by simp
    then show ?thesis using pl(4) that by (simp add: h4_def set_outside)
  qed
  then show ?thesis using f ok reg by (auto simp: h5_def [symmetric] kept_def release_heap_def)
qed

section \<open>Setting up\<close>

lemma rt_align_down_nat: "unat (rt_align_down x) = 4 * (unat x div 4)"
  using align_down_nat [of x] by (simp add: rt_align_down_def RT_ALIGN_SIZE_def)

lemma heap_init_ok:
  assumes b: "unat begin_addr + 3 < 2 ^ 32" and e: "rounded begin_addr + 36 \<le> 4 * (unat end_addr div 4)" and u: "used_mem h = 0"
  defines "n \<equiv> 4 * (unat end_addr div 4) - rounded begin_addr - 24"
  shows "heap_ok (rt_system_heap_init begin_addr end_addr h) [(n, False)]"
    "heap_ptr (rt_system_heap_init begin_addr end_addr h) = rt_align begin_addr"
proof -
  let ?b = "rt_align begin_addr" and ?e = "rt_align_down end_addr" and ?B = "rounded begin_addr" and ?E = "4 * (unat end_addr div 4)"
  have ub: "unat ?b = ?B" using rt_align_nat [OF b] by blast
  have ue: "unat ?e = ?E" by (rule rt_align_down_nat)
  have "unat end_addr < 2 ^ 32" using unsigned_less [of end_addr] by simp
  then have E: "?E < 2 ^ 32" by simp
  have s24: "unat (?e - 24) = ?E - 24" using ue e by (subst unat_sub) (auto simp: word_le_nat_alt)
  have c: "?e > 2 * SIZEOF_STRUCT_MEM" "?e - 2 * SIZEOF_STRUCT_MEM \<ge> ?b"
    using e ub ue s24 by (auto simp: SIZEOF_STRUCT_MEM_def word_less_nat_alt word_le_nat_alt)
  have sz: "?e - ?b - 2 * SIZEOF_STRUCT_MEM = of_nat n"
  proof -
    have "unat (?e - ?b) = ?E - ?B" using e ub ue by (subst unat_sub) (auto simp: word_le_nat_alt)
    then have "unat (?e - ?b - 24) = n" using e by (subst unat_sub) (auto simp: word_le_nat_alt n_def)
    moreover have "?e - ?b - 24 = of_nat (unat (?e - ?b - 24))" by simp
    ultimately have "?e - ?b - 24 = of_nat n" by metis
    then show ?thesis by (simp add: SIZEOF_STRUCT_MEM_def)
  qed
  have n: "12 \<le> n" "?B + (12 + n) + 12 < 2 ^ 32" "n < 2 ^ 32" using e E by (auto simp: n_def)
  have un: "unat (of_nat n :: u32) = n" using n(3) by (simp add: unat_of_nat)
  define p where "p = ?b + of_nat (12 + n)"
  have pp: "?b + (of_nat n + SIZEOF_STRUCT_MEM) = p" by (simp add: p_def SIZEOF_STRUCT_MEM_def)
  have ap: "apart p ?b" using apart_offsets [of "12 + n" 0 ?b] n(2) by (simp add: p_def)
  define m where "m = set_used ?b 0 (set_mem_prev ?b 0 (set_mem_next ?b (of_nat n + SIZEOF_STRUCT_MEM) (set_magic ?b HEAP_MAGIC (h_mem h))))"
  define m' where "m' = set_mem_prev p (of_nat n + SIZEOF_STRUCT_MEM) (set_mem_next p (of_nat n + SIZEOF_STRUCT_MEM) (set_used p 1 (set_magic p HEAP_MAGIC m)))"
  have i: "rt_system_heap_init begin_addr end_addr h =
    h\<lparr>mem_size_aligned := of_nat n, heap_ptr := ?b, h_mem := m', heap_end := p, heap_sem := 1, lfree := ?b\<rparr>"
    using c sz by (simp add: rt_system_heap_init_def Let_def on_mem_def at_offset_def m_def m'_def pp)
  have hd: "header m' ?b = (HEAP_MAGIC, 0, of_nat (12 + n), 0)"
    using ap by (simp add: m'_def header_def headers) (simp add: m_def SIZEOF_STRUCT_MEM_def)
  show "heap_ptr (rt_system_heap_init begin_addr end_addr h) = ?b" by (simp add: i)
  have "4 dvd ?B" "4 dvd n" by (simp_all add: rounded_def n_def dvd_diff_nat)
  then show "heap_ok (rt_system_heap_init begin_addr end_addr h) [(n, False)]"
    using n hd un ub u by (simp add: i heap_ok_def shape_def p_def)
qed

section \<open>Writing to data\<close>

text \<open>A program may do what it likes with the data it was given.\<close>

lemma data_write_ok:
  assumes k: "heap_ok h bs" and m: "\<forall>a. a \<notin> data (heap_ptr h) bs \<longrightarrow> m a = h_mem h a"
  shows "heap_ok (h\<lparr>h_mem := m\<rparr>) bs"
proof -
  have l: "span bs + 12 \<le> 2 ^ 32" using heap_okD(9) [OF k] by simp
  have "header m (heap_ptr h + of_nat j) = header (h_mem h) (heap_ptr h + of_nat j)" if j: "j \<in> set (heads 0 bs)" for j
  proof (rule header_cong)
    fix i :: u32 assume "i < 12"
    then have "\<not> outside (heap_ptr h) bs (heap_ptr h + of_nat j + i)"
      using j unfolding outside_def by (auto intro!: bexI [of _ j])
    then show "m (heap_ptr h + of_nat j + i) = h_mem h (heap_ptr h + of_nat j + i)" using data_outside [OF _ l] m by blast
  qed
  then have "seg m (heap_ptr h) 0 0 bs = seg (h_mem h) (heap_ptr h) 0 0 bs" by (rule seg_cong)
  then show ?thesis using k by (simp add: heap_ok_def shape_def)
qed

section \<open>Resizing\<close>

lemma block_size:
  assumes "heap_ok h (xs @ (n, True) # ys)"
  shows "mem_next (heap_ptr h + of_nat (span xs)) (h_mem h) - of_nat (span xs) - SIZEOF_STRUCT_MEM = of_nat n"
  using block_at(3) [OF heap_okD(1) [OF assms]] by (simp add: SIZEOF_STRUCT_MEM_def)

lemma rounded_pos: "newsize \<noteq> 0 \<Longrightarrow> 0 < rounded newsize"
proof -
  assume "newsize \<noteq> 0"
  then have "0 < unat newsize" by (simp add: unat_gt_0)
  then show ?thesis by (simp add: rounded_def div_greater_zero_iff)
qed

lemma realloc_enter:
  assumes k: "heap_ok h (xs @ (n, True) # ys)" and s: "newsize \<noteq> 0" "unat newsize + 3 < 2 ^ 32"
    "rounded newsize \<le> unat (mem_size_aligned h)"
  defines "p \<equiv> heap_ptr h + of_nat (span xs + 12)"
  shows "rt_realloc p newsize h =
    (if n = rounded newsize then Some (p, h)
     else if rounded newsize + 24 < n
     then Some (p, release_heap (shrink_block (of_nat (span xs)) (of_nat n) (of_nat (rounded newsize)) (h\<lparr>heap_sem := 0\<rparr>)))
     else Option.bind (rt_malloc (of_nat (rounded newsize)) h) (\<lambda>(nmem, h2).
       if nmem \<noteq> 0 then Option.bind (rt_free p (on_mem (rt_memcpy nmem p (of_nat (min n (rounded newsize)))) h2)) (\<lambda>h4. Some (nmem, h4))
       else Some (nmem, h2)))"
proof -
  let ?z = "rounded newsize"
  note r = pointer_range [OF k, folded p_def] and tr = take_release [OF heap_okD(6) [OF k]]
  have al: "unat (rt_align newsize) = ?z" "rt_align newsize = of_nat ?z" using rt_align_nat [OF s(2)] by blast+
  have S: "unat (mem_size_aligned h) < 2 ^ 32 - 24" using heap_okD(9,10) [OF k] by simp
  have z0: "?z \<noteq> 0" using rounded_pos [OF s(1)] by simp
  have zn: "?z < 2 ^ 32 - 24" "n < 2 ^ 32 - 24" using s(3) S heap_okD(9) [OF k] by auto
  define h0 where "h0 = h\<lparr>heap_sem := 0\<rparr>"
  have h0: "take_heap h = Some h0" "release_heap h0 = h" "heap_ptr h0 = heap_ptr h" "h_mem h0 = h_mem h" "heap_end h0 = heap_end h"
    using tr by (simp_all add: h0_def)
  have c1: "((of_nat ?z :: u32) = 0) = False" using z0 al by (metis unat_0)
  have c2: "((of_nat ?z :: u32) > mem_size_aligned h) = False" using s(3) al by (metis not_less word_le_nat_alt)
  have c3: "(of_nat n :: u32) = of_nat ?z \<longleftrightarrow> n = ?z" by (rule of_nat_eq_u32) (use zn in auto)
  have c4: "of_nat ?z + SIZEOF_STRUCT_MEM + MIN_SIZE < (of_nat n :: u32) \<longleftrightarrow> ?z + 24 < n"
  proof -
    have e: "of_nat ?z + SIZEOF_STRUCT_MEM + MIN_SIZE = (of_nat (?z + 24) :: u32)" by (simp add: SIZEOF_STRUCT_MEM_def MIN_SIZE_def)
    show ?thesis unfolding e by (rule of_nat_less_u32) (use zn in auto)
  qed
  have c5: "(if (of_nat n :: u32) < of_nat ?z then of_nat n else of_nat ?z) = (of_nat (min n ?z) :: u32)"
    by (subst of_nat_less_u32) (use zn in \<open>auto simp: min_def\<close>)
  have c6: "p - SIZEOF_STRUCT_MEM - heap_ptr h = of_nat (span xs)" using r(4) by simp
  have c7: "mem_next (p - SIZEOF_STRUCT_MEM) (h_mem h) - of_nat (span xs) - SIZEOF_STRUCT_MEM = of_nat n"
    using block_size [OF k] r(4) by simp
  have c8: "(p = 0) = False" "(p < heap_ptr h \<or> p \<ge> heap_end h) = False" using r(1-3) by simp_all
  show ?thesis
    unfolding rt_realloc_def Let_def al(2) c1 c2 c8(1) if_False h0(1) Option.bind.simps h0(2-5) c8(2) c6 c7 c3 c4 c5 h0_def [symmetric] ..
qed

lemma realloc_shrinks:
  assumes k: "heap_ok h (xs @ (n, True) # ys)" and s: "newsize \<noteq> 0" "unat newsize + 3 < 2 ^ 32" "rounded newsize + 24 < n"
  defines "p \<equiv> heap_ptr h + of_nat (span xs + 12)" and "bs1 \<equiv> xs @ (rounded newsize, True) # (n - rounded newsize - 12, False) # ys"
  shows "\<exists>h'. rt_realloc p newsize h = Some (p, h') \<and> heap_ok h' (join bs1) \<and> kept h h' \<and>
    (\<forall>a. outside (heap_ptr h) bs1 a \<longrightarrow> h_mem h' a = h_mem h a)"
proof -
  let ?z = "rounded newsize" and ?b = "heap_ptr h" and ?q = "span xs"
  let ?k = "n - ?z - 12"
  have l: "?q + 12 + n + span ys + 12 \<le> 2 ^ 32" using heap_okD(9) [OF k] by simp
  have zS: "?z \<le> unat (mem_size_aligned h)" using heap_okD(10) [OF k] s(3) by simp
  have z24: "?z + 24 \<le> n" using s(3) by simp
  have sh: "shape h (xs @ (n, True) # ys)" by (rule heap_okD(1) [OF k])
  let ?h1 = "h\<lparr>heap_sem := 0, used_mem := used_mem h - (of_nat n - of_nat ?z)\<rparr>"
  have sh1: "shape ?h1 (xs @ (n, True) # ys)" using sh by (simp add: shape_def)
  have p2: "of_nat ?q + SIZEOF_STRUCT_MEM + of_nat ?z = (of_nat (?q + 12 + ?z) :: u32)" by (simp add: SIZEOF_STRUCT_MEM_def)
  let ?h2 = "?h1\<lparr>h_mem := split_mem ?b ?q ?z n (h_mem h)\<rparr>"
  have sp: "split_block (of_nat ?q) (of_nat (?q + 12 + ?z)) ?h1 = ?h2" using split_block_mem [OF sh1 z24] by simp
  have seg: "seg (h_mem h) ?b 0 0 (xs @ (n, True) # ys)" using sh by (simp add: shape_def)
  have pt: "parts (h_mem ?h2) (heap_ptr ?h2) xs True ?z n ?q ys" using split_parts [OF seg z24 l] by simp
  have e: "?q + 12 + n + span ys = unat (mem_size_aligned ?h2) + 12" using sh by (simp add: shape_def add.assoc)
  define h3 where "h3 = link_back (of_nat (?q + 12 + ?z)) ?h2"
  have lb: "same_heap ?h2 h3" "lfree h3 = lfree h" "parts (h_mem h3) ?b xs True ?z n (?q + 12 + ?z) ys"
    "\<forall>a. \<not> a - (?b + of_nat (?q + 12 + n)) < 12 \<longrightarrow> h_mem h3 a = h_mem ?h2 a"
    using link_back_parts [OF pt z24 l e] by (simp_all add: h3_def)
  have spn: "span bs1 = span (xs @ (n, True) # ys)" using z24 by (simp add: bs1_def)
  have "seg (h_mem h3) ?b 0 0 bs1" using parts_done [OF lb(3)] z24 by (simp add: bs1_def)
  then have sh3: "shape h3 bs1" using sh spn lb(1) by (simp add: shape_def same_heap_def)
  define h4 where "h4 = h3\<lparr>lfree := ?b + of_nat (first_free 0 bs1)\<rparr>"
  have reg: "heap_ptr h3 = ?b" "heap_sem h3 = 0" "heap_end h3 = heap_end h" "mem_size_aligned h3 = mem_size_aligned h"
    "used_mem h3 = used_mem h - (of_nat n - of_nat ?z)"
    using lb(1) by (simp_all add: same_heap_def)
  have low: "?b + of_nat (first_free 0 bs1) = (if ?b + of_nat (?q + 12 + ?z) < lfree h then ?b + of_nat (?q + 12 + ?z) else lfree h)"
    using lfree_lowered [OF k, of "?q + 12 + ?z"] first_free_split_off [of ?z n xs ys] z24 by (simp add: bs1_def del: of_nat_add)
  have l4: "(if ?b + of_nat (?q + 12 + ?z) < lfree h3 then h3\<lparr>lfree := ?b + of_nat (?q + 12 + ?z)\<rparr> else h3) = h4"
    unfolding h4_def low lb(2) [symmetric] by (cases h3) simp
  have sh4: "shape h4 ((xs @ [(?z, True)]) @ (?k, False) # ys)" using sh3 by (simp add: h4_def bs1_def)
  have j: "joined (xs @ [(?z, True)])" "joined ys" using heap_okD(2) [OF k] by (auto simp: joined_append joined_cons)
  have f4: "lfree h4 = heap_ptr h4 + of_nat (first_free 0 ((xs @ [(?z, True)]) @ (?k, False) # ys))" by (simp add: h4_def bs1_def reg)
  have b1: "(xs @ [(?z, True)]) @ (?k, False) # ys = bs1" "span (xs @ [(?z, True)]) = ?q + 12 + ?z" by (simp_all add: bs1_def)
  have p4: "heap_ptr h4 = ?b" by (simp add: h4_def reg)
  define h5 where "h5 = plug_holes (?b + of_nat (?q + 12 + ?z)) h4"
  have pl: "shape h5 (join bs1)" "same_heap h4 h5" "lfree h5 = lfree h4" "\<forall>a. outside ?b bs1 a \<longrightarrow> h_mem h5 a = h_mem h4 a"
    using plug_holes_ok [OF sh4 j f4] unfolding b1 p4 h5_def by blast+
  have sk: "shrink_block (of_nat ?q) (of_nat n) (of_nat ?z) (h\<lparr>heap_sem := 0\<rparr>) = h5"
  proof -
    have "shrink_block (of_nat ?q) (of_nat n) (of_nat ?z) (h\<lparr>heap_sem := 0\<rparr>) = plug_holes (?b + of_nat (?q + 12 + ?z))
        (if ?b + of_nat (?q + 12 + ?z) < lfree h3 then h3\<lparr>lfree := ?b + of_nat (?q + 12 + ?z)\<rparr> else h3)"
      unfolding shrink_block_def Let_def p2 by (simp add: sp h3_def [symmetric] at_offset_def del: of_nat_add)
    then show ?thesis unfolding l4 h5_def .
  qed
  have r: "rt_realloc p newsize h = Some (p, release_heap h5)"
    using realloc_enter [OF k s(1,2) zS] s(3) sk by (simp add: p_def del: of_nat_add)
  have reg5: "heap_ptr h5 = ?b" "heap_sem h5 = 0" "heap_end h5 = heap_end h" "mem_size_aligned h5 = mem_size_aligned h"
    "used_mem h5 = used_mem h - (of_nat n - of_nat ?z)" "lfree h5 = ?b + of_nat (first_free 0 bs1)"
    using pl(2,3) reg by (simp_all add: same_heap_def h4_def)
  have sizes: "\<forall>(m, u) \<in> set bs1. 0 < m \<and> 4 dvd m"
  proof -
    have "4 dvd n" using heap_okD(3) [OF k, of n True] by simp
    then have "4 dvd ?k" using z24 by (simp add: rounded_def dvd_diff_nat)
    moreover have "0 < ?z" "4 dvd ?z" using rounded_pos [OF s(1)] by (simp_all add: rounded_def)
    moreover have "(m, u) \<in> set xs \<union> set ys \<Longrightarrow> 0 < m \<and> 4 dvd m" for m u using heap_okD(3) [OF k, of m u] by auto
    ultimately show ?thesis using z24 by (auto simp: bs1_def)
  qed
  have "heap_ok (release_heap h5) (join bs1)"
    unfolding heap_ok_def
  proof (intro conjI)
    show "shape (release_heap h5) (join bs1)" using pl(1) by (simp add: release_heap_def)
    show "joined (join bs1)" by (rule joined_of_join)
    show "\<forall>(n, u) \<in> set (join bs1). 0 < n \<and> 4 dvd n" by (rule join_sizes [OF sizes])
    show "used_mem (release_heap h5) = of_nat (used_span (join bs1))"
      using reg5 heap_okD(7) [OF k] by (simp add: release_heap_def bs1_def)
    show "unat (heap_ptr (release_heap h5)) + span (join bs1) + 12 < 2 ^ 32"
      using heap_okD(9) [OF k] reg5 spn by (simp add: release_heap_def)
  qed (use reg5 heap_okD(4,8) [OF k] in \<open>simp_all add: release_heap_def\<close>)
  moreover have "h_mem h5 a = h_mem h a" if o: "outside ?b bs1 a" for a
  proof -
    have "?q \<in> set (heads 0 bs1 @ [span bs1])" "?q + 12 + ?z \<in> set (heads 0 bs1 @ [span bs1])" by (simp_all add: bs1_def)
    moreover have "?q + 12 + n \<in> set (heads 0 bs1 @ [span bs1])"
    proof -
      have "bs1 = (xs @ [(?z, True)]) @ (?k, False) # ys" "?q + 12 + n = span (xs @ [(?z, True)]) + 12 + ?k"
        using z24 by (simp_all add: bs1_def)
      then show ?thesis using next_head_in by metis
    qed
    ultimately have "\<not> a - (?b + of_nat ?q) < 12" "\<not> a - (?b + of_nat (?q + 12 + ?z)) < 12" "\<not> a - (?b + of_nat (?q + 12 + n)) < 12"
      using o unfolding outside_def by blast+
    then show ?thesis using pl(4) o lb(4) by (simp add: h4_def split_mem_outside del: of_nat_add)
  qed
  ultimately show ?thesis using r reg5 by (auto simp: kept_def release_heap_def)
qed

end
