(* ===== verification/Rt_Resize.thy ===== *)
theory Rt_Resize
  imports Rt_Heap Rt_Bytes_Props
begin

text \<open>
  Resizing a block to a place elsewhere, and clearing a new one: the bytes a program owns before and
  after the call.
\<close>

section \<open>The data of a list of blocks\<close>

lemma data_Nil [simp]: "data b [] = {}"
  by (simp add: data_def)

lemma data_Cons: "data b ((n, u) # bs) = (if u then {b + of_nat (12 + i) | i. i < n} else {}) \<union> data (b + of_nat (12 + n)) bs"
proof (intro equalityI subsetI)
  fix a assume "a \<in> data b ((n, u) # bs)"
  then obtain xs k ys i where v: "(n, u) # bs = xs @ (k, True) # ys" "i < k" "a = b + of_nat (span xs + 12 + i)"
    unfolding data_def by blast
  show "a \<in> (if u then {b + of_nat (12 + i) | i. i < n} else {}) \<union> data (b + of_nat (12 + n)) bs"
  proof (cases xs)
    case Nil
    then show ?thesis using v by auto
  next
    case (Cons c cs)
    then have "bs = cs @ (k, True) # ys" "a = b + of_nat (12 + n) + of_nat (span cs + 12 + i)" using v(1,3) by (auto simp: span_cons)
    then show ?thesis using dataI [OF _ v(2)] by blast
  qed
next
  fix a assume a: "a \<in> (if u then {b + of_nat (12 + i) | i. i < n} else {}) \<union> data (b + of_nat (12 + n)) bs"
  show "a \<in> data b ((n, u) # bs)"
  proof (cases "a \<in> data (b + of_nat (12 + n)) bs")
    case True
    then obtain xs k ys i where v: "bs = xs @ (k, True) # ys" "i < k" "a = b + of_nat (12 + n) + of_nat (span xs + 12 + i)"
      unfolding data_def by blast
    then have "(n, u) # bs = ((n, u) # xs) @ (k, True) # ys" "a = b + of_nat (span ((n, u) # xs) + 12 + i)" by (simp_all add: span_cons)
    then show ?thesis using dataI [OF _ v(2)] by blast
  next
    case False
    then obtain i where "u" "i < n" "a = b + of_nat (12 + i)" using a by (auto split: if_splits)
    then show ?thesis using dataI [of "(n, u) # bs" "[]" n bs i a b] by simp
  qed
qed

lemma data_push: "data b (push c cs) = data b (c # cs)"
proof (cases c cs rule: push_cases)
  case (2 k cs')
  then show ?thesis by (cases c) (simp add: data_Cons add_ac)
qed simp

lemma data_join [simp]: "data b (join bs) = data b bs"
proof (induction bs arbitrary: b)
  case (Cons c bs)
  then show ?case by (cases c) (simp add: data_push data_Cons)
qed simp

lemma data_append: "data b (xs @ ys) = data b xs \<union> data (b + of_nat (span xs)) ys"
proof (induction xs arbitrary: b)
  case (Cons c xs)
  then show ?case by (cases c) (simp add: data_Cons add_ac Un_assoc)
qed simp

lemma list_two_blocks:
  assumes "xs @ (n, u) # ys = vs @ (k, v) # ws"
  shows "(span vs = span xs \<and> n = k \<and> u = v \<and> ys = ws) \<or> span xs + 12 + n \<le> span vs \<or> span vs + 12 + k \<le> span xs"
  using assms by (auto simp: append_eq_append_conv2 append_eq_Cons_conv Cons_eq_append_conv)

lemma data_other:
  assumes "a \<in> data b (xs @ (n, False) # ys)" and "i < n" and l: "span (xs @ (n, False) # ys) \<le> 2 ^ 32"
  shows "a \<noteq> b + of_nat (span xs + 12 + i)"
proof -
  obtain vs k ws x where v: "xs @ (n, False) # ys = vs @ (k, True) # ws" "x < k" "a = b + of_nat (span vs + 12 + x)"
    using assms(1) unfolding data_def by blast
  have "span vs + 12 + k \<le> 2 ^ 32" using l unfolding v(1) by simp
  moreover have "span xs + 12 + n \<le> 2 ^ 32" using l by simp
  moreover have "span xs + 12 + n \<le> span vs \<or> span vs + 12 + k \<le> span xs" using list_two_blocks [OF v(1)] by simp
  ultimately have "(of_nat (span vs + 12 + x) :: u32) \<noteq> of_nat (span xs + 12 + i)"
    using v(2) assms(2) by (subst of_nat_eq_u32) auto
  then show ?thesis using v(3) by simp
qed

text \<open>The block that is resized, in the list after another block was taken.\<close>

lemma block_stays:
  assumes "xs @ (n, True) # ys = xs1 @ (n1, False) # ys1" and "span zs = 12 + n1"
  obtains xs' ys' where "xs1 @ zs @ ys1 = xs' @ (n, True) # ys'" "span xs' = span xs"
    "data b (xs @ (n, False) # ys) \<subseteq> data b (xs' @ (n, False) # ys')"
    "span xs + 12 + n \<le> span xs1 \<or> span xs1 + 12 + n1 \<le> span xs"
proof -
  from assms(1) consider us where "xs1 = xs @ (n, True) # us" "ys = us @ (n1, False) # ys1"
    | us where "xs = xs1 @ (n1, False) # us" "ys1 = us @ (n, True) # ys"
    by (auto simp: append_eq_append_conv2 append_eq_Cons_conv Cons_eq_append_conv)
  then show ?thesis
  proof cases
    case 1
    have "data b (xs @ (n, False) # ys) \<subseteq> data b (xs @ (n, False) # us @ zs @ ys1)"
      using data_replace [OF assms(2), of b "xs @ (n, False) # us" ys1] 1(2) by simp
    with 1 show ?thesis by (intro that [of xs "us @ zs @ ys1"]) simp_all
  next
    case 2
    have "data b (xs @ (n, False) # ys) \<subseteq> data b ((xs1 @ zs @ us) @ (n, False) # ys)"
      using data_replace [OF assms(2), of b xs1 "us @ (n, False) # ys"] 2(1) by simp
    with 2 show ?thesis using assms(2) by (intro that [of "xs1 @ zs @ us" ys]) simp_all
  qed
qed

lemma data_far:
  assumes "i + k \<le> j \<or> j + k \<le> i" and "i + k \<le> 2 ^ 32" and "j + k \<le> 2 ^ 32" and "k < 2 ^ 32"
  shows "upward (b + of_nat j) (b + of_nat i) (of_nat k)"
proof (cases "i + k \<le> j")
  case True
  then have "b + of_nat j - (b + of_nat i) = (of_nat (j - i) :: u32)" by (simp add: of_nat_diff)
  moreover have "(of_nat k :: u32) \<le> of_nat (j - i)" if "j - i < 2 ^ 32"
    using that True assms(4) by (subst of_nat_le_u32) auto
  moreover have "j - i < 2 ^ 32 \<or> j - i = 2 ^ 32 \<and> k = 0" using True assms by linarith
  ultimately show ?thesis by (auto simp: upward_def)
next
  case False
  then have ji: "j + k \<le> i" using assms(1) by simp
  show ?thesis
  proof (cases "i = j")
    case True
    then show ?thesis by (simp add: upward_def)
  next
    case ne: False
    then have d: "0 < i - j" "i - j \<le> 2 ^ 32 - k" using ji assms(2) by auto
    show ?thesis
    proof (cases "k = 0")
      case True then show ?thesis by (simp add: upward_def)
    next
      case False
      then have l: "i - j < 2 ^ 32" using d by simp
      have "b + of_nat j - (b + of_nat i) = 0 - (of_nat (i - j) :: u32)" using ji by (simp add: of_nat_diff)
      moreover have "unat (0 - (of_nat (i - j) :: u32)) = 2 ^ 32 - (i - j)"
        using l d(1) by (subst unat_sub_if') (simp add: unat_of_nat del: of_nat_diff)
      moreover have "k \<le> 2 ^ 32 - (i - j)" using d(2) assms(4) by linarith
      ultimately have "(of_nat k :: u32) \<le> b + of_nat j - (b + of_nat i)" using assms(4) by (simp add: word_le_nat_alt unat_of_nat)
      then show ?thesis by (simp add: upward_def)
    qed
  qed
qed

lemma malloc_same: "rt_align (of_nat (rounded newsize)) = of_nat (rounded newsize)" if "rounded newsize < 2 ^ 32"
proof -
  have u: "unat (of_nat (rounded newsize) :: u32) = rounded newsize" using that by (simp add: unat_of_nat)
  have "rounded newsize + 3 < 2 ^ 32" using that by (simp add: rounded_def)
  then have "rt_align (of_nat (rounded newsize)) = of_nat (rounded (of_nat (rounded newsize)))"
    using rt_align_nat [of "of_nat (rounded newsize)"] u by simp
  moreover have "rounded (of_nat (rounded newsize)) = rounded newsize" using u by (simp add: rounded_def)
  ultimately show ?thesis by simp
qed

lemma data_mono: "data b (xs @ (n, False) # ys) \<subseteq> data b (xs @ (n, True) # ys)"
  using data_replace [of "[(n, True)]" n b xs ys] by (simp add: span_cons)

lemma data_grow: "data b (xs @ (n, True) # ys) = data b (xs @ (n, False) # ys) \<union> {b + of_nat (span xs + 12 + i) | i. i < n}"
  by (auto simp: data_append data_Cons add_ac)

lemma carve_head:
  assumes "w \<le> n"
  obtains m rest where "carve w n = (m, True) # rest" "w \<le> m" "m \<le> n"
proof (cases "w + 24 \<le> n")
  case True
  then show ?thesis by (intro that [of w "[(n - w - 12, False)]"]) (simp_all add: carve_def)
next
  case False
  then show ?thesis using assms by (intro that [of n "[]"]) (simp_all add: carve_def)
qed

lemma offset_of: "a - (b :: u32) < of_nat n \<Longrightarrow> n < 2 ^ 32 \<Longrightarrow> \<exists>i < n. a = b + of_nat i"
  by (intro exI [of _ "unat (a - b)"]) (simp add: word_less_nat_alt unat_of_nat)

lemma copied_at: "i < n \<Longrightarrow> n < 2 ^ 32 \<Longrightarrow> copied d s (of_nat n) m (d + of_nat i) = m (s + of_nat i)"
  by (simp add: copied_def of_nat_less_u32)

lemma copied_away: "(\<And>i. i < n \<Longrightarrow> a \<noteq> d + of_nat i) \<Longrightarrow> n < 2 ^ 32 \<Longrightarrow> copied d s (of_nat n) m a = m a"
  using offset_of [of a d n] by (auto simp: copied_def)

text \<open>Joining free blocks, and freeing another block, leaves a block in use where it is.\<close>

lemma join_used: "\<exists>vs ws. join (xs @ (m, True) # ys) = vs @ (m, True) # ws \<and> span vs = span xs"
proof (induction xs)
  case Nil
  then show ?case by (intro exI [of _ "[]"] exI [of _ "join ys"]) (simp add: push_joined)
next
  case (Cons c xs)
  then obtain vs ws where v: "join (xs @ (m, True) # ys) = vs @ (m, True) # ws" "span vs = span xs" by blast
  show ?case
  proof (cases c "vs @ (m, True) # ws" rule: push_cases)
    case 1
    then show ?thesis using v by (intro exI [of _ "c # vs"] exI [of _ ws]) (simp add: span_cons)
  next
    case (2 k cs')
    then obtain vs' where "vs = (k, False) # vs'" "cs' = vs' @ (m, True) # ws" by (cases vs) auto
    then show ?thesis using v 2 by (intro exI [of _ "(fst c + 12 + k, False) # vs'"] exI [of _ ws]) (simp add: span_cons)
  qed
qed

lemma used_elsewhere:
  assumes "xs1 @ (m, True) # r = xs @ (n, True) # ys" and "span xs1 \<noteq> span xs"
  shows "\<exists>vs ws. xs @ (n, False) # ys = vs @ (m, True) # ws \<and> span vs = span xs1"
proof -
  from assms consider us where "xs1 = xs @ (n, True) # us" "ys = us @ (m, True) # r"
    | us where "xs = xs1 @ (m, True) # us" "r = us @ (n, True) # ys"
    by (auto simp: append_eq_append_conv2 append_eq_Cons_conv Cons_eq_append_conv)
  then show ?thesis
  proof cases
    case 1
    then show ?thesis by (intro exI [of _ "xs @ (n, False) # us"] exI [of _ r]) simp
  next
    case 2
    then show ?thesis by (intro exI [of _ xs1] exI [of _ "us @ (n, False) # ys"]) simp
  qed
qed

text \<open>\<open>used_at bs j m\<close>: a block of \<open>m\<close> bytes is in use at the offset \<open>j\<close>.\<close>

definition used_at :: "blocks \<Rightarrow> nat \<Rightarrow> nat \<Rightarrow> bool" where
  "used_at bs j m = (\<exists>xs ys. bs = xs @ (m, True) # ys \<and> j = span xs)"

lemma used_atI: "used_at (xs @ (m, True) # ys) (span xs) m"
  unfolding used_at_def by blast

lemma used_at_join: "used_at bs j m \<Longrightarrow> used_at (join bs) j m"
  unfolding used_at_def using join_used by metis

lemma used_at_replace:
  assumes "used_at (xs @ (n, False) # ys) j m" and "span zs = 12 + n"
  shows "used_at (xs @ zs @ ys) j m"
proof -
  obtain vs ws where v: "xs @ (n, False) # ys = vs @ (m, True) # ws" "j = span vs" using assms(1) by (auto simp: used_at_def)
  from v(1) consider us where "xs = vs @ (m, True) # us" "ws = us @ (n, False) # ys"
    | us where "vs = xs @ (n, False) # us" "ys = us @ (m, True) # ws"
    by (auto simp: append_eq_append_conv2 append_eq_Cons_conv Cons_eq_append_conv)
  then show ?thesis
  proof cases
    case 1
    then show ?thesis using v(2) used_atI [of vs m "us @ zs @ ys"] by simp
  next
    case 2
    then show ?thesis using v(2) assms(2) used_atI [of "xs @ zs @ us" m ws] by (simp add: span_cons)
  qed
qed

lemma used_at_mono: "used_at (xs @ (n, False) # ys) j m \<Longrightarrow> used_at (xs @ (n, True) # ys) j m"
  using used_at_replace [of xs n ys j m "[(n, True)]"] by simp

lemma used_at_freed: "used_at (xs @ (n, True) # ys) j m \<Longrightarrow> j \<noteq> span xs \<Longrightarrow> used_at (xs @ (n, False) # ys) j m"
  unfolding used_at_def using used_elsewhere by metis

lemma used_not_free: "used_at (xs @ (n, False) # ys) j m \<Longrightarrow> j \<noteq> span xs"
proof -
  assume "used_at (xs @ (n, False) # ys) j m"
  then obtain vs ws where v: "xs @ (n, False) # ys = vs @ (m, True) # ws" "j = span vs" by (auto simp: used_at_def)
  show "j \<noteq> span xs" using list_two_blocks [OF v(1)] v(2) by auto
qed

text \<open>What a program may rely on when it resizes its block: \<open>q\<close> is the new place.\<close>

definition resized :: "heap \<Rightarrow> blocks \<Rightarrow> nat \<Rightarrow> blocks \<Rightarrow> nat \<Rightarrow> u32 \<Rightarrow> heap \<Rightarrow> bool" where
  "resized h xs n ys z q h' = (\<exists>bs'. heap_ok h' bs' \<and> kept h h' \<and>
     (\<exists>j m. used_at bs' j m \<and> z \<le> m \<and> q = heap_ptr h + of_nat (j + 12)) \<and>
     (\<forall>j m. used_at (xs @ (n, False) # ys) j m \<longrightarrow> used_at bs' j m) \<and>
     (\<forall>i < min n z. h_mem h' (q + of_nat i) = h_mem h (heap_ptr h + of_nat (span xs + 12) + of_nat i)) \<and>
     (\<forall>a \<in> data (heap_ptr h) (xs @ (n, False) # ys). a \<in> data (heap_ptr h) bs' \<and> h_mem h' a = h_mem h a \<and>
       (\<forall>i < z. a \<noteq> q + of_nat i)))"

lemma realloc_moves:
  assumes k: "heap_ok h (xs @ (n, True) # ys)" and s: "newsize \<noteq> 0" "unat newsize + 3 < 2 ^ 32"
    "rounded newsize \<le> unat (mem_size_aligned h)" and ne: "n \<noteq> rounded newsize" "\<not> rounded newsize + 24 < n"
  defines "p \<equiv> heap_ptr h + of_nat (span xs + 12)"
  shows "\<exists>q h'. rt_realloc p newsize h = Some (q, h') \<and> (q = 0 \<and> h' = h \<or> resized h xs n ys (rounded newsize) q h')"
proof -
  let ?z = "rounded newsize" and ?b = "heap_ptr h" and ?S = "unat (mem_size_aligned h)"
  let ?w = "wanted (of_nat ?z)"
  define c where "c = min n ?z"
  have zl: "?z < 2 ^ 32 - 24" using s(3) heap_okD(9,10) [OF k] by simp
  have un: "unat (of_nat ?z :: u32) = ?z" using zl by (simp add: unat_of_nat)
  have rz: "rounded (of_nat ?z) = ?z" using un by (simp add: rounded_def)
  have a: "of_nat ?z \<noteq> (0 :: u32)" "unat (of_nat ?z :: u32) + 3 < 2 ^ 32" "rounded (of_nat ?z) \<le> ?S"
    using un rounded_pos [OF s(1)] zl rz s(3) by (metis less_numeral_extra(3) unat_0, simp_all)
  have zw: "?z \<le> ?w" using rz by (simp add: wanted_def)
  note mal = malloc_ok [OF k a]
  have re: "rt_realloc p newsize h = Option.bind (rt_malloc (of_nat ?z) h) (\<lambda>(nmem, h2).
       if nmem \<noteq> 0 then Option.bind (rt_free p (on_mem (rt_memcpy nmem p (of_nat c)) h2)) (\<lambda>h4. Some (nmem, h4))
       else Some (nmem, h2))"
    using realloc_enter [OF k s] ne unfolding p_def c_def by simp
  show ?thesis
  proof (cases "fit (?S - ?w) ?w 0 (xs @ (n, True) # ys)")
    case None
    then show ?thesis using mal re by simp
  next
    case (Some q0)
    obtain xs1 n1 ys1 h2 where v: "xs @ (n, True) # ys = xs1 @ (n1, False) # ys1" "?w \<le> n1"
      "rt_malloc (of_nat ?z) h = Some (?b + of_nat (span xs1 + 12), h2)" "heap_ok h2 (xs1 @ carve ?w n1 @ ys1)" "kept h h2"
      "\<forall>a. outside ?b (xs1 @ carve ?w n1 @ ys1) a \<longrightarrow> h_mem h2 a = h_mem h a"
      using mal Some by auto
    define q where "q = ?b + of_nat (span xs1 + 12)"
    obtain m rest where m: "carve ?w n1 = (m, True) # rest" "?w \<le> m" "m \<le> n1" using carve_head [OF v(2)] .
    have pt: "heap_ptr h2 = ?b" using v(5) by (simp add: kept_def)
    have q0: "q \<noteq> 0" using pointer_range(1) [of h2 xs1 m "rest @ ys1"] v(4) m(1) pt by (simp add: q_def del: of_nat_add)
    obtain xs' ys' where w: "xs1 @ carve ?w n1 @ ys1 = xs' @ (n, True) # ys'" "span xs' = span xs"
      "data ?b (xs @ (n, False) # ys) \<subseteq> data ?b (xs' @ (n, False) # ys')"
      "span xs + 12 + n \<le> span xs1 \<or> span xs1 + 12 + n1 \<le> span xs"
      using block_stays [OF v(1) carve_facts(1)] .
    let ?bs2 = "xs' @ (n, True) # ys'" and ?bs3 = "xs' @ (n, False) # ys'"
    have k2: "heap_ok h2 ?bs2" using v(4) w(1) by simp
    have two: "xs1 @ (m, True) # rest @ ys1 = ?bs2" using w(1) m(1) by simp
    have l: "span ?bs2 + 12 \<le> 2 ^ 32" "span ?bs3 + 12 \<le> 2 ^ 32" using heap_okD(9) [OF k2] by simp_all
    have l1: "span xs1 + 12 + m + 12 \<le> 2 ^ 32" using arg_cong [OF two, of span] l(1) by simp
    have l2: "span xs + 12 + n + 12 \<le> 2 ^ 32" using l(1) w(2) by simp
    have c: "c \<le> n" "c \<le> m" "c < 2 ^ 32" using zw m(2) zl by (auto simp: c_def)
    have new: "q + of_nat i \<in> data ?b ?bs2" if "i < m" for i
      using dataI [OF two [symmetric] that, of "q + of_nat i" ?b] by (simp add: q_def)
    have new3: "q + of_nat i \<in> data ?b ?bs3" if i: "i < m" for i
    proof -
      have "q + of_nat i \<noteq> ?b + of_nat (span xs' + 12 + j)" if "j < n" for j
      proof -
        have "(of_nat (span xs1 + 12 + i) :: u32) \<noteq> of_nat (span xs' + 12 + j)"
          using w(2,4) that i m(3) l1 l2 by (subst of_nat_eq_u32) auto
        then show ?thesis by (simp add: q_def)
      qed
      then show ?thesis using new [OF i] unfolding data_grow by blast
    qed
    have old: "p + of_nat i \<in> data ?b ?bs2" if "i < n" for i
      using dataI [OF refl that, of "p + of_nat i" ?b xs' ys'] w(2) by (simp add: p_def)
    have up: "upward q p (of_nat c)"
      unfolding q_def p_def by (rule data_far) (use c w(4) l1 l2 m(3) in auto)
    define h3 where "h3 = on_mem (rt_memcpy q p (of_nat c)) h2"
    have m3: "h_mem h3 = copied q p (of_nat c) (h_mem h2)" using memcpy_copied [OF up] by (simp add: h3_def on_mem_def)
    have h3: "h3 = h2\<lparr>h_mem := h_mem h3\<rparr>" by (simp add: h3_def on_mem_def)
    have away: "h_mem h3 a = h_mem h2 a" if "\<And>i. i < m \<Longrightarrow> a \<noteq> q + of_nat i" for a
      unfolding m3 by (rule copied_away) (use that c in auto)
    have "heap_ok (h2\<lparr>h_mem := h_mem h3\<rparr>) ?bs2"
      by (rule data_write_ok [OF k2]) (use away new pt in metis)
    then have k3: "heap_ok h3 ?bs2" using h3 by metis
    have p3: "heap_ptr h3 = ?b" using h3 pt by (metis heap.select_convs heap.surjective heap.update_convs)
    obtain h4 where f: "rt_free p h3 = Some h4" "heap_ok h4 (join ?bs3)" "kept h3 h4"
      "\<forall>a. outside ?b ?bs3 a \<longrightarrow> h_mem h4 a = h_mem h3 a"
      using free_ok [OF k3] w(2) unfolding p3 by (auto simp: p_def)
    have kh: "kept h h4" using v(5) f(3) by (simp add: kept_def h3_def on_mem_def)
    have r: "rt_realloc p newsize h = Some (q, h4)"
      using re v(3) q0 f(1) unfolding q_def [symmetric] h3_def by simp
    have out: "h_mem h4 a = h_mem h3 a" if "a \<in> data ?b ?bs3" for a using data_outside [OF that l(2)] f(4) by blast
    have out2: "h_mem h2 a = h_mem h a" if "a \<in> data ?b ?bs2" for a
      using data_outside [OF that l(1)] v(6) unfolding w(1) by blast
    have keep: "h_mem h4 (q + of_nat i) = h_mem h (p + of_nat i)" if "i < c" for i
      using out [OF new3, of i] out2 [OF old, of i] that c copied_at [OF that c(3)] m3 by simp
    have sub: "data ?b (xs @ (n, False) # ys) \<subseteq> data ?b (xs1 @ (n1, False) # ys1)" using data_mono v(1) by metis
    have l3: "span (xs1 @ (n1, False) # ys1) \<le> 2 ^ 32" using arg_cong [OF v(1), of span] heap_okD(9) [OF k] by simp
    have others: "a \<in> data ?b (join ?bs3) \<and> h_mem h4 a = h_mem h a \<and> (\<forall>i < ?z. a \<noteq> q + of_nat i)"
      if a: "a \<in> data ?b (xs @ (n, False) # ys)" for a
    proof -
      have ne: "a \<noteq> q + of_nat i" if "i < m" for i
        using data_other [OF subsetD [OF sub a] _ l3, of i] that m(3) by (simp add: q_def add_ac)
      have a3: "a \<in> data ?b ?bs3" using a w(3) by blast
      then have a2: "a \<in> data ?b ?bs2" using data_mono by blast
      have "h_mem h4 a = h_mem h a" using out [OF a3] away [OF ne] out2 [OF a2] by metis
      then show ?thesis using a3 ne m(2) zw by simp
    qed
    have block: "\<exists>j k. used_at (join ?bs3) j k \<and> ?z \<le> k \<and> q = ?b + of_nat (j + 12)"
    proof -
      have "used_at ?bs2 (span xs1) m" using used_atI [of xs1 m "rest @ ys1"] unfolding two .
      moreover have "span xs1 \<noteq> span xs'" using w(2,4) by auto
      ultimately have "used_at (join ?bs3) (span xs1) m" by (intro used_at_join used_at_freed)
      then show ?thesis using m(2) zw by (intro exI [of _ "span xs1"] exI [of _ m]) (simp add: q_def)
    qed
    have stay: "used_at (join ?bs3) j k" if u: "used_at (xs @ (n, False) # ys) j k" for j k
    proof -
      have "used_at (xs1 @ (n1, False) # ys1) j k" using used_at_mono [OF u] unfolding v(1) .
      then have "used_at ?bs2 j k" using used_at_replace [OF _ carve_facts(1)] unfolding w(1) [symmetric] by metis
      moreover have "j \<noteq> span xs'" using used_not_free [OF u] w(2) by simp
      ultimately show ?thesis by (intro used_at_join used_at_freed)
    qed
    have "resized h xs n ys ?z q h4"
      unfolding resized_def
    proof (rule exI [of _ "join ?bs3"], intro conjI)
      show "\<forall>i < min n ?z. h_mem h4 (q + of_nat i) = h_mem h (?b + of_nat (span xs + 12) + of_nat i)"
        using keep by (simp only: c_def p_def) simp
    qed (use f(2) kh others block stay in blast)+
    then show ?thesis using r by blast
  qed
qed

lemma realloc_same:
  assumes k: "heap_ok h (xs @ (n, True) # ys)" and z: "z \<le> n"
  shows "resized h xs n ys z (heap_ptr h + of_nat (span xs + 12)) h"
  unfolding resized_def
proof (rule exI [of _ "xs @ (n, True) # ys"], intro conjI)
  show "\<exists>j m. used_at (xs @ (n, True) # ys) j m \<and> z \<le> m \<and> heap_ptr h + of_nat (span xs + 12) = heap_ptr h + of_nat (j + 12)"
    using z used_atI by blast
  show "\<forall>j m. used_at (xs @ (n, False) # ys) j m \<longrightarrow> used_at (xs @ (n, True) # ys) j m" using used_at_mono by blast
  have "span (xs @ (n, False) # ys) \<le> 2 ^ 32" using heap_okD(9) [OF k] by simp
  then have "a \<noteq> heap_ptr h + of_nat (span xs + 12 + i)" if "a \<in> data (heap_ptr h) (xs @ (n, False) # ys)" "i < z" for a i
    using data_other [OF that(1), of i] that(2) z by simp
  then show "\<forall>a \<in> data (heap_ptr h) (xs @ (n, False) # ys). a \<in> data (heap_ptr h) (xs @ (n, True) # ys) \<and> h_mem h a = h_mem h a \<and>
      (\<forall>i < z. a \<noteq> heap_ptr h + of_nat (span xs + 12) + of_nat i)"
    by (simp add: subsetD [OF data_mono] add.assoc)
qed (use k in \<open>simp_all add: kept_def\<close>)

text \<open>Every way \<^verbatim>\<open>rt_realloc\<close> can go.\<close>

lemma realloc_ok:
  assumes k: "heap_ok h (xs @ (n, True) # ys)" and s: "newsize \<noteq> 0" "unat newsize + 3 < 2 ^ 32"
  shows "\<exists>q h'. rt_realloc (heap_ptr h + of_nat (span xs + 12)) newsize h = Some (q, h') \<and>
    (q = 0 \<and> h' = h \<or> resized h xs n ys (rounded newsize) q h')"
proof -
  let ?p = "heap_ptr h + of_nat (span xs + 12)" and ?z = "rounded newsize" and ?b = "heap_ptr h"
  have al: "unat (rt_align newsize) = ?z" using rt_align_nat [OF s(2)] by blast
  consider "unat (mem_size_aligned h) < ?z" | "?z \<le> unat (mem_size_aligned h)" "n = ?z"
    | "?z \<le> unat (mem_size_aligned h)" "?z + 24 < n"
    | "?z \<le> unat (mem_size_aligned h)" "n \<noteq> ?z" "\<not> ?z + 24 < n"
    by linarith
  then show ?thesis
  proof cases
    case 1
    then have "rt_align newsize > mem_size_aligned h" using al by (simp add: word_less_nat_alt)
    then show ?thesis by (simp add: rt_realloc_def)
  next
    case 2
    then have "rt_realloc ?p newsize h = Some (?p, h)" using realloc_enter [OF k s 2(1)] by simp
    then show ?thesis using realloc_same [OF k, of ?z] 2(2) by blast
  next
    case 3
    let ?bs1 = "xs @ (?z, True) # (n - ?z - 12, False) # ys"
    obtain h' where h: "rt_realloc ?p newsize h = Some (?p, h')" "heap_ok h' (join ?bs1)" "kept h h'"
      "\<forall>a. outside ?b ?bs1 a \<longrightarrow> h_mem h' a = h_mem h a"
      using realloc_shrinks [OF k s 3(2)] by blast
    have spn: "span ?bs1 = span (xs @ (n, True) # ys)" using 3(2) by simp
    have l: "span ?bs1 + 12 \<le> 2 ^ 32" using heap_okD(9) [OF k] unfolding spn by simp
    have out: "h_mem h' a = h_mem h a" if "a \<in> data ?b ?bs1" for a using data_outside [OF that l] h(4) by blast
    have all: "data ?b ?bs1 = data ?b (xs @ (n, False) # ys) \<union> {?p + of_nat i | i. i < ?z}"
      using 3(2) by (auto simp: data_append data_Cons add_ac)
    have "resized h xs n ys ?z ?p h'"
      unfolding resized_def
    proof (rule exI [of _ "join ?bs1"], intro conjI)
      show "heap_ok h' (join ?bs1)" "kept h h'" by (fact h)+
      show "\<exists>j m. used_at (join ?bs1) j m \<and> ?z \<le> m \<and> ?p = ?b + of_nat (j + 12)"
        using used_at_join [OF used_atI] by blast
      show "\<forall>j m. used_at (xs @ (n, False) # ys) j m \<longrightarrow> used_at (join ?bs1) j m"
        using used_at_replace [of xs n ys _ _ "[(?z, True), (n - ?z - 12, False)]"] 3(2) by (auto intro: used_at_join)
      show "\<forall>i < min n ?z. h_mem h' (?p + of_nat i) = h_mem h (?p + of_nat i)"
      proof (intro allI impI)
        fix i assume "i < min n ?z"
        then have "i < ?z" by simp
        then have "?p + of_nat i \<in> data ?b ?bs1" unfolding all by blast
        then show "h_mem h' (?p + of_nat i) = h_mem h (?p + of_nat i)" by (rule out)
      qed
      have l3: "span (xs @ (n, False) # ys) \<le> 2 ^ 32" using l spn by simp
      have "a \<noteq> ?p + of_nat i" if "a \<in> data ?b (xs @ (n, False) # ys)" "i < ?z" for a i
        using data_other [OF that(1) _ l3, of i] that(2) 3(2) by (simp add: add_ac)
      then show "\<forall>a \<in> data ?b (xs @ (n, False) # ys). a \<in> data ?b (join ?bs1) \<and> h_mem h' a = h_mem h a \<and>
          (\<forall>i < ?z. a \<noteq> ?p + of_nat i)"
        using out unfolding data_join all by simp
    qed
    then show ?thesis using h(1) by blast
  next
    case 4
    then show ?thesis using realloc_moves [OF k s] by blast
  qed
qed

end
