(* ===== verification/Rt_Heap_Run.thy ===== *)
theory Rt_Heap_Run
  imports Rt_Resize
begin

text \<open>
  A program and its heap: it asks for blocks, resizes them, gives them back, and writes to what it
  owns. Every call returns, and the areas it owns stay apart.
\<close>

section \<open>What a call promises\<close>

text \<open>\<open>granted h bs z q h'\<close>: from the blocks \<open>bs\<close>, the caller got \<open>z\<close> bytes at \<open>q\<close>, and nobody lost any.\<close>

definition granted :: "heap \<Rightarrow> blocks \<Rightarrow> nat \<Rightarrow> u32 \<Rightarrow> heap \<Rightarrow> bool" where
  "granted h bs z q h' = (\<exists>bs'. heap_ok h' bs' \<and> kept h h' \<and>
     (\<exists>j m. used_at bs' j m \<and> z \<le> m \<and> q = heap_ptr h + of_nat (j + 12)) \<and>
     (\<forall>j m. used_at bs j m \<longrightarrow> used_at bs' j m) \<and>
     (\<forall>a \<in> data (heap_ptr h) bs. h_mem h' a = h_mem h a \<and> (\<forall>i < z. a \<noteq> q + of_nat i)))"

lemma data_used: "a \<in> data b bs \<longleftrightarrow> (\<exists>j m i. used_at bs j m \<and> i < m \<and> a = b + of_nat (j + 12 + i))"
  unfolding data_def used_at_def by blast

lemma data_used_mono: "(\<And>j m. used_at bs j m \<Longrightarrow> used_at bs' j m) \<Longrightarrow> data b bs \<subseteq> data b bs'"
proof
  fix a assume u: "\<And>j m. used_at bs j m \<Longrightarrow> used_at bs' j m" and "a \<in> data b bs"
  then obtain j m i where "used_at bs j m" "i < m" "a = b + of_nat (j + 12 + i)" unfolding data_used by blast
  then show "a \<in> data b bs'" using u unfolding data_used by blast
qed

lemma resized_bytes:
  "resized h xs n ys z q h' \<Longrightarrow> i < n \<Longrightarrow> i < z \<Longrightarrow> h_mem h' (q + of_nat i) = h_mem h (heap_ptr h + of_nat (span xs + 12) + of_nat i)"
  unfolding resized_def by (metis min_less_iff_conj)

lemma resized_granted: "resized h xs n ys z q h' \<Longrightarrow> granted h (xs @ (n, False) # ys) z q h'"
  unfolding resized_def granted_def by blast

lemma rounded_ge: "unat s \<le> rounded s"
  by (simp add: rounded_def)

lemma granted_less:
  assumes "granted h bs z q h'" and y: "y \<le> z"
  shows "granted h bs y q h'"
proof -
  obtain bs' j m where v: "heap_ok h' bs'" "kept h h'" "used_at bs' j m" "z \<le> m" "q = heap_ptr h + of_nat (j + 12)"
    "\<forall>j m. used_at bs j m \<longrightarrow> used_at bs' j m"
    "\<forall>a \<in> data (heap_ptr h) bs. h_mem h' a = h_mem h a \<and> (\<forall>i < z. a \<noteq> q + of_nat i)"
    using assms(1) unfolding granted_def by blast
  show ?thesis
    unfolding granted_def
  proof (rule exI [of _ bs'], intro conjI)
    show "\<exists>j m. used_at bs' j m \<and> y \<le> m \<and> q = heap_ptr h + of_nat (j + 12)" using v(3-5) y order_trans by blast
    show "\<forall>a \<in> data (heap_ptr h) bs. h_mem h' a = h_mem h a \<and> (\<forall>i < y. a \<noteq> q + of_nat i)"
      using v(7) order_less_le_trans [OF _ y] by blast
  qed (fact v)+
qed

lemma malloc_first_fit:
  assumes k: "heap_ok h bs" and s: "size0 \<noteq> 0" "unat size0 + 3 < 2 ^ 32" "rounded size0 \<le> unat (mem_size_aligned h)"
    and f: "fit (unat (mem_size_aligned h) - wanted size0) (wanted size0) 0 bs = Some o1"
  obtains xs n ys h' where "bs = xs @ (n, False) # ys" "o1 = span xs" "wanted size0 \<le> n"
    "rt_malloc size0 h = Some (heap_ptr h + of_nat (span xs + 12), h')"
    "heap_ok h' (xs @ carve (wanted size0) n @ ys)" "kept h h'" "granted h bs (unat size0) (heap_ptr h + of_nat (span xs + 12)) h'"
proof -
  obtain xs n ys h' where v: "bs = xs @ (n, False) # ys" "o1 = span xs" "wanted size0 \<le> n"
    "rt_malloc size0 h = Some (heap_ptr h + of_nat (span xs + 12), h')"
    "heap_ok h' (xs @ carve (wanted size0) n @ ys)" "kept h h'"
    "\<forall>a. outside (heap_ptr h) (xs @ carve (wanted size0) n @ ys) a \<longrightarrow> h_mem h' a = h_mem h a"
    using malloc_ok [OF k s] f by auto
  let ?bs' = "xs @ carve (wanted size0) n @ ys" and ?b = "heap_ptr h"
  obtain m rest where m: "carve (wanted size0) n = (m, True) # rest" "wanted size0 \<le> m" "m \<le> n" using carve_head [OF v(3)] .
  have z: "unat size0 \<le> m" using m(2) rounded_ge [of size0] by (simp add: wanted_def)
  have l: "span bs \<le> 2 ^ 32" "span ?bs' + 12 \<le> 2 ^ 32"
    using heap_okD(9) [OF k] heap_okD(9) [OF v(5)] by simp_all
  have "granted h bs (unat size0) (?b + of_nat (span xs + 12)) h'"
    unfolding granted_def
  proof (rule exI [of _ ?bs'], intro conjI)
    have "used_at ?bs' (span xs) m" unfolding m(1) using used_atI [of xs m "rest @ ys"] by simp
    then show "\<exists>j m. used_at ?bs' j m \<and> unat size0 \<le> m \<and> ?b + of_nat (span xs + 12) = ?b + of_nat (j + 12)" using z by blast
    show "\<forall>j m. used_at bs j m \<longrightarrow> used_at ?bs' j m" unfolding v(1) using used_at_replace [OF _ carve_facts(1)] by blast
    have "h_mem h' a = h_mem h a \<and> (\<forall>i < unat size0. a \<noteq> ?b + of_nat (span xs + 12) + of_nat i)" if a: "a \<in> data ?b bs" for a
    proof -
      have "a \<in> data ?b ?bs'" using data_replace [where b = ?b and xs = xs and ys = ys, OF carve_facts(1)] a unfolding v(1) by blast
      then have "h_mem h' a = h_mem h a" using data_outside [OF _ l(2)] v(7) by blast
      moreover have "a \<noteq> ?b + of_nat (span xs + 12) + of_nat i" if "i < unat size0" for i
        using data_other [of a ?b xs n ys i] a l(1) that z m(3) unfolding v(1) by (simp add: add_ac)
      ultimately show ?thesis by blast
    qed
    then show "\<forall>a \<in> data ?b bs. h_mem h' a = h_mem h a \<and> (\<forall>i < unat size0. a \<noteq> ?b + of_nat (span xs + 12) + of_nat i)" by blast
  qed (fact v)+
  with v that show ?thesis by blast
qed

lemma malloc_too_big:
  "size0 \<noteq> 0 \<Longrightarrow> unat size0 + 3 < 2 ^ 32 \<Longrightarrow> unat (mem_size_aligned h) < rounded size0 \<Longrightarrow> rt_malloc size0 h = Some (0, h)"
proof -
  assume s: "size0 \<noteq> 0" "unat size0 + 3 < 2 ^ 32" "unat (mem_size_aligned h) < rounded size0"
  have "unat (rt_align size0) = rounded size0" using rt_align_nat [OF s(2)] by blast
  then have "rt_align size0 > mem_size_aligned h" using s(3) by (simp add: word_less_nat_alt)
  then show ?thesis using s(1) by (simp add: rt_malloc_def)
qed

lemma malloc_grants:
  assumes k: "heap_ok h bs" and s: "size0 \<noteq> 0" "unat size0 + 3 < 2 ^ 32"
  shows "\<exists>q h'. rt_malloc size0 h = Some (q, h') \<and> (q = 0 \<and> h' = h \<or> granted h bs (unat size0) q h')"
proof (cases "rounded size0 \<le> unat (mem_size_aligned h)")
  case True
  show ?thesis
  proof (cases "fit (unat (mem_size_aligned h) - wanted size0) (wanted size0) 0 bs")
    case None
    then show ?thesis using malloc_ok [OF k s True] by simp
  next
    case (Some o1)
    from malloc_first_fit [OF k s True Some] show ?thesis by metis
  qed
next
  case False
  then show ?thesis using malloc_too_big [OF s] by simp
qed

lemma granted_write:
  assumes g: "granted h bs z q h'" and m: "\<And>a. (\<And>i. i < z \<Longrightarrow> a \<noteq> q + of_nat i) \<Longrightarrow> f (h_mem h') a = h_mem h' a"
  shows "granted h bs z q (on_mem f h')"
proof -
  obtain bs' j m where v: "heap_ok h' bs'" "kept h h'" "used_at bs' j m" "z \<le> m" "q = heap_ptr h + of_nat (j + 12)"
    "\<forall>j m. used_at bs j m \<longrightarrow> used_at bs' j m"
    "\<forall>a \<in> data (heap_ptr h) bs. h_mem h' a = h_mem h a \<and> (\<forall>i < z. a \<noteq> q + of_nat i)"
    using g unfolding granted_def by blast
  have pt: "heap_ptr h' = heap_ptr h" using v(2) by (simp add: kept_def)
  have "f (h_mem h') a = h_mem h' a" if n: "a \<notin> data (heap_ptr h') bs'" for a
  proof (rule m)
    fix i assume "i < z"
    then have "q + of_nat i \<in> data (heap_ptr h') bs'"
      unfolding data_used pt by (intro exI [of _ j] exI [of _ m] exI [of _ i]) (use v(3-5) in simp)
    then show "a \<noteq> q + of_nat i" using n by blast
  qed
  then have "heap_ok (h'\<lparr>h_mem := f (h_mem h')\<rparr>) bs'" using data_write_ok [OF v(1)] by blast
  then have k: "heap_ok (on_mem f h') bs'" by (simp add: on_mem_def)
  show ?thesis
    unfolding granted_def
  proof (rule exI [of _ bs'], intro conjI)
    show "\<forall>a \<in> data (heap_ptr h) bs. h_mem (on_mem f h') a = h_mem h a \<and> (\<forall>i < z. a \<noteq> q + of_nat i)"
      using v(7) m by (simp add: on_mem_def)
  qed (use k v in \<open>auto simp: kept_def on_mem_def\<close>)
qed

lemma calloc_grants:
  assumes k: "heap_ok h bs" and s: "count * sz \<noteq> 0" "unat (count * sz) + 3 < 2 ^ 32"
  shows "\<exists>q h'. rt_calloc count sz h = Some (q, h') \<and> (q = 0 \<and> h' = h \<or>
    granted h bs (unat (count * sz)) q h' \<and> (\<forall>i < unat (count * sz). h_mem h' (q + of_nat i) = 0))"
proof -
  let ?s = "count * sz"
  obtain q h1 where m: "rt_malloc ?s h = Some (q, h1)" "q = 0 \<and> h1 = h \<or> granted h bs (unat ?s) q h1"
    using malloc_grants [OF k s] by blast
  show ?thesis
  proof (cases "q = 0")
    case True
    show ?thesis
    proof (cases "h1 = h")
      case True
      then show ?thesis using m(1) \<open>q = 0\<close> by (simp add: rt_calloc_def)
    next
      case False
      then obtain bs' j k where "heap_ok h1 bs'" "used_at bs' j k" "q = heap_ptr h1 + of_nat (j + 12)"
        using m(2) unfolding granted_def kept_def by metis
      then show ?thesis using pointer_range(1) \<open>q = 0\<close> unfolding used_at_def by metis
    qed
  next
    case False
    let ?h2 = "on_mem (rt_memset q 0 ?s) h1"
    have f: "rt_memset q 0 ?s m = filled q ?s 0 m" for m using memset_filled [of q 0 ?s m] by simp
    have g: "granted h bs (unat ?s) q ?h2"
    proof (rule granted_write)
      show "granted h bs (unat ?s) q h1" using m(2) False by simp
      fix a assume "\<And>i. i < unat ?s \<Longrightarrow> a \<noteq> q + of_nat i"
      then have "\<not> a - q < of_nat (unat ?s)" using offset_of [of a q "unat ?s"] unsigned_less [of ?s] by auto
      then show "rt_memset q 0 ?s (h_mem h1) a = h_mem h1 a" by (simp add: f filled_def)
    qed
    have "h_mem ?h2 (q + of_nat i) = 0" if "i < unat ?s" for i
    proof -
      have "unat ?s < 2 ^ 32" using unsigned_less [of ?s] by simp
      then have "i < 2 ^ 32" using that by simp
      then have "(of_nat i :: u32) < ?s" using that by (simp add: word_less_nat_alt unat_of_nat)
      then show ?thesis by (simp add: on_mem_def f filled_def)
    qed
    then show ?thesis using m(1) False g by (simp add: rt_calloc_def)
  qed
qed

section \<open>A program at work\<close>

text \<open>The blocks a program owns, with the sizes it asked for.\<close>

type_synonym ledger = "(u32 \<times> nat) list"

definition owns :: "heap \<Rightarrow> blocks \<Rightarrow> ledger \<Rightarrow> bool" where
  "owns h bs K = (distinct (map fst K) \<and>
     (\<forall>(q, z) \<in> set K. 0 < z \<and> (\<exists>j m. used_at bs j m \<and> z \<le> m \<and> q = heap_ptr h + of_nat (j + 12))))"

text \<open>
  The steps of a program that starts with a fresh heap: it uses the calls with any sizes, but only
  gives back or writes to what it owns.
\<close>

inductive heap_run :: "heap \<Rightarrow> ledger \<Rightarrow> bool" where
  start: "unat b + 3 < 2 ^ 32 \<Longrightarrow> rounded b + 36 \<le> 4 * (unat e div 4) \<Longrightarrow> used_mem h = 0 \<Longrightarrow>
    heap_run (rt_system_heap_init b e h) []"
| alloc: "heap_run h K \<Longrightarrow> unat sz + 3 < 2 ^ 32 \<Longrightarrow> rt_malloc sz h = Some (q, h') \<Longrightarrow>
    heap_run h' (if q = 0 then K else (q, unat sz) # K)"
| clear: "heap_run h K \<Longrightarrow> unat (n * sz) + 3 < 2 ^ 32 \<Longrightarrow> rt_calloc n sz h = Some (q, h') \<Longrightarrow>
    heap_run h' (if q = 0 then K else (q, unat (n * sz)) # K)"
| give: "heap_run h (K @ (q, z) # L) \<Longrightarrow> rt_free q h = Some h' \<Longrightarrow> heap_run h' (K @ L)"
| resize: "heap_run h (K @ (q, z) # L) \<Longrightarrow> sz \<noteq> 0 \<Longrightarrow> unat sz + 3 < 2 ^ 32 \<Longrightarrow> rt_realloc q sz h = Some (q', h') \<Longrightarrow>
    heap_run h' (if q' = 0 then K @ (q, z) # L else (q', unat sz) # K @ L)"
| drop: "heap_run h (K @ (q, z) # L) \<Longrightarrow> rt_realloc q 0 h = Some (q', h') \<Longrightarrow> heap_run h' (K @ L)"
| put: "heap_run h K \<Longrightarrow> (q, z) \<in> set K \<Longrightarrow> i < z \<Longrightarrow> heap_run (h\<lparr>h_mem := (h_mem h)(q + of_nat i := v)\<rparr>) K"

lemma owns_data: "owns h bs K \<Longrightarrow> (q, z) \<in> set K \<Longrightarrow> i < z \<Longrightarrow> q + of_nat i \<in> data (heap_ptr h) bs"
  unfolding owns_def data_used by (force simp: add_ac)

lemma owns_kept: "owns h bs K \<Longrightarrow> kept h h' \<Longrightarrow> (\<And>j m. used_at bs j m \<Longrightarrow> used_at bs' j m) \<Longrightarrow> owns h' bs' K"
proof -
  assume o: "owns h bs K" and k: "kept h h'" and u: "\<And>j m. used_at bs j m \<Longrightarrow> used_at bs' j m"
  have pt: "heap_ptr h' = heap_ptr h" using k by (simp add: kept_def)
  show "owns h' bs' K"
    unfolding owns_def pt
  proof (intro conjI ballI)
    show "distinct (map fst K)" using o by (simp add: owns_def)
    fix x assume "x \<in> set K"
    then show "case x of (q, z) \<Rightarrow> 0 < z \<and> (\<exists>j m. used_at bs' j m \<and> z \<le> m \<and> q = heap_ptr h + of_nat (j + 12))"
      using o u unfolding owns_def by blast
  qed
qed

lemma owns_perm: "owns h bs (K @ (q, z) # L) \<longleftrightarrow> owns h bs ((q, z) # K @ L)"
proof -
  have "set (K @ (q, z) # L) = set ((q, z) # K @ L)" "distinct (map fst (K @ (q, z) # L)) = distinct (map fst ((q, z) # K @ L))"
    by auto
  then show ?thesis unfolding owns_def by (simp only:)
qed

lemma owns_granted:
  assumes o: "owns h bs K" and g: "granted h bs z q h'" and z: "0 < z"
  shows "\<exists>bs'. heap_ok h' bs' \<and> owns h' bs' ((q, z) # K)"
proof -
  obtain bs' j m where v: "heap_ok h' bs'" "kept h h'" "used_at bs' j m" "z \<le> m" "q = heap_ptr h + of_nat (j + 12)"
    "\<forall>j m. used_at bs j m \<longrightarrow> used_at bs' j m"
    "\<forall>a \<in> data (heap_ptr h) bs. h_mem h' a = h_mem h a \<and> (\<forall>i < z. a \<noteq> q + of_nat i)"
    using g unfolding granted_def by blast
  have pt: "heap_ptr h' = heap_ptr h" using v(2) by (simp add: kept_def)
  have new: "q \<notin> fst ` set K"
  proof
    assume "q \<in> fst ` set K"
    then obtain y where y: "(q, y) \<in> set K" by force
    then have "0 < y" using o unfolding owns_def by fastforce
    then have "q \<in> data (heap_ptr h) bs" using owns_data [OF o y, of 0] by simp
    then have "q \<noteq> q + of_nat 0" using v(7) z by blast
    then show False by simp
  qed
  have "owns h' bs' K" using owns_kept [OF o v(2)] v(6) by blast
  moreover have "\<exists>j m. used_at bs' j m \<and> z \<le> m \<and> q = heap_ptr h + of_nat (j + 12)" using v(3-5) by blast
  ultimately have "owns h' bs' ((q, z) # K)" using new z unfolding owns_def pt by (simp del: of_nat_add)
  then show ?thesis using v(1) by blast
qed

text \<open>Giving up a block: the others are still owned in the list where that block is free.\<close>

lemma owns_rest:
  assumes o: "owns h bs (K @ (q, z) # L)"
  obtains xs n ys where "bs = xs @ (n, True) # ys" "q = heap_ptr h + of_nat (span xs + 12)" "owns h (xs @ (n, False) # ys) (K @ L)"
proof -
  have o2: "owns h bs ((q, z) # K @ L)" using o by (simp add: owns_perm)
  then obtain xs n ys where b: "bs = xs @ (n, True) # ys" "q = heap_ptr h + of_nat (span xs + 12)"
    unfolding owns_def used_at_def by auto
  have "owns h (xs @ (n, False) # ys) (K @ L)"
    unfolding owns_def
  proof (intro conjI ballI, goal_cases)
    case 1 then show ?case using o2 unfolding owns_def by simp
  next
    case (2 x)
    obtain q' z' where x: "x = (q', z')" by fastforce
    have "q \<notin> fst ` set (K @ L)" using o2 unfolding owns_def by (simp add: image_Un)
    moreover have "q' \<in> fst ` set (K @ L)" using 2 x by (metis fst_conv image_eqI)
    ultimately have ne: "q' \<noteq> q" by metis
    obtain j m where j: "0 < z'" "used_at bs j m" "z' \<le> m" "q' = heap_ptr h + of_nat (j + 12)"
    proof -
      have "(q', z') \<in> set ((q, z) # K @ L)" using 2 x by simp
      then have "case (q', z') of (q, z) \<Rightarrow> 0 < z \<and> (\<exists>j m. used_at bs j m \<and> z \<le> m \<and> q = heap_ptr h + of_nat (j + 12))"
        using o2 unfolding owns_def by blast
      then show ?thesis using that by auto
    qed
    then have "used_at (xs @ (n, False) # ys) j m" using used_at_freed b ne by metis
    then show ?case using j x by auto
  qed
  with b that show ?thesis by blast
qed

lemma no_bytes: "rt_malloc 0 h = Some (0, h)" "n * sz = 0 \<Longrightarrow> rt_calloc n sz h = Some (0, h)"
  by (simp_all add: rt_malloc_def rt_calloc_def)

lemma realloc_none: "heap_ok h bs \<Longrightarrow> rt_realloc q 0 h = Option.bind (rt_free q h) (\<lambda>h1. Some (0, h1))"
  by (simp add: rt_realloc_def rt_align_def RT_ALIGN_SIZE_def)

text \<open>Where a block in use lies.\<close>

lemma span_dvd: "(\<And>n u. (n, u) \<in> set bs \<Longrightarrow> 4 dvd n) \<Longrightarrow> 4 dvd span bs"
proof (induction bs)
  case (Cons b bs)
  have "4 dvd fst b" using Cons.prems [of "fst b" "snd b"] by simp
  moreover have "4 dvd span bs" using Cons.IH Cons.prems by fastforce
  ultimately show ?case by (simp add: span_cons)
qed simp

lemma used_place:
  assumes k: "heap_ok h bs" and u: "used_at bs j m"
  defines "q \<equiv> heap_ptr h + of_nat (j + 12)"
  shows "q \<noteq> 0" "4 dvd unat q" "unat q = unat (heap_ptr h) + j + 12" "unat q + m \<le> unat (heap_end h)" "0 < m"
proof -
  obtain xs ys where b: "bs = xs @ (m, True) # ys" "j = span xs" using u by (auto simp: used_at_def)
  have l: "unat (heap_ptr h) + (span xs + 12 + m + span ys) + 12 < 2 ^ 32" using heap_okD(9) [OF k] b(1) by simp
  have add: "unat (heap_ptr h + of_nat i) = unat (heap_ptr h) + i" if "unat (heap_ptr h) + i < 2 ^ 32" for i
    using that unat_add_lem [of "heap_ptr h" "of_nat i"] by (simp add: unat_of_nat)
  show q: "unat q = unat (heap_ptr h) + j + 12" unfolding q_def by (subst add) (use l b(2) in simp_all)
  then show "q \<noteq> 0" by (intro notI) simp
  have "4 dvd span xs" by (rule span_dvd) (use heap_okD(3) [OF k] b(1) in auto)
  then show "4 dvd unat q" unfolding q using heap_okD(4) [OF k] b(2) by simp
  have "heap_end h = heap_ptr h + of_nat (span bs)" using heap_okD(1) [OF k] unfolding shape_def by blast
  then have "unat (heap_end h) = unat (heap_ptr h) + span bs" by (elim ssubst, intro add) (use l b(1) in simp)
  then show "unat q + m \<le> unat (heap_end h)" using q b by simp
  show "0 < m" using heap_okD(3) [OF k, of m True] b(1) by simp
qed

lemma granted_pointer: "granted h bs z q h' \<Longrightarrow> q \<noteq> 0"
  unfolding granted_def kept_def using used_place(1) by metis

lemma owns_free:
  assumes k: "heap_ok h bs" and o: "owns h bs (K @ (q, z) # L)"
  shows "\<exists>h'. rt_free q h = Some h' \<and> (\<exists>bs'. heap_ok h' bs' \<and> owns h' bs' (K @ L))"
proof -
  obtain xs n ys where b: "bs = xs @ (n, True) # ys" "q = heap_ptr h + of_nat (span xs + 12)" "owns h (xs @ (n, False) # ys) (K @ L)"
    using owns_rest [OF o] .
  obtain h' where h: "rt_free q h = Some h'" "heap_ok h' (join (xs @ (n, False) # ys))" "kept h h'"
    using free_ok [of h xs n ys] k b(1,2) by auto
  then show ?thesis using owns_kept [OF b(3) h(3) used_at_join] by blast
qed

lemma heap_run_ok: "heap_run h K \<Longrightarrow> \<exists>bs. heap_ok h bs \<and> owns h bs K"
proof (induction rule: heap_run.induct)
  case (start b e h)
  then show ?case using heap_init_ok(1) [OF start] by (auto simp: owns_def)
next
  case (alloc h K sz q h')
  then obtain bs where k: "heap_ok h bs" "owns h bs K" by blast
  show ?case
  proof (cases "sz = 0")
    case True
    then show ?thesis using alloc.hyps(3) k no_bytes(1) by auto
  next
    case False
    then have z: "0 < unat sz" by (simp add: unat_gt_0)
    have "q = 0 \<and> h' = h \<or> granted h bs (unat sz) q h'" using malloc_grants [OF k(1) False alloc.hyps(2)] alloc.hyps(3) by auto
    then show ?thesis using k owns_granted [OF k(2) _ z] granted_pointer by (cases "q = 0") (simp_all, metis)
  qed
next
  case (clear h K n sz q h')
  then obtain bs where k: "heap_ok h bs" "owns h bs K" by blast
  show ?case
  proof (cases "n * sz = 0")
    case True
    then show ?thesis using clear.hyps(3) k no_bytes(2) [OF True] by auto
  next
    case False
    then have z: "0 < unat (n * sz)" by (simp add: unat_gt_0)
    have "q = 0 \<and> h' = h \<or> granted h bs (unat (n * sz)) q h'"
      using calloc_grants [OF k(1) False clear.hyps(2)] clear.hyps(3) by auto
    then show ?thesis using k owns_granted [OF k(2) _ z] granted_pointer by (cases "q = 0") (simp_all, metis)
  qed
next
  case (give h K q z L h')
  then obtain bs where k: "heap_ok h bs" "owns h bs (K @ (q, z) # L)" by blast
  then show ?case using owns_free [OF k] give.hyps(2) by auto
next
  case (resize h K q z L sz q' h')
  then obtain bs where k: "heap_ok h bs" "owns h bs (K @ (q, z) # L)" by blast
  obtain xs n ys where b: "bs = xs @ (n, True) # ys" "q = heap_ptr h + of_nat (span xs + 12)" "owns h (xs @ (n, False) # ys) (K @ L)"
    using owns_rest [OF k(2)] .
  have z: "0 < unat sz" using resize.hyps(2) by (simp add: unat_gt_0)
  have "q' = 0 \<and> h' = h \<or> resized h xs n ys (rounded sz) q' h'"
    using realloc_ok [of h xs n ys, OF _ resize.hyps(2,3)] resize.hyps(4) k(1) b(1,2) by auto
  then have "q' = 0 \<and> h' = h \<or> granted h (xs @ (n, False) # ys) (unat sz) q' h'"
    using resized_granted granted_less rounded_ge by blast
  then show ?case using k owns_granted [OF b(3) _ z] granted_pointer by (cases "q' = 0") (simp_all, metis)
next
  case (drop h K q z L q' h')
  then obtain bs where k: "heap_ok h bs" "owns h bs (K @ (q, z) # L)" by blast
  then show ?case using owns_free [OF k] drop.hyps(2) realloc_none [OF k(1)] by auto
next
  case (put h K q z i v)
  then obtain bs where k: "heap_ok h bs" "owns h bs K" by blast
  have "q + of_nat i \<in> data (heap_ptr h) bs" by (rule owns_data [OF k(2) put.hyps(2,3)])
  then have "heap_ok (h\<lparr>h_mem := (h_mem h)(q + of_nat i := v)\<rparr>) bs" by (intro data_write_ok [OF k(1)]) auto
  moreover have "owns (h\<lparr>h_mem := (h_mem h)(q + of_nat i := v)\<rparr>) bs K" by (rule owns_kept [OF k(2)]) (simp_all add: kept_def)
  ultimately show ?case by blast
qed

section \<open>What a program owns\<close>

lemma granted_aligned: "granted h bs z q h' \<Longrightarrow> 4 dvd unat q"
  unfolding granted_def kept_def using used_place(2) by metis

lemma owned_block:
  assumes "owns h bs K" and "(q, z) \<in> set K"
  obtains j m where "0 < z" "used_at bs j m" "z \<le> m" "q = heap_ptr h + of_nat (j + 12)"
proof -
  have "case (q, z) of (q, z) \<Rightarrow> 0 < z \<and> (\<exists>j m. used_at bs j m \<and> z \<le> m \<and> q = heap_ptr h + of_nat (j + 12))"
    using assms unfolding owns_def by blast
  then show ?thesis using that by auto
qed

lemma owned_area:
  assumes k: "heap_ok h bs" and o: "owns h bs K"
  shows "\<forall>(q, z) \<in> set K. rt_free q h \<noteq> None \<and> (\<forall>sz. unat sz + 3 < 2 ^ 32 \<longrightarrow> rt_realloc q sz h \<noteq> None) \<and>
    4 dvd unat q \<and> unat (heap_ptr h) < unat q \<and> unat q + z \<le> unat (heap_end h)"
proof (rule ballI, clarify)
  fix q z assume a: "(q, z) \<in> set K"
  obtain j m where b: "0 < z" "used_at bs j m" "z \<le> m" "q = heap_ptr h + of_nat (j + 12)" using owned_block [OF o a] .
  obtain xs ys where x: "bs = xs @ (m, True) # ys" "j = span xs" using b(2) by (auto simp: used_at_def)
  note p = used_place [OF k b(2), folded b(4)]
  have f: "rt_free q h \<noteq> None" using free_ok [of h xs m ys] k x b(4) by auto
  moreover have "rt_realloc q sz h \<noteq> None" if s: "unat sz + 3 < 2 ^ 32" for sz
  proof (cases "sz = 0")
    case True
    then show ?thesis using f realloc_none [OF k] by auto
  next
    case False
    then show ?thesis using realloc_ok [of h xs m ys sz] k s x b(4) by auto
  qed
  ultimately show "rt_free q h \<noteq> None \<and> (\<forall>sz. unat sz + 3 < 2 ^ 32 \<longrightarrow> rt_realloc q sz h \<noteq> None) \<and>
      4 dvd unat q \<and> unat (heap_ptr h) < unat q \<and> unat q + z \<le> unat (heap_end h)"
    using p b(3) by simp
qed

lemma owned_apart:
  assumes k: "heap_ok h bs" and o: "owns h bs K"
  shows "\<forall>(q, z) \<in> set K. \<forall>(q', z') \<in> set K. q \<noteq> q' \<longrightarrow> unat q + z \<le> unat q' \<or> unat q' + z' \<le> unat q"
proof (intro ballI, clarify)
  fix q z q' z' assume a: "(q, z) \<in> set K" "(q', z') \<in> set K" "q \<noteq> q'" "\<not> unat q' + z' \<le> unat q"
  obtain j m where b: "0 < z" "used_at bs j m" "z \<le> m" "q = heap_ptr h + of_nat (j + 12)" using owned_block [OF o a(1)] .
  obtain j' m' where b': "0 < z'" "used_at bs j' m'" "z' \<le> m'" "q' = heap_ptr h + of_nat (j' + 12)" using owned_block [OF o a(2)] .
  obtain xs ys vs ws where x: "bs = xs @ (m, True) # ys" "j = span xs" "bs = vs @ (m', True) # ws" "j' = span vs"
    using b(2) b'(2) unfolding used_at_def by metis
  have "j \<noteq> j'" using a(3) b(4) b'(4) by auto
  then have "j + 12 + m \<le> j' \<or> j' + 12 + m' \<le> j" using list_two_blocks [of xs m True ys vs m' True ws] x by auto
  then show "unat q + z \<le> unat q'"
    using used_place(3) [OF k b(2)] used_place(3) [OF k b'(2)] a(4) b(3,4) b'(3,4) by auto
qed

section \<open>Joining again what was split\<close>

lemma join_append: "join (xs @ ys) = foldr push xs (join ys)"
  by (induction xs) simp_all

lemma uncarve:
  assumes c: "carve w n = (m, True) # rest" and j: "joined (xs @ (n, False) # ys)"
  shows "join (xs @ (m, False) # rest @ ys) = xs @ (n, False) # ys"
proof -
  have ys: "join ys = ys" "ys = [] \<or> snd (hd ys)" using j by (auto simp: joined_append joined_cons intro: joined_join)
  have "join ((m, False) # rest @ ys) = (n, False) # ys"
  proof (cases "w + 24 \<le> n")
    case True
    then have "m = w" "rest = [(n - w - 12, False)]" using c by (auto simp: carve_def)
    then show ?thesis using ys True by (simp add: push_joined) (simp add: push_def)
  next
    case False
    then have "m = n" "rest = []" using c by (auto simp: carve_def)
    then show ?thesis using ys by (simp add: push_joined)
  qed
  moreover have "join ((n, False) # ys) = (n, False) # ys" using ys by (simp add: push_joined)
  ultimately have "join (xs @ (m, False) # rest @ ys) = join (xs @ (n, False) # ys)" unfolding join_append by simp
  then show ?thesis using joined_join [OF j] by simp
qed

end
