(* ===== verification/Rt_Heap_Claims.thy ===== *)
theory Rt_Heap_Claims
  imports Rt_Heap_Run
begin

text \<open>
  The properties of the heap. The witnesses use a heap of 256 bytes at \<^verbatim>\<open>0x80000100\<close>.
\<close>

section \<open>A small heap\<close>

definition blank_heap :: heap where
  "blank_heap = \<lparr>h_mem = (\<lambda>_. 0), heap_ptr = 0, heap_end = 0, lfree = 0, heap_sem = 0, mem_size_aligned = 0, used_mem = 0, max_mem = 0\<rparr>"

definition small_heap :: heap where
  "small_heap = rt_system_heap_init 0x80000100 0x80000200 blank_heap"

lemma small_heap_ok: "heap_ok small_heap [(232, False)]" "heap_ptr small_heap = 0x80000100" "unat (mem_size_aligned small_heap) = 232"
proof -
  have u: "unat (0x80000100 :: u32) = 2147483904" "unat (0x80000200 :: u32) = 2147484160" by simp_all
  have r: "rounded 0x80000100 = 2147483904" by (simp add: rounded_def u)
  show k: "heap_ok small_heap [(232, False)]"
    using heap_init_ok(1) [where begin_addr = "0x80000100" and end_addr = "0x80000200" and h = blank_heap] unfolding small_heap_def r u by (simp add: blank_heap_def)
  have "rt_align 0x80000100 = (0x80000100 :: u32)" by (simp add: rt_align_def RT_ALIGN_SIZE_def)
  then show "heap_ptr small_heap = 0x80000100"
    using heap_init_ok(2) [where begin_addr = "0x80000100" and end_addr = "0x80000200" and h = blank_heap] unfolding small_heap_def r u by (simp add: blank_heap_def)
  show "unat (mem_size_aligned small_heap) = 232" using heap_okD(10) [OF k] by simp
qed

lemma first_block:
  "\<exists>h. rt_malloc 10 small_heap = Some (0x8000010c, h) \<and> heap_ok h [(12, True), (208, False)] \<and> heap_ptr h = 0x80000100"
proof -
  have w: "wanted 10 = 12" "rounded 10 = 12" by (simp_all add: wanted_def rounded_def)
  show ?thesis
    using malloc_first_fit [OF small_heap_ok(1), of 10] unfolding small_heap_ok(2,3) w
    by (auto simp: carve_def Cons_eq_append_conv kept_def small_heap_ok(2))
qed

section \<open>Allocation\<close>



text \<open>C35: giving a new block back undoes the allocation. Whatever the list of blocks was, after
  \<^verbatim>\<open>rt_malloc\<close> and \<^verbatim>\<open>rt_free\<close> of its result the heap has that very list again: the part split off and the
  block are joined to the free block they came from. No byte in use has changed.\<close>

theorem free_undoes_malloc:
  assumes "heap_ok h bs" and "unat size0 + 3 < 2 ^ 32" and "rt_malloc size0 h = Some (q, h1)" and "q \<noteq> 0"
  shows "\<exists>h2. rt_free q h1 = Some h2 \<and> heap_ok h2 bs \<and> (\<forall>a \<in> data (heap_ptr h) bs. h_mem h2 a = h_mem h a)"
proof -
  have s: "size0 \<noteq> 0" using assms(3,4) no_bytes(1) by auto
  have r: "rounded size0 \<le> unat (mem_size_aligned h)" using malloc_too_big [OF s assms(2), of h] assms(3,4) by fastforce
  obtain off where f: "fit (unat (mem_size_aligned h) - wanted size0) (wanted size0) 0 bs = Some off"
    using malloc_ok [OF assms(1) s assms(2) r] assms(3,4) by (auto split: option.splits)
  obtain xs n ys h' where v: "bs = xs @ (n, False) # ys" "off = span xs" "wanted size0 \<le> n"
    "rt_malloc size0 h = Some (heap_ptr h + of_nat (span xs + 12), h')" "heap_ok h' (xs @ carve (wanted size0) n @ ys)" "kept h h'"
    "granted h bs (unat size0) (heap_ptr h + of_nat (span xs + 12)) h'"
    using malloc_first_fit [OF assms(1) s assms(2) r f] .
  have e: "h' = h1" "q = heap_ptr h1 + of_nat (span xs + 12)" using v(4,6) assms(3) by (simp_all add: kept_def)
  obtain m rest where m: "carve (wanted size0) n = (m, True) # rest" using carve_head [OF v(3)] by metis
  have k: "heap_ok h1 (xs @ (m, True) # rest @ ys)" using v(5) e(1) m by simp
  obtain h2 where h: "rt_free q h1 = Some h2" "heap_ok h2 (join (xs @ (m, False) # rest @ ys))"
    "\<forall>a. outside (heap_ptr h1) (xs @ (m, False) # rest @ ys) a \<longrightarrow> h_mem h2 a = h_mem h1 a"
    using free_ok [OF k] e(2) by metis
  have j: "joined bs" by (rule heap_okD(2) [OF assms(1)])
  have jo: "join (xs @ (m, False) # rest @ ys) = bs" unfolding v(1) by (rule uncarve [OF m]) (use j v(1) in simp)
  have "h_mem h2 a = h_mem h a" if a: "a \<in> data (heap_ptr h) bs" for a
  proof -
    have "a \<in> data (heap_ptr h1) (xs @ (m, False) # rest @ ys)"
      using a data_join [of "heap_ptr h1" "xs @ (m, False) # rest @ ys"] v(6) unfolding jo e(1) kept_def by metis
    moreover have "span (xs @ (m, False) # rest @ ys) + 12 \<le> 2 ^ 32" using heap_okD(9) [OF k] by simp
    ultimately have "h_mem h2 a = h_mem h1 a" using data_outside h(3) by blast
    then show ?thesis using a v(7) e(1) unfolding granted_def by metis
  qed
  then show ?thesis using h(1,2) unfolding jo by blast
qed

theorem free_undoes_malloc_witness:
  "\<exists>h1 h2. rt_malloc 10 small_heap = Some (0x8000010c, h1) \<and> rt_free 0x8000010c h1 = Some h2 \<and> heap_ok h2 [(232, False)]"
proof -
  obtain h1 where "rt_malloc 10 small_heap = Some (0x8000010c, h1)" using first_block by blast
  then show ?thesis using free_undoes_malloc [OF small_heap_ok(1), of 10 "0x8000010c" h1] by auto
qed



section \<open>A program at work\<close>



end
