(* ===== verification/Rt_Printf.thy ===== *)
theory Rt_Printf
  imports Rt_Bytes Xprintf
begin

text \<open>
  Formatted output of the kernel: \<^verbatim>\<open>rt_vsnprintf\<close> and what is built on it (\<^verbatim>\<open>src/kservice.c\<close>), with
  \<^verbatim>\<open>RT_PRINTF_PRECISION\<close> and without \<^verbatim>\<open>RT_PRINTF_LONGLONG\<close> and \<^verbatim>\<open>RT_PRINTF_SPECIAL\<close>, up to the console
  output of \<^verbatim>\<open>bsp/board.c\<close>.

  The counters of type \<^verbatim>\<open>int\<close> are integers: C leaves their overflow undefined. Numbers to be printed,
  pointers and sizes are 32 bits wide. Taking an argument that was not passed, or one of another kind,
  is undefined and \<open>None\<close> here.
\<close>

datatype varg = VInt u32 | VPtr u32 | VStr "char list option"

section \<open>Storing one character\<close>

text \<open>The pointer \<^verbatim>\<open>str\<close> moves on whether or not there was room.\<close>

type_synonym out = "u32 \<times> memory"

definition put_at :: "u32 \<Rightarrow> u8 \<Rightarrow> out \<Rightarrow> out" where
  "put_at endp c = (\<lambda>(str, m). (str + 1, if str < endp then m(str := c) else m))"

text \<open>\<^verbatim>\<open>while (size-- > 0)\<close> with the value \<^verbatim>\<open>size\<close> has afterwards, and \<^verbatim>\<open>while (--size > 0)\<close>.\<close>

function fill_out :: "u32 \<Rightarrow> u8 \<Rightarrow> int \<Rightarrow> out \<Rightarrow> int \<times> out" where
  "fill_out endp c room out = (if 0 < room then fill_out endp c (room - 1) (put_at endp c out) else (room - 1, out))"
  by pat_completeness auto
termination by (relation "measure (\<lambda>(endp, c, room, out). nat room)") auto

declare fill_out.simps [simp del]

definition fill_out_pre :: "u32 \<Rightarrow> u8 \<Rightarrow> int \<Rightarrow> out \<Rightarrow> int \<times> out" where
  "fill_out_pre endp c width out = (case fill_out endp c (width - 1) out of (w, out1) \<Rightarrow> (w + 1, out1))"

fun put_all :: "u32 \<Rightarrow> u8 list \<Rightarrow> out \<Rightarrow> out" where
  "put_all endp [] out = out"
| "put_all endp (c # cs) out = put_all endp cs (put_at endp c out)"

section \<open>Numbers\<close>

definition ZEROPAD :: u8 where "ZEROPAD = 1"
definition SIGN :: u8 where "SIGN = 2"
definition PLUS :: u8 where "PLUS = 4"
definition SPACE :: u8 where "SPACE = 8"
definition LEFT :: u8 where "LEFT = 16"
definition SPECIAL :: u8 where "SPECIAL = 32"
definition LARGE :: u8 where "LARGE = 64"

definition divide :: "u32 \<Rightarrow> nat \<Rightarrow> u32 \<times> u32" where
  "divide n base = (if base = 10 then (n mod 10, n div 10) else (n mod 16, n div 16))"

definition small_digits :: "char list" where "small_digits = ''0123456789abcdef''"
definition large_digits :: "char list" where "large_digits = ''0123456789ABCDEF''"

text \<open>The array \<^verbatim>\<open>tmp\<close>, the lowest digit first.\<close>

function tmp_digits :: "char list \<Rightarrow> nat \<Rightarrow> u32 \<Rightarrow> u8 list" where
  "tmp_digits digits base num =
    (if num \<noteq> 0 then (case divide num base of (res, n) \<Rightarrow> char_byte (digits ! unat res) # tmp_digits digits base n) else [])"
  by pat_completeness auto
termination
  by (relation "measure (\<lambda>(digits, base, num). unat num)") (auto simp: divide_def unat_div unat_gt_0 split: if_splits)

declare tmp_digits.simps [simp del]

definition print_number :: "u32 \<Rightarrow> u32 \<Rightarrow> nat \<Rightarrow> int \<Rightarrow> int \<Rightarrow> u8 \<Rightarrow> out \<Rightarrow> out" where
  "print_number endp num base s precision ty out =
    (let digits = (if ty AND LARGE \<noteq> 0 then large_digits else small_digits);
         ty1 = (if ty AND LEFT \<noteq> 0 then ty AND NOT ZEROPAD else ty);
         c = (if ty1 AND ZEROPAD \<noteq> 0 then 48 else 32);
         (sign, num1) = (if ty1 AND SIGN \<noteq> 0
            then if num <s 0 then ([45], - num) else if ty1 AND PLUS \<noteq> 0 then ([43], num)
                 else if ty1 AND SPACE \<noteq> 0 then ([32], num) else ([], num)
            else ([], num));
         tmp = (if num1 = 0 then [48] else tmp_digits digits base num1);
         i = int (length tmp);
         precision1 = (if i > precision then i else precision);
         size1 = s - precision1;
         (size2, out2) = (if ty1 AND (ZEROPAD OR LEFT) = 0
            then fill_out endp 32 (if sign \<noteq> [] \<and> size1 > 0 then size1 - 1 else size1) out else (size1, out));
         (size3, out3) = (if sign \<noteq> [] then (size2 - 1, put_at endp (hd sign) out2) else (size2, out2));
         (size4, out4) = (if ty1 AND LEFT = 0 then fill_out endp c size3 out3 else (size3, out3));
         (_, out5) = fill_out endp 48 (precision1 - i) out4;
         out6 = (if precision \<noteq> 0 then put_all endp (rev tmp) out5 else out5);
         (_, out7) = fill_out endp 32 size4 out6
     in out7)"

section \<open>Directives\<close>

definition isdigit :: "char \<Rightarrow> bool" where
  "isdigit c = ((of_nat (of_char c) :: u32) - 48 < 10)"

fun skip_atoi :: "int \<Rightarrow> char list \<Rightarrow> int \<times> char list" where
  "skip_atoi i [] = (i, [])"
| "skip_atoi i (c # s) = (if isdigit c then skip_atoi (i * 10 + int (of_char c) - 48) s else (i, c # s))"

fun parse_flags :: "char list \<Rightarrow> u8 \<Rightarrow> u8 \<times> char list" where
  "parse_flags [] flags = (flags, [])"
| "parse_flags (c # fmt) flags =
    (if c = CHR ''-'' then parse_flags fmt (flags OR LEFT)
     else if c = CHR ''+'' then parse_flags fmt (flags OR PLUS)
     else if c = CHR '' '' then parse_flags fmt (flags OR SPACE)
     else if c = CHR ''#'' then parse_flags fmt (flags OR SPECIAL)
     else if c = CHR ''0'' then parse_flags fmt (flags OR ZEROPAD)
     else (flags, c # fmt))"

text \<open>The value, the flags, and what is left of the format and of the arguments.\<close>

definition parse_width :: "char list \<Rightarrow> u8 \<Rightarrow> varg list \<Rightarrow> (int \<times> u8 \<times> char list \<times> varg list) option" where
  "parse_width fmt flags args =
    (if isdigit (first_char fmt) then (case skip_atoi 0 fmt of (w, r) \<Rightarrow> Some (w, flags, r, args))
     else if first_char fmt = CHR ''*''
     then (case args of
        VInt v # as \<Rightarrow> if v <s 0 then Some (- sint v, flags OR LEFT, tl fmt, as) else Some (sint v, flags, tl fmt, as)
      | _ \<Rightarrow> None)
     else Some (-1, flags, fmt, args))"

definition parse_precision :: "char list \<Rightarrow> varg list \<Rightarrow> (int \<times> char list \<times> varg list) option" where
  "parse_precision fmt args =
    (if first_char fmt = CHR ''.''
     then (let r = tl fmt
           in if isdigit (first_char r) then (case skip_atoi 0 r of (p, r') \<Rightarrow> Some (if p < 0 then 0 else p, r', args))
              else if first_char r = CHR ''*''
              then (case args of VInt v # as \<Rightarrow> Some (if sint v < 0 then 0 else sint v, tl r, as) | _ \<Rightarrow> None)
              else Some (0, r, args))
     else Some (-1, fmt, args))"

definition parse_qualifier :: "char list \<Rightarrow> char \<times> char list" where
  "parse_qualifier fmt =
    (if first_char fmt = CHR ''h'' \<or> first_char fmt = CHR ''l'' then (first_char fmt, tl fmt) else (NUL, fmt))"

definition put_char :: "u32 \<Rightarrow> int \<Rightarrow> u8 \<Rightarrow> u32 \<Rightarrow> out \<Rightarrow> out" where
  "put_char endp width flags v out =
    (let (w1, out1) = (if flags AND LEFT = 0 then fill_out_pre endp 32 width out else (width, out));
         out2 = put_at endp (ucast v) out1
     in snd (fill_out_pre endp 32 w1 out2))"

fun text_len :: "char list \<Rightarrow> int \<Rightarrow> int \<Rightarrow> int" where
  "text_len s len width = (case s of [] \<Rightarrow> len | c # r \<Rightarrow> if len \<noteq> width then text_len r (len + 1) width else len)"

declare text_len.simps [simp del]

definition put_text :: "u32 \<Rightarrow> int \<Rightarrow> int \<Rightarrow> u8 \<Rightarrow> char list option \<Rightarrow> out \<Rightarrow> out" where
  "put_text endp width precision flags arg out =
    (let s = (case arg of None \<Rightarrow> ''(NULL)'' | Some s \<Rightarrow> s);
         len0 = text_len s 0 width;
         len = (if precision > 0 \<and> len0 > precision then precision else len0);
         (room, out1) = (if flags AND LEFT = 0 then fill_out endp 32 (width - len) out else (width - len, out));
         out2 = put_all endp (map char_byte (take (nat len) s)) out1
     in snd (fill_out endp 32 room out2))"

text \<open>An integer argument, as its qualifier and sign tell.\<close>

definition fetch_number :: "char \<Rightarrow> u8 \<Rightarrow> u32 \<Rightarrow> u32" where
  "fetch_number qualifier flags v =
    (if qualifier = CHR ''h''
     then let h = ucast v :: u16 in if flags AND SIGN \<noteq> 0 then scast h else ucast h
     else v)"

definition number_base :: "char \<Rightarrow> u8 \<Rightarrow> (nat \<times> u8) option" where
  "number_base c flags =
    (if c = CHR ''o'' then Some (8, flags)
     else if c = CHR ''X'' then Some (16, flags OR LARGE)
     else if c = CHR ''x'' then Some (16, flags)
     else if c = CHR ''d'' \<or> c = CHR ''i'' then Some (10, flags OR SIGN)
     else if c = CHR ''u'' then Some (10, flags)
     else None)"

text \<open>The conversion, with the character \<open>c\<close> and the format after it.\<close>

definition convert :: "u32 \<Rightarrow> int \<Rightarrow> int \<Rightarrow> u8 \<Rightarrow> char \<Rightarrow> char \<Rightarrow> varg list \<Rightarrow> out \<Rightarrow> (varg list \<times> out) option" where
  "convert endp width precision flags qualifier c args out =
    (if c = CHR ''c''
     then (case args of VInt v # as \<Rightarrow> Some (as, put_char endp width flags v out) | _ \<Rightarrow> None)
     else if c = CHR ''s''
     then (case args of VStr s # as \<Rightarrow> Some (as, put_text endp width precision flags s out) | _ \<Rightarrow> None)
     else if c = CHR ''p''
     then (case args of
        VPtr v # as \<Rightarrow> Some (as, if width = -1 then print_number endp v 16 8 precision (flags OR ZEROPAD) out
                                 else print_number endp v 16 width precision flags out)
      | _ \<Rightarrow> None)
     else if c = CHR ''%'' then Some (args, put_at endp 37 out)
     else case number_base c flags of
       Some (base, flags1) \<Rightarrow>
         (case args of
            VInt v # as \<Rightarrow> Some (as, print_number endp (fetch_number qualifier flags1 v) base width precision flags1 out)
          | _ \<Rightarrow> None)
     | None \<Rightarrow> (let out1 = put_at endp 37 out in Some (args, if c \<noteq> NUL then put_at endp (char_byte c) out1 else out1)))"

definition directive :: "u32 \<Rightarrow> char list \<Rightarrow> varg list \<Rightarrow> out \<Rightarrow> (char list \<times> varg list \<times> out) option" where
  "directive endp fmt args out =
    do { let (flags, fmt1) = parse_flags fmt 0;
         (width, flags1, fmt2, args1) \<leftarrow> parse_width fmt1 flags args;
         (precision, fmt3, args2) \<leftarrow> parse_precision fmt2 args1;
         let (qualifier, fmt4) = parse_qualifier fmt3;
         (args3, out1) \<leftarrow> convert endp width precision flags1 qualifier (first_char fmt4) args2 out;
         Some (tl fmt4, args3, out1) }"

section \<open>The format\<close>

lemma skip_atoi_length: "skip_atoi i s = (n, r) \<Longrightarrow> length r \<le> length s"
  by (induction i s rule: skip_atoi.induct) (auto split: if_splits)

lemma parse_flags_length: "parse_flags s f = (n, r) \<Longrightarrow> length r \<le> length s"
  by (induction s f rule: parse_flags.induct) (auto split: if_splits)

lemma parse_width_length: "parse_width s f args = Some (w, f', r, as) \<Longrightarrow> length r \<le> length s"
  by (auto simp: parse_width_def dest: skip_atoi_length split: if_splits prod.splits list.splits varg.splits)

lemma parse_precision_length: "parse_precision s args = Some (p, r, as) \<Longrightarrow> length r \<le> length s"
  by (auto simp: parse_precision_def Let_def split: if_splits prod.splits list.splits varg.splits)
    (metis diff_le_self le_trans length_tl skip_atoi_length)+

lemma directive_length: "directive endp fmt args out = Some (r, as, out') \<Longrightarrow> length r \<le> length fmt"
proof -
  assume d: "directive endp fmt args out = Some (r, as, out')"
  obtain f s1 where s1: "parse_flags fmt 0 = (f, s1)" by fastforce
  obtain w f1 s2 as1 where s2: "parse_width s1 f args = Some (w, f1, s2, as1)"
    using d s1 by (auto simp: directive_def split: bind_splits)
  obtain p s3 as2 where s3: "parse_precision s2 as1 = Some (p, s3, as2)"
    using d s1 s2 by (auto simp: directive_def split: bind_splits)
  obtain q s4 where s4: "parse_qualifier s3 = (q, s4)" by fastforce
  have "r = tl s4" using d s1 s2 s3 s4 by (auto simp: directive_def split: bind_splits)
  moreover have "length s4 \<le> length s3" using s4 by (auto simp: parse_qualifier_def split: if_splits)
  ultimately show ?thesis
    using parse_flags_length [OF s1] parse_width_length [OF s2] parse_precision_length [OF s3] by simp
qed

function format_loop :: "u32 \<Rightarrow> char list \<Rightarrow> varg list \<Rightarrow> out \<Rightarrow> out option" where
  "format_loop endp [] args out = Some out"
| "format_loop endp (c # fmt) args out =
    (if c \<noteq> CHR ''%'' then format_loop endp fmt args (put_at endp (char_byte c) out)
     else case directive endp fmt args out of
       None \<Rightarrow> None
     | Some (r, as, out1) \<Rightarrow> format_loop endp r as out1)"
  by pat_completeness auto
termination
  by (relation "measure (\<lambda>(endp, fmt, args, out). length fmt)") (auto dest!: directive_length)

definition rt_vsnprintf :: "u32 \<Rightarrow> u32 \<Rightarrow> char list \<Rightarrow> varg list \<Rightarrow> memory \<Rightarrow> (u32 \<times> memory) option" where
  "rt_vsnprintf buf size0 fmt args m =
    (let (endp, sz) = (if buf + size0 < buf then (-1, -1 - buf) else (buf + size0, size0))
     in do { (str, m1) \<leftarrow> format_loop endp fmt args (buf, m);
             let m2 = (if sz > 0 then if str < endp then m1(str := 0) else m1(endp - 1 := 0) else m1);
             Some (str - buf, m2) })"

definition rt_snprintf :: "u32 \<Rightarrow> u32 \<Rightarrow> char list \<Rightarrow> varg list \<Rightarrow> memory \<Rightarrow> (u32 \<times> memory) option" where
  "rt_snprintf buf sz fmt args m = rt_vsnprintf buf sz fmt args m"

definition rt_vsprintf :: "u32 \<Rightarrow> char list \<Rightarrow> varg list \<Rightarrow> memory \<Rightarrow> (u32 \<times> memory) option" where
  "rt_vsprintf buf fmt args m = rt_vsnprintf buf (-1) fmt args m"

definition rt_sprintf :: "u32 \<Rightarrow> char list \<Rightarrow> varg list \<Rightarrow> memory \<Rightarrow> (u32 \<times> memory) option" where
  "rt_sprintf buf fmt args m = rt_vsprintf buf fmt args m"

section \<open>The console\<close>

text \<open>
  The console of the board is the UART driver. \<open>string_at\<close> is the string a pointer points to, if it is
  terminated within the \<open>n\<close> bytes of its array.
\<close>

definition RT_CONSOLEBUF_SIZE :: nat where "RT_CONSOLEBUF_SIZE = 128"

primrec string_at :: "nat \<Rightarrow> u32 \<Rightarrow> memory \<Rightarrow> u8 list option" where
  "string_at 0 p m = None"
| "string_at (Suc n) p m = (if m p = 0 then Some [] else map_option (\<lambda>cs. m p # cs) (string_at n (p + 1) m))"

definition rt_hw_console_output :: "config \<Rightarrow> (nemu \<Rightarrow> nemu) \<Rightarrow> u8 list \<Rightarrow> nemu \<Rightarrow> nemu res option" where
  "rt_hw_console_output cf env str s = xputs cf env str s"

definition rt_kputs :: "config \<Rightarrow> (nemu \<Rightarrow> nemu) \<Rightarrow> u8 list option \<Rightarrow> nemu \<Rightarrow> nemu res option" where
  "rt_kputs cf env str s = (case str of None \<Rightarrow> Some (Inr s) | Some str \<Rightarrow> rt_hw_console_output cf env str s)"

text \<open>The buffer \<^verbatim>\<open>rt_log_buf\<close> is at the address \<open>log_buf\<close> of the kernel's memory.\<close>

definition rt_kprintf :: "config \<Rightarrow> (nemu \<Rightarrow> nemu) \<Rightarrow> u32 \<Rightarrow> char list \<Rightarrow> varg list \<Rightarrow> memory \<Rightarrow> nemu \<Rightarrow> (memory \<times> nemu res option) option" where
  "rt_kprintf cf env log_buf fmt args m s =
    do { (_, m1) \<leftarrow> rt_vsnprintf log_buf (of_nat RT_CONSOLEBUF_SIZE - 1) fmt args m;
         str \<leftarrow> string_at RT_CONSOLEBUF_SIZE log_buf m1;
         Some (m1, rt_hw_console_output cf env str s) }"

end
