(* ===== verification/Rt_Shell.thy ===== *)
theory Rt_Shell
  imports Rt_Printf
begin

text \<open>
  The shell of RT-Thread as the configuration builds it (\<^verbatim>\<open>components/finsh/shell.c\<close> and \<^verbatim>\<open>msh.c\<close>
  with \<^verbatim>\<open>FINSH_USING_MSH_ONLY\<close>, without history, password and file system): the line editor, the
  completion of command names, the splitting of a line into arguments, and the search for the command.

  The array \<^verbatim>\<open>shell->line\<close> is the list \<open>sh_line\<close>; a pointer into it is its index, and an access
  outside it, or to a string that is not terminated inside it, is \<open>None\<close>. Output goes through
  \<^verbatim>\<open>rt_kprintf\<close>: \<open>sh_out\<close> collects what it hands to the console. The table of commands, which the
  linker collects, and the commands themselves are parameters.
\<close>

section \<open>Data\<close>

definition FINSH_CMD_SIZE :: nat where "FINSH_CMD_SIZE = 80"
definition FINSH_ARG_MAX :: nat where "FINSH_ARG_MAX = 8"

datatype input_stat = WAIT_NORMAL | WAIT_SPEC_KEY | WAIT_FUNC_KEY

record finsh_shell =
  sh_stat :: input_stat
  sh_echo_mode :: bool
  sh_prompt_mode :: bool
  sh_line :: "char list"
  sh_position :: u16
  sh_curpos :: u16
  sh_log_buf :: u32
  sh_log :: memory
  sh_out :: "u8 list"

record finsh_syscall =
  sys_name :: "char list"
  sys_func :: nat

text \<open>A command: it gets \<^verbatim>\<open>argc\<close>, and \<^verbatim>\<open>argv\<close> as indices into the line.\<close>

type_synonym command = "nat \<Rightarrow> nat list \<Rightarrow> finsh_shell \<Rightarrow> (u32 \<times> finsh_shell) option"

section \<open>The line and the console\<close>

definition peek :: "nat \<Rightarrow> finsh_shell \<Rightarrow> char option" where
  "peek i sh = (if i < length (sh_line sh) then Some (sh_line sh ! i) else None)"

definition poke :: "nat \<Rightarrow> char \<Rightarrow> finsh_shell \<Rightarrow> finsh_shell option" where
  "poke i c sh = (if i < length (sh_line sh) then Some (sh\<lparr>sh_line := (sh_line sh)[i := c]\<rparr>) else None)"

text \<open>The string that starts at an index of the line.\<close>

fun line_chars :: "char list \<Rightarrow> char list option" where
  "line_chars [] = None"
| "line_chars (c # cs) = (if c = NUL then Some [] else map_option (\<lambda>s. c # s) (line_chars cs))"

definition line_str :: "nat \<Rightarrow> finsh_shell \<Rightarrow> char list option" where
  "line_str i sh = line_chars (drop i (sh_line sh))"

text \<open>\<^verbatim>\<open>rt_memmove\<close> inside the array.\<close>

definition line_move :: "nat \<Rightarrow> nat \<Rightarrow> nat \<Rightarrow> finsh_shell \<Rightarrow> finsh_shell option" where
  "line_move d s n sh =
    (let xs = sh_line sh
     in if d + n \<le> length xs \<and> s + n \<le> length xs
        then Some (sh\<lparr>sh_line := take d xs @ take n (drop s xs) @ drop (d + n) xs\<rparr>) else None)"

text \<open>\<^verbatim>\<open>rt_kprintf\<close> up to the console.\<close>

definition kprint :: "char list \<Rightarrow> varg list \<Rightarrow> finsh_shell \<Rightarrow> finsh_shell option" where
  "kprint fmt args sh =
    do { (_, m1) \<leftarrow> rt_vsnprintf (sh_log_buf sh) (of_nat RT_CONSOLEBUF_SIZE - 1) fmt args (sh_log sh);
         str \<leftarrow> string_at RT_CONSOLEBUF_SIZE (sh_log_buf sh) m1;
         Some (sh\<lparr>sh_log := m1, sh_out := sh_out sh @ str\<rparr>) }"

primrec kprint_times :: "nat \<Rightarrow> char list \<Rightarrow> finsh_shell \<Rightarrow> finsh_shell option" where
  "kprint_times 0 fmt sh = Some sh"
| "kprint_times (Suc n) fmt sh = do { sh1 \<leftarrow> kprint fmt [] sh; kprint_times n fmt sh1 }"

definition finsh_get_prompt :: "finsh_shell \<Rightarrow> char list" where
  "finsh_get_prompt sh = (if sh_prompt_mode sh then ''msh '' @ ''>'' else [])"

definition finsh_set_prompt_mode :: "bool \<Rightarrow> finsh_shell \<Rightarrow> finsh_shell" where
  "finsh_set_prompt_mode p sh = sh\<lparr>sh_prompt_mode := p\<rparr>"

definition finsh_set_echo :: "bool \<Rightarrow> finsh_shell \<Rightarrow> finsh_shell" where
  "finsh_set_echo e sh = sh\<lparr>sh_echo_mode := e\<rparr>"

section \<open>Commands\<close>

definition cmd_prefix :: "char list" where "cmd_prefix = ''__cmd_''"

text \<open>\<^verbatim>\<open>strncmp(a, b, n) == 0\<close> of the C library, for a string and the characters at an index of the line.\<close>

fun strncmp_same :: "char list \<Rightarrow> char list \<Rightarrow> nat \<Rightarrow> bool option" where
  "strncmp_same a b 0 = Some True"
| "strncmp_same a [] (Suc n) = None"
| "strncmp_same a (c # b) (Suc n) =
    (if first_char a \<noteq> c then Some False else if c = NUL then Some True else strncmp_same (tl a) b n)"

definition is_cmd :: "finsh_syscall \<Rightarrow> bool" where
  "is_cmd index = (take 6 (sys_name index) = cmd_prefix)"

definition cmd_name :: "finsh_syscall \<Rightarrow> char list" where
  "cmd_name index = drop 6 (sys_name index)"

text \<open>\<^verbatim>\<open>name[i]\<close> of a string constant: its terminator is the last character that may be read.\<close>

definition name_at :: "nat \<Rightarrow> char list \<Rightarrow> char option" where
  "name_at i name = (if i < length name then Some (name ! i) else if i = length name then Some NUL else None)"

fun msh_get_cmd :: "finsh_syscall list \<Rightarrow> nat \<Rightarrow> nat \<Rightarrow> finsh_shell \<Rightarrow> nat option option" where
  "msh_get_cmd [] cmd sz sh = Some None"
| "msh_get_cmd (index # table) cmd sz sh =
    (if \<not> is_cmd index then msh_get_cmd table cmd sz sh
     else do { same \<leftarrow> strncmp_same (cmd_name index) (drop cmd (sh_line sh)) sz;
               if same then do { e \<leftarrow> name_at sz (cmd_name index);
                                 if e = NUL then Some (Some (sys_func index)) else msh_get_cmd table cmd sz sh }
               else msh_get_cmd table cmd sz sh })"

fun show_commands :: "finsh_syscall list \<Rightarrow> finsh_shell \<Rightarrow> finsh_shell option" where
  "show_commands [] sh = Some sh"
| "show_commands (index # table) sh =
    (if \<not> is_cmd index then show_commands table sh
     else do { sh1 \<leftarrow> kprint ''%s '' [VStr (Some (cmd_name index))] sh; show_commands table sh1 })"

definition newline :: "char list" where "newline = [CHR 0x0a]"
definition backspace :: "char list" where "backspace = [CHR 0x08]"

definition msh_help :: "finsh_syscall list \<Rightarrow> finsh_shell \<Rightarrow> finsh_shell option" where
  "msh_help table sh =
    do { sh1 \<leftarrow> kprint (''RT-Thread shell commands:'' @ newline) [] sh; sh2 \<leftarrow> show_commands table sh1; kprint newline [] sh2 }"

section \<open>Splitting a line\<close>

definition is_blank :: "char \<Rightarrow> bool" where
  "is_blank c = (c = CHR '' '' \<or> c = CHR 0x09)"

text \<open>The loops of \<^verbatim>\<open>msh_split\<close>; \<^verbatim>\<open>ptr\<close> is \<open>cmd + pos\<close> throughout.\<close>

function strip_blanks :: "nat \<Rightarrow> nat \<Rightarrow> nat \<Rightarrow> finsh_shell \<Rightarrow> (nat \<times> finsh_shell) option" where
  "strip_blanks cmd len pos sh =
    do { c \<leftarrow> peek (cmd + pos) sh;
         if is_blank c \<and> pos < len
         then do { sh1 \<leftarrow> poke (cmd + pos) NUL sh; strip_blanks cmd len (pos + 1) sh1 }
         else Some (pos, sh) }"
  by pat_completeness auto
termination by (relation "measure (\<lambda>(cmd, len, pos, sh). len - pos)") auto

function skip_string :: "nat \<Rightarrow> nat \<Rightarrow> nat \<Rightarrow> finsh_shell \<Rightarrow> nat option" where
  "skip_string cmd len pos sh =
    do { c \<leftarrow> peek (cmd + pos) sh;
         if c \<noteq> CHR 0x22 \<and> pos < len
         then (if c = CHR 0x5c
               then do { d \<leftarrow> peek (cmd + pos + 1) sh;
                         if d = CHR 0x22 then skip_string cmd len (pos + 2) sh else skip_string cmd len (pos + 1) sh }
               else skip_string cmd len (pos + 1) sh)
         else Some pos }"
  by pat_completeness auto
termination by (relation "measure (\<lambda>(cmd, len, pos, sh). len - pos)") auto

function skip_word :: "nat \<Rightarrow> nat \<Rightarrow> nat \<Rightarrow> finsh_shell \<Rightarrow> nat option" where
  "skip_word cmd len pos sh =
    do { c \<leftarrow> peek (cmd + pos) sh; if \<not> is_blank c \<and> pos < len then skip_word cmd len (pos + 1) sh else Some pos }"
  by pat_completeness auto
termination by (relation "measure (\<lambda>(cmd, len, pos, sh). len - pos)") auto

declare strip_blanks.simps [simp del] skip_string.simps [simp del] skip_word.simps [simp del]

fun show_args :: "nat list \<Rightarrow> finsh_shell \<Rightarrow> finsh_shell option" where
  "show_args [] sh = Some sh"
| "show_args (a # argv) sh =
    do { s \<leftarrow> line_str a sh; sh1 \<leftarrow> kprint ''%s '' [VStr (Some s)] sh; show_args argv sh1 }"

definition too_many_args :: "nat list \<Rightarrow> finsh_shell \<Rightarrow> finsh_shell option" where
  "too_many_args argv sh =
    do { sh1 \<leftarrow> kprint (''Too many args ! We only Use:'' @ newline) [] sh; sh2 \<leftarrow> show_args argv sh1; kprint newline [] sh2 }"

partial_function (option) split_loop ::
    "nat \<Rightarrow> nat \<Rightarrow> nat \<Rightarrow> nat list \<Rightarrow> finsh_shell \<Rightarrow> (nat list \<times> finsh_shell) option" where
  "split_loop cmd len pos argv sh =
    (if pos < len
     then do { (pos1, sh1) \<leftarrow> strip_blanks cmd len pos sh;
               if length argv \<ge> FINSH_ARG_MAX then do { sh2 \<leftarrow> too_many_args argv sh1; Some (argv, sh2) }
               else if pos1 \<ge> len then Some (argv, sh1)
               else do { c \<leftarrow> peek (cmd + pos1) sh1;
                 if c = CHR 0x22
                 then do { pos2 \<leftarrow> skip_string cmd len (pos1 + 1) sh1;
                           if pos2 \<ge> len then Some (argv @ [cmd + pos1 + 1], sh1)
                           else do { sh2 \<leftarrow> poke (cmd + pos2) NUL sh1;
                                     split_loop cmd len (pos2 + 1) (argv @ [cmd + pos1 + 1]) sh2 } }
                 else do { pos2 \<leftarrow> skip_word cmd len pos1 sh1;
                           if pos2 \<ge> len then Some (argv @ [cmd + pos1], sh1)
                           else split_loop cmd len pos2 (argv @ [cmd + pos1]) sh1 } } }
     else Some (argv, sh))"

definition msh_split :: "nat \<Rightarrow> nat \<Rightarrow> finsh_shell \<Rightarrow> (nat list \<times> finsh_shell) option" where
  "msh_split cmd len sh = split_loop cmd len 0 [] sh"

section \<open>Running a line\<close>

text \<open>\<open>None\<close> in the result is \<^verbatim>\<open>-RT_ERROR\<close>: there is no such command.\<close>

definition msh_exec_cmd :: "finsh_syscall list \<Rightarrow> (nat \<Rightarrow> command) \<Rightarrow> nat \<Rightarrow> nat \<Rightarrow> finsh_shell \<Rightarrow> (u32 option \<times> finsh_shell) option" where
  "msh_exec_cmd table run cmd len sh =
    do { cmd0_size \<leftarrow> skip_word cmd len 0 sh;
         if cmd0_size = 0 then Some (None, sh)
         else do { func \<leftarrow> msh_get_cmd table cmd cmd0_size sh;
           case func of
             None \<Rightarrow> Some (None, sh)
           | Some f \<Rightarrow>
               do { (argv, sh1) \<leftarrow> msh_split cmd len sh;
                    if argv = [] then Some (None, sh1)
                    else do { (ret, sh2) \<leftarrow> run f (length argv) argv sh1; Some (Some ret, sh2) } } } }"

function trim_start :: "nat \<Rightarrow> nat \<Rightarrow> finsh_shell \<Rightarrow> (nat \<times> nat) option" where
  "trim_start cmd len sh =
    (if len > 0
     then do { c \<leftarrow> peek cmd sh; if is_blank c then trim_start (cmd + 1) (len - 1) sh else Some (cmd, len) }
     else Some (cmd, len))"
  by pat_completeness auto
termination by (relation "measure (\<lambda>(cmd, len, sh). len)") auto

function first_space :: "nat \<Rightarrow> finsh_shell \<Rightarrow> nat option" where
  "first_space i sh =
    do { c \<leftarrow> peek i sh; if c \<noteq> CHR '' '' \<and> c \<noteq> NUL then first_space (i + 1) sh else Some i }"
  by pat_completeness auto
termination
  by (relation "measure (\<lambda>(i, sh). length (sh_line sh) - i)") (auto simp: peek_def split: if_splits)

declare trim_start.simps [simp del] first_space.simps [simp del]

definition msh_exec :: "finsh_syscall list \<Rightarrow> (nat \<Rightarrow> command) \<Rightarrow> nat \<Rightarrow> nat \<Rightarrow> finsh_shell \<Rightarrow> (u32 \<times> finsh_shell) option" where
  "msh_exec table run cmd0 len0 sh =
    do { (cmd, len) \<leftarrow> trim_start cmd0 len0 sh;
         if len = 0 then Some (0, sh)
         else do { (r, sh1) \<leftarrow> msh_exec_cmd table run cmd len sh;
           case r of
             Some ret \<Rightarrow> Some (ret, sh1)
           | None \<Rightarrow>
               do { t \<leftarrow> first_space cmd sh1; sh2 \<leftarrow> poke t NUL sh1; s \<leftarrow> line_str cmd sh2;
                    sh3 \<leftarrow> kprint (''%s: command not found.'' @ newline) [VStr (Some s)] sh2;
                    Some (- 1, sh3) } } }"

section \<open>Completion\<close>

fun str_common :: "char list \<Rightarrow> char list \<Rightarrow> nat" where
  "str_common (a # str1) (b # str2) = (if a \<noteq> NUL \<and> b \<noteq> NUL \<and> a = b then str_common str1 str2 + 1 else 0)"
| "str_common _ _ = 0"

text \<open>The loop over the commands; the candidate is \<^verbatim>\<open>name_ptr\<close> with \<^verbatim>\<open>min_length\<close>.\<close>

fun complete_loop :: "finsh_syscall list \<Rightarrow> char list \<Rightarrow> (char list option \<times> nat) \<Rightarrow> finsh_shell \<Rightarrow>
    ((char list option \<times> nat) \<times> finsh_shell) option" where
  "complete_loop [] prefix cand sh = Some (cand, sh)"
| "complete_loop (index # table) prefix (name_ptr, min_length) sh =
    (if is_cmd index \<and> take (length prefix) (cmd_name index) = prefix
     then (let (ptr1, min1) = (if min_length = 0 then (cmd_name index, length (cmd_name index))
                               else (case name_ptr of Some p \<Rightarrow> p | None \<Rightarrow> [], min_length));
               l = str_common ptr1 (cmd_name index);
               min2 = (if l < min1 then l else min1)
           in do { sh1 \<leftarrow> kprint (''%s'' @ newline) [VStr (Some (cmd_name index))] sh;
                   complete_loop table prefix (Some ptr1, min2) sh1 })
     else complete_loop table prefix (name_ptr, min_length) sh)"

text \<open>\<^verbatim>\<open>rt_strncpy\<close> to the start of the line.\<close>

definition line_strncpy :: "char list \<Rightarrow> nat \<Rightarrow> finsh_shell \<Rightarrow> finsh_shell option" where
  "line_strncpy src n sh =
    (if n \<le> length (sh_line sh) then Some (sh\<lparr>sh_line := rt_strncpy src n @ drop n (sh_line sh)\<rparr>) else None)"

definition msh_auto_complete :: "finsh_syscall list \<Rightarrow> finsh_shell \<Rightarrow> finsh_shell option" where
  "msh_auto_complete table sh =
    do { prefix \<leftarrow> line_str 0 sh;
         if prefix = [] then msh_help table sh
         else do { ((name_ptr, min_length), sh1) \<leftarrow> complete_loop table prefix (None, 0) sh;
                   case name_ptr of None \<Rightarrow> Some sh1 | Some p \<Rightarrow> line_strncpy p min_length sh1 } }"

definition shell_auto_complete :: "finsh_syscall list \<Rightarrow> finsh_shell \<Rightarrow> finsh_shell option" where
  "shell_auto_complete table sh =
    do { sh1 \<leftarrow> kprint newline [] sh; sh2 \<leftarrow> msh_auto_complete table sh1; prefix \<leftarrow> line_str 0 sh2;
         kprint ''%s%s'' [VStr (Some (finsh_get_prompt sh2)), VStr (Some prefix)] sh2 }"

section \<open>Keys\<close>

definition tab_key :: "finsh_syscall list \<Rightarrow> finsh_shell \<Rightarrow> finsh_shell option" where
  "tab_key table sh =
    do { sh1 \<leftarrow> kprint_times (unat (sh_curpos sh)) backspace sh; sh2 \<leftarrow> shell_auto_complete table sh1; s \<leftarrow> line_str 0 sh2;
         Some (sh2\<lparr>sh_curpos := of_nat (length s), sh_position := of_nat (length s)\<rparr>) }"

definition backspace_key :: "finsh_shell \<Rightarrow> finsh_shell option" where
  "backspace_key sh =
    (if sh_curpos sh = 0 then Some sh
     else let p = sh_position sh - 1; c = sh_curpos sh - 1; sh1 = sh\<lparr>sh_position := p, sh_curpos := c\<rparr>
          in if p > c
             then do { sh2 \<leftarrow> line_move (unat c) (unat c + 1) (unat p - unat c) sh1;
                       sh3 \<leftarrow> poke (unat p) NUL sh2;
                       s \<leftarrow> line_str (unat c) sh3;
                       sh4 \<leftarrow> kprint (backspace @ ''%s  '' @ backspace) [VStr (Some s)] sh3;
                       kprint_times (unat p + 1 - unat c) backspace sh4 }
             else do { sh2 \<leftarrow> kprint (backspace @ '' '' @ backspace) [] sh1; poke (unat p) NUL sh2 })"

definition enter_key :: "finsh_syscall list \<Rightarrow> (nat \<Rightarrow> command) \<Rightarrow> finsh_shell \<Rightarrow> finsh_shell option" where
  "enter_key table run sh =
    do { sh1 \<leftarrow> (if sh_echo_mode sh then kprint newline [] sh else Some sh);
         (_, sh2) \<leftarrow> msh_exec table run 0 (unat (sh_position sh1)) sh1;
         sh3 \<leftarrow> kprint (finsh_get_prompt sh2) [] sh2;
         Some (sh3\<lparr>sh_line := replicate (length (sh_line sh3)) NUL, sh_curpos := 0, sh_position := 0\<rparr>) }"

definition insert_key :: "char \<Rightarrow> finsh_shell \<Rightarrow> finsh_shell option" where
  "insert_key ch sh0 =
    (let sh = (if unat (sh_position sh0) \<ge> FINSH_CMD_SIZE then sh0\<lparr>sh_position := 0\<rparr> else sh0);
         p = unat (sh_position sh); c = unat (sh_curpos sh)
     in do { sh1 \<leftarrow> (if c < p
               then do { s1 \<leftarrow> line_move (c + 1) c (p - c) sh; s2 \<leftarrow> poke c ch s1;
                         s3 \<leftarrow> (if sh_echo_mode s2
                                then do { s \<leftarrow> line_str c s2; kprint ''%s'' [VStr (Some s)] s2 } else Some s2);
                         kprint_times (p - c) backspace s3 }
               else do { s1 \<leftarrow> poke p ch sh;
                         if sh_echo_mode s1 then kprint ''%c'' [VInt (char_int ch)] s1 else Some s1 });
             let sh2 = sh1\<lparr>sh_position := sh_position sh1 + 1, sh_curpos := sh_curpos sh1 + 1\<rparr>;
             Some (if unat (sh_position sh2) \<ge> FINSH_CMD_SIZE then sh2\<lparr>sh_position := 0, sh_curpos := 0\<rparr> else sh2) })"

definition left_key :: "finsh_shell \<Rightarrow> finsh_shell option" where
  "left_key sh =
    (if sh_curpos sh \<noteq> 0 then do { sh1 \<leftarrow> kprint backspace [] sh; Some (sh1\<lparr>sh_curpos := sh_curpos sh1 - 1\<rparr>) } else Some sh)"

definition right_key :: "finsh_shell \<Rightarrow> finsh_shell option" where
  "right_key sh =
    (if sh_curpos sh < sh_position sh
     then do { c \<leftarrow> peek (unat (sh_curpos sh)) sh; sh1 \<leftarrow> kprint ''%c'' [VInt (char_int c)] sh;
               Some (sh1\<lparr>sh_curpos := sh_curpos sh1 + 1\<rparr>) }
     else Some sh)"

definition normal_key :: "finsh_syscall list \<Rightarrow> (nat \<Rightarrow> command) \<Rightarrow> char \<Rightarrow> finsh_shell \<Rightarrow> finsh_shell option" where
  "normal_key table run ch sh =
    (if ch = NUL \<or> ch = CHR 0xff then Some sh
     else if ch = CHR 0x09 then tab_key table sh
     else if ch = CHR 0x7f \<or> ch = CHR 0x08 then backspace_key sh
     else if ch = CHR 0x0d \<or> ch = CHR 0x0a then enter_key table run sh
     else insert_key ch sh)"

text \<open>One round of the loop of \<^verbatim>\<open>finsh_thread_entry\<close>. The keys up and down need the history.\<close>

definition finsh_key :: "finsh_syscall list \<Rightarrow> (nat \<Rightarrow> command) \<Rightarrow> char \<Rightarrow> finsh_shell \<Rightarrow> finsh_shell option" where
  "finsh_key table run ch sh =
    (if ch = CHR 0x1b then Some (sh\<lparr>sh_stat := WAIT_SPEC_KEY\<rparr>)
     else case sh_stat sh of
       WAIT_SPEC_KEY \<Rightarrow>
         if ch = CHR 0x5b then Some (sh\<lparr>sh_stat := WAIT_FUNC_KEY\<rparr>) else normal_key table run ch (sh\<lparr>sh_stat := WAIT_NORMAL\<rparr>)
     | WAIT_FUNC_KEY \<Rightarrow>
         (let sh1 = sh\<lparr>sh_stat := WAIT_NORMAL\<rparr>
          in if ch = CHR 0x41 \<or> ch = CHR 0x42 then Some sh1
             else if ch = CHR 0x44 then left_key sh1
             else if ch = CHR 0x43 then right_key sh1
             else normal_key table run ch sh1)
     | WAIT_NORMAL \<Rightarrow> normal_key table run ch sh)"

primrec finsh_keys :: "finsh_syscall list \<Rightarrow> (nat \<Rightarrow> command) \<Rightarrow> char list \<Rightarrow> finsh_shell \<Rightarrow> finsh_shell option" where
  "finsh_keys table run [] sh = Some sh"
| "finsh_keys table run (ch # keys) sh = do { sh1 \<leftarrow> finsh_key table run ch sh; finsh_keys table run keys sh1 }"

text \<open>\<^verbatim>\<open>finsh_thread_entry\<close> on the characters the console delivers.\<close>

definition finsh_thread_entry :: "finsh_syscall list \<Rightarrow> (nat \<Rightarrow> command) \<Rightarrow> char list \<Rightarrow> finsh_shell \<Rightarrow> finsh_shell option" where
  "finsh_thread_entry table run keys sh =
    do { let sh1 = sh\<lparr>sh_echo_mode := True\<rparr>; sh2 \<leftarrow> kprint (finsh_get_prompt sh1) [] sh1; finsh_keys table run keys sh2 }"

text \<open>The variable \<^verbatim>\<open>_shell\<close> as the program starts, and \<^verbatim>\<open>finsh_system_init\<close> as far as it concerns it.\<close>

definition finsh_system_init :: "u32 \<Rightarrow> memory \<Rightarrow> finsh_shell" where
  "finsh_system_init log_buf m = finsh_set_prompt_mode True
    \<lparr>sh_stat = WAIT_NORMAL, sh_echo_mode = False, sh_prompt_mode = False, sh_line = replicate FINSH_CMD_SIZE NUL,
     sh_position = 0, sh_curpos = 0, sh_log_buf = log_buf, sh_log = m, sh_out = []\<rparr>"

end
