(* ===== verification/Rt_Printf_Props.thy ===== *)
theory Rt_Printf_Props
  imports Rt_Printf Xprintf_Props Rt_Bytes_Props
begin

text \<open>
  What the formatted output of the kernel prints, described without buffers and pointers, and what
  \<^verbatim>\<open>rt_vsnprintf\<close> leaves in memory: as much of that text as there is room for, and a terminator.
\<close>

section \<open>Storing texts\<close>

lemma put_all_append [simp]: "put_all endp (xs @ ys) out = put_all endp ys (put_all endp xs out)"
  by (induction xs arbitrary: out) simp_all

lemma fill_out_all:
  "fill_out endp c room out = (if 0 < room then -1 else room - 1, put_all endp (replicate (nat room) c) out)"
proof (induction endp c room out rule: fill_out.induct)
  case (1 endp c room out)
  show ?case
  proof (cases "0 < room")
    case True
    then have "nat room = Suc (nat (room - 1))" by simp
    then show ?thesis using 1 True by (subst fill_out.simps) auto
  next
    case False
    then show ?thesis by (simp add: fill_out.simps)
  qed
qed

lemma fill_out_pre_all:
  "fill_out_pre endp c w out = (if 1 < w then 0 else w - 1, put_all endp (replicate (nat (w - 1)) c) out)"
  by (simp add: fill_out_pre_def fill_out_all)

section \<open>Numbers\<close>

definition digit_set :: "u8 \<Rightarrow> char list" where
  "digit_set ty = (if ty AND LARGE \<noteq> 0 then large_digits else small_digits)"

definition radix_of :: "nat \<Rightarrow> nat" where
  "radix_of base = (if base = 10 then 10 else 16)"

definition sign_text :: "u8 \<Rightarrow> u32 \<Rightarrow> u8 list" where
  "sign_text ty num =
    (if ty AND SIGN = 0 then [] else if sint num < 0 then [45] else if ty AND PLUS \<noteq> 0 then [43]
     else if ty AND SPACE \<noteq> 0 then [32] else [])"

definition digits_text :: "u8 \<Rightarrow> nat \<Rightarrow> u32 \<Rightarrow> u8 list" where
  "digits_text ty base num = numeral_in (radix_of base) (\<lambda>d. char_byte (digit_set ty ! d))
     (if ty AND SIGN \<noteq> 0 \<and> sint num < 0 then nat (- sint num) else unat num)"

text \<open>Sign, padding and digits: blanks on the left, zeros after the sign, or blanks on the right.\<close>

definition number_text :: "u32 \<Rightarrow> nat \<Rightarrow> int \<Rightarrow> int \<Rightarrow> u8 \<Rightarrow> u8 list" where
  "number_text num base width precision ty =
    (let sign = sign_text ty num;
         ds = digits_text ty base num;
         body = replicate (nat precision - length ds) 48 @ (if precision = 0 then [] else ds);
         room = nat (width - max precision (int (length ds)) - int (length sign))
     in if ty AND LEFT \<noteq> 0 then sign @ body @ replicate room 32
        else if ty AND ZEROPAD \<noteq> 0 then sign @ replicate room 48 @ body
        else replicate room 32 @ sign @ body)"

lemma tmp_digits_numeral:
  "num \<noteq> 0 \<Longrightarrow> rev (tmp_digits ds base num) = numeral_in (radix_of base) (\<lambda>d. char_byte (ds ! d)) (unat num)"
proof (induction ds base num rule: tmp_digits.induct)
  case (1 ds base num)
  let ?b = "radix_of base"
  define n where "n = num div of_nat ?b"
  have d: "divide num base = (num mod of_nat ?b, n)" by (simp add: divide_def radix_of_def n_def)
  have u: "unat (num mod of_nat ?b) = unat num mod ?b" "unat n = unat num div ?b"
    by (auto simp: n_def radix_of_def unat_mod unat_div)
  have b: "\<not> ?b < 2" by (simp add: radix_of_def)
  have t: "tmp_digits ds base num = char_byte (ds ! (unat num mod ?b)) # tmp_digits ds base n"
    using 1(2) d u by (simp add: tmp_digits.simps [of ds base num])
  show ?case
  proof (cases "n = 0")
    case True
    then have "unat num < ?b" using u(2) b by (simp add: div_eq_0_iff)
    then show ?thesis using t True by (simp add: numeral_in.simps tmp_digits.simps)
  next
    case False
    then have "\<not> unat num < ?b" using u(2) by (metis div_less unat_eq_zero)
    then show ?thesis using t b u(2) 1(1) [OF 1(2) d [symmetric] False]
      by (subst numeral_in.simps) simp
  qed
qed

lemma numeral_zero: "numeral_in (radix_of base) (\<lambda>d. char_byte (digit_set ty ! d)) 0 = [48]"
  by (simp add: numeral_in.simps radix_of_def digit_set_def large_digits_def small_digits_def char_byte_def)

lemma negated: "num <s 0 \<Longrightarrow> unat (- num :: u32) = nat (- sint num)"
  using negated_magnitude [of num] by (simp add: word_msb_less_zero)

lemma flag_bits: "(x AND NOT ZEROPAD) AND ZEROPAD = 0" "(x AND NOT ZEROPAD) AND SIGN = x AND SIGN"
  "(x AND NOT ZEROPAD) AND PLUS = x AND PLUS" "(x AND NOT ZEROPAD) AND SPACE = x AND SPACE"
  "(x AND NOT ZEROPAD) AND LEFT = x AND LEFT"
  "x AND (ZEROPAD OR LEFT) = 0 \<longleftrightarrow> x AND ZEROPAD = 0 \<and> x AND LEFT = 0"
proof -
  show "(x AND NOT ZEROPAD) AND ZEROPAD = 0" "(x AND NOT ZEROPAD) AND SIGN = x AND SIGN"
    "(x AND NOT ZEROPAD) AND PLUS = x AND PLUS" "(x AND NOT ZEROPAD) AND SPACE = x AND SPACE"
    "(x AND NOT ZEROPAD) AND LEFT = x AND LEFT"
    by (simp_all add: and.assoc ZEROPAD_def SIGN_def PLUS_def SPACE_def LEFT_def)
  show "x AND (ZEROPAD OR LEFT) = 0 \<longleftrightarrow> x AND ZEROPAD = 0 \<and> x AND LEFT = 0"
    by (metis (no_types) bit.conj_disj_distrib or_eq_0_iff)
qed

lemma tmp_is_digits:
  assumes "num1 = (if ty AND SIGN \<noteq> 0 \<and> num <s 0 then - num else num)"
  shows "rev (if num1 = 0 then [48] else tmp_digits (digit_set ty) base num1) = digits_text ty base num"
proof -
  have v: "unat num1 = (if ty AND SIGN \<noteq> 0 \<and> sint num < 0 then nat (- sint num) else unat num)"
    using assms negated [of num] by (auto simp: word_msb_less_zero)
  show ?thesis
  proof (cases "num1 = 0")
    case True
    then show ?thesis using v by (simp add: digits_text_def numeral_zero flip: v)
  next
    case False
    then show ?thesis using tmp_digits_numeral [OF False, of "digit_set ty" base] v by (simp add: digits_text_def)
  qed
qed

lemma print_number_text:
  "print_number endp num base width precision ty out = put_all endp (number_text num base width precision ty) out"
proof -
  define ty1 where "ty1 = (if ty AND LEFT \<noteq> 0 then ty AND NOT ZEROPAD else ty)"
  define num1 where "num1 = (if ty AND SIGN \<noteq> 0 \<and> num <s 0 then - num else num)"
  define tmp where "tmp = (if num1 = 0 then [48] else tmp_digits (digit_set ty) base num1)"
  have bits: "ty1 AND SIGN = ty AND SIGN" "ty1 AND PLUS = ty AND PLUS" "ty1 AND SPACE = ty AND SPACE" "ty1 AND LEFT = ty AND LEFT"
    "ty1 AND ZEROPAD \<noteq> 0 \<longleftrightarrow> ty AND LEFT = 0 \<and> ty AND ZEROPAD \<noteq> 0"
    by (auto simp: ty1_def flag_bits)
  have sign: "(if ty1 AND SIGN \<noteq> 0
      then if num <s 0 then ([45], - num) else if ty1 AND PLUS \<noteq> 0 then ([43], num)
           else if ty1 AND SPACE \<noteq> 0 then ([32], num) else ([], num)
      else ([], num)) = (sign_text ty num, num1)"
    by (simp add: bits sign_text_def num1_def word_msb_less_zero)
  have ds: "rev tmp = digits_text ty base num" unfolding tmp_def by (rule tmp_is_digits [OF num1_def])
  then have len: "length tmp = length (digits_text ty base num)" by (metis length_rev)
  have p: "(if int (length tmp) > precision then int (length tmp) else precision) = max precision (int (length tmp))"
    by (simp add: max_def)
  have z: "nat (max precision (int (length tmp)) - int (length tmp)) = nat precision - length tmp"
    by (simp add: max_def nat_diff_distrib')
  define r where "r = width - max precision (int (length tmp))"
  have closed: "print_number endp num base width precision ty out =
    (let n = max precision (int (length tmp)); sign = sign_text ty num; body = replicate (nat precision - length tmp) 48 @ (if precision = 0 then [] else rev tmp);
         room = nat (width - n - int (length sign))
     in put_all endp (if ty1 AND LEFT \<noteq> 0 then sign @ body @ replicate room 32
        else if ty1 AND ZEROPAD \<noteq> 0 then sign @ replicate room 48 @ body
        else replicate room 32 @ sign @ body) out)"
  proof -
    consider "sign_text ty num = []" | c where "sign_text ty num = [c]" unfolding sign_text_def by metis
    then show ?thesis
    proof cases
      case 1
      show ?thesis
        unfolding print_number_def Let_def ty1_def [symmetric] digit_set_def [symmetric] sign case_prod_conv tmp_def [symmetric] p fill_out_all z 1 r_def [symmetric]
        by (cases "0 < r") (simp_all add: flag_bits)
    next
      case 2
      show ?thesis
        unfolding print_number_def Let_def ty1_def [symmetric] digit_set_def [symmetric] sign case_prod_conv tmp_def [symmetric] p fill_out_all z 2 r_def [symmetric]
        by (cases "0 < r") (simp_all add: flag_bits)
    qed
  qed
  show ?thesis unfolding closed number_text_def Let_def ds len bits by simp
qed

section \<open>What a format prints\<close>

definition beside :: "u8 \<Rightarrow> int \<Rightarrow> u8 list \<Rightarrow> u8 list" where
  "beside flags room str =
    (if flags AND LEFT = 0 then replicate (nat room) 32 @ str else str @ replicate (nat room) 32)"

text \<open>A string is cut at the width as well as at a positive precision.\<close>

definition string_text :: "int \<Rightarrow> int \<Rightarrow> u8 \<Rightarrow> char list option \<Rightarrow> u8 list" where
  "string_text width precision flags arg =
    (let s = (case arg of None \<Rightarrow> ''(NULL)'' | Some s \<Rightarrow> s);
         cut = (if width < 0 then s else take (nat width) s);
         str = map char_byte (if precision > 0 then take (nat precision) cut else cut)
     in beside flags (width - int (length str)) str)"

definition convert_text :: "int \<Rightarrow> int \<Rightarrow> u8 \<Rightarrow> char \<Rightarrow> char \<Rightarrow> varg list \<Rightarrow> (varg list \<times> u8 list) option" where
  "convert_text width precision flags qualifier c args =
    (if c = CHR ''c''
     then (case args of VInt v # as \<Rightarrow> Some (as, beside flags (width - 1) [ucast v]) | _ \<Rightarrow> None)
     else if c = CHR ''s''
     then (case args of VStr s # as \<Rightarrow> Some (as, string_text width precision flags s) | _ \<Rightarrow> None)
     else if c = CHR ''p''
     then (case args of
        VPtr v # as \<Rightarrow> Some (as, if width = -1 then number_text v 16 8 precision (flags OR ZEROPAD)
                                 else number_text v 16 width precision flags)
      | _ \<Rightarrow> None)
     else if c = CHR ''%'' then Some (args, [37])
     else case number_base c flags of
       Some (base, flags1) \<Rightarrow>
         (case args of
            VInt v # as \<Rightarrow> Some (as, number_text (fetch_number qualifier flags1 v) base width precision flags1)
          | _ \<Rightarrow> None)
     | None \<Rightarrow> Some (args, if c \<noteq> NUL then [37, char_byte c] else [37]))"

definition directive_text :: "char list \<Rightarrow> varg list \<Rightarrow> (char list \<times> varg list \<times> u8 list) option" where
  "directive_text fmt args =
    do { let (flags, fmt1) = parse_flags fmt 0;
         (width, flags1, fmt2, args1) \<leftarrow> parse_width fmt1 flags args;
         (precision, fmt3, args2) \<leftarrow> parse_precision fmt2 args1;
         let (qualifier, fmt4) = parse_qualifier fmt3;
         (args3, str) \<leftarrow> convert_text width precision flags1 qualifier (first_char fmt4) args2;
         Some (tl fmt4, args3, str) }"

lemma put_char_text:
  "put_char endp width flags v out = put_all endp (beside flags (width - 1) [ucast v]) out"
  by (simp add: put_char_def beside_def fill_out_pre_all Let_def)

lemma text_len_step:
  "text_len [] len width = len" "text_len (c # s) len width = (if len \<noteq> width then text_len s (len + 1) width else len)"
  by (subst text_len.simps, simp)+

lemma text_len_unlimited: "0 \<le> len \<Longrightarrow> width < 0 \<Longrightarrow> text_len s len width = len + int (length s)"
  by (induction s arbitrary: len) (auto simp: text_len_step)

lemma text_len_limited: "len \<le> width \<Longrightarrow> text_len s len width = len + int (min (length s) (nat (width - len)))"
  by (induction s arbitrary: len) (auto simp: text_len_step min_def)

lemma text_len_cut:
  "width = -1 \<or> 0 \<le> width \<Longrightarrow> text_len s 0 width = int (length (if width < 0 then s else take (nat width) s))"
  using text_len_unlimited [of 0 width s] text_len_limited [of 0 width s] by (auto simp: min_def)

lemma put_text_text:
  assumes w: "width = -1 \<or> 0 \<le> width"
  shows "put_text endp width precision flags arg out = put_all endp (string_text width precision flags arg) out"
proof -
  define s where "s = (case arg of None \<Rightarrow> ''(NULL)'' | Some s \<Rightarrow> s)"
  define cut where "cut = (if width < 0 then s else take (nat width) s)"
  define len where "len = (if precision > 0 \<and> text_len s 0 width > precision then precision else text_len s 0 width)"
  define str where "str = (if precision > 0 then take (nat precision) cut else cut)"
  have tl: "text_len s 0 width = int (length cut)" using text_len_cut [OF w, of s] by (simp add: cut_def)
  then have len: "len = int (length str)" by (auto simp: len_def str_def)
  have "take (nat len) s = str"
  proof -
    have "take (length cut) s = cut" by (auto simp: cut_def min_def)
    moreover from this have "take (nat precision) s = take (nat precision) cut" if "precision \<le> int (length cut)"
      using that take_take [of "nat precision" "length cut" s] by (simp add: nat_le_iff min_absorb1)
    ultimately show ?thesis using tl by (auto simp: len_def str_def)
  qed
  then show ?thesis
    using len by (auto simp: put_text_def string_text_def Let_def fill_out_all beside_def
        s_def [symmetric] len_def [symmetric] cut_def [symmetric] str_def)
qed

lemma isdigit_range: "isdigit c \<longleftrightarrow> 48 \<le> (of_char c :: nat) \<and> (of_char c :: nat) < 58"
proof -
  define n :: nat where "n = of_char c"
  have n: "n < 256" using nat_of_char_less_256 [of c] by (simp add: n_def)
  show ?thesis
  proof (cases "48 \<le> n")
    case True
    then have "(of_nat n :: u32) - 48 = of_nat (n - 48)" by (simp add: of_nat_diff)
    moreover have "(of_nat (n - 48) :: u32) < 10 \<longleftrightarrow> n - 48 < 10" using n by (simp add: word_less_nat_alt unat_of_nat)
    ultimately show ?thesis using True by (auto simp: isdigit_def n_def [symmetric])
  next
    case False
    then have "(of_nat n :: u32) < 48" by (simp add: word_less_nat_alt unat_of_nat)
    then have "unat ((of_nat n :: u32) - 48) = 2 ^ 32 + unat (of_nat n :: u32) - 48" by (simp add: unat_sub_if' word_less_nat_alt)
    then have "\<not> (of_nat n :: u32) - 48 < 10" by (simp add: word_less_nat_alt)
    then show ?thesis using False by (simp add: isdigit_def n_def [symmetric])
  qed
qed

lemma parse_width_range:
  "parse_width fmt flags args = Some (w, f, r, as) \<Longrightarrow> w = -1 \<or> 0 \<le> w"
proof -
  have s: "0 \<le> i \<Longrightarrow> skip_atoi i cs = (n, r) \<Longrightarrow> 0 \<le> n" for i cs n r
    by (induction i cs rule: skip_atoi.induct) (auto simp: isdigit_range split: if_splits)
  show "parse_width fmt flags args = Some (w, f, r, as) \<Longrightarrow> w = -1 \<or> 0 \<le> w"
    using s [of 0 fmt] by (auto simp: parse_width_def word_msb_less_zero split: if_splits prod.splits list.splits varg.splits)
qed

lemma convert_all:
  "w = -1 \<or> 0 \<le> w \<Longrightarrow>
   convert endp w p f q c args out = map_option (\<lambda>(as, str). (as, put_all endp str out)) (convert_text w p f q c args)"
proof -
  assume w: "w = -1 \<or> 0 \<le> w"
  consider "c = CHR ''c''" | "c = CHR ''s''" | "c = CHR ''p''" | "c = CHR ''%''"
    | "c \<noteq> CHR ''c''" "c \<noteq> CHR ''s''" "c \<noteq> CHR ''p''" "c \<noteq> CHR ''%''" by blast
  then show ?thesis
  proof cases
    case 1
    then show ?thesis by (simp add: convert_def convert_text_def put_char_text split: list.split varg.split)
  next
    case 2
    then show ?thesis by (simp add: convert_def convert_text_def put_text_text [OF w] split: list.split varg.split)
  next
    case 3
    then show ?thesis by (simp add: convert_def convert_text_def print_number_text split: list.split varg.split)
  next
    case 4
    then show ?thesis by (simp add: convert_def convert_text_def)
  next
    case 5
    show ?thesis
    proof (cases "number_base c f")
      case None
      then show ?thesis using 5 by (simp add: convert_def convert_text_def Let_def)
    next
      case (Some b)
      then show ?thesis using 5
        by (cases b) (simp add: convert_def convert_text_def print_number_text split: list.split varg.split)
    qed
  qed
qed

lemma directive_all:
  "directive endp fmt args out = map_option (\<lambda>(r, as, str). (r, as, put_all endp str out)) (directive_text fmt args)"
proof -
  obtain f s1 where s1: "parse_flags fmt 0 = (f, s1)" by fastforce
  show ?thesis
  proof (cases "parse_width s1 f args")
    case (Some x)
    obtain w f1 s2 as1 where x: "x = (w, f1, s2, as1)" by (metis prod_cases4)
    note w = parse_width_range [OF Some [unfolded x]]
    show ?thesis
    proof (cases "parse_precision s2 as1")
      case (Some y)
      obtain pr s3 as2 where y: "y = (pr, s3, as2)" by (metis prod_cases3)
      obtain q s4 where q: "parse_qualifier s3 = (q, s4)" by fastforce
      show ?thesis
        using s1 \<open>parse_width s1 f args = Some x\<close> x Some y q
        by (cases "convert_text w pr f1 q (first_char s4) as2")
          (auto simp: directive_def directive_text_def convert_all [OF w])
    qed (use s1 Some x in \<open>simp add: directive_def directive_text_def\<close>)
  qed (simp add: directive_def directive_text_def s1)
qed

lemma directive_text_length: "directive_text fmt args = Some (r, as, str) \<Longrightarrow> length r \<le> length fmt"
  using directive_length [of 0 fmt args undefined r as "put_all 0 str undefined"] by (simp add: directive_all)

function printed :: "char list \<Rightarrow> varg list \<Rightarrow> u8 list option" where
  "printed [] args = Some []"
| "printed (c # fmt) args =
    (if c \<noteq> CHR ''%'' then map_option (\<lambda>str. char_byte c # str) (printed fmt args)
     else case directive_text fmt args of
       None \<Rightarrow> None
     | Some (r, as, str) \<Rightarrow> map_option (\<lambda>rest. str @ rest) (printed r as))"
  by pat_completeness auto
termination by (relation "measure (\<lambda>(fmt, args). length fmt)") (auto dest!: directive_text_length)

lemma format_loop_all: "format_loop endp fmt args out = map_option (\<lambda>str. put_all endp str out) (printed fmt args)"
proof (induction endp fmt args out rule: format_loop.induct)
  case (2 endp c fmt args out)
  show ?case
  proof (cases "c = CHR ''%''")
    case False
    then show ?thesis using 2(1) by (simp add: option.map_comp comp_def)
  next
    case True
    show ?thesis
    proof (cases "directive_text fmt args")
      case None
      then show ?thesis using True by (simp add: directive_all)
    next
      case (Some x)
      then obtain r as str where x: "directive_text fmt args = Some (r, as, str)" by (metis prod_cases3)
      then have "directive endp fmt args out = Some (r, as, put_all endp str out)" by (simp add: directive_all)
      then show ?thesis using 2(2) [of _ r _ as "put_all endp str out"] True x by (simp add: option.map_comp comp_def)
    qed
  qed
qed simp

section \<open>What is left in memory\<close>

lemma put_all_memory:
  "unat p + length cs < 2 ^ 32 \<Longrightarrow>
   put_all endp cs (p, m) =
    (p + of_nat (length cs), \<lambda>a. if p \<le> a \<and> unat a < unat p + length cs \<and> a < endp then cs ! (unat a - unat p) else m a)"
proof (induction cs arbitrary: p m)
  case (Cons c cs)
  have p1: "unat (p + 1) = unat p + 1"
    using Cons.prems unat_add_lem [of p 1] by simp
  define m1 where "m1 = (if p < endp then m(p := c) else m)"
  have "put_all endp (c # cs) (p, m) = put_all endp cs (p + 1, m1)" by (simp add: put_at_def m1_def)
  also have "\<dots> = (p + 1 + of_nat (length cs), \<lambda>a. if p + 1 \<le> a \<and> unat a < unat (p + 1) + length cs \<and> a < endp
      then cs ! (unat a - unat (p + 1)) else m1 a)"
    by (rule Cons.IH) (use Cons.prems p1 in simp)
  also have "(\<lambda>a. if p + 1 \<le> a \<and> unat a < unat (p + 1) + length cs \<and> a < endp then cs ! (unat a - unat (p + 1)) else m1 a) =
      (\<lambda>a. if p \<le> a \<and> unat a < unat p + length (c # cs) \<and> a < endp then (c # cs) ! (unat a - unat p) else m a)"
    (is "?l = ?r")
  proof
    fix a
    consider "unat a < unat p" | "a = p" | "unat p < unat a" by (metis linorder_neqE_nat word_unat_eq_iff)
    then show "?l a = ?r a"
    proof cases
      case 1
      then have "a \<noteq> p" by auto
      then show ?thesis using 1 p1 by (simp add: word_le_nat_alt m1_def)
    next
      case 2
      then show ?thesis using p1 by (simp add: word_le_nat_alt m1_def)
    next
      case 3
      then have "a \<noteq> p" "unat a - unat p = Suc (unat a - Suc (unat p))" by auto
      then show ?thesis using 3 p1 by (simp add: word_le_nat_alt m1_def)
    qed
  qed
  finally show ?case by (simp add: add.assoc)
qed (auto simp: fun_eq_iff word_le_nat_alt)

text \<open>C99: \<^verbatim>\<open>rt_vsnprintf\<close> stores as much of the text as fits and terminates it, touches nothing outside its
  buffer, and returns the length of the whole text.\<close>

lemma vsnprintf_memory:
  assumes t: "printed fmt args = Some str" and e: "unat buf + unat sz < 2 ^ 32" and l: "unat buf + length str < 2 ^ 32"
  shows "\<exists>m'. rt_vsnprintf buf sz fmt args m = Some (of_nat (length str), m') \<and>
    (let n = min (length str) (unat sz - 1)
     in \<forall>i < unat sz. m' (buf + of_nat i) = (if i < n then str ! i else if i = n then 0 else m (buf + of_nat i))) \<and>
    (\<forall>a. \<not> a - buf < sz \<longrightarrow> m' a = m a)"
proof -
  define endp where "endp = buf + sz"
  have en: "unat endp = unat buf + unat sz" using e unat_add_lem [of buf sz] by (simp add: endp_def)
  have nb: "\<not> endp < buf" using en by (simp add: word_less_nat_alt)
  define p where "p = buf + of_nat (length str)"
  have p: "unat p = unat buf + length str" using l unat_add_lem [of buf "of_nat (length str)"] by (simp add: p_def unat_of_nat)
  define m1 where "m1 = (\<lambda>a. if buf \<le> a \<and> unat a < unat buf + length str \<and> a < endp then str ! (unat a - unat buf) else m a)"
  define m2 where "m2 = (if sz > 0 then if p < endp then m1(p := 0) else m1(endp - 1 := 0) else m1)"
  have "rt_vsnprintf buf sz fmt args m = Some (of_nat (length str), m2)"
    using nb t by (simp add: rt_vsnprintf_def format_loop_all put_all_memory [OF l] Let_def m1_def m2_def p_def endp_def)
  moreover have "m2 (buf + of_nat i) = (if i < n then str ! i else if i = n then 0 else m (buf + of_nat i))"
    if i: "i < unat sz" and n: "n = min (length str) (unat sz - 1)" for i n
  proof -
    have b: "unat (buf + of_nat i) = unat buf + i"
      using e i unat_add_lem [of buf "of_nat i"] by (simp add: unat_of_nat)
    then have m1: "m1 (buf + of_nat i) = (if i < length str then str ! i else m (buf + of_nat i))"
      using i en by (simp add: m1_def word_le_nat_alt word_less_nat_alt)
    have z: "sz > 0" using i by (metis not_less_zero unat_0 word_gt_0)
    have "endp \<noteq> 0" using en i by auto
    then have last: "unat (endp - 1) = unat buf + (unat sz - 1)" using en i by (simp add: unat_minus_one)
    show ?thesis
    proof (cases "p < endp")
      case True
      then have "length str \<le> unat sz - 1" using p en by (simp add: word_less_nat_alt)
      moreover have "buf + of_nat i = p \<longleftrightarrow> i = length str" using b p by (simp add: word_unat_eq_iff)
      ultimately show ?thesis using True z m1 n by (simp add: m2_def min_absorb1)
    next
      case False
      then have ls: "unat sz \<le> length str" using p en by (simp add: word_less_nat_alt)
      have "buf + of_nat i = endp - 1 \<longleftrightarrow> i = unat sz - 1" using b last by (simp add: word_unat_eq_iff)
      moreover have "n = unat sz - 1" using n ls by simp
      ultimately show ?thesis using False z m1 ls i by (auto simp: m2_def)
    qed
  qed
  moreover have "m2 a = m a" if a: "\<not> a - buf < sz" for a
  proof -
    have out: "\<not> (buf \<le> a \<and> a < endp)"
    proof
      assume "buf \<le> a \<and> a < endp"
      then have "unat (a - buf) = unat a - unat buf" "unat a < unat buf + unat sz" "unat buf \<le> unat a"
        using en by (simp_all add: unat_sub word_less_nat_alt word_le_nat_alt)
      then show False using a by (simp add: word_less_nat_alt)
    qed
    have "a \<noteq> p" if "p < endp" using out that p by (auto simp: word_le_nat_alt)
    moreover have "a \<noteq> endp - 1" if "sz > 0"
    proof -
      have z: "0 < unat sz" using that by (simp add: word_less_nat_alt)
      then have "endp \<noteq> 0" using en by auto
      then have "unat (endp - 1) = unat buf + (unat sz - 1)" "unat (endp - 1) < unat endp"
        using en z by (simp_all add: unat_minus_one)
      then show ?thesis using out by (auto simp: word_le_nat_alt word_less_nat_alt)
    qed
    ultimately show ?thesis using out by (auto simp: m2_def m1_def)
  qed
  ultimately show ?thesis by (auto simp: Let_def)
qed

section \<open>On the console\<close>

lemma string_at_text:
  "k < n \<Longrightarrow> k \<le> length cs \<Longrightarrow> (\<forall>i<k. m (p + of_nat i) = cs ! i \<and> cs ! i \<noteq> 0) \<Longrightarrow> m (p + of_nat k) = 0 \<Longrightarrow>
   string_at n p m = Some (take k cs)"
proof (induction n arbitrary: p k cs)
  case (Suc n)
  show ?case
  proof (cases k)
    case 0
    then show ?thesis using Suc.prems by simp
  next
    case (Suc j)
    then obtain c cs' where cs: "cs = c # cs'" using Suc.prems(2) by (cases cs) auto
    have "m p = c" "c \<noteq> 0" using Suc.prems(3) Suc cs by auto
    moreover have "string_at n (p + 1) m = Some (take j cs')"
    proof (rule Suc.IH)
      show "\<forall>i<j. m (p + 1 + of_nat i) = cs' ! i \<and> cs' ! i \<noteq> 0"
      proof (intro allI impI)
        fix i assume "i < j"
        then have "m (p + of_nat (Suc i)) = cs ! Suc i \<and> cs ! Suc i \<noteq> 0" using Suc.prems(3) Suc by blast
        then show "m (p + 1 + of_nat i) = cs' ! i \<and> cs' ! i \<noteq> 0" by (simp add: cs add.assoc)
      qed
      show "m (p + 1 + of_nat j) = 0" using Suc.prems(4) Suc by (simp add: add.assoc)
    qed (use Suc.prems Suc cs in auto)
    ultimately show ?thesis using Suc cs by simp
  qed
qed simp

text \<open>What is left in the console buffer, as the string the console is given.\<close>

lemma console_text:
  assumes t: "printed fmt args = Some str" and z: "0 \<notin> set str"
    and b: "unat log_buf + 128 \<le> 2 ^ 32" and l: "unat log_buf + length str < 2 ^ 32"
  obtains m' where "rt_vsnprintf log_buf (of_nat RT_CONSOLEBUF_SIZE - 1) fmt args m = Some (of_nat (length str), m')"
    "string_at RT_CONSOLEBUF_SIZE log_buf m' = Some (take 126 str)" "\<forall>a. \<not> a - log_buf < 128 \<longrightarrow> m' a = m a"
proof -
  have e: "unat log_buf + unat (127 :: u32) < 2 ^ 32" using b by simp
  obtain m' where m': "rt_vsnprintf log_buf 127 fmt args m = Some (of_nat (length str), m')"
    and c: "\<forall>i<127. m' (log_buf + of_nat i) =
      (if i < min (length str) 126 then str ! i else if i = min (length str) 126 then 0 else m (log_buf + of_nat i))"
    and o: "\<forall>a. \<not> a - log_buf < 127 \<longrightarrow> m' a = m a"
    using vsnprintf_memory [OF t e l, of m] by (auto simp: Let_def)
  define k where "k = min (length str) 126"
  have k: "k < 127" "k \<le> length str" by (auto simp: k_def)
  note c = c [folded k_def]
  have "string_at 128 log_buf m' = Some (take k str)"
  proof (rule string_at_text)
    show "\<forall>i<k. m' (log_buf + of_nat i) = str ! i \<and> str ! i \<noteq> 0"
      using c z k by (auto simp: in_set_conv_nth)
    show "m' (log_buf + of_nat k) = 0" using c k(1) by simp
  qed (use k in auto)
  moreover have "take k str = take 126 str" by (auto simp: k_def min_def)
  moreover have "m' a = m a" if "\<not> a - log_buf < 128" for a
  proof -
    have "(127 :: u32) < 128" by simp
    then have "\<not> a - log_buf < 127" using that order.strict_trans by blast
    then show ?thesis using o by blast
  qed
  ultimately show ?thesis using that [of m'] m' by (simp add: RT_CONSOLEBUF_SIZE_def)
qed



section \<open>What the directives print\<close>

text \<open>Examples, among them two that C99 prescribes otherwise: a width cuts a string, and octal numbers come
  out in base sixteen.\<close>

lemma width_cuts_string: "printed ''%3s'' [VStr (Some ''hello'')] = Some (map char_byte ''hel'')"
  by code_simp

lemma octal_is_hexadecimal: "printed ''%o'' [VInt 255] = Some (map char_byte ''ff'')"
  by code_simp

end
