(* ===== verification/Rt_Shell_Props.thy ===== *)
theory Rt_Shell_Props
  imports Rt_Shell Rt_Printf_Props
begin

text \<open>
  The line editor of the shell is a text with a cursor, in its buffer and on the screen of the terminal.
\<close>

section \<open>Output\<close>

text \<open>\<open>says sh str sh'\<close>: only the text \<open>str\<close> has gone out.\<close>

definition says :: "finsh_shell \<Rightarrow> u8 list \<Rightarrow> finsh_shell \<Rightarrow> bool" where
  "says sh str sh' = (\<exists>m. sh' = sh\<lparr>sh_log := m, sh_out := sh_out sh @ str\<rparr>)"

definition log_fits :: "finsh_shell \<Rightarrow> bool" where
  "log_fits sh = (unat (sh_log_buf sh) + 256 \<le> 2 ^ 32)"

lemma says_fields:
  assumes "says sh str sh'"
  shows "sh_line sh' = sh_line sh" "sh_stat sh' = sh_stat sh" "sh_echo_mode sh' = sh_echo_mode sh" "sh_prompt_mode sh' = sh_prompt_mode sh"
    "sh_position sh' = sh_position sh" "sh_curpos sh' = sh_curpos sh" "log_fits sh' = log_fits sh" "sh_out sh' = sh_out sh @ str"
    "sh_log_buf sh' = sh_log_buf sh"
  using assms by (auto simp: says_def log_fits_def)

lemma says_trans: "says sh xs sh1 \<Longrightarrow> says sh1 ys sh2 \<Longrightarrow> says sh (xs @ ys) sh2"
  by (auto simp: says_def)

lemma says_refl: "says sh [] sh"
  unfolding says_def by (rule exI [of _ "sh_log sh"]) simp

text \<open>The console of the board is given what \<open>kprint\<close> adds to \<open>sh_out\<close>.\<close>

lemma kprint_is_kprintf:
  "kprint fmt args sh = Some sh' \<Longrightarrow>
   \<exists>str. sh_out sh' = sh_out sh @ str \<and>
     rt_kprintf cf env (sh_log_buf sh) fmt args (sh_log sh) s = Some (sh_log sh', rt_hw_console_output cf env str s)"
  by (auto simp: kprint_def rt_kprintf_def split: bind_splits)

lemma kprint_says:
  assumes "printed fmt args = Some str" and "0 \<notin> set str" and "length str \<le> 126" and "log_fits sh"
  shows "\<exists>sh'. kprint fmt args sh = Some sh' \<and> says sh str sh'"
proof -
  have b: "unat (sh_log_buf sh) + 128 \<le> 2 ^ 32" "unat (sh_log_buf sh) + length str < 2 ^ 32"
    using assms(3,4) by (simp_all add: log_fits_def)
  obtain m where "rt_vsnprintf (sh_log_buf sh) (of_nat RT_CONSOLEBUF_SIZE - 1) fmt args (sh_log sh) = Some (of_nat (length str), m)"
    "string_at RT_CONSOLEBUF_SIZE (sh_log_buf sh) m = Some (take 126 str)"
    using console_text [OF assms(1,2) b, of "sh_log sh"] by metis
  then have "kprint fmt args sh = Some (sh\<lparr>sh_log := m, sh_out := sh_out sh @ str\<rparr>)" using assms(3) by (simp add: kprint_def)
  then show ?thesis unfolding says_def by blast
qed

section \<open>The formats of the shell\<close>

lemma of_char_less: "(of_char c :: nat) < 256"
  by (metis of_char_mod_256 mod_less_divisor zero_less_numeral)

lemma char_byte_inj: "char_byte c = char_byte d \<longleftrightarrow> c = d"
proof -
  have "(of_nat (of_char c) :: u8) = of_nat (of_char d) \<longleftrightarrow> (of_char c :: nat) = of_char d"
    using of_char_less by (simp add: word_of_nat_eq_iff take_bit_eq_mod)
  then show ?thesis by (simp add: char_byte_def)
qed

lemma char_byte_0: "char_byte c = 0 \<longleftrightarrow> c = NUL"
proof -
  have "char_byte NUL = 0" by (simp add: char_byte_def NUL_def)
  then show ?thesis using char_byte_inj [of c NUL] by simp
qed

lemma text_no_zero: "0 \<in> set (map char_byte s) \<longleftrightarrow> NUL \<in> set s"
  by (induction s) (use char_byte_0 in auto)

lemma char_int_byte: "ucast (char_int c) = char_byte c"
proof -
  have "(of_char c :: nat) < 2 ^ 32" by (rule order_less_le_trans [OF of_char_less]) simp
  then show ?thesis by (simp add: char_int_def char_byte_def unsigned_of_nat take_bit_nat_eq_self)
qed

lemma not_digits: "isdigit CHR ''s'' = False" "isdigit CHR ''c'' = False"
  by (simp_all add: isdigit_def)

lemma directive_s [simp]: "directive_text (CHR ''s'' # r) (VStr (Some s) # as) = Some (r, as, map char_byte s)"
  by (simp add: directive_text_def parse_width_def parse_precision_def parse_qualifier_def convert_text_def string_text_def
    beside_def Let_def not_digits NUL_def)

lemma directive_c [simp]: "directive_text (CHR ''c'' # r) (VInt v # as) = Some (r, as, [ucast v])"
  by (simp add: directive_text_def parse_width_def parse_precision_def parse_qualifier_def convert_text_def beside_def
    Let_def not_digits NUL_def)

lemma printed_formats:
  "printed backspace [] = Some (map char_byte backspace)"
  "printed newline [] = Some (map char_byte newline)"
  "printed (backspace @ '' '' @ backspace) [] = Some (map char_byte (backspace @ '' '' @ backspace))"
  "printed ''%s'' [VStr (Some s)] = Some (map char_byte s)"
  "printed ''%s '' [VStr (Some s)] = Some (map char_byte (s @ '' ''))"
  "printed ''%c'' [VInt (char_int c)] = Some (map char_byte [c])"
  "printed (backspace @ ''%s  '' @ backspace) [VStr (Some s)] = Some (map char_byte (backspace @ s @ ''  '' @ backspace))"
  "printed ''%s%s'' [VStr (Some s), VStr (Some s')] = Some (map char_byte (s @ s'))"
  "printed (''%s: command not found.'' @ newline) [VStr (Some s)] = Some (map char_byte (s @ '': command not found.'' @ newline))"
  "printed (''Too many args ! We only Use:'' @ newline) [] = Some (map char_byte (''Too many args ! We only Use:'' @ newline))"
  "printed (finsh_get_prompt sh) [] = Some (map char_byte (finsh_get_prompt sh))"
  by (simp_all add: backspace_def newline_def char_int_byte finsh_get_prompt_def)

text \<open>What one \<^verbatim>\<open>rt_kprintf\<close> of a text without null characters does.\<close>

lemma kprint_text:
  assumes "printed fmt args = Some (map char_byte s)" and "NUL \<notin> set s" and "length s \<le> 126" and "log_fits sh"
  obtains sh' where "kprint fmt args sh = Some sh'" "says sh (map char_byte s) sh'"
  using kprint_says [OF assms(1) _ _ assms(4)] assms(2,3) text_no_zero [of s] by auto

lemma formats_no_nul: "NUL \<notin> set backspace" "NUL \<notin> set newline" "NUL \<notin> set (finsh_get_prompt sh)" "length (finsh_get_prompt sh) \<le> 5"
  by (simp_all add: backspace_def newline_def finsh_get_prompt_def NUL_def)

lemma kprint_char:
  assumes "c \<noteq> NUL" and "log_fits sh"
  obtains sh' where "kprint ''%c'' [VInt (char_int c)] sh = Some sh'" "says sh [char_byte c] sh'"
proof -
  have "NUL \<notin> set [c]" "length [c] \<le> 126" using assms(1) by simp_all
  from kprint_text [OF printed_formats(6) this assms(2)] show ?thesis using that by (metis list.simps(8,9))
qed

lemma kprint_times_says:
  assumes "log_fits sh"
  shows "\<exists>sh'. kprint_times n backspace sh = Some sh' \<and> says sh (replicate n 8) sh'"
  using assms
proof (induction n arbitrary: sh)
  case 0
  then show ?case using says_refl by simp
next
  case (Suc n)
  obtain sh1 where s: "kprint backspace [] sh = Some sh1" "says sh (map char_byte backspace) sh1"
    using kprint_text [OF printed_formats(1) formats_no_nul(1) _ Suc.prems] by (auto simp: backspace_def)
  then have "log_fits sh1" using Suc.prems says_fields(7) by blast
  then obtain sh2 where "kprint_times n backspace sh1 = Some sh2" "says sh1 (replicate n 8) sh2" using Suc.IH by blast
  moreover have "map char_byte backspace = [8]" by (simp add: backspace_def char_byte_def)
  ultimately show ?case using s says_trans [of sh "[8]" sh1] by auto
qed

section \<open>The edited text\<close>

text \<open>\<open>edits sh l r\<close>: the line holds the text \<open>l @ r\<close>, the cursor stands between the two.\<close>

definition edits :: "finsh_shell \<Rightarrow> char list \<Rightarrow> char list \<Rightarrow> bool" where
  "edits sh l r = (sh_line sh = l @ r @ replicate (80 - length l - length r) NUL \<and> length l + length r < 80 \<and> NUL \<notin> set (l @ r) \<and>
     sh_curpos sh = of_nat (length l) \<and> sh_position sh = of_nat (length l + length r) \<and>
     sh_echo_mode sh \<and> sh_prompt_mode sh \<and> sh_stat sh = WAIT_NORMAL \<and> log_fits sh)"

lemma edits_says: "edits sh l r \<Longrightarrow> says sh str sh' \<Longrightarrow> edits sh' l r"
  unfolding edits_def says_def log_fits_def by auto

lemma u16_small: "n < 65536 \<Longrightarrow> unat (of_nat n :: u16) = n"
  by (simp add: unat_of_nat)

lemma u16_less: "i < 65536 \<Longrightarrow> j < 65536 \<Longrightarrow> (of_nat i :: u16) < of_nat j \<longleftrightarrow> i < j"
  by (simp add: word_less_nat_alt unat_of_nat)

lemma u16_zero: "i < 65536 \<Longrightarrow> (of_nat i :: u16) = 0 \<longleftrightarrow> i = 0"
  by (auto simp: word_of_nat_eq_0_iff dest: nat_dvd_not_less)

lemma line_chars_text: "NUL \<notin> set s \<Longrightarrow> line_chars (s @ NUL # zs) = Some s"
  by (induction s) auto

lemma line_text: "edits sh l r \<Longrightarrow> i \<le> length l + length r \<Longrightarrow> line_str i sh = Some (drop i (l @ r))"
proof -
  assume e: "edits sh l r" and i: "i \<le> length l + length r"
  obtain k where k: "80 - length l - length r = Suc k" using e unfolding edits_def by (cases "80 - length l - length r") auto
  have "drop i (sh_line sh) = drop i (l @ r) @ NUL # replicate k NUL"
    using e i unfolding edits_def k by simp
  moreover have "NUL \<notin> set (drop i (l @ r))" using e set_drop_subset [of i "l @ r"] unfolding edits_def by blast
  ultimately show ?thesis unfolding line_str_def by (metis line_chars_text)
qed

lemma editsD:
  assumes "edits sh l r"
  shows "sh_line sh = l @ r @ replicate (80 - length l - length r) NUL" "length l + length r < 80" "NUL \<notin> set l" "NUL \<notin> set r"
    "unat (sh_curpos sh) = length l" "unat (sh_position sh) = length l + length r" "sh_echo_mode sh" "sh_stat sh = WAIT_NORMAL" "log_fits sh"
    "length (sh_line sh) = 80" "sh_curpos sh = of_nat (length l)" "sh_position sh = of_nat (length l + length r)"
  using assms u16_small [of "length l"] u16_small [of "length l + length r"] unfolding edits_def by simp_all

lemma insert_key_edits:
  assumes e: "edits sh l r" and c: "c \<noteq> NUL" and room: "length l + length r < 79"
  shows "\<exists>sh'. insert_key c sh = Some sh' \<and> edits sh' (l @ [c]) r \<and>
    sh_out sh' = sh_out sh @ map char_byte (c # r) @ replicate (length r) 8"
proof -
  note d = editsD [OF e]
  let ?n = "length l" and ?k = "length r"
  have guard: "(if unat (sh_position sh) \<ge> FINSH_CMD_SIZE then sh\<lparr>sh_position := 0\<rparr> else sh) = sh"
    using d(2,6) by (simp add: FINSH_CMD_SIZE_def)
  obtain z where z: "80 - ?n - ?k = Suc z" using d(2) by (cases "80 - ?n - ?k") auto
  define sh1 where "sh1 = sh\<lparr>sh_line := l @ c # r @ replicate z NUL\<rparr>"
  have "\<exists>sh2. says sh1 (map char_byte (c # r) @ replicate ?k 8) sh2 \<and> insert_key c sh =
     (let sh3 = sh2\<lparr>sh_position := sh_position sh2 + 1, sh_curpos := sh_curpos sh2 + 1\<rparr>
      in Some (if unat (sh_position sh3) \<ge> FINSH_CMD_SIZE then sh3\<lparr>sh_position := 0, sh_curpos := 0\<rparr> else sh3))"
  proof (cases "r = []")
    case True
    have pk: "poke ?n c sh = Some sh1" using d(1,2) True z by (simp add: poke_def sh1_def)
    have "log_fits sh1" "sh_echo_mode sh1" using d by (simp_all add: sh1_def log_fits_def)
    then obtain sh2 where "kprint ''%c'' [VInt (char_int c)] sh1 = Some sh2" "says sh1 [char_byte c] sh2"
      using kprint_char [OF c] by blast
    then show ?thesis unfolding insert_key_def guard unfolding Let_def d(5,6) using True pk \<open>sh_echo_mode sh1\<close> by (intro exI [of _ sh2]) simp
  next
    case False
    define m where "m = sh\<lparr>sh_line := take (?n + 1) (l @ r) @ r @ replicate z NUL\<rparr>"
    have mv: "line_move (?n + 1) ?n ?k sh = Some m"
      using d(1,2) room z False by (cases r) (simp_all add: line_move_def Let_def m_def)
    have pk: "poke ?n c m = Some sh1" using d(1,2) z False by (cases r) (simp_all add: poke_def sh1_def m_def)
    have e1: "log_fits sh1" "sh_echo_mode sh1" using d by (simp_all add: sh1_def log_fits_def)
    have "line_chars ((c # r) @ NUL # replicate (z - 1) NUL) = Some (c # r)" by (rule line_chars_text) (use c d(4) in auto)
    moreover have "z = Suc (z - 1)" using room z by simp
    then have "replicate z NUL = NUL # replicate (z - 1) NUL" by (metis replicate_Suc)
    ultimately have ls: "line_str ?n sh1 = Some (c # r)" by (simp add: line_str_def sh1_def)
    have "NUL \<notin> set (c # r)" "length (c # r) \<le> 126" using c d(2,4) by auto
    then obtain sh2 where k2: "kprint ''%s'' [VStr (Some (c # r))] sh1 = Some sh2" "says sh1 (map char_byte (c # r)) sh2"
      using kprint_text [OF printed_formats(4) _ _ e1(1)] by metis
    then have "log_fits sh2" using says_fields(7) e1(1) by blast
    then obtain sh3 where k3: "kprint_times ?k backspace sh2 = Some sh3" "says sh2 (replicate ?k 8) sh3" using kprint_times_says by blast
    have "says sh1 (map char_byte (c # r) @ replicate ?k 8) sh3" by (rule says_trans [OF k2(2) k3(2)])
    then show ?thesis unfolding insert_key_def guard unfolding Let_def d(5,6)
      using False mv pk e1(2) ls k2(1) k3(1) by (intro exI [of _ sh3]) simp
  qed
  then obtain sh2 where s: "says sh1 (map char_byte (c # r) @ replicate ?k 8) sh2" and i: "insert_key c sh =
     (let sh3 = sh2\<lparr>sh_position := sh_position sh2 + 1, sh_curpos := sh_curpos sh2 + 1\<rparr>
      in Some (if unat (sh_position sh3) \<ge> FINSH_CMD_SIZE then sh3\<lparr>sh_position := 0, sh_curpos := 0\<rparr> else sh3))"
    by blast
  note f = says_fields [OF s]
  define sh3 where "sh3 = sh2\<lparr>sh_position := sh_position sh2 + 1, sh_curpos := sh_curpos sh2 + 1\<rparr>"
  have p3: "sh_position sh3 = of_nat (?n + 1 + ?k)" "sh_curpos sh3 = of_nat (?n + 1)"
    using f d(11,12) by (simp_all add: sh3_def sh1_def add_ac)
  then have "unat (sh_position sh3) = ?n + 1 + ?k" using u16_small [of "?n + 1 + ?k"] room by simp
  then have i3: "insert_key c sh = Some sh3" using i room by (simp add: sh3_def FINSH_CMD_SIZE_def)
  have "80 - (?n + 1) - ?k = z" using z by simp
  then have "edits sh3 (l @ [c]) r"
    using p3 f d(3,4,7-9) c room e unfolding edits_def by (simp add: sh3_def sh1_def log_fits_def)
  moreover have "sh_out sh3 = sh_out sh @ map char_byte (c # r) @ replicate ?k 8" using f by (simp add: sh3_def sh1_def)
  ultimately show ?thesis using i3 by blast
qed

lemma left_key_edits:
  assumes e: "edits sh (l @ [c]) r"
  shows "\<exists>sh'. left_key sh = Some sh' \<and> edits sh' l (c # r) \<and> sh_out sh' = sh_out sh @ [8]"
proof -
  note d = editsD [OF e]
  have nz: "sh_curpos sh \<noteq> 0" using d(5) by (metis length_append_singleton nat.distinct(1) unat_0)
  obtain sh1 where k: "kprint backspace [] sh = Some sh1" "says sh (map char_byte backspace) sh1"
    using kprint_text [OF printed_formats(1) formats_no_nul(1) _ d(9)] by (auto simp: backspace_def)
  note f = says_fields [OF k(2)]
  have "edits (sh1\<lparr>sh_curpos := sh_curpos sh1 - 1\<rparr>) l (c # r)"
    using edits_says [OF e k(2)] unfolding edits_def by (simp add: log_fits_def)
  moreover have "sh_out sh1 = sh_out sh @ [8]" using f by (simp add: backspace_def char_byte_def)
  ultimately show ?thesis using nz k(1) by (simp add: left_key_def)
qed

lemma left_key_stop: "edits sh [] r \<Longrightarrow> left_key sh = Some sh"
  using editsD(11) [of sh "[]" r] by (simp add: left_key_def)

lemma right_key_edits:
  assumes e: "edits sh l (c # r)"
  shows "\<exists>sh'. right_key sh = Some sh' \<and> edits sh' (l @ [c]) r \<and> sh_out sh' = sh_out sh @ [char_byte c]"
proof -
  note d = editsD [OF e]
  have lt: "sh_curpos sh < sh_position sh" using d(5,6) by (simp add: word_less_nat_alt)
  have pk: "peek (length l) sh = Some c" using d(1,2) by (simp add: peek_def)
  obtain sh1 where k: "kprint ''%c'' [VInt (char_int c)] sh = Some sh1" "says sh [char_byte c] sh1"
    using kprint_char [OF _ d(9), of c] d(4) by auto
  note f = says_fields [OF k(2)]
  have "edits (sh1\<lparr>sh_curpos := sh_curpos sh1 + 1\<rparr>) (l @ [c]) r"
    using edits_says [OF e k(2)] unfolding edits_def by (simp add: log_fits_def)
  then show ?thesis using lt pk k(1) f d(5) by (simp add: right_key_def)
qed

lemma right_key_stop: "edits sh l [] \<Longrightarrow> right_key sh = Some sh"
  using editsD(11,12) [of sh l "[]"] by (simp add: right_key_def)

lemma backspace_key_stop: "edits sh [] r \<Longrightarrow> backspace_key sh = Some sh"
  using editsD(11) [of sh "[]" r] by (simp add: backspace_key_def)

lemma backspace_key_edits:
  assumes e: "edits sh (l @ [c]) r"
  shows "\<exists>sh'. backspace_key sh = Some sh' \<and> edits sh' l r \<and>
    sh_out sh' = sh_out sh @ (if r = [] then [8, 32, 8] else 8 # map char_byte r @ [32, 32, 8] @ replicate (length r + 1) 8)"
proof -
  note d = editsD [OF e]
  let ?n = "length l" and ?k = "length r"
  have nz: "sh_curpos sh \<noteq> 0" using d(5) by (metis length_append_singleton nat.distinct(1) unat_0)
  define sh1 where "sh1 = sh\<lparr>sh_position := sh_position sh - 1, sh_curpos := sh_curpos sh - 1\<rparr>"
  have p: "sh_position sh - 1 = of_nat (?n + ?k)" "sh_curpos sh - 1 = of_nat ?n" using d(11,12) by simp_all
  have u: "unat (of_nat (?n + ?k) :: u16) = ?n + ?k" "unat (of_nat ?n :: u16) = ?n"
    using u16_small [of "?n + ?k"] u16_small [of ?n] d(2) by simp_all
  have gt: "(of_nat (?n + ?k) :: u16) > of_nat ?n \<longleftrightarrow> r \<noteq> []" using d(2) by (subst u16_less) auto
  obtain z where z: "80 - ?n - ?k = Suc (Suc z)" using d(2) by (cases "80 - ?n - ?k"; cases "80 - ?n - ?k - 1") auto
  have ln: "sh_line sh = l @ c # r @ replicate (Suc z) NUL"
  proof -
    have "79 - (?n + ?k) = Suc z" using z by simp
    then show ?thesis using d(1) by simp
  qed
  define sh2 where "sh2 = sh1\<lparr>sh_line := l @ r @ replicate (Suc (Suc z)) NUL\<rparr>"
  have e2: "edits sh2 l r"
    using d(2-4,7-9) p z e unfolding edits_def by (simp add: sh2_def sh1_def log_fits_def)
  have out2: "sh_out sh2 = sh_out sh" by (simp add: sh2_def sh1_def)
  show ?thesis
  proof (cases "r = []")
    case True
    have "NUL \<notin> set (backspace @ '' '' @ backspace)" by (simp add: backspace_def NUL_def)
    then obtain sh3 where k: "kprint (backspace @ '' '' @ backspace) [] sh1 = Some sh3" "says sh1 (map char_byte (backspace @ '' '' @ backspace)) sh3"
      using kprint_text [OF printed_formats(3), of sh1] d(9) by (auto simp: backspace_def sh1_def log_fits_def)
    have l3: "sh_line sh3 = sh_line sh" using says_fields(1) [OF k(2)] by (simp add: sh1_def)
    then have pk: "poke ?n NUL sh3 = Some (sh3\<lparr>sh_line := l @ replicate (Suc (Suc z)) NUL\<rparr>)"
      using ln True d(2) by (simp add: poke_def)
    have "says sh2 (map char_byte (backspace @ '' '' @ backspace)) (sh3\<lparr>sh_line := l @ replicate (Suc (Suc z)) NUL\<rparr>)"
    proof -
      obtain m where "sh3 = sh1\<lparr>sh_log := m, sh_out := sh_out sh1 @ map char_byte (backspace @ '' '' @ backspace)\<rparr>"
        using k(2) unfolding says_def by blast
      then show ?thesis unfolding says_def using True by (intro exI [of _ m]) (simp add: sh2_def)
    qed
    then have "edits (sh3\<lparr>sh_line := l @ replicate (Suc (Suc z)) NUL\<rparr>) l r"
      "sh_out (sh3\<lparr>sh_line := l @ replicate (Suc (Suc z)) NUL\<rparr>) = sh_out sh @ map char_byte (backspace @ '' '' @ backspace)"
      using edits_says [OF e2] says_fields(8) out2 by metis+
    moreover have "backspace_key sh = Some (sh3\<lparr>sh_line := l @ replicate (Suc (Suc z)) NUL\<rparr>)"
      using nz p gt True k(1) pk u(2) unfolding backspace_key_def Let_def sh1_def by simp
    moreover have "map char_byte (backspace @ '' '' @ backspace) = [8, 32, 8]" by (simp add: backspace_def char_byte_def)
    ultimately show ?thesis using True by simp
  next
    case False
    obtain x xs where r: "r = x # xs" using False by (cases r) auto
    define m where "m = sh1\<lparr>sh_line := l @ r @ drop (?n + ?k) (sh_line sh)\<rparr>"
    have mv: "line_move ?n (?n + 1) ?k sh1 = Some m"
      using ln d(2) by (simp add: line_move_def Let_def m_def sh1_def)
    have "sh_line sh = (l @ c # butlast r) @ last r # replicate (Suc z) NUL" using ln False by simp
    moreover have "length (l @ c # butlast r) = ?n + ?k" using r by simp
    ultimately have "drop (?n + ?k) (sh_line sh) = last r # replicate (Suc z) NUL" by (metis append_eq_conv_conj)
    then have pk: "poke (?n + ?k) NUL m = Some sh2" by (simp add: poke_def m_def sh2_def list_update_append)
    have ls: "line_str ?n sh2 = Some r" using line_text [OF e2, of ?n] by simp
    have "NUL \<notin> set (backspace @ r @ ''  '' @ backspace)" "length (backspace @ r @ ''  '' @ backspace) \<le> 126"
      using d(2,4) by (auto simp: backspace_def NUL_def)
    then obtain sh3 where k: "kprint (backspace @ ''%s  '' @ backspace) [VStr (Some r)] sh2 = Some sh3"
        "says sh2 (map char_byte (backspace @ r @ ''  '' @ backspace)) sh3"
      using kprint_text [OF printed_formats(7) _ _ editsD(9) [OF e2]] by metis
    have "log_fits sh3" using says_fields(7) [OF k(2)] editsD(9) [OF e2] by simp
    then obtain sh4 where k4: "kprint_times (?k + 1) backspace sh3 = Some sh4" "says sh3 (replicate (?k + 1) 8) sh4"
      using kprint_times_says by blast
    note s = says_trans [OF k(2) k4(2)]
    have "backspace_key sh = Some sh4"
      using nz p gt False mv pk ls k(1) k4(1) u unfolding backspace_key_def Let_def sh1_def [symmetric] by (simp add: sh1_def)
    moreover have "map char_byte (backspace @ r @ ''  '' @ backspace) = 8 # map char_byte r @ [32, 32, 8]"
      by (simp add: backspace_def char_byte_def)
    ultimately show ?thesis using edits_says [OF e2 s] says_fields(8) [OF s] out2 False by simp
  qed
qed

section \<open>The screen\<close>

text \<open>A row of a terminal: what is left of the cursor, and what is from the cursor on.\<close>

fun term_byte :: "u8 \<Rightarrow> u8 list \<times> u8 list \<Rightarrow> u8 list \<times> u8 list" where
  "term_byte b (l, r) =
    (if b = 8 then (if l = [] then (l, r) else (butlast l, last l # r))
     else if b = 10 then ([], []) else (l @ [b], tl r))"

definition screen :: "u8 list \<Rightarrow> u8 list \<times> u8 list" where
  "screen out = fold term_byte out ([], [])"

lemma screen_append: "screen (xs @ ys) = fold term_byte ys (screen xs)"
  by (simp add: screen_def)

definition printable :: "char \<Rightarrow> bool" where
  "printable c = (32 \<le> (of_char c :: nat) \<and> (of_char c :: nat) < 127)"

lemma term_text: "\<forall>b \<in> set xs. b \<noteq> 8 \<and> b \<noteq> 10 \<Longrightarrow> fold term_byte xs (l, r) = (l @ xs, drop (length xs) r)"
  by (induction xs arbitrary: l r) (auto simp: drop_Suc)

lemma term_back: "n \<le> length l \<Longrightarrow> fold term_byte (replicate n 8) (l, r) = (take (length l - n) l, drop (length l - n) l @ r)"
proof (induction n arbitrary: l r)
  case (Suc n)
  then obtain l' b where l: "l = l' @ [b]" by (metis Suc_le_length_iff append_butlast_last_id list.distinct(1))
  then show ?case using Suc.IH [of l' "b # r"] Suc.prems by simp
qed simp

lemma printable_byte: "printable c \<Longrightarrow> char_byte c \<noteq> 8 \<and> char_byte c \<noteq> 10"
proof -
  assume p: "printable c"
  have "unat (char_byte c) = (of_char c :: nat)"
    unfolding char_byte_def using of_char_less [of c] by (simp add: unat_of_nat)
  then show ?thesis using p unfolding printable_def by (intro conjI notI) simp_all
qed

lemma printable_key: "printable c \<Longrightarrow> c \<noteq> NUL \<and> c \<noteq> CHR 0xff \<and> c \<noteq> CHR 0x09 \<and> c \<noteq> CHR 0x7f \<and> c \<noteq> CHR 0x08 \<and>
    c \<noteq> CHR 0x0d \<and> c \<noteq> CHR 0x0a \<and> c \<noteq> CHR 0x1b"
  unfolding printable_def NUL_def by (intro conjI notI) simp_all

text \<open>The prompt and the text before the cursor stand left of the cursor, the rest and blanks from it on.\<close>

definition prompt_bytes :: "u8 list" where
  "prompt_bytes = map char_byte ''msh >''"

definition on_screen :: "finsh_shell \<Rightarrow> char list \<Rightarrow> char list \<Rightarrow> bool" where
  "on_screen sh l r = (\<exists>k. screen (sh_out sh) = (prompt_bytes @ map char_byte l, map char_byte r @ replicate k 32))"

lemma on_screenI: "fold term_byte out (screen xs) = (prompt_bytes @ map char_byte l, map char_byte r @ replicate k 32) \<Longrightarrow>
    sh_out sh = xs @ out \<Longrightarrow> on_screen sh l r"
  unfolding on_screen_def by (intro exI [of _ k]) (simp only: screen_append)

section \<open>The editor\<close>

datatype edit_key = Char char | Left_arrow | Right_arrow | Backspace

fun key_codes :: "edit_key \<Rightarrow> char list" where
  "key_codes (Char c) = [c]"
| "key_codes Left_arrow = [CHR 0x1b, CHR 0x5b, CHR 0x44]"
| "key_codes Right_arrow = [CHR 0x1b, CHR 0x5b, CHR 0x43]"
| "key_codes Backspace = [CHR 0x7f]"

fun edit :: "edit_key \<Rightarrow> char list \<times> char list \<Rightarrow> char list \<times> char list" where
  "edit (Char c) (l, r) = (l @ [c], r)"
| "edit Left_arrow (l, r) = (if l = [] then (l, r) else (butlast l, last l # r))"
| "edit Right_arrow (l, r) = (case r of [] \<Rightarrow> (l, r) | c # r' \<Rightarrow> (l @ [c], r'))"
| "edit Backspace (l, r) = (butlast l, r)"

fun key_printable :: "edit_key \<Rightarrow> bool" where
  "key_printable (Char c) = printable c" | "key_printable _ = True"

text \<open>The text stays shorter than the buffer.\<close>

fun fits :: "edit_key list \<Rightarrow> char list \<times> char list \<Rightarrow> bool" where
  "fits [] e = True"
| "fits (k # ks) e = (length (fst (edit k e)) + length (snd (edit k e)) < 80 \<and> fits ks (edit k e))"

definition row_shown :: "finsh_shell \<Rightarrow> char list \<times> char list \<Rightarrow> bool" where
  "row_shown sh e = (case e of (l, r) \<Rightarrow> edits sh l r \<and> on_screen sh l r \<and> (\<forall>c \<in> set (l @ r). printable c))"

lemma normal_printable: "printable c \<Longrightarrow> normal_key table run c sh = insert_key c sh"
  using printable_key [of c] by (simp add: normal_key_def)

lemma finsh_key_plain: "sh_stat sh = WAIT_NORMAL \<Longrightarrow> c \<noteq> CHR 0x1b \<Longrightarrow> finsh_key table run c sh = normal_key table run c sh"
  by (simp add: finsh_key_def)

lemma arrow_codes:
  assumes "sh_stat sh = WAIT_NORMAL"
  shows "finsh_keys table run [CHR 0x1b, CHR 0x5b, CHR 0x44] sh = left_key sh"
    "finsh_keys table run [CHR 0x1b, CHR 0x5b, CHR 0x43] sh = right_key sh"
proof -
  have "sh\<lparr>sh_stat := WAIT_NORMAL\<rparr> = sh" using assms by (cases sh) simp
  then show "finsh_keys table run [CHR 0x1b, CHR 0x5b, CHR 0x44] sh = left_key sh"
    "finsh_keys table run [CHR 0x1b, CHR 0x5b, CHR 0x43] sh = right_key sh"
    by (simp_all add: finsh_key_def)
qed

lemma term_printable: "\<forall>c \<in> set s. printable c \<Longrightarrow>
    fold term_byte (map char_byte s) (l, r) = (l @ map char_byte s, drop (length s) r)"
  using term_text [of "map char_byte s" l r] printable_byte by auto

lemma shown_step:
  assumes s: "row_shown sh e" and k: "key_printable k" and f: "length (fst (edit k e)) + length (snd (edit k e)) < 80"
  shows "\<exists>sh'. finsh_keys table run (key_codes k) sh = Some sh' \<and> row_shown sh' (edit k e)"
proof -
  obtain l r where e: "e = (l, r)" by fastforce
  have ed: "edits sh l r" and pr: "\<forall>c \<in> set (l @ r). printable c" using s e by (simp_all add: row_shown_def)
  let ?P = "prompt_bytes @ map char_byte l" and ?r = "map char_byte r"
  obtain n where sc: "screen (sh_out sh) = (?P, ?r @ replicate n 32)" using s e by (auto simp: row_shown_def on_screen_def)
  note st = editsD(8) [OF ed]
  show ?thesis
  proof (cases k)
    case (Char c)
    then have c: "printable c" using k by simp
    obtain sh' where i: "insert_key c sh = Some sh'" "edits sh' (l @ [c]) r"
      "sh_out sh' = sh_out sh @ map char_byte (c # r) @ replicate (length r) 8"
      using insert_key_edits [OF ed, of c] printable_key [OF c] f e Char by auto
    have "fold term_byte (map char_byte (c # r) @ replicate (length r) 8) (screen (sh_out sh)) =
        (prompt_bytes @ map char_byte (l @ [c]), ?r @ replicate (n - 1) 32)"
    proof -
      have "\<forall>x \<in> set (c # r). printable x" using c pr by simp
      from term_printable [OF this, of ?P "?r @ replicate n 32"]
      have "fold term_byte (map char_byte (c # r)) (screen (sh_out sh)) = (?P @ map char_byte (c # r), replicate (n - 1) 32)"
        by (simp add: sc)
      moreover have "fold term_byte (replicate (length r) 8) (?P @ map char_byte (c # r), replicate (n - 1) 32) =
          (?P @ [char_byte c], ?r @ replicate (n - 1) 32)"
        using term_back [of "length r" "?P @ map char_byte (c # r)"] by (simp del: fold_replicate)
      ultimately show ?thesis by (simp del: fold_replicate)
    qed
    then have "on_screen sh' (l @ [c]) r" by (rule on_screenI) (rule i(3))
    moreover have "finsh_keys table run (key_codes k) sh = Some sh'"
      using Char finsh_key_plain [OF st] printable_key [OF c] normal_printable [OF c] i(1) by simp
    ultimately show ?thesis using i(2) pr c e Char by (auto simp: row_shown_def)
  next
    case Left_arrow
    show ?thesis
    proof (cases l rule: rev_cases)
      case Nil
      then show ?thesis using Left_arrow arrow_codes(1) [OF st] left_key_stop ed s e by (simp del: finsh_keys.simps)
    next
      case (snoc l' c)
      obtain sh' where i: "left_key sh = Some sh'" "edits sh' l' (c # r)" "sh_out sh' = sh_out sh @ [8]"
        using left_key_edits ed snoc by blast
      have "fold term_byte [8] (screen (sh_out sh)) = (prompt_bytes @ map char_byte l', map char_byte (c # r) @ replicate n 32)"
        by (simp add: sc snoc butlast_append)
      then have "on_screen sh' l' (c # r)" by (rule on_screenI) (rule i(3))
      then show ?thesis using i(1,2) pr snoc e Left_arrow arrow_codes(1) [OF st] by (auto simp: row_shown_def simp del: finsh_keys.simps)
    qed
  next
    case Right_arrow
    show ?thesis
    proof (cases r)
      case Nil
      then show ?thesis using Right_arrow arrow_codes(2) [OF st] right_key_stop ed s e by (simp del: finsh_keys.simps)
    next
      case (Cons c r')
      obtain sh' where i: "right_key sh = Some sh'" "edits sh' (l @ [c]) r'" "sh_out sh' = sh_out sh @ [char_byte c]"
        using right_key_edits ed Cons by blast
      have "fold term_byte [char_byte c] (screen (sh_out sh)) = (prompt_bytes @ map char_byte (l @ [c]), map char_byte r' @ replicate n 32)"
        using printable_byte [of c] pr by (simp add: sc Cons)
      then have "on_screen sh' (l @ [c]) r'" by (rule on_screenI) (rule i(3))
      then show ?thesis using i(1,2) pr Cons e Right_arrow arrow_codes(2) [OF st] by (auto simp: row_shown_def simp del: finsh_keys.simps)
    qed
  next
    case Backspace
    have key: "finsh_keys table run (key_codes k) sh = backspace_key sh"
      using Backspace finsh_key_plain [OF st, of "CHR 0x7f"] by (simp add: normal_key_def NUL_def)
    show ?thesis
    proof (cases l rule: rev_cases)
      case Nil
      then show ?thesis using Backspace key backspace_key_stop ed s e by simp
    next
      case (snoc l' c)
      let ?out = "if r = [] then [8, 32, 8] else 8 # map char_byte r @ [32, 32, 8] @ replicate (length r + 1) 8"
      let ?Q = "prompt_bytes @ map char_byte l'"
      obtain sh' where i: "backspace_key sh = Some sh'" "edits sh' l' r" "sh_out sh' = sh_out sh @ ?out"
        using backspace_key_edits ed snoc by blast
      have b: "fold term_byte [8] (screen (sh_out sh)) = (?Q, char_byte c # ?r @ replicate n 32)" by (simp add: sc snoc butlast_append)
      have "\<exists>n'. fold term_byte ?out (screen (sh_out sh)) = (?Q, ?r @ replicate n' 32)"
      proof (cases "r = []")
        case True
        then show ?thesis by (intro exI [of _ "Suc n"]) (simp add: sc snoc butlast_append)
      next
        case False
        obtain x xs where x: "char_byte c # ?r = xs @ [x]" "length xs = length r"
          by (metis append_butlast_last_id diff_Suc_1 length_Cons length_butlast length_map list.distinct(1))
        have "drop (length r) (char_byte c # ?r @ replicate n 32) = x # replicate n 32"
          using x by (metis append_Cons append_eq_conv_conj append.assoc append_Nil)
        then have "fold term_byte (8 # map char_byte r @ [32, 32, 8]) (screen (sh_out sh)) =
            (?Q @ ?r @ [32], 32 # drop 1 (replicate n 32))"
          using b term_printable [of r ?Q] pr by (simp add: butlast_append)
        then have "fold term_byte ?out (screen (sh_out sh)) =
            fold term_byte (replicate (length r + 1) 8) (?Q @ ?r @ [32], 32 # drop 1 (replicate n 32))"
          using False by (simp del: fold_replicate)
        also have "\<dots> = (?Q, ?r @ [32] @ 32 # drop 1 (replicate n 32))"
          using term_back [of "length r + 1" "?Q @ ?r @ [32]"] by (simp del: fold_replicate)
        also have "[32] @ 32 # drop 1 (replicate n 32) = replicate (n - 1 + 2) (32 :: u8)" by (simp add: numeral_2_eq_2)
        finally show ?thesis by blast
      qed
      then obtain n' where "fold term_byte ?out (screen (sh_out sh)) = (?Q, ?r @ replicate n' 32)" ..
      then have "on_screen sh' l' r" by (rule on_screenI) (rule i(3))
      then show ?thesis using i(1,2) pr snoc e Backspace key by (auto simp: row_shown_def)
    qed
  qed
qed

lemma finsh_keys_append: "finsh_keys table run (xs @ ys) sh = Option.bind (finsh_keys table run xs sh) (finsh_keys table run ys)"
  by (induction xs arbitrary: sh) (auto split: bind_splits)

lemma shown_keys:
  "row_shown sh e \<Longrightarrow> \<forall>k \<in> set ks. key_printable k \<Longrightarrow> fits ks e \<Longrightarrow>
   \<exists>sh'. finsh_keys table run (concat (map key_codes ks)) sh = Some sh' \<and> row_shown sh' (fold edit ks e)"
proof (induction ks arbitrary: sh e)
  case (Cons k ks)
  have k: "key_printable k" "length (fst (edit k e)) + length (snd (edit k e)) < 80" "fits ks (edit k e)" "\<forall>k \<in> set ks. key_printable k"
    using Cons.prems by simp_all
  obtain sh1 where s: "finsh_keys table run (key_codes k) sh = Some sh1" "row_shown sh1 (edit k e)"
    using shown_step [OF Cons.prems(1) k(1,2)] by blast
  then obtain sh' where "finsh_keys table run (concat (map key_codes ks)) sh1 = Some sh'" "row_shown sh' (fold edit ks (edit k e))"
    using Cons.IH [OF s(2) k(4,3)] by blast
  then show ?case using s(1) by (simp add: finsh_keys_append)
qed simp

text \<open>The start: an empty line behind the prompt.\<close>

lemma shown_start:
  assumes "unat log_buf + 256 \<le> 2 ^ 32"
  shows "\<exists>sh. finsh_thread_entry table run keys (finsh_system_init log_buf m) = finsh_keys table run keys sh \<and> row_shown sh ([], [])"
proof -
  let ?sh = "(finsh_system_init log_buf m)\<lparr>sh_echo_mode := True\<rparr>"
  have l: "log_fits ?sh" using assms by (simp add: log_fits_def finsh_system_init_def finsh_set_prompt_mode_def)
  have p: "finsh_get_prompt ?sh = ''msh >''" by (simp add: finsh_get_prompt_def finsh_system_init_def finsh_set_prompt_mode_def)
  obtain sh where k: "kprint (finsh_get_prompt ?sh) [] ?sh = Some sh" "says ?sh (map char_byte (finsh_get_prompt ?sh)) sh"
    using kprint_text [OF printed_formats(11) formats_no_nul(3) _ l, of ?sh] by (auto simp: p)
  have "edits ?sh [] []" using l by (simp add: edits_def finsh_system_init_def finsh_set_prompt_mode_def FINSH_CMD_SIZE_def)
  then have e: "edits sh [] []" using edits_says k(2) by blast
  have "sh_out sh = prompt_bytes"
    using says_fields(8) [OF k(2)] unfolding p by (simp add: finsh_system_init_def finsh_set_prompt_mode_def prompt_bytes_def)
  then have out: "sh_out sh = prompt_bytes" .
  have "\<forall>c \<in> set ''msh >''. printable c" by (simp add: printable_def)
  then have "fold term_byte (map char_byte ''msh >'') ([], []) = ([] @ map char_byte ''msh >'', drop (length ''msh >'') [])"
    by (rule term_printable)
  then have "screen prompt_bytes = (prompt_bytes, [])"
    unfolding screen_def prompt_bytes_def by simp
  then have "on_screen sh [] []" by (simp add: on_screen_def out)
  then show ?thesis using k(1) e by (intro exI [of _ sh]) (simp add: finsh_thread_entry_def row_shown_def)
qed

end
