(* ===== verification/Rt_Shell_Split.thy ===== *)
theory Rt_Shell_Split
  imports Rt_Shell_Props
begin

text \<open>
  The arguments of a command line: the loops of \<^verbatim>\<open>msh_split\<close> in the buffer find the words of the text,
  up to the size of \<^verbatim>\<open>argv\<close>, and terminate each.
\<close>

section \<open>The words of a text\<close>

text \<open>The text in quotation marks, with \<open>\\"\<close> not ending it, and the rest behind it.\<close>

function quoted :: "char list \<Rightarrow> char list \<times> char list" where
  "quoted [] = ([], [])"
| "quoted (c # s) =
    (if c = CHR 0x22 then ([], s)
     else if c = CHR 0x5c \<and> s \<noteq> [] \<and> hd s = CHR 0x22
     then (case quoted (tl s) of (t, r) \<Rightarrow> (c # hd s # t, r))
     else (case quoted s of (t, r) \<Rightarrow> (c # t, r)))"
  by pat_completeness auto
termination by (relation "measure length") auto

lemma quoted_split: "quoted s = (t, r) \<Longrightarrow> s = t @ CHR 0x22 # r \<or> s = t \<and> r = []"
proof (induction s arbitrary: t r rule: quoted.induct)
  case (2 c s)
  consider "c = CHR 0x22" | "c = CHR 0x5c" "s \<noteq> []" "hd s = CHR 0x22" | "c \<noteq> CHR 0x22" "\<not> (c = CHR 0x5c \<and> s \<noteq> [] \<and> hd s = CHR 0x22)"
    by auto
  then show ?case
  proof cases
    case 2
    then obtain t' where t: "quoted (tl s) = (t', r)" "t = c # hd s # t'" using "2.prems" by (auto split: prod.splits)
    have "tl s = t' @ CHR 0x22 # r \<or> tl s = t' \<and> r = []" using "2.IH"(1) [OF _ _ t(1)] 2 by auto
    moreover have "s = hd s # tl s" using 2(2) by simp
    ultimately show ?thesis using t(2) by (metis append_Cons)
  next
    case 3
    then obtain t' where t: "quoted s = (t', r)" "t = c # t'" using "2.prems" by (auto split: prod.splits)
    then show ?thesis using "2.IH"(2) [OF 3 t(1)] by auto
  qed (use "2.prems" in auto)
qed simp

function tokens :: "char list \<Rightarrow> char list list" where
  "tokens s =
    (case dropWhile is_blank s of
       [] \<Rightarrow> []
     | c # r \<Rightarrow> if c = CHR 0x22 then (case quoted r of (t, r') \<Rightarrow> t # tokens r')
                else takeWhile (\<lambda>c. \<not> is_blank c) (c # r) # tokens (dropWhile (\<lambda>c. \<not> is_blank c) (c # r)))"
  by pat_completeness auto
termination
proof (relation "measure length", goal_cases)
  case (2 s c r t r')
  have "length (dropWhile is_blank s) \<le> length s" by (rule length_dropWhile_le)
  moreover have "length r' \<le> length r" using quoted_split [OF 2(3) [symmetric]] by auto
  ultimately show ?case using 2(1) by simp
next
  case (3 s c r)
  have "length (dropWhile is_blank s) \<le> length s" by (rule length_dropWhile_le)
  moreover have "\<not> is_blank c" using 3(1) by (metis hd_dropWhile list.discI list.sel(1))
  then have "length (dropWhile (\<lambda>c. \<not> is_blank c) (c # r)) \<le> length r" using length_dropWhile_le by auto
  ultimately show ?case using 3(1) by simp
qed simp

declare tokens.simps [simp del]

section \<open>The loops\<close>

lemma nul_not_blank: "\<not> is_blank NUL"
  by (simp add: is_blank_def NUL_def)

lemma peek_here: "sh_line sh = A @ x # B \<Longrightarrow> n = length A \<Longrightarrow> peek n sh = Some x"
  by (simp add: peek_def)

lemma poke_here: "sh_line sh = A @ x # B \<Longrightarrow> n = length A \<Longrightarrow> poke n c sh = Some (sh\<lparr>sh_line := A @ c # B\<rparr>)"
  by (simp add: poke_def)

lemma first_in: "s @ NUL # zs = x # B \<Longrightarrow> NUL \<notin> set s \<Longrightarrow> x = (if s = [] then NUL else hd s)"
  by (cases s) auto

lemma strip_ok:
  "sh_line sh = A @ s @ NUL # zs \<Longrightarrow> cmd + pos = length A \<Longrightarrow> len = pos + length s \<Longrightarrow>
   strip_blanks cmd len pos sh = Some (pos + length (takeWhile is_blank s),
     sh\<lparr>sh_line := A @ replicate (length (takeWhile is_blank s)) NUL @ dropWhile is_blank s @ NUL # zs\<rparr>)"
proof (induction s arbitrary: sh A pos)
  case Nil
  then have "peek (cmd + pos) sh = Some NUL" using peek_here [of sh A NUL zs] by simp
  then show ?case using Nil by (subst strip_blanks.simps) (cases sh, simp add: nul_not_blank)
next
  case (Cons c s)
  have p: "peek (cmd + pos) sh = Some c" using Cons.prems peek_here [of sh A c "s @ NUL # zs"] by simp
  have lt: "pos < len" using Cons.prems by simp
  show ?case
  proof (cases "is_blank c")
    case True
    let ?sh1 = "sh\<lparr>sh_line := (A @ [NUL]) @ s @ NUL # zs\<rparr>"
    have "poke (cmd + pos) NUL sh = Some ?sh1" using Cons.prems poke_here [of sh A c "s @ NUL # zs"] by simp
    then have "strip_blanks cmd len pos sh = strip_blanks cmd len (pos + 1) ?sh1"
      using p True lt by (simp add: strip_blanks.simps [of cmd len pos])
    also have "\<dots> = Some (pos + 1 + length (takeWhile is_blank s),
        ?sh1\<lparr>sh_line := (A @ [NUL]) @ replicate (length (takeWhile is_blank s)) NUL @ dropWhile is_blank s @ NUL # zs\<rparr>)"
      by (rule Cons.IH) (use Cons.prems in simp_all)
    finally show ?thesis using True by simp
  next
    case False
    then show ?thesis using p Cons.prems(1) by (cases sh) (simp add: strip_blanks.simps [of cmd len pos])
  qed
qed

lemma skip_word_ok:
  "sh_line sh = A @ s @ NUL # zs \<Longrightarrow> cmd + pos = length A \<Longrightarrow> len = pos + length s \<Longrightarrow>
   skip_word cmd len pos sh = Some (pos + length (takeWhile (\<lambda>c. \<not> is_blank c) s))"
proof (induction s arbitrary: A pos)
  case Nil
  then have "peek (cmd + pos) sh = Some NUL" using peek_here [of sh A NUL zs] by simp
  then show ?case using Nil by (subst skip_word.simps) simp
next
  case (Cons c s)
  have p: "peek (cmd + pos) sh = Some c" using Cons.prems peek_here [of sh A c "s @ NUL # zs"] by simp
  have lt: "pos < len" using Cons.prems by simp
  show ?case
  proof (cases "is_blank c")
    case True
    then show ?thesis using p by (simp add: skip_word.simps [of cmd len pos])
  next
    case False
    have "skip_word cmd len (pos + 1) sh = Some (pos + 1 + length (takeWhile (\<lambda>c. \<not> is_blank c) s))"
      by (rule Cons.IH [of "A @ [c]"]) (use Cons.prems in simp_all)
    then show ?thesis using p False lt by (simp add: skip_word.simps [of cmd len pos])
  qed
qed

lemma skip_string_ok:
  "sh_line sh = A @ s @ NUL # zs \<Longrightarrow> NUL \<notin> set s \<Longrightarrow> cmd + pos = length A \<Longrightarrow> len = pos + length s \<Longrightarrow>
   skip_string cmd len pos sh = Some (pos + length (fst (quoted s)))"
proof (induction s arbitrary: A pos rule: quoted.induct)
  case 1
  then have "peek (cmd + pos) sh = Some NUL" using peek_here [of sh A NUL zs] by simp
  then show ?case using 1 by (subst skip_string.simps) simp
next
  case (2 c s)
  have p: "peek (cmd + pos) sh = Some c" using 2 peek_here [of sh A c "s @ NUL # zs"] by simp
  have lt: "pos < len" using 2 by simp
  consider "c = CHR 0x22" | "c = CHR 0x5c" "s \<noteq> []" "hd s = CHR 0x22" | "c \<noteq> CHR 0x22" "\<not> (c = CHR 0x5c \<and> s \<noteq> [] \<and> hd s = CHR 0x22)"
    by auto
  then show ?case
  proof cases
    case 1
    then show ?thesis using p by (simp add: skip_string.simps [of cmd len pos])
  next
    case c: 2
    then obtain s' where s: "s = CHR 0x22 # s'" by (cases s) auto
    have n: "peek (cmd + pos + 1) sh = Some CHR 0x22"
      by (rule peek_here [of _ "A @ [c]" _ "s' @ NUL # zs"]) (use "2.prems" s in simp_all)
    have "skip_string cmd len (pos + 2) sh = Some (pos + 2 + length (fst (quoted (tl s))))"
    proof (rule "2.IH"(1) [of "A @ [c, CHR 0x22]"])
      show "sh_line sh = (A @ [c, CHR 0x22]) @ tl s @ NUL # zs" using "2.prems"(1) s by simp
      show "NUL \<notin> set (tl s)" using "2.prems"(2) s by simp
      show "len = pos + 2 + length (tl s)" using "2.prems"(4) s by simp
      show "cmd + (pos + 2) = length (A @ [c, CHR 0x22])" using "2.prems"(3) by simp
    qed (use c in simp_all)
    then show ?thesis using p n c lt by (simp add: skip_string.simps [of cmd len pos] split: prod.splits)
  next
    case c: 3
    have r: "skip_string cmd len (pos + 1) sh = Some (pos + 1 + length (fst (quoted s)))"
      by (rule "2.IH"(2) [of "A @ [c]"]) (use c "2.prems" in auto)
    have "\<exists>d. peek (cmd + pos + 1) sh = Some d \<and> (c = CHR 0x5c \<longrightarrow> d \<noteq> CHR 0x22)"
    proof (cases s)
      case Nil
      then have "peek (cmd + pos + 1) sh = Some NUL" using 2 peek_here [of sh "A @ [c]" NUL zs] by simp
      then show ?thesis by (simp add: NUL_def)
    next
      case (Cons d s')
      then have "peek (cmd + pos + 1) sh = Some d" using 2 peek_here [of sh "A @ [c]" d "s' @ NUL # zs"] by simp
      then show ?thesis using c Cons by auto
    qed
    then show ?thesis using p r c lt by (auto simp: skip_string.simps [of cmd len pos] split: prod.splits)
  qed
qed

section \<open>Too many words\<close>

definition shell_regs :: "finsh_shell \<Rightarrow> input_stat \<times> bool \<times> bool \<times> u16 \<times> u16 \<times> u32" where
  "shell_regs sh = (sh_stat sh, sh_echo_mode sh, sh_prompt_mode sh, sh_position sh, sh_curpos sh, sh_log_buf sh)"

lemma shell_regs_simps [simp]:
  "shell_regs (sh\<lparr>sh_line := xs\<rparr>) = shell_regs sh" "log_fits (sh\<lparr>sh_line := xs\<rparr>) = log_fits sh"
  by (simp_all add: shell_regs_def log_fits_def)

lemma shell_regs_says: "says sh str sh' \<Longrightarrow> shell_regs sh' = shell_regs sh"
  by (auto simp: says_def shell_regs_def)

lemma regs_fits: "shell_regs sh' = shell_regs sh \<Longrightarrow> log_fits sh' = log_fits sh"
  by (simp add: shell_regs_def log_fits_def)

lemma line_chars_defined: "NUL \<in> set xs \<Longrightarrow> \<exists>s. line_chars xs = Some s \<and> NUL \<notin> set s \<and> length s < length xs"
  by (induction xs) auto

lemma show_args_ok:
  "log_fits sh \<Longrightarrow> length (sh_line sh) \<le> 120 \<Longrightarrow> (\<And>a. a \<in> set argv \<Longrightarrow> NUL \<in> set (drop a (sh_line sh))) \<Longrightarrow>
   \<exists>sh' str. show_args argv sh = Some sh' \<and> says sh str sh'"
proof (induction argv arbitrary: sh)
  case Nil
  then show ?case using says_refl by (intro exI [of _ sh] exI [of _ "[]"]) simp
next
  case (Cons a argv)
  obtain s where s: "line_str a sh = Some s" "NUL \<notin> set s" "length s \<le> 120"
    using line_chars_defined [OF Cons.prems(3) [of a]] Cons.prems(2) by (auto simp: line_str_def)
  obtain sh1 where k: "kprint ''%s '' [VStr (Some s)] sh = Some sh1" "says sh (map char_byte (s @ '' '')) sh1"
    using kprint_text [OF printed_formats(5) _ _ Cons.prems(1), of s] s(2,3) by (auto simp: NUL_def)
  note f = says_fields [OF k(2)]
  obtain sh' str where "show_args argv sh1 = Some sh'" "says sh1 str sh'"
    using Cons.IH [of sh1] Cons.prems f by auto
  then show ?case using s(1) k says_trans [OF k(2)] by auto
qed

lemma too_many_ok:
  assumes "log_fits sh" and "length (sh_line sh) \<le> 120" and "\<And>a. a \<in> set argv \<Longrightarrow> NUL \<in> set (drop a (sh_line sh))"
  shows "\<exists>sh' str. too_many_args argv sh = Some sh' \<and> says sh str sh'"
proof -
  obtain sh1 where k: "kprint (''Too many args ! We only Use:'' @ newline) [] sh = Some sh1"
      "says sh (map char_byte (''Too many args ! We only Use:'' @ newline)) sh1"
    using kprint_text [OF printed_formats(10) _ _ assms(1)] by (auto simp: newline_def NUL_def)
  note f = says_fields [OF k(2)]
  obtain sh2 str where a: "show_args argv sh1 = Some sh2" "says sh1 str sh2" using show_args_ok [of sh1 argv] assms f by auto
  have "log_fits sh2" using says_fields(7) [OF a(2)] f assms(1) by simp
  then obtain sh3 where b: "kprint newline [] sh2 = Some sh3" "says sh2 (map char_byte newline) sh3"
    using kprint_text [OF printed_formats(2) formats_no_nul(2)] by (auto simp: newline_def)
  show ?thesis using k(1) a(1) b(1) says_trans [OF says_trans [OF k(2) a(2)] b(2)] by (auto simp: too_many_args_def)
qed

section \<open>Splitting\<close>

lemma tokens_blank: "dropWhile is_blank s = [] \<Longrightarrow> tokens s = []"
  by (subst tokens.simps) (simp only: list.case)

lemma tokens_quote:
  "dropWhile is_blank s = CHR 0x22 # r \<Longrightarrow> quoted r = (t, r') \<Longrightarrow> tokens s = t # tokens r'"
  by (simp add: tokens.simps [of s])

lemma tokens_word:
  "dropWhile is_blank s = c # r \<Longrightarrow> c \<noteq> CHR 0x22 \<Longrightarrow>
   tokens s = takeWhile (\<lambda>c. \<not> is_blank c) (c # r) # tokens (dropWhile (\<lambda>c. \<not> is_blank c) (c # r))"
  by (simp add: tokens.simps [of s] split del: if_split)

text \<open>
  What splitting leaves behind the position: \<open>ps\<close> are the new arguments, and the region of the text \<open>s\<close>
  has become \<open>B\<close>.
\<close>

definition split_result :: "char list \<Rightarrow> char list \<Rightarrow> char list \<Rightarrow> nat list \<Rightarrow> finsh_shell \<Rightarrow> (nat list \<times> finsh_shell) option \<Rightarrow> bool" where
  "split_result A s zs argv sh res = (\<exists>ps B sh'. res = Some (argv @ ps, sh') \<and> shell_regs sh' = shell_regs sh \<and>
     sh_line sh' = A @ B @ NUL # zs \<and> length B = length s \<and> (s \<noteq> [] \<and> is_blank (hd s) \<longrightarrow> hd B = NUL) \<and>
     length ps = min (8 - length argv) (length (tokens s)) \<and>
     (\<forall>i < length ps. length A \<le> ps ! i \<and> ps ! i \<le> length A + length s \<and> line_str (ps ! i) sh' = Some (tokens s ! i)))"

lemma split_resultI:
  "res = Some (argv @ ps, sh') \<Longrightarrow> shell_regs sh' = shell_regs sh \<Longrightarrow> sh_line sh' = A @ B @ NUL # zs \<Longrightarrow> length B = length s \<Longrightarrow>
   (s \<noteq> [] \<Longrightarrow> is_blank (hd s) \<Longrightarrow> hd B = NUL) \<Longrightarrow> length ps = min (8 - length argv) (length (tokens s)) \<Longrightarrow>
   (\<And>i. i < length ps \<Longrightarrow> length A \<le> ps ! i \<and> ps ! i \<le> length A + length s \<and> line_str (ps ! i) sh' = Some (tokens s ! i)) \<Longrightarrow>
   split_result A s zs argv sh res"
  unfolding split_result_def by blast

text \<open>One word \<open>t\<close> at \<open>A @ C\<close>, terminated in \<open>D\<close>, and the words of the rest \<open>r\<close>.\<close>

lemma split_result_step:
  assumes r: "split_result (A @ C @ t @ D) r zs (argv @ [length A + length C]) sh1 res"
    and m: "shell_regs sh1 = shell_regs sh" and s: "length s = length (C @ t @ D @ r)" "tokens s = t # tokens r" "length argv < 8" "NUL \<notin> set t"
    and h: "s \<noteq> [] \<Longrightarrow> is_blank (hd s) \<Longrightarrow> C \<noteq> [] \<and> hd C = NUL"
    and e: "D = [NUL] \<or> D = [] \<and> (r = [] \<or> is_blank (hd r))"
  shows "split_result A s zs argv sh res"
proof -
  obtain ps B sh' where v: "res = Some ((argv @ [length A + length C]) @ ps, sh')" "shell_regs sh' = shell_regs sh1"
    "sh_line sh' = (A @ C @ t @ D) @ B @ NUL # zs" "length B = length r" "r \<noteq> [] \<and> is_blank (hd r) \<longrightarrow> hd B = NUL"
    "length ps = min (8 - length (argv @ [length A + length C])) (length (tokens r))"
    "\<forall>i < length ps. length (A @ C @ t @ D) \<le> ps ! i \<and> ps ! i \<le> length (A @ C @ t @ D) + length r \<and> line_str (ps ! i) sh' = Some (tokens r ! i)"
    using r unfolding split_result_def by blast
  have "\<exists>zs'. D @ B @ NUL # zs = NUL # zs'"
  proof (cases "D = [NUL]")
    case False
    then show ?thesis using e v(4,5) by (cases B) auto
  qed simp
  then obtain zs' where zs': "D @ B @ NUL # zs = NUL # zs'" by blast
  have "drop (length A + length C) (sh_line sh') = t @ D @ B @ NUL # zs" using v(3) by simp
  then have first: "line_str (length A + length C) sh' = Some t"
    unfolding line_str_def zs' using line_chars_text [OF s(4)] by simp
  show ?thesis
  proof (rule split_resultI)
    show "res = Some (argv @ (length A + length C) # ps, sh')" using v(1) by simp
    show "shell_regs sh' = shell_regs sh" using v(2) m by simp
    show "sh_line sh' = A @ (C @ t @ D @ B) @ NUL # zs" using v(3) by simp
    show "length (C @ t @ D @ B) = length s" using v(4) s(1) by simp
    show "hd (C @ t @ D @ B) = NUL" if "s \<noteq> []" "is_blank (hd s)" using h [OF that] by (cases C) auto
    show "length ((length A + length C) # ps) = min (8 - length argv) (length (tokens s))" using v(6) s(2,3) by simp
    show "length A \<le> ((length A + length C) # ps) ! i \<and> ((length A + length C) # ps) ! i \<le> length A + length s \<and>
        line_str (((length A + length C) # ps) ! i) sh' = Some (tokens s ! i)" if "i < length ((length A + length C) # ps)" for i
    proof (cases i)
      case 0
      then show ?thesis using first s(1,2) by simp
    next
      case (Suc j)
      then show ?thesis using v(7) that s(1,2) by (auto simp: add_ac)
    qed
  qed
qed

lemma split_ok:
  "sh_line sh = A @ s @ NUL # zs \<Longrightarrow> cmd + pos = length A \<Longrightarrow> len = pos + length s \<Longrightarrow> NUL \<notin> set s \<Longrightarrow> length argv \<le> 8 \<Longrightarrow>
   (\<And>a. a \<in> set argv \<Longrightarrow> a \<le> length A + length s) \<Longrightarrow> length (sh_line sh) \<le> 120 \<Longrightarrow> log_fits sh \<Longrightarrow>
   split_result A s zs argv sh (split_loop cmd len pos argv sh)"
proof (induction "length s" arbitrary: A s pos argv sh rule: less_induct)
  case less
  define k where "k = length (takeWhile is_blank s)"
  define s1 where "s1 = dropWhile is_blank s"
  define sh1 where "sh1 = sh\<lparr>sh_line := A @ replicate k NUL @ s1 @ NUL # zs\<rparr>"
  have ks: "length s = k + length s1" unfolding k_def s1_def by (metis length_append takeWhile_dropWhile_id)
  have s1n: "NUL \<notin> set s1" using less.prems(4) set_dropWhileD unfolding s1_def by metis
  have st: "strip_blanks cmd len pos sh = Some (pos + k, sh1)"
    using strip_ok [OF less.prems(1-3)] by (simp add: k_def s1_def sh1_def)
  have head: "s \<noteq> [] \<Longrightarrow> is_blank (hd s) \<Longrightarrow> replicate k NUL \<noteq> [] \<and> hd (replicate k NUL) = NUL"
    unfolding k_def by (cases s) auto
  have head': "hd (replicate k NUL @ s1) = NUL" if "s \<noteq> []" "is_blank (hd s)" using head [OF that] by (cases k) auto
  show ?case
  proof (cases "s = []")
    case True
    then have "split_loop cmd len pos argv sh = Some (argv, sh)" using less.prems(3) by (simp add: split_loop.simps)
    then show ?thesis using True less.prems(1) by (intro split_resultI [where ps = "[]" and B = "[]"]) (simp_all add: tokens_blank)
  next
    case False
    then have lt: "pos < len" using less.prems(3) by simp
    show ?thesis
    proof (cases "length argv \<ge> 8")
      case True
      have "NUL \<in> set (drop a (sh_line sh1))" if "a \<in> set argv" for a
        using less.prems(6) [OF that] ks by (simp add: sh1_def)
      then obtain sh2 str where m: "too_many_args argv sh1 = Some sh2" "says sh1 str sh2"
        using too_many_ok [of sh1 argv] less.prems(1,7,8) ks by (auto simp: sh1_def)
      then have "split_loop cmd len pos argv sh = Some (argv, sh2)"
        using lt st True by (simp add: split_loop.simps [of cmd len pos] FINSH_ARG_MAX_def)
      then show ?thesis using True less.prems(5) m shell_regs_says [OF m(2)] says_fields(1) [OF m(2)] ks head'
        by (intro split_resultI [where ps = "[]" and B = "replicate k NUL @ s1" and sh' = sh2]) (simp_all add: sh1_def)
    next
      case few: False
      show ?thesis
      proof (cases s1)
        case Nil
        then have "pos + k \<ge> len" using ks less.prems(3) by simp
        then have "split_loop cmd len pos argv sh = Some (argv, sh1)"
          using lt st few by (simp add: split_loop.simps [of cmd len pos] FINSH_ARG_MAX_def)
        then show ?thesis using Nil ks head'
          by (intro split_resultI [where ps = "[]" and B = "replicate k NUL @ s1" and sh' = sh1])
            (simp_all add: sh1_def tokens_blank s1_def [symmetric])
      next
        case (Cons c r1)
        have pk: "peek (cmd + (pos + k)) sh1 = Some c"
          by (rule peek_here [of _ "A @ replicate k NUL" _ "r1 @ NUL # zs"]) (use less.prems(2) Cons in \<open>simp_all add: sh1_def\<close>)
        have room: "\<not> pos + k \<ge> len" using ks Cons less.prems(3) by simp
        note loop = split_loop.simps [of cmd len pos argv sh]
        show ?thesis
        proof (cases "c = CHR 0x22")
          case True
          obtain t r where q: "quoted r1 = (t, r)" by fastforce
          have tk: "tokens s = t # tokens r" using tokens_quote [of s r1] Cons True q by (simp add: s1_def)
          have "skip_string cmd len (pos + k + 1) sh1 = Some (pos + k + 1 + length (fst (quoted r1)))"
            by (rule skip_string_ok [of _ "A @ replicate k NUL @ [c]"]) (use Cons less.prems(2,3) ks s1n in \<open>simp_all add: sh1_def\<close>)
          then have sk: "skip_string cmd len (pos + k + 1) sh1 = Some (pos + k + 1 + length t)" using q by simp
          from quoted_split [OF q] show ?thesis
          proof
            assume r1: "r1 = t @ CHR 0x22 # r"
            define sh2 where "sh2 = sh1\<lparr>sh_line := (A @ (replicate k NUL @ [c]) @ t @ [NUL]) @ r @ NUL # zs\<rparr>"
            have po: "poke (cmd + (pos + k + 1 + length t)) NUL sh1 = Some sh2"
            proof -
              have n: "cmd + (pos + k + 1 + length t) = length (A @ replicate k NUL @ c # t)" using less.prems(2) by simp
              show ?thesis
                unfolding n using poke_here [of sh1 "A @ replicate k NUL @ c # t" "CHR 0x22" "r @ NUL # zs", OF _ refl] Cons r1
                by (simp add: sh1_def sh2_def)
            qed
            have e1: "split_loop cmd len pos argv sh = split_loop cmd len (pos + k + 1 + length t + 1) (argv @ [cmd + (pos + k) + 1]) sh2"
              using lt st few room pk True sk po r1 Cons ks less.prems(3) unfolding loop by (simp add: FINSH_ARG_MAX_def)
            have n2: "cmd + (pos + k) + 1 = length A + length (replicate k NUL @ [c])" using less.prems(2) by simp
            have e2: "split_result (A @ (replicate k NUL @ [c]) @ t @ [NUL]) r zs (argv @ [length A + length (replicate k NUL @ [c])]) sh2
                (split_loop cmd len (pos + k + 1 + length t + 1) (argv @ [length A + length (replicate k NUL @ [c])]) sh2)"
            proof (rule less.hyps)
              show "length r < length s" using ks Cons r1 by simp
              show "a \<le> length (A @ (replicate k NUL @ [c]) @ t @ [NUL]) + length r"
                if "a \<in> set (argv @ [length A + length (replicate k NUL @ [c])])" for a
                using that less.prems(6) [of a] ks Cons r1 by auto
            qed (use less.prems ks Cons r1 s1n few in \<open>simp_all add: sh2_def sh1_def\<close>)
            show ?thesis
              using e2 unfolding e1 [unfolded n2, symmetric]
              by (rule split_result_step) (use ks Cons r1 tk few s1n head in \<open>auto simp: sh2_def sh1_def\<close>)
          next
            assume r1: "r1 = t \<and> r = []"
            then have "split_loop cmd len pos argv sh = Some (argv @ [cmd + (pos + k) + 1], sh1)"
              using lt st few room pk True sk Cons ks less.prems(3) unfolding loop by (simp add: FINSH_ARG_MAX_def)
            moreover have "cmd + (pos + k) + 1 = length A + length (replicate k NUL @ [c])" using less.prems(2) by simp
            ultimately have "split_result (A @ (replicate k NUL @ [c]) @ t @ []) [] zs (argv @ [length A + length (replicate k NUL @ [c])]) sh1
                (split_loop cmd len pos argv sh)"
              using Cons r1 by (intro split_resultI [where ps = "[]" and B = "[]" and sh' = sh1]) (simp_all add: sh1_def tokens_blank)
            then show ?thesis
              by (rule split_result_step) (use ks Cons r1 tk few s1n head in \<open>auto simp: sh1_def\<close>)
          qed
        next
          case False
          define t where "t = takeWhile (\<lambda>c. \<not> is_blank c) (c # r1)"
          define r where "r = dropWhile (\<lambda>c. \<not> is_blank c) (c # r1)"
          have tr: "c # r1 = t @ r" unfolding t_def r_def by simp
          have nb: "\<not> is_blank c" using Cons unfolding s1_def by (metis hd_dropWhile list.discI list.sel(1))
          have tn: "t \<noteq> []" using nb by (simp add: t_def)
          have tk: "tokens s = t # tokens r" using tokens_word [of s c r1] Cons False by (simp add: s1_def t_def r_def)
          have rb: "r = [] \<or> is_blank (hd r)" unfolding r_def by (metis hd_dropWhile)
          have "skip_word cmd len (pos + k) sh1 = Some (pos + k + length (takeWhile (\<lambda>c. \<not> is_blank c) (c # r1)))"
            by (rule skip_word_ok [of _ "A @ replicate k NUL"]) (use Cons less.prems(2,3) ks in \<open>simp_all add: sh1_def\<close>)
          then have sk: "skip_word cmd len (pos + k) sh1 = Some (pos + k + length t)" by (simp add: t_def)
          have "split_result (A @ replicate k NUL @ t @ []) r zs (argv @ [length A + length (replicate k NUL)]) sh1 (split_loop cmd len pos argv sh)"
          proof (cases "r = []")
            case True
            then have "split_loop cmd len pos argv sh = Some (argv @ [cmd + (pos + k)], sh1)"
              using lt st few room pk False sk Cons ks less.prems(3) tr unfolding loop by (simp add: FINSH_ARG_MAX_def)
            moreover have "sh_line sh1 = (A @ replicate k NUL @ t @ []) @ [] @ NUL # zs" using Cons tr True by (simp add: sh1_def)
            ultimately show ?thesis
              using True less.prems(2) by (intro split_resultI [where ps = "[]" and B = "[]" and sh' = sh1]) (simp_all add: tokens_blank add.assoc)
          next
            case rest: False
            have "length s = k + length t + length r" using ks Cons arg_cong [OF tr, of length] by simp
            then have ge: "\<not> pos + k + length t \<ge> len" using less.prems(3) rest by simp
            have e1: "split_loop cmd len pos argv sh = split_loop cmd len (pos + k + length t) (argv @ [cmd + (pos + k)]) sh1"
              using lt st few room pk False sk ge unfolding loop by (simp add: FINSH_ARG_MAX_def)
            have n2: "cmd + (pos + k) = length A + length (replicate k NUL)" using less.prems(2) by simp
            have e2: "split_result (A @ replicate k NUL @ t @ []) r zs (argv @ [length A + length (replicate k NUL)]) sh1
                (split_loop cmd len (pos + k + length t) (argv @ [length A + length (replicate k NUL)]) sh1)"
            proof (rule less.hyps)
              show "length r < length s" using \<open>length s = k + length t + length r\<close> tn by simp
              show "a \<le> length (A @ replicate k NUL @ t @ []) + length r"
                if "a \<in> set (argv @ [length A + length (replicate k NUL)])" for a
                using that less.prems(6) [of a] \<open>length s = k + length t + length r\<close> by auto
              show "sh_line sh1 = (A @ replicate k NUL @ t @ []) @ r @ NUL # zs" using Cons tr by (simp add: sh1_def)
              show "NUL \<notin> set r" using s1n Cons tr by (metis Un_iff set_append)
              show "len = pos + k + length t + length r" using less.prems(3) \<open>length s = k + length t + length r\<close> by simp
            qed (use less.prems ks few in \<open>simp_all add: sh1_def\<close>)
            show ?thesis using e2 unfolding e1 [unfolded n2, symmetric] .
          qed
          then show ?thesis
          proof (rule split_result_step)
            show "NUL \<notin> set t" using s1n Cons tr by (metis Un_iff set_append)
            show "length s = length (replicate k NUL @ t @ [] @ r)" using ks Cons arg_cong [OF tr, of length] by simp
          qed (use tk few rb head in \<open>auto simp: sh1_def\<close>)
        qed
      qed
    qed
  qed
qed

end
