(* ===== verification/Rt_Shell_Claims.thy ===== *)
theory Rt_Shell_Claims
  imports Rt_Shell_Split
begin

text \<open>
  Running a line, and the properties of the shell.
\<close>

section \<open>Finding the command\<close>

primrec find_cmd :: "finsh_syscall list \<Rightarrow> char list \<Rightarrow> nat option" where
  "find_cmd [] w = None"
| "find_cmd (index # table) w = (if is_cmd index \<and> cmd_name index = w then Some (sys_func index) else find_cmd table w)"

lemma strncmp_prefix: "NUL \<notin> set w \<Longrightarrow> strncmp_same a (w @ rest) (length w) = Some (take (length w) a = w)"
proof (induction w arbitrary: a)
  case (Cons c w)
  then show ?case by (cases a) auto
qed simp

lemma msh_get_cmd_ok:
  "drop cmd (sh_line sh) = w @ rest \<Longrightarrow> NUL \<notin> set w \<Longrightarrow> \<forall>index \<in> set table. NUL \<notin> set (sys_name index) \<Longrightarrow>
   msh_get_cmd table cmd (length w) sh = Some (find_cmd table w)"
proof (induction table)
  case (Cons index table)
  have nn: "NUL \<notin> set (cmd_name index)" using Cons.prems(3) set_drop_subset [of 6 "sys_name index"] by (auto simp: cmd_name_def)
  have n: "\<exists>e. name_at (length w) (cmd_name index) = Some e \<and> (e = NUL \<longleftrightarrow> cmd_name index = w)" if t: "take (length w) (cmd_name index) = w"
  proof (cases "length w < length (cmd_name index)")
    case True
    then have "cmd_name index ! length w \<noteq> NUL" "cmd_name index \<noteq> w" using nn nth_mem by (metis, blast)
    then show ?thesis using True by (simp add: name_at_def)
  next
    case False
    have "length w \<le> length (cmd_name index)" using t by (metis length_take min.cobounded1)
    then have "length w = length (cmd_name index)" using False by simp
    then show ?thesis using t by (simp add: name_at_def)
  qed
  show ?case
  proof (cases "is_cmd index \<and> take (length w) (cmd_name index) = w")
    case True
    then obtain e where "name_at (length w) (cmd_name index) = Some e" "e = NUL \<longleftrightarrow> cmd_name index = w" using n by blast
    then show ?thesis using True Cons strncmp_prefix [OF Cons.prems(2), of "cmd_name index" rest] by simp
  next
    case False
    then have "\<not> (is_cmd index \<and> cmd_name index = w)" by auto
    then show ?thesis using False Cons strncmp_prefix [OF Cons.prems(2), of "cmd_name index" rest] by auto
  qed
qed simp

section \<open>Running a line\<close>

lemma trim_start_ok:
  "sh_line sh = A @ s @ NUL # zs \<Longrightarrow>
   trim_start (length A) (length s) sh = Some (length A + length (takeWhile is_blank s), length (dropWhile is_blank s))"
proof (induction s arbitrary: A)
  case Nil
  then show ?case by (simp add: trim_start.simps [of "length A"])
next
  case (Cons c s)
  have p: "peek (length A) sh = Some c" using Cons.prems peek_here [of sh A c "s @ NUL # zs"] by simp
  show ?case
  proof (cases "is_blank c")
    case True
    have "trim_start (length (A @ [c])) (length s) sh =
        Some (length (A @ [c]) + length (takeWhile is_blank s), length (dropWhile is_blank s))"
      by (rule Cons.IH) (use Cons.prems in simp)
    then show ?thesis using p True by (simp add: trim_start.simps [of "length A"])
  next
    case False
    then show ?thesis using p by (simp add: trim_start.simps [of "length A"])
  qed
qed

lemma first_space_ok:
  "sh_line sh = A @ s @ NUL # zs \<Longrightarrow> NUL \<notin> set s \<Longrightarrow>
   first_space (length A) sh = Some (length A + length (takeWhile (\<lambda>c. c \<noteq> CHR '' '') s))"
proof (induction s arbitrary: A)
  case Nil
  then have "peek (length A) sh = Some NUL" using peek_here [of sh A NUL zs] by simp
  then show ?case by (simp add: first_space.simps [of "length A"])
next
  case (Cons c s)
  have p: "peek (length A) sh = Some c" using Cons.prems peek_here [of sh A c "s @ NUL # zs"] by simp
  show ?case
  proof (cases "c = CHR '' ''")
    case True
    then show ?thesis using p by (simp add: first_space.simps [of "length A"])
  next
    case False
    have "first_space (length (A @ [c])) sh = Some (length (A @ [c]) + length (takeWhile (\<lambda>c. c \<noteq> CHR '' '') s))"
      by (rule Cons.IH) (use Cons.prems in simp_all)
    moreover have "c \<noteq> NUL" using Cons.prems(2) by auto
    ultimately show ?thesis using p False by (simp add: first_space.simps [of "length A"])
  qed
qed

definition word_of :: "char list \<Rightarrow> char list" where
  "word_of s = takeWhile (\<lambda>c. \<not> is_blank c) s"

definition unknown_name :: "char list \<Rightarrow> char list" where
  "unknown_name s = takeWhile (\<lambda>c. c \<noteq> CHR '' '') s"

text \<open>What a command is given: its arguments are the words of the line.\<close>

definition given :: "char list \<Rightarrow> nat list \<Rightarrow> finsh_shell \<Rightarrow> bool" where
  "given t argv sh = (length argv = min 8 (length (tokens t)) \<and>
     (\<forall>i < length argv. argv ! i < length (sh_line sh) \<and> line_str (argv ! i) sh = Some (tokens t ! i)))"

lemma tokens_trim: "tokens (dropWhile is_blank s) = tokens s"
proof -
  have "dropWhile is_blank (dropWhile is_blank s) = dropWhile is_blank s" by (induction s) auto
  then show ?thesis by (subst (1 2) tokens.simps) simp
qed

lemma tokens_some: "dropWhile is_blank s = c # r \<Longrightarrow> tokens s \<noteq> []"
  by (cases "c = CHR 0x22") (auto simp: tokens.simps [of s] split: prod.splits)

lemma msh_exec_blank:
  assumes "sh_line sh = t @ NUL # zs" and "dropWhile is_blank t = []"
  shows "msh_exec table run 0 (length t) sh = Some (0, sh)"
  using trim_start_ok [of sh "[]" t zs] assms by (simp add: msh_exec_def del: dropWhile_eq_Nil_conv)

lemma msh_exec_known:
  assumes l: "sh_line sh = t @ NUL # zs" and n: "NUL \<notin> set t" and s: "dropWhile is_blank t = s" "s \<noteq> []"
    and len: "length (sh_line sh) \<le> 120" and lf: "log_fits sh" and tb: "\<forall>index \<in> set table. NUL \<notin> set (sys_name index)"
    and f: "find_cmd table (word_of s) = Some f"
  shows "\<exists>argv sh1. given t argv sh1 \<and> argv \<noteq> [] \<and> shell_regs sh1 = shell_regs sh \<and> length (sh_line sh1) = length (sh_line sh) \<and>
    msh_exec table run 0 (length t) sh = run f (length argv) argv sh1"
proof -
  define A where "A = takeWhile is_blank t"
  have t: "t = A @ s" unfolding A_def s(1) [symmetric] by simp
  have la: "sh_line sh = A @ s @ NUL # zs" using l t by simp
  have sn: "NUL \<notin> set s" using n t by auto
  obtain c r where c: "s = c # r" using s(2) by (cases s) auto
  have "\<not> is_blank c" using s(1) c by (metis hd_dropWhile list.discI list.sel(1))
  then have w: "word_of s \<noteq> []" by (simp add: word_of_def c)
  have wn: "NUL \<notin> set (word_of s)" using sn set_takeWhileD unfolding word_of_def by metis
  have "drop (length A) (sh_line sh) = word_of s @ dropWhile (\<lambda>c. \<not> is_blank c) s @ NUL # zs"
    unfolding la word_of_def by (simp add: append.assoc [symmetric] del: append_assoc)
  then have g: "msh_get_cmd table (length A) (length (word_of s)) sh = Some (Some f)" using msh_get_cmd_ok [OF _ wn tb] f by metis
  have sw: "skip_word (length A) (length s) 0 sh = Some (length (word_of s))"
    using skip_word_ok [OF la, of "length A" 0 "length s"] by (simp add: word_of_def)
  have "split_result A s zs [] sh (split_loop (length A) (length s) 0 [] sh)"
    by (rule split_ok [OF la]) (use sn len lf in simp_all)
  then obtain ps B sh1 where p: "split_loop (length A) (length s) 0 [] sh = Some (ps, sh1)" "shell_regs sh1 = shell_regs sh"
    "sh_line sh1 = A @ B @ NUL # zs" "length B = length s" "length ps = min 8 (length (tokens s))"
    "\<forall>i < length ps. length A \<le> ps ! i \<and> ps ! i \<le> length A + length s \<and> line_str (ps ! i) sh1 = Some (tokens s ! i)"
    unfolding split_result_def append_Nil list.size(3) diff_zero by blast
  have tk: "tokens s = tokens t" using tokens_trim [of t] s(1) by simp
  have "tokens s \<noteq> []" using tokens_some [of t c r] s(1) c tk by simp
  then have "0 < length (tokens s)" by simp
  then have ne: "ps \<noteq> []" using p(5) by (auto simp: min_def split: if_splits)
  have gv: "given t ps sh1"
    unfolding given_def
  proof (intro conjI allI impI)
    fix i assume "i < length ps"
    then have "ps ! i \<le> length A + length s" "line_str (ps ! i) sh1 = Some (tokens s ! i)" using p(6) by blast+
    then show "ps ! i < length (sh_line sh1)" "line_str (ps ! i) sh1 = Some (tokens t ! i)" using p(3,4) tk by simp_all
  qed (use p(5) tk in simp)
  have tr: "trim_start 0 (length t) sh = Some (length A, length s)"
    using trim_start_ok [of sh "[]" t zs] l s(1) by (simp add: A_def)
  have "msh_exec table run 0 (length t) sh = run f (length ps) ps sh1"
    using tr s(2) sw w g p(1) ne unfolding msh_exec_def msh_exec_cmd_def msh_split_def by (auto split: bind_splits)
  then show ?thesis using gv ne p(2,3,4) la by (intro exI [of _ ps] exI [of _ sh1]) simp
qed

lemma msh_exec_unknown:
  assumes l: "sh_line sh = t @ NUL # zs" and n: "NUL \<notin> set t" and s: "dropWhile is_blank t = s" "s \<noteq> []"
    and len: "length t \<le> 100" and lf: "log_fits sh" and tb: "\<forall>index \<in> set table. NUL \<notin> set (sys_name index)"
    and f: "find_cmd table (word_of s) = None"
  shows "\<exists>sh2 xs. msh_exec table run 0 (length t) sh = Some (- 1, sh2) \<and> length xs = length (sh_line sh) \<and>
    says (sh\<lparr>sh_line := xs\<rparr>) (map char_byte (unknown_name s @ '': command not found.'' @ newline)) sh2"
proof -
  define A where "A = takeWhile is_blank t"
  have t: "t = A @ s" unfolding A_def s(1) [symmetric] by simp
  have la: "sh_line sh = A @ s @ NUL # zs" using l t by simp
  have sn: "NUL \<notin> set s" using n t by auto
  obtain c r where c: "s = c # r" using s(2) by (cases s) auto
  have "\<not> is_blank c" using s(1) c by (metis hd_dropWhile list.discI list.sel(1))
  then have w: "word_of s \<noteq> []" by (simp add: word_of_def c)
  have wn: "NUL \<notin> set (word_of s)" using sn set_takeWhileD unfolding word_of_def by metis
  have "drop (length A) (sh_line sh) = word_of s @ dropWhile (\<lambda>c. \<not> is_blank c) s @ NUL # zs"
    unfolding la word_of_def by (simp add: append.assoc [symmetric] del: append_assoc)
  then have g: "msh_get_cmd table (length A) (length (word_of s)) sh = Some None" using msh_get_cmd_ok [OF _ wn tb] f by metis
  have sw: "skip_word (length A) (length s) 0 sh = Some (length (word_of s))"
    using skip_word_ok [OF la, of "length A" 0 "length s"] by (simp add: word_of_def)
  have tr: "trim_start 0 (length t) sh = Some (length A, length s)"
    using trim_start_ok [of sh "[]" t zs] l s(1) by (simp add: A_def)
  let ?u = "unknown_name s"
  have fs: "first_space (length A) sh = Some (length A + length ?u)" using first_space_ok [OF la sn] by (simp add: unknown_name_def)
  have un: "NUL \<notin> set ?u" using sn set_takeWhileD unfolding unknown_name_def by metis
  obtain x B where xB: "dropWhile (\<lambda>c. c \<noteq> CHR '' '') s @ NUL # zs = x # B" by (cases "dropWhile (\<lambda>c. c \<noteq> CHR '' '') s @ NUL # zs") auto
  have lu: "sh_line sh = (A @ ?u) @ x # B"
    using la xB unfolding unknown_name_def by (metis append.assoc takeWhile_dropWhile_id)
  define xs where "xs = (A @ ?u) @ NUL # B"
  have po: "poke (length A + length ?u) NUL sh = Some (sh\<lparr>sh_line := xs\<rparr>)" using poke_here [OF lu, of "length A + length ?u"] by (simp add: xs_def)
  have ls: "line_str (length A) (sh\<lparr>sh_line := xs\<rparr>) = Some ?u" using line_chars_text [OF un] by (simp add: line_str_def xs_def)
  have "length ?u \<le> length s" unfolding unknown_name_def by (rule length_takeWhile_le)
  then have "NUL \<notin> set (?u @ '': command not found.'' @ newline)" "length (?u @ '': command not found.'' @ newline) \<le> 126"
    using un len t by (simp_all add: newline_def NUL_def)
  then obtain sh2 where k: "kprint (''%s: command not found.'' @ newline) [VStr (Some ?u)] (sh\<lparr>sh_line := xs\<rparr>) = Some sh2"
      "says (sh\<lparr>sh_line := xs\<rparr>) (map char_byte (?u @ '': command not found.'' @ newline)) sh2"
    using kprint_text [OF printed_formats(9)] lf by (metis shell_regs_simps(2))
  have "msh_exec table run 0 (length t) sh = Some (- 1, sh2)"
    using tr s(2) sw w g fs po ls k(1) unfolding msh_exec_def msh_exec_cmd_def by simp
  moreover have "length xs = length (sh_line sh)" using lu by (simp add: xs_def)
  ultimately show ?thesis using k(2) by blast
qed

section \<open>The key that ends a line\<close>

definition cleared :: "finsh_shell \<Rightarrow> finsh_shell" where
  "cleared sh = sh\<lparr>sh_line := replicate (length (sh_line sh)) NUL, sh_curpos := 0, sh_position := 0\<rparr>"

definition fresh_prompt :: "finsh_shell \<Rightarrow> finsh_shell option" where
  "fresh_prompt sh = map_option cleared (kprint (finsh_get_prompt sh) [] sh)"

lemma enter_key_plain:
  assumes "edits sh l r"
  obtains sh1 where "says sh (map char_byte newline) sh1" "finsh_key table run (CHR 0x0d) sh =
      Option.bind (msh_exec table run 0 (length (l @ r)) sh1) (\<lambda>(_, sh2). fresh_prompt sh2)"
proof -
  note d = editsD [OF assms]
  obtain sh1 where k: "kprint newline [] sh = Some sh1" "says sh (map char_byte newline) sh1"
    using kprint_text [OF printed_formats(2) formats_no_nul(2) _ d(9)] by (auto simp: newline_def)
  have p: "unat (sh_position sh1) = length (l @ r)" using says_fields(5) [OF k(2)] d(6) by simp
  have "finsh_key table run (CHR 0x0d) sh = enter_key table run sh"
    using finsh_key_plain [OF d(8), of "CHR 0x0d"] by (simp add: normal_key_def NUL_def)
  also have "\<dots> = Option.bind (msh_exec table run 0 (length (l @ r)) sh1) (\<lambda>(_, sh2). fresh_prompt sh2)"
    unfolding enter_key_def using d(7) k(1) p
    by (simp add: fresh_prompt_def cleared_def map_conv_bind_option comp_def split_def)
  finally show ?thesis using that k(2) by blast
qed

lemma edits_buffer: "edits sh l r \<Longrightarrow> \<exists>zs. sh_line sh = (l @ r) @ NUL # zs"
proof -
  assume e: "edits sh l r"
  obtain k where "80 - length l - length r = Suc k" using editsD(2) [OF e] by (cases "80 - length l - length r") auto
  then show ?thesis using editsD(1) [OF e] by simp
qed

lemma fresh_prompt_ok:
  assumes e: "edits sh l r" and s: "says (sh\<lparr>sh_line := xs\<rparr>) str sh'" and l: "length xs = 80"
  shows "\<exists>sh2. fresh_prompt sh' = Some sh2 \<and> edits sh2 [] [] \<and> sh_out sh2 = sh_out sh @ str @ prompt_bytes"
proof -
  note f = says_fields [OF s]
  have pm: "sh_prompt_mode sh" using e by (simp add: edits_def)
  then have p: "finsh_get_prompt sh' = ''msh >''" using f(4) by (simp add: finsh_get_prompt_def)
  have lf: "log_fits sh'" using f(7) editsD(9) [OF e] by simp
  obtain sh2 where k: "kprint (finsh_get_prompt sh') [] sh' = Some sh2" "says sh' (map char_byte (finsh_get_prompt sh')) sh2"
    using kprint_text [OF printed_formats(11) formats_no_nul(3) _ lf, of sh'] by (auto simp: p)
  note g = says_fields [OF k(2)]
  have "fresh_prompt sh' = Some (cleared sh2)" using k(1) by (simp add: fresh_prompt_def)
  moreover have "edits (cleared sh2) [] []" using e f g l by (simp add: edits_def cleared_def log_fits_def)
  moreover have "sh_out (cleared sh2) = sh_out sh @ str @ prompt_bytes" using f(8) g(8) unfolding p by (simp add: cleared_def prompt_bytes_def)
  ultimately show ?thesis by blast
qed

section \<open>A line that fills the buffer\<close>

text \<open>The character that fills the buffer sends the position back to its start and leaves the text there,
  without a terminator. The next line is read beyond what was typed and, if it is not a command, beyond
  the end of the buffer.\<close>

lemma insert_at_end:
  assumes k: "k < 80" "length (sh_line sh) = 80" and p: "sh_position sh = of_nat k" "sh_curpos sh = of_nat k"
    and e: "sh_echo_mode sh" "log_fits sh" and c: "c \<noteq> NUL"
  obtains sh2 where "says (sh\<lparr>sh_line := (sh_line sh)[k := c]\<rparr>) [char_byte c] sh2"
    "insert_key c sh = Some (if k = 79 then sh2\<lparr>sh_position := 0, sh_curpos := 0\<rparr>
       else sh2\<lparr>sh_position := of_nat (k + 1), sh_curpos := of_nat (k + 1)\<rparr>)"
proof -
  let ?s = "sh\<lparr>sh_line := (sh_line sh)[k := c]\<rparr>"
  have u: "unat (sh_position sh) = k" "unat (sh_curpos sh) = k" using p u16_small [of k] k(1) by simp_all
  have g: "(if unat (sh_position sh) \<ge> FINSH_CMD_SIZE then sh\<lparr>sh_position := 0\<rparr> else sh) = sh"
    using u k(1) by (simp add: FINSH_CMD_SIZE_def)
  have pk: "poke k c sh = Some ?s" using k by (simp add: poke_def)
  have "log_fits ?s" using e(2) by (simp add: log_fits_def)
  then obtain sh2 where s: "kprint ''%c'' [VInt (char_int c)] ?s = Some sh2" "says ?s [char_byte c] sh2" using kprint_char [OF c] by blast
  note f = says_fields [OF s(2)]
  let ?t = "sh2\<lparr>sh_position := sh_position sh2 + 1, sh_curpos := sh_curpos sh2 + 1\<rparr>"
  have q: "sh_position sh2 + 1 = of_nat (k + 1)" "sh_curpos sh2 + 1 = of_nat (k + 1)" using f p by simp_all
  have w: "unat (of_nat (k + 1) :: u16) = k + 1" using u16_small [of "k + 1"] k(1) by simp
  have "insert_key c sh = Some (if unat (sh_position ?t) \<ge> FINSH_CMD_SIZE then ?t\<lparr>sh_position := 0, sh_curpos := 0\<rparr> else ?t)"
    unfolding insert_key_def g unfolding Let_def u using pk e(1) s(1) by simp
  also have "\<dots> = Some (if k = 79 then sh2\<lparr>sh_position := 0, sh_curpos := 0\<rparr>
       else sh2\<lparr>sh_position := of_nat (k + 1), sh_curpos := of_nat (k + 1)\<rparr>)"
    using k(1) w unfolding q by (auto simp: FINSH_CMD_SIZE_def)
  finally show ?thesis using that s(2) by blast
qed

lemma first_space_none: "CHR '' '' \<notin> set (drop i (sh_line sh)) \<Longrightarrow> NUL \<notin> set (drop i (sh_line sh)) \<Longrightarrow> first_space i sh = None"
proof (induction "length (sh_line sh) - i" arbitrary: i)
  case 0
  then show ?case by (simp add: first_space.simps [of i] peek_def)
next
  case (Suc n)
  have i: "i < length (sh_line sh)" using Suc.hyps(2) by simp
  have d: "drop i (sh_line sh) = sh_line sh ! i # drop (Suc i) (sh_line sh)" by (rule Cons_nth_drop_Suc [symmetric, OF i])
  have "first_space (Suc i) sh = None" by (rule Suc.hyps(1)) (use Suc.hyps(2) Suc.prems d in auto)
  then show ?case using Suc.prems i d by (auto simp: first_space.simps [of i] peek_def)
qed

lemma overlong_line:
  assumes e: "edits sh l []" and len: "length l = 79" and sp: "CHR '' '' \<notin> set (x # l @ [c])"
    and pr: "printable c" "printable x" and tb: "\<forall>index \<in> set table. NUL \<notin> set (sys_name index)" and f: "find_cmd table [x] = None"
  shows "finsh_keys table run [c, x, CHR 0x0d] sh = None"
proof -
  note d = editsD [OF e] and pc = printable_key [OF pr(1)] and px = printable_key [OF pr(2)]
  have ps: "sh_position sh = of_nat 79" "sh_curpos sh = of_nat 79" using d(11,12) len by simp_all
  obtain sh1 where s1: "says (sh\<lparr>sh_line := (sh_line sh)[79 := c]\<rparr>) [char_byte c] sh1"
      "insert_key c sh = Some (sh1\<lparr>sh_position := 0, sh_curpos := 0\<rparr>)"
    using insert_at_end [OF _ d(10) ps d(7,9), of c] pc by auto
  let ?s1 = "sh1\<lparr>sh_position := 0, sh_curpos := 0\<rparr>"
  note f1 = says_fields [OF s1(1)]
  have l1: "sh_line ?s1 = l @ [c]" using f1 d(1) len by (simp add: list_update_append)
  have o1: "length (sh_line ?s1) = 80" "sh_echo_mode ?s1" "log_fits ?s1" "sh_stat ?s1 = WAIT_NORMAL"
    using l1 len f1 d(7,8,9) by (simp_all add: log_fits_def)
  obtain sh2 where s2: "says (?s1\<lparr>sh_line := (sh_line ?s1)[0 := x]\<rparr>) [char_byte x] sh2"
      "insert_key x ?s1 = Some (sh2\<lparr>sh_position := 1, sh_curpos := 1\<rparr>)"
    using insert_at_end [of 0 ?s1 x, OF _ o1(1) _ _ o1(2,3)] px by auto
  let ?s2 = "sh2\<lparr>sh_position := 1, sh_curpos := 1\<rparr>"
  note f2 = says_fields [OF s2(1)]
  have l2: "sh_line ?s2 = x # tl l @ [c]" using f2 l1 len by (cases l) simp_all
  have o2: "sh_echo_mode ?s2" "log_fits ?s2" "sh_stat ?s2 = WAIT_NORMAL" using f2 o1 by (simp_all add: log_fits_def)
  obtain sh3 where k: "kprint newline [] ?s2 = Some sh3" "says ?s2 (map char_byte newline) sh3"
    using kprint_text [OF printed_formats(2) formats_no_nul(2) _ o2(2)] by (auto simp: newline_def)
  note f3 = says_fields [OF k(2)]
  have l3: "sh_line sh3 = x # tl l @ [c]" using f3 l2 by simp
  have p3: "unat (sh_position sh3) = 1" using f3 by simp
  have b: "\<not> is_blank x" using sp px by (auto simp: is_blank_def)
  have tr: "trim_start 0 1 sh3 = Some (0, 1)" using b l3 by (simp add: trim_start.simps [of 0] peek_def)
  have sw: "skip_word 0 1 0 sh3 = Some 1" using b l3 by (simp add: skip_word.simps [of 0] skip_word.simps [of _ _ 1] peek_def)
  have g: "msh_get_cmd table 0 1 sh3 = Some None"
    using msh_get_cmd_ok [of 0 sh3 "[x]" "tl l @ [c]" table] tb px f l3 by auto
  have "set (tl l) \<subseteq> set l" using set_drop_subset [of 1 l] by (simp add: drop_Suc)
  then have fs: "first_space 0 sh3 = None" using first_space_none [of 0 sh3] l3 sp px pc d(3) by auto
  have "msh_exec table run 0 1 sh3 = None" using tr sw g fs by (simp add: msh_exec_def msh_exec_cmd_def)
  then have "enter_key table run ?s2 = None" using k(1) o2(1) p3 by (simp add: enter_key_def)
  then have "finsh_key table run (CHR 0x0d) ?s2 = None"
    using finsh_key_plain [OF o2(3), of "CHR 0x0d"] by (simp add: normal_key_def NUL_def)
  moreover have "finsh_key table run x ?s1 = Some ?s2" using finsh_key_plain [OF o1(4), of x] px normal_printable [OF pr(2)] s2(2) by simp
  moreover have "finsh_key table run c sh = Some ?s1" using finsh_key_plain [OF d(8), of c] pc normal_printable [OF pr(1)] s1(2) by simp
  ultimately show ?thesis by simp
qed

section \<open>The properties\<close>



text \<open>C40: what the shell does with a line. A blank line only gives a new prompt. Otherwise the first
  word is looked up among the exported commands: if it is one, that command is called, with as
  arguments the words of the line up to eight, each a terminated string inside the buffer, quotation marks and
  escaped quotation marks taken into account, and after it the prompt is printed and the line cleared; if
  not, a message says so. Without a command the editor is ready again, with an empty line behind a new prompt.\<close>

theorem shell_runs_line:
  assumes e: "edits sh l r" and tb: "\<forall>index \<in> set table. NUL \<notin> set (sys_name index)"
  shows "case dropWhile is_blank (l @ r) of
      [] \<Rightarrow> \<exists>sh'. finsh_key table run (CHR 0x0d) sh = Some sh' \<and> edits sh' [] [] \<and> sh_out sh' = sh_out sh @ map char_byte (newline @ ''msh >'')
    | c # s \<Rightarrow> (case find_cmd table (word_of (c # s)) of
        None \<Rightarrow> \<exists>sh'. finsh_key table run (CHR 0x0d) sh = Some sh' \<and> edits sh' [] [] \<and>
          sh_out sh' = sh_out sh @ map char_byte (newline @ unknown_name (c # s) @ '': command not found.'' @ newline @ ''msh >'')
      | Some f \<Rightarrow> \<exists>argv sh1. given (l @ r) argv sh1 \<and> shell_regs sh1 = shell_regs sh \<and>
          finsh_key table run (CHR 0x0d) sh = Option.bind (run f (length argv) argv sh1) (\<lambda>(_, sh2). fresh_prompt sh2))"
proof -
  obtain sh1 where s: "says sh (map char_byte newline) sh1" and k: "finsh_key table run (CHR 0x0d) sh =
      Option.bind (msh_exec table run 0 (length (l @ r)) sh1) (\<lambda>(_, sh2). fresh_prompt sh2)"
    using enter_key_plain [OF e] .
  have e1: "edits sh1 l r" by (rule edits_says [OF e s])
  note d = editsD [OF e1]
  obtain zs where z: "sh_line sh1 = (l @ r) @ NUL # zs" using edits_buffer [OF e1] by blast
  have n: "NUL \<notin> set (l @ r)" using d(3,4) by simp
  have l100: "length (l @ r) \<le> 100" using d(2) by simp
  have out: "sh_out sh1 = sh_out sh @ map char_byte newline" by (rule says_fields(8) [OF s])
  show ?thesis
  proof (cases "dropWhile is_blank (l @ r)")
    case Nil
    have "says (sh1\<lparr>sh_line := sh_line sh1\<rparr>) [] sh1" using says_refl [of sh1] by simp
    then obtain sh2 where "fresh_prompt sh1 = Some sh2" "edits sh2 [] []" "sh_out sh2 = sh_out sh1 @ [] @ prompt_bytes"
      using fresh_prompt_ok [OF e1 _ d(10)] by blast
    then have "\<exists>sh'. finsh_key table run (CHR 0x0d) sh = Some sh' \<and> edits sh' [] [] \<and> sh_out sh' = sh_out sh @ map char_byte (newline @ ''msh >'')"
      using k msh_exec_blank [OF z Nil] out by (simp add: prompt_bytes_def)
    then show ?thesis unfolding Nil list.case .
  next
    case (Cons c s')
    show ?thesis
    proof (cases "find_cmd table (word_of (c # s'))")
      case None
      obtain sh2 xs where m: "msh_exec table run 0 (length (l @ r)) sh1 = Some (- 1, sh2)" "length xs = length (sh_line sh1)"
        "says (sh1\<lparr>sh_line := xs\<rparr>) (map char_byte (unknown_name (c # s') @ '': command not found.'' @ newline)) sh2"
        using msh_exec_unknown [OF z n Cons list.distinct(2) l100 d(9) tb None, of run] by blast
      obtain sh3 where "fresh_prompt sh2 = Some sh3" "edits sh3 [] []"
        "sh_out sh3 = sh_out sh1 @ map char_byte (unknown_name (c # s') @ '': command not found.'' @ newline) @ prompt_bytes"
        using fresh_prompt_ok [OF e1 m(3) m(2) [unfolded d(10)]] by (metis append.assoc)
      then show ?thesis using k m(1) Cons None out by (simp add: prompt_bytes_def)
    next
      case (Some f)
      have "length (sh_line sh1) \<le> 120" using d(10) by simp
      then obtain argv sh2 where m: "given (l @ r) argv sh2" "shell_regs sh2 = shell_regs sh1"
          "msh_exec table run 0 (length (l @ r)) sh1 = run f (length argv) argv sh2"
        using msh_exec_known [OF z n Cons list.distinct(2) _ d(9) tb Some, of run] by blast
      have "shell_regs sh2 = shell_regs sh" using m(2) shell_regs_says [OF s] by simp
      then have "\<exists>argv sh1. given (l @ r) argv sh1 \<and> shell_regs sh1 = shell_regs sh \<and>
          finsh_key table run (CHR 0x0d) sh = Option.bind (run f (length argv) argv sh1) (\<lambda>(_, sh2). fresh_prompt sh2)"
        using k m(1,3) by (intro exI [of _ argv] exI [of _ sh2]) simp
      then show ?thesis using Cons Some by simp
    qed
  qed
qed

text \<open>A line typed at the prompt of the fresh shell.\<close>

lemma typed_line:
  assumes "\<forall>c \<in> set t. printable c" and "length t < 80"
  shows "\<exists>sh. edits sh t []"
proof -
  have "fits (map Char xs) (l, []) \<and> fold edit (map Char xs) (l, []) = (l @ xs, [])" if "length l + length xs < 80" for xs l
    using that by (induction xs arbitrary: l) simp_all
  from this [of "[]" t] have f: "fits (map Char t) ([], [])" "fold edit (map Char t) ([], []) = (t, [])" using assms(2) by simp_all
  have pr: "\<forall>k \<in> set (map Char t). key_printable k" using assms(1) by auto
  obtain sh0 where "row_shown sh0 ([], [])"
    using shown_start [where log_buf = "0x20000000"] by force
  then obtain sh where "row_shown sh (t, [])" using shown_keys [OF _ pr f(1)] f(2) by fastforce
  then show ?thesis by (auto simp: row_shown_def)
qed

theorem shell_runs_line_witness:
  "\<exists>sh argv sh1. edits sh ''ps -m'' [] \<and> given ''ps -m'' argv sh1 \<and>
    finsh_key [\<lparr>sys_name = ''__cmd_ps'', sys_func = 7\<rparr>] (\<lambda>f argc argv sh. Some (of_nat f, sh)) (CHR 0x0d) sh = fresh_prompt sh1"
proof -
  obtain sh where sh: "edits sh ''ps -m'' []" using typed_line [of "''ps -m''"] by (auto simp: printable_def)
  let ?table = "[\<lparr>sys_name = ''__cmd_ps'', sys_func = 7\<rparr>]"
  have t: "\<forall>index \<in> set ?table. NUL \<notin> set (sys_name index)" by (simp add: NUL_def)
  have d: "dropWhile is_blank ''ps -m'' = ''ps -m''" by (simp add: is_blank_def)
  have f: "find_cmd ?table (word_of ''ps -m'') = Some 7"
    by (simp add: word_of_def is_blank_def is_cmd_def cmd_prefix_def cmd_name_def numeral_eq_Suc)
  show ?thesis using shell_runs_line [OF sh t, of "\<lambda>f argc argv sh. Some (of_nat f, sh)"] d f sh by auto
qed

end
