(* ===== verification/Spec2Isabelle.thy ===== *)
theory Spec2Isabelle
  imports Nemu_Sdb Nemu_Cpu_Correct Bootloader Selftest_Props Rt_Wait_Claims Rt_Heap_Claims Rt_Shell_Claims
begin

text \<open>
  This development models the C software of the SoC repository: the NEMU emulator it is developed
  on (\<^verbatim>\<open>nemu/\<close>), the board support library (\<^verbatim>\<open>libs/_sdk\<close>, \<^verbatim>\<open>libs/_utilities\<close>), the programs that run on
  the chip (\<^verbatim>\<open>sim/\<close>), and the RT-Thread Nano kernel with its RISC-V port (\<^verbatim>\<open>libs/_kernel\<close>).

  \<^bold>\<open>How the parts meet.\<close> The emulator fetches, decodes and executes instructions, dispatches loads
  and stores to guest memory or to memory-mapped devices, and updates the devices between
  instructions. The drivers are run on the bus of that emulator model: a register access of a driver
  is a bus access, and a device update may happen before each of them. The programs are run on the
  drivers. RT-Thread is driven by the clock interrupt of the timer driver.

  \<^bold>\<open>Shared ground.\<close> \<^verbatim>\<open>Prelude\<close>: integer types, the result type in which assertion failures and undefined
  accesses are values. \<^verbatim>\<open>Fifo\<close>: the contract of a bounded first-in first-out buffer as a locale, interpreted
  by the keyboard queue of the emulator and by the mailboxes of RT-Thread.

  \<^bold>\<open>The emulator.\<close> \<^verbatim>\<open>Nemu_Macros\<close> (\<^verbatim>\<open>include/macro.h\<close>, \<^verbatim>\<open>cpu/decode.h\<close>), \<^verbatim>\<open>Nemu_State\<close>, \<^verbatim>\<open>Nemu_Device\<close> (timer,
  UART, serial, clock, keyboard, VGA, audio; a locale states what every register handler leaves alone),
  \<^verbatim>\<open>Nemu_Memory\<close> (bus and guest memory), \<^verbatim>\<open>Nemu_Inst\<close> (the RV32IM interpreter), \<^verbatim>\<open>Nemu_Expr\<close>,
  \<^verbatim>\<open>Nemu_Watchpoint\<close>, \<^verbatim>\<open>Nemu_Sdb\<close> (the debugger), \<^verbatim>\<open>Nemu_Cpu\<close> (execution loop, interrupts, differential
  testing). \<^verbatim>\<open>Rv32\<close> is an independent description of the instruction set; \<^verbatim>\<open>Nemu_Inst_Refine\<close> and
  \<^verbatim>\<open>Nemu_Inst_Correct\<close> show that the interpreter refines it. The theories ending in \<^verbatim>\<open>Props\<close> and \<^verbatim>\<open>Correct\<close>
  hold the invariants and the functional behaviour of the part they are named after.

  \<^bold>\<open>Board software.\<close> \<^verbatim>\<open>Sdk\<close> (drivers; a polling loop is a partial function, so that not returning is
  \<^verbatim>\<open>None\<close>), \<^verbatim>\<open>Xprintf\<close> (formatted output), \<^verbatim>\<open>Selftest\<close> (the test programs), \<^verbatim>\<open>Bootloader\<close> (the serial
  loaders), with their properties in \<^verbatim>\<open>Sdk_Props\<close>, \<^verbatim>\<open>Xprintf_Props\<close>, \<^verbatim>\<open>Selftest_Primes\<close>, \<^verbatim>\<open>Selftest_Props\<close>.

  \<^bold>\<open>RT-Thread.\<close> \<^verbatim>\<open>Rt_List\<close> models the intrusive lists as a store of links and relates a store to the map
  from list heads to members. \<^verbatim>\<open>Rt_Kernel\<close> has the state, \<^verbatim>\<open>Rt_Sched\<close> the scheduler, objects and timers,
  \<^verbatim>\<open>Rt_Thread\<close> threads, clock and the clock interrupt, \<^verbatim>\<open>Rt_Ipc\<close> semaphores, mailboxes and the start of the
  kernel. A call that blocks ends at its \<^verbatim>\<open>rt_schedule\<close>; the rest of it is recorded and runs when the
  thread has the processor again. \<^verbatim>\<open>Rt_Inv\<close> states the invariant over the map of lists; \<^verbatim>\<open>Rt_Steps\<close>,
  \<^verbatim>\<open>Rt_Timer_Steps\<close>, \<^verbatim>\<open>Rt_Ops\<close>, \<^verbatim>\<open>Rt_Switch\<close>, \<^verbatim>\<open>Rt_Wait\<close>, \<^verbatim>\<open>Rt_Clock\<close> show that each primitive keeps it and what it
  does to the map; \<^verbatim>\<open>Rt_System\<close> (the tick), \<^verbatim>\<open>Rt_Calls\<close>, \<^verbatim>\<open>Rt_Wake\<close> (blocking and waking calls) and
  \<^verbatim>\<open>Rt_Mailbox\<close> (the ring buffer) lift this to whole calls; \<^verbatim>\<open>Rt_Sys\<close> states the invariant of the
  running system and \<^verbatim>\<open>Rt_Sys_Ipc\<close>, \<^verbatim>\<open>Rt_Reach\<close> show that every call and every clock interrupt keeps it.
  \<^verbatim>\<open>Rt_Extend\<close>, \<^verbatim>\<open>Rt_Create\<close>, \<^verbatim>\<open>Rt_Boot\<close>, \<^verbatim>\<open>Rt_Start\<close> do this for the calls that create objects, \<^verbatim>\<open>Rt_Reset\<close> for
  the way from reset to the first thread. \<^verbatim>\<open>Rt_Props\<close> defines the states reachable from reset as an
  inductive predicate over the calls of the running thread and the clock interrupts; \<^verbatim>\<open>Rt_Claims\<close> and
  \<^verbatim>\<open>Rt_Wait_Claims\<close> hold what the kernel promises in all of them: calls are defined, the highest thread
  runs, equals take turns, a sleep takes the time asked for, semaphores and mailboxes keep their contracts.
  \<^verbatim>\<open>Rt_Bitmap\<close> has the bit search.

  \<^bold>\<open>RT-Thread services.\<close> \<^verbatim>\<open>Rt_Bytes\<close> has the memory and string functions over a map from addresses to
  bytes; \<^verbatim>\<open>Rt_Bytes_Props\<close> shows that the word-wise loops do what a byte-wise description says. \<^verbatim>\<open>Rt_Printf\<close>
  models \<^verbatim>\<open>rt_vsnprintf\<close> with its variants and the console; \<^verbatim>\<open>Rt_Printf_Props\<close> relates it to the text that a
  directive stands for, at every buffer size. \<^verbatim>\<open>Rt_Mem\<close> models the small-memory heap on the bytes of
  its block headers. \<^verbatim>\<open>Rt_Mem_Inv\<close> relates them to a list of blocks, \<^verbatim>\<open>Rt_Mem_Ops\<close>, \<^verbatim>\<open>Rt_Heap\<close> and \<^verbatim>\<open>Rt_Resize\<close> show
  what each operation does to that list and to the bytes in use, \<^verbatim>\<open>Rt_Heap_Run\<close> follows a program that
  allocates, resizes, frees and writes, and \<^verbatim>\<open>Rt_Heap_Claims\<close> holds the properties of the heap.
  \<^verbatim>\<open>Rt_Shell\<close> models the shell thread with its line editor and the running of a line
  (\<^verbatim>\<open>components/finsh\<close>); an access outside the line is \<^verbatim>\<open>None\<close>. \<^verbatim>\<open>Rt_Shell_Props\<close> relates the keys to a text with a
  cursor and to what a terminal shows, \<^verbatim>\<open>Rt_Shell_Split\<close> the splitting of a line to its words, and
  \<^verbatim>\<open>Rt_Shell_Claims\<close> holds the properties of the editor and of a line.

  \<^bold>\<open>Loops.\<close> Loops with a bound in the code are structural recursion or have a measure; loops that may
  not end are partial functions into \<^verbatim>\<open>option\<close>, and that they end is proved where it holds. No fuel is used
  except the number of instructions or rounds that the code itself takes as an argument.

  \<^bold>\<open>Not modelled.\<close> Input and output of the host (files, argument parsing, SDL drawing, logging), the other
  instruction sets of NEMU, vendored tools, the RTL, assembly beyond what a context switch and a trap
  entry do to the saved frames; of RT-Thread the parts \<^verbatim>\<open>rtconfig.h\<close> switches off (slab, memory heaps and pools,
  mutexes, events, message queues, soft timers; history, password and file system of the shell), the commands that
  only list kernel objects, and an interrupt between the critical
  section of a blocking call and its \<^verbatim>\<open>rt_schedule\<close>.
\<close>

end
